(* ===== verification/RustBase.thy ===== *)
theory RustBase
  imports Main "HOL-Library.Word" "HOL-Library.Sublist" "HOL-Library.Code_Target_Nat"
begin

text \<open>
  The prelude: what every component uses of Rust and its standard library.

  A Rust \<^verbatim>\<open>&str\<close> is its UTF-8 bytes, a \<^typ>\<open>string\<close> with one \<^typ>\<open>char\<close> per byte, so
  \<^verbatim>\<open>str::len\<close> is \<^const>\<open>length\<close>.  Operations that look at Unicode scalar values
  (\<^verbatim>\<open>chars\<close>, \<^verbatim>\<open>trim\<close>, \<^verbatim>\<open>split_whitespace\<close>) go through \<open>groups\<close>, which cuts the bytes
  before every byte that is not a continuation byte, and \<open>code_point\<close>, which decodes one
  group.  A fallible function returns \<open>error + 'a\<close>, \<^const>\<open>Inl\<close> for the error, chained with
  \<open>rbind\<close> as the \<^verbatim>\<open>?\<close> operator does.
\<close>

named_theorems result_simps \<open>inversion of results that are known to be an error or a value\<close>
named_theorems str_simps \<open>rewriting of the string operations\<close>

section \<open>Results\<close>

definition rbind :: "'e + 'a \<Rightarrow> ('a \<Rightarrow> 'e + 'b) \<Rightarrow> 'e + 'b" where
  "rbind m f = (case m of Inl e \<Rightarrow> Inl e | Inr x \<Rightarrow> f x)"

definition rmap_err :: "('e \<Rightarrow> 'f) \<Rightarrow> 'e + 'a \<Rightarrow> 'f + 'a" where
  "rmap_err g m = (case m of Inl e \<Rightarrow> Inl (g e) | Inr x \<Rightarrow> Inr x)"

definition ok_or :: "'e \<Rightarrow> 'a option \<Rightarrow> 'e + 'a" where
  "ok_or e x = (case x of None \<Rightarrow> Inl e | Some y \<Rightarrow> Inr y)"

definition is_ok :: "'e + 'a \<Rightarrow> bool" where
  "is_ok m = (case m of Inl e \<Rightarrow> False | Inr x \<Rightarrow> True)"

text \<open>A \<^verbatim>\<open>for\<close> loop whose body may return early with an error.\<close>

fun rfold :: "('a \<Rightarrow> 's \<Rightarrow> 'e + 's) \<Rightarrow> 'a list \<Rightarrow> 's \<Rightarrow> 'e + 's" where
  "rfold f [] s = Inr s"
| "rfold f (x # xs) s = rbind (f x s) (rfold f xs)"

lemma rbind_simps [simp]: "rbind (Inl e) f = Inl e" "rbind (Inr x) f = f x"
  by (simp_all add: rbind_def)

lemma rmap_err_simps [simp]: "rmap_err g (Inl e) = Inl (g e)" "rmap_err g (Inr x) = Inr x"
  by (simp_all add: rmap_err_def)

lemma ok_or_simps [simp]: "ok_or e None = Inl e" "ok_or e (Some x) = Inr x"
  by (simp_all add: ok_or_def)

lemma is_ok_simps [simp]: "\<not> is_ok (Inl e)" "is_ok (Inr x)"
  by (simp_all add: is_ok_def)

lemma rbind_Inr_iff [result_simps]: "rbind m f = Inr y \<longleftrightarrow> (\<exists>x. m = Inr x \<and> f x = Inr y)"
  by (cases m) auto

lemma rmap_err_Inr_iff [result_simps]: "rmap_err g m = Inr y \<longleftrightarrow> m = Inr y"
  by (cases m) auto

lemma ok_or_Inr_iff [result_simps]: "ok_or e m = Inr y \<longleftrightarrow> m = Some y"
  by (cases m) auto

lemma if_Inl_Inr_iff [result_simps]:
  "(if b then Inl e else m) = Inr y \<longleftrightarrow> \<not> b \<and> m = Inr y"
  by auto

lemma is_ok_iff: "is_ok m \<longleftrightarrow> (\<exists>x. m = Inr x)"
  by (cases m) auto

lemma is_ok_rbind [simp]: "is_ok (rbind m f) \<longleftrightarrow> (\<exists>x. m = Inr x \<and> is_ok (f x))"
  by (cases m) auto

lemma rfold_append: "rfold f (xs @ ys) s = rbind (rfold f xs s) (rfold f ys)"
proof (induction xs arbitrary: s)
  case (Cons x xs)
  then show ?case by (cases "f x s") simp_all
qed simp

text \<open>A loop invariant holds after the loop when every iteration that succeeds keeps it.\<close>

lemma rfold_invariant:
  assumes "rfold f xs s = Inr s'" and "P s"
    and "\<And>x s s'. x \<in> set xs \<Longrightarrow> P s \<Longrightarrow> f x s = Inr s' \<Longrightarrow> P s'"
  shows "P s'"
  using assms
proof (induction xs arbitrary: s)
  case (Cons x xs)
  from Cons.prems(1) obtain s1 where s1: "f x s = Inr s1" and rest: "rfold f xs s1 = Inr s'"
    by (auto simp: result_simps)
  have "P s1" by (rule Cons.prems(3)[OF _ Cons.prems(2) s1]) simp
  with rest show ?case by (rule Cons.IH) (rule Cons.prems(3), auto)
qed simp

text \<open>The same for an invariant that counts the iterations.\<close>

lemma rfold_indexed:
  assumes "rfold f xs s = Inr s'" and "P k s"
    and "\<And>i x s s'. k \<le> i \<Longrightarrow> i < k + length xs \<Longrightarrow> P i s \<Longrightarrow> f x s = Inr s' \<Longrightarrow> x \<in> set xs \<Longrightarrow> P (Suc i) s'"
  shows "P (k + length xs) s'"
  using assms
proof (induction xs arbitrary: s k)
  case (Cons x xs)
  from Cons.prems(1) obtain s1 where s1: "f x s = Inr s1" and rest: "rfold f xs s1 = Inr s'"
    by (auto simp: result_simps)
  have "P (Suc k) s1" by (rule Cons.prems(3)[OF _ _ Cons.prems(2) s1]) simp_all
  have "P (Suc k + length xs) s'"
    by (rule Cons.IH[where k = "Suc k", OF rest \<open>P (Suc k) s1\<close>]) (rule Cons.prems(3), auto)
  then show ?case by simp
qed simp

section \<open>Machine integers\<close>

text \<open>
  Values that are only stored, compared or printed are words of the source's width.  Counters
  that the code bumps with \<^verbatim>\<open>saturating_add\<close> are naturals with the ceiling written out.
\<close>

type_synonym u8 = "8 word"
type_synonym u16 = "16 word"
type_synonym u32 = "32 word"
type_synonym u64 = "64 word"

definition u64_max :: nat where
  "u64_max = 2 ^ 64 - 1"

definition saturating_add64 :: "nat \<Rightarrow> nat \<Rightarrow> nat" where
  "saturating_add64 a b = min (a + b) u64_max"

lemma saturating_add64_le [simp]: "saturating_add64 a b \<le> u64_max"
  by (simp add: saturating_add64_def)

lemma saturating_add64_mono: "a \<le> u64_max \<Longrightarrow> a \<le> saturating_add64 a b"
  by (simp add: saturating_add64_def)

lemma saturating_add64_Suc [simp]: "a < u64_max \<Longrightarrow> saturating_add64 a (Suc 0) = Suc a"
  by (simp add: saturating_add64_def)

lemma saturating_add64_pos [simp]: "0 < saturating_add64 a (Suc 0)"
  by (simp add: saturating_add64_def u64_max_def)

lemma saturating_add64_grows: "a \<le> u64_max \<Longrightarrow> a \<le> saturating_add64 a (Suc 0)"
  by (simp add: saturating_add64_def)

end
