(* ===== verification/RustStr.thy ===== *)
theory RustStr
  imports RustBase
begin

text \<open>
  Rust's \<^verbatim>\<open>str\<close> and \<^verbatim>\<open>char\<close> as the code uses them, over the UTF-8 bytes of the string.
\<close>

section \<open>Bytes\<close>

text \<open>Byte values, kept as a function of its own so that evaluation goes byte by byte.\<close>

definition byte :: "char \<Rightarrow> nat" where
  "byte c = of_char c"

definition is_ascii_upper :: "char \<Rightarrow> bool" where
  "is_ascii_upper c \<longleftrightarrow> 65 \<le> byte c \<and> byte c \<le> 90"

definition is_ascii_lower :: "char \<Rightarrow> bool" where
  "is_ascii_lower c \<longleftrightarrow> 97 \<le> byte c \<and> byte c \<le> 122"

definition is_ascii_digit :: "char \<Rightarrow> bool" where
  "is_ascii_digit c \<longleftrightarrow> 48 \<le> byte c \<and> byte c \<le> 57"

definition is_ascii_alphabetic :: "char \<Rightarrow> bool" where
  "is_ascii_alphabetic c \<longleftrightarrow> is_ascii_upper c \<or> is_ascii_lower c"

definition is_ascii_alphanumeric :: "char \<Rightarrow> bool" where
  "is_ascii_alphanumeric c \<longleftrightarrow> is_ascii_alphabetic c \<or> is_ascii_digit c"

definition is_ascii_hexdigit :: "char \<Rightarrow> bool" where
  "is_ascii_hexdigit c \<longleftrightarrow>
     is_ascii_digit c \<or> (65 \<le> byte c \<and> byte c \<le> 70) \<or> (97 \<le> byte c \<and> byte c \<le> 102)"

definition ascii_lower :: "char \<Rightarrow> char" where
  "ascii_lower c = (if is_ascii_upper c then char_of (byte c + 32) else c)"

definition to_ascii_lowercase :: "string \<Rightarrow> string" where
  "to_ascii_lowercase s = map ascii_lower s"

definition eq_ignore_ascii_case :: "string \<Rightarrow> string \<Rightarrow> bool" where
  "eq_ignore_ascii_case a b \<longleftrightarrow> to_ascii_lowercase a = to_ascii_lowercase b"

lemma eq_ignore_ascii_case_refl [simp]: "eq_ignore_ascii_case a a"
  by (simp add: eq_ignore_ascii_case_def)

lemma eq_ignore_ascii_case_sym: "eq_ignore_ascii_case a b \<longleftrightarrow> eq_ignore_ascii_case b a"
  by (auto simp: eq_ignore_ascii_case_def)

lemma eq_ignore_ascii_case_trans:
  "eq_ignore_ascii_case a b \<Longrightarrow> eq_ignore_ascii_case b c \<Longrightarrow> eq_ignore_ascii_case a c"
  by (simp add: eq_ignore_ascii_case_def)

lemma ascii_lower_not_upper: "\<not> is_ascii_upper (ascii_lower c)"
  by (auto simp: ascii_lower_def is_ascii_upper_def byte_def of_char_of)

lemma ascii_lower_idem [simp]: "ascii_lower (ascii_lower c) = ascii_lower c"
  using ascii_lower_not_upper[of c] by (subst ascii_lower_def) simp

lemma to_ascii_lowercase_idem [simp]:
  "to_ascii_lowercase (to_ascii_lowercase s) = to_ascii_lowercase s"
  by (simp add: to_ascii_lowercase_def)

lemma length_to_ascii_lowercase [simp]: "length (to_ascii_lowercase s) = length s"
  by (simp add: to_ascii_lowercase_def)

lemma to_ascii_lowercase_append [simp]:
  "to_ascii_lowercase (s @ t) = to_ascii_lowercase s @ to_ascii_lowercase t"
  by (simp add: to_ascii_lowercase_def)

lemma eq_ignore_ascii_case_lower_right [simp]:
  "eq_ignore_ascii_case a (to_ascii_lowercase b) = eq_ignore_ascii_case a b"
  by (simp add: eq_ignore_ascii_case_def)

section \<open>Scalar values\<close>

text \<open>A continuation byte of UTF-8 is \<^verbatim>\<open>10xxxxxx\<close>.\<close>

definition is_cont :: "char \<Rightarrow> bool" where
  "is_cont c \<longleftrightarrow> 128 \<le> byte c \<and> byte c < 192"

function groups :: "string \<Rightarrow> string list" where
  "groups [] = []"
| "groups (c # cs) = (c # takeWhile is_cont cs) # groups (dropWhile is_cont cs)"
  by pat_completeness auto
termination
  by (relation "measure length") (auto simp: le_imp_less_Suc length_dropWhile_le)

fun code_point :: "string \<Rightarrow> nat" where
  "code_point [a] = byte a"
| "code_point [a, b] = (byte a mod 32) * 64 + byte b mod 64"
| "code_point [a, b, c] = ((byte a mod 16) * 64 + byte b mod 64) * 64 + byte c mod 64"
| "code_point [a, b, c, d] =
     (((byte a mod 8) * 64 + byte b mod 64) * 64 + byte c mod 64) * 64 + byte d mod 64"
| "code_point _ = 65533"

definition chars :: "string \<Rightarrow> nat list" where
  "chars s = map code_point (groups s)"

text \<open>\<^verbatim>\<open>char::is_control\<close> (general category Cc) and \<^verbatim>\<open>char::is_whitespace\<close> (White_Space).\<close>

definition cp_is_control :: "nat \<Rightarrow> bool" where
  "cp_is_control n \<longleftrightarrow> n < 32 \<or> (127 \<le> n \<and> n < 160)"

definition cp_is_whitespace :: "nat \<Rightarrow> bool" where
  "cp_is_whitespace n \<longleftrightarrow>
     (9 \<le> n \<and> n \<le> 13) \<or> n = 32 \<or> n = 133 \<or> n = 160 \<or> n = 5760 \<or> (8192 \<le> n \<and> n \<le> 8202)
     \<or> n = 8232 \<or> n = 8233 \<or> n = 8239 \<or> n = 8287 \<or> n = 12288"

definition any_control :: "string \<Rightarrow> bool" where
  "any_control s \<longleftrightarrow> list_ex cp_is_control (chars s)"

definition any_whitespace :: "string \<Rightarrow> bool" where
  "any_whitespace s \<longleftrightarrow> list_ex cp_is_whitespace (chars s)"

definition is_ws_group :: "string \<Rightarrow> bool" where
  "is_ws_group g = cp_is_whitespace (code_point g)"

definition trim_list :: "('a \<Rightarrow> bool) \<Rightarrow> 'a list \<Rightarrow> 'a list" where
  "trim_list p xs = rev (dropWhile p (rev (dropWhile p xs)))"

text \<open>\<^verbatim>\<open>str::trim\<close>, \<^verbatim>\<open>trim_start\<close> and \<^verbatim>\<open>trim_matches\<close> for a set of ASCII characters.\<close>

definition trim :: "string \<Rightarrow> string" where
  "trim s = concat (trim_list is_ws_group (groups s))"

definition trim_start :: "string \<Rightarrow> string" where
  "trim_start s = concat (dropWhile is_ws_group (groups s))"

definition trim_matches :: "(char \<Rightarrow> bool) \<Rightarrow> string \<Rightarrow> string" where
  "trim_matches p s = trim_list p s"

subsection \<open>Grouping is lossless, and trimming is idempotent\<close>

lemma concat_groups [simp]: "concat (groups s) = s"
  by (induction s rule: groups.induct) simp_all

lemma groups_eq_Nil [simp]: "groups s = [] \<longleftrightarrow> s = []"
  by (cases s) simp_all

text \<open>The shape of what \<open>groups\<close> returns: every group but the first starts a scalar value.\<close>

definition is_group :: "string \<Rightarrow> bool" where
  "is_group g \<longleftrightarrow> g \<noteq> [] \<and> list_all is_cont (tl g)"

definition starts :: "string \<Rightarrow> bool" where
  "starts g \<longleftrightarrow> g \<noteq> [] \<and> \<not> is_cont (hd g)"

lemma groups_is_group: "list_all is_group (groups s)"
  by (induction s rule: groups.induct) (auto simp: is_group_def list_all_iff dest: set_takeWhileD)

lemma starts_dropWhile_cont: "dropWhile is_cont cs = [] \<or> starts (dropWhile is_cont cs)"
  by (metis hd_dropWhile starts_def)

lemma groups_starts: "s = [] \<or> starts s \<Longrightarrow> list_all starts (groups s)"
proof (induction s rule: groups.induct)
  case (2 c cs)
  then show ?case using starts_dropWhile_cont[of cs] by (simp add: starts_def)
qed simp

lemma groups_starts_tl: "list_all starts (tl (groups s))"
proof (cases s)
  case (Cons c cs)
  have "list_all starts (groups (dropWhile is_cont cs))"
    by (rule groups_starts) (rule starts_dropWhile_cont)
  with Cons show ?thesis by simp
qed simp

lemma groups_append_starts:
  assumes "is_group g" and "rest = [] \<or> starts rest"
  shows "groups (g @ rest) = g # groups rest"
proof -
  obtain c cs where g: "g = c # cs" and cs: "list_all is_cont cs"
    using assms(1) by (cases g) (auto simp: is_group_def)
  have "takeWhile is_cont (cs @ rest) = cs" and "dropWhile is_cont (cs @ rest) = rest"
    using cs assms(2)
    by (auto simp: list_all_iff starts_def takeWhile_append2 dropWhile_append2
        split: list.splits) (cases rest; simp add: starts_def)+
  with g show ?thesis by simp
qed

lemma groups_concat:
  "list_all is_group gs \<Longrightarrow> list_all starts (tl gs) \<Longrightarrow> groups (concat gs) = gs"
proof (induction gs)
  case (Cons g gs)
  have "concat gs = [] \<or> starts (concat gs)"
    using Cons.prems by (cases gs) (auto simp: starts_def)
  moreover have "list_all starts (tl gs)"
    using Cons.prems(2) by (cases gs) auto
  ultimately show ?case
    using Cons by (simp add: groups_append_starts)
qed simp

lemma trim_list_sublist: "\<exists>ps qs. xs = ps @ trim_list p xs @ qs"
proof -
  have "xs = takeWhile p xs @ dropWhile p xs" by simp
  moreover have "dropWhile p xs =
      trim_list p xs @ rev (takeWhile p (rev (dropWhile p xs)))"
    unfolding trim_list_def by (metis rev_append rev_rev_ident takeWhile_dropWhile_id)
  ultimately show ?thesis by metis
qed

lemma groups_sublist:
  assumes "groups s = ps @ gs @ qs"
  shows "groups (concat gs) = gs"
proof (rule groups_concat)
  show "list_all is_group gs"
    using groups_is_group[of s] assms by simp
  show "list_all starts (tl gs)"
    using groups_starts_tl[of s] assms by (cases ps; cases gs) auto
qed

lemma groups_trim: "groups (trim s) = trim_list is_ws_group (groups s)"
  unfolding trim_def using trim_list_sublist[of "groups s" is_ws_group]
  by (metis groups_sublist)

lemma dropWhile_eq_self: "xs = [] \<or> \<not> p (hd xs) \<Longrightarrow> dropWhile p xs = xs"
  by (cases xs) auto

lemma hd_trim_list: "trim_list p xs \<noteq> [] \<Longrightarrow> \<not> p (hd (trim_list p xs))"
proof -
  assume ne: "trim_list p xs \<noteq> []"
  let ?d = "dropWhile p xs"
  from ne have d: "?d \<noteq> []" by (intro notI) (simp add: trim_list_def)
  then have "\<not> p (hd ?d)" by (metis hd_dropWhile)
  moreover have "?d = trim_list p xs @ rev (takeWhile p (rev ?d))"
    unfolding trim_list_def by (metis rev_append rev_rev_ident takeWhile_dropWhile_id)
  ultimately show ?thesis using ne by (metis hd_append2)
qed

lemma last_trim_list: "trim_list p xs \<noteq> [] \<Longrightarrow> \<not> p (last (trim_list p xs))"
proof -
  assume "trim_list p xs \<noteq> []"
  then have ne: "dropWhile p (rev (dropWhile p xs)) \<noteq> []" by (simp add: trim_list_def)
  then have "last (trim_list p xs) = hd (dropWhile p (rev (dropWhile p xs)))"
    unfolding trim_list_def by (metis last_rev)
  with hd_dropWhile[OF ne] show ?thesis by metis
qed

lemma trim_list_id:
  "xs = [] \<or> (\<not> p (hd xs) \<and> \<not> p (last xs)) \<Longrightarrow> trim_list p xs = xs"
  by (cases xs rule: rev_cases) (auto simp: trim_list_def dropWhile_eq_self)

lemma trim_list_idem [simp]: "trim_list p (trim_list p xs) = trim_list p xs"
  using hd_trim_list last_trim_list by (metis trim_list_id)

lemma trim_trim [simp]: "trim (trim s) = trim s"
  by (subst trim_def) (simp add: groups_trim flip: trim_def)

lemma trim_Nil [simp]: "trim [] = []"
  by (simp add: trim_def trim_list_def)

lemma set_trim_list: "set (trim_list p xs) \<subseteq> set xs"
  unfolding trim_list_def by (metis set_dropWhileD set_rev subsetI)

lemma trim_list_length: "length (trim_list p xs) \<le> length xs"
  unfolding trim_list_def by (metis length_dropWhile_le length_rev le_trans)

lemma set_trim: "set (trim s) \<subseteq> set s"
proof -
  have "set (trim s) = (\<Union>g \<in> set (trim_list is_ws_group (groups s)). set g)"
    by (simp add: trim_def)
  also have "\<dots> \<subseteq> (\<Union>g \<in> set (groups s). set g)"
    using set_trim_list[of is_ws_group "groups s"] by blast
  also have "\<dots> = set (concat (groups s))" by (simp only: set_concat)
  finally show ?thesis by (simp only: concat_groups)
qed

lemma length_trim: "length (trim s) \<le> length s"
proof -
  obtain ps qs where "groups s = ps @ trim_list is_ws_group (groups s) @ qs"
    using trim_list_sublist by blast
  then have "concat (groups s) = concat ps @ trim s @ concat qs"
    by (metis concat_append trim_def)
  then have "length s = length (concat ps) + length (trim s) + length (concat qs)"
    by (metis add.assoc concat_groups length_append)
  then show ?thesis by simp
qed

lemma chars_trim: "set (chars (trim s)) \<subseteq> set (chars s)"
  unfolding chars_def groups_trim using set_trim_list by fastforce

lemma any_control_trim: "\<not> any_control s \<Longrightarrow> \<not> any_control (trim s)"
  using chars_trim by (auto simp: any_control_def list_ex_iff)

text \<open>A string without white space is its own trim.\<close>

lemma trim_id: "\<not> any_whitespace s \<Longrightarrow> trim s = s"
proof -
  assume "\<not> any_whitespace s"
  then have "\<forall>g \<in> set (groups s). \<not> is_ws_group g"
    by (auto simp: any_whitespace_def chars_def list_ex_iff is_ws_group_def)
  then have "trim_list is_ws_group (groups s) = groups s"
    by (intro trim_list_id) (metis last_in_set list.set_sel(1))
  then show ?thesis by (simp add: trim_def)
qed

section \<open>Searching and splitting\<close>

definition starts_with :: "string \<Rightarrow> string \<Rightarrow> bool" where
  "starts_with s p \<longleftrightarrow> take (length p) s = p"

definition ends_with :: "string \<Rightarrow> string \<Rightarrow> bool" where
  "ends_with s p \<longleftrightarrow> length p \<le> length s \<and> drop (length s - length p) s = p"

fun str_contains :: "string \<Rightarrow> string \<Rightarrow> bool" where
  "str_contains [] p = (p = [])"
| "str_contains (c # cs) p = (starts_with (c # cs) p \<or> str_contains cs p)"

lemma starts_with_append [simp]: "starts_with (p @ s) p"
  by (simp add: starts_with_def)

lemma starts_with_prefix: "starts_with s p \<longleftrightarrow> prefix p s"
  by (metis append_eq_conv_conj prefix_def starts_with_def)

lemma str_contains_iff: "str_contains s p \<longleftrightarrow> (\<exists>a b. s = a @ p @ b)"
proof (induction s)
  case Nil
  then show ?case by auto
next
  case (Cons c cs)
  show ?case
  proof
    assume "str_contains (c # cs) p"
    then show "\<exists>a b. c # cs = a @ p @ b"
      using Cons by (metis append_Cons append_Nil prefix_def starts_with_prefix str_contains.simps(2))
  next
    assume "\<exists>a b. c # cs = a @ p @ b"
    then obtain a b where ab: "c # cs = a @ p @ b" by blast
    then show "str_contains (c # cs) p"
    proof (cases a)
      case Nil
      with ab have "starts_with (c # cs) p" by simp
      then show ?thesis by simp
    next
      case (Cons x xs)
      with ab have "cs = xs @ p @ b" by simp
      with Cons.IH show ?thesis by auto
    qed
  qed
qed

text \<open>A prefix test by recursion, for evaluation.\<close>

fun strip_prefix :: "string \<Rightarrow> string \<Rightarrow> string option" where
  "strip_prefix [] ys = Some ys"
| "strip_prefix (x # xs) [] = None"
| "strip_prefix (x # xs) (y # ys) = (if x = y then strip_prefix xs ys else None)"

lemma strip_prefix_iff: "strip_prefix p s = Some r \<longleftrightarrow> s = p @ r"
  by (induction p s rule: strip_prefix.induct) auto

lemma strip_prefix_None: "strip_prefix p s = None \<longleftrightarrow> take (length p) s \<noteq> p"
  by (induction p s rule: strip_prefix.induct) auto

lemma starts_with_code [code]: "starts_with s p = (case strip_prefix p s of None \<Rightarrow> False | Some _ \<Rightarrow> True)"
  by (auto simp: starts_with_def strip_prefix_iff strip_prefix_None split: option.splits)

text \<open>\<^verbatim>\<open>str::split\<close> on a set of ASCII characters: always at least one piece.\<close>

fun split_on :: "(char \<Rightarrow> bool) \<Rightarrow> string \<Rightarrow> string list" where
  "split_on p [] = [[]]"
| "split_on p (c # cs) =
     (if p c then [] # split_on p cs
      else (case split_on p cs of [] \<Rightarrow> [[c]] | w # ws \<Rightarrow> (c # w) # ws))"

fun split_ws_groups :: "string list \<Rightarrow> string list" where
  "split_ws_groups [] = [[]]"
| "split_ws_groups (g # gs) =
     (if is_ws_group g then [] # split_ws_groups gs
      else (case split_ws_groups gs of [] \<Rightarrow> [g] | w # ws \<Rightarrow> (g @ w) # ws))"

definition split_whitespace :: "string \<Rightarrow> string list" where
  "split_whitespace s = filter (\<lambda>w. w \<noteq> []) (split_ws_groups (groups s))"

text \<open>\<^verbatim>\<open>split_once\<close> at an ASCII character.\<close>

fun split_once :: "char \<Rightarrow> string \<Rightarrow> (string \<times> string) option" where
  "split_once d [] = None"
| "split_once d (c # cs) =
     (if c = d then Some ([], cs)
      else map_option (\<lambda>(a, b). (c # a, b)) (split_once d cs))"

lemma split_once_Some: "split_once d s = Some (a, b) \<longleftrightarrow> s = a @ d # b \<and> d \<notin> set a"
proof (induction s arbitrary: a)
  case (Cons c cs)
  have split: "split_once d (c # cs) = Some (a, b) \<longleftrightarrow>
      (if c = d then a = [] \<and> b = cs else \<exists>a'. a = c # a' \<and> split_once d cs = Some (a', b))"
    by auto
  show ?case unfolding split Cons.IH by (cases a) auto
qed simp

section \<open>Decimal numbers\<close>

fun dec :: "nat \<Rightarrow> string" where
  "dec n = (if n < 10 then [char_of (48 + n)] else dec (n div 10) @ [char_of (48 + n mod 10)])"

declare dec.simps [simp del]

lemma dec_nonempty [simp]: "dec n \<noteq> []"
  by (subst dec.simps) auto

end
