(* ===== verification/Model.thy ===== *)
theory Model
  imports RustStr
begin

text \<open>
  The data model shared by every component: \<^verbatim>\<open>crates/remotedeck-core/src/model.rs\<close> and the
  error type of \<^verbatim>\<open>error.rs\<close>.  A struct is a record whose fields carry the struct's initials as
  a prefix; a Rust enum is a datatype.  Timestamps are only copied and are integers.  The
  serde attributes (names of JSON fields) are not modelled.
\<close>

type_synonym timestamp = int

section \<open>Errors\<close>

text \<open>The payloads of the library errors (\<^verbatim>\<open>Io\<close>, \<^verbatim>\<open>Json\<close>, \<^verbatim>\<open>Archive\<close>) are their messages.\<close>

datatype app_error =
    Io string
  | State string
  | Validation string
  | NotFound string
  | MissingExecutable string
  | Process string
  | ProcessCleanup string
  | Cancelled
  | Timeout string
  | Json string
  | Archive string

type_synonym 'a app_result = "app_error + 'a"

fun app_error_display :: "app_error \<Rightarrow> string" where
  "app_error_display (Io m) = ''I/O error: '' @ m"
| "app_error_display (State m) = ''state error: '' @ m"
| "app_error_display (Validation m) = ''invalid input: '' @ m"
| "app_error_display (NotFound m) = ''not found: '' @ m"
| "app_error_display (MissingExecutable m) = ''required executable is unavailable: '' @ m"
| "app_error_display (Process m) = ''process failed: '' @ m"
| "app_error_display (ProcessCleanup m) = ''process cleanup failed: '' @ m"
| "app_error_display Cancelled = ''operation cancelled''"
| "app_error_display (Timeout m) = ''operation timed out: '' @ m"
| "app_error_display (Json m) = ''serialization error: '' @ m"
| "app_error_display (Archive m) = ''archive error: '' @ m"

section \<open>Hosts\<close>

record ssh_advanced_options =
  sao_connect_timeout_seconds :: u64
  sao_server_alive_interval_seconds :: u64
  sao_server_alive_count_max :: u32
  sao_tcp_keep_alive :: bool
  sao_compression :: bool
  sao_identities_only :: bool

definition default_ssh_advanced_options :: ssh_advanced_options where
  "default_ssh_advanced_options =
     \<lparr>sao_connect_timeout_seconds = 15,
      sao_server_alive_interval_seconds = 30,
      sao_server_alive_count_max = 3,
      sao_tcp_keep_alive = True,
      sao_compression = False,
      sao_identities_only = False\<rparr>"

record ssh_advanced_patch =
  sap_connect_timeout_seconds :: "u64 option"
  sap_server_alive_interval_seconds :: "u64 option"
  sap_server_alive_count_max :: "u32 option"
  sap_tcp_keep_alive :: "bool option"
  sap_compression :: "bool option"
  sap_identities_only :: "bool option"

text \<open>\<^verbatim>\<open>#[derive(Default)]\<close>: nothing patched.\<close>

definition default_ssh_advanced_patch :: ssh_advanced_patch where
  "default_ssh_advanced_patch = \<lparr>sap_connect_timeout_seconds = None,
     sap_server_alive_interval_seconds = None, sap_server_alive_count_max = None,
     sap_tcp_keep_alive = None, sap_compression = None, sap_identities_only = None\<rparr>"

definition with_some :: "'a option \<Rightarrow> ('a \<Rightarrow> 's \<Rightarrow> 's) \<Rightarrow> 's \<Rightarrow> 's" where
  "with_some x f s = (case x of None \<Rightarrow> s | Some v \<Rightarrow> f v s)"

definition apply_to :: "ssh_advanced_patch \<Rightarrow> ssh_advanced_options \<Rightarrow> ssh_advanced_options" where
  "apply_to p value =
     (let value = with_some (sap_connect_timeout_seconds p)
            (\<lambda>next v. v\<lparr>sao_connect_timeout_seconds := next\<rparr>) value;
          value = with_some (sap_server_alive_interval_seconds p)
            (\<lambda>next v. v\<lparr>sao_server_alive_interval_seconds := next\<rparr>) value;
          value = with_some (sap_server_alive_count_max p)
            (\<lambda>next v. v\<lparr>sao_server_alive_count_max := next\<rparr>) value;
          value = with_some (sap_tcp_keep_alive p)
            (\<lambda>next v. v\<lparr>sao_tcp_keep_alive := next\<rparr>) value;
          value = with_some (sap_compression p)
            (\<lambda>next v. v\<lparr>sao_compression := next\<rparr>) value;
          value = with_some (sap_identities_only p)
            (\<lambda>next v. v\<lparr>sao_identities_only := next\<rparr>) value
      in value)"

datatype auth_method = Interactive | PrivateKey | Agent

record host_profile =
  hp_schema_version :: u8
  hp_id :: string
  hp_alias :: string
  hp_hostname :: string
  hp_port :: u16
  hp_username :: string
  hp_auth_method :: auth_method
  hp_identity_file :: "string option"
  hp_proxy_jump :: "string option"
  hp_default_workspace :: string
  hp_groups :: "string list"
  hp_advanced :: ssh_advanced_options
  hp_monitor_enabled :: bool
  hp_created_at :: timestamp
  hp_updated_at :: timestamp

record host_draft =
  hd_id :: "string option"
  hd_alias :: string
  hd_hostname :: string
  hd_port :: u16
  hd_username :: string
  hd_auth_method :: "auth_method option"
  hd_identity_file :: "string option"
  hd_proxy_jump :: "string option"
  hd_default_workspace :: "string option"
  hd_groups :: "string list"
  hd_advanced :: "ssh_advanced_patch option"
  hd_monitor_enabled :: "bool option"

section \<open>Tunnels\<close>

datatype tunnel_direction = LocalForward | RemoteForward

datatype tunnel_health_check_kind = HealthNone | HealthTcp

record tunnel_health_check =
  thc_kind :: tunnel_health_check_kind
  thc_interval_seconds :: u64
  thc_timeout_seconds :: u64

definition default_tunnel_health_check :: tunnel_health_check where
  "default_tunnel_health_check =
     \<lparr>thc_kind = HealthNone, thc_interval_seconds = 30, thc_timeout_seconds = 5\<rparr>"

record tunnel_profile =
  tp_schema_version :: u8
  tp_id :: string
  tp_host_id :: string
  tp_name :: string
  tp_direction :: tunnel_direction
  tp_bind_address :: string
  tp_source_port :: u16
  tp_target_host :: string
  tp_target_port :: u16
  tp_auto_start :: bool
  tp_auto_reconnect :: bool
  tp_health_check :: "tunnel_health_check option"
  tp_created_at :: timestamp
  tp_updated_at :: timestamp

record tunnel_draft =
  td_id :: "string option"
  td_host_id :: string
  td_name :: string
  td_direction :: tunnel_direction
  td_bind_address :: string
  td_source_port :: u16
  td_target_host :: string
  td_target_port :: u16
  td_auto_start :: "bool option"
  td_auto_reconnect :: "bool option"
  td_health_check :: "tunnel_health_check option"

section \<open>Settings\<close>

record app_settings =
  as_schema_version :: u8
  as_terminal_font_family :: string
  as_terminal_font_size :: u8
  as_telemetry_interval_seconds :: u64
  as_telemetry_retention_minutes :: u64
  as_download_directory :: string
  as_auto_reconnect :: bool
  as_close_to_tray :: bool
  as_launch_at_login :: bool
  as_btop_watchdog_enabled :: bool
  as_btop_rotation_minutes :: u64
  as_log_level :: string
  as_onboarding_completed :: bool
  as_default_agent :: string

definition default_app_settings :: app_settings where
  "default_app_settings =
     \<lparr>as_schema_version = 2,
      as_terminal_font_family = ''Cascadia Mono, Consolas, monospace'',
      as_terminal_font_size = 14,
      as_telemetry_interval_seconds = 3,
      as_telemetry_retention_minutes = 30,
      as_download_directory = [],
      as_auto_reconnect = True,
      as_close_to_tray = True,
      as_launch_at_login = False,
      as_btop_watchdog_enabled = False,
      as_btop_rotation_minutes = 15,
      as_log_level = ''info'',
      as_onboarding_completed = False,
      as_default_agent = ''codex''\<rparr>"

record settings_patch =
  sp_terminal_font_family :: "string option"
  sp_terminal_font_size :: "u8 option"
  sp_telemetry_interval_seconds :: "u64 option"
  sp_telemetry_retention_minutes :: "u64 option"
  sp_download_directory :: "string option"
  sp_auto_reconnect :: "bool option"
  sp_close_to_tray :: "bool option"
  sp_launch_at_login :: "bool option"
  sp_btop_watchdog_enabled :: "bool option"
  sp_btop_rotation_minutes :: "u64 option"
  sp_log_level :: "string option"
  sp_onboarding_completed :: "bool option"
  sp_default_agent :: "string option"

section \<open>Command presets and the persisted state\<close>

datatype command_risk = CR_L0 | CR_L1 | CR_L2

text \<open>\<^verbatim>\<open>sort_order\<close> is an \<^verbatim>\<open>i32\<close> that is only copied and compared.\<close>

record command_preset =
  cp_schema_version :: u8
  cp_id :: string
  cp_host_id :: "string option"
  cp_name :: string
  cp_description :: string
  cp_group :: string
  cp_command :: string
  cp_working_directory :: "string option"
  cp_risk :: command_risk
  cp_requires_pty :: bool
  cp_requires_sudo :: bool
  cp_confirmation_text :: "string option"
  cp_sort_order :: int
  cp_created_at :: timestamp
  cp_updated_at :: timestamp

record command_preset_draft =
  cpd_id :: "string option"
  cpd_host_id :: "string option"
  cpd_name :: string
  cpd_description :: string
  cpd_group :: string
  cpd_command :: string
  cpd_working_directory :: "string option"
  cpd_risk :: command_risk
  cpd_requires_pty :: bool
  cpd_requires_sudo :: bool
  cpd_confirmation_text :: "string option"
  cpd_sort_order :: int

record persisted_state =
  ps_schema_version :: u8
  ps_settings :: app_settings
  ps_hosts :: "host_profile list"
  ps_tunnels :: "tunnel_profile list"
  ps_command_presets :: "command_preset list"
  ps_imported_source_hashes :: "string list"

definition default_persisted_state :: persisted_state where
  "default_persisted_state =
     \<lparr>ps_schema_version = 2,
      ps_settings = default_app_settings,
      ps_hosts = [],
      ps_tunnels = [],
      ps_command_presets = [],
      ps_imported_source_hashes = []\<rparr>"

section \<open>Terminal payloads\<close>

datatype terminal_state = TsStarting | TsRunning | TsOffline | TsClosed | TsFailed

text \<open>\<^verbatim>\<open>generation\<close> and \<^verbatim>\<open>revision\<close> are saturating counters: naturals up to \<^const>\<open>u64_max\<close>.\<close>

record terminal_snapshot =
  tsn_session_id :: string
  tsn_generation :: nat
  tsn_revision :: nat
  tsn_host_id :: string
  tsn_alias :: string
  tsn_cwd :: string
  tsn_title :: string
  tsn_state :: terminal_state
  tsn_exit_code :: "int option"
  tsn_error :: "string option"

datatype terminal_event_kind =
  TekStarted | TekOutput | TekReplayTruncated | TekExit | TekError | TekState

record terminal_event =
  te_session_id :: string
  te_kind :: terminal_event_kind
  te_data :: "string option"
  te_exit_code :: "int option"
  te_message :: "string option"
  te_snapshot :: "terminal_snapshot option"

section \<open>Lemmas\<close>

lemma with_some_simps [simp]: "with_some None f s = s" "with_some (Some v) f s = f v s"
  by (simp_all add: with_some_def)

text \<open>A patched option takes the patch's value where there is one and keeps the old one elsewhere.\<close>

lemma apply_to_fields:
  "sao_connect_timeout_seconds (apply_to p v) =
     (case sap_connect_timeout_seconds p of None \<Rightarrow> sao_connect_timeout_seconds v | Some x \<Rightarrow> x)"
  "sao_server_alive_interval_seconds (apply_to p v) =
     (case sap_server_alive_interval_seconds p of None \<Rightarrow> sao_server_alive_interval_seconds v | Some x \<Rightarrow> x)"
  "sao_server_alive_count_max (apply_to p v) =
     (case sap_server_alive_count_max p of None \<Rightarrow> sao_server_alive_count_max v | Some x \<Rightarrow> x)"
  "sao_tcp_keep_alive (apply_to p v) =
     (case sap_tcp_keep_alive p of None \<Rightarrow> sao_tcp_keep_alive v | Some x \<Rightarrow> x)"
  "sao_compression (apply_to p v) =
     (case sap_compression p of None \<Rightarrow> sao_compression v | Some x \<Rightarrow> x)"
  "sao_identities_only (apply_to p v) =
     (case sap_identities_only p of None \<Rightarrow> sao_identities_only v | Some x \<Rightarrow> x)"
  by (simp_all add: apply_to_def Let_def with_some_def split: option.splits)

lemma apply_to_default [simp]: "apply_to default_ssh_advanced_patch v = v"
  by (simp add: apply_to_def default_ssh_advanced_patch_def)

end
