(* ===== verification/Tables.thy ===== *)
theory Tables
  imports RustBase
begin

text \<open>
  Vectors of records that are looked up by an identifier, as the store keeps hosts, tunnels and
  command presets: \<^verbatim>\<open>iter().find\<close>, \<^verbatim>\<open>position\<close>, replace-or-push and \<^verbatim>\<open>retain\<close>.  The locale
  \<open>unique_table\<close> is the contract of such a table: no two rows share the key or the name.
\<close>

section \<open>Replace or push\<close>

fun position :: "('a \<Rightarrow> bool) \<Rightarrow> 'a list \<Rightarrow> nat option" where
  "position p [] = None"
| "position p (x # xs) = (if p x then Some 0 else map_option Suc (position p xs))"

definition upsert :: "('a \<Rightarrow> 'k) \<Rightarrow> 'a \<Rightarrow> 'a list \<Rightarrow> 'a list" where
  "upsert key x xs =
     (case position (\<lambda>y. key y = key x) xs of
        Some index \<Rightarrow> xs[index := x]
      | None \<Rightarrow> xs @ [x])"

lemma position_None: "position p xs = None \<longleftrightarrow> (\<forall>x \<in> set xs. \<not> p x)"
  by (induction xs) auto

lemma position_Some:
  "position p xs = Some i \<Longrightarrow> i < length xs \<and> p (xs ! i) \<and> (\<forall>j < i. \<not> p (xs ! j))"
proof (induction xs arbitrary: i)
  case (Cons x xs)
  then show ?case by (cases i) (auto simp: less_Suc_eq_0_disj split: if_splits)
qed simp

lemma find_None: "find p xs = None \<longleftrightarrow> (\<forall>x \<in> set xs. \<not> p x)"
  by (induction xs) auto

lemma find_SomeD: "find p xs = Some x \<Longrightarrow> x \<in> set xs \<and> p x"
  by (induction xs) (auto split: if_splits)

lemma find_key:
  assumes "distinct (map key xs)" and "x \<in> set xs"
  shows "find (\<lambda>y. key y = key x) xs = Some x"
  using assms by (induction xs) (auto simp: rev_image_eqI)

lemma key_inject:
  "distinct (map key xs) \<Longrightarrow> x \<in> set xs \<Longrightarrow> y \<in> set xs \<Longrightarrow> key x = key y \<Longrightarrow> x = y"
  by (auto simp: distinct_map inj_on_def)

text \<open>What a replace-or-push leaves: the row itself and the rows with another key.\<close>

lemma upsert_split:
  obtains (push) "\<forall>y \<in> set xs. key y \<noteq> key x" "upsert key x xs = xs @ [x]"
  | (replace) ps y qs where "xs = ps @ y # qs" "key y = key x" "upsert key x xs = ps @ x # qs"
proof (cases "position (\<lambda>y. key y = key x) xs")
  case None
  then have "upsert key x xs = xs @ [x]" by (simp add: upsert_def)
  with None push show ?thesis by (simp add: position_None)
next
  case (Some i)
  then have i: "i < length xs" "key (xs ! i) = key x"
    using position_Some[OF Some] by auto
  then show ?thesis
    using replace[of "take i xs" "xs ! i" "drop (Suc i) xs"] Some
    by (simp add: upsert_def id_take_nth_drop upd_conv_take_nth_drop)
qed

lemma set_upsert: "distinct (map key xs) \<Longrightarrow> set (upsert key x xs) = insert x {y \<in> set xs. key y \<noteq> key x}"
  by (cases rule: upsert_split[of xs key x]) (auto, (metis rev_image_eqI)+)

lemma keys_upsert: "key ` set (upsert key x xs) = insert (key x) (key ` set xs)"
  by (cases rule: upsert_split[of xs key x]) auto

lemma length_upsert: "length (upsert key x xs) \<le> Suc (length xs)"
  by (cases rule: upsert_split[of xs key x]) auto

lemma distinct_keys_upsert: "distinct (map key xs) \<Longrightarrow> distinct (map key (upsert key x xs))"
  by (cases rule: upsert_split[of xs key x]) auto

lemma rfold_unit: "rfold f xs () = Inr () \<longleftrightarrow> (\<forall>x \<in> set xs. f x () = Inr ())"
  by (induction xs) (auto simp: result_simps)

lemma enumerate_snd: "(\<forall>(i, x) \<in> set (enumerate n xs). P x) \<longleftrightarrow> (\<forall>x \<in> set xs. P x)"
  by (induction xs arbitrary: n) auto

section \<open>The contract of a table\<close>

locale unique_table =
  fixes key :: "'a \<Rightarrow> 'k"
    and name :: "'a \<Rightarrow> 'n"
    and same :: "'a \<Rightarrow> 'a \<Rightarrow> bool"
  assumes same_iff: "same x y \<longleftrightarrow> key y = key x \<or> name y = name x"
begin

text \<open>No row clashes with an earlier one.\<close>

lemma no_clash_iff:
  "sorted_wrt (\<lambda>a b. \<not> same b a) xs \<longleftrightarrow> distinct (map key xs) \<and> distinct (map name xs)"
  by (induction xs) (auto simp: same_iff image_iff)

lemma loop_iff:
  "(\<forall>(i, x) \<in> set (enumerate 0 xs). \<not> list_ex (same x) (take i xs))
     \<longleftrightarrow> distinct (map key xs) \<and> distinct (map name xs)"
proof -
  have earlier: "list_ex (same x) (take i xs) \<longleftrightarrow> (\<exists>j < i. same x (xs ! j))" if "i < length xs" for i x
  proof -
    have "set (take i xs) = (!) xs ` {..<i}"
      using that nth_image[of i xs] by (simp add: lessThan_atLeast0)
    then show ?thesis by (auto simp: list_ex_iff)
  qed
  have "(\<forall>(i, x) \<in> set (enumerate 0 xs). \<not> list_ex (same x) (take i xs))
      \<longleftrightarrow> (\<forall>i < length xs. \<not> list_ex (same (xs ! i)) (take i xs))"
    by (auto simp: in_set_enumerate_eq)
  also have "\<dots> \<longleftrightarrow> (\<forall>i < length xs. \<forall>j < i. \<not> same (xs ! i) (xs ! j))"
    by (simp add: earlier)
  also have "\<dots> \<longleftrightarrow> sorted_wrt (\<lambda>a b. \<not> same b a) xs"
    by (auto simp: sorted_wrt_iff_nth_less)
  finally show ?thesis by (simp add: no_clash_iff)
qed

text \<open>
  A validation loop that checks each row by itself and against the rows before it accepts exactly
  the tables whose rows all pass and do not clash.
\<close>

lemma validation_loop:
  assumes "\<And>i x. f (i, x) () = Inr () \<longleftrightarrow> ok x \<and> \<not> list_ex (same x) (take i xs)"
  shows "rfold f (enumerate 0 xs) () = Inr () \<longleftrightarrow>
    (\<forall>x \<in> set xs. ok x) \<and> distinct (map key xs) \<and> distinct (map name xs)"
proof -
  have "rfold f (enumerate 0 xs) () = Inr () \<longleftrightarrow>
      (\<forall>p \<in> set (enumerate 0 xs). case p of (i, x) \<Rightarrow> ok x)
      \<and> (\<forall>p \<in> set (enumerate 0 xs). case p of (i, x) \<Rightarrow> \<not> list_ex (same x) (take i xs))"
    unfolding rfold_unit ball_conj_distrib[symmetric]
    by (rule ball_cong) (auto simp: assms split: prod.split)
  then show ?thesis by (simp only: enumerate_snd loop_iff)
qed

lemma upsert_unique:
  assumes "distinct (map key xs)" and "distinct (map name xs)"
    and "\<And>y. y \<in> set xs \<Longrightarrow> key y \<noteq> key x \<Longrightarrow> name y \<noteq> name x"
  shows "distinct (map key (upsert key x xs))" and "distinct (map name (upsert key x xs))"
proof -
  show "distinct (map key (upsert key x xs))"
    using assms(1) by (rule distinct_keys_upsert)
  show "distinct (map name (upsert key x xs))"
  proof (cases rule: upsert_split[of xs key x])
    case push
    with assms(3) have "name x \<notin> name ` set xs" by force
    with push assms(2) show ?thesis by simp
  next
    case (replace ps y qs)
    have "\<And>z. z \<in> set ps \<union> set qs \<Longrightarrow> name z \<noteq> name x"
      using assms(1,3) replace(1,2) by (auto simp: image_iff)
    then have "name x \<notin> name ` set ps" and "name x \<notin> name ` set qs" by force+
    with assms(2) replace show ?thesis by auto
  qed
qed

lemma filter_unique:
  "distinct (map key xs) \<Longrightarrow> distinct (map name xs) \<Longrightarrow>
     distinct (map key (filter p xs)) \<and> distinct (map name (filter p xs))"
  by (simp add: distinct_map_filter)

end

end
