(* ===== verification/StoreValidate.thy ===== *)
theory StoreValidate
  imports Model Tables
begin

text \<open>
  \<^verbatim>\<open>crates/remotedeck-core/src/store.rs\<close>, the validators: what a draft, a settings patch and a
  whole persisted state must satisfy.  Error messages are the source's.
\<close>

section \<open>Limits\<close>

definition MAX_STATE_BYTES :: nat where "MAX_STATE_BYTES = 16 * 1024 * 1024"
definition MAX_HOSTS :: nat where "MAX_HOSTS = 512"
definition MAX_TUNNELS :: nat where "MAX_TUNNELS = 2048"
definition MAX_COMMAND_PRESETS :: nat where "MAX_COMMAND_PRESETS = 4096"
definition MAX_IMPORTED_SOURCE_HASHES :: nat where "MAX_IMPORTED_SOURCE_HASHES = 4096"

definition nul :: char where "nul = CHR 0x00"

definition within :: "'a::order \<Rightarrow> 'a \<Rightarrow> 'a \<Rightarrow> bool" where
  "within lo hi x \<longleftrightarrow> lo \<le> x \<and> x \<le> hi"

section \<open>Atoms\<close>

definition validate_ssh_atom :: "string \<Rightarrow> string \<Rightarrow> nat \<Rightarrow> unit app_result" where
  "validate_ssh_atom label value max_len =
     (if value = [] \<or> length value > max_len \<or> starts_with value ''-''
         \<or> any_whitespace value \<or> any_control value
      then Inl (Validation (label @ '' is invalid'')) else Inr ())"

definition validate_forward_atom :: "string \<Rightarrow> string \<Rightarrow> unit app_result" where
  "validate_forward_atom label value =
     (if value = [] \<or> length value > 512 \<or> starts_with value ''-'' \<or> CHR '','' \<in> set value
         \<or> any_whitespace value \<or> any_control value
      then Inl (Validation (label @ '' is invalid'')) else Inr ())"

definition normalize_optional :: "string option \<Rightarrow> string option" where
  "normalize_optional value =
     (case map_option trim value of
        None \<Rightarrow> None
      | Some item \<Rightarrow> if item = [] then None else Some item)"

definition validate_import_source_id :: "string \<Rightarrow> unit app_result" where
  "validate_import_source_id source_id =
     (if source_id = [] \<or> length source_id > 512 \<or> any_control source_id
      then Inl (Validation ''import source host id is invalid'') else Inr ())"

definition validate_import_hash :: "string \<Rightarrow> unit app_result" where
  "validate_import_hash source_hash =
     (if length source_hash \<noteq> 64 \<or> \<not> list_all is_ascii_hexdigit source_hash
      then Inl (Validation ''source hash is invalid'') else Inr ())"

section \<open>Drafts\<close>

definition is_alias_char :: "char \<Rightarrow> bool" where
  "is_alias_char c \<longleftrightarrow> is_ascii_alphanumeric c \<or> c \<in> set ''_.-''"

definition validate_host_draft :: "host_draft \<Rightarrow> unit app_result" where
  "validate_host_draft draft =
     (let alias = trim (hd_alias draft)
      in if alias = [] \<or> length alias > 64 \<or> \<not> list_all is_alias_char alias
      then Inl (Validation ''alias must use 1-64 ASCII letters, digits, dot, underscore or dash'')
      else rbind (validate_ssh_atom ''hostname'' (trim (hd_hostname draft)) 512) (\<lambda>_.
        rbind (validate_ssh_atom ''username'' (trim (hd_username draft)) 128) (\<lambda>_.
        if hd_port draft = 0
        then Inl (Validation ''port must be between 1 and 65535'')
        else if (case hd_identity_file draft of
                   None \<Rightarrow> False | Some path \<Rightarrow> length path > 32767 \<or> nul \<in> set path)
        then Inl (Validation ''identity file path is invalid'')
        else if hd_auth_method draft = Some PrivateKey
                \<and> (case hd_identity_file draft of None \<Rightarrow> True | Some path \<Rightarrow> trim path = [])
        then Inl (Validation ''private-key authentication requires an identity file'')
        else rbind (case hd_proxy_jump draft of
                      None \<Rightarrow> Inr ()
                    | Some proxy_jump \<Rightarrow>
                        if trim proxy_jump \<noteq> []
                        then validate_ssh_atom ''ProxyJump'' (trim proxy_jump) 1024
                        else Inr ()) (\<lambda>_.
          if (case hd_default_workspace draft of
                None \<Rightarrow> False | Some path \<Rightarrow> length path > 4096 \<or> nul \<in> set path)
          then Inl (Validation ''default workspace path is invalid'')
          else if length (hd_groups draft) > 32
          then Inl (Validation ''at most 32 groups are allowed'')
          else Inr ()))))"

definition validate_advanced :: "ssh_advanced_options \<Rightarrow> unit app_result" where
  "validate_advanced options =
     (if \<not> within 1 300 (sao_connect_timeout_seconds options)
      then Inl (Validation ''connect timeout must be between 1 and 300 seconds'')
      else if sao_server_alive_interval_seconds options > 3600
      then Inl (Validation ''server alive interval must be at most 3600 seconds'')
      else if \<not> within 1 100 (sao_server_alive_count_max options)
      then Inl (Validation ''server alive count must be between 1 and 100'')
      else Inr ())"

definition bad_health :: "tunnel_health_check \<Rightarrow> bool" where
  "bad_health health \<longleftrightarrow> thc_kind health = HealthTcp
     \<and> (\<not> within 2 3600 (thc_interval_seconds health) \<or> \<not> within 1 60 (thc_timeout_seconds health)
        \<or> thc_timeout_seconds health \<ge> thc_interval_seconds health)"

definition validate_tunnel_draft :: "tunnel_draft \<Rightarrow> unit app_result" where
  "validate_tunnel_draft draft =
     (let name = trim (td_name draft)
      in if name = [] \<or> length name > 128 \<or> any_control name
      then Inl (Validation ''tunnel name is invalid'')
      else if td_source_port draft = 0 \<or> td_target_port draft = 0
      then Inl (Validation ''tunnel ports must be between 1 and 65535'')
      else rbind (validate_forward_atom ''bind address'' (trim (td_bind_address draft))) (\<lambda>_.
        rbind (validate_forward_atom ''target host'' (trim (td_target_host draft))) (\<lambda>_.
        if (case td_health_check draft of None \<Rightarrow> False | Some health \<Rightarrow> bad_health health)
        then Inl (Validation ''tunnel health interval/timeout is invalid'')
        else Inr ())))"

definition validate_command_draft :: "command_preset_draft \<Rightarrow> unit app_result" where
  "validate_command_draft draft =
     (let name = trim (cpd_name draft)
      in if name = [] \<or> length name > 512 \<or> any_control name
      then Inl (Validation ''command preset name is invalid'')
      else if length (cpd_description draft) > 2048 \<or> nul \<in> set (cpd_description draft)
      then Inl (Validation ''command preset description is invalid'')
      else if length (cpd_group draft) > 128 \<or> any_control (cpd_group draft)
      then Inl (Validation ''command preset group is invalid'')
      else if trim (cpd_command draft) = [] \<or> length (cpd_command draft) > 32768
              \<or> nul \<in> set (cpd_command draft)
      then Inl (Validation ''command preset command is invalid'')
      else if (case cpd_working_directory draft of
                 None \<Rightarrow> False | Some path \<Rightarrow> length path > 4096 \<or> nul \<in> set path)
      then Inl (Validation ''command working directory is invalid'')
      else if (case cpd_confirmation_text draft of
                 None \<Rightarrow> False | Some text \<Rightarrow> length text > 256 \<or> any_control text)
      then Inl (Validation ''command confirmation text is invalid'')
      else Inr ())"

section \<open>Groups and identity files\<close>

definition add_group :: "string \<Rightarrow> string list \<Rightarrow> string list" where
  "add_group raw normalized =
     (let g = trim raw
      in if g = [] \<or> length g > 128 \<or> any_control g then normalized
         else if list_ex (\<lambda>existing. eq_ignore_ascii_case existing g) normalized then normalized
         else normalized @ [g])"

definition normalize_groups :: "string list \<Rightarrow> string list" where
  "normalize_groups raw = fold add_group raw []"

definition clear_inactive_identity_file :: "host_profile \<Rightarrow> host_profile" where
  "clear_inactive_identity_file host =
     (if hp_auth_method host \<noteq> PrivateKey then host\<lparr>hp_identity_file := None\<rparr> else host)"

text \<open>The rewritten hosts and whether any of them changed.\<close>

definition clear_inactive_identity_files :: "host_profile list \<Rightarrow> host_profile list \<times> bool" where
  "clear_inactive_identity_files hosts =
     (map clear_inactive_identity_file hosts,
      list_ex (\<lambda>host. hp_auth_method host \<noteq> PrivateKey \<and> hp_identity_file host \<noteq> None) hosts)"

section \<open>Settings\<close>

text \<open>One \<^verbatim>\<open>if let Some(value) = patch.field\<close> that can fail.\<close>

definition patch_field ::
    "'v option \<Rightarrow> ('v \<Rightarrow> app_settings \<Rightarrow> app_settings app_result) \<Rightarrow> app_settings \<Rightarrow> app_settings app_result" where
  "patch_field v f s = (case v of None \<Rightarrow> Inr s | Some value \<Rightarrow> f value s)"

definition set_terminal_font_family :: "string \<Rightarrow> app_settings \<Rightarrow> app_settings app_result" where
  "set_terminal_font_family value s =
     (let value = trim value
      in if value = [] \<or> length value > 256 \<or> any_control value
         then Inl (Validation ''terminal font family is invalid'')
         else Inr (s\<lparr>as_terminal_font_family := value\<rparr>))"

definition set_download_directory :: "string \<Rightarrow> app_settings \<Rightarrow> app_settings app_result" where
  "set_download_directory value s =
     (let value = trim value
      in if length value > 32767 \<or> nul \<in> set value
         then Inl (Validation ''download directory is invalid'')
         else Inr (s\<lparr>as_download_directory := value\<rparr>))"

definition set_log_level :: "string \<Rightarrow> app_settings \<Rightarrow> app_settings app_result" where
  "set_log_level value s =
     (let value = to_ascii_lowercase (trim value)
      in if value \<notin> {''debug'', ''info'', ''warn'', ''error''}
         then Inl (Validation ''log level is invalid'')
         else Inr (s\<lparr>as_log_level := value\<rparr>))"

definition set_default_agent :: "string \<Rightarrow> app_settings \<Rightarrow> app_settings app_result" where
  "set_default_agent value s =
     (let value = to_ascii_lowercase (trim value)
      in if value \<notin> {''codex'', ''claude'', ''gemini'', ''opencode''}
         then Inl (Validation ''default agent is invalid'')
         else Inr (s\<lparr>as_default_agent := value\<rparr>))"

definition apply_settings_patch :: "app_settings \<Rightarrow> settings_patch \<Rightarrow> app_settings app_result" where
  "apply_settings_patch settings patch =
     rbind (patch_field (sp_terminal_font_family patch) set_terminal_font_family settings) (\<lambda>s.
     rbind (patch_field (sp_terminal_font_size patch) (\<lambda>value s.
         if \<not> within 9 32 value then Inl (Validation ''terminal font size must be between 9 and 32'')
         else Inr (s\<lparr>as_terminal_font_size := value\<rparr>)) s) (\<lambda>s.
     rbind (patch_field (sp_telemetry_interval_seconds patch) (\<lambda>value s.
         if \<not> within 1 60 value
         then Inl (Validation ''telemetry interval must be between 1 and 60 seconds'')
         else Inr (s\<lparr>as_telemetry_interval_seconds := value\<rparr>)) s) (\<lambda>s.
     rbind (patch_field (sp_telemetry_retention_minutes patch) (\<lambda>value s.
         if \<not> within 1 1440 value
         then Inl (Validation ''telemetry retention must be between 1 and 1440 minutes'')
         else Inr (s\<lparr>as_telemetry_retention_minutes := value\<rparr>)) s) (\<lambda>s.
     rbind (patch_field (sp_download_directory patch) set_download_directory s) (\<lambda>s.
     let s = with_some (sp_auto_reconnect patch) (\<lambda>value s. s\<lparr>as_auto_reconnect := value\<rparr>) s;
         s = with_some (sp_close_to_tray patch) (\<lambda>value s. s\<lparr>as_close_to_tray := value\<rparr>) s;
         s = with_some (sp_launch_at_login patch) (\<lambda>value s. s\<lparr>as_launch_at_login := value\<rparr>) s;
         s = with_some (sp_btop_watchdog_enabled patch) (\<lambda>value s. s\<lparr>as_btop_watchdog_enabled := value\<rparr>) s
     in rbind (patch_field (sp_btop_rotation_minutes patch) (\<lambda>value s.
         if \<not> within 1 1440 value
         then Inl (Validation ''btop rotation must be between 1 and 1440 minutes'')
         else Inr (s\<lparr>as_btop_rotation_minutes := value\<rparr>)) s) (\<lambda>s.
     rbind (patch_field (sp_log_level patch) set_log_level s) (\<lambda>s.
     let s = with_some (sp_onboarding_completed patch) (\<lambda>value s. s\<lparr>as_onboarding_completed := value\<rparr>) s
     in patch_field (sp_default_agent patch) set_default_agent s)))))))"

section \<open>The persisted state\<close>

definition host_as_draft :: "host_profile \<Rightarrow> host_draft" where
  "host_as_draft host =
     \<lparr>hd_id = Some (hp_id host), hd_alias = hp_alias host, hd_hostname = hp_hostname host,
      hd_port = hp_port host, hd_username = hp_username host,
      hd_auth_method = Some (hp_auth_method host), hd_identity_file = hp_identity_file host,
      hd_proxy_jump = hp_proxy_jump host, hd_default_workspace = Some (hp_default_workspace host),
      hd_groups = hp_groups host, hd_advanced = None,
      hd_monitor_enabled = Some (hp_monitor_enabled host)\<rparr>"

definition tunnel_as_draft :: "tunnel_profile \<Rightarrow> tunnel_draft" where
  "tunnel_as_draft tunnel =
     \<lparr>td_id = Some (tp_id tunnel), td_host_id = tp_host_id tunnel, td_name = tp_name tunnel,
      td_direction = tp_direction tunnel, td_bind_address = tp_bind_address tunnel,
      td_source_port = tp_source_port tunnel, td_target_host = tp_target_host tunnel,
      td_target_port = tp_target_port tunnel, td_auto_start = Some (tp_auto_start tunnel),
      td_auto_reconnect = Some (tp_auto_reconnect tunnel),
      td_health_check = tp_health_check tunnel\<rparr>"

definition command_as_draft :: "command_preset \<Rightarrow> command_preset_draft" where
  "command_as_draft c =
     \<lparr>cpd_id = Some (cp_id c), cpd_host_id = cp_host_id c, cpd_name = cp_name c,
      cpd_description = cp_description c, cpd_group = cp_group c, cpd_command = cp_command c,
      cpd_working_directory = cp_working_directory c, cpd_risk = cp_risk c,
      cpd_requires_pty = cp_requires_pty c, cpd_requires_sudo = cp_requires_sudo c,
      cpd_confirmation_text = cp_confirmation_text c, cpd_sort_order = cp_sort_order c\<rparr>"

definition invalid_at :: "string \<Rightarrow> nat \<Rightarrow> app_error \<Rightarrow> app_error" where
  "invalid_at what index error =
     State (''persisted '' @ what @ '' at index '' @ dec index @ '' is invalid: '' @ app_error_display error)"

definition same_host :: "host_profile \<Rightarrow> host_profile \<Rightarrow> bool" where
  "same_host host other \<longleftrightarrow>
     hp_id other = hp_id host \<or> eq_ignore_ascii_case (hp_alias other) (hp_alias host)"

definition same_tunnel :: "tunnel_profile \<Rightarrow> tunnel_profile \<Rightarrow> bool" where
  "same_tunnel tunnel other \<longleftrightarrow>
     tp_id other = tp_id tunnel
     \<or> (tp_host_id other = tp_host_id tunnel \<and> eq_ignore_ascii_case (tp_name other) (tp_name tunnel))"

definition same_command :: "command_preset \<Rightarrow> command_preset \<Rightarrow> bool" where
  "same_command c other \<longleftrightarrow>
     cp_id other = cp_id c
     \<or> (cp_host_id other = cp_host_id c \<and> eq_ignore_ascii_case (cp_name other) (cp_name c))"

definition check_stored_host :: "persisted_state \<Rightarrow> nat \<times> host_profile \<Rightarrow> unit \<Rightarrow> unit app_result" where
  "check_stored_host state = (\<lambda>(index, host) _.
     rbind (rmap_err (invalid_at ''host'' index) (validate_host_draft (host_as_draft host))) (\<lambda>_.
     rbind (rmap_err (invalid_at ''host'' index) (validate_advanced (hp_advanced host))) (\<lambda>_.
     if list_ex (same_host host) (take index (ps_hosts state))
     then Inl (State (''persisted host '' @ [CHR 0x27] @ hp_alias host @ [CHR 0x27]
                @ '' duplicates an id or alias''))
     else Inr ())))"

definition host_exists :: "persisted_state \<Rightarrow> string \<Rightarrow> bool" where
  "host_exists state host_id \<longleftrightarrow> list_ex (\<lambda>host. hp_id host = host_id) (ps_hosts state)"

definition check_tunnel :: "persisted_state \<Rightarrow> nat \<times> tunnel_profile \<Rightarrow> unit \<Rightarrow> unit app_result" where
  "check_tunnel state = (\<lambda>(index, tunnel) _.
     rbind (rmap_err (invalid_at ''tunnel'' index) (validate_tunnel_draft (tunnel_as_draft tunnel))) (\<lambda>_.
     if \<not> host_exists state (tp_host_id tunnel)
     then Inl (State (''persisted tunnel '' @ [CHR 0x27] @ tp_name tunnel @ [CHR 0x27]
                @ '' refers to a missing host''))
     else if list_ex (same_tunnel tunnel) (take index (ps_tunnels state))
     then Inl (State (''persisted tunnel '' @ [CHR 0x27] @ tp_name tunnel @ [CHR 0x27]
                @ '' duplicates an id or name''))
     else Inr ()))"

definition check_command :: "persisted_state \<Rightarrow> nat \<times> command_preset \<Rightarrow> unit \<Rightarrow> unit app_result" where
  "check_command state = (\<lambda>(index, command) _.
     rbind (rmap_err (invalid_at ''command'' index) (validate_command_draft (command_as_draft command))) (\<lambda>_.
     if (case cp_host_id command of None \<Rightarrow> False | Some host_id \<Rightarrow> \<not> host_exists state host_id)
     then Inl (State (''persisted command '' @ [CHR 0x27] @ cp_name command @ [CHR 0x27]
                @ '' refers to a missing host''))
     else if list_ex (same_command command) (take index (ps_command_presets state))
     then Inl (State (''persisted command '' @ [CHR 0x27] @ cp_name command @ [CHR 0x27]
                @ '' duplicates an id or name''))
     else Inr ()))"

definition bad_hash :: "string \<Rightarrow> bool" where
  "bad_hash hash \<longleftrightarrow> length hash \<noteq> 64 \<or> \<not> list_all is_ascii_hexdigit hash"

definition validate_persisted_state :: "persisted_state \<Rightarrow> unit app_result" where
  "validate_persisted_state state =
     (if ps_schema_version state \<noteq> 2
      then Inl (State (''unsupported state schema version '' @ dec (unat (ps_schema_version state))))
      else if length (ps_hosts state) > MAX_HOSTS
           \<or> length (ps_tunnels state) > MAX_TUNNELS
           \<or> length (ps_command_presets state) > MAX_COMMAND_PRESETS
           \<or> length (ps_imported_source_hashes state) > MAX_IMPORTED_SOURCE_HASHES
      then Inl (State ''persisted state exceeds an item-count safety limit'')
      else rbind (rfold (check_stored_host state) (enumerate 0 (ps_hosts state)) ()) (\<lambda>_.
        rbind (rfold (check_tunnel state) (enumerate 0 (ps_tunnels state)) ()) (\<lambda>_.
        rbind (rfold (check_command state) (enumerate 0 (ps_command_presets state)) ()) (\<lambda>_.
        if list_ex bad_hash (ps_imported_source_hashes state)
        then Inl (State ''persisted import history contains an invalid hash'')
        else Inr ()))))"

section \<open>Lemmas\<close>

subsection \<open>The validity of a state, as a table of facts\<close>

text \<open>The rows of the three tables under the names the code compares them by.\<close>

definition host_name :: "host_profile \<Rightarrow> string" where
  "host_name host = to_ascii_lowercase (hp_alias host)"

definition tunnel_name :: "tunnel_profile \<Rightarrow> string \<times> string" where
  "tunnel_name tunnel = (tp_host_id tunnel, to_ascii_lowercase (tp_name tunnel))"

definition command_name :: "command_preset \<Rightarrow> string option \<times> string" where
  "command_name c = (cp_host_id c, to_ascii_lowercase (cp_name c))"

interpretation hosts: unique_table hp_id host_name same_host
  by unfold_locales (auto simp: same_host_def host_name_def eq_ignore_ascii_case_def)

interpretation tunnels: unique_table tp_id tunnel_name same_tunnel
  by unfold_locales (auto simp: same_tunnel_def tunnel_name_def eq_ignore_ascii_case_def)

interpretation commands: unique_table cp_id command_name same_command
  by unfold_locales (auto simp: same_command_def command_name_def eq_ignore_ascii_case_def)

definition host_ok :: "host_profile \<Rightarrow> bool" where
  "host_ok host \<longleftrightarrow> validate_host_draft (host_as_draft host) = Inr ()
     \<and> validate_advanced (hp_advanced host) = Inr ()"

definition tunnel_ok :: "tunnel_profile \<Rightarrow> bool" where
  "tunnel_ok tunnel \<longleftrightarrow> validate_tunnel_draft (tunnel_as_draft tunnel) = Inr ()"

definition command_ok :: "command_preset \<Rightarrow> bool" where
  "command_ok c \<longleftrightarrow> validate_command_draft (command_as_draft c) = Inr ()"

definition within_limits :: "persisted_state \<Rightarrow> bool" where
  "within_limits s \<longleftrightarrow> length (ps_hosts s) \<le> MAX_HOSTS \<and> length (ps_tunnels s) \<le> MAX_TUNNELS
     \<and> length (ps_command_presets s) \<le> MAX_COMMAND_PRESETS
     \<and> length (ps_imported_source_hashes s) \<le> MAX_IMPORTED_SOURCE_HASHES"

definition hosts_valid :: "host_profile list \<Rightarrow> bool" where
  "hosts_valid hs \<longleftrightarrow> (\<forall>h \<in> set hs. host_ok h) \<and> distinct (map hp_id hs) \<and> distinct (map host_name hs)"

definition tunnels_valid :: "persisted_state \<Rightarrow> tunnel_profile list \<Rightarrow> bool" where
  "tunnels_valid s ts \<longleftrightarrow> (\<forall>t \<in> set ts. tunnel_ok t \<and> host_exists s (tp_host_id t))
     \<and> distinct (map tp_id ts) \<and> distinct (map tunnel_name ts)"

definition commands_valid :: "persisted_state \<Rightarrow> command_preset list \<Rightarrow> bool" where
  "commands_valid s cs \<longleftrightarrow>
     (\<forall>c \<in> set cs. command_ok c \<and> (\<forall>h. cp_host_id c = Some h \<longrightarrow> host_exists s h))
     \<and> distinct (map cp_id cs) \<and> distinct (map command_name cs)"

lemma unit_result_iff: "(m :: 'e + unit) = Inr x \<longleftrightarrow> is_ok m"
  by (cases m) auto

lemma check_stored_host_iff: "check_stored_host s (i, h) () = Inr () \<longleftrightarrow>
    host_ok h \<and> \<not> list_ex (same_host h) (take i (ps_hosts s))"
  by (auto simp: check_stored_host_def host_ok_def result_simps)

lemma check_tunnel_iff: "check_tunnel s (i, t) () = Inr () \<longleftrightarrow>
    tunnel_ok t \<and> host_exists s (tp_host_id t) \<and> \<not> list_ex (same_tunnel t) (take i (ps_tunnels s))"
  by (auto simp: check_tunnel_def tunnel_ok_def result_simps)

lemma check_command_iff: "check_command s (i, c) () = Inr () \<longleftrightarrow>
    command_ok c \<and> (\<forall>h. cp_host_id c = Some h \<longrightarrow> host_exists s h)
    \<and> \<not> list_ex (same_command c) (take i (ps_command_presets s))"
  by (auto simp: check_command_def command_ok_def result_simps split: option.splits)

lemma check_hosts_iff:
  "rfold (check_stored_host s) (enumerate 0 (ps_hosts s)) () = Inr () \<longleftrightarrow> hosts_valid (ps_hosts s)"
  unfolding hosts_valid_def by (rule hosts.validation_loop) (rule check_stored_host_iff)

lemma check_tunnels_iff:
  "rfold (check_tunnel s) (enumerate 0 (ps_tunnels s)) () = Inr () \<longleftrightarrow> tunnels_valid s (ps_tunnels s)"
  unfolding tunnels_valid_def by (rule tunnels.validation_loop) (simp add: check_tunnel_iff)

lemma check_commands_iff:
  "rfold (check_command s) (enumerate 0 (ps_command_presets s)) () = Inr ()
     \<longleftrightarrow> commands_valid s (ps_command_presets s)"
  unfolding commands_valid_def by (rule commands.validation_loop) (simp add: check_command_iff)

text \<open>What the code accepts as a state is exactly this conjunction.\<close>

lemma validate_persisted_state_iff:
  "validate_persisted_state s = Inr () \<longleftrightarrow>
     ps_schema_version s = 2 \<and> within_limits s \<and> hosts_valid (ps_hosts s)
     \<and> tunnels_valid s (ps_tunnels s) \<and> commands_valid s (ps_command_presets s)
     \<and> \<not> list_ex bad_hash (ps_imported_source_hashes s)"
proof -
  have "validate_persisted_state s = Inr () \<longleftrightarrow>
     ps_schema_version s = 2 \<and> within_limits s
     \<and> rfold (check_stored_host s) (enumerate 0 (ps_hosts s)) () = Inr ()
     \<and> rfold (check_tunnel s) (enumerate 0 (ps_tunnels s)) () = Inr ()
     \<and> rfold (check_command s) (enumerate 0 (ps_command_presets s)) () = Inr ()
     \<and> \<not> list_ex bad_hash (ps_imported_source_hashes s)"
    by (auto simp: validate_persisted_state_def within_limits_def result_simps)
  then show ?thesis by (simp only: check_hosts_iff check_tunnels_iff check_commands_iff)
qed

lemma valid_default: "validate_persisted_state default_persisted_state = Inr ()"
  by (simp add: validate_persisted_state_iff default_persisted_state_def within_limits_def
      hosts_valid_def tunnels_valid_def commands_valid_def MAX_HOSTS_def MAX_TUNNELS_def
      MAX_COMMAND_PRESETS_def MAX_IMPORTED_SOURCE_HASHES_def)

lemma host_exists_iff: "host_exists s h \<longleftrightarrow> h \<in> hp_id ` set (ps_hosts s)"
  by (auto simp: host_exists_def list_ex_iff)

end
