(* ===== verification/StoreApply.thy ===== *)
theory StoreApply
  imports StoreValidate
begin

text \<open>
  \<^verbatim>\<open>crates/remotedeck-core/src/store.rs\<close>, the changes of a state: applying a host, tunnel or
  command draft, resolving and normalising ProxyJump references, deletion and import checks.
  Each function takes the state and returns the changed one.  \<^verbatim>\<open>Utc::now()\<close> and
  \<^verbatim>\<open>Uuid::new_v4()\<close> are arguments.
\<close>

definition quoted :: "string \<Rightarrow> string" where
  "quoted s = [CHR 0x27] @ s @ [CHR 0x27]"

section \<open>ProxyJump references\<close>

definition bracketed_hostname :: "host_profile \<Rightarrow> string" where
  "bracketed_hostname host =
     (if CHR '':'' \<in> set (hp_hostname host)
         \<and> \<not> (starts_with (hp_hostname host) ''['' \<and> ends_with (hp_hostname host) '']'')
      then ''['' @ hp_hostname host @ '']'' else hp_hostname host)"

definition proxy_endpoint_with_port :: "host_profile \<Rightarrow> string" where
  "proxy_endpoint_with_port host =
     hp_username host @ ''@'' @ bracketed_hostname host @ '':'' @ dec (unat (hp_port host))"

definition proxy_endpoint :: "host_profile \<Rightarrow> string" where
  "proxy_endpoint host =
     (if hp_port host = 22 then hp_username host @ ''@'' @ bracketed_hostname host
      else hp_username host @ ''@'' @ bracketed_hostname host @ '':'' @ dec (unat (hp_port host)))"

definition proxy_reference_matches_host :: "string option \<Rightarrow> host_profile \<Rightarrow> bool" where
  "proxy_reference_matches_host reference host =
     (case map_option trim reference of
        None \<Rightarrow> False
      | Some reference \<Rightarrow>
          reference = hp_id host \<or> eq_ignore_ascii_case reference (hp_alias host)
          \<or> reference = proxy_endpoint host \<or> reference = proxy_endpoint_with_port host)"

definition resolve_proxy_reference ::
    "host_profile list \<Rightarrow> string option \<Rightarrow> host_profile option app_result" where
  "resolve_proxy_reference hosts reference =
     (case normalize_optional reference of
        None \<Rightarrow> Inr None
      | Some reference \<Rightarrow>
        (case find (\<lambda>host. hp_id host = reference) hosts of
           Some host \<Rightarrow> Inr (Some host)
         | None \<Rightarrow>
           (case find (\<lambda>host. eq_ignore_ascii_case (hp_alias host) reference) hosts of
              Some host \<Rightarrow> Inr (Some host)
            | None \<Rightarrow>
              (case filter (\<lambda>host. proxy_endpoint host = reference
                              \<or> proxy_endpoint_with_port host = reference) hosts of
                 [] \<Rightarrow> Inl (Validation (''ProxyJump '' @ quoted reference
                         @ '' must match a saved host alias or exact user@host[:port]''))
               | [host] \<Rightarrow> Inr (Some host)
               | _ \<Rightarrow> Inl (Validation (''ProxyJump '' @ quoted reference
                         @ '' is ambiguous; use the saved host alias''))))))"

definition nested_chain_error :: "host_profile \<Rightarrow> app_error" where
  "nested_chain_error jump = Validation (''nested ProxyJump chains are not supported; ''
     @ quoted (hp_alias jump) @ '' must connect directly'')"

definition self_jump_error :: app_error where
  "self_jump_error = Validation ''a host cannot use itself as ProxyJump''"

definition host_not_found :: "string \<Rightarrow> app_error" where
  "host_not_found host_id = NotFound (''host '' @ host_id)"

definition resolve_proxy_jump ::
    "host_profile list \<Rightarrow> host_profile \<Rightarrow> host_profile option app_result" where
  "resolve_proxy_jump hosts host =
     rbind (resolve_proxy_reference hosts (hp_proxy_jump host)) (\<lambda>resolved.
       case resolved of
         None \<Rightarrow> Inr None
       | Some jump \<Rightarrow>
           if hp_id jump = hp_id host then Inl self_jump_error
           else if hp_proxy_jump jump \<noteq> None then Inl (nested_chain_error jump)
           else Inr (Some jump))"

text \<open>
  The two \<^verbatim>\<open>expect\<close>s of the file look up a host that was just resolved or stored; \<open>expect_host\<close>
  makes the panic they would be an error value.
\<close>

definition expect_host :: "string \<Rightarrow> host_profile list \<Rightarrow> host_profile app_result" where
  "expect_host host_id hosts =
     ok_or (State ''panic: host disappeared'') (find (\<lambda>host. hp_id host = host_id) hosts)"

definition normalize_proxy_jump_for ::
    "string \<Rightarrow> host_profile list \<Rightarrow> host_profile list app_result" where
  "normalize_proxy_jump_for host_id hosts =
     rbind (ok_or (host_not_found host_id) (position (\<lambda>host. hp_id host = host_id) hosts)) (\<lambda>index.
     case hp_proxy_jump (hosts ! index) of
       None \<Rightarrow> Inr hosts
     | Some reference \<Rightarrow>
         rbind (resolve_proxy_reference hosts (Some reference)) (\<lambda>resolved.
         rbind (ok_or (Validation (''ProxyJump '' @ quoted reference
                  @ '' must resolve to a saved host profile'')) resolved) (\<lambda>resolved.
         let jump_id = hp_id resolved
         in if jump_id = host_id then Inl self_jump_error
            else rbind (expect_host jump_id hosts) (\<lambda>jump.
              if hp_proxy_jump jump \<noteq> None then Inl (nested_chain_error jump)
              else Inr (hosts[index := (hosts ! index)\<lparr>hp_proxy_jump := Some jump_id\<rparr>])))))"

definition validate_proxy_jump_role :: "host_profile list \<Rightarrow> string \<Rightarrow> unit app_result" where
  "validate_proxy_jump_role hosts host_id =
     rbind (ok_or (host_not_found host_id) (find (\<lambda>host. hp_id host = host_id) hosts)) (\<lambda>host.
     rbind (resolve_proxy_jump hosts host) (\<lambda>_.
     if hp_proxy_jump host = None then Inr ()
     else if list_ex (\<lambda>dependent. proxy_reference_matches_host (hp_proxy_jump dependent) host)
               (filter (\<lambda>candidate. hp_id candidate \<noteq> hp_id host) hosts)
     then Inl (Validation (''host '' @ quoted (hp_alias host)
                @ '' is already used as a ProxyJump and must connect directly''))
     else Inr ()))"

definition validate_host_deletion_state :: "persisted_state \<Rightarrow> string \<Rightarrow> unit app_result" where
  "validate_host_deletion_state state host_id =
     rbind (ok_or (host_not_found host_id) (find (\<lambda>host. hp_id host = host_id) (ps_hosts state)))
       (\<lambda>removed.
         if list_ex (\<lambda>host. hp_id host \<noteq> host_id
                \<and> proxy_reference_matches_host (hp_proxy_jump host) removed) (ps_hosts state)
         then Inl (Validation (''host '' @ quoted (hp_alias removed)
                @ '' is used as a ProxyJump; remove those references first''))
         else Inr ())"

section \<open>Hosts\<close>

definition find_by_id :: "('a \<Rightarrow> string) \<Rightarrow> string option \<Rightarrow> 'a list \<Rightarrow> 'a option" where
  "find_by_id key i xs = (case i of None \<Rightarrow> None | Some i \<Rightarrow> find (\<lambda>x. key x = i) xs)"

definition alias_taken :: "host_draft \<Rightarrow> host_profile \<Rightarrow> bool" where
  "alias_taken draft host \<longleftrightarrow>
     eq_ignore_ascii_case (hp_alias host) (trim (hd_alias draft)) \<and> hd_id draft \<noteq> Some (hp_id host)"

definition draft_auth_method :: "host_draft \<Rightarrow> host_profile option \<Rightarrow> string option \<Rightarrow> auth_method" where
  "draft_auth_method draft existing requested_identity_file =
     (case hd_auth_method draft of
        Some m \<Rightarrow> m
      | None \<Rightarrow>
        (case existing of
           Some host \<Rightarrow> hp_auth_method host
         | None \<Rightarrow> if requested_identity_file \<noteq> None then PrivateKey else Interactive))"

definition draft_workspace :: "string option \<Rightarrow> string" where
  "draft_workspace w = (case normalize_optional w of None \<Rightarrow> ''~'' | Some value \<Rightarrow> value)"

definition unwrap_or :: "'a \<Rightarrow> 'a option \<Rightarrow> 'a" where
  "unwrap_or d x = (case x of None \<Rightarrow> d | Some v \<Rightarrow> v)"

definition build_host :: "timestamp \<Rightarrow> string \<Rightarrow> host_draft \<Rightarrow> host_profile option \<Rightarrow>
    ssh_advanced_options \<Rightarrow> auth_method \<Rightarrow> string option \<Rightarrow> host_profile" where
  "build_host now new_id draft existing advanced auth_method identity_file =
     \<lparr>hp_schema_version = 2,
      hp_id = (case existing of None \<Rightarrow> new_id | Some host \<Rightarrow> hp_id host),
      hp_alias = trim (hd_alias draft),
      hp_hostname = trim (hd_hostname draft),
      hp_port = hd_port draft,
      hp_username = trim (hd_username draft),
      hp_auth_method = auth_method,
      hp_identity_file = identity_file,
      hp_proxy_jump = normalize_optional (hd_proxy_jump draft),
      hp_default_workspace = draft_workspace (hd_default_workspace draft),
      hp_groups = normalize_groups (hd_groups draft),
      hp_advanced = advanced,
      hp_monitor_enabled = unwrap_or True (hd_monitor_enabled draft),
      hp_created_at = (case existing of None \<Rightarrow> now | Some host \<Rightarrow> hp_created_at host),
      hp_updated_at = now\<rparr>"

definition apply_host_draft ::
    "timestamp \<Rightarrow> string \<Rightarrow> host_draft \<Rightarrow> persisted_state \<Rightarrow> (host_profile \<times> persisted_state) app_result" where
  "apply_host_draft now new_id draft state =
     rbind (validate_host_draft draft) (\<lambda>_.
     if list_ex (alias_taken draft) (ps_hosts state)
     then Inl (Validation (''host alias '' @ quoted (trim (hd_alias draft)) @ '' already exists''))
     else
       let existing = find_by_id hp_id (hd_id draft) (ps_hosts state)
       in if hd_id draft \<noteq> None \<and> existing = None
       then Inl (NotFound ''host being edited no longer exists'')
       else
         let advanced = apply_to (unwrap_or default_ssh_advanced_patch (hd_advanced draft))
               (case existing of None \<Rightarrow> default_ssh_advanced_options | Some host \<Rightarrow> hp_advanced host)
         in rbind (validate_advanced advanced) (\<lambda>_.
           let requested_identity_file = normalize_optional (hd_identity_file draft);
               auth_method = draft_auth_method draft existing requested_identity_file
           in if auth_method = PrivateKey \<and> requested_identity_file = None
           then Inl (Validation ''private-key authentication requires an identity file'')
           else
             let identity_file = (case auth_method of
                     PrivateKey \<Rightarrow> requested_identity_file | Agent \<Rightarrow> None | Interactive \<Rightarrow> None);
                 profile = build_host now new_id draft existing advanced auth_method identity_file
             in Inr (profile, state\<lparr>ps_hosts := upsert hp_id profile (ps_hosts state)\<rparr>)))"

definition redirect_dependent :: "string \<Rightarrow> string \<Rightarrow> host_profile \<Rightarrow> host_profile" where
  "redirect_dependent previous_alias jump_id dependent =
     (case hp_proxy_jump dependent of
        None \<Rightarrow> dependent
      | Some reference \<Rightarrow>
          if eq_ignore_ascii_case reference previous_alias
          then dependent\<lparr>hp_proxy_jump := Some jump_id\<rparr> else dependent)"

definition apply_host_update ::
    "timestamp \<Rightarrow> string \<Rightarrow> host_draft \<Rightarrow> persisted_state \<Rightarrow> (host_profile \<times> persisted_state) app_result" where
  "apply_host_update now new_id draft state =
     (let previous_alias = map_option hp_alias (find_by_id hp_id (hd_id draft) (ps_hosts state))
      in rbind (apply_host_draft now new_id draft state) (\<lambda>(profile, state).
        let hosts = (case previous_alias of
              None \<Rightarrow> ps_hosts state
            | Some previous_alias \<Rightarrow>
                if \<not> eq_ignore_ascii_case previous_alias (hp_alias profile)
                then map (redirect_dependent previous_alias (hp_id profile)) (ps_hosts state)
                else ps_hosts state)
        in rbind (normalize_proxy_jump_for (hp_id profile) hosts) (\<lambda>hosts.
           rbind (validate_proxy_jump_role hosts (hp_id profile)) (\<lambda>_.
           rbind (expect_host (hp_id profile) hosts) (\<lambda>result.
             Inr (result, state\<lparr>ps_hosts := hosts\<rparr>))))))"

section \<open>Tunnels and commands\<close>

definition apply_tunnel_draft ::
    "timestamp \<Rightarrow> string \<Rightarrow> tunnel_draft \<Rightarrow> persisted_state \<Rightarrow> (tunnel_profile \<times> persisted_state) app_result" where
  "apply_tunnel_draft now new_id draft state =
     rbind (validate_tunnel_draft draft) (\<lambda>_.
     if \<not> host_exists state (td_host_id draft) then Inl (host_not_found (td_host_id draft))
     else if list_ex (\<lambda>item. tp_host_id item = td_host_id draft
               \<and> eq_ignore_ascii_case (tp_name item) (trim (td_name draft))
               \<and> td_id draft \<noteq> Some (tp_id item)) (ps_tunnels state)
     then Inl (Validation (''tunnel name '' @ quoted (trim (td_name draft))
                @ '' already exists for this host''))
     else
       let existing = find_by_id tp_id (td_id draft) (ps_tunnels state)
       in if td_id draft \<noteq> None \<and> existing = None
       then Inl (NotFound ''tunnel being edited no longer exists'')
       else
         let profile =
           \<lparr>tp_schema_version = 2,
            tp_id = (case existing of None \<Rightarrow> new_id | Some item \<Rightarrow> tp_id item),
            tp_host_id = td_host_id draft,
            tp_name = trim (td_name draft),
            tp_direction = td_direction draft,
            tp_bind_address = trim (td_bind_address draft),
            tp_source_port = td_source_port draft,
            tp_target_host = trim (td_target_host draft),
            tp_target_port = td_target_port draft,
            tp_auto_start = unwrap_or False (td_auto_start draft),
            tp_auto_reconnect = unwrap_or False (td_auto_reconnect draft),
            tp_health_check = td_health_check draft,
            tp_created_at = (case existing of None \<Rightarrow> now | Some item \<Rightarrow> tp_created_at item),
            tp_updated_at = now\<rparr>
         in Inr (profile, state\<lparr>ps_tunnels := upsert tp_id profile (ps_tunnels state)\<rparr>))"

definition apply_command_draft ::
    "timestamp \<Rightarrow> string \<Rightarrow> command_preset_draft \<Rightarrow> persisted_state \<Rightarrow>
      (command_preset \<times> persisted_state) app_result" where
  "apply_command_draft now new_id draft state =
     rbind (validate_command_draft draft) (\<lambda>_.
     if (case cpd_host_id draft of None \<Rightarrow> False | Some host_id \<Rightarrow> \<not> host_exists state host_id)
     then Inl (host_not_found (unwrap_or [] (cpd_host_id draft)))
     else if list_ex (\<lambda>command. cp_host_id command = cpd_host_id draft
               \<and> eq_ignore_ascii_case (cp_name command) (trim (cpd_name draft))
               \<and> cpd_id draft \<noteq> Some (cp_id command)) (ps_command_presets state)
     then Inl (Validation (''command preset '' @ quoted (trim (cpd_name draft))
                @ '' already exists in this scope''))
     else
       let existing = find_by_id cp_id (cpd_id draft) (ps_command_presets state)
       in if cpd_id draft \<noteq> None \<and> existing = None
       then Inl (NotFound ''command preset being edited no longer exists'')
       else
         let command =
           \<lparr>cp_schema_version = 2,
            cp_id = (case existing of None \<Rightarrow> new_id | Some e \<Rightarrow> cp_id e),
            cp_host_id = cpd_host_id draft,
            cp_name = trim (cpd_name draft),
            cp_description = trim (cpd_description draft),
            cp_group = trim (cpd_group draft),
            cp_command = trim (cpd_command draft),
            cp_working_directory = normalize_optional (cpd_working_directory draft),
            cp_risk = cpd_risk draft,
            cp_requires_pty = cpd_requires_pty draft,
            cp_requires_sudo = cpd_requires_sudo draft,
            cp_confirmation_text = normalize_optional (cpd_confirmation_text draft),
            cp_sort_order = cpd_sort_order draft,
            cp_created_at = (case existing of None \<Rightarrow> now | Some e \<Rightarrow> cp_created_at e),
            cp_updated_at = now\<rparr>
         in Inr (command, state\<lparr>ps_command_presets := upsert cp_id command (ps_command_presets state)\<rparr>))"

end
