(* ===== verification/StoreProxy.thy ===== *)
theory StoreProxy
  imports StoreApply
begin

text \<open>
  ProxyJump references stay one hop long: every operation that changes hosts keeps every stored
  reference the identifier of another saved host that connects directly.
\<close>

section \<open>The invariant\<close>

text \<open>Identifiers as \<^verbatim>\<open>Uuid::new_v4\<close> makes them: usable as a ProxyJump argument.\<close>

definition id_ok :: "string \<Rightarrow> bool" where
  "id_ok i \<longleftrightarrow> validate_ssh_atom ''ProxyJump'' i 1024 = Inr ()"

definition jumps_direct :: "host_profile list \<Rightarrow> host_profile \<Rightarrow> bool" where
  "jumps_direct hs h \<longleftrightarrow> (case hp_proxy_jump h of
       None \<Rightarrow> True
     | Some r \<Rightarrow> (\<exists>j \<in> set hs. hp_id j = r \<and> hp_id j \<noteq> hp_id h \<and> hp_proxy_jump j = None))"

definition proxy_wf_except :: "string set \<Rightarrow> host_profile list \<Rightarrow> bool" where
  "proxy_wf_except S hs \<longleftrightarrow> distinct (map hp_id hs) \<and> (\<forall>h \<in> set hs. id_ok (hp_id h))
     \<and> (\<forall>h \<in> set hs. hp_id h \<notin> S \<longrightarrow> jumps_direct hs h)"

definition proxy_wf :: "host_profile list \<Rightarrow> bool" where
  "proxy_wf hs = proxy_wf_except {} hs"

section \<open>References\<close>

lemma id_ok_trim: "id_ok i \<Longrightarrow> trim i = i \<and> i \<noteq> []"
  by (auto simp: id_ok_def validate_ssh_atom_def trim_id split: if_splits)

lemma normalize_optional_Some:
  "normalize_optional x = Some v \<longleftrightarrow> (\<exists>y. x = Some y \<and> v = trim y \<and> v \<noteq> [])"
  by (cases x) (auto simp: normalize_optional_def)

lemma normalize_optional_id: "id_ok i \<Longrightarrow> normalize_optional (Some i) = Some i"
  using id_ok_trim[of i] by (simp add: normalize_optional_def)

lemma resolve_proxy_reference_mem:
  "resolve_proxy_reference hs r = Inr (Some j) \<Longrightarrow> j \<in> set hs"
  unfolding resolve_proxy_reference_def
  by (auto split: option.splits list.splits dest!: find_SomeD)
    (metis (no_types, lifting) filter_is_subset insert_subset list.simps(15))

text \<open>A stored identifier resolves to the host that has it, before any alias or endpoint.\<close>

lemma resolve_proxy_reference_id:
  assumes "distinct (map hp_id hs)" and "j \<in> set hs" and "id_ok (hp_id j)"
  shows "resolve_proxy_reference hs (Some (hp_id j)) = Inr (Some j)"
  using find_key[OF assms(1,2)] assms(3)
  by (simp add: resolve_proxy_reference_def normalize_optional_id)

lemma resolve_proxy_reference_None:
  "resolve_proxy_reference hs None = Inr None"
  by (simp add: resolve_proxy_reference_def normalize_optional_def)

lemma expect_host_id:
  assumes "distinct (map hp_id hs)" and "j \<in> set hs"
  shows "expect_host (hp_id j) hs = Inr j"
  using find_key[OF assms] by (simp add: expect_host_def)

text \<open>Resolving the jump of a well-formed host gives the one direct host it names.\<close>

lemma resolve_proxy_jump_wf:
  assumes "proxy_wf hs" and "h \<in> set hs"
  shows "(hp_proxy_jump h = None \<and> resolve_proxy_jump hs h = Inr None)
    \<or> (\<exists>j \<in> set hs. hp_proxy_jump h = Some (hp_id j) \<and> hp_id j \<noteq> hp_id h
        \<and> hp_proxy_jump j = None \<and> resolve_proxy_jump hs h = Inr (Some j))"
proof (cases "hp_proxy_jump h")
  case None
  then show ?thesis by (simp add: resolve_proxy_jump_def resolve_proxy_reference_None)
next
  case (Some r)
  then obtain j where j: "j \<in> set hs" "hp_id j = r" "hp_id j \<noteq> hp_id h" "hp_proxy_jump j = None"
  proof -
    from assms have "jumps_direct hs h" by (simp add: proxy_wf_def proxy_wf_except_def)
    with Some that show ?thesis by (auto simp: jumps_direct_def)
  qed
  have "resolve_proxy_reference hs (hp_proxy_jump h) = Inr (Some j)"
    using resolve_proxy_reference_id[of hs j] j Some assms
    by (auto simp: proxy_wf_def proxy_wf_except_def)
  with j Some show ?thesis by (auto simp: resolve_proxy_jump_def)
qed

section \<open>Normalisation\<close>

definition set_jump :: "string \<Rightarrow> string option \<Rightarrow> host_profile \<Rightarrow> host_profile" where
  "set_jump i r h = (if hp_id h = i then h\<lparr>hp_proxy_jump := r\<rparr> else h)"

lemma set_jump_id [simp]: "hp_id (set_jump i r h) = hp_id h"
  by (simp add: set_jump_def)

lemma map_set_jump_ids [simp]: "map hp_id (map (set_jump i r) hs) = map hp_id hs"
  by (simp add: comp_def)

lemma list_update_set_jump:
  assumes "distinct (map hp_id hs)" and "position (\<lambda>h. hp_id h = i) hs = Some n"
  shows "hs[n := (hs ! n)\<lparr>hp_proxy_jump := r\<rparr>] = map (set_jump i r) hs"
proof (rule nth_equalityI)
  have n: "n < length hs" "hp_id (hs ! n) = i"
    using position_Some[OF assms(2)] by auto
  fix k assume "k < length (hs[n := (hs ! n)\<lparr>hp_proxy_jump := r\<rparr>])"
  then have k: "k < length hs" by simp
  have "hp_id (hs ! k) = i \<longleftrightarrow> k = n"
    using assms(1) n k by (metis distinct_conv_nth length_map nth_map)
  then show "hs[n := (hs ! n)\<lparr>hp_proxy_jump := r\<rparr>] ! k = map (set_jump i r) hs ! k"
    using n k by (auto simp: set_jump_def nth_list_update)
qed simp

text \<open>The two outcomes of a successful normalisation.\<close>

lemma normalize_proxy_jump_forE:
  assumes "normalize_proxy_jump_for i hs = Inr hs'" and "distinct (map hp_id hs)"
  obtains (direct) h where "h \<in> set hs" "hp_id h = i" "hp_proxy_jump h = None" "hs' = hs"
  | (jump) h j where "h \<in> set hs" "hp_id h = i" "hp_proxy_jump h \<noteq> None" "j \<in> set hs" "hp_id j \<noteq> i"
      "hp_proxy_jump j = None" "hs' = map (set_jump i (Some (hp_id j))) hs"
proof -
  obtain n where n: "position (\<lambda>h. hp_id h = i) hs = Some n"
    using assms(1) by (auto simp: normalize_proxy_jump_for_def result_simps)
  then have h: "hs ! n \<in> set hs" "hp_id (hs ! n) = i"
    using position_Some[OF n] by auto
  show ?thesis
  proof (cases "hp_proxy_jump (hs ! n)")
    case None
    with assms(1) n have "hs' = hs" by (simp add: normalize_proxy_jump_for_def)
    with direct h None show ?thesis by blast
  next
    case (Some r)
    with assms(1) n obtain j where res: "resolve_proxy_reference hs (Some r) = Inr (Some j)"
      and ne: "hp_id j \<noteq> i" and hs': "rbind (expect_host (hp_id j) hs) (\<lambda>jump.
          if hp_proxy_jump jump \<noteq> None then Inl (nested_chain_error jump)
          else Inr (hs[n := (hs ! n)\<lparr>hp_proxy_jump := Some (hp_id j)\<rparr>])) = Inr hs'"
      by (auto simp: normalize_proxy_jump_for_def result_simps Let_def)
    have j: "j \<in> set hs" using res by (rule resolve_proxy_reference_mem)
    with hs' assms(2) have "hp_proxy_jump j = None"
      and "hs' = hs[n := (hs ! n)\<lparr>hp_proxy_jump := Some (hp_id j)\<rparr>]"
      by (auto simp: expect_host_id result_simps)
    with jump[OF h] Some j ne list_update_set_jump[OF assms(2) n] show ?thesis by simp
  qed
qed

lemma jumps_direct_mono:
  assumes "jumps_direct hs h" and "\<And>j. j \<in> set hs \<Longrightarrow> hp_proxy_jump j = None \<Longrightarrow> j \<in> set hs'"
  shows "jumps_direct hs' h"
  using assms by (fastforce simp: jumps_direct_def split: option.splits)

lemma normalize_proxy_wf:
  assumes "normalize_proxy_jump_for i hs = Inr hs'" and "proxy_wf_except S hs"
  shows "proxy_wf_except (S - {i}) hs' \<and> map hp_id hs' = map hp_id hs"
proof -
  have dist: "distinct (map hp_id hs)" using assms(2) by (simp add: proxy_wf_except_def)
  from assms(1) dist show ?thesis
  proof (cases rule: normalize_proxy_jump_forE)
    case (direct h)
    have "jumps_direct hs h'" if "h' \<in> set hs" "hp_id h' = i" for h'
      using key_inject[OF dist that(1) direct(1)] that(2) direct(2,3) by (simp add: jumps_direct_def)
    with assms(2) direct show ?thesis by (auto simp: proxy_wf_except_def)
  next
    case (jump h j)
    have j': "k \<in> set hs'" if "k \<in> set hs" "hp_proxy_jump k = None" for k
    proof -
      have "hp_id k \<noteq> i" using key_inject[OF dist that(1) jump(1)] that(2) jump(2,3) by auto
      then have "set_jump i (Some (hp_id j)) k = k" by (simp add: set_jump_def)
      with that jump show ?thesis by (metis image_eqI set_map)
    qed
    have "jumps_direct hs' h'" if h': "h' \<in> set hs'" "hp_id h' \<notin> S - {i}" for h'
    proof -
      obtain k where k: "k \<in> set hs" "h' = set_jump i (Some (hp_id j)) k"
        using h'(1) jump(7) by auto
      show ?thesis
      proof (cases "hp_id k = i")
        case True
        with k jump j'[of j] show ?thesis by (auto simp: jumps_direct_def set_jump_def)
      next
        case False
        with k h' have "h' = k" "hp_id k \<notin> S" by (auto simp: set_jump_def)
        with assms(2) k have "jumps_direct hs h'" by (auto simp: proxy_wf_except_def)
        then show ?thesis by (rule jumps_direct_mono) (rule j')
      qed
    qed
    moreover have "map hp_id hs' = map hp_id hs" using jump by simp
    moreover from this have "\<forall>h \<in> set hs'. id_ok (hp_id h)"
      using assms(2) jump by (auto simp: proxy_wf_except_def)
    ultimately show ?thesis using dist by (simp add: proxy_wf_except_def)
  qed
qed

section \<open>The role check\<close>

lemma validate_proxy_jump_roleD:
  assumes "validate_proxy_jump_role hs i = Inr ()" and "distinct (map hp_id hs)"
    and "h \<in> set hs" and "hp_id h = i" and "hp_proxy_jump h \<noteq> None"
    and "d \<in> set hs" and "hp_id d \<noteq> i" and "id_ok i"
  shows "hp_proxy_jump d \<noteq> Some i"
proof -
  have "find (\<lambda>host. hp_id host = i) hs = Some h"
    using find_key[OF assms(2,3)] assms(4) by simp
  with assms have "\<not> proxy_reference_matches_host (hp_proxy_jump d) h"
    by (auto simp: validate_proxy_jump_role_def result_simps list_ex_iff)
  then show ?thesis
    using assms(4) id_ok_trim[OF assms(8)] by (auto simp: proxy_reference_matches_host_def)
qed

section \<open>Applying a host draft\<close>

lemma apply_host_draftE:
  assumes "apply_host_draft now new_id draft s = Inr (p, s')"
  obtains existing advanced auth where
    "validate_host_draft draft = Inr ()" "\<forall>h \<in> set (ps_hosts s). \<not> alias_taken draft h"
    "existing = find_by_id hp_id (hd_id draft) (ps_hosts s)" "hd_id draft = None \<or> existing \<noteq> None"
    "validate_advanced advanced = Inr ()"
    "auth = PrivateKey \<Longrightarrow> normalize_optional (hd_identity_file draft) \<noteq> None"
    "p = build_host now new_id draft existing advanced auth
       (if auth = PrivateKey then normalize_optional (hd_identity_file draft) else None)"
    "s' = s\<lparr>ps_hosts := upsert hp_id p (ps_hosts s)\<rparr>"
proof -
  define existing where "existing = find_by_id hp_id (hd_id draft) (ps_hosts s)"
  define advanced where "advanced = apply_to (unwrap_or default_ssh_advanced_patch (hd_advanced draft))
      (case existing of None \<Rightarrow> default_ssh_advanced_options | Some host \<Rightarrow> hp_advanced host)"
  define auth where "auth = draft_auth_method draft existing (normalize_optional (hd_identity_file draft))"
  note run = assms[unfolded apply_host_draft_def Let_def, folded existing_def,
      folded advanced_def, folded auth_def]
  show ?thesis
    by (rule that[of existing advanced auth])
      (use run in \<open>auto simp: result_simps list_ex_iff existing_def split: auth_method.splits\<close>)
qed

lemma hp_id_build_host:
  "hp_id (build_host now new_id d e adv auth f) = (case e of None \<Rightarrow> new_id | Some h \<Rightarrow> hp_id h)"
  by (simp add: build_host_def)

lemma find_by_id_Some: "find_by_id key i xs = Some x \<Longrightarrow> x \<in> set xs \<and> i = Some (key x)"
  by (auto simp: find_by_id_def dest: find_SomeD split: option.splits)

text \<open>
  The identifier a draft is stored under: the one it names, which must exist, or the new one.
\<close>

lemma apply_host_draft_id:
  assumes "apply_host_draft now new_id draft s = Inr (p, s')"
  shows "(hd_id draft = None \<and> hp_id p = new_id)
    \<or> (hd_id draft = Some (hp_id p) \<and> hp_id p \<in> hp_id ` set (ps_hosts s))"
  using assms
proof (rule apply_host_draftE)
  fix existing advanced auth
  assume e: "existing = find_by_id hp_id (hd_id draft) (ps_hosts s)" "hd_id draft = None \<or> existing \<noteq> None"
    and p: "p = build_host now new_id draft existing advanced auth
       (if auth = PrivateKey then normalize_optional (hd_identity_file draft) else None)"
  show ?thesis
  proof (cases existing)
    case None
    with e p show ?thesis by (simp add: hp_id_build_host)
  next
    case (Some h)
    have "hp_id p = hp_id h" using p Some by (simp add: hp_id_build_host)
    moreover have "h \<in> set (ps_hosts s)" "hd_id draft = Some (hp_id h)"
      using find_by_id_Some[of hp_id "hd_id draft" "ps_hosts s" h] e(1) Some by simp_all
    ultimately show ?thesis by simp
  qed
qed

lemma apply_host_draft_state:
  "apply_host_draft now new_id draft s = Inr (p, s') \<Longrightarrow> s' = s\<lparr>ps_hosts := upsert hp_id p (ps_hosts s)\<rparr>"
  by (erule apply_host_draftE)

text \<open>Renaming a jump host redirects the references by its old alias to its identifier.\<close>

lemma redirect_dependent_cases:
  "redirect_dependent a i h = h \<or>
     (hp_proxy_jump h \<noteq> None \<and> redirect_dependent a i h = h\<lparr>hp_proxy_jump := Some i\<rparr>)"
  by (auto simp: redirect_dependent_def split: option.splits)

lemma redirect_dependent_id [simp]: "hp_id (redirect_dependent a i h) = hp_id h"
  using redirect_dependent_cases[of a i h] by auto

lemma map_redirect_ids [simp]: "map hp_id (map (redirect_dependent a i) hs) = map hp_id hs"
  by (simp add: comp_def)

text \<open>
  What editing one host leaves of the others: each is as it was, except that its reference may now
  be the edited host.
\<close>

definition edited :: "string \<Rightarrow> host_profile list \<Rightarrow> host_profile list \<Rightarrow> bool" where
  "edited i hs hs' \<longleftrightarrow> distinct (map hp_id hs')
     \<and> hp_id ` set hs' = insert i (hp_id ` set hs)
     \<and> (\<forall>h' \<in> set hs'. hp_id h' \<noteq> i \<longrightarrow>
          h' \<in> set hs \<or> (\<exists>h \<in> set hs. hp_proxy_jump h \<noteq> None \<and> h' = h\<lparr>hp_proxy_jump := Some i\<rparr>))
     \<and> (\<forall>h \<in> set hs. hp_id h \<noteq> i \<longrightarrow> hp_proxy_jump h = None \<longrightarrow> h \<in> set hs')"

lemma edited_upsert: "distinct (map hp_id hs) \<Longrightarrow> edited (hp_id p) hs (upsert hp_id p hs)"
  by (auto simp: edited_def set_upsert distinct_keys_upsert)

lemma edited_redirect:
  assumes "edited i hs hs'"
  shows "edited i hs (map (redirect_dependent a i) hs')"
proof -
  have *: "redirect_dependent a i h' \<in> set hs \<or>
      (\<exists>h \<in> set hs. hp_proxy_jump h \<noteq> None \<and> redirect_dependent a i h' = h\<lparr>hp_proxy_jump := Some i\<rparr>)"
    if "h' \<in> set hs'" "hp_id h' \<noteq> i" for h'
    using assms that redirect_dependent_cases[of a i h'] by (fastforce simp: edited_def)
  have none: "redirect_dependent a i h = h" if "hp_proxy_jump h = None" for h
    using that by (simp add: redirect_dependent_def)
  have ids: "hp_id ` set (map (redirect_dependent a i) hs') = hp_id ` set hs'"
    by (simp add: image_image)
  show ?thesis
    using assms * none unfolding edited_def ids by (auto simp: image_iff comp_def) metis
qed

text \<open>
  The final state of an edit: the edited host is normalised and its role is checked.  If the hosts
  were well formed before, they are afterwards.
\<close>

lemma edited_normalized_wf:
  assumes wf: "proxy_wf hs" and ed: "edited i hs hs1" and i: "id_ok i"
    and norm: "normalize_proxy_jump_for i hs1 = Inr hs2"
    and role: "validate_proxy_jump_role hs2 i = Inr ()"
  shows "proxy_wf hs2"
proof -
  have dist1: "distinct (map hp_id hs1)" using ed by (simp add: edited_def)
  have ok1: "\<forall>h \<in> set hs1. id_ok (hp_id h)"
    using ed wf i by (auto simp: edited_def proxy_wf_def proxy_wf_except_def)
  have ids: "map hp_id hs2 = map hp_id hs1"
    using norm dist1 by (cases rule: normalize_proxy_jump_forE) auto
  then have dist2: "distinct (map hp_id hs2)" using dist1 by simp
  have i_in: "\<exists>p \<in> set hs2. hp_id p = i"
    using norm dist1 by (cases rule: normalize_proxy_jump_forE) auto
  have other: "h \<in> set hs2 \<longleftrightarrow> h \<in> set hs1" if "hp_id h \<noteq> i" for h
    using norm dist1 that
    by (cases rule: normalize_proxy_jump_forE) (auto simp: set_jump_def image_iff)
  have target: "hp_proxy_jump p = None" if "p \<in> set hs2" "hp_id p = i" "h \<in> set hs2" "hp_id h \<noteq> i"
      "hp_proxy_jump h = Some i" for p h
    using validate_proxy_jump_roleD[OF role dist2 that(1,2) _ that(3,4) i] that(5)
    by (cases "hp_proxy_jump p") auto
  have "jumps_direct hs2 h" if h: "h \<in> set hs2" for h
  proof (cases "hp_id h = i")
    case True
    from norm dist1 show ?thesis
    proof (cases rule: normalize_proxy_jump_forE)
      case (direct p)
      with key_inject[OF dist1 direct(1), of h] h True show ?thesis by (simp add: jumps_direct_def)
    next
      case (jump p j)
      then have "hp_proxy_jump h = Some (hp_id j)" using h True by (auto simp: set_jump_def)
      moreover have j: "j \<in> set hs2" using other[of j] jump by simp
      have "\<exists>j' \<in> set hs2. hp_id j' = hp_id j \<and> hp_id j' \<noteq> hp_id h \<and> hp_proxy_jump j' = None"
        by (rule bexI[OF _ j]) (use jump(5,6) True in auto)
      ultimately show ?thesis by (simp add: jumps_direct_def)
    qed
  next
    case False
    then have h1: "h \<in> set hs1" using h other by simp
    have jump_i: ?thesis if "hp_proxy_jump h = Some i"
    proof -
      obtain p where p: "p \<in> set hs2" "hp_id p = i" using i_in by blast
      from target[OF p h False that] p False that show ?thesis by (auto simp: jumps_direct_def)
    qed
    from ed h1 False consider "h \<in> set hs" | "hp_proxy_jump h = Some i"
      unfolding edited_def by fastforce
    then show ?thesis
    proof cases
      case 1
      with wf have old: "jumps_direct hs h" by (simp add: proxy_wf_def proxy_wf_except_def)
      show ?thesis
      proof (cases "hp_proxy_jump h = Some i")
        case True
        then show ?thesis by (rule jump_i)
      next
        case no: False
        have "j \<in> set hs2" if "j \<in> set hs" "hp_proxy_jump j = None" "hp_id j \<noteq> i" for j
          using ed that other[of j] by (simp add: edited_def)
        with old no show ?thesis by (fastforce simp: jumps_direct_def split: option.splits)
      qed
    qed (rule jump_i)
  qed
  moreover have "\<forall>h \<in> set hs2. id_ok (hp_id h)"
    using ok1 ids by (metis (no_types, opaque_lifting) image_eqI image_set imageE)
  ultimately show ?thesis using dist2 by (simp add: proxy_wf_def proxy_wf_except_def)
qed

lemma apply_host_updateE:
  assumes "apply_host_update now new_id draft s = Inr (p, s')" and "distinct (map hp_id (ps_hosts s))"
  obtains q hs1 hs2 where
    "apply_host_draft now new_id draft s = Inr (q, s\<lparr>ps_hosts := upsert hp_id q (ps_hosts s)\<rparr>)"
    "edited (hp_id q) (ps_hosts s) hs1" "normalize_proxy_jump_for (hp_id q) hs1 = Inr hs2"
    "validate_proxy_jump_role hs2 (hp_id q) = Inr ()" "p \<in> set hs2" "hp_id p = hp_id q"
    "s' = s\<lparr>ps_hosts := hs2\<rparr>"
proof -
  obtain q s1 where q: "apply_host_draft now new_id draft s = Inr (q, s1)"
    using assms(1) by (auto simp: apply_host_update_def Let_def result_simps)
  then have s1: "s1 = s\<lparr>ps_hosts := upsert hp_id q (ps_hosts s)\<rparr>" by (rule apply_host_draft_state)
  define hs1 where "hs1 = (case map_option hp_alias (find_by_id hp_id (hd_id draft) (ps_hosts s)) of
        None \<Rightarrow> ps_hosts s1
      | Some a \<Rightarrow> if \<not> eq_ignore_ascii_case a (hp_alias q)
          then map (redirect_dependent a (hp_id q)) (ps_hosts s1) else ps_hosts s1)"
  have ed: "edited (hp_id q) (ps_hosts s) hs1"
    unfolding hs1_def s1 using edited_upsert[OF assms(2), of q]
    by (auto intro: edited_redirect split: option.splits)
  have run: "rbind (normalize_proxy_jump_for (hp_id q) hs1) (\<lambda>hosts.
           rbind (validate_proxy_jump_role hosts (hp_id q)) (\<lambda>_.
           rbind (expect_host (hp_id q) hosts) (\<lambda>result. Inr (result, s1\<lparr>ps_hosts := hosts\<rparr>)))) = Inr (p, s')"
    using assms(1) unfolding apply_host_update_def Let_def q rbind_simps hs1_def by simp
  then obtain hs2 where "normalize_proxy_jump_for (hp_id q) hs1 = Inr hs2"
    "validate_proxy_jump_role hs2 (hp_id q) = Inr ()" "expect_host (hp_id q) hs2 = Inr p"
    "s' = s1\<lparr>ps_hosts := hs2\<rparr>"
    by (auto simp: result_simps)
  with that[OF q[unfolded s1] ed] show ?thesis
    by (auto simp: expect_host_def s1 result_simps dest: find_SomeD)
qed

lemma apply_host_update_wf:
  assumes "proxy_wf (ps_hosts s)" and "id_ok new_id"
    and "apply_host_update now new_id draft s = Inr (p, s')"
  shows "proxy_wf (ps_hosts s')"
proof -
  have dist: "distinct (map hp_id (ps_hosts s))" and ok: "\<forall>h \<in> set (ps_hosts s). id_ok (hp_id h)"
    using assms(1) by (simp_all add: proxy_wf_def proxy_wf_except_def)
  from assms(3) dist show ?thesis
  proof (rule apply_host_updateE)
    fix q hs1 hs2
    assume q: "apply_host_draft now new_id draft s = Inr (q, s\<lparr>ps_hosts := upsert hp_id q (ps_hosts s)\<rparr>)"
      and *: "edited (hp_id q) (ps_hosts s) hs1" "normalize_proxy_jump_for (hp_id q) hs1 = Inr hs2"
        "validate_proxy_jump_role hs2 (hp_id q) = Inr ()" "s' = s\<lparr>ps_hosts := hs2\<rparr>"
    have "id_ok (hp_id q)" using apply_host_draft_id[OF q] assms(2) ok by auto
    with edited_normalized_wf[OF assms(1) *(1) _ *(2,3)] *(4) show ?thesis by simp
  qed
qed

section \<open>Deletion\<close>

lemma validate_host_deletion_stateD:
  assumes "validate_host_deletion_state s i = Inr ()" and "id_ok i" and "h \<in> set (ps_hosts s)"
    and "hp_id h \<noteq> i"
  shows "hp_proxy_jump h \<noteq> Some i"
proof -
  obtain r where r: "find (\<lambda>host. hp_id host = i) (ps_hosts s) = Some r"
    and "\<not> proxy_reference_matches_host (hp_proxy_jump h) r"
    using assms(1,3,4) by (auto simp: validate_host_deletion_state_def result_simps list_ex_iff)
  then show ?thesis
    using find_SomeD[OF r] id_ok_trim[OF assms(2)] by (auto simp: proxy_reference_matches_host_def)
qed

lemma deletion_wf:
  assumes "proxy_wf (ps_hosts s)" and "validate_host_deletion_state s i = Inr ()"
  shows "proxy_wf (filter (\<lambda>host. hp_id host \<noteq> i) (ps_hosts s))"
proof -
  have i: "id_ok i"
    using assms by (auto simp: validate_host_deletion_state_def result_simps proxy_wf_def
        proxy_wf_except_def dest: find_SomeD)
  have "jumps_direct (filter (\<lambda>host. hp_id host \<noteq> i) (ps_hosts s)) h"
    if "h \<in> set (ps_hosts s)" "hp_id h \<noteq> i" for h
    using assms(1) validate_host_deletion_stateD[OF assms(2) i that] that
    by (fastforce simp: proxy_wf_def proxy_wf_except_def jumps_direct_def split: option.splits)
  with assms(1) show ?thesis
    by (auto simp: proxy_wf_def proxy_wf_except_def distinct_map_filter)
qed

section \<open>Imported hosts\<close>

text \<open>Pushing a host under a fresh identifier leaves the others well formed; it is pending.\<close>

lemma push_pending:
  assumes "proxy_wf_except S hs" and "hp_id p \<notin> hp_id ` set hs" and "id_ok (hp_id p)"
  shows "proxy_wf_except (insert (hp_id p) S) (hs @ [p])"
proof -
  have "jumps_direct (hs @ [p]) h" if "h \<in> set hs" "hp_id h \<notin> S" for h
    by (rule jumps_direct_mono[of hs h]) (use assms(1) that in \<open>auto simp: proxy_wf_except_def\<close>)
  then have "\<forall>h \<in> set (hs @ [p]). hp_id h \<notin> insert (hp_id p) S \<longrightarrow> jumps_direct (hs @ [p]) h"
    by simp
  moreover have "distinct (map hp_id (hs @ [p]))" and "\<forall>h \<in> set (hs @ [p]). id_ok (hp_id h)"
    using assms by (simp_all add: proxy_wf_except_def)
  ultimately show ?thesis unfolding proxy_wf_except_def by blast
qed

lemma upsert_fresh: "key x \<notin> key ` set xs \<Longrightarrow> upsert key x xs = xs @ [x]"
  by (cases rule: upsert_split[of xs key x]) auto

lemma proxy_wf_except_mono: "proxy_wf_except S hs \<Longrightarrow> S \<subseteq> T \<Longrightarrow> proxy_wf_except T hs"
  by (auto simp: proxy_wf_except_def)

text \<open>Normalising every pending host makes the whole list well formed.\<close>

lemma normalize_all_wf:
  assumes "rfold normalize_proxy_jump_for is hs = Inr hs'" and "proxy_wf_except S hs"
  shows "proxy_wf_except (S - set is) hs' \<and> map hp_id hs' = map hp_id hs"
  using assms
proof (induction "is" arbitrary: hs S)
  case (Cons i js)
  then obtain hs1 where step: "normalize_proxy_jump_for i hs = Inr hs1"
    and rest: "rfold normalize_proxy_jump_for js hs1 = Inr hs'"
    by (auto simp: result_simps)
  from normalize_proxy_wf[OF step Cons.prems(2)]
  have "proxy_wf_except (S - {i}) hs1" and ids: "map hp_id hs1 = map hp_id hs" by simp_all
  from Cons.IH[OF rest this(1)] ids
  have "proxy_wf_except (S - {i} - set js) hs' \<and> map hp_id hs' = map hp_id hs" by simp
  moreover have "S - set (i # js) = S - {i} - set js" by auto
  ultimately show ?case by (simp only:)
qed simp

end
