(* ===== verification/StoreRepo.thy ===== *)
theory StoreRepo
  imports StoreProxy "HOL-Library.Product_Lexorder" "HOL-Library.List_Lexorder" "HOL-Library.Char_ord"
begin

text \<open>
  \<^verbatim>\<open>crates/remotedeck-core/src/store.rs\<close>, the repository: the state in memory, the hosts being
  deleted and the files on disk.  Every operation clones the state, changes the clone, writes it
  and only then replaces the state in memory.

  The file system is a map from the four paths the code touches to their bytes.  JSON encoding is
  \<^verbatim>\<open>serde_json\<close>'s, a parameter.  \<open>io_fault\<close> says where the operating system reports an error
  during one write.
\<close>

section \<open>Files\<close>

datatype store_path = StatePath | BackupPath | TempPath | BackupTempPath

type_synonym files = "store_path \<rightharpoonup> string"

datatype fs_step =
    WriteStep store_path string
  | CopyStep store_path store_path
  | RenameStep store_path store_path

fun fs_apply :: "fs_step \<Rightarrow> files \<Rightarrow> files" where
  "fs_apply (WriteStep p c) fs = fs(p \<mapsto> c)"
| "fs_apply (CopyStep a b) fs = (case fs a of None \<Rightarrow> fs | Some c \<Rightarrow> fs(b \<mapsto> c))"
| "fs_apply (RenameStep a b) fs = (case fs a of None \<Rightarrow> fs | Some c \<Rightarrow> (fs(b \<mapsto> c))(a := None))"

definition fs_run :: "fs_step list \<Rightarrow> files \<Rightarrow> files" where
  "fs_run steps fs = fold fs_apply steps fs"

text \<open>\<^verbatim>\<open>serde_json\<close>: encoding and decoding of a state, each with an error message.\<close>

record serde =
  to_vec_pretty :: "persisted_state \<Rightarrow> string + string"
  from_slice :: "string \<Rightarrow> string + persisted_state"

datatype io_fault =
    NoFault
  | CreateDirFault
  | TempFault "string option"
  | ReplaceFault nat

record env =
  env_now :: "nat \<Rightarrow> timestamp"
  env_uuid :: "nat \<Rightarrow> string"
  env_serde :: serde
  env_windows :: bool
  env_fault :: io_fault
  env_order :: "string list \<Rightarrow> string list"

definition read_valid_state :: "serde \<Rightarrow> files \<Rightarrow> store_path \<Rightarrow> persisted_state app_result" where
  "read_valid_state sd fs path =
     rbind (ok_or (Io ''file not found'') (fs path)) (\<lambda>bytes.
     if length bytes > MAX_STATE_BYTES
     then Inl (State (''persisted state exceeds the '' @ dec MAX_STATE_BYTES @ ''-byte safety limit''))
     else rbind (rmap_err Json (from_slice sd bytes)) (\<lambda>parsed.
       rbind (validate_persisted_state parsed) (\<lambda>_. Inr parsed)))"

text \<open>
  \<^verbatim>\<open>atomic_replace\<close> off Windows: copy the current file beside the backup, rename it over the
  backup, rename the temporary file over the state.  \<^verbatim>\<open>ReplaceFileW\<close> is documented to leave, when
  it fails half way, the replaced file under the backup's name and no file under the original one:
  two renames.
\<close>

definition replace_steps_unix :: "bool \<Rightarrow> fs_step list" where
  "replace_steps_unix backup =
     (if backup then [CopyStep StatePath BackupTempPath, RenameStep BackupTempPath BackupPath] else [])
     @ [RenameStep TempPath StatePath]"

definition replace_steps_windows :: "bool \<Rightarrow> bool \<Rightarrow> fs_step list" where
  "replace_steps_windows destination_is_file backup =
     (if destination_is_file
      then if backup then [RenameStep StatePath BackupPath, RenameStep TempPath StatePath]
           else [RenameStep TempPath StatePath]
      else [RenameStep TempPath StatePath])"

definition replace_steps :: "bool \<Rightarrow> files \<Rightarrow> bool \<Rightarrow> fs_step list" where
  "replace_steps windows fs backup =
     (if windows then replace_steps_windows (fs StatePath \<noteq> None) backup else replace_steps_unix backup)"

definition atomic_replace :: "env \<Rightarrow> bool \<Rightarrow> files \<Rightarrow> unit app_result \<times> files" where
  "atomic_replace e backup fs =
     (let steps = replace_steps (env_windows e) fs backup
      in case env_fault e of
           ReplaceFault k \<Rightarrow> (Inl (Io ''replace failed''), fs_run (take k steps) fs)
         | _ \<Rightarrow> (Inr (), fs_run steps fs))"

definition write_state :: "env \<Rightarrow> persisted_state \<Rightarrow> files \<Rightarrow> unit app_result \<times> files" where
  "write_state e state fs =
     (case validate_persisted_state state of
        Inl err \<Rightarrow> (Inl err, fs)
      | Inr _ \<Rightarrow>
        if env_fault e = CreateDirFault then (Inl (Io ''create_dir_all failed''), fs)
        else (case to_vec_pretty (env_serde e) state of
          Inl m \<Rightarrow> (Inl (Json m), fs)
        | Inr bytes \<Rightarrow>
          let bytes = bytes @ [CHR 0x0A]
          in if length bytes > MAX_STATE_BYTES
          then (Inl (State (''persisted state exceeds the '' @ dec MAX_STATE_BYTES
                  @ ''-byte safety limit'')), fs)
          else (case env_fault e of
            TempFault None \<Rightarrow> (Inl (Io ''temporary file failed''), fs)
          | TempFault (Some part) \<Rightarrow> (Inl (Io ''temporary file failed''), fs(TempPath \<mapsto> part))
          | _ \<Rightarrow>
            let fs = fs(TempPath \<mapsto> bytes);
                preserve_current_as_backup = is_ok (read_valid_state (env_serde e) fs StatePath);
                (result, fs) = atomic_replace e preserve_current_as_backup fs
            in if is_ok result then (result, fs) else (result, fs(TempPath := None)))))"

section \<open>The repository\<close>

record repo =
  rp_state :: persisted_state
  rp_deleting :: "string set"
  rp_files :: files

type_synonym 'a repo_op = "repo \<Rightarrow> 'a app_result \<times> repo"

text \<open>\<^verbatim>\<open>persist_locked(&self.state_path, &state)?; *guard = state; Ok(x)\<close>\<close>

definition commit :: "env \<Rightarrow> persisted_state \<Rightarrow> 'a \<Rightarrow> 'a repo_op" where
  "commit e state x r =
     (case write_state e state (rp_files r) of
        (Inl err, fs) \<Rightarrow> (Inl err, r\<lparr>rp_files := fs\<rparr>)
      | (Inr _, fs) \<Rightarrow> (Inr x, r\<lparr>rp_state := state, rp_files := fs\<rparr>))"

text \<open>A pure computation of the new state, followed by the commit.\<close>

definition commit_result :: "env \<Rightarrow> ('a \<times> persisted_state) app_result \<Rightarrow> 'a repo_op" where
  "commit_result e m r =
     (case m of Inl err \<Rightarrow> (Inl err, r) | Inr (x, state) \<Rightarrow> commit e state x r)"

text \<open>
  \<open>open\<close> from \<^verbatim>\<open>if state_path.exists()\<close> on: load the primary, else recover the backup, else start
  empty.  \<open>e1\<close> is the environment of the first write, \<open>e2\<close> of the write after identity files of
  hosts that do not use them were dropped.
\<close>

definition load_state :: "env \<Rightarrow> files \<Rightarrow> persisted_state app_result \<times> files" where
  "load_state e fs =
     (if fs StatePath \<noteq> None then
        (case read_valid_state (env_serde e) fs StatePath of
           Inr parsed \<Rightarrow> (Inr parsed, fs)
         | Inl primary_error \<Rightarrow>
           (case read_valid_state (env_serde e) fs BackupPath of
              Inl backup_error \<Rightarrow> (Inl (State (''state and backup are both invalid; state: ''
                  @ app_error_display primary_error @ ''; backup: ''
                  @ app_error_display backup_error)), fs)
            | Inr recovered \<Rightarrow>
              (case write_state e recovered fs of
                 (Inl err, fs) \<Rightarrow> (Inl err, fs)
               | (Inr _, fs) \<Rightarrow> (Inr recovered, fs))))
      else
        (case write_state e default_persisted_state fs of
           (Inl err, fs) \<Rightarrow> (Inl err, fs)
         | (Inr _, fs) \<Rightarrow> (Inr default_persisted_state, fs)))"

definition open_repository :: "env \<Rightarrow> env \<Rightarrow> files \<Rightarrow> repo app_result \<times> files" where
  "open_repository e1 e2 fs =
     (case load_state e1 fs of
        (Inl err, fs) \<Rightarrow> (Inl err, fs)
      | (Inr state, fs) \<Rightarrow>
        let (hosts, changed) = clear_inactive_identity_files (ps_hosts state);
            state = state\<lparr>ps_hosts := hosts\<rparr>
        in if changed
           then (case write_state e2 state fs of
                   (Inl err, fs) \<Rightarrow> (Inl err, fs)
                 | (Inr _, fs) \<Rightarrow>
                     (Inr \<lparr>rp_state = state, rp_deleting = {}, rp_files = fs\<rparr>, fs))
           else (Inr \<lparr>rp_state = state, rp_deleting = {}, rp_files = fs\<rparr>, fs))"

subsection \<open>Hosts\<close>

definition get_host :: "string \<Rightarrow> repo \<Rightarrow> host_profile app_result" where
  "get_host host_id r =
     (if host_id \<in> rp_deleting r
      then Inl (State (''host '' @ host_id @ '' is being deleted''))
      else ok_or (host_not_found host_id)
             (find (\<lambda>host. hp_id host = host_id) (ps_hosts (rp_state r))))"

definition jump_deleting :: "repo \<Rightarrow> host_profile option \<Rightarrow> bool" where
  "jump_deleting r jump = (case jump of None \<Rightarrow> False | Some jump \<Rightarrow> hp_id jump \<in> rp_deleting r)"

definition resolve_jump_host :: "host_profile \<Rightarrow> repo \<Rightarrow> host_profile option app_result" where
  "resolve_jump_host host r =
     rbind (resolve_proxy_jump (ps_hosts (rp_state r)) host) (\<lambda>jump.
       if jump_deleting r jump then Inl (State ''ProxyJump host is being deleted'') else Inr jump)"

definition draft_deleting :: "repo \<Rightarrow> string option \<Rightarrow> bool" where
  "draft_deleting r i = (case i of None \<Rightarrow> False | Some host_id \<Rightarrow> host_id \<in> rp_deleting r)"

text \<open>What \<^verbatim>\<open>save_host\<close> and \<^verbatim>\<open>preview_host\<close> share.\<close>

definition prepare_host :: "env \<Rightarrow> host_draft \<Rightarrow> repo \<Rightarrow> (host_profile \<times> persisted_state) app_result" where
  "prepare_host e draft r =
     (if draft_deleting r (hd_id draft)
      then Inl (State ''cannot update a host while it is being deleted'')
      else rbind (apply_host_update (env_now e 0) (env_uuid e 0) draft (rp_state r)) (\<lambda>(profile, state).
        rbind (resolve_proxy_jump (ps_hosts state) profile) (\<lambda>jump.
        if jump_deleting r jump
        then Inl (State ''cannot use a ProxyJump host while it is being deleted'')
        else Inr (profile, state))))"

definition save_host :: "env \<Rightarrow> host_draft \<Rightarrow> host_profile repo_op" where
  "save_host e draft r = commit_result e (prepare_host e draft r) r"

definition preview_host :: "env \<Rightarrow> host_draft \<Rightarrow> repo \<Rightarrow> host_profile app_result" where
  "preview_host e draft r = rbind (prepare_host e draft r) (\<lambda>(profile, _). Inr profile)"

text \<open>
  The loop over imported drafts: the \<open>k\<close>-th application of a draft in one call draws the \<open>k\<close>-th
  timestamp and identifier.
\<close>

definition push_draft ::
    "env \<Rightarrow> host_draft \<Rightarrow> persisted_state \<times> string list \<Rightarrow> (persisted_state \<times> string list) app_result" where
  "push_draft e draft = (\<lambda>(state, ids).
     if hd_id draft \<noteq> None
     then Inl (Validation ''imported hosts must not specify destination ids'')
     else rbind (apply_host_draft (env_now e (length ids)) (env_uuid e (length ids)) draft state)
       (\<lambda>(profile, state). Inr (state, ids @ [hp_id profile])))"

definition settle_hosts :: "string list \<Rightarrow> persisted_state \<Rightarrow> persisted_state app_result" where
  "settle_hosts ids state =
     rbind (rfold normalize_proxy_jump_for ids (ps_hosts state)) (\<lambda>hosts.
     rbind (rfold (\<lambda>host_id _. validate_proxy_jump_role hosts host_id) ids ()) (\<lambda>_.
     Inr (state\<lparr>ps_hosts := hosts\<rparr>)))"

definition collect_hosts :: "string list \<Rightarrow> host_profile list \<Rightarrow> host_profile list app_result" where
  "collect_hosts ids hosts =
     rfold (\<lambda>host_id found. rbind (expect_host host_id hosts) (\<lambda>h. Inr (found @ [h]))) ids []"

definition prepare_import :: "env \<Rightarrow> host_draft list \<Rightarrow> repo \<Rightarrow> (host_profile list \<times> persisted_state) app_result" where
  "prepare_import e drafts r =
     (if rp_deleting r \<noteq> {}
      then Inl (State ''cannot import hosts while a host is being deleted'')
      else rbind (rfold (push_draft e) drafts (rp_state r, [])) (\<lambda>(state, imported_ids).
        rbind (settle_hosts imported_ids state) (\<lambda>state.
        rbind (collect_hosts imported_ids (ps_hosts state)) (\<lambda>imported. Inr (imported, state)))))"

definition import_hosts :: "env \<Rightarrow> host_draft list \<Rightarrow> host_profile list repo_op" where
  "import_hosts e drafts r =
     (if drafts = [] then (Inr [], r) else commit_result e (prepare_import e drafts r) r)"

definition begin_host_deletion :: "string \<Rightarrow> unit repo_op" where
  "begin_host_deletion host_id r =
     (if host_id \<in> rp_deleting r
      then (Inl (State (''host '' @ host_id @ '' is already being deleted'')), r)
      else (case validate_host_deletion_state (rp_state r) host_id of
              Inl err \<Rightarrow> (Inl err, r)
            | Inr _ \<Rightarrow> (Inr (), r\<lparr>rp_deleting := insert host_id (rp_deleting r)\<rparr>)))"

definition remove_host :: "string \<Rightarrow> persisted_state \<Rightarrow> (unit \<times> persisted_state) app_result" where
  "remove_host host_id state =
     rbind (validate_host_deletion_state state host_id) (\<lambda>_.
       let hosts = filter (\<lambda>host. hp_id host \<noteq> host_id) (ps_hosts state)
       in if length (ps_hosts state) = length hosts then Inl (host_not_found host_id)
          else Inr ((), state\<lparr>ps_hosts := hosts,
                 ps_tunnels := filter (\<lambda>tunnel. tp_host_id tunnel \<noteq> host_id) (ps_tunnels state),
                 ps_command_presets := filter (\<lambda>command. cp_host_id command \<noteq> Some host_id)
                   (ps_command_presets state)\<rparr>))"

definition delete_host_locked :: "env \<Rightarrow> string \<Rightarrow> unit repo_op" where
  "delete_host_locked e host_id r = commit_result e (remove_host host_id (rp_state r)) r"

definition finish_host_deletion :: "env \<Rightarrow> string \<Rightarrow> unit repo_op" where
  "finish_host_deletion e host_id r =
     (if host_id \<notin> rp_deleting r
      then (Inl (State (''host '' @ host_id @ '' deletion was not prepared'')), r)
      else let (result, r) = delete_host_locked e host_id r
           in (result, r\<lparr>rp_deleting := rp_deleting r - {host_id}\<rparr>))"

definition abort_host_deletion :: "string \<Rightarrow> repo \<Rightarrow> repo" where
  "abort_host_deletion host_id r = r\<lparr>rp_deleting := rp_deleting r - {host_id}\<rparr>"

definition ensure_host_deletable :: "string \<Rightarrow> repo \<Rightarrow> unit app_result" where
  "ensure_host_deletable host_id r =
     (if host_id \<in> rp_deleting r
      then Inl (State (''host '' @ host_id @ '' is already being deleted''))
      else validate_host_deletion_state (rp_state r) host_id)"

subsection \<open>Tunnels, commands, settings\<close>

definition get_tunnel :: "string \<Rightarrow> repo \<Rightarrow> tunnel_profile app_result" where
  "get_tunnel tunnel_id r =
     ok_or (NotFound (''tunnel '' @ tunnel_id))
       (find (\<lambda>tunnel. tp_id tunnel = tunnel_id) (ps_tunnels (rp_state r)))"

definition save_tunnel :: "env \<Rightarrow> tunnel_draft \<Rightarrow> tunnel_profile repo_op" where
  "save_tunnel e draft r =
     (if td_host_id draft \<in> rp_deleting r
      then (Inl (State ''cannot save a tunnel for a host being deleted''), r)
      else commit_result e (apply_tunnel_draft (env_now e 0) (env_uuid e 0) draft (rp_state r)) r)"

definition delete_tunnel :: "env \<Rightarrow> string \<Rightarrow> unit repo_op" where
  "delete_tunnel e tunnel_id r =
     (let state = rp_state r;
          tunnels = filter (\<lambda>tunnel. tp_id tunnel \<noteq> tunnel_id) (ps_tunnels state)
      in if length (ps_tunnels state) = length tunnels
         then (Inl (NotFound (''tunnel '' @ tunnel_id)), r)
         else commit e (state\<lparr>ps_tunnels := tunnels\<rparr>) () r)"

text \<open>\<^verbatim>\<open>sort_by\<close> is stable and compares the order first, then the name's bytes.\<close>

definition list_commands :: "string option \<Rightarrow> repo \<Rightarrow> command_preset list" where
  "list_commands host_id r =
     sort_key (\<lambda>command. (cp_sort_order command, cp_name command))
       (filter (\<lambda>command. cp_host_id command = None \<or> cp_host_id command = host_id)
         (ps_command_presets (rp_state r)))"

definition get_command :: "string \<Rightarrow> repo \<Rightarrow> command_preset app_result" where
  "get_command command_id r =
     ok_or (NotFound (''command preset '' @ command_id))
       (find (\<lambda>command. cp_id command = command_id) (ps_command_presets (rp_state r)))"

definition save_command :: "env \<Rightarrow> command_preset_draft \<Rightarrow> command_preset repo_op" where
  "save_command e draft r =
     (if draft_deleting r (cpd_host_id draft)
      then (Inl (State ''cannot save a command for a host being deleted''), r)
      else commit_result e (apply_command_draft (env_now e 0) (env_uuid e 0) draft (rp_state r)) r)"

definition remove_command :: "string \<Rightarrow> string \<Rightarrow> persisted_state \<Rightarrow> (unit \<times> persisted_state) app_result" where
  "remove_command command_id host_id state =
     (if \<not> host_exists state host_id then Inl (host_not_found host_id)
      else rbind (ok_or (NotFound (''command preset '' @ command_id))
                    (find (\<lambda>command. cp_id command = command_id) (ps_command_presets state))) (\<lambda>command.
        if (case cp_host_id command of None \<Rightarrow> False | Some owner \<Rightarrow> owner \<noteq> host_id)
        then Inl (State ''command preset belongs to a different selected host'')
        else Inr ((), state\<lparr>ps_command_presets :=
               filter (\<lambda>command. cp_id command \<noteq> command_id) (ps_command_presets state)\<rparr>)))"

definition delete_command_for_host :: "env \<Rightarrow> string \<Rightarrow> string \<Rightarrow> unit repo_op" where
  "delete_command_for_host e command_id host_id r =
     (if host_id \<in> rp_deleting r
      then (Inl (State ''cannot change commands while their host is being deleted''), r)
      else commit_result e (remove_command command_id host_id (rp_state r)) r)"

definition update_settings :: "env \<Rightarrow> settings_patch \<Rightarrow> app_settings repo_op" where
  "update_settings e patch r =
     commit_result e (rbind (apply_settings_patch (ps_settings (rp_state r)) patch) (\<lambda>settings.
       Inr (settings, (rp_state r)\<lparr>ps_settings := settings\<rparr>))) r"

end
