(* ===== verification/StoreImport.thy ===== *)
theory StoreImport
  imports StoreRepo
begin

text \<open>
  \<^verbatim>\<open>AppRepository::import_batch\<close> of \<^verbatim>\<open>store.rs\<close>: one transaction that imports hosts, tunnels,
  commands and settings of a migration source, at most once per source hash.

  The map from source identifiers to new identifiers is an association list in insertion order;
  \<^verbatim>\<open>HashMap::values\<close> enumerates it in an order of its own, \<open>env_order\<close>.
\<close>

datatype import_host_reference = Imported string | Existing string

record import_batch_host =
  ibh_source_id :: string
  ibh_draft :: host_draft

record import_batch_tunnel =
  ibt_host :: import_host_reference
  ibt_draft :: tunnel_draft

record import_batch_command =
  ibc_host :: "import_host_reference option"
  ibc_draft :: command_preset_draft

record import_batch =
  ib_source_hash :: string
  ib_hosts :: "import_batch_host list"
  ib_tunnels :: "import_batch_tunnel list"
  ib_commands :: "import_batch_command list"
  ib_settings :: "settings_patch option"

record import_batch_result =
  ibr_duplicate :: bool
  ibr_imported_hosts :: nat
  ibr_imported_tunnels :: nat
  ibr_imported_commands :: nat
  ibr_settings_imported :: bool

type_synonym id_map = "(string \<times> string) list"

definition resolve_import_host ::
    "import_host_reference \<Rightarrow> id_map \<Rightarrow> string set \<Rightarrow> string app_result" where
  "resolve_import_host reference imported_host_ids existing_host_ids =
     (case reference of
        Imported source_id \<Rightarrow>
          ok_or (Validation (''import references missing source host '' @ source_id))
            (map_of imported_host_ids source_id)
      | Existing host_id \<Rightarrow>
          if host_id \<in> existing_host_ids then Inr host_id
          else Inl (Validation (''import references missing destination host '' @ host_id)))"

definition import_host ::
    "env \<Rightarrow> import_batch_host \<Rightarrow> persisted_state \<times> id_map \<Rightarrow> (persisted_state \<times> id_map) app_result" where
  "import_host e planned = (\<lambda>(state, ids).
     rbind (validate_import_source_id (ibh_source_id planned)) (\<lambda>_.
     if map_of ids (ibh_source_id planned) \<noteq> None
     then Inl (Validation (''import source host id '' @ quoted (ibh_source_id planned) @ '' is duplicated''))
     else if hd_id (ibh_draft planned) \<noteq> None
     then Inl (Validation ''imported hosts must not specify destination ids'')
     else rbind (apply_host_draft (env_now e (length ids)) (env_uuid e (length ids))
                   (ibh_draft planned) state)
       (\<lambda>(profile, state). Inr (state, ids @ [(ibh_source_id planned, hp_id profile)]))))"

text \<open>\<open>k\<close> counts the drafts applied before this one in the call.\<close>

definition import_tunnel ::
    "env \<Rightarrow> id_map \<Rightarrow> string set \<Rightarrow> import_batch_tunnel \<Rightarrow> persisted_state \<times> nat \<Rightarrow> (persisted_state \<times> nat) app_result" where
  "import_tunnel e ids existing planned = (\<lambda>(state, k).
     if td_id (ibt_draft planned) \<noteq> None
     then Inl (Validation ''imported tunnels must not specify destination ids'')
     else rbind (resolve_import_host (ibt_host planned) ids existing) (\<lambda>host_id.
       rbind (apply_tunnel_draft (env_now e k) (env_uuid e k)
                ((ibt_draft planned)\<lparr>td_host_id := host_id\<rparr>) state) (\<lambda>(_, state).
       Inr (state, Suc k))))"

definition import_command ::
    "env \<Rightarrow> id_map \<Rightarrow> string set \<Rightarrow> import_batch_command \<Rightarrow> persisted_state \<times> nat \<Rightarrow> (persisted_state \<times> nat) app_result" where
  "import_command e ids existing planned = (\<lambda>(state, k).
     if cpd_id (ibc_draft planned) \<noteq> None
     then Inl (Validation ''imported command presets must not specify destination ids'')
     else rbind (case ibc_host planned of
                   None \<Rightarrow> Inr None
                 | Some host \<Rightarrow> rbind (resolve_import_host host ids existing) (\<lambda>i. Inr (Some i)))
       (\<lambda>host_id. rbind (apply_command_draft (env_now e k) (env_uuid e k)
                ((ibc_draft planned)\<lparr>cpd_host_id := host_id\<rparr>) state) (\<lambda>(_, state).
       Inr (state, Suc k))))"

definition already_imported :: "string \<Rightarrow> persisted_state \<Rightarrow> bool" where
  "already_imported source_hash state \<longleftrightarrow>
     list_ex (\<lambda>hash. eq_ignore_ascii_case hash source_hash) (ps_imported_source_hashes state)"

definition has_import :: "string \<Rightarrow> repo \<Rightarrow> bool" where
  "has_import source_hash r = already_imported source_hash (rp_state r)"

definition duplicate_result :: import_batch_result where
  "duplicate_result = \<lparr>ibr_duplicate = True, ibr_imported_hosts = 0, ibr_imported_tunnels = 0,
     ibr_imported_commands = 0, ibr_settings_imported = False\<rparr>"

definition import_settings :: "settings_patch option \<Rightarrow> persisted_state \<Rightarrow> persisted_state app_result" where
  "import_settings patch state =
     (case patch of
        None \<Rightarrow> Inr state
      | Some patch \<Rightarrow> rbind (apply_settings_patch (ps_settings state) patch) (\<lambda>settings.
          Inr (state\<lparr>ps_settings := settings\<rparr>)))"

text \<open>The changed state of a batch that is not a duplicate.\<close>

definition prepare_batch :: "env \<Rightarrow> import_batch \<Rightarrow> persisted_state \<Rightarrow> (import_batch_result \<times> persisted_state) app_result" where
  "prepare_batch e batch state =
     (let existing = hp_id ` set (ps_hosts state)
      in rbind (rfold (import_host e) (ib_hosts batch) (state, [])) (\<lambda>(state, ids).
         rbind (settle_hosts (env_order e (map snd ids)) state) (\<lambda>state.
         rbind (rfold (import_tunnel e ids existing) (ib_tunnels batch) (state, length ids)) (\<lambda>(state, k).
         rbind (rfold (import_command e ids existing) (ib_commands batch) (state, k)) (\<lambda>(state, _).
         rbind (import_settings (ib_settings batch) state) (\<lambda>state.
         Inr (\<lparr>ibr_duplicate = False, ibr_imported_hosts = length (ib_hosts batch),
               ibr_imported_tunnels = length (ib_tunnels batch),
               ibr_imported_commands = length (ib_commands batch),
               ibr_settings_imported = (ib_settings batch \<noteq> None)\<rparr>,
              state\<lparr>ps_imported_source_hashes := ps_imported_source_hashes state
                @ [to_ascii_lowercase (ib_source_hash batch)]\<rparr>)))))))"

definition import_batch_op :: "env \<Rightarrow> import_batch \<Rightarrow> import_batch_result repo_op" where
  "import_batch_op e batch r =
     (case validate_import_hash (ib_source_hash batch) of
        Inl err \<Rightarrow> (Inl err, r)
      | Inr _ \<Rightarrow>
        if rp_deleting r \<noteq> {}
        then (Inl (State ''cannot import while a host is being deleted''), r)
        else if already_imported (to_ascii_lowercase (ib_source_hash batch)) (rp_state r)
        then (Inr duplicate_result, r)
        else if ib_hosts batch = [] \<and> ib_tunnels batch = [] \<and> ib_commands batch = []
                \<and> ib_settings batch = None
        then (Inl (Validation ''import batch contains no selected records''), r)
        else commit_result e (prepare_batch e batch (rp_state r)) r)"

section \<open>Histories\<close>

text \<open>The operations that can change the repository, as one step function.\<close>

datatype store_op =
    SaveHost host_draft
  | ImportHosts "host_draft list"
  | BeginHostDeletion string
  | FinishHostDeletion string
  | AbortHostDeletion string
  | SaveTunnel tunnel_draft
  | DeleteTunnel string
  | SaveCommand command_preset_draft
  | DeleteCommandForHost string string
  | ImportBatch import_batch
  | UpdateSettings settings_patch

fun run_op :: "env \<Rightarrow> store_op \<Rightarrow> repo \<Rightarrow> bool \<times> repo" where
  "run_op e (SaveHost d) r = map_prod is_ok id (save_host e d r)"
| "run_op e (ImportHosts ds) r = map_prod is_ok id (import_hosts e ds r)"
| "run_op e (BeginHostDeletion i) r = map_prod is_ok id (begin_host_deletion i r)"
| "run_op e (FinishHostDeletion i) r = map_prod is_ok id (finish_host_deletion e i r)"
| "run_op e (AbortHostDeletion i) r = (True, abort_host_deletion i r)"
| "run_op e (SaveTunnel d) r = map_prod is_ok id (save_tunnel e d r)"
| "run_op e (DeleteTunnel i) r = map_prod is_ok id (delete_tunnel e i r)"
| "run_op e (SaveCommand d) r = map_prod is_ok id (save_command e d r)"
| "run_op e (DeleteCommandForHost c h) r = map_prod is_ok id (delete_command_for_host e c h r)"
| "run_op e (ImportBatch b) r = map_prod is_ok id (import_batch_op e b r)"
| "run_op e (UpdateSettings p) r = map_prod is_ok id (update_settings e p r)"

text \<open>
  What one operation does, whichever it is: it leaves the state and the files alone, or commits
  one changed state.  \<open>plan e op r\<close> is that state.
\<close>

fun plan :: "env \<Rightarrow> store_op \<Rightarrow> repo \<Rightarrow> persisted_state option" where
  "plan e (SaveHost d) r = (case prepare_host e d r of Inl _ \<Rightarrow> None | Inr (_, s) \<Rightarrow> Some s)"
| "plan e (ImportHosts ds) r =
     (if ds = [] then None else case prepare_import e ds r of Inl _ \<Rightarrow> None | Inr (_, s) \<Rightarrow> Some s)"
| "plan e (FinishHostDeletion i) r =
     (if i \<notin> rp_deleting r then None
      else case remove_host i (rp_state r) of Inl _ \<Rightarrow> None | Inr (_, s) \<Rightarrow> Some s)"
| "plan e (SaveTunnel d) r =
     (if td_host_id d \<in> rp_deleting r then None
      else case apply_tunnel_draft (env_now e 0) (env_uuid e 0) d (rp_state r) of
        Inl _ \<Rightarrow> None | Inr (_, s) \<Rightarrow> Some s)"
| "plan e (DeleteTunnel i) r =
     (let ts = filter (\<lambda>tunnel. tp_id tunnel \<noteq> i) (ps_tunnels (rp_state r))
      in if length (ps_tunnels (rp_state r)) = length ts then None
         else Some ((rp_state r)\<lparr>ps_tunnels := ts\<rparr>))"
| "plan e (SaveCommand d) r =
     (if draft_deleting r (cpd_host_id d) then None
      else case apply_command_draft (env_now e 0) (env_uuid e 0) d (rp_state r) of
        Inl _ \<Rightarrow> None | Inr (_, s) \<Rightarrow> Some s)"
| "plan e (DeleteCommandForHost c h) r =
     (if h \<in> rp_deleting r then None
      else case remove_command c h (rp_state r) of Inl _ \<Rightarrow> None | Inr (_, s) \<Rightarrow> Some s)"
| "plan e (ImportBatch b) r =
     (if is_ok (validate_import_hash (ib_source_hash b)) \<and> rp_deleting r = {}
         \<and> \<not> already_imported (to_ascii_lowercase (ib_source_hash b)) (rp_state r)
         \<and> \<not> (ib_hosts b = [] \<and> ib_tunnels b = [] \<and> ib_commands b = [] \<and> ib_settings b = None)
      then (case prepare_batch e b (rp_state r) of Inl _ \<Rightarrow> None | Inr (_, s) \<Rightarrow> Some s)
      else None)"
| "plan e (UpdateSettings p) r =
     (case apply_settings_patch (ps_settings (rp_state r)) p of
        Inl _ \<Rightarrow> None | Inr settings \<Rightarrow> Some ((rp_state r)\<lparr>ps_settings := settings\<rparr>))"
| "plan e _ r = None"

lemma commit_cases:
  obtains (ok) fs where "write_state e s (rp_files r) = (Inr (), fs)"
      "commit e s x r = (Inr x, r\<lparr>rp_state := s, rp_files := fs\<rparr>)"
  | (err) er fs where "write_state e s (rp_files r) = (Inl er, fs)"
      "commit e s x r = (Inl er, r\<lparr>rp_files := fs\<rparr>)"
  by (cases "write_state e s (rp_files r)"; cases "fst (write_state e s (rp_files r))")
    (auto simp: commit_def)

definition follows_plan :: "env \<Rightarrow> persisted_state option \<Rightarrow> bool \<Rightarrow> repo \<Rightarrow> repo \<Rightarrow> bool" where
  "follows_plan e p okay r r' \<longleftrightarrow>
     (case p of
        None \<Rightarrow> rp_state r' = rp_state r \<and> rp_files r' = rp_files r
      | Some s \<Rightarrow>
          (case write_state e s (rp_files r) of
             (Inr _, fs) \<Rightarrow> okay \<and> rp_state r' = s \<and> rp_files r' = fs
           | (Inl _, fs) \<Rightarrow> \<not> okay \<and> rp_state r' = rp_state r \<and> rp_files r' = fs))"

lemma follows_commit:
  "commit e s x r = (res, r') \<Longrightarrow> follows_plan e (Some s) (is_ok res) r r'"
  by (cases rule: commit_cases[of e s r x]) (auto simp: follows_plan_def)

lemma follows_commit_result:
  "commit_result e m r = (res, r') \<Longrightarrow>
     follows_plan e (case m of Inl _ \<Rightarrow> None | Inr (_, s) \<Rightarrow> Some s) (is_ok res) r r'"
  by (auto simp: commit_result_def follows_commit follows_plan_def[of e None] split: sum.splits prod.splits)

lemma follows_deleting:
  "follows_plan e p okay r r' \<Longrightarrow> follows_plan e p okay r (r'\<lparr>rp_deleting := D\<rparr>)"
  by (auto simp: follows_plan_def split: option.splits prod.splits sum.splits)

lemma follows_None: "rp_state r' = rp_state r \<Longrightarrow> rp_files r' = rp_files r \<Longrightarrow> follows_plan e None b r r'"
  by (simp add: follows_plan_def)

lemma run_op_follows_plan:
  assumes "run_op e op r = (okay, r')"
  shows "follows_plan e (plan e op r) okay r r'"
proof (cases op)
  case (FinishHostDeletion i)
  show ?thesis
  proof (cases "i \<in> rp_deleting r")
    case True
    obtain res r1 where run: "delete_host_locked e i r = (res, r1)" by fastforce
    then have "follows_plan e (plan e op r) (is_ok res) r r1"
      using True FinishHostDeletion
      by (simp add: delete_host_locked_def follows_commit_result)
    from follows_deleting[OF this] run True FinishHostDeletion assms show ?thesis
      by (auto simp: finish_host_deletion_def)
  next
    case False
    with assms FinishHostDeletion show ?thesis
      by (auto simp: finish_host_deletion_def intro: follows_None)
  qed
qed (use assms in \<open>auto simp: save_host_def import_hosts_def begin_host_deletion_def
      abort_host_deletion_def save_tunnel_def delete_tunnel_def save_command_def
      delete_command_for_host_def import_batch_op_def update_settings_def Let_def map_prod_def
      intro: follows_None follows_commit
      dest!: follows_commit_result split: prod.splits if_splits sum.splits\<close>)

end
