(* ===== verification/StoreTxn.thy ===== *)
theory StoreTxn
  imports StoreImport
begin

text \<open>
  The repository of \<^verbatim>\<open>store.rs\<close> as a transaction: what is on disk, what is in memory and what a
  restart reads back, after writes that succeed, fail or are interrupted, over any history of
  operations.
\<close>

section \<open>One write\<close>

text \<open>\<^verbatim>\<open>serde_json\<close> reads back what it wrote; a trailing newline is white space.\<close>

definition codec_ok :: "serde \<Rightarrow> bool" where
  "codec_ok sd \<longleftrightarrow> (\<forall>s bytes. to_vec_pretty sd s = Inr bytes \<longrightarrow> from_slice sd (bytes @ [CHR 0x0A]) = Inr s)"

definition on_disk :: "serde \<Rightarrow> files \<Rightarrow> persisted_state option" where
  "on_disk sd fs = (case read_valid_state sd fs StatePath of Inl _ \<Rightarrow> None | Inr s \<Rightarrow> Some s)"

lemma on_disk_Some: "on_disk sd fs = Some s \<longleftrightarrow> read_valid_state sd fs StatePath = Inr s"
  by (simp add: on_disk_def split: sum.split)

lemma read_valid_cong: "fs p = fs' q \<Longrightarrow> read_valid_state sd fs p = read_valid_state sd fs' q"
  by (simp add: read_valid_state_def)

lemma on_disk_cong: "fs StatePath = fs' StatePath \<Longrightarrow> on_disk sd fs = on_disk sd fs'"
  by (simp add: on_disk_def read_valid_state_def)

lemma read_valid_state_valid: "read_valid_state sd fs p = Inr s \<Longrightarrow> validate_persisted_state s = Inr ()"
  by (cases "fs p"; cases "from_slice sd (the (fs p))")
    (auto simp: read_valid_state_def ok_or_def result_simps split: if_splits)

lemma read_written:
  assumes "codec_ok sd" and "to_vec_pretty sd s = Inr bytes" and "validate_persisted_state s = Inr ()"
    and "length (bytes @ [CHR 0x0A]) \<le> MAX_STATE_BYTES" and "fs p = Some (bytes @ [CHR 0x0A])"
  shows "read_valid_state sd fs p = Inr s"
proof -
  have "from_slice sd (bytes @ [CHR 0x0A]) = Inr s" using assms(1,2) by (simp add: codec_ok_def)
  with assms(3-5) show ?thesis by (simp add: read_valid_state_def ok_or_def result_simps)
qed

text \<open>The steps of a replacement, cut off after \<open>k\<close> of them, from files that hold the new bytes.\<close>

lemma take_cases3: "take k [a, b, c] = [] \<or> take k [a, b, c] = [a] \<or> take k [a, b, c] = [a, b] \<or> take k [a, b, c] = [a, b, c]"
  by (cases k; cases "k - 1"; cases "k - 2") (auto simp: numeral_2_eq_2)

lemma replace_unix_cut:
  assumes "fs TempPath = Some c" and "backup \<longrightarrow> fs StatePath \<noteq> None"
    and "fs' = fs_run (take k (replace_steps_unix backup)) fs"
  shows "(fs' StatePath = fs StatePath \<or> fs' StatePath = Some c)
    \<and> (fs' BackupPath = fs BackupPath \<or> (backup \<and> fs' BackupPath = fs StatePath))"
proof (cases backup)
  case True
  then obtain old where "fs StatePath = Some old" using assms(2) by auto
  with True assms(1,3) show ?thesis
    using take_cases3[of k "CopyStep StatePath BackupTempPath" "RenameStep BackupTempPath BackupPath"
        "RenameStep TempPath StatePath"]
    by (auto simp: replace_steps_unix_def fs_run_def)
next
  case False
  with assms(1,3) show ?thesis by (cases k) (auto simp: replace_steps_unix_def fs_run_def)
qed

lemma replace_complete:
  assumes "fs TempPath = Some c" and "backup \<longrightarrow> fs StatePath \<noteq> None"
  shows "fs_run (replace_steps w fs backup) fs StatePath = Some c
    \<and> fs_run (replace_steps w fs backup) fs BackupPath = (if backup then fs StatePath else fs BackupPath)"
  using assms by (auto simp: replace_steps_def replace_steps_unix_def replace_steps_windows_def fs_run_def)

text \<open>The outcomes of a write: refused before any file, or a replacement that ran or was cut off.\<close>

lemma write_stateE:
  assumes "write_state e s fs = (res, fs')"
  obtains (refused) er where "res = Inl er" "fs' StatePath = fs StatePath" "fs' BackupPath = fs BackupPath"
  | (replaced) bytes fs1 backup where "validate_persisted_state s = Inr ()"
      "to_vec_pretty (env_serde e) s = Inr bytes"
      "length (bytes @ [CHR 0x0A]) \<le> MAX_STATE_BYTES" "fs1 = fs(TempPath \<mapsto> bytes @ [CHR 0x0A])"
      "backup = is_ok (read_valid_state (env_serde e) fs StatePath)"
      "(res = Inr () \<and> fs' = fs_run (replace_steps (env_windows e) fs1 backup) fs1)
       \<or> (\<exists>er k. env_fault e = ReplaceFault k \<and> res = Inl er
            \<and> fs' = (fs_run (take k (replace_steps (env_windows e) fs1 backup)) fs1)(TempPath := None))"
proof -
  have same: "read_valid_state sd (fs(TempPath \<mapsto> b)) StatePath = read_valid_state sd fs StatePath" for sd b
    by (rule read_valid_cong) simp
  show thesis
  proof (cases "validate_persisted_state s")
    case (Inl er)
    with assms have "res = Inl er" "fs' = fs" by (simp_all add: write_state_def)
    then show ?thesis using refused by simp
  next
    case valid: (Inr u)
    show ?thesis
    proof (cases "to_vec_pretty (env_serde e) s")
      case (Inl m)
      with assms valid refused show ?thesis by (auto simp: write_state_def split: if_splits)
    next
      case (Inr bytes)
      show ?thesis
      proof (cases "env_fault e = CreateDirFault \<or> length (bytes @ [CHR 0x0A]) > MAX_STATE_BYTES
          \<or> (\<exists>t. env_fault e = TempFault t)")
        case True
        then show ?thesis
          using assms valid Inr refused
          by (auto simp: write_state_def Let_def split: if_splits option.splits)
      next
        case False
        then have "env_fault e = NoFault \<or> (\<exists>k. env_fault e = ReplaceFault k)"
          by (cases "env_fault e") auto
        then show ?thesis
          using assms valid Inr False
            replaced[of bytes "fs(TempPath \<mapsto> bytes @ [CHR 0x0A])" "is_ok (read_valid_state (env_serde e) fs StatePath)"]
          by (auto simp: write_state_def Let_def atomic_replace_def same split: if_splits)
      qed
    qed
  qed
qed

lemma readable_present: "is_ok (read_valid_state sd fs p) \<Longrightarrow> fs p \<noteq> None"
  by (cases "fs p") (auto simp: read_valid_state_def ok_or_def result_simps)

lemma write_state_ok:
  assumes "write_state e s fs = (Inr (), fs')" and "codec_ok (env_serde e)"
  shows "validate_persisted_state s = Inr () \<and> on_disk (env_serde e) fs' = Some s
    \<and> fs' BackupPath = (if on_disk (env_serde e) fs = None then fs BackupPath else fs StatePath)"
  using assms(1)
proof (cases rule: write_stateE)
  case (replaced bytes fs1 backup)
  have present: "backup \<longrightarrow> fs1 StatePath \<noteq> None"
    using replaced(4,5) readable_present[of "env_serde e" fs StatePath] by auto
  have fs': "fs' StatePath = Some (bytes @ [CHR 0x0A])"
    "fs' BackupPath = (if backup then fs StatePath else fs BackupPath)"
    using replace_complete[of fs1 "bytes @ [CHR 0x0A]" backup "env_windows e"] present replaced(4,6) by auto
  then have "on_disk (env_serde e) fs' = Some s"
    unfolding on_disk_Some using read_written[OF assms(2) replaced(2,1,3)] by blast
  moreover have "backup \<longleftrightarrow> on_disk (env_serde e) fs \<noteq> None"
    using replaced(5) by (auto simp: on_disk_def is_ok_def split: sum.splits)
  ultimately show ?thesis using fs' replaced(1) by simp
qed simp

lemma write_state_unix:
  assumes "write_state e s fs = (res, fs')" and "codec_ok (env_serde e)" and "\<not> env_windows e"
  shows "(fs' StatePath = fs StatePath \<or> on_disk (env_serde e) fs' = Some s)
    \<and> (fs' BackupPath = fs BackupPath
       \<or> (on_disk (env_serde e) fs \<noteq> None \<and> fs' BackupPath = fs StatePath))"
  using assms(1)
proof (cases rule: write_stateE)
  case (replaced bytes fs1 backup)
  have present: "backup \<longrightarrow> fs1 StatePath \<noteq> None"
    using replaced(4,5) readable_present[of "env_serde e" fs StatePath] by auto
  have temp: "fs1 TempPath = Some (bytes @ [CHR 0x0A])" using replaced(4) by simp
  have steps: "replace_steps (env_windows e) fs1 backup = replace_steps_unix backup"
    using assms(3) by (simp add: replace_steps_def)
  obtain k where k: "\<And>p. p \<noteq> TempPath \<Longrightarrow> fs' p = fs_run (take k (replace_steps_unix backup)) fs1 p"
    using replaced(6) unfolding steps
    by (elim disjE exE conjE) (metis take_all order_refl, simp)
  have cut: "(fs' StatePath = fs StatePath \<or> fs' StatePath = Some (bytes @ [CHR 0x0A]))
    \<and> (fs' BackupPath = fs BackupPath \<or> (backup \<and> fs' BackupPath = fs StatePath))"
    using replace_unix_cut[of fs1 "bytes @ [CHR 0x0A]" backup _ k] temp present replaced(4) by (simp add: k)
  moreover have "backup \<longleftrightarrow> on_disk (env_serde e) fs \<noteq> None"
    using replaced(5) by (auto simp: on_disk_def is_ok_def split: sum.splits)
  moreover have "fs' StatePath = Some (bytes @ [CHR 0x0A]) \<Longrightarrow> on_disk (env_serde e) fs' = Some s"
    unfolding on_disk_Some using read_written[OF assms(2) replaced(2,1,3)] by blast
  ultimately show ?thesis by blast
qed simp

text \<open>On every platform and for every fault the backup is left alone or takes the readable primary.\<close>

lemma replace_windows_cut:
  assumes "fs TempPath = Some c" and "backup \<longrightarrow> fs StatePath \<noteq> None"
    and "fs' = fs_run (take k (replace_steps_windows (fs StatePath \<noteq> None) backup)) fs"
  shows "fs' StatePath = fs StatePath \<and> fs' BackupPath = fs BackupPath
    \<or> fs' StatePath = Some c \<and> fs' BackupPath = (if backup then fs StatePath else fs BackupPath)
    \<or> backup \<and> fs' StatePath = None \<and> fs' BackupPath = fs StatePath"
  using assms
  by (cases k; cases "k - 1") (auto simp: replace_steps_windows_def fs_run_def split: if_splits)

lemma write_state_windows:
  assumes "write_state e s fs = (res, fs')" and "codec_ok (env_serde e)" and "env_windows e"
  shows "(fs' StatePath = fs StatePath \<and> fs' BackupPath = fs BackupPath)
    \<or> (on_disk (env_serde e) fs' = Some s
       \<and> fs' BackupPath = (if on_disk (env_serde e) fs = None then fs BackupPath else fs StatePath))
    \<or> (on_disk (env_serde e) fs \<noteq> None \<and> fs' StatePath = None \<and> fs' BackupPath = fs StatePath)"
  using assms(1)
proof (cases rule: write_stateE)
  case (replaced bytes fs1 backup)
  have present: "backup \<longrightarrow> fs1 StatePath \<noteq> None"
    using replaced(4,5) readable_present[of "env_serde e" fs StatePath] by auto
  have temp: "fs1 TempPath = Some (bytes @ [CHR 0x0A])" using replaced(4) by simp
  have steps: "replace_steps (env_windows e) fs1 backup = replace_steps_windows (fs1 StatePath \<noteq> None) backup"
    using assms(3) by (simp add: replace_steps_def)
  obtain k where k: "\<And>p. p \<noteq> TempPath \<Longrightarrow>
      fs' p = fs_run (take k (replace_steps_windows (fs1 StatePath \<noteq> None) backup)) fs1 p"
    using replaced(6) unfolding steps
    by (elim disjE exE conjE) (metis take_all order_refl, simp)
  have backup: "backup \<longleftrightarrow> on_disk (env_serde e) fs \<noteq> None"
    using replaced(5) by (auto simp: on_disk_def is_ok_def split: sum.splits)
  have new: "fs' StatePath = Some (bytes @ [CHR 0x0A]) \<Longrightarrow> on_disk (env_serde e) fs' = Some s"
    unfolding on_disk_Some using read_written[OF assms(2) replaced(2,1,3)] by blast
  show ?thesis
    using replace_windows_cut[of fs1 "bytes @ [CHR 0x0A]" backup _ k] temp present replaced(4) new
    by (auto simp: k backup)
qed simp

text \<open>
  Where a readable primary was, one of the two files still holds the old or the new state after
  any write, whatever the platform and wherever the write was cut off.
\<close>

definition recoverable :: "serde \<Rightarrow> files \<Rightarrow> persisted_state set \<Rightarrow> bool" where
  "recoverable sd fs S \<longleftrightarrow>
     (case on_disk sd fs of
        Some s \<Rightarrow> s \<in> S
      | None \<Rightarrow> (\<exists>s \<in> S. read_valid_state sd fs BackupPath = Inr s))"

lemma write_recoverable:
  assumes "write_state e s fs = (res, fs')" and "codec_ok (env_serde e)"
    and "on_disk (env_serde e) fs = Some old"
  shows "recoverable (env_serde e) fs' {old, s}"
proof (cases "env_windows e")
  case True
  have gone: "on_disk sd fs' = None" if "fs' StatePath = None" for sd
    using that by (simp add: on_disk_def read_valid_state_def ok_or_def result_simps)
  have old: "read_valid_state (env_serde e) fs' BackupPath = Inr old" if "fs' BackupPath = fs StatePath"
    using assms(3) read_valid_cong[of fs' BackupPath fs StatePath] that by (simp add: on_disk_Some)
  from write_state_windows[OF assms(1,2) True] show ?thesis
    using assms(3) gone old on_disk_cong[of fs' fs "env_serde e"] by (auto simp: recoverable_def)
next
  case False
  then show ?thesis
    using write_state_unix[OF assms(1,2)] assms(3) on_disk_cong[of fs' fs "env_serde e"]
    by (auto simp: recoverable_def)
qed

lemma write_keeps_backup:
  assumes "write_state e s fs = (res, fs')" and "codec_ok (env_serde e)"
    and "on_disk (env_serde e) fs = None"
  shows "fs' BackupPath = fs BackupPath"
  using write_state_unix[OF assms(1,2)] write_state_windows[OF assms(1,2)] assms(3)
  by (cases "env_windows e") auto

section \<open>One operation\<close>

text \<open>What an operation reports, keeps in memory and leaves on disk.\<close>

lemma run_op_cases:
  assumes "run_op e op r = (okay, r')" and "codec_ok (env_serde e)"
  obtains (idle) "plan e op r = None" "rp_state r' = rp_state r" "rp_files r' = rp_files r"
  | (wrote) s where "plan e op r = Some s" "okay" "rp_state r' = s" "validate_persisted_state s = Inr ()"
      "on_disk (env_serde e) (rp_files r') = Some s"
  | (failed) s er where "plan e op r = Some s" "\<not> okay" "rp_state r' = rp_state r"
      "write_state e s (rp_files r) = (Inl er, rp_files r')"
proof (cases "plan e op r")
  case None
  with run_op_follows_plan[OF assms(1)] idle show ?thesis by (simp add: follows_plan_def)
next
  case (Some s)
  obtain res fs where w: "write_state e s (rp_files r) = (res, fs)" by fastforce
  show ?thesis
  proof (cases res)
    case (Inl er)
    with run_op_follows_plan[OF assms(1)] Some w failed show ?thesis by (simp add: follows_plan_def)
  next
    case (Inr u)
    then have "write_state e s (rp_files r) = (Inr (), fs)" using w by simp
    from write_state_ok[OF this assms(2)] run_op_follows_plan[OF assms(1)] Some w Inr wrote
    show ?thesis by (simp add: follows_plan_def)
  qed
qed

lemma run_op_error_memory:
  assumes "run_op e op r = (False, r')"
  shows "rp_state r' = rp_state r"
  using run_op_follows_plan[OF assms]
  by (auto simp: follows_plan_def split: option.splits prod.splits sum.splits)

definition synced :: "serde \<Rightarrow> repo \<Rightarrow> bool" where
  "synced sd r \<longleftrightarrow> validate_persisted_state (rp_state r) = Inr ()
     \<and> on_disk sd (rp_files r) = Some (rp_state r)"

text \<open>
  The operating system's error, if there is one, comes before the last rename: a replacement off
  Windows has at most three steps.
\<close>

definition fails_early :: "env \<Rightarrow> bool" where
  "fails_early e \<longleftrightarrow> \<not> env_windows e \<and> (case env_fault e of ReplaceFault k \<Rightarrow> k < 3 | _ \<Rightarrow> True)"

lemma write_fails_early:
  assumes "write_state e s fs = (Inl er, fs')" and "fails_early e" and "on_disk (env_serde e) fs \<noteq> None"
  shows "fs' StatePath = fs StatePath"
  using assms(1)
proof (cases rule: write_stateE)
  case (replaced bytes fs1 backup)
  then obtain k where k: "env_fault e = ReplaceFault k"
    "fs' = (fs_run (take k (replace_steps (env_windows e) fs1 backup)) fs1)(TempPath := None)" by auto
  have "backup" using assms(3) replaced(5) by (auto simp: on_disk_def is_ok_def split: sum.splits)
  then have old: "fs StatePath \<noteq> None" using replaced(5) readable_present by auto
  have "k = 0 \<or> k = 1 \<or> k = 2" using assms(2) k(1) by (auto simp: fails_early_def)
  with k(2) \<open>backup\<close> old assms(2) replaced(4) show ?thesis
    by (auto simp: fails_early_def replace_steps_def replace_steps_unix_def fs_run_def numeral_2_eq_2)
qed simp

lemma step_synced:
  assumes "run_op e op r = (okay, r')" and "codec_ok sd" and "env_serde e = sd" and "fails_early e"
    and "synced sd r"
  shows "synced sd r'"
proof -
  have c: "codec_ok (env_serde e)" using assms(2,3) by simp
  from assms(1) c show ?thesis
  proof (cases rule: run_op_cases)
    case (failed s er)
    have "rp_files r' StatePath = rp_files r StatePath"
      by (rule write_fails_early[OF failed(4) assms(4)]) (use assms(3,5) in \<open>simp add: synced_def\<close>)
    with failed assms(5) on_disk_cong[of "rp_files r'" "rp_files r" sd] show ?thesis
      by (simp add: synced_def)
  qed (use assms(3,5) in \<open>auto simp: synced_def\<close>)
qed

section \<open>Histories\<close>

fun run_history :: "(env \<times> store_op) list \<Rightarrow> repo \<Rightarrow> repo" where
  "run_history [] r = r"
| "run_history ((e, op) # h) r = run_history h (snd (run_op e op r))"

lemma history_invariant:
  assumes "I r" and "\<And>e op r. (e, op) \<in> set h \<Longrightarrow> I r \<Longrightarrow> I (snd (run_op e op r))"
  shows "I (run_history h r)"
  using assms by (induction h r rule: run_history.induct) auto

lemma history_synced:
  assumes "codec_ok sd" and "\<forall>(e, op) \<in> set h. env_serde e = sd \<and> fails_early e" and "synced sd r"
  shows "synced sd (run_history h r)"
proof (rule history_invariant[of "synced sd"])
  show "synced sd r" by fact
  fix e op r assume e: "(e, op) \<in> set h" and r: "synced sd r"
  obtain okay r' where run: "run_op e op r = (okay, r')" by fastforce
  have "synced sd r'" by (rule step_synced[OF run assms(1)]) (use e assms(2) r in auto)
  with run show "synced sd (snd (run_op e op r))" by simp
qed

lemma load_valid:
  assumes "load_state e fs = (Inr s, fs')" and "codec_ok (env_serde e)"
  shows "validate_persisted_state s = Inr () \<and> on_disk (env_serde e) fs' = Some s"
  using assms(1)
  by (auto simp: load_state_def on_disk_Some split: if_splits sum.splits prod.splits
      dest: read_valid_state_valid write_state_ok[OF _ assms(2), unfolded on_disk_Some])

lemma clear_inactive_same:
  assumes "clear_inactive_identity_files hs = (hs', False)"
  shows "hs' = hs"
proof -
  have "clear_inactive_identity_file h = h" if "h \<in> set hs" for h
    using assms that by (cases h) (auto simp: clear_inactive_identity_files_def
        clear_inactive_identity_file_def list_ex_iff)
  then show ?thesis using assms by (simp add: clear_inactive_identity_files_def map_idI)
qed

lemma open_synced:
  assumes "open_repository e1 e2 fs = (Inr r, fs')" and "codec_ok sd"
    and "env_serde e1 = sd" and "env_serde e2 = sd"
  shows "synced sd r \<and> rp_deleting r = {} \<and> rp_files r = fs'"
proof -
  obtain s fs1 where load: "load_state e1 fs = (Inr s, fs1)"
    using assms(1) by (auto simp: open_repository_def split: prod.splits sum.splits)
  have s: "validate_persisted_state s = Inr ()" "on_disk sd fs1 = Some s"
    using load_valid[OF load] assms(2,3) by auto
  obtain hosts changed where clear: "clear_inactive_identity_files (ps_hosts s) = (hosts, changed)"
    by fastforce
  show ?thesis
  proof (cases changed)
    case True
    then show ?thesis
      using assms load clear write_state_ok[of e2 "s\<lparr>ps_hosts := hosts\<rparr>" fs1]
      by (auto simp: open_repository_def synced_def Let_def split: prod.splits sum.splits)
  next
    case False
    then have "hosts = ps_hosts s"
      using clear clear_inactive_same by simp
    with False assms load clear s show ?thesis
      by (auto simp: open_repository_def synced_def)
  qed
qed

lemma load_synced: "synced (env_serde e) r \<Longrightarrow> load_state e (rp_files r) = (Inr (rp_state r), rp_files r)"
  using readable_present[of "env_serde e" "rp_files r" StatePath]
  by (auto simp: synced_def on_disk_Some load_state_def)

end
