(* ===== verification/StoreSafety.thy ===== *)
theory StoreSafety
  imports StoreTxn
begin

text \<open>
  What every history of repository operations keeps of the hosts: references that are one direct
  hop long, and a quarantine around hosts that are being deleted.
\<close>

section \<open>Fresh identifiers\<close>

text \<open>
  \<^verbatim>\<open>Uuid::new_v4\<close> makes identifiers that are new, distinct and plain text; \<open>n\<close> of them are drawn for
  hosts.  The order in which \<^verbatim>\<open>HashMap::values\<close> enumerates a map neither loses nor invents values.
\<close>

definition env_fresh :: "env \<Rightarrow> nat \<Rightarrow> repo \<Rightarrow> bool" where
  "env_fresh e n r \<longleftrightarrow> inj_on (env_uuid e) {..<n}
     \<and> (\<forall>k < n. id_ok (env_uuid e k) \<and> env_uuid e k \<notin> hp_id ` set (ps_hosts (rp_state r)))
     \<and> (\<forall>xs. set (env_order e xs) = set xs)"

text \<open>How many identifiers an operation can draw for hosts.\<close>

fun host_draws :: "store_op \<Rightarrow> nat" where
  "host_draws (SaveHost _) = 1"
| "host_draws (ImportHosts drafts) = length drafts"
| "host_draws (ImportBatch batch) = length (ib_hosts batch)"
| "host_draws _ = 0"

section \<open>Imports\<close>

text \<open>The state of an import loop after \<open>n\<close> drafts.\<close>

definition importing :: "env \<Rightarrow> persisted_state \<Rightarrow> persisted_state \<Rightarrow> string list \<Rightarrow> bool" where
  "importing e s0 s ids \<longleftrightarrow> ids = map (env_uuid e) [0..<length ids]
     \<and> hp_id ` set (ps_hosts s) = hp_id ` set (ps_hosts s0) \<union> set ids
     \<and> proxy_wf_except (set ids) (ps_hosts s)"

lemma importing_step:
  assumes "importing e (rp_state r) s ids" and "env_fresh e n r" and "hd_id draft = None"
    and "length ids < n"
    and "apply_host_draft now (env_uuid e (length ids)) draft s = Inr (p, s')"
  shows "importing e (rp_state r) s' (ids @ [hp_id p])"
proof -
  have p: "hp_id p = env_uuid e (length ids)"
    using apply_host_draft_id[OF assms(5)] assms(3) by simp
  have s': "s' = s\<lparr>ps_hosts := upsert hp_id p (ps_hosts s)\<rparr>"
    by (rule apply_host_draft_state[OF assms(5)])
  have ids: "ids = map (env_uuid e) [0..<length ids]" using assms(1) by (simp add: importing_def)
  have "hp_id p \<notin> set ids"
  proof
    assume "hp_id p \<in> set ids"
    then have "hp_id p \<in> env_uuid e ` {0..<length ids}" using ids by (metis set_map set_upt)
    then obtain k where "k < length ids" "env_uuid e (length ids) = env_uuid e k"
      using p by auto
    with assms(2,4) show False
      using inj_onD[of "env_uuid e" "{..<n}" "length ids" k] by (auto simp: env_fresh_def)
  qed
  then have fresh: "hp_id p \<notin> hp_id ` set (ps_hosts s)"
    using assms(1,2,4) p by (auto simp: importing_def env_fresh_def)
  have "id_ok (hp_id p)" using assms(2,4) p by (simp add: env_fresh_def)
  with push_pending[of "set ids" "ps_hosts s" p] fresh assms(1)
  have "proxy_wf_except (set (ids @ [hp_id p])) (ps_hosts s')"
    by (simp add: s' upsert_fresh importing_def)
  moreover have "ids @ [hp_id p] = map (env_uuid e) [0..<length (ids @ [hp_id p])]"
    using ids p by simp
  moreover have "hp_id ` set (ps_hosts s') = hp_id ` set (ps_hosts (rp_state r)) \<union> set (ids @ [hp_id p])"
    using assms(1) by (simp add: s' keys_upsert importing_def)
  ultimately show ?thesis unfolding importing_def by blast
qed

lemma importing_start: "proxy_wf (ps_hosts s) \<Longrightarrow> importing e s s []"
  by (simp add: importing_def proxy_wf_def)

lemma importing_settle:
  assumes "importing e s0 s ids" and "settle_hosts is s = Inr s'" and "set is = set ids"
  shows "proxy_wf (ps_hosts s')"
proof -
  obtain hosts where "rfold normalize_proxy_jump_for is (ps_hosts s) = Inr hosts"
    "s' = s\<lparr>ps_hosts := hosts\<rparr>"
    using assms(2) by (auto simp: settle_hosts_def result_simps)
  with normalize_all_wf[of "is" "ps_hosts s" hosts "set ids"] assms(1,3)
  show ?thesis by (simp add: proxy_wf_def importing_def)
qed

lemma prepare_import_wf:
  assumes "prepare_import e drafts r = Inr (hs, s)" and "env_fresh e (length drafts) r"
    and "proxy_wf (ps_hosts (rp_state r))"
  shows "proxy_wf (ps_hosts s)"
proof -
  obtain s1 ids where loop: "rfold (push_draft e) drafts (rp_state r, []) = Inr (s1, ids)"
    and settle: "settle_hosts ids s1 = Inr s"
    using assms(1) by (auto simp: prepare_import_def result_simps split: if_splits)
  have "case (s1, ids) of (s, ids) \<Rightarrow> importing e (rp_state r) s ids \<and> length ids = 0 + length drafts"
    by (rule rfold_indexed[OF loop, where P = "\<lambda>i. \<lambda>(s, ids). importing e (rp_state r) s ids \<and> length ids = i"])
      (use assms in \<open>auto simp: push_draft_def result_simps importing_start
        intro: importing_step split: if_splits\<close>)
  then have "importing e (rp_state r) s1 ids" by simp
  then show ?thesis by (rule importing_settle[OF _ settle refl])
qed

lemma import_host_loop:
  assumes "rfold (import_host e) hosts (rp_state r, []) = Inr (s, ids)" and "env_fresh e (length hosts) r"
    and "proxy_wf (ps_hosts (rp_state r))"
  shows "importing e (rp_state r) s (map snd ids)"
proof -
  have step: "importing e (rp_state r) s' (map snd ids') \<and> length ids' = Suc (length ids)"
    if inv: "importing e (rp_state r) s (map snd ids)" and run: "import_host e x (s, ids) = Inr (s', ids')"
      and n: "length ids < length hosts" for x s ids s' ids'
  proof -
    obtain p where "hd_id (ibh_draft x) = None" "ids' = ids @ [(ibh_source_id x, hp_id p)]"
      and "apply_host_draft (env_now e (length ids)) (env_uuid e (length ids)) (ibh_draft x) s = Inr (p, s')"
      using run by (auto simp: import_host_def result_simps split: if_splits)
    with importing_step[OF inv assms(2)] n show ?thesis by simp
  qed
  define P where "P = (\<lambda>i (s, ids :: id_map). importing e (rp_state r) s (map snd ids) \<and> length ids = i)"
  have "P (0 + length hosts) (s, ids)"
  proof (rule rfold_indexed[OF assms(1)])
    show "P 0 (rp_state r, [])" by (simp add: P_def importing_start[OF assms(3)])
    fix i x and st st' :: "persisted_state \<times> id_map"
    assume "i < 0 + length hosts" "P i st" "import_host e x st = Inr st'"
    then show "P (Suc i) st'"
      using step[of "fst st" "snd st" x "fst st'" "snd st'"] by (simp add: P_def split_def)
  qed
  then show ?thesis by (simp add: P_def)
qed

lemma import_tunnel_hosts:
  assumes "rfold (import_tunnel e ids existing) ts (s, k) = Inr (s', k')"
  shows "ps_hosts s' = ps_hosts s"
proof -
  have "case (s', k') of (s', _) \<Rightarrow> ps_hosts s' = ps_hosts s"
    by (rule rfold_invariant[OF assms])
      (auto simp: import_tunnel_def apply_tunnel_draft_def Let_def result_simps split: if_splits)
  then show ?thesis by simp
qed

lemma import_command_hosts:
  assumes "rfold (import_command e ids existing) cs (s, k) = Inr (s', k')"
  shows "ps_hosts s' = ps_hosts s"
proof -
  have "case (s', k') of (s', _) \<Rightarrow> ps_hosts s' = ps_hosts s"
    by (rule rfold_invariant[OF assms])
      (auto simp: import_command_def apply_command_draft_def Let_def result_simps split: if_splits)
  then show ?thesis by simp
qed

lemma prepare_batchE:
  assumes "prepare_batch e batch s0 = Inr (x, s)"
  obtains s1 ids s2 s3 k3 s4 k4 where
    "rfold (import_host e) (ib_hosts batch) (s0, []) = Inr (s1, ids)"
    "settle_hosts (env_order e (map snd ids)) s1 = Inr s2"
    "rfold (import_tunnel e ids (hp_id ` set (ps_hosts s0))) (ib_tunnels batch) (s2, length ids) = Inr (s3, k3)"
    "rfold (import_command e ids (hp_id ` set (ps_hosts s0))) (ib_commands batch) (s3, k3) = Inr (s4, k4)"
    "ps_hosts s = ps_hosts s4"
    "ps_imported_source_hashes s = ps_imported_source_hashes s4 @ [to_ascii_lowercase (ib_source_hash batch)]"
proof -
  obtain s1 ids s2 s3 k3 s4 k4 s5 where
    *: "rfold (import_host e) (ib_hosts batch) (s0, []) = Inr (s1, ids)"
      "settle_hosts (env_order e (map snd ids)) s1 = Inr s2"
      "rfold (import_tunnel e ids (hp_id ` set (ps_hosts s0))) (ib_tunnels batch) (s2, length ids) = Inr (s3, k3)"
      "rfold (import_command e ids (hp_id ` set (ps_hosts s0))) (ib_commands batch) (s3, k3) = Inr (s4, k4)"
    and settings: "import_settings (ib_settings batch) s4 = Inr s5"
    and s: "s = s5\<lparr>ps_imported_source_hashes := ps_imported_source_hashes s5
        @ [to_ascii_lowercase (ib_source_hash batch)]\<rparr>"
    using assms by (auto simp: prepare_batch_def Let_def rbind_Inr_iff)
  have "ps_hosts s5 = ps_hosts s4 \<and> ps_imported_source_hashes s5 = ps_imported_source_hashes s4"
    using settings by (auto simp: import_settings_def result_simps split: option.splits)
  with s show thesis by (intro that[OF *]) simp_all
qed

lemma prepare_batch_wf:
  assumes "prepare_batch e batch (rp_state r) = Inr (x, s)" and "env_fresh e (length (ib_hosts batch)) r"
    and "proxy_wf (ps_hosts (rp_state r))"
  shows "proxy_wf (ps_hosts s)"
  using assms(1)
proof (rule prepare_batchE)
  fix s1 ids s2 s3 k3 s4 k4
  assume 1: "rfold (import_host e) (ib_hosts batch) (rp_state r, []) = Inr (s1, ids)"
    and 2: "settle_hosts (env_order e (map snd ids)) s1 = Inr s2"
    and 3: "rfold (import_tunnel e ids (hp_id ` set (ps_hosts (rp_state r)))) (ib_tunnels batch)
      (s2, length ids) = Inr (s3, k3)"
    and 4: "rfold (import_command e ids (hp_id ` set (ps_hosts (rp_state r)))) (ib_commands batch)
      (s3, k3) = Inr (s4, k4)"
    and 5: "ps_hosts s = ps_hosts s4"
  have "set (env_order e (map snd ids)) = set (map snd ids)"
    using assms(2) by (simp only: env_fresh_def)
  from importing_settle[OF import_host_loop[OF 1 assms(2,3)] 2 this]
  show ?thesis using import_tunnel_hosts[OF 3] import_command_hosts[OF 4] 5 by simp
qed

section \<open>Hosts being deleted\<close>

text \<open>
  A host under deletion is still saved, and no host jumps through it.
\<close>

definition quarantined :: "string set \<Rightarrow> host_profile list \<Rightarrow> bool" where
  "quarantined D hs \<longleftrightarrow> D \<subseteq> hp_id ` set hs \<and> (\<forall>h \<in> set hs. \<forall>d \<in> D. hp_proxy_jump h \<noteq> Some d)"

lemma edited_normalized_quarantined:
  assumes "quarantined D hs" and ed: "edited i hs hs1" and "i \<notin> D"
    and norm: "normalize_proxy_jump_for i hs1 = Inr hs2"
    and p: "p \<in> set hs2" "hp_id p = i" "\<forall>d \<in> D. hp_proxy_jump p \<noteq> Some d"
  shows "quarantined D hs2"
proof -
  have dist1: "distinct (map hp_id hs1)" using ed by (simp add: edited_def)
  have ids: "map hp_id hs2 = map hp_id hs1"
    using norm dist1 by (cases rule: normalize_proxy_jump_forE) auto
  then have dist2: "distinct (map hp_id hs2)" using dist1 by simp
  have "hp_id ` set hs2 = hp_id ` set hs1" using ids by (metis set_map)
  then have "D \<subseteq> hp_id ` set hs2" using assms(1) ed by (auto simp: quarantined_def edited_def)
  moreover have "hp_proxy_jump h \<noteq> Some d" if h: "h \<in> set hs2" and d: "d \<in> D" for h d
  proof (cases "hp_id h = i")
    case True
    then have "h = p" using key_inject[OF dist2 h p(1)] p(2) by simp
    then show ?thesis using p(3) d by simp
  next
    case False
    have "h \<in> set hs1"
      using norm dist1 h False by (cases rule: normalize_proxy_jump_forE) (auto simp: set_jump_def image_iff)
    with ed False consider "h \<in> set hs" | "hp_proxy_jump h = Some i"
      unfolding edited_def by fastforce
    then show ?thesis using assms(1,3) d by cases (auto simp: quarantined_def)
  qed
  ultimately show ?thesis by (simp add: quarantined_def)
qed

lemma prepare_host_hosts:
  assumes "prepare_host e draft r = Inr (p, s)" and "env_fresh e 1 r"
    and wf: "proxy_wf (ps_hosts (rp_state r))" and q: "quarantined (rp_deleting r) (ps_hosts (rp_state r))"
  shows "proxy_wf (ps_hosts s) \<and> quarantined (rp_deleting r) (ps_hosts s)
    \<and> ps_tunnels s = ps_tunnels (rp_state r) \<and> ps_command_presets s = ps_command_presets (rp_state r)"
proof -
  have run: "apply_host_update (env_now e 0) (env_uuid e 0) draft (rp_state r) = Inr (p, s)"
    and idle: "\<not> draft_deleting r (hd_id draft)"
    and jump: "\<And>j. resolve_proxy_jump (ps_hosts s) p = Inr (Some j) \<Longrightarrow> hp_id j \<notin> rp_deleting r"
    using assms(1) by (auto simp: prepare_host_def result_simps jump_deleting_def split: if_splits)
  have wf': "proxy_wf (ps_hosts s)"
    by (rule apply_host_update_wf[OF wf _ run]) (use assms(2) in \<open>simp add: env_fresh_def\<close>)
  have dist: "distinct (map hp_id (ps_hosts (rp_state r)))"
    using wf by (simp add: proxy_wf_def proxy_wf_except_def)
  from run dist show ?thesis
  proof (rule apply_host_updateE)
    fix h hs1 hs2
    assume draft: "apply_host_draft (env_now e 0) (env_uuid e 0) draft (rp_state r)
        = Inr (h, (rp_state r)\<lparr>ps_hosts := upsert hp_id h (ps_hosts (rp_state r))\<rparr>)"
      and ed: "edited (hp_id h) (ps_hosts (rp_state r)) hs1"
      and norm: "normalize_proxy_jump_for (hp_id h) hs1 = Inr hs2"
      and p: "p \<in> set hs2" "hp_id p = hp_id h" and s: "s = (rp_state r)\<lparr>ps_hosts := hs2\<rparr>"
    have "env_uuid e 0 \<notin> rp_deleting r"
      using assms(2) q unfolding env_fresh_def quarantined_def by auto
    then have i: "hp_id h \<notin> rp_deleting r"
      using apply_host_draft_id[OF draft] idle by (auto simp: draft_deleting_def)
    have "\<forall>d \<in> rp_deleting r. hp_proxy_jump p \<noteq> Some d"
      using resolve_proxy_jump_wf[OF wf', of p] p(1) s jump by auto
    with edited_normalized_quarantined[OF q ed i norm p] wf' s show ?thesis by simp
  qed
qed

lemma save_tunnel_plan:
  assumes "apply_tunnel_draft now i d s = Inr (t, s')"
  shows "ps_hosts s' = ps_hosts s \<and> ps_command_presets s' = ps_command_presets s
    \<and> (\<forall>t' \<in> set (ps_tunnels s'). t' \<in> set (ps_tunnels s) \<or> tp_host_id t' = td_host_id d)"
proof -
  have s': "s' = s\<lparr>ps_tunnels := upsert tp_id t (ps_tunnels s)\<rparr>" and t: "tp_host_id t = td_host_id d"
    using assms by (auto simp: apply_tunnel_draft_def result_simps Let_def)
  show ?thesis unfolding s'
    by (cases rule: upsert_split[of "ps_tunnels s" tp_id t]) (use t in auto)
qed

lemma save_command_plan:
  assumes "apply_command_draft now i d s = Inr (c, s')"
  shows "ps_hosts s' = ps_hosts s \<and> ps_tunnels s' = ps_tunnels s
    \<and> (\<forall>c' \<in> set (ps_command_presets s'). c' \<in> set (ps_command_presets s) \<or> cp_host_id c' = cpd_host_id d)"
proof -
  have s': "s' = s\<lparr>ps_command_presets := upsert cp_id c (ps_command_presets s)\<rparr>"
    and c: "cp_host_id c = cpd_host_id d"
    using assms by (auto simp: apply_command_draft_def result_simps Let_def)
  show ?thesis unfolding s'
    by (cases rule: upsert_split[of "ps_command_presets s" cp_id c]) (use c in auto)
qed

lemma remove_host_plan:
  assumes "remove_host i s = Inr (x, s')"
  shows "validate_host_deletion_state s i = Inr ()
    \<and> s' = s\<lparr>ps_hosts := filter (\<lambda>host. hp_id host \<noteq> i) (ps_hosts s),
         ps_tunnels := filter (\<lambda>tunnel. tp_host_id tunnel \<noteq> i) (ps_tunnels s),
         ps_command_presets := filter (\<lambda>command. cp_host_id command \<noteq> Some i) (ps_command_presets s)\<rparr>"
  using assms by (auto simp: remove_host_def result_simps Let_def)

lemma validate_host_deletion_present: "validate_host_deletion_state s i = Inr () \<Longrightarrow> i \<in> hp_id ` set (ps_hosts s)"
  by (auto simp: validate_host_deletion_state_def result_simps dest: find_SomeD)

definition safe :: "repo \<Rightarrow> bool" where
  "safe r \<longleftrightarrow> proxy_wf (ps_hosts (rp_state r)) \<and> quarantined (rp_deleting r) (ps_hosts (rp_state r))"

text \<open>The hosts under deletion once the operation has changed the state.\<close>

fun still_deleting :: "store_op \<Rightarrow> string set \<Rightarrow> string set" where
  "still_deleting (FinishHostDeletion i) D = D - {i}"
| "still_deleting _ D = D"

lemma plan_safe:
  assumes "plan e op r = Some s" and "safe r" and "env_fresh e (host_draws op) r"
  shows "proxy_wf (ps_hosts s) \<and> quarantined (still_deleting op (rp_deleting r)) (ps_hosts s)"
proof (cases op)
  case (SaveHost d)
  then show ?thesis
    using assms prepare_host_hosts[of e d r] by (auto simp: safe_def split: sum.splits)
next
  case (ImportHosts ds)
  then obtain hs where p: "prepare_import e ds r = Inr (hs, s)"
    using assms(1) by (auto split: sum.splits if_splits)
  then have "rp_deleting r = {}" by (auto simp: prepare_import_def split: if_splits)
  with prepare_import_wf[OF p] assms(2,3) ImportHosts show ?thesis
    by (simp add: safe_def quarantined_def)
next
  case (FinishHostDeletion i)
  then obtain x where "remove_host i (rp_state r) = Inr (x, s)"
    using assms(1) by (auto split: sum.splits if_splits)
  from remove_host_plan[OF this] deletion_wf[of "rp_state r" i] assms(2) FinishHostDeletion
  show ?thesis by (auto simp: safe_def quarantined_def)
next
  case (SaveTunnel d)
  then show ?thesis
    using assms by (auto simp: safe_def split: sum.splits if_splits dest: save_tunnel_plan)
next
  case (SaveCommand d)
  then show ?thesis
    using assms by (auto simp: safe_def split: sum.splits if_splits dest: save_command_plan)
next
  case (ImportBatch b)
  then obtain x where p: "prepare_batch e b (rp_state r) = Inr (x, s)" and "rp_deleting r = {}"
    using assms(1) by (auto split: sum.splits if_splits)
  with prepare_batch_wf[OF p] assms(2,3) ImportBatch show ?thesis
    by (simp add: safe_def quarantined_def)
qed (use assms in \<open>auto simp: safe_def Let_def remove_command_def result_simps
      split: sum.splits if_splits\<close>)

lemma commit_deleting [simp]:
  "rp_deleting (snd (commit e s x r)) = rp_deleting r"
  "rp_deleting (snd (commit_result e m r)) = rp_deleting r"
  by (auto simp: commit_result_def commit_def split: sum.splits prod.splits)

lemma deleting_step:
  "rp_deleting (snd (run_op e op r)) = still_deleting op (rp_deleting r)
    \<or> (\<exists>i. op = BeginHostDeletion i \<and> rp_deleting (snd (run_op e op r)) = insert i (rp_deleting r)
        \<and> validate_host_deletion_state (rp_state r) i = Inr ())
    \<or> (\<exists>i. op = AbortHostDeletion i \<and> rp_deleting (snd (run_op e op r)) = rp_deleting r - {i})"
proof (cases op)
  case (BeginHostDeletion i)
  then show ?thesis
    by (cases "validate_host_deletion_state (rp_state r) i") (auto simp: begin_host_deletion_def)
next
  case (FinishHostDeletion i)
  then show ?thesis
    by (simp add: finish_host_deletion_def delete_host_locked_def Let_def split_def)
next
  case (ImportBatch b)
  then show ?thesis by (simp add: import_batch_op_def split: sum.split)
qed (simp_all add: save_host_def import_hosts_def abort_host_deletion_def save_tunnel_def
    delete_tunnel_def save_command_def delete_command_for_host_def update_settings_def Let_def)

lemma quarantined_mono: "quarantined D hs \<Longrightarrow> D' \<subseteq> D \<Longrightarrow> quarantined D' hs"
  by (auto simp: quarantined_def)

lemma step_safe:
  assumes "run_op e op r = (okay, r')" and "safe r" and "env_fresh e (host_draws op) r"
  shows "safe r'"
proof -
  have deleting: "quarantined (rp_deleting r') (ps_hosts (rp_state r'))"
    if "proxy_wf (ps_hosts (rp_state r'))"
      and q: "quarantined (still_deleting op (rp_deleting r)) (ps_hosts (rp_state r'))"
      and same: "\<And>i. op = BeginHostDeletion i \<Longrightarrow> rp_state r' = rp_state r"
    using deleting_step[of e op r] unfolding assms(1) snd_conv
  proof (elim disjE exE conjE)
    fix i
    assume op: "op = BeginHostDeletion i" and D: "rp_deleting r' = insert i (rp_deleting r)"
      and v: "validate_host_deletion_state (rp_state r) i = Inr ()"
    have i: "i \<in> hp_id ` set (ps_hosts (rp_state r))" by (rule validate_host_deletion_present[OF v])
    then have ok: "id_ok i" using assms(2) by (auto simp: safe_def proxy_wf_def proxy_wf_except_def)
    have "hp_proxy_jump h \<noteq> Some i" if "h \<in> set (ps_hosts (rp_state r))" for h
    proof (cases "hp_id h = i")
      case True
      with assms(2) that show ?thesis
        by (fastforce simp: safe_def proxy_wf_def proxy_wf_except_def jumps_direct_def)
    qed (rule validate_host_deletion_stateD[OF v ok that])
    with q same[OF op] D i op show ?thesis by (auto simp: quarantined_def)
  qed (use q in \<open>auto simp: quarantined_def\<close>)
  show ?thesis
  proof (cases "plan e op r")
    case None
    then have same: "rp_state r' = rp_state r"
      using run_op_follows_plan[OF assms(1)] by (simp add: follows_plan_def)
    have "still_deleting op (rp_deleting r) \<subseteq> rp_deleting r" by (cases op) auto
    then have "quarantined (still_deleting op (rp_deleting r)) (ps_hosts (rp_state r'))"
      using assms(2) same quarantined_mono[of "rp_deleting r"] by (simp add: safe_def)
    with assms(2) deleting same show ?thesis by (simp add: safe_def)
  next
    case (Some s)
    have "still_deleting op (rp_deleting r) \<subseteq> rp_deleting r" by (cases op) auto
    then have "quarantined (still_deleting op (rp_deleting r)) (ps_hosts (rp_state r))"
      using assms(2) quarantined_mono[of "rp_deleting r"] by (simp add: safe_def)
    moreover have "\<And>i. op \<noteq> BeginHostDeletion i" using Some by auto
    moreover have "rp_state r' = s \<or> rp_state r' = rp_state r"
      using run_op_follows_plan[OF assms(1)] Some
      by (auto simp: follows_plan_def split: prod.splits sum.splits)
    ultimately show ?thesis
      using plan_safe[OF Some assms(2,3)] assms(2) deleting by (auto simp: safe_def)
  qed
qed

section \<open>Reachable repositories\<close>

inductive reaches :: "repo \<Rightarrow> repo \<Rightarrow> bool" for r0 where
  start: "reaches r0 r0"
| step: "reaches r0 r \<Longrightarrow> env_fresh e (host_draws op) r \<Longrightarrow> run_op e op r = (okay, r') \<Longrightarrow> reaches r0 r'"

inductive_cases reachesE: "reaches r0 r"

lemma reaches_safe: "reaches r0 r \<Longrightarrow> safe r0 \<Longrightarrow> safe r"
  by (induction rule: reaches.induct) (auto intro: step_safe)

lemma safe_resolves:
  assumes "safe r" and "h \<in> set (ps_hosts (rp_state r))"
  shows "(hp_proxy_jump h = None \<and> resolve_jump_host h r = Inr None)
    \<or> (\<exists>j \<in> set (ps_hosts (rp_state r)). hp_proxy_jump h = Some (hp_id j) \<and> hp_id j \<noteq> hp_id h
        \<and> hp_proxy_jump j = None \<and> hp_id j \<notin> rp_deleting r \<and> resolve_jump_host h r = Inr (Some j))"
proof -
  have q: "\<And>d. hp_proxy_jump h = Some d \<Longrightarrow> d \<notin> rp_deleting r"
    using assms by (auto simp: safe_def quarantined_def)
  from assms resolve_proxy_jump_wf[of "ps_hosts (rp_state r)" h] q show ?thesis
    by (auto simp: safe_def resolve_jump_host_def jump_deleting_def)
qed

text \<open>
  Tunnels and commands of a host under deletion can only go away, until its deletion finishes or
  is given up.
\<close>

definition owned :: "string \<Rightarrow> persisted_state \<Rightarrow> tunnel_profile set \<times> command_preset set" where
  "owned d s = ({t \<in> set (ps_tunnels s). tp_host_id t = d}, {c \<in> set (ps_command_presets s). cp_host_id c = Some d})"

definition owned_le :: "string \<Rightarrow> persisted_state \<Rightarrow> persisted_state \<Rightarrow> bool" where
  "owned_le d s s' \<longleftrightarrow> fst (owned d s) \<subseteq> fst (owned d s') \<and> snd (owned d s) \<subseteq> snd (owned d s')"

lemma plan_owned:
  assumes "plan e op r = Some s" and "d \<in> rp_deleting r"
  shows "owned_le d s (rp_state r)"
proof (cases op)
  case (SaveHost x)
  then obtain p where "prepare_host e x r = Inr (p, s)" using assms(1) by (auto split: sum.splits)
  then have "apply_host_update (env_now e 0) (env_uuid e 0) x (rp_state r) = Inr (p, s)"
    by (auto simp: prepare_host_def result_simps)
  then have "ps_tunnels s = ps_tunnels (rp_state r)" "ps_command_presets s = ps_command_presets (rp_state r)"
    by (auto simp: apply_host_update_def result_simps Let_def dest!: apply_host_draft_state)
  then show ?thesis by (simp add: owned_le_def owned_def)
next
  case (ImportHosts ds)
  then show ?thesis using assms by (auto simp: prepare_import_def split: sum.splits if_splits)
next
  case (FinishHostDeletion i)
  then show ?thesis using assms
    by (auto simp: owned_le_def owned_def split: sum.splits if_splits dest!: remove_host_plan)
next
  case (SaveTunnel x)
  then show ?thesis using assms
    by (auto simp: owned_le_def owned_def split: sum.splits if_splits dest!: save_tunnel_plan)
next
  case (SaveCommand x)
  then show ?thesis using assms
    by (auto simp: owned_le_def owned_def draft_deleting_def split: sum.splits if_splits dest!: save_command_plan)
qed (use assms in \<open>auto simp: owned_le_def owned_def Let_def remove_command_def result_simps
      split: sum.splits if_splits\<close>)

lemma step_owned:
  assumes "run_op e op r = (okay, r')" and "d \<in> rp_deleting r"
  shows "owned_le d (rp_state r') (rp_state r)"
proof (cases "plan e op r")
  case None
  then have "rp_state r' = rp_state r"
    using run_op_follows_plan[OF assms(1)] by (simp add: follows_plan_def)
  then show ?thesis by (simp add: owned_le_def)
next
  case (Some s)
  then have "rp_state r' = s \<or> rp_state r' = rp_state r"
    using run_op_follows_plan[OF assms(1)] by (auto simp: follows_plan_def split: prod.splits sum.splits)
  with plan_owned[OF Some assms(2)] show ?thesis by (auto simp: owned_le_def)
qed

end
