(* ===== verification/StoreProps.thy ===== *)
theory StoreProps
  imports StoreSafety
begin

text \<open>
  The properties of the repository of \<^verbatim>\<open>store.rs\<close>, each with a witness on concrete states, files
  and a concrete codec.
\<close>

section \<open>A concrete codec, environment and states\<close>

text \<open>A codec for the states of a list: a state is written as its position in the list.\<close>

definition table_codec :: "persisted_state list \<Rightarrow> serde" where
  "table_codec states =
     \<lparr>to_vec_pretty = (\<lambda>s. ok_or ''unknown state''
        (map_option (\<lambda>i. replicate i CHR ''x'') (position (\<lambda>x. x = s) states))),
      from_slice = (\<lambda>bytes. if length bytes - 1 < length states
        then Inr (states ! (length bytes - 1)) else Inl ''unknown bytes'')\<rparr>"

lemma table_codec_ok: "codec_ok (table_codec states)"
proof -
  have "states ! i = s \<and> i < length states" if "position (\<lambda>x. x = s) states = Some i" for i s
    using position_Some[OF that] by auto
  then show ?thesis
    by (auto simp: codec_ok_def table_codec_def ok_or_def split: option.splits)
qed

definition sample_ids :: "nat \<Rightarrow> string" where
  "sample_ids k = ''id'' @ replicate k CHR ''x''"

definition sample_env :: "serde \<Rightarrow> bool \<Rightarrow> io_fault \<Rightarrow> env" where
  "sample_env sd windows fault =
     \<lparr>env_now = (\<lambda>k. of_nat k), env_uuid = sample_ids, env_serde = sd, env_windows = windows,
      env_fault = fault, env_order = rev\<rparr>"

definition sample_host :: "string \<Rightarrow> string \<Rightarrow> string option \<Rightarrow> host_profile" where
  "sample_host i a jump =
     \<lparr>hp_schema_version = 2, hp_id = i, hp_alias = a, hp_hostname = a, hp_port = 22,
      hp_username = ''u'', hp_auth_method = Interactive, hp_identity_file = None,
      hp_proxy_jump = jump, hp_default_workspace = ''~'', hp_groups = [],
      hp_advanced = default_ssh_advanced_options, hp_monitor_enabled = True,
      hp_created_at = 0, hp_updated_at = 0\<rparr>"

definition sample_hosts :: "host_profile list" where
  "sample_hosts = [sample_host ''a'' ''gate'' None, sample_host ''b'' ''node'' (Some ''a'')]"

definition sample_state :: persisted_state where
  "sample_state = default_persisted_state\<lparr>ps_hosts := sample_hosts\<rparr>"

definition sample_codec :: serde where
  "sample_codec = table_codec [default_persisted_state, sample_state,
     default_persisted_state\<lparr>ps_hosts := [sample_host ''a'' ''gate'' None]\<rparr>]"

definition empty_files :: files where
  "empty_files p = None"

definition sample_files :: files where
  "sample_files = empty_files(StatePath \<mapsto> ''x'' @ [CHR 0x0A])"

definition sample_repo :: repo where
  "sample_repo = \<lparr>rp_state = sample_state, rp_deleting = {}, rp_files = sample_files\<rparr>"

lemma sample_synced: "synced sample_codec sample_repo"
  by code_simp

lemma sample_open: "open_repository (sample_env sample_codec w f) e2 sample_files = (Inr sample_repo, sample_files)"
proof -
  have "load_state (sample_env sample_codec w f) sample_files = (Inr sample_state, sample_files)"
    using load_synced[of "sample_env sample_codec w f" sample_repo] sample_synced
    by (simp add: sample_env_def sample_repo_def)
  moreover have "clear_inactive_identity_files (ps_hosts sample_state) = (ps_hosts sample_state, False)"
    by code_simp
  ultimately show ?thesis by (simp add: open_repository_def sample_repo_def)
qed

lemma sample_inj: "inj sample_ids"
  by (auto simp: inj_def sample_ids_def dest: arg_cong[where f = length])

section \<open>Validity\<close>

text \<open>
  C7: \<open>validate_persisted_state\<close>, which checks every state that is read or written, accepts exactly
  the states of schema 2 within the item limits whose hosts, tunnels and commands each pass their
  draft checks, have distinct identifiers and distinct names up to ASCII case (per host for
  tunnels, per scope for commands), refer only to saved hosts, and whose import history holds
  64-digit hexadecimal hashes.
\<close>

theorem accepted_states:
  "validate_persisted_state s = Inr () \<longleftrightarrow>
     ps_schema_version s = 2
     \<and> length (ps_hosts s) \<le> 512 \<and> length (ps_tunnels s) \<le> 2048
     \<and> length (ps_command_presets s) \<le> 4096 \<and> length (ps_imported_source_hashes s) \<le> 4096
     \<and> list_all (\<lambda>h. validate_host_draft (host_as_draft h) = Inr () \<and> validate_advanced (hp_advanced h) = Inr ())
         (ps_hosts s)
     \<and> distinct (map hp_id (ps_hosts s))
     \<and> distinct (map (\<lambda>h. to_ascii_lowercase (hp_alias h)) (ps_hosts s))
     \<and> list_all (\<lambda>t. validate_tunnel_draft (tunnel_as_draft t) = Inr ()
           \<and> tp_host_id t \<in> hp_id ` set (ps_hosts s)) (ps_tunnels s)
     \<and> distinct (map tp_id (ps_tunnels s))
     \<and> distinct (map (\<lambda>t. (tp_host_id t, to_ascii_lowercase (tp_name t))) (ps_tunnels s))
     \<and> list_all (\<lambda>c. validate_command_draft (command_as_draft c) = Inr ()
           \<and> set_option (cp_host_id c) \<subseteq> hp_id ` set (ps_hosts s)) (ps_command_presets s)
     \<and> distinct (map cp_id (ps_command_presets s))
     \<and> distinct (map (\<lambda>c. (cp_host_id c, to_ascii_lowercase (cp_name c))) (ps_command_presets s))
     \<and> list_all (\<lambda>hash. length hash = 64 \<and> list_all is_ascii_hexdigit hash) (ps_imported_source_hashes s)"
proof -
  have scope: "(\<forall>h. x = Some h \<longrightarrow> h \<in> A) \<longleftrightarrow> set_option x \<subseteq> A" for x :: "string option" and A
    by (cases x) auto
  have hash: "\<not> list_ex bad_hash xs \<longleftrightarrow> list_all (\<lambda>hash. length hash = 64 \<and> list_all is_ascii_hexdigit hash) xs"
    for xs by (auto simp: list_ex_iff list_all_iff bad_hash_def)
  show ?thesis
    unfolding validate_persisted_state_iff within_limits_def MAX_HOSTS_def MAX_TUNNELS_def
      MAX_COMMAND_PRESETS_def MAX_IMPORTED_SOURCE_HASHES_def hosts_valid_def tunnels_valid_def
      commands_valid_def host_ok_def tunnel_ok_def command_ok_def host_name_def[abs_def]
      tunnel_name_def[abs_def] command_name_def[abs_def] host_exists_iff scope hash list_all_iff[symmetric]
    by (simp only: conj_assoc)
qed

section \<open>Transactions\<close>

text \<open>
  C1: every operation of the repository is a transaction: the state in memory stays valid; when
  the operation reports an error the state in memory is as before, whatever was written; and when
  the state changed, the operation reports success and a restart reads exactly the new state.
\<close>

theorem operations_are_transactions:
  assumes "codec_ok (env_serde e)" and "run_op e op r = (okay, r')"
    and "validate_persisted_state (rp_state r) = Inr ()"
  shows "validate_persisted_state (rp_state r') = Inr ()
    \<and> (\<not> okay \<longrightarrow> rp_state r' = rp_state r)
    \<and> (rp_state r' \<noteq> rp_state r \<longrightarrow> okay \<and> load_state e (rp_files r') = (Inr (rp_state r'), rp_files r'))"
  using assms(2,1)
proof (cases rule: run_op_cases)
  case (wrote s)
  then have "synced (env_serde e) r'" by (simp add: synced_def)
  with wrote load_synced show ?thesis by (simp add: synced_def)
qed (use assms(3) in auto)

definition only_gate :: persisted_state where
  "only_gate = default_persisted_state\<lparr>ps_hosts := [sample_host ''a'' ''gate'' None]\<rparr>"

definition sample_deleting :: repo where
  "sample_deleting = sample_repo\<lparr>rp_deleting := {''b''}\<rparr>"

lemma operations_are_transactions_witness:
  "case run_op (sample_env sample_codec False NoFault) (FinishHostDeletion ''b'') sample_deleting of
     (okay, r') \<Rightarrow> okay \<and> rp_state r' = only_gate
       \<and> load_state (sample_env sample_codec False NoFault) (rp_files r') = (Inr only_gate, rp_files r')"
proof -
  let ?e = "sample_env sample_codec False NoFault"
  obtain okay r' where run: "run_op ?e (FinishHostDeletion ''b'') sample_deleting = (okay, r')"
    by fastforce
  have new: "rp_state (snd (run_op ?e (FinishHostDeletion ''b'') sample_deleting)) = only_gate"
    by code_simp
  have "codec_ok (env_serde ?e)" by (simp add: sample_env_def sample_codec_def table_codec_ok)
  moreover have "validate_persisted_state (rp_state sample_deleting) = Inr ()" by code_simp
  moreover have "only_gate \<noteq> rp_state sample_deleting" by code_simp
  ultimately show ?thesis
    using operations_are_transactions[of ?e "FinishHostDeletion ''b''" sample_deleting okay r'] run new
    by simp
qed


definition sample_history :: "(env \<times> store_op) list" where
  "sample_history =
     [(sample_env sample_codec False NoFault, BeginHostDeletion ''b''),
      (sample_env sample_codec False (ReplaceFault 1), FinishHostDeletion ''b''),
      (sample_env sample_codec False NoFault, BeginHostDeletion ''b''),
      (sample_env sample_codec False (TempFault (Some ''half'')), FinishHostDeletion ''b''),
      (sample_env sample_codec False NoFault, BeginHostDeletion ''b''),
      (sample_env sample_codec False NoFault, FinishHostDeletion ''b''),
      (sample_env sample_codec False (ReplaceFault 2), FinishHostDeletion ''a'')]"


section \<open>Crashes and recovery\<close>

text \<open>
  C3: a write never loses the repository: on Windows and elsewhere, wherever the operating system
  cuts it off, afterwards the primary file holds the old or the new state, or it is unreadable and
  the backup file holds one of them.
\<close>

theorem interrupted_write_is_recoverable:
  assumes "codec_ok (env_serde e)" and "read_valid_state (env_serde e) fs StatePath = Inr old"
    and "write_state e new fs = (res, fs')"
  shows "(\<exists>s \<in> {old, new}. read_valid_state (env_serde e) fs' StatePath = Inr s)
    \<or> (\<not> is_ok (read_valid_state (env_serde e) fs' StatePath)
       \<and> (\<exists>s \<in> {old, new}. read_valid_state (env_serde e) fs' BackupPath = Inr s))"
  using write_recoverable[OF assms(3,1), of old] assms(2)
  by (auto simp: recoverable_def on_disk_def is_ok_def split: option.splits sum.splits)

lemma interrupted_write_is_recoverable_witness:
  "case write_state (sample_env sample_codec True (ReplaceFault 1)) only_gate sample_files of (res, fs') \<Rightarrow>
     \<not> is_ok res \<and> read_valid_state sample_codec fs' BackupPath = Inr sample_state"
proof -
  let ?e = "sample_env sample_codec True (ReplaceFault 1)"
  obtain res fs' where run: "write_state ?e only_gate sample_files = (res, fs')" by fastforce
  have res: "\<not> is_ok (fst (write_state ?e only_gate sample_files))" by code_simp
  have gone: "\<not> is_ok (read_valid_state sample_codec (snd (write_state ?e only_gate sample_files)) StatePath)"
    by code_simp
  have new: "read_valid_state sample_codec (snd (write_state ?e only_gate sample_files)) BackupPath \<noteq> Inr only_gate"
    by code_simp
  have "read_valid_state sample_codec sample_files StatePath = Inr sample_state"
    using sample_synced by (simp add: synced_def on_disk_Some sample_repo_def)
  moreover have "codec_ok (env_serde ?e)" by (simp add: sample_env_def sample_codec_def table_codec_ok)
  moreover have "env_serde ?e = sample_codec" by (simp add: sample_env_def)
  ultimately show ?thesis
    using interrupted_write_is_recoverable[of ?e sample_files sample_state only_gate res fs'] run res gone new
    by auto
qed


definition damaged_files :: files where
  "damaged_files = empty_files(StatePath \<mapsto> [], BackupPath \<mapsto> ''x'' @ [CHR 0x0A])"

definition strict_codec :: serde where
  "strict_codec = sample_codec\<lparr>from_slice := \<lambda>bytes. if bytes = [] then Inl ''EOF'' else from_slice sample_codec bytes\<rparr>"


text \<open>
  The gap in that recovery: when the primary file is missing, opening starts from the empty
  default state without looking at the backup.  On Windows a failed \<^verbatim>\<open>ReplaceFileW\<close> leaves exactly
  that: the last good state is in the backup only, and the next start forgets it.
\<close>

theorem missing_primary_forgets_backup:
  "let e = sample_env sample_codec True (ReplaceFault 1);
       fs = snd (write_state e only_gate sample_files)
   in is_ok (read_valid_state sample_codec sample_files StatePath)
      \<and> read_valid_state sample_codec fs BackupPath = Inr sample_state
      \<and> fst (load_state (sample_env sample_codec True NoFault) fs) = Inr default_persisted_state"
  by code_simp

section \<open>Hosts, references and deletion\<close>

text \<open>
  C5: in every repository that can be reached by operations with fresh identifiers from one whose
  references are direct, resolving the ProxyJump of a saved host never fails: it has none, or it is
  another saved host that connects directly and is not being deleted.
\<close>

theorem reachable_jumps_resolve:
  assumes "reaches r0 r" and "proxy_wf (ps_hosts (rp_state r0))" and "rp_deleting r0 = {}"
    and "h \<in> set (ps_hosts (rp_state r))"
  shows "(hp_proxy_jump h = None \<and> resolve_jump_host h r = Inr None)
    \<or> (\<exists>j \<in> set (ps_hosts (rp_state r)). hp_proxy_jump h = Some (hp_id j) \<and> hp_id j \<noteq> hp_id h
        \<and> hp_proxy_jump j = None \<and> hp_id j \<notin> rp_deleting r \<and> resolve_jump_host h r = Inr (Some j))"
proof -
  have "safe r0" using assms(2,3) by (simp add: safe_def quarantined_def)
  from safe_resolves[OF reaches_safe[OF assms(1) this] assms(4)] show ?thesis .
qed

definition new_host :: host_draft where
  "new_host =
     \<lparr>hd_id = None, hd_alias = ''inner'', hd_hostname = ''10.0.0.9'', hd_port = 22, hd_username = ''u'',
      hd_auth_method = None, hd_identity_file = None, hd_proxy_jump = Some '' Gate '',
      hd_default_workspace = None, hd_groups = [], hd_advanced = None, hd_monitor_enabled = None\<rparr>"

definition sample_saved :: host_profile where
  "sample_saved = \<lparr>hp_schema_version = 2, hp_id = ''id'', hp_alias = ''inner'', hp_hostname = ''10.0.0.9'',
      hp_port = 22, hp_username = ''u'', hp_auth_method = Interactive, hp_identity_file = None,
      hp_proxy_jump = Some ''a'', hp_default_workspace = ''~'', hp_groups = [],
      hp_advanced = default_ssh_advanced_options, hp_monitor_enabled = True,
      hp_created_at = 0, hp_updated_at = 0\<rparr>"

definition inner_codec :: serde where
  "inner_codec = table_codec [sample_state, sample_state\<lparr>ps_hosts := sample_hosts @ [sample_saved]\<rparr>]"

definition inner_repo :: repo where
  "inner_repo = snd (run_op (sample_env inner_codec False NoFault) (SaveHost new_host) sample_repo)"

lemma sample_proxy_wf: "proxy_wf sample_hosts"
  by code_simp

lemma sample_fresh: "env_fresh (sample_env sd w f) 1 sample_repo"
proof -
  have "id_ok (sample_ids 0)" and "sample_ids 0 \<notin> hp_id ` set (ps_hosts (rp_state sample_repo))"
    by code_simp+
  then show ?thesis by (simp add: env_fresh_def sample_env_def lessThan_Suc)
qed

lemma reachable_jumps_resolve_witness:
  "sample_saved \<in> set (ps_hosts (rp_state inner_repo))
    \<and> (\<exists>j \<in> set (ps_hosts (rp_state inner_repo)). hp_id j = ''a'' \<and> hp_proxy_jump j = None
         \<and> resolve_jump_host sample_saved inner_repo = Inr (Some j))"
proof -
  let ?e = "sample_env inner_codec False NoFault"
  obtain okay where "run_op ?e (SaveHost new_host) sample_repo = (okay, inner_repo)"
    by (metis inner_repo_def prod.collapse)
  then have "reaches sample_repo inner_repo"
    using reaches.step[OF reaches.start, of ?e "SaveHost new_host" sample_repo okay inner_repo]
      sample_fresh[of inner_codec False NoFault] by simp
  moreover have "proxy_wf (ps_hosts (rp_state sample_repo))"
    using sample_proxy_wf by (simp add: sample_repo_def sample_state_def)
  moreover have "rp_deleting sample_repo = {}" by (simp add: sample_repo_def)
  moreover have "sample_saved \<in> set (ps_hosts (rp_state inner_repo))" by code_simp
  moreover have "hp_proxy_jump sample_saved = Some ''a''" by (simp add: sample_saved_def)
  ultimately show ?thesis
    using reachable_jumps_resolve[of sample_repo inner_repo sample_saved] by auto
qed


definition jump_draft :: host_draft where
  "jump_draft = new_host\<lparr>hd_proxy_jump := Some ''node''\<rparr>"

definition plain_state :: persisted_state where
  "plain_state = sample_state\<lparr>ps_hosts := [sample_host ''a'' ''gate'' None, sample_host ''b'' ''node'' None]\<rparr>"

definition plain_deleting :: repo where
  "plain_deleting = \<lparr>rp_state = plain_state, rp_deleting = {''b''}, rp_files = sample_files\<rparr>"


text \<open>
  Finishing the deletion of a host removes that host, its tunnels and its own commands and
  nothing else, leaves no reference to it, and gives the deletion mark back even when the write
  failed, in which case the state is untouched.
\<close>

theorem finished_deletion_leaves_nothing:
  assumes "safe r" and "i \<in> rp_deleting r" and "finish_host_deletion e i r = (res, r')"
  shows "rp_deleting r' = rp_deleting r - {i}
    \<and> (\<not> is_ok res \<longrightarrow> rp_state r' = rp_state r)
    \<and> (is_ok res \<longrightarrow>
         ps_hosts (rp_state r') = filter (\<lambda>h. hp_id h \<noteq> i) (ps_hosts (rp_state r))
         \<and> ps_tunnels (rp_state r') = filter (\<lambda>t. tp_host_id t \<noteq> i) (ps_tunnels (rp_state r))
         \<and> ps_command_presets (rp_state r')
             = filter (\<lambda>c. cp_host_id c \<noteq> Some i) (ps_command_presets (rp_state r))
         \<and> (\<forall>h \<in> set (ps_hosts (rp_state r')). hp_proxy_jump h \<noteq> Some i))"
proof -
  obtain r1 where run: "delete_host_locked e i r = (res, r1)" and r': "r' = r1\<lparr>rp_deleting := rp_deleting r1 - {i}\<rparr>"
    using assms(2,3) by (auto simp: finish_host_deletion_def Let_def split: prod.splits)
  have D: "rp_deleting r1 = rp_deleting r"
    using arg_cong[OF run, of snd] commit_deleting(2)[of e "remove_host i (rp_state r)" r]
    by (simp add: delete_host_locked_def)
  have plan: "follows_plan e (case remove_host i (rp_state r) of Inl _ \<Rightarrow> None | Inr (_, s) \<Rightarrow> Some s)
      (is_ok res) r r1"
    by (rule follows_commit_result) (use run in \<open>simp add: delete_host_locked_def\<close>)
  have failed: "rp_state r1 = rp_state r" if "\<not> is_ok res"
    using plan that by (auto simp: follows_plan_def split: option.splits prod.splits sum.splits)
  have res: "\<exists>x s. remove_host i (rp_state r) = Inr (x, s) \<and> rp_state r1 = s" if "is_ok res"
  proof (cases "remove_host i (rp_state r)")
    case (Inl er)
    with run that show ?thesis by (auto simp: delete_host_locked_def commit_result_def)
  next
    case (Inr p)
    with plan that show ?thesis
      by (cases p; cases "write_state e (snd p) (rp_files r)")
        (auto simp: follows_plan_def split: sum.splits)
  qed
  show ?thesis
    using assms(1,2) D failed res remove_host_plan[of i "rp_state r"]
    by (auto simp: r' safe_def quarantined_def)
qed

lemma finished_deletion_leaves_nothing_witness:
  "case finish_host_deletion (sample_env sample_codec False NoFault) ''b'' sample_deleting of (res, r') \<Rightarrow>
     is_ok res \<and> ps_hosts (rp_state r') = [sample_host ''a'' ''gate'' None] \<and> rp_deleting r' = {}"
proof -
  let ?e = "sample_env sample_codec False NoFault"
  obtain res r' where run: "finish_host_deletion ?e ''b'' sample_deleting = (res, r')" by fastforce
  have "is_ok (fst (finish_host_deletion ?e ''b'' sample_deleting))" by code_simp
  moreover have "safe sample_deleting"
    using sample_proxy_wf
    by (simp add: safe_def quarantined_def sample_deleting_def sample_repo_def sample_state_def
        sample_hosts_def sample_host_def)
  moreover have "filter (\<lambda>h. hp_id h \<noteq> ''b'') (ps_hosts (rp_state sample_deleting))
      = [sample_host ''a'' ''gate'' None]"
    by (simp add: sample_deleting_def sample_repo_def sample_state_def sample_hosts_def sample_host_def)
  ultimately show ?thesis
    using finished_deletion_leaves_nothing[of sample_deleting "''b''" ?e res r'] run
    by (simp add: sample_deleting_def)
qed

section \<open>Imports\<close>

lemma prepare_batch_hash:
  assumes "prepare_batch e batch s = Inr (x, s')"
  shows "to_ascii_lowercase (ib_source_hash batch) \<in> set (ps_imported_source_hashes s')"
  using assms by (rule prepare_batchE) simp

lemma plan_keeps_hashes:
  assumes "plan e op r = Some s"
  shows "set (ps_imported_source_hashes (rp_state r)) \<subseteq> set (ps_imported_source_hashes s)"
proof -
  have draft: "ps_imported_source_hashes s1 = ps_imported_source_hashes s0"
    if "apply_host_draft now i d s0 = Inr (p, s1)" for now i d s0 p s1
    using apply_host_draft_state[OF that] by simp
  have settle: "ps_imported_source_hashes s1 = ps_imported_source_hashes s0"
    if "settle_hosts js s0 = Inr s1" for js s0 s1
    using that by (auto simp: settle_hosts_def result_simps)
  show ?thesis
  proof (cases op)
    case (SaveHost d)
    then show ?thesis using assms
      by (auto simp: prepare_host_def apply_host_update_def result_simps Let_def
          split: sum.splits if_splits dest!: draft)
  next
    case (ImportHosts ds)
    then obtain hs s1 ids js where "rfold (push_draft e) ds (rp_state r, []) = Inr (s1, ids)"
      and s: "settle_hosts js s1 = Inr s"
      using assms by (auto simp: prepare_import_def result_simps split: sum.splits if_splits)
    then have "case (s1, ids) of (s1, _) \<Rightarrow> ps_imported_source_hashes s1 = ps_imported_source_hashes (rp_state r)"
      by (rule_tac rfold_invariant) (auto simp: push_draft_def result_simps split: if_splits dest!: draft)
    then show ?thesis using settle[OF s] by simp
  next
    case (FinishHostDeletion i)
    then show ?thesis using assms by (auto split: sum.splits if_splits dest!: remove_host_plan)
  next
    case (ImportBatch b)
    then obtain x where "prepare_batch e b (rp_state r) = Inr (x, s)"
      using assms by (auto split: sum.splits if_splits)
    then show ?thesis
    proof (rule prepare_batchE)
      fix s1 ids s2 s3 k3 s4 k4
      assume 1: "rfold (import_host e) (ib_hosts b) (rp_state r, []) = Inr (s1, ids)"
        and 2: "settle_hosts (env_order e (map snd ids)) s1 = Inr s2"
        and 3: "rfold (import_tunnel e ids (hp_id ` set (ps_hosts (rp_state r)))) (ib_tunnels b)
          (s2, length ids) = Inr (s3, k3)"
        and 4: "rfold (import_command e ids (hp_id ` set (ps_hosts (rp_state r)))) (ib_commands b)
          (s3, k3) = Inr (s4, k4)"
        and 5: "ps_imported_source_hashes s = ps_imported_source_hashes s4
          @ [to_ascii_lowercase (ib_source_hash b)]"
      have "case (s1, ids) of (s1, _) \<Rightarrow> ps_imported_source_hashes s1 = ps_imported_source_hashes (rp_state r)"
        by (rule rfold_invariant[OF 1]) (auto simp: import_host_def result_simps split: if_splits dest!: draft)
      moreover have "case (s3, k3) of (s3, _) \<Rightarrow> ps_imported_source_hashes s3 = ps_imported_source_hashes s2"
        by (rule rfold_invariant[OF 3])
          (auto simp: import_tunnel_def apply_tunnel_draft_def Let_def result_simps split: if_splits)
      moreover have "case (s4, k4) of (s4, _) \<Rightarrow> ps_imported_source_hashes s4 = ps_imported_source_hashes s3"
        by (rule rfold_invariant[OF 4])
          (auto simp: import_command_def apply_command_draft_def Let_def result_simps split: if_splits)
      ultimately show ?thesis using settle[OF 2] 5 by auto
    qed
  qed (use assms in \<open>auto simp: apply_tunnel_draft_def apply_command_draft_def remove_command_def
      Let_def result_simps split: sum.splits if_splits\<close>)
qed

lemma history_keeps_hashes:
  "h \<in> set (ps_imported_source_hashes (rp_state r)) \<Longrightarrow>
     h \<in> set (ps_imported_source_hashes (rp_state (run_history ops r)))"
proof (rule history_invariant[where I = "\<lambda>r. h \<in> set (ps_imported_source_hashes (rp_state r))"])
  fix e op and r :: repo
  assume h: "h \<in> set (ps_imported_source_hashes (rp_state r))"
  obtain okay r' where run: "run_op e op r = (okay, r')" by fastforce
  from run_op_follows_plan[OF run] h plan_keeps_hashes[of e op r] run
  show "h \<in> set (ps_imported_source_hashes (rp_state (snd (run_op e op r))))"
    by (auto simp: follows_plan_def split: option.splits prod.splits sum.splits)
qed

text \<open>
  A migration source is imported at most once: after a batch was imported, and after any
  further operations, importing a batch with the same source hash (in any letter case) changes
  nothing, and while no host is being deleted it reports a duplicate.
\<close>

theorem imports_happen_once:
  assumes "import_batch_op e b r = (Inr x, r1)" and "ibr_duplicate x = False"
    and "to_ascii_lowercase (ib_source_hash b') = to_ascii_lowercase (ib_source_hash b)"
    and "is_ok (validate_import_hash (ib_source_hash b'))"
  shows "snd (import_batch_op e' b' (run_history h r1)) = run_history h r1
    \<and> (rp_deleting (run_history h r1) = {} \<longrightarrow>
         fst (import_batch_op e' b' (run_history h r1)) = Inr duplicate_result)"
proof -
  have "commit_result e (prepare_batch e b (rp_state r)) r = (Inr x, r1)"
    using assms(1,2) by (auto simp: import_batch_op_def duplicate_result_def split: sum.splits if_splits)
  then obtain s where "prepare_batch e b (rp_state r) = Inr (x, s)" "rp_state r1 = s"
    by (auto simp: commit_result_def commit_def split: sum.splits prod.splits)
  then have "to_ascii_lowercase (ib_source_hash b) \<in> set (ps_imported_source_hashes (rp_state r1))"
    using prepare_batch_hash by simp
  then have "to_ascii_lowercase (ib_source_hash b')
      \<in> set (ps_imported_source_hashes (rp_state (run_history h r1)))"
    using history_keeps_hashes assms(3) by simp
  then have "already_imported (to_ascii_lowercase (ib_source_hash b')) (rp_state (run_history h r1))"
    unfolding already_imported_def list_ex_iff
    by (intro bexI[where x = "to_ascii_lowercase (ib_source_hash b')"]) simp_all
  with assms(4) show ?thesis
    by (auto simp: import_batch_op_def is_ok_iff split: sum.splits)
qed

definition sample_hash :: string where
  "sample_hash = replicate 64 CHR ''A''"

definition sample_batch :: import_batch where
  "sample_batch =
     \<lparr>ib_source_hash = sample_hash, ib_hosts = [\<lparr>ibh_source_id = ''old'', ibh_draft = new_host\<rparr>],
      ib_tunnels = [], ib_commands = [], ib_settings = None\<rparr>"

definition imported_state :: persisted_state where
  "imported_state = sample_state\<lparr>ps_hosts := sample_hosts @ [sample_saved],
     ps_imported_source_hashes := [replicate 64 CHR ''a'']\<rparr>"

definition import_codec :: serde where
  "import_codec = table_codec [imported_state, sample_state]"

lemma imports_happen_once_witness:
  "case import_batch_op (sample_env import_codec False NoFault) sample_batch sample_repo of (res, r1) \<Rightarrow>
     is_ok res \<and> import_batch_op (sample_env import_codec False NoFault) sample_batch r1 = (Inr duplicate_result, r1)"
proof -
  let ?e = "sample_env import_codec False NoFault"
  have ok: "is_ok (fst (import_batch_op ?e sample_batch sample_repo))"
    and new: "fst (import_batch_op ?e sample_batch sample_repo) \<noteq> Inr duplicate_result"
    and "rp_deleting (snd (import_batch_op ?e sample_batch sample_repo)) = {}"
    and fresh: "fst (import_batch_op ?e sample_batch sample_repo)
      = Inr \<lparr>ibr_duplicate = False, ibr_imported_hosts = 1, ibr_imported_tunnels = 0,
         ibr_imported_commands = 0, ibr_settings_imported = False\<rparr>"
    by code_simp+
  moreover obtain res r1 where "import_batch_op ?e sample_batch sample_repo = (res, r1)" by fastforce
  moreover have "is_ok (validate_import_hash (ib_source_hash sample_batch))" by code_simp
  ultimately show ?thesis
    using imports_happen_once[of ?e sample_batch sample_repo _ r1 sample_batch ?e "[]"]
    by (auto simp: prod_eq_iff)
qed

section \<open>Renaming\<close>

definition alias_is_id :: persisted_state where
  "alias_is_id = default_persisted_state\<lparr>ps_hosts :=
     [sample_host ''a'' ''gate'' None, sample_host ''b'' ''node'' (Some ''a''), sample_host ''c'' ''a'' None]\<rparr>"

definition rename_draft :: host_draft where
  "rename_draft = new_host\<lparr>hd_id := Some ''c'', hd_alias := ''other'', hd_proxy_jump := None\<rparr>"

text \<open>
  References are stored as identifiers, but renaming a host redirects every reference that
  equals its old alias; an alias may spell another host's identifier, and then renaming its owner
  moves a third host from its jump host onto the renamed one.
\<close>

theorem rename_redirects_foreign_reference:
  "validate_persisted_state alias_is_id = Inr () \<and> proxy_wf (ps_hosts alias_is_id)
    \<and> (case apply_host_update 1 ''new'' rename_draft alias_is_id of
         Inl _ \<Rightarrow> False
       | Inr (_, s') \<Rightarrow>
           map_option hp_proxy_jump (find (\<lambda>h. hp_id h = ''b'') (ps_hosts alias_is_id)) = Some (Some ''a'')
           \<and> map_option hp_proxy_jump (find (\<lambda>h. hp_id h = ''b'') (ps_hosts s')) = Some (Some ''c''))"
  by code_simp

end
