(* ===== verification/Risk.thy ===== *)
theory Risk
  imports Model
begin

text \<open>
  \<^verbatim>\<open>crates/remotedeck-core/src/risk.rs\<close>: the command-risk policy.  Definitions follow the file's
  order from the leaves up; \<open>analyze_command\<close> is the entry point.
\<close>

definition MAX_COMMAND_BYTES :: nat where
  "MAX_COMMAND_BYTES = 32 * 1024"

definition MAX_CONFIRMATION_CHARS :: nat where
  "MAX_CONFIRMATION_CHARS = 256"

section \<open>Types\<close>

datatype risk_level = L0 | L1 | L2

fun risk_rank :: "risk_level \<Rightarrow> nat" where
  "risk_rank L0 = 0"
| "risk_rank L1 = 1"
| "risk_rank L2 = 2"

lemma risk_rank_inject: "risk_rank a = risk_rank b \<Longrightarrow> a = b"
  by (cases a; cases b) simp_all

text \<open>The derived \<^verbatim>\<open>Ord\<close> of the Rust enum.\<close>

instantiation risk_level :: linorder
begin

definition less_eq_risk_level :: "risk_level \<Rightarrow> risk_level \<Rightarrow> bool" where
  "less_eq_risk_level a b \<longleftrightarrow> risk_rank a \<le> risk_rank b"

definition less_risk_level :: "risk_level \<Rightarrow> risk_level \<Rightarrow> bool" where
  "less_risk_level a b \<longleftrightarrow> risk_rank a < risk_rank b"

instance
  by standard (auto simp: less_eq_risk_level_def less_risk_level_def dest: risk_rank_inject)

end

lemma risk_level_order [simp]: "L0 \<le> r" "r \<le> L2" "L2 \<le> r \<longleftrightarrow> r = L2" "r \<le> L0 \<longleftrightarrow> r = L0"
  "L1 \<le> L2" "\<not> L1 \<le> L0" "r < L1 \<longleftrightarrow> r = L0" "L1 \<le> r \<longleftrightarrow> r \<noteq> L0" "L0 < r \<longleftrightarrow> r \<noteq> L0"
  by (cases r; simp add: less_eq_risk_level_def less_risk_level_def)+

lemma risk_level_max [simp]: "max L0 r = r" "max r L0 = r" "max L2 r = L2" "max r L2 = L2"
  by (cases r; simp add: max_def less_eq_risk_level_def)+

datatype confirmation_requirement = NoConfirmation | Acknowledge | TypeExact string

definition is_satisfied :: "confirmation_requirement \<Rightarrow> bool \<Rightarrow> string option \<Rightarrow> bool" where
  "is_satisfied c acknowledged typed =
     (case c of
        NoConfirmation \<Rightarrow> True
      | Acknowledge \<Rightarrow> acknowledged
      | TypeExact v \<Rightarrow> acknowledged \<and> typed = Some v)"

record risk_analysis =
  ra_declared_risk :: risk_level
  ra_detected_risk :: risk_level
  ra_effective_risk :: risk_level
  ra_reasons :: "string list"
  ra_confirmation :: confirmation_requirement

datatype risk_error = InvalidCommand | InvalidConfirmationText | MissingL2ConfirmationText

fun risk_error_display :: "risk_error \<Rightarrow> string" where
  "risk_error_display InvalidCommand = ''command is empty, oversized, or contains NUL''"
| "risk_error_display InvalidConfirmationText =
     ''confirmation text is oversized or contains control characters''"
| "risk_error_display MissingL2ConfirmationText =
     ''L2 commands require non-empty exact confirmation text''"

section \<open>Words and command names\<close>

text \<open>The characters \<^verbatim>\<open>shell_words\<close> strips from both ends of a word.\<close>

definition is_shell_quote :: "char \<Rightarrow> bool" where
  "is_shell_quote c \<longleftrightarrow> byte c \<in> {39, 34, 40, 41, 123, 125, 44}"

definition shell_words :: "string \<Rightarrow> string list" where
  "shell_words value =
     filter (\<lambda>word. word \<noteq> [])
       (map (\<lambda>word. to_ascii_lowercase (trim_matches is_shell_quote word)) (split_whitespace value))"

definition is_word_byte :: "char \<Rightarrow> bool" where
  "is_word_byte value \<longleftrightarrow> is_ascii_alphanumeric value \<or> value \<in> set ''_-.''"

definition boundary_before :: "char option \<Rightarrow> bool" where
  "boundary_before b = (case b of None \<Rightarrow> True | Some v \<Rightarrow> \<not> is_word_byte v \<or> v = CHR ''/'')"

definition boundary_after :: "char option \<Rightarrow> bool" where
  "boundary_after b = (case b of None \<Rightarrow> True | Some v \<Rightarrow> \<not> is_word_byte v)"

definition byte_at :: "string \<Rightarrow> nat \<Rightarrow> char option" where
  "byte_at bs i = (if i < length bs then Some (bs ! i) else None)"

text \<open>
  The scan of \<^verbatim>\<open>contains_command\<close> over the start positions: \<open>prev\<close> is the byte at
  \<^verbatim>\<open>index - 1\<close>, \<open>bs\<close> the bytes from \<^verbatim>\<open>index\<close> on; it stops where the needle no longer fits.
\<close>

fun command_scan :: "char option \<Rightarrow> string \<Rightarrow> string \<Rightarrow> bool" where
  "command_scan prev bs needle =
     (if length bs < length needle then False
      else if take (length needle) bs = needle \<and> boundary_before prev
              \<and> boundary_after (byte_at bs (length needle))
      then True
      else (case bs of [] \<Rightarrow> False | b # rest \<Rightarrow> command_scan (Some b) rest needle))"

declare command_scan.simps [simp del]

definition contains_command :: "string \<Rightarrow> string \<Rightarrow> bool" where
  "contains_command command program =
     (if program = [] \<or> length command < length program then False
      else command_scan None command program)"

lemma command_scan_short: "length bs < length needle \<Longrightarrow> \<not> command_scan prev bs needle"
  by (simp add: command_scan.simps)

text \<open>Equivalent equations that walk the bytes once per position, for evaluation.\<close>

lemma command_scan_code [code]:
  "command_scan prev bs needle =
     (case strip_prefix needle bs of
        None \<Rightarrow> (case bs of [] \<Rightarrow> False | b # rest \<Rightarrow> command_scan (Some b) rest needle)
      | Some post \<Rightarrow>
          if boundary_before prev \<and> boundary_after (case post of [] \<Rightarrow> None | c # _ \<Rightarrow> Some c) then True
          else (case bs of [] \<Rightarrow> False | b # rest \<Rightarrow> command_scan (Some b) rest needle))"
proof (cases "strip_prefix needle bs")
  case None
  then have ne: "take (length needle) bs \<noteq> needle" by (simp add: strip_prefix_None)
  show ?thesis
  proof (cases "length bs < length needle")
    case True
    with None show ?thesis
      by (cases bs) (auto simp: command_scan_short)
  next
    case False
    with None ne show ?thesis by (subst command_scan.simps) (auto split: list.splits)
  qed
next
  case (Some post)
  then have bs: "bs = needle @ post" by (simp add: strip_prefix_iff)
  have "byte_at bs (length needle) = (case post of [] \<Rightarrow> None | c # _ \<Rightarrow> Some c)"
    unfolding bs by (cases post) (simp_all add: byte_at_def nth_append)
  moreover have "take (length needle) bs = needle" and "\<not> length bs < length needle"
    using bs by simp_all
  ultimately show ?thesis using Some by (subst command_scan.simps) (auto split: list.splits)
qed

lemma contains_command_code [code]:
  "contains_command command program = (if program = [] then False else command_scan None command program)"
  by (simp add: contains_command_def command_scan_short)

definition contains_any_command :: "string \<Rightarrow> string list \<Rightarrow> bool" where
  "contains_any_command command programs = list_ex (contains_command command) programs"

text \<open>\<^verbatim>\<open>value.rsplit('/').next()\<close>: what follows the last slash.\<close>

definition executable_basename :: "string \<Rightarrow> string" where
  "executable_basename value = last (split_on (\<lambda>c. c = CHR ''/'') value)"

definition contains_program_prefix :: "string \<Rightarrow> string \<Rightarrow> bool" where
  "contains_program_prefix command pre =
     list_ex (\<lambda>program. starts_with program pre) (map executable_basename (shell_words command))"

definition is_dash :: "char \<Rightarrow> bool" where
  "is_dash c \<longleftrightarrow> c = CHR ''-''"

definition contains_any_word :: "string \<Rightarrow> string list \<Rightarrow> bool" where
  "contains_any_word command words =
     (let tokens = shell_words command
      in list_ex (\<lambda>expected. list_ex (\<lambda>token.
           token = expected \<or> trim_matches is_dash token = trim_matches is_dash expected) tokens) words)"

section \<open>Findings\<close>

definition contains_redirection :: "string \<Rightarrow> bool" where
  "contains_redirection command \<longleftrightarrow> CHR ''>'' \<in> set command"

definition is_in_place_flag :: "string \<Rightarrow> bool" where
  "is_in_place_flag word \<longleftrightarrow> word = ''-i'' \<or> starts_with word ''-i''"

definition contains_sed_in_place :: "string \<Rightarrow> bool" where
  "contains_sed_in_place command \<longleftrightarrow>
     contains_command command ''sed'' \<and> list_ex is_in_place_flag (shell_words command)"

definition contains_service_mutation :: "string \<Rightarrow> bool" where
  "contains_service_mutation command \<longleftrightarrow>
     (contains_command command ''systemctl'' \<or> contains_command command ''service'')
     \<and> contains_any_word command [''start'', ''stop'', ''restart'', ''reload'', ''enable'', ''disable'']"

definition contains_systemctl_reboot :: "string \<Rightarrow> bool" where
  "contains_systemctl_reboot command \<longleftrightarrow>
     contains_command command ''systemctl''
     \<and> contains_any_word command [''reboot'', ''poweroff'', ''halt'']"

definition contains_systemctl_kill :: "string \<Rightarrow> bool" where
  "contains_systemctl_kill command \<longleftrightarrow>
     contains_command command ''systemctl'' \<and> contains_any_word command [''kill'']"

definition package_managers :: "string list" where
  "package_managers = [''apt'', ''apt-get'', ''dnf'', ''yum'', ''pacman'', ''zypper'', ''snap'',
     ''npm'', ''pnpm'', ''pip'', ''pip3'']"

definition contains_package_mutation :: "string \<Rightarrow> bool" where
  "contains_package_mutation command \<longleftrightarrow>
     contains_any_command command package_managers
     \<and> contains_any_word command [''install'', ''upgrade'', ''update'', ''add'']"

definition contains_package_removal :: "string \<Rightarrow> bool" where
  "contains_package_removal command \<longleftrightarrow>
     contains_any_command command package_managers
     \<and> contains_any_word command [''remove'', ''uninstall'', ''purge'']"

definition contains_mutating_git :: "string \<Rightarrow> bool" where
  "contains_mutating_git command \<longleftrightarrow>
     contains_command command ''git''
     \<and> contains_any_word command [''add'', ''commit'', ''checkout'', ''switch'', ''merge'',
          ''rebase'', ''pull'', ''push'', ''restore'', ''tag'']"

definition contains_destructive_git :: "string \<Rightarrow> bool" where
  "contains_destructive_git command =
     (if \<not> contains_command command ''git'' then False
      else let words = shell_words command
        in (''reset'' \<in> set words \<and> ''--hard'' \<in> set words)
           \<or> (''clean'' \<in> set words
              \<and> list_ex (\<lambda>word. starts_with word ''-'' \<and> CHR ''f'' \<in> set word) words)
           \<or> (''push'' \<in> set words
              \<and> list_ex (\<lambda>word. word = ''--force'' \<or> word = ''--force-with-lease'' \<or> word = ''-f'') words))"

definition contains_dd_device_copy :: "string \<Rightarrow> bool" where
  "contains_dd_device_copy command \<longleftrightarrow>
     contains_command command ''dd'' \<and> (str_contains command ''if='' \<or> str_contains command ''of='')"

definition contains_find_delete :: "string \<Rightarrow> bool" where
  "contains_find_delete command \<longleftrightarrow>
     contains_command command ''find'' \<and> contains_any_word command [''-delete'']"

definition contains_remote_script_pipe :: "string \<Rightarrow> bool" where
  "contains_remote_script_pipe command \<longleftrightarrow>
     (contains_command command ''curl'' \<or> contains_command command ''wget'')
     \<and> CHR ''|'' \<in> set command
     \<and> contains_any_command command [''sh'', ''bash'', ''zsh'']"

text \<open>A backquote, whose character literal needs its code.\<close>

definition backquote :: char where
  "backquote = CHR 0x60"

definition level_one_findings :: "string \<Rightarrow> (bool \<times> string) list" where
  "level_one_findings command =
     [(contains_any_command command [''cp'', ''mv'', ''mkdir'', ''touch'', ''chmod'', ''chown''],
       ''May modify files or permissions''),
      (contains_service_mutation command, ''Changes service state''),
      (contains_package_mutation command, ''Changes installed software''),
      (contains_mutating_git command, ''Changes Git state''),
      (contains_redirection command, ''Contains output redirection''),
      (contains_any_command command [''tee'', ''truncate''] \<or> contains_sed_in_place command,
       ''Uses a file-writing utility''),
      (str_contains command ''$('' \<or> backquote \<in> set command, ''Contains command substitution'')]"

definition level_two_findings :: "string \<Rightarrow> (bool \<times> string) list" where
  "level_two_findings command =
     [(contains_command command ''sudo'' \<or> contains_command command ''su'',
       ''Requests privilege elevation''),
      (contains_any_command command [''reboot'', ''shutdown'', ''poweroff'', ''halt'']
         \<or> contains_systemctl_reboot command,
       ''Can shut down or reboot the host''),
      (contains_any_command command [''rm'', ''rmdir'', ''unlink''] \<or> contains_find_delete command,
       ''Deletes filesystem entries''),
      (contains_any_command command [''kill'', ''pkill'', ''killall''] \<or> contains_systemctl_kill command,
       ''Signals or terminates processes''),
      (contains_any_command command [''mkfs'', ''fdisk'', ''parted'', ''wipefs'']
         \<or> contains_program_prefix command ''mkfs.'' \<or> contains_dd_device_copy command,
       ''Can modify disks or filesystems''),
      (contains_destructive_git command, ''Contains a destructive Git operation''),
      (contains_remote_script_pipe command, ''Downloads and executes a remote script''),
      (contains_package_removal command, ''Removes installed software'')]"

section \<open>The read-only allowlist\<close>

definition split_shell_segments :: "string \<Rightarrow> string list" where
  "split_shell_segments command =
     filter (\<lambda>segment. segment \<noteq> [])
       (map trim (split_on (\<lambda>c. c = CHR 0x0A \<or> c \<in> set '';|&'') command))"

text \<open>\<open>index\<close> is 0 for the first character, which may not be a digit.\<close>

definition is_environment_assignment :: "string \<Rightarrow> bool" where
  "is_environment_assignment value =
     (case split_once (CHR ''='') value of
        None \<Rightarrow> False
      | Some (name, _) \<Rightarrow>
          name \<noteq> [] \<and> list_all (\<lambda>(index, character).
            character = CHR ''_''
            \<or> is_ascii_alphanumeric character \<and> (index > 0 \<or> is_ascii_alphabetic character))
          (enumerate 0 name))"

definition is_shell_prefix :: "string \<Rightarrow> bool" where
  "is_shell_prefix word \<longleftrightarrow> word \<in> {''command'', ''exec'', ''if'', ''then''}"

definition READ_ONLY :: "string list" where
  "READ_ONLY = [''awk'', ''btop'', ''cat'', ''cut'', ''date'', ''df'', ''du'', ''echo'', ''env'',
     ''find'', ''free'', ''git'', ''grep'', ''head'', ''hostname'', ''id'', ''ip'', ''journalctl'',
     ''ls'', ''lscpu'', ''lsblk'', ''nvidia-smi'', ''printf'', ''ps'', ''pwd'', ''sed'', ''squeue'',
     ''ss'', ''stat'', ''tail'', ''top'', ''uname'', ''uptime'', ''vmstat'', ''wc'', ''who'', ''whoami'']"

definition git_read_only :: "string list" where
  "git_read_only = [''status'', ''branch'', ''log'', ''diff'', ''show'', ''rev-parse'']"

text \<open>
  The two \<^verbatim>\<open>while\<close> loops that advance \<^verbatim>\<open>index\<close> skip a prefix of the words; the rest of the
  function sees \<^verbatim>\<open>words[index..]\<close> as \<open>here\<close>, and the whole of \<^verbatim>\<open>words\<close>.
\<close>

definition is_read_only_segment :: "string \<Rightarrow> bool" where
  "is_read_only_segment segment =
     (if CHR ''>'' \<in> set segment \<or> str_contains segment ''$('' \<or> backquote \<in> set segment then False
      else let words = shell_words segment
        in if words = [] then False
        else let here = dropWhile is_shell_prefix (dropWhile is_environment_assignment words)
        in (case here of
             [] \<Rightarrow> False
           | word # rest \<Rightarrow>
               let program = executable_basename word
               in if program \<notin> set READ_ONLY then False
                  else if program = ''git'' then
                    (case rest of [] \<Rightarrow> False | subcommand # _ \<Rightarrow> subcommand \<in> set git_read_only)
                  else if program = ''find'' \<and> ''-delete'' \<in> set words then False
                  else if program = ''sed'' \<and> list_ex is_in_place_flag words then False
                  else True))"

definition is_read_only_command :: "string \<Rightarrow> bool" where
  "is_read_only_command command =
     (let segments = split_shell_segments command
      in segments \<noteq> [] \<and> list_all is_read_only_segment segments)"

section \<open>Analysis\<close>

definition validate_command :: "string \<Rightarrow> risk_error + unit" where
  "validate_command command =
     (if trim command = [] \<or> length command > MAX_COMMAND_BYTES \<or> CHR 0x00 \<in> set command
      then Inl InvalidCommand else Inr ())"

definition validate_confirmation_text :: "string \<Rightarrow> risk_error + unit" where
  "validate_confirmation_text value =
     (if length (chars value) > MAX_CONFIRMATION_CHARS \<or> any_control value
      then Inl InvalidConfirmationText else Inr ())"

definition push_reason :: "string \<Rightarrow> string list \<Rightarrow> string list" where
  "push_reason reason reasons = (if reason \<in> set reasons then reasons else reasons @ [reason])"

fun risk_debug :: "risk_level \<Rightarrow> string" where
  "risk_debug L0 = ''L0''"
| "risk_debug L1 = ''L1''"
| "risk_debug L2 = ''L2''"

text \<open>One iteration of either findings loop: \<open>bump\<close> is what the loop does to the risk.\<close>

definition apply_finding ::
    "(risk_level \<Rightarrow> risk_level) \<Rightarrow> bool \<times> string \<Rightarrow> risk_level \<times> string list \<Rightarrow> risk_level \<times> string list" where
  "apply_finding bump finding s =
     (if fst finding then (bump (fst s), push_reason (snd finding) (snd s)) else s)"

definition detect_risk :: "string \<Rightarrow> risk_level \<times> string list" where
  "detect_risk command =
     (let lower = to_ascii_lowercase command;
          s = (if is_read_only_command command then (L0, [])
               else (L1, push_reason ''Command is not wholly covered by the read-only allowlist'' []));
          s = fold (apply_finding (\<lambda>r. max r L1)) (level_one_findings lower) s
      in fold (apply_finding (\<lambda>_. L2)) (level_two_findings lower) s)"

definition confirmation_for :: "risk_level \<Rightarrow> string option \<Rightarrow> risk_error + confirmation_requirement" where
  "confirmation_for effective l2_confirmation_text =
     (case effective of
        L0 \<Rightarrow> Inr NoConfirmation
      | L1 \<Rightarrow> Inr Acknowledge
      | L2 \<Rightarrow>
          rbind (ok_or MissingL2ConfirmationText
                   (case map_option trim l2_confirmation_text of
                      None \<Rightarrow> None
                    | Some value \<Rightarrow> if value = [] then None else Some value))
            (\<lambda>value. rbind (validate_confirmation_text value) (\<lambda>_. Inr (TypeExact value))))"

definition analyze_command :: "string \<Rightarrow> risk_level \<Rightarrow> string option \<Rightarrow> risk_error + risk_analysis" where
  "analyze_command command declared_risk l2_confirmation_text =
     rbind (validate_command command) (\<lambda>_.
       let (detected_risk, reasons) = detect_risk command;
           reasons = (if declared_risk > detected_risk
             then push_reason (''Preset declares risk '' @ risk_debug declared_risk) reasons
             else reasons);
           effective_risk = max declared_risk detected_risk
       in rbind (confirmation_for effective_risk l2_confirmation_text) (\<lambda>confirmation.
            Inr \<lparr>ra_declared_risk = declared_risk,
                 ra_detected_risk = detected_risk,
                 ra_effective_risk = effective_risk,
                 ra_reasons = reasons,
                 ra_confirmation = confirmation\<rparr>))"

section \<open>Built-in presets\<close>

record builtin_preset =
  bp_id :: string
  bp_name :: string
  bp_group :: string
  bp_command :: string
  bp_declared_risk :: risk_level
  bp_requires_pty :: bool
  bp_requires_sudo :: bool
  bp_dependency :: "string option"

definition BUILTIN_PRESETS :: "builtin_preset list" where
  "BUILTIN_PRESETS =
    [\<lparr>bp_id = ''system-overview'', bp_name = ''System overview'', bp_group = ''System'',
      bp_command = ''uname -a; hostname; whoami; uptime; lscpu | head -n 20'',
      bp_declared_risk = L0, bp_requires_pty = False, bp_requires_sudo = False,
      bp_dependency = None\<rparr>,
     \<lparr>bp_id = ''gpu-status'', bp_name = ''GPU status'', bp_group = ''Resources'',
      bp_command = ''nvidia-smi'',
      bp_declared_risk = L0, bp_requires_pty = False, bp_requires_sudo = False,
      bp_dependency = Some ''nvidia-smi''\<rparr>,
     \<lparr>bp_id = ''cpu-memory-processes'', bp_name = ''CPU and memory processes'', bp_group = ''Resources'',
      bp_command = ''ps -eo pid,ppid,user,pcpu,pmem,state,etime,args --sort=-pcpu | head -n 31'',
      bp_declared_risk = L0, bp_requires_pty = False, bp_requires_sudo = False,
      bp_dependency = None\<rparr>,
     \<lparr>bp_id = ''disk-and-inodes'', bp_name = ''Disk and inode usage'', bp_group = ''Resources'',
      bp_command = ''df -hT; printf '' @ [CHR 0x27, CHR 0x5C, CHR ''n'', CHR 0x27] @ ''; df -ih'',
      bp_declared_risk = L0, bp_requires_pty = False, bp_requires_sudo = False,
      bp_dependency = None\<rparr>,
     \<lparr>bp_id = ''current-user-processes'', bp_name = ''Current-user processes'', bp_group = ''System'',
      bp_command = ''ps -u '' @ [CHR 0x22] @ ''$USER'' @ [CHR 0x22] @ '' -o pid,ppid,pcpu,pmem,state,etime,args --sort=-pcpu'',
      bp_declared_risk = L0, bp_requires_pty = False, bp_requires_sudo = False,
      bp_dependency = None\<rparr>,
     \<lparr>bp_id = ''listeners'', bp_name = ''Listening sockets'', bp_group = ''Network'',
      bp_command = ''ss -lntup'',
      bp_declared_risk = L0, bp_requires_pty = False, bp_requires_sudo = False,
      bp_dependency = Some ''ss''\<rparr>,
     \<lparr>bp_id = ''git-status'', bp_name = ''Git status'', bp_group = ''Development'',
      bp_command = ''git status --short --branch'',
      bp_declared_risk = L0, bp_requires_pty = False, bp_requires_sudo = False,
      bp_dependency = Some ''git''\<rparr>,
     \<lparr>bp_id = ''slurm-queue'', bp_name = ''Slurm queue'', bp_group = ''Scheduler'',
      bp_command = ''squeue -u '' @ [CHR 0x22] @ ''$USER'' @ [CHR 0x22],
      bp_declared_risk = L0, bp_requires_pty = False, bp_requires_sudo = False,
      bp_dependency = Some ''squeue''\<rparr>,
     \<lparr>bp_id = ''btop'', bp_name = ''btop'', bp_group = ''Resources'',
      bp_command = ''exec btop'',
      bp_declared_risk = L0, bp_requires_pty = True, bp_requires_sudo = False,
      bp_dependency = Some ''btop''\<rparr>,
     \<lparr>bp_id = ''reboot-workstation'', bp_name = ''Reboot workstation'', bp_group = ''High risk'',
      bp_command = ''systemctl reboot'',
      bp_declared_risk = L2, bp_requires_pty = True, bp_requires_sudo = True,
      bp_dependency = Some ''systemctl''\<rparr>]"

definition find_builtin_preset :: "string \<Rightarrow> builtin_preset option" where
  "find_builtin_preset preset_id = find (\<lambda>preset. bp_id preset = preset_id) BUILTIN_PRESETS"

section \<open>Lemmas\<close>

subsection \<open>The command scan finds exactly the occurrences between boundaries\<close>

definition occurs_as_command :: "string \<Rightarrow> string \<Rightarrow> char option \<Rightarrow> bool" where
  "occurs_as_command needle bs prev \<longleftrightarrow> (\<exists>pre post. bs = pre @ needle @ post
     \<and> boundary_before (if pre = [] then prev else Some (last pre))
     \<and> boundary_after (if post = [] then None else Some (hd post)))"

lemma byte_at_append: "byte_at (needle @ post) (length needle) = (if post = [] then None else Some (hd post))"
  by (cases post) (simp_all add: byte_at_def nth_append)

lemma occurs_here: "take (length needle) bs = needle \<Longrightarrow> boundary_before prev \<Longrightarrow>
    boundary_after (byte_at bs (length needle)) \<Longrightarrow> occurs_as_command needle bs prev"
  unfolding occurs_as_command_def
  by (rule exI[of _ "[]"], rule exI[of _ "drop (length needle) bs"])
    (metis append_Nil append_take_drop_id byte_at_append)

lemma occurs_later: "occurs_as_command needle rest (Some b) \<Longrightarrow> occurs_as_command needle (b # rest) prev"
proof -
  assume "occurs_as_command needle rest (Some b)"
  then obtain pre post where "rest = pre @ needle @ post"
    and "boundary_before (if pre = [] then Some b else Some (last pre))"
    and "boundary_after (if post = [] then None else Some (hd post))"
    by (auto simp: occurs_as_command_def)
  then show ?thesis unfolding occurs_as_command_def
    by (intro exI[of _ "b # pre"] exI[of _ post]) auto
qed

lemma occurs_Cons_cases:
  assumes "occurs_as_command needle (b # rest) prev"
  shows "(take (length needle) (b # rest) = needle \<and> boundary_before prev
      \<and> boundary_after (byte_at (b # rest) (length needle)))
    \<or> occurs_as_command needle rest (Some b)"
proof -
  obtain pre post where eq: "b # rest = pre @ needle @ post"
    and pre: "boundary_before (if pre = [] then prev else Some (last pre))"
    and post: "boundary_after (if post = [] then None else Some (hd post))"
    using assms by (auto simp: occurs_as_command_def)
  show ?thesis
  proof (cases pre)
    case Nil
    with eq pre post show ?thesis by (simp add: byte_at_append)
  next
    case (Cons x xs)
    with eq have "rest = xs @ needle @ post" and "x = b" by auto
    with Cons pre post show ?thesis
      unfolding occurs_as_command_def by (intro disjI2 exI[of _ xs] exI[of _ post]) auto
  qed
qed

lemma command_scan_iff:
  assumes "needle \<noteq> []"
  shows "command_scan prev bs needle \<longleftrightarrow> occurs_as_command needle bs prev"
proof (induction bs arbitrary: prev)
  case Nil
  with assms show ?case by (simp add: command_scan.simps occurs_as_command_def)
next
  case (Cons b rest)
  have short: "\<not> occurs_as_command needle (b # rest) prev" if "length (b # rest) < length needle"
    using that by (auto simp: occurs_as_command_def dest!: arg_cong[of _ _ length])
  have step: "command_scan prev (b # rest) needle \<longleftrightarrow> \<not> length (b # rest) < length needle
      \<and> (take (length needle) (b # rest) = needle \<and> boundary_before prev
         \<and> boundary_after (byte_at (b # rest) (length needle)) \<or> command_scan (Some b) rest needle)"
    by (subst command_scan.simps) auto
  show ?case
    unfolding step Cons.IH using short occurs_here occurs_later occurs_Cons_cases by blast
qed

lemma contains_command_iff:
  "program \<noteq> [] \<Longrightarrow> contains_command command program \<longleftrightarrow> occurs_as_command program command None"
  by (auto simp: contains_command_def command_scan_iff occurs_as_command_def
      dest!: arg_cong[of _ _ length])

subsection \<open>What the findings loops compute\<close>

lemma fold_findings_L2:
  "fst (fold (apply_finding (\<lambda>_. L2)) fs s) = (if list_ex fst fs then L2 else fst s)"
  by (induction fs arbitrary: s) (auto simp: apply_finding_def)

lemma fold_findings_L1:
  "fst (fold (apply_finding (\<lambda>r. max r L1)) fs s) = (if list_ex fst fs then max (fst s) L1 else fst s)"
  by (induction fs arbitrary: s) (auto simp: apply_finding_def max.assoc)

lemma distinct_push_reason: "distinct reasons \<Longrightarrow> distinct (push_reason r reasons)"
  by (simp add: push_reason_def)

lemma set_push_reason [simp]: "set (push_reason r reasons) = insert r (set reasons)"
  by (auto simp: push_reason_def)

lemma fold_findings_reasons:
  "set (snd (fold (apply_finding f) fs s)) = set (snd s) \<union> snd ` set (filter fst fs)"
  by (induction fs arbitrary: s) (auto simp: apply_finding_def)

lemma fold_findings_distinct:
  "distinct (snd s) \<Longrightarrow> distinct (snd (fold (apply_finding f) fs s))"
  by (induction fs arbitrary: s) (auto simp: apply_finding_def distinct_push_reason)

text \<open>The detected risk as a table of the three questions the code asks.\<close>

definition spec_detected_risk :: "string \<Rightarrow> risk_level" where
  "spec_detected_risk command =
     (if list_ex fst (level_two_findings (to_ascii_lowercase command)) then L2
      else if is_read_only_command command
              \<and> \<not> list_ex fst (level_one_findings (to_ascii_lowercase command)) then L0
      else L1)"

lemma detect_risk_spec: "fst (detect_risk command) = spec_detected_risk command"
  by (simp add: detect_risk_def spec_detected_risk_def Let_def fold_findings_L2 fold_findings_L1)

lemma detect_risk_reasons:
  "set (snd (detect_risk command)) =
     (if is_read_only_command command then {}
      else {''Command is not wholly covered by the read-only allowlist''})
     \<union> snd ` set (filter fst (level_one_findings (to_ascii_lowercase command)))
     \<union> snd ` set (filter fst (level_two_findings (to_ascii_lowercase command)))"
  by (simp add: detect_risk_def Let_def fold_findings_reasons push_reason_def)

lemma detect_risk_distinct: "distinct (snd (detect_risk command))"
  by (simp add: detect_risk_def Let_def fold_findings_distinct push_reason_def)

lemma confirmation_for_cases:
  "confirmation_for r t = Inr c \<Longrightarrow>
     (case r of
         L0 \<Rightarrow> c = NoConfirmation
       | L1 \<Rightarrow> c = Acknowledge
       | L2 \<Rightarrow> (\<exists>v. c = TypeExact v \<and> Some v = map_option trim t \<and> v \<noteq> []
                   \<and> length (chars v) \<le> MAX_CONFIRMATION_CHARS \<and> \<not> any_control v))"
  by (cases r; cases t)
    (auto simp: confirmation_for_def validate_confirmation_text_def result_simps split: if_splits)

lemma confirmation_for_L2_trim:
  assumes "confirmation_for L2 t = Inr c"
  obtains v where "c = TypeExact v" "v \<noteq> []" "trim v = v" "length (chars v) \<le> MAX_CONFIRMATION_CHARS"
    "\<not> any_control v"
  using assms
  by (auto simp: confirmation_for_def validate_confirmation_text_def result_simps
      split: option.splits if_splits)

lemma analyze_command_Inr:
  assumes "analyze_command command declared t = Inr a"
  shows "ra_declared_risk a = declared" "ra_detected_risk a = fst (detect_risk command)"
    "ra_effective_risk a = max declared (fst (detect_risk command))"
    "confirmation_for (ra_effective_risk a) t = Inr (ra_confirmation a)"
    "set (snd (detect_risk command)) \<subseteq> set (ra_reasons a)" "distinct (ra_reasons a)"
  using assms detect_risk_distinct[of command]
  by (auto simp: analyze_command_def Let_def case_prod_beta result_simps distinct_push_reason)

subsection \<open>Commands that must be typed out\<close>

definition always_level_two :: "string list" where
  "always_level_two = [''sudo'', ''su'', ''reboot'', ''shutdown'', ''poweroff'', ''halt'', ''rm'', ''rmdir'',
     ''unlink'', ''kill'', ''pkill'', ''killall'', ''mkfs'', ''fdisk'', ''parted'', ''wipefs'']"

lemma level_two_of_word:
  assumes "w \<in> set always_level_two" and "contains_command lower w"
  shows "list_ex fst (level_two_findings lower)"
  using assms
  by (auto simp: always_level_two_def level_two_findings_def contains_any_command_def)

lemma byte_ascii_lower: "byte (ascii_lower c) = (if is_ascii_upper c then byte c + 32 else byte c)"
  by (auto simp: ascii_lower_def is_ascii_upper_def byte_def of_char_of)

lemma is_word_byte_lower [simp]: "is_word_byte (ascii_lower c) = is_word_byte c"
proof (cases "is_ascii_upper c")
  case True
  then have "is_ascii_lower (ascii_lower c)"
    by (auto simp: is_ascii_lower_def byte_ascii_lower is_ascii_upper_def)
  with True show ?thesis
    by (simp add: is_word_byte_def is_ascii_alphanumeric_def is_ascii_alphabetic_def)
qed (simp add: ascii_lower_def)

lemma slash_lower [simp]: "ascii_lower c = CHR ''/'' \<longleftrightarrow> c = CHR ''/''"
proof (cases "is_ascii_upper c")
  case True
  then have "byte (ascii_lower c) \<noteq> 47" and "byte c \<noteq> 47"
    by (auto simp: byte_ascii_lower is_ascii_upper_def)
  then show ?thesis by (auto simp: byte_def)
qed (simp add: ascii_lower_def)

lemma boundary_lower [simp]:
  "boundary_before (map_option ascii_lower b) = boundary_before b"
  "boundary_after (map_option ascii_lower b) = boundary_after b"
  by (auto simp: boundary_before_def boundary_after_def split: option.splits)

lemma occurs_as_command_lower:
  assumes "command = pre @ w @ post" and "to_ascii_lowercase w = w'"
    and "boundary_before (if pre = [] then None else Some (last pre))"
    and "boundary_after (if post = [] then None else Some (hd post))"
  shows "occurs_as_command w' (to_ascii_lowercase command) None"
  unfolding occurs_as_command_def
proof (intro exI conjI)
  show "to_ascii_lowercase command = to_ascii_lowercase pre @ w' @ to_ascii_lowercase post"
    using assms(1,2) by simp
  show "boundary_before (if to_ascii_lowercase pre = [] then None
      else Some (last (to_ascii_lowercase pre)))"
    using assms(3) boundary_lower(1)[of "Some (last pre)"]
    by (auto simp: to_ascii_lowercase_def last_map boundary_before_def)
  show "boundary_after (if to_ascii_lowercase post = [] then None
      else Some (hd (to_ascii_lowercase post)))"
    using assms(4) boundary_lower(2)[of "Some (hd post)"]
    by (auto simp: to_ascii_lowercase_def hd_map boundary_after_def)
qed

section \<open>Properties\<close>

text \<open>
  Whenever the analysis succeeds, the effective risk is the larger of the declared risk and
  the risk the policy table gives the command, the reasons hold the reason of every finding that
  matched, without repetition, and the confirmation is none exactly for L0, an acknowledgement
  exactly for L1, and for L2 the exact text given, trimmed, non-empty and free of control
  characters.
\<close>
theorem analysis_meets_policy:
  assumes "analyze_command command declared t = Inr a"
  shows "ra_effective_risk a = max declared (spec_detected_risk command)
    \<and> snd ` set (filter fst (level_one_findings (to_ascii_lowercase command)
                  @ level_two_findings (to_ascii_lowercase command))) \<subseteq> set (ra_reasons a)
    \<and> distinct (ra_reasons a)
    \<and> (case ra_effective_risk a of
         L0 \<Rightarrow> ra_confirmation a = NoConfirmation
       | L1 \<Rightarrow> ra_confirmation a = Acknowledge
       | L2 \<Rightarrow> (\<exists>v. ra_confirmation a = TypeExact v \<and> Some v = map_option trim t \<and> v \<noteq> []
                   \<and> length (chars v) \<le> MAX_CONFIRMATION_CHARS \<and> \<not> any_control v))"
proof (intro conjI)
  note run = analyze_command_Inr[OF assms]
  show "ra_effective_risk a = max declared (spec_detected_risk command)"
    using run(3) by (simp add: detect_risk_spec)
  show "snd ` set (filter fst (level_one_findings (to_ascii_lowercase command)
                  @ level_two_findings (to_ascii_lowercase command))) \<subseteq> set (ra_reasons a)"
    using run(5) unfolding detect_risk_reasons by (simp only: filter_append set_append image_Un) blast
  show "distinct (ra_reasons a)" by (rule run(6))
  show "case ra_effective_risk a of
         L0 \<Rightarrow> ra_confirmation a = NoConfirmation
       | L1 \<Rightarrow> ra_confirmation a = Acknowledge
       | L2 \<Rightarrow> (\<exists>v. ra_confirmation a = TypeExact v \<and> Some v = map_option trim t \<and> v \<noteq> []
                   \<and> length (chars v) \<le> MAX_CONFIRMATION_CHARS \<and> \<not> any_control v)"
    using run(4) by (rule confirmation_for_cases)
qed

theorem analysis_meets_policy_witness:
  "\<exists>a. analyze_command ''rm -r /srv'' L1 (Some ''lab '') = Inr a \<and> ra_effective_risk a = L2
     \<and> ra_confirmation a = TypeExact ''lab''"
proof -
  have run: "analyze_command ''rm -r /srv'' L1 (Some ''lab '') = Inr
      \<lparr>ra_declared_risk = L1, ra_detected_risk = L2, ra_effective_risk = L2,
       ra_reasons = [''Command is not wholly covered by the read-only allowlist'',
         ''Deletes filesystem entries''], ra_confirmation = TypeExact ''lab''\<rparr>"
    by code_simp
  from analysis_meets_policy[OF run] have "distinct (ra_reasons \<lparr>ra_declared_risk = L1,
       ra_detected_risk = L2, ra_effective_risk = L2,
       ra_reasons = [''Command is not wholly covered by the read-only allowlist'',
         ''Deletes filesystem entries''], ra_confirmation = TypeExact ''lab''\<rparr>)" by blast
  with run show ?thesis by auto
qed

text \<open>
  A command in which one of the privileged, destructive or signalling programs stands between
  word boundaries, in any letter case and with anything around it, is never run below L2: if the
  analysis succeeds at all, it demands the exact confirmation text.
\<close>
theorem dangerous_word_demands_typed_text:
  assumes "command = pre @ w @ post" and "to_ascii_lowercase w \<in> set always_level_two"
    and "boundary_before (if pre = [] then None else Some (last pre))"
    and "boundary_after (if post = [] then None else Some (hd post))"
    and "analyze_command command declared t = Inr a"
  shows "ra_effective_risk a = L2 \<and> (\<exists>v. ra_confirmation a = TypeExact v
    \<and> (\<forall>ack typed. is_satisfied (ra_confirmation a) ack typed \<longleftrightarrow> ack \<and> typed = Some v))"
proof -
  let ?w = "to_ascii_lowercase w"
  have "occurs_as_command ?w (to_ascii_lowercase command) None"
    using assms(1-4) by (intro occurs_as_command_lower) simp_all
  moreover have "?w \<noteq> []" using assms(2) by (auto simp: always_level_two_def)
  ultimately have "contains_command (to_ascii_lowercase command) ?w"
    by (simp add: contains_command_iff)
  then have "spec_detected_risk command = L2"
    using level_two_of_word[OF assms(2)] by (simp add: spec_detected_risk_def)
  then have L2: "ra_effective_risk a = L2"
    using analyze_command_Inr(3)[OF assms(5)] by (simp add: detect_risk_spec)
  with analyze_command_Inr(4)[OF assms(5)] obtain v where "ra_confirmation a = TypeExact v"
    by (auto elim: confirmation_for_L2_trim)
  with L2 show ?thesis by (simp add: is_satisfied_def)
qed

theorem dangerous_word_demands_typed_text_witness:
  "\<exists>a. analyze_command ''echo x;/bin/RM y'' L0 (Some ''host'') = Inr a \<and> ra_effective_risk a = L2"
proof -
  obtain a where a: "analyze_command ''echo x;/bin/RM y'' L0 (Some ''host'') = Inr a"
  proof -
    have "is_ok (analyze_command ''echo x;/bin/RM y'' L0 (Some ''host''))" by code_simp
    then show ?thesis using that by (auto simp: is_ok_iff)
  qed
  have "to_ascii_lowercase ''RM'' \<in> set always_level_two" and "boundary_before (Some (CHR ''/''))"
    and "boundary_after (Some (CHR '' ''))" by code_simp+
  then have "ra_effective_risk a = L2"
    using dangerous_word_demands_typed_text[OF _ _ _ _ a, of "''echo x;/bin/''" "''RM''" "'' y''"]
    by simp
  with a show ?thesis by blast
qed

text \<open>
  C9: A command that runs without any confirmation contains no output redirection and no command
  substitution, none of the dangerous programs, and every one of its shell segments is accepted by
  the read-only allowlist.
\<close>
theorem unconfirmed_commands_are_allowlisted:
  assumes "analyze_command command declared t = Inr a" and "ra_confirmation a = NoConfirmation"
  shows "declared = L0
    \<and> split_shell_segments command \<noteq> []
    \<and> (\<forall>segment \<in> set (split_shell_segments command). is_read_only_segment segment)
    \<and> CHR ''>'' \<notin> set (to_ascii_lowercase command) \<and> \<not> str_contains (to_ascii_lowercase command) ''$(''
    \<and> (\<forall>w \<in> set always_level_two. \<not> contains_command (to_ascii_lowercase command) w)"
proof -
  have "ra_effective_risk a = L0"
    using analyze_command_Inr(4)[OF assms(1)] assms(2)
    by (auto simp: confirmation_for_def result_simps split: risk_level.splits)
  then have "max declared (spec_detected_risk command) = L0"
    using analyze_command_Inr(3)[OF assms(1)] by (simp add: detect_risk_spec)
  then have "declared = L0" and det: "spec_detected_risk command = L0"
    by (metis max.cobounded1 max.cobounded2 risk_level_order(4))+
  from det have "is_read_only_command command"
    and l1: "\<not> list_ex fst (level_one_findings (to_ascii_lowercase command))"
    and l2: "\<not> list_ex fst (level_two_findings (to_ascii_lowercase command))"
    by (auto simp: spec_detected_risk_def split: if_splits)
  with \<open>declared = L0\<close> show ?thesis
    using level_two_of_word[of _ "to_ascii_lowercase command"]
    by (auto simp: is_read_only_command_def Let_def list_all_iff level_one_findings_def
        contains_redirection_def)
qed

theorem unconfirmed_commands_are_allowlisted_witness:
  "\<exists>a. analyze_command ''git status | head'' L0 None = Inr a \<and> ra_confirmation a = NoConfirmation
     \<and> is_read_only_segment ''head''"
proof -
  have run: "analyze_command ''git status | head'' L0 None = Inr \<lparr>ra_declared_risk = L0,
      ra_detected_risk = L0, ra_effective_risk = L0, ra_reasons = [], ra_confirmation = NoConfirmation\<rparr>"
    by code_simp
  have "''head'' \<in> set (split_shell_segments ''git status | head'')" by code_simp
  with unconfirmed_commands_are_allowlisted[OF run] run show ?thesis by auto
qed

definition preset_consistent :: "builtin_preset \<Rightarrow> bool" where
  "preset_consistent p = (case analyze_command (bp_command p) (bp_declared_risk p) (Some ''host'') of
       Inl _ \<Rightarrow> False
     | Inr a \<Rightarrow> ra_effective_risk a = bp_declared_risk p
               \<and> bp_requires_sudo p = (ra_effective_risk a = L2))"

text \<open>
  The shipped presets agree with the policy: with a confirmation text each is accepted, its
  effective risk is the risk it declares, and a preset that needs sudo is at L2.  Their identifiers
  are distinct and \<open>find_builtin_preset\<close> finds each.
\<close>
theorem builtin_presets_are_consistent:
  "list_all preset_consistent BUILTIN_PRESETS
   \<and> distinct (map bp_id BUILTIN_PRESETS)
   \<and> list_all (\<lambda>p. find_builtin_preset (bp_id p) = Some p) BUILTIN_PRESETS"
  by code_simp

text \<open>
  The policy promises that unknown commands never fall below L1.  The allowlist looks at the first
  program of a segment only, so a program run through \<^verbatim>\<open>find -exec\<close> or \<^verbatim>\<open>env\<close> is judged by the
  wrapper: overwriting a file with \<^verbatim>\<open>shred\<close> needs no confirmation.
\<close>
theorem wrapped_program_escapes_allowlist:
  "analyze_command ''find . -exec shred -u x'' L0 None = Inr \<lparr>ra_declared_risk = L0,
     ra_detected_risk = L0, ra_effective_risk = L0, ra_reasons = [], ra_confirmation = NoConfirmation\<rparr>
   \<and> \<not> is_read_only_segment ''shred -u x''"
  by code_simp

end
