(* ===== verification/Shell.thy ===== *)
theory Shell
  imports RustStr
begin

text \<open>
  Quoting for the remote shell.  \<^verbatim>\<open>posix_quote\<close> (in \<^verbatim>\<open>command_job.rs\<close>, \<^verbatim>\<open>ssh.rs\<close> and \<^verbatim>\<open>telemetry.rs\<close>)
  and \<^verbatim>\<open>shell_quote\<close> (in \<^verbatim>\<open>agent.rs\<close> and \<^verbatim>\<open>key_service.rs\<close>) are the same function; \<^verbatim>\<open>shell_path\<close> and
  \<^verbatim>\<open>in_directory\<close> are those of \<^verbatim>\<open>command_job.rs\<close>.  What they promise is stated against the quoting
  rules of the POSIX shell language (section 2.2), written as a lexer for one word.
\<close>

section \<open>The quoting rules\<close>

text \<open>Up to the closing quote: the bytes in the quotes and what follows.\<close>

definition quote_char :: char where
  "quote_char = CHR 0x27"

definition prepend :: "'a list \<Rightarrow> ('a list \<times> 'r) option \<Rightarrow> ('a list \<times> 'r) option" where
  "prepend xs m = (case m of None \<Rightarrow> None | Some (ys, r) \<Rightarrow> Some (xs @ ys, r))"

lemma prepend_simps [simp]:
  "prepend xs None = None" "prepend xs (Some (ys, r)) = Some (xs @ ys, r)"
  "prepend xs (prepend ys m) = prepend (xs @ ys) m" "prepend [] m = m"
  by (auto simp: prepend_def split: option.splits)

lemma prepend_Some_iff: "prepend xs m = Some (zs, r) \<longleftrightarrow> (\<exists>ys. m = Some (ys, r) \<and> zs = xs @ ys)"
  by (auto simp: prepend_def split: option.splits)

fun single_quoted :: "string \<Rightarrow> (string \<times> string) option" where
  "single_quoted [] = None"
| "single_quoted (c # cs) =
     (if c = quote_char then Some ([], cs)
      else prepend [c] (single_quoted cs))"

lemma single_quoted_length: "single_quoted s = Some (body, rest) \<Longrightarrow> length rest < length s"
  by (induction s arbitrary: body) (auto simp: prepend_Some_iff less_SucI split: if_splits)

text \<open>
  A word is a sequence of literal bytes and of \<^verbatim>\<open>"$HOME"\<close>, the one expansion the code writes.
\<close>

datatype word_part = Lit char | Home

definition home_text :: string where
  "home_text = CHR 0x22 # ''$HOME'' @ [CHR 0x22]"

text \<open>The bytes that stand for themselves outside of quotes wherever they occur in a word.\<close>

definition plain_char :: "char \<Rightarrow> bool" where
  "plain_char c \<longleftrightarrow> is_ascii_alphanumeric c \<or> c \<in> set ''-_./:,+@%''"

definition ends_word :: "string \<Rightarrow> bool" where
  "ends_word s \<longleftrightarrow> s = [] \<or> hd s \<in> set '' ;&|()<>'' \<or> hd s = CHR 0x0A \<or> hd s = CHR 0x09"

text \<open>
  One word off the front: its parts and the rest of the line.  \<open>None\<close> is anything else that the
  shell gives a meaning to.
\<close>

function shell_word :: "string \<Rightarrow> (word_part list \<times> string) option" where
  "shell_word s =
     (if ends_word s then Some ([], s)
      else if hd s = quote_char then
        (case single_quoted (tl s) of
           None \<Rightarrow> None
         | Some (body, rest) \<Rightarrow> prepend (map Lit body) (shell_word rest))
      else if hd s = CHR 0x5C then
        (case tl s of
           [] \<Rightarrow> None
         | c # rest \<Rightarrow> if c = CHR 0x0A then None
             else prepend [Lit c] (shell_word rest))
      else if starts_with s home_text then
        prepend [Home] (shell_word (drop (length home_text) s))
      else if plain_char (hd s) then prepend [Lit (hd s)] (shell_word (tl s))
      else None)"
  by pat_completeness auto
termination
proof (relation "measure length", goal_cases)
  case (2 s p body rest)
  then show ?case using single_quoted_length[of "tl s" body rest] by (auto simp: ends_word_def)
qed (auto simp: ends_word_def home_text_def neq_Nil_conv)

declare shell_word.simps [simp del]

text \<open>The words of a simple command, separated by single blanks; \<open>n\<close> bounds their number.\<close>

fun simple_words :: "nat \<Rightarrow> string \<Rightarrow> (word_part list list \<times> string) option" where
  "simple_words 0 s = Some ([], s)"
| "simple_words (Suc n) s =
     (case shell_word s of
        None \<Rightarrow> None
      | Some (w, rest) \<Rightarrow>
          if starts_with rest '' '' then prepend [w] (simple_words n (tl rest)) else Some ([w], rest))"

fun join_words :: "string list \<Rightarrow> string" where
  "join_words [] = []"
| "join_words [w] = w"
| "join_words (w # ws) = w @ '' '' @ join_words ws"

section \<open>The interface\<close>

text \<open>
  What the modules that build command lines rely on: a quoted value is one word of the shell, with
  exactly the value's bytes, whatever they are.
\<close>

locale word_quoting =
  fixes quote :: "string \<Rightarrow> string"
  assumes quote_word: "ends_word rest \<Longrightarrow> shell_word (quote v @ rest) = Some (map Lit v, rest)"
begin

lemma quote_words:
  assumes "ends_word rest" and "\<not> (\<exists>r. rest = CHR '' '' # r)" and "vs \<noteq> []"
  shows "simple_words (length vs) (join_words (map quote vs) @ rest)
    = Some (map (map Lit) vs, rest)"
  using assms(3)
proof (induction vs)
  case (Cons v vs)
  show ?case
  proof (cases vs)
    case Nil
    then show ?thesis using assms quote_word[of rest v] by (cases rest) (simp_all add: starts_with_def)
  next
    case (Cons v' vs')
    then have "simple_words (length vs) (join_words (map quote vs) @ rest)
        = Some (map (map Lit) vs, rest)" using Cons.IH by simp
    moreover have "ends_word (CHR '' '' # t)" "starts_with (CHR '' '' # t) '' ''" for t
      by (simp_all add: ends_word_def starts_with_def)
    ultimately show ?thesis using Cons quote_word by simp
  qed
qed simp

end

section \<open>The code\<close>

text \<open>\<^verbatim>\<open>value.replace('\'', "'\\''")\<close>\<close>

fun replace_quotes :: "string \<Rightarrow> string" where
  "replace_quotes [] = []"
| "replace_quotes (c # cs) =
     (if c = quote_char then [quote_char, CHR 0x5C, quote_char, quote_char] else [c]) @ replace_quotes cs"

definition posix_quote :: "string \<Rightarrow> string" where
  "posix_quote value = quote_char # replace_quotes value @ [quote_char]"

definition shell_path :: "string \<Rightarrow> string" where
  "shell_path value =
     (case strip_prefix ''~/'' value of
        Some relative \<Rightarrow> home_text @ ''/'' @ posix_quote relative
      | None \<Rightarrow> posix_quote value)"

definition in_directory :: "string \<Rightarrow> string option \<Rightarrow> string" where
  "in_directory command working_directory =
     (case map_option trim working_directory of
        None \<Rightarrow> command
      | Some directory \<Rightarrow>
          if directory = [] \<or> directory = ''~'' \<or> directory = ''~/'' then command
          else ''cd -- '' @ shell_path directory @ '' && '' @ command)"

text \<open>\<^verbatim>\<open>shell_path\<close> of \<^verbatim>\<open>ssh.rs\<close> also maps the home directory itself.\<close>

definition ssh_shell_path :: "string \<Rightarrow> string" where
  "ssh_shell_path value =
     (if value = ''~'' \<or> value = ''~/'' then home_text
      else case strip_prefix ''~/'' value of
        Some relative \<Rightarrow> home_text @ ''/'' @ posix_quote relative
      | None \<Rightarrow> posix_quote value)"

section \<open>Lemmas\<close>

lemma not_ends_quote [simp]: "\<not> ends_word (quote_char # s)" "\<not> ends_word (CHR 0x5C # s)"
  by (simp_all add: ends_word_def quote_char_def)

lemma shell_word_end: "ends_word s \<Longrightarrow> shell_word s = Some ([], s)"
  by (simp add: shell_word.simps)

lemma shell_word_quoted:
  "shell_word (quote_char # s) =
     (case single_quoted s of
        None \<Rightarrow> None
      | Some (body, rest) \<Rightarrow> prepend (map Lit body) (shell_word rest))"
  by (subst shell_word.simps) simp

lemma shell_word_escaped:
  "c \<noteq> CHR 0x0A \<Longrightarrow> shell_word (CHR 0x5C # c # s) = prepend [Lit c] (shell_word s)"
  by (subst shell_word.simps) (simp add: quote_char_def)

text \<open>From inside the quotes: the rest of a quoted value, then the word goes on behind it.\<close>

lemma quoted_tail:
  "(case single_quoted (replace_quotes v @ quote_char # s) of
      None \<Rightarrow> None
    | Some (body, rest) \<Rightarrow> prepend (map Lit body) (shell_word rest))
   = prepend (map Lit v) (shell_word s)"
proof (induction v)
  case (Cons c v)
  show ?case
  proof (cases "c = quote_char")
    case True
    have "shell_word (CHR 0x5C # quote_char # quote_char # replace_quotes v @ quote_char # s)
        = prepend [Lit quote_char] (shell_word (quote_char # replace_quotes v @ quote_char # s))"
      by (rule shell_word_escaped) (simp add: quote_char_def)
    also have "shell_word (quote_char # replace_quotes v @ quote_char # s)
        = prepend (map Lit v) (shell_word s)"
      using Cons by (simp add: shell_word_quoted)
    finally show ?thesis using True by simp
  next
    case False
    show ?thesis
    proof (cases "single_quoted (replace_quotes v @ quote_char # s)")
      case None
      with False Cons show ?thesis by (auto simp: prepend_def split: option.splits)
    next
      case (Some p)
      obtain body rest where "p = (body, rest)" by fastforce
      with Some False arg_cong[OF Cons, of "prepend [Lit c]"] show ?thesis by simp
    qed
  qed
qed simp

lemma shell_word_posix_quote:
  "shell_word (posix_quote v @ s) = prepend (map Lit v) (shell_word s)"
  using quoted_tail[of v s] by (simp add: posix_quote_def shell_word_quoted)

interpretation posix: word_quoting posix_quote
  by unfold_locales (simp add: shell_word_posix_quote shell_word_end)

definition special_chars :: string where
  "special_chars = '' ;&|()<>'' @ [CHR 0x0A, CHR 0x09, CHR 0x5C, CHR 0x22, quote_char]"

lemma special_not_plain: "list_all (\<lambda>c. \<not> plain_char c) special_chars"
  by code_simp

lemma shell_word_plain:
  assumes "plain_char c"
  shows "shell_word (c # s) = prepend [Lit c] (shell_word s)"
proof -
  have "c \<notin> set special_chars"
    using special_not_plain assms by (auto simp: list_all_iff)
  then have "\<not> ends_word (c # s)" "c \<noteq> quote_char" "c \<noteq> CHR 0x5C" "\<not> starts_with (c # s) home_text"
    by (simp_all add: special_chars_def ends_word_def starts_with_def home_text_def)
  with assms show ?thesis by (subst shell_word.simps) simp
qed

lemma shell_word_plain_list:
  "list_all plain_char w \<Longrightarrow> ends_word rest \<Longrightarrow> shell_word (w @ rest) = Some (map Lit w, rest)"
  by (induction w) (simp_all add: shell_word_end shell_word_plain)

lemma simple_words_plain:
  "list_all plain_char w \<Longrightarrow> simple_words (Suc n) (w @ CHR '' '' # rest) = prepend [map Lit w] (simple_words n rest)"
  by (subst simple_words.simps)
    (simp add: shell_word_plain_list ends_word_def starts_with_def)

lemma shell_word_home: "shell_word (home_text @ s) = prepend [Home] (shell_word s)"
proof -
  have "\<not> ends_word (home_text @ s)" "hd (home_text @ s) \<noteq> quote_char" "hd (home_text @ s) \<noteq> CHR 0x5C"
    by (simp_all add: ends_word_def home_text_def quote_char_def)
  then show ?thesis by (subst shell_word.simps) (simp del: append_Cons)
qed

text \<open>The parts of the word a directory becomes.\<close>

definition directory_parts :: "string \<Rightarrow> word_part list" where
  "directory_parts d = (case strip_prefix ''~/'' d of
       Some relative \<Rightarrow> Home # map Lit (''/'' @ relative)
     | None \<Rightarrow> map Lit d)"

lemma shell_word_path: "ends_word s \<Longrightarrow> shell_word (shell_path d @ s) = Some (directory_parts d, s)"
proof (cases "strip_prefix ''~/'' d")
  case (Some relative)
  assume "ends_word s"
  then have "shell_word (''/'' @ posix_quote relative @ s) = Some (map Lit (''/'' @ relative), s)"
    using shell_word_plain[of "CHR ''/''"] posix.quote_word[of s relative]
    by (simp add: plain_char_def)
  then show ?thesis
    using Some shell_word_home[of "''/'' @ posix_quote relative @ s"]
    by (simp add: shell_path_def directory_parts_def)
qed (simp add: shell_path_def directory_parts_def posix.quote_word)

text \<open>
  A working directory cannot inject anything: the line that changes into it and runs the
  command is read by the shell as the word \<^verbatim>\<open>cd\<close>, the word \<^verbatim>\<open>--\<close>, one word that is exactly the
  directory (with the home directory expanded for a path below \<^verbatim>\<open>~/\<close>), then \<^verbatim>\<open>&&\<close> and the
  unchanged command, whatever bytes the directory has.
\<close>

theorem directory_is_one_word:
  assumes "trim dir \<notin> {[], ''~'', ''~/''}"
  shows "simple_words 3 (in_directory command (Some dir))
    = Some ([map Lit ''cd'', map Lit ''--'', directory_parts (trim dir)], ''&& '' @ command)"
proof -
  have plain: "list_all plain_char ''cd''" "list_all plain_char ''--''" by code_simp+
  have "ends_word ('' && '' @ command)" by (simp add: ends_word_def)
  then have "simple_words 1 (shell_path (trim dir) @ '' && '' @ command)
      = Some ([directory_parts (trim dir)], ''&& '' @ command)"
    by (simp add: shell_word_path starts_with_def)
  then show ?thesis
    using assms simple_words_plain[OF plain(1), of 2 "''-- '' @ shell_path (trim dir) @ '' && '' @ command"]
      simple_words_plain[OF plain(2), of 1 "shell_path (trim dir) @ '' && '' @ command"]
    by (simp add: in_directory_def numeral_3_eq_3 numeral_2_eq_2 del: simple_words.simps)
qed

lemma directory_is_one_word_witness:
  "simple_words 3 (in_directory ''uptime'' (Some (''~/a '' @ [quote_char] @ ''; rm -rf '' @ [quote_char])))
    = Some ([map Lit ''cd'', map Lit ''--'', Home # map Lit (''/a '' @ [quote_char] @ ''; rm -rf '' @ [quote_char])],
        ''&& uptime'')"
proof -
  let ?d = "''~/a '' @ [quote_char] @ ''; rm -rf '' @ [quote_char]"
  have "trim ?d = ?d" and "directory_parts ?d
      = Home # map Lit (''/a '' @ [quote_char] @ ''; rm -rf '' @ [quote_char])"
    by code_simp+
  moreover have "?d \<notin> {[], ''~'', ''~/''}" by simp
  ultimately show ?thesis using directory_is_one_word[of ?d "''uptime''"] by simp
qed

end
