(* ===== verification/CommandRequest.thy ===== *)
theory CommandRequest
  imports Risk Shell StoreRepo
begin

text \<open>
  \<^verbatim>\<open>crates/remotedeck-core/src/command_job.rs\<close>, the part before a process exists: reloading the host
  and the preset, building the command line, analysing its risk and enforcing the confirmation.
  \<^verbatim>\<open>Uuid::parse_str\<close> is a parameter, \<open>is_uuid\<close>.
\<close>

section \<open>Data\<close>

record command_run_request =
  crr_host_id :: string
  crr_command_id :: "string option"
  crr_command :: "string option"
  crr_working_directory :: "string option"
  crr_confirmation :: "string option"

record command_analysis =
  ca_target_alias :: string
  ca_display_command :: string
  ca_working_directory :: "string option"
  ca_declared_risk :: command_risk
  ca_effective_risk :: command_risk
  ca_reasons :: "string list"
  ca_required_confirmation :: "string option"

record pty_command_plan =
  pcp_host_id :: string
  pcp_command_id :: "string option"
  pcp_name :: string
  pcp_command :: string
  pcp_working_directory :: "string option"
  pcp_risk :: command_risk

datatype command_job_error =
    InvalidRequest string
  | RepositoryError string
  | RiskAnalysisError string
  | ConfirmationRequired command_risk string
  | ConfirmationMismatch command_risk string
  | RequiresPty pty_command_plan
  | RuntimeUnavailable
  | ProcessError string
  | UnknownJob string

type_synonym 'a job_result = "command_job_error + 'a"

record resolved_command =
  rc_host :: host_profile
  rc_command_id :: "string option"
  rc_name :: string
  rc_command :: string
  rc_working_directory :: "string option"
  rc_declared_risk :: command_risk
  rc_requires_pty :: bool
  rc_confirmation_text :: "string option"

record prepared_command =
  pc_host :: host_profile
  pc_command_id :: "string option"
  pc_name :: string
  pc_display_command :: string
  pc_risk :: command_risk

fun to_risk_level :: "command_risk \<Rightarrow> risk_level" where
  "to_risk_level CR_L0 = L0"
| "to_risk_level CR_L1 = L1"
| "to_risk_level CR_L2 = L2"

fun to_command_risk :: "risk_level \<Rightarrow> command_risk" where
  "to_command_risk L0 = CR_L0"
| "to_command_risk L1 = CR_L1"
| "to_command_risk L2 = CR_L2"

section \<open>Validation\<close>

definition JOB_COMMAND_BYTES :: nat where "JOB_COMMAND_BYTES = 32 * 1024"
definition JOB_DIRECTORY_BYTES :: nat where "JOB_DIRECTORY_BYTES = 4096"
definition JOB_CONFIRMATION_CHARS :: nat where "JOB_CONFIRMATION_CHARS = 256"

definition known_builtin :: "string \<Rightarrow> bool" where
  "known_builtin command_id =
     (case strip_prefix ''builtin:'' command_id of
        None \<Rightarrow> False
      | Some i \<Rightarrow> find_builtin_preset i \<noteq> None)"

definition bad_command_id :: "(string \<Rightarrow> bool) \<Rightarrow> string option \<Rightarrow> bool" where
  "bad_command_id is_uuid command_id =
     (case command_id of
        None \<Rightarrow> False
      | Some i \<Rightarrow> \<not> is_uuid (trim i) \<and> \<not> known_builtin (trim i))"

definition bad_confirmation :: "string option \<Rightarrow> bool" where
  "bad_confirmation c =
     (case c of
        None \<Rightarrow> False
      | Some confirmation \<Rightarrow>
          length (chars confirmation) > JOB_CONFIRMATION_CHARS \<or> any_control confirmation)"

definition validate_request_shape :: "(string \<Rightarrow> bool) \<Rightarrow> command_run_request \<Rightarrow> unit job_result" where
  "validate_request_shape is_uuid request =
     (if \<not> is_uuid (trim (crr_host_id request))
      then Inl (InvalidRequest ''hostId must be a UUID'')
      else if bad_command_id is_uuid (crr_command_id request)
      then Inl (InvalidRequest ''commandId must be a UUID or a known built-in id'')
      else if crr_command_id request \<noteq> None \<and> crr_command request \<noteq> None
      then Inl (InvalidRequest ''commandId and command are mutually exclusive'')
      else if crr_command_id request = None \<and> crr_command request = None
      then Inl (InvalidRequest ''either commandId or command is required'')
      else if bad_confirmation (crr_confirmation request)
      then Inl (InvalidRequest ''confirmation is invalid'')
      else Inr ())"

fun max_l1 :: "command_risk \<Rightarrow> command_risk" where
  "max_l1 CR_L0 = CR_L1"
| "max_l1 r = r"

definition trusted_preset_risk :: "command_preset \<Rightarrow> command_risk job_result" where
  "trusted_preset_risk preset =
     (case strip_prefix ''builtin:'' (cp_id preset) of
        None \<Rightarrow> Inr (max_l1 (cp_risk preset))
      | Some i \<Rightarrow>
          rbind (ok_or (InvalidRequest ''unknown built-in command preset'') (find_builtin_preset i)) (\<lambda>builtin.
            let expected_risk = to_command_risk (bp_declared_risk builtin)
            in if cp_host_id preset \<noteq> None
                \<or> cp_command preset \<noteq> bp_command builtin
                \<or> cp_risk preset \<noteq> expected_risk
                \<or> cp_requires_pty preset \<noteq> bp_requires_pty builtin
                \<or> cp_requires_sudo preset \<noteq> bp_requires_sudo builtin
                \<or> cp_working_directory preset \<noteq> None
                \<or> cp_confirmation_text preset \<noteq> None
               then Inl (InvalidRequest ''built-in command preset does not match its immutable definition'')
               else Inr expected_risk))"

definition validate_command_text :: "string \<Rightarrow> unit job_result" where
  "validate_command_text command =
     (if trim command = [] \<or> length command > JOB_COMMAND_BYTES \<or> nul \<in> set command
      then Inl (InvalidRequest ''command must contain 1-32768 bytes and no NUL'')
      else Inr ())"

definition normalize_directory :: "string option \<Rightarrow> string option job_result" where
  "normalize_directory v =
     (case v of
        None \<Rightarrow> Inr None
      | Some v \<Rightarrow>
          let v = trim v
          in if v = [] then Inr None
             else if length v > JOB_DIRECTORY_BYTES \<or> nul \<in> set v
             then Inl (InvalidRequest ''workingDirectory is invalid'')
             else Inr (Some v))"

definition normalize_confirmation :: "string option \<Rightarrow> string option job_result" where
  "normalize_confirmation v =
     (case v of
        None \<Rightarrow> Inr None
      | Some v \<Rightarrow>
          let v = trim v
          in if v = [] then Inr None
             else if length (chars v) > JOB_CONFIRMATION_CHARS \<or> any_control v
             then Inl (InvalidRequest ''preset confirmation text is invalid'')
             else Inr (Some v))"

section \<open>Resolution\<close>

text \<open>The eight values \<^verbatim>\<open>resolve_command_request\<close> takes from the preset or the request.\<close>

record resolved_source =
  cs_command_id :: "string option"
  cs_name :: string
  cs_command :: string
  cs_directory :: "string option"
  cs_declared_risk :: command_risk
  cs_requires_pty :: bool
  cs_requires_sudo :: bool
  cs_confirmation_text :: "string option"

definition command_source ::
    "host_profile \<Rightarrow> command_preset option \<Rightarrow> command_run_request \<Rightarrow> resolved_source job_result" where
  "command_source host preset request =
     (case crr_command_id request of
        Some command_id \<Rightarrow>
          if crr_command request \<noteq> None
          then Inl (InvalidRequest ''command cannot override a selected commandId'')
          else rbind (ok_or (InvalidRequest ''commandId was not resolved from the repository'') preset) (\<lambda>preset.
            if cp_id preset \<noteq> command_id
            then Inl (InvalidRequest ''resolved preset does not match commandId'')
            else if cp_host_id preset \<noteq> None \<and> cp_host_id preset \<noteq> Some (hp_id host)
            then Inl (InvalidRequest ''selected command preset belongs to another host'')
            else rbind (trusted_preset_risk preset) (\<lambda>declared_risk.
              Inr \<lparr>cs_command_id = Some (cp_id preset), cs_name = cp_name preset,
                   cs_command = cp_command preset, cs_directory = cp_working_directory preset,
                   cs_declared_risk = declared_risk, cs_requires_pty = cp_requires_pty preset,
                   cs_requires_sudo = cp_requires_sudo preset,
                   cs_confirmation_text = cp_confirmation_text preset\<rparr>))
      | None \<Rightarrow>
          if preset \<noteq> None
          then Inl (InvalidRequest ''a resolved preset requires commandId'')
          else rbind (ok_or (InvalidRequest ''either commandId or command is required'') (crr_command request))
            (\<lambda>command.
              Inr \<lparr>cs_command_id = None, cs_name = ''Ad hoc command'', cs_command = command,
                   cs_directory = None, cs_declared_risk = CR_L1, cs_requires_pty = False,
                   cs_requires_sudo = False, cs_confirmation_text = None\<rparr>))"

definition wrap_sudo :: "bool \<Rightarrow> string \<Rightarrow> string" where
  "wrap_sudo requires_sudo raw_command =
     (if requires_sudo then ''sudo -- sh -lc '' @ posix_quote (trim raw_command) else trim raw_command)"

definition resolve_command_request ::
    "(string \<Rightarrow> bool) \<Rightarrow> host_profile \<Rightarrow> command_preset option \<Rightarrow> command_run_request \<Rightarrow> resolved_command job_result" where
  "resolve_command_request is_uuid host preset request =
     rbind (validate_request_shape is_uuid request) (\<lambda>_.
     if hp_id host \<noteq> crr_host_id request
     then Inl (InvalidRequest ''resolved host does not match hostId'')
     else rbind (command_source host preset request) (\<lambda>src.
       rbind (validate_command_text (cs_command src)) (\<lambda>_.
       let command = wrap_sudo (cs_requires_sudo src) (cs_command src)
       in rbind (validate_command_text command) (\<lambda>_.
       rbind (normalize_directory
           (case crr_working_directory request of
              Some d \<Rightarrow> Some d
            | None \<Rightarrow> (case cs_directory src of Some d \<Rightarrow> Some d | None \<Rightarrow> Some (hp_default_workspace host))))
         (\<lambda>working_directory.
       let display_command = in_directory command working_directory
       in rbind (validate_command_text display_command) (\<lambda>_.
       rbind (normalize_confirmation (cs_confirmation_text src)) (\<lambda>confirmation_text.
         Inr \<lparr>rc_host = host, rc_command_id = cs_command_id src, rc_name = cs_name src,
              rc_command = command, rc_working_directory = working_directory,
              rc_declared_risk = cs_declared_risk src, rc_requires_pty = cs_requires_pty src,
              rc_confirmation_text = confirmation_text\<rparr>)))))))"

definition resolve_repository_request ::
    "(string \<Rightarrow> bool) \<Rightarrow> repo \<Rightarrow> command_run_request \<Rightarrow> resolved_command job_result" where
  "resolve_repository_request is_uuid repository request =
     rbind (validate_request_shape is_uuid request) (\<lambda>_.
     rbind (rmap_err (\<lambda>e. RepositoryError (app_error_display e)) (get_host (crr_host_id request) repository))
       (\<lambda>host.
     rbind (case crr_command_id request of
              None \<Rightarrow> Inr None
            | Some command_id \<Rightarrow>
                rmap_err (\<lambda>e. RepositoryError (app_error_display e))
                  (rbind (get_command command_id repository) (\<lambda>p. Inr (Some p)))) (\<lambda>preset.
     resolve_command_request is_uuid host preset request)))"

section \<open>Analysis and confirmation\<close>

definition l2_confirmation :: "resolved_command \<Rightarrow> string" where
  "l2_confirmation resolved =
     (case rc_confirmation_text resolved of
        Some v \<Rightarrow> if v \<noteq> [] then v else trim (hp_alias (rc_host resolved))
      | None \<Rightarrow> trim (hp_alias (rc_host resolved)))"

definition analyze_resolved_command :: "resolved_command \<Rightarrow> command_analysis job_result" where
  "analyze_resolved_command resolved =
     rbind (rmap_err (\<lambda>e. RiskAnalysisError (risk_error_display e))
              (analyze_command (rc_command resolved) (to_risk_level (rc_declared_risk resolved))
                 (Some (l2_confirmation resolved)))) (\<lambda>checked.
     let required_confirmation =
           (case ra_confirmation checked of
              NoConfirmation \<Rightarrow> None
            | Acknowledge \<Rightarrow> Some (hp_alias (rc_host resolved))
            | TypeExact v \<Rightarrow> Some v);
         display_command = in_directory (rc_command resolved) (rc_working_directory resolved)
     in rbind (validate_command_text display_command) (\<lambda>_.
       Inr \<lparr>ca_target_alias = hp_alias (rc_host resolved),
            ca_display_command = display_command,
            ca_working_directory = rc_working_directory resolved,
            ca_declared_risk = rc_declared_risk resolved,
            ca_effective_risk = to_command_risk (ra_effective_risk checked),
            ca_reasons = ra_reasons checked,
            ca_required_confirmation = required_confirmation\<rparr>))"

definition enforce_command_confirmation :: "command_analysis \<Rightarrow> string option \<Rightarrow> unit job_result" where
  "enforce_command_confirmation analysis supplied =
     (if ca_effective_risk analysis = CR_L0 then Inr ()
      else rbind (ok_or (RiskAnalysisError ''risk analysis did not provide required confirmation'')
                    (ca_required_confirmation analysis)) (\<lambda>expected.
        case normalize_optional supplied of
          None \<Rightarrow> Inl (ConfirmationRequired (ca_effective_risk analysis) expected)
        | Some v \<Rightarrow>
            if v \<noteq> expected then Inl (ConfirmationMismatch (ca_effective_risk analysis) expected)
            else Inr ()))"

definition prepare_run :: "resolved_command \<Rightarrow> string option \<Rightarrow> prepared_command job_result" where
  "prepare_run resolved supplied_confirmation =
     rbind (analyze_resolved_command resolved) (\<lambda>analysis.
     rbind (enforce_command_confirmation analysis supplied_confirmation) (\<lambda>_.
     if rc_requires_pty resolved
     then Inl (RequiresPty \<lparr>pcp_host_id = hp_id (rc_host resolved), pcp_command_id = rc_command_id resolved,
            pcp_name = rc_name resolved, pcp_command = ca_display_command analysis,
            pcp_working_directory = rc_working_directory resolved, pcp_risk = ca_effective_risk analysis\<rparr>)
     else Inr \<lparr>pc_host = rc_host resolved, pc_command_id = rc_command_id resolved,
               pc_name = rc_name resolved, pc_display_command = ca_display_command analysis,
               pc_risk = ca_effective_risk analysis\<rparr>))"

section \<open>Properties\<close>

lemma to_risk_level_inverse [simp]: "to_command_risk (to_risk_level r) = r" "to_risk_level (to_command_risk l) = l"
  by (cases r; simp) (cases l; simp)

lemma to_command_risk_L0 [simp]: "to_command_risk l = CR_L0 \<longleftrightarrow> l = L0" "to_command_risk l = CR_L1 \<longleftrightarrow> l = L1"
  "to_command_risk l = CR_L2 \<longleftrightarrow> l = L2"
  by (cases l; simp)+

lemma rmap_err_Inr [result_simps]: "rmap_err f m = Inr x \<longleftrightarrow> m = Inr x"
  by (cases m) (auto simp: rmap_err_def)

text \<open>What a successful preparation went through.\<close>

lemma prepare_runE:
  assumes "prepare_run r c = Inr p"
  obtains a where
    "analyze_command (rc_command r) (to_risk_level (rc_declared_risk r)) (Some (l2_confirmation r)) = Inr a"
    "pc_risk p = to_command_risk (ra_effective_risk a)" "pc_host p = rc_host r"
    "pc_display_command p = in_directory (rc_command r) (rc_working_directory r)" "\<not> rc_requires_pty r"
    "ra_effective_risk a \<noteq> L0 \<Longrightarrow> \<exists>v. normalize_optional c = Some v
      \<and> (case ra_confirmation a of NoConfirmation \<Rightarrow> None
           | Acknowledge \<Rightarrow> Some (hp_alias (rc_host r)) | TypeExact v \<Rightarrow> Some v) = Some v"
proof -
  obtain an where an: "analyze_resolved_command r = Inr an" and conf: "enforce_command_confirmation an c = Inr ()"
    and p: "\<not> rc_requires_pty r" "pc_host p = rc_host r" "pc_risk p = ca_effective_risk an"
      "pc_display_command p = ca_display_command an"
    using assms by (auto simp: prepare_run_def result_simps)
  obtain a where a: "analyze_command (rc_command r) (to_risk_level (rc_declared_risk r))
      (Some (l2_confirmation r)) = Inr a"
    and eff: "ca_effective_risk an = to_command_risk (ra_effective_risk a)"
    and disp: "ca_display_command an = in_directory (rc_command r) (rc_working_directory r)"
    and req: "ca_required_confirmation an = (case ra_confirmation a of NoConfirmation \<Rightarrow> None
           | Acknowledge \<Rightarrow> Some (hp_alias (rc_host r)) | TypeExact v \<Rightarrow> Some v)"
    using an by (auto simp: analyze_resolved_command_def result_simps Let_def)
  have "\<exists>v. normalize_optional c = Some v \<and> ca_required_confirmation an = Some v"
    if "ra_effective_risk a \<noteq> L0"
    using conf that eff
    by (auto simp: enforce_command_confirmation_def result_simps ok_or_def split: option.splits if_splits)
  then show thesis using req p eff disp by (intro that[OF a]) simp_all
qed

text \<open>
  C8: no process is prepared without the confirmation its risk demands: the risk is the higher of
  the declared one and the one detected in the command that will run, an L1 command needs the host's
  alias typed, an L2 command the preset's confirmation text or else the alias, and what will run is
  exactly the analysed command in its directory; a command that needs a PTY is never prepared.
\<close>

theorem prepared_command_is_confirmed:
  assumes "prepare_run r c = Inr p"
  shows "pc_risk p = to_command_risk (max (to_risk_level (rc_declared_risk r)) (spec_detected_risk (rc_command r)))
    \<and> (pc_risk p = CR_L1 \<longrightarrow> normalize_optional c = Some (hp_alias (rc_host r)))
    \<and> (pc_risk p = CR_L2 \<longrightarrow> normalize_optional c = Some (trim (l2_confirmation r)))
    \<and> pc_host p = rc_host r \<and> pc_display_command p = in_directory (rc_command r) (rc_working_directory r)
    \<and> \<not> rc_requires_pty r"
  using assms
proof (rule prepare_runE)
  fix a
  assume a: "analyze_command (rc_command r) (to_risk_level (rc_declared_risk r))
      (Some (l2_confirmation r)) = Inr a"
    and p: "pc_risk p = to_command_risk (ra_effective_risk a)" "pc_host p = rc_host r"
      "pc_display_command p = in_directory (rc_command r) (rc_working_directory r)" "\<not> rc_requires_pty r"
    and c: "ra_effective_risk a \<noteq> L0 \<Longrightarrow> \<exists>v. normalize_optional c = Some v
      \<and> (case ra_confirmation a of NoConfirmation \<Rightarrow> None
           | Acknowledge \<Rightarrow> Some (hp_alias (rc_host r)) | TypeExact v \<Rightarrow> Some v) = Some v"
  note run = analyze_command_Inr[OF a]
  show ?thesis
    using p c run(3,4)
    by (cases "ra_effective_risk a"; cases "ra_confirmation a")
      (auto simp: detect_risk_spec confirmation_for_def result_simps Let_def split: if_splits)
qed

definition lab_host :: host_profile where
  "lab_host =
     \<lparr>hp_schema_version = 2, hp_id = ''h'', hp_alias = ''lab'', hp_hostname = ''lab'', hp_port = 22,
      hp_username = ''u'', hp_auth_method = Interactive, hp_identity_file = None,
      hp_proxy_jump = None, hp_default_workspace = ''~'', hp_groups = [],
      hp_advanced = default_ssh_advanced_options, hp_monitor_enabled = True,
      hp_created_at = 0, hp_updated_at = 0\<rparr>"

definition lab_removal :: resolved_command where
  "lab_removal = \<lparr>rc_host = lab_host, rc_command_id = None, rc_name = ''x'', rc_command = ''rm -r /srv'',
     rc_working_directory = None, rc_declared_risk = CR_L1, rc_requires_pty = False, rc_confirmation_text = None\<rparr>"

lemma prepared_command_is_confirmed_witness:
  "is_ok (prepare_run lab_removal (Some '' lab '')) \<and> \<not> is_ok (prepare_run lab_removal (Some ''yes''))"
proof -
  have "is_ok (prepare_run lab_removal (Some '' lab ''))" by code_simp
  moreover have "spec_detected_risk (rc_command lab_removal) = L2" by code_simp
  then have "max (to_risk_level (rc_declared_risk lab_removal)) (spec_detected_risk (rc_command lab_removal)) = L2"
    by code_simp
  moreover have "normalize_optional (Some ''yes'') \<noteq> Some (trim (l2_confirmation lab_removal))" by code_simp
  ultimately show ?thesis
    using prepared_command_is_confirmed[of lab_removal "Some ''yes''"] by (auto simp: is_ok_iff)
qed

text \<open>
  The only commands that run without any confirmation are read-only built-in presets: a request
  that resolves and is prepared with no confirmation text names a built-in preset declared L0, and
  the command is that preset's own text.
\<close>

theorem unconfirmed_run_is_builtin:
  assumes "resolve_command_request is_uuid host preset request = Inr r"
    and "prepare_run r c = Inr p" and "normalize_optional c = None"
  shows "\<exists>b \<in> set BUILTIN_PRESETS. crr_command_id request = Some (''builtin:'' @ bp_id b)
    \<and> bp_declared_risk b = L0 \<and> rc_command r = wrap_sudo (bp_requires_sudo b) (bp_command b)
    \<and> pc_risk p = CR_L0"
proof -
  have "pc_risk p \<noteq> CR_L1" "pc_risk p \<noteq> CR_L2"
    using prepared_command_is_confirmed[OF assms(2)] assms(3) by auto
  then have p0: "pc_risk p = CR_L0" by (cases "pc_risk p") auto
  then have "max (to_risk_level (rc_declared_risk r)) (spec_detected_risk (rc_command r)) = L0"
    using prepared_command_is_confirmed[OF assms(2)] by simp
  then have "to_risk_level (rc_declared_risk r) = L0"
    by (metis max.cobounded1 risk_level_order(4))
  then have r0: "rc_declared_risk r = CR_L0" by (cases "rc_declared_risk r") auto
  obtain src where src: "command_source host preset request = Inr src"
    and r: "rc_declared_risk r = cs_declared_risk src"
      "rc_command r = wrap_sudo (cs_requires_sudo src) (cs_command src)"
    using assms(1) by (auto simp: resolve_command_request_def result_simps Let_def)
  from src r0 r(1) obtain q where q: "crr_command_id request = Some (cp_id q)"
      "trusted_preset_risk q = Inr CR_L0" "cs_command src = cp_command q" "cs_requires_sudo src = cp_requires_sudo q"
    by (auto simp: command_source_def result_simps split: option.splits if_splits)
  have floor: "max_l1 x \<noteq> CR_L0" for x by (cases x) auto
  from q(2) floor obtain i b where "strip_prefix ''builtin:'' (cp_id q) = Some i" "find_builtin_preset i = Some b"
    "bp_declared_risk b = L0" "cp_command q = bp_command b" "cp_requires_sudo q = bp_requires_sudo b"
    by (auto simp: trusted_preset_risk_def result_simps Let_def split: option.splits if_splits)
  moreover from this have "cp_id q = ''builtin:'' @ bp_id b" "b \<in> set BUILTIN_PRESETS"
    by (auto simp: strip_prefix_iff find_builtin_preset_def find_Some_iff)
  ultimately show ?thesis using q r(2) p0 by auto
qed

definition gpu_preset :: command_preset where
  "gpu_preset =
     \<lparr>cp_schema_version = 2, cp_id = ''builtin:gpu-status'', cp_host_id = None, cp_name = ''GPU status'',
      cp_description = [], cp_group = ''Resources'', cp_command = ''nvidia-smi'',
      cp_working_directory = None, cp_risk = CR_L0, cp_requires_pty = False, cp_requires_sudo = False,
      cp_confirmation_text = None, cp_sort_order = 0, cp_created_at = 0, cp_updated_at = 0\<rparr>"

definition gpu_request :: command_run_request where
  "gpu_request = \<lparr>crr_host_id = ''h'', crr_command_id = Some ''builtin:gpu-status'', crr_command = None,
     crr_working_directory = None, crr_confirmation = None\<rparr>"

definition is_h :: "string \<Rightarrow> bool" where
  "is_h s \<longleftrightarrow> s = ''h''"

lemma unconfirmed_run_is_builtin_witness:
  "case resolve_command_request is_h lab_host (Some gpu_preset) gpu_request of
     Inl _ \<Rightarrow> False
   | Inr r \<Rightarrow> is_ok (prepare_run r None) \<and> (\<exists>b \<in> set BUILTIN_PRESETS. rc_command r = wrap_sudo (bp_requires_sudo b) (bp_command b))"
proof -
  have ok: "(case resolve_command_request is_h lab_host (Some gpu_preset) gpu_request of
      Inl _ \<Rightarrow> False | Inr r \<Rightarrow> is_ok (prepare_run r None))"
    by code_simp
  then obtain r p where r: "resolve_command_request is_h lab_host (Some gpu_preset) gpu_request = Inr r"
    and p: "prepare_run r None = Inr p"
    by (auto simp: is_ok_iff split: sum.splits)
  have "normalize_optional None = None" by (simp add: normalize_optional_def)
  from unconfirmed_run_is_builtin[OF r p this] r p show ?thesis by auto
qed

text \<open>
  A preset that requires sudo runs as one \<^verbatim>\<open>sudo -- sh -lc\<close> whose last argument is exactly the
  preset's command, whatever quotes it contains, and it is always an L2 command.
\<close>

theorem sudo_command_is_one_argument:
  "simple_words 5 (wrap_sudo True raw) =
     Some ([map Lit ''sudo'', map Lit ''--'', map Lit ''sh'', map Lit ''-lc'', map Lit (trim raw)], [])
   \<and> spec_detected_risk (wrap_sudo True raw) = L2"
proof
  have plain: "list_all plain_char ''sudo''" "list_all plain_char ''--''" "list_all plain_char ''sh''"
    "list_all plain_char ''-lc''" by code_simp+
  have "simple_words 1 (posix_quote (trim raw)) = Some ([map Lit (trim raw)], [])"
    using posix.quote_word[of "[]" "trim raw"] by (simp add: ends_word_def starts_with_def)
  then show "simple_words 5 (wrap_sudo True raw) =
     Some ([map Lit ''sudo'', map Lit ''--'', map Lit ''sh'', map Lit ''-lc'', map Lit (trim raw)], [])"
    using simple_words_plain[OF plain(1), of 4 "''-- sh -lc '' @ posix_quote (trim raw)"]
      simple_words_plain[OF plain(2), of 3 "''sh -lc '' @ posix_quote (trim raw)"]
      simple_words_plain[OF plain(3), of 2 "''-lc '' @ posix_quote (trim raw)"]
      simple_words_plain[OF plain(4), of 1 "posix_quote (trim raw)"]
    by (simp add: wrap_sudo_def eval_nat_numeral del: simple_words.simps)
  let ?c = "to_ascii_lowercase (wrap_sudo True raw)"
  have "to_ascii_lowercase ''sudo'' = ''sudo''" by code_simp
  then have "occurs_as_command ''sudo'' ?c None"
    by (rule occurs_as_command_lower[of _ "[]" "''sudo''" "'' -- sh -lc '' @ posix_quote (trim raw)", rotated])
      (code_simp, code_simp, simp add: wrap_sudo_def)
  then have "contains_command ?c ''sudo''" by (simp add: contains_command_iff)
  then show "spec_detected_risk (wrap_sudo True raw) = L2"
    using level_two_of_word[of "''sudo''" ?c] by (simp add: spec_detected_risk_def always_level_two_def)
qed

end
