(* ===== verification/Barrier.thy ===== *)
theory Barrier
  imports RustBase
begin

text \<open>
  \<^verbatim>\<open>crates/remotedeck-core/src/host_operation.rs\<close>: the barrier between resolving a stored host and
  registering the work that uses it.  The lock-protected map is the state; a lease is a value
  whose \<^verbatim>\<open>Drop\<close> is \<open>end_lease\<close>.  \<open>wait_idle\<close> returns at the first moment its check succeeds.
\<close>

section \<open>The interface\<close>

text \<open>
  What a client relies on.  \<open>active b h\<close> counts the leases taken for \<open>h\<close> and not yet dropped,
  \<open>retired b h\<close> says whether new ones are refused.  A history is a sequence of calls, in the
  order in which they take the lock.
\<close>

datatype barrier_event = Begin string | End string | Retire string | Restore string

fun barrier_run :: "(string \<Rightarrow> 'b \<Rightarrow> bool \<times> 'b) \<Rightarrow> (string \<Rightarrow> 'b \<Rightarrow> 'b) \<Rightarrow> (string \<Rightarrow> 'b \<Rightarrow> 'b) \<Rightarrow>
    (string \<Rightarrow> 'b \<Rightarrow> 'b) \<Rightarrow> barrier_event list \<Rightarrow> 'b \<Rightarrow> 'b" where
  "barrier_run bg en rt rs [] b = b"
| "barrier_run bg en rt rs (Begin h # es) b = barrier_run bg en rt rs es (snd (bg h b))"
| "barrier_run bg en rt rs (End h # es) b = barrier_run bg en rt rs es (en h b)"
| "barrier_run bg en rt rs (Retire h # es) b = barrier_run bg en rt rs es (rt h b)"
| "barrier_run bg en rt rs (Restore h # es) b = barrier_run bg en rt rs es (rs h b)"

locale host_barrier =
  fixes active :: "'b \<Rightarrow> string \<Rightarrow> nat"
    and retired :: "'b \<Rightarrow> string \<Rightarrow> bool"
    and begin_op :: "string \<Rightarrow> 'b \<Rightarrow> bool \<times> 'b"
    and end_op :: "string \<Rightarrow> 'b \<Rightarrow> 'b"
    and retire_op :: "string \<Rightarrow> 'b \<Rightarrow> 'b"
    and restore_op :: "string \<Rightarrow> 'b \<Rightarrow> 'b"
  assumes begin_granted: "fst (begin_op h b) \<longleftrightarrow> \<not> retired b h"
    and begin_active: "active (snd (begin_op h b)) h' =
      (if h = h' \<and> \<not> retired b h then saturating_add64 (active b h) 1 else active b h')"
    and begin_retired: "retired (snd (begin_op h b)) h' = retired b h'"
    and end_active: "active (end_op h b) h' = (if h = h' then active b h - 1 else active b h')"
    and end_retired: "retired (end_op h b) h' = retired b h'"
    and retire_active: "active (retire_op h b) h' = active b h'"
    and retire_retired: "retired (retire_op h b) h' \<longleftrightarrow> h = h' \<or> retired b h'"
    and restore_active: "active (restore_op h b) h' = active b h'"
    and restore_retired: "retired (restore_op h b) h' \<longleftrightarrow> h \<noteq> h' \<and> retired b h'"
begin

lemmas laws = begin_granted begin_active begin_retired end_active end_retired
  retire_active retire_retired restore_active restore_retired

text \<open>
  A retired host stays retired and its lease count never grows again, whatever the other
  callers do, until somebody restores it.
\<close>

lemma retired_run:
  assumes "retired b h" and "Restore h \<notin> set es"
  shows "retired (barrier_run begin_op end_op retire_op restore_op es b) h \<and>
    active (barrier_run begin_op end_op retire_op restore_op es b) h \<le> active b h"
  using assms
proof (induction es arbitrary: b)
  case (Cons e es)
  have *: "retired (barrier_run begin_op end_op retire_op restore_op [e] b) h \<and>
      active (barrier_run begin_op end_op retire_op restore_op [e] b) h \<le> active b h"
    using Cons.prems by (cases e) (auto simp: laws)
  have "barrier_run begin_op end_op retire_op restore_op (e # es) b =
      barrier_run begin_op end_op retire_op restore_op es
        (barrier_run begin_op end_op retire_op restore_op [e] b)"
    by (cases e) simp_all
  with Cons.IH[of "barrier_run begin_op end_op retire_op restore_op [e] b"] * Cons.prems(2)
  show ?case by force
qed simp

text \<open>A lease that is taken and dropped leaves every count as it was.\<close>

lemma begin_end:
  "\<not> retired b h \<Longrightarrow> active b h < u64_max \<Longrightarrow> active (end_op h (snd (begin_op h b))) h' = active b h'"
  by (auto simp: laws)

end

section \<open>The model of host\_operation.rs\<close>

record host_operation_state =
  hos_active :: nat
  hos_retired :: bool

definition default_host_operation_state :: host_operation_state where
  "default_host_operation_state = \<lparr>hos_active = 0, hos_retired = False\<rparr>"

type_synonym barrier = "string \<rightharpoonup> host_operation_state"

text \<open>\<^verbatim>\<open>usize::MAX\<close> on the 64-bit target.\<close>

definition or_default :: "string \<Rightarrow> barrier \<Rightarrow> host_operation_state" where
  "or_default h b = (case b h of None \<Rightarrow> default_host_operation_state | Some s \<Rightarrow> s)"

definition begin_lease :: "string \<Rightarrow> barrier \<Rightarrow> bool \<times> barrier" where
  "begin_lease host_id b =
     (let state = or_default host_id b; b = b(host_id \<mapsto> state)
      in if hos_retired state then (False, b)
         else (True, b(host_id \<mapsto> state\<lparr>hos_active := saturating_add64 (hos_active state) 1\<rparr>)))"

definition end_lease :: "string \<Rightarrow> barrier \<Rightarrow> barrier" where
  "end_lease host_id b =
     (case b host_id of
        None \<Rightarrow> b
      | Some state \<Rightarrow>
          let state = state\<lparr>hos_active := hos_active state - 1\<rparr>
          in if hos_active state = 0 \<and> \<not> hos_retired state then b(host_id := None)
             else b(host_id \<mapsto> state))"

definition retire :: "string \<Rightarrow> barrier \<Rightarrow> barrier" where
  "retire host_id b = b(host_id \<mapsto> (or_default host_id b)\<lparr>hos_retired := True\<rparr>)"

definition idle_check :: "string \<Rightarrow> barrier \<Rightarrow> bool" where
  "idle_check host_id b = (case b host_id of None \<Rightarrow> True | Some state \<Rightarrow> hos_active state = 0)"

definition restore :: "string \<Rightarrow> barrier \<Rightarrow> barrier" where
  "restore host_id b =
     (case b host_id of
        None \<Rightarrow> b
      | Some state \<Rightarrow>
          let state = state\<lparr>hos_retired := False\<rparr>
          in if hos_active state = 0 then b(host_id := None) else b(host_id \<mapsto> state))"

definition is_retired :: "string \<Rightarrow> barrier \<Rightarrow> bool" where
  "is_retired host_id b = (case b host_id of None \<Rightarrow> False | Some state \<Rightarrow> hos_retired state)"

definition active_of :: "barrier \<Rightarrow> string \<Rightarrow> nat" where
  "active_of b h = hos_active (or_default h b)"

lemmas barrier_defs = begin_lease_def end_lease_def retire_def idle_check_def restore_def
  is_retired_def active_of_def or_default_def default_host_operation_state_def

interpretation hb: host_barrier active_of "\<lambda>b h. is_retired h b" begin_lease end_lease retire
  restore
  by unfold_locales (auto simp: barrier_defs Let_def split: option.splits)

text \<open>The history of a barrier under the operations of the code.\<close>

definition run_barrier :: "barrier_event list \<Rightarrow> barrier \<Rightarrow> barrier" where
  "run_barrier = barrier_run begin_lease end_lease retire restore"

lemma idle_check_iff: "idle_check h b \<longleftrightarrow> active_of b h = 0"
  by (auto simp: barrier_defs split: option.splits)

text \<open>No entry outlives its use: every stored entry has a lease or is retired.\<close>

definition no_stale_entry :: "barrier \<Rightarrow> bool" where
  "no_stale_entry b \<longleftrightarrow> (\<forall>h s. b h = Some s \<longrightarrow> 0 < hos_active s \<or> hos_retired s)"

lemma no_stale_entry_ops:
  assumes "no_stale_entry b"
  shows "no_stale_entry (snd (begin_lease h b))" "no_stale_entry (end_lease h b)"
    "no_stale_entry (retire h b)" "no_stale_entry (restore h b)"
  using assms by (auto simp: no_stale_entry_def barrier_defs Let_def split: option.splits if_splits)

lemma no_stale_entry_run: "no_stale_entry b \<Longrightarrow> no_stale_entry (run_barrier es b)"
proof (induction es arbitrary: b)
  case (Cons e es)
  then show ?case by (cases e) (auto simp: run_barrier_def intro: no_stale_entry_ops)
qed (simp add: run_barrier_def)

section \<open>Leases\<close>

text \<open>
  The leases of one host that were granted and not dropped yet, counted along a history from the
  results of \<^verbatim>\<open>begin\<close>; a lease is dropped once, so a history never drops more than were granted.
\<close>

fun leases :: "string \<Rightarrow> barrier_event list \<Rightarrow> barrier \<Rightarrow> nat \<Rightarrow> nat option" where
  "leases h [] b n = Some n"
| "leases h (Begin g # es) b n =
     leases h es (snd (begin_lease g b)) (if g = h \<and> fst (begin_lease g b) then Suc n else n)"
| "leases h (End g # es) b n =
     (if g \<noteq> h then leases h es (end_lease g b) n
      else case n of 0 \<Rightarrow> None | Suc m \<Rightarrow> leases h es (end_lease g b) m)"
| "leases h (Retire g # es) b n = leases h es (retire g b) n"
| "leases h (Restore g # es) b n = leases h es (restore g b) n"

lemma leases_active:
  assumes "leases h es b (active_of b h) = Some n" and "active_of b h + length es \<le> u64_max"
  shows "active_of (run_barrier es b) h = n"
  using assms
proof (induction es arbitrary: b)
  case (Cons e es)
  show ?case
  proof (cases e)
    case (Begin g)
    have "active_of (snd (begin_lease g b)) h \<le> Suc (active_of b h)"
      by (simp add: hb.begin_active saturating_add64_def)
    moreover have "active_of (snd (begin_lease g b)) h
        = (if g = h \<and> fst (begin_lease g b) then Suc (active_of b h) else active_of b h)"
      using Cons.prems(2) by (auto simp: hb.begin_active hb.begin_granted saturating_add64_def)
    ultimately show ?thesis
      using Cons.IH[of "snd (begin_lease g b)"] Cons.prems Begin by (simp add: run_barrier_def)
  next
    case (End g)
    with Cons.IH[of "end_lease g b"] Cons.prems show ?thesis
      by (auto simp: run_barrier_def hb.end_active split: if_splits nat.splits)
  next
    case (Retire g)
    with Cons.IH[of "retire g b"] Cons.prems show ?thesis
      by (simp add: run_barrier_def hb.retire_active)
  next
    case (Restore g)
    with Cons.IH[of "restore g b"] Cons.prems show ?thesis
      by (simp add: run_barrier_def hb.restore_active)
  qed
qed (simp add: run_barrier_def)

text \<open>
  \<^verbatim>\<open>wait_idle\<close> returns exactly when every lease that was granted for the host has been dropped:
  after any history from an empty barrier the check it loops on holds if and only if no lease is
  outstanding, and no entry is kept for a host that has no lease and is not retired.
\<close>

theorem idle_means_no_lease:
  assumes "leases h es Map.empty 0 = Some n" and "length es \<le> u64_max"
  shows "(idle_check h (run_barrier es Map.empty) \<longleftrightarrow> n = 0)
    \<and> (\<forall>g s. run_barrier es Map.empty g = Some s \<longrightarrow> 0 < hos_active s \<or> hos_retired s)"
proof -
  have start: "active_of Map.empty h = 0"
    by (simp add: active_of_def or_default_def default_host_operation_state_def)
  have "active_of (run_barrier es Map.empty) h = n"
    by (rule leases_active) (use assms start in simp_all)
  moreover have "no_stale_entry (run_barrier es Map.empty)"
    by (rule no_stale_entry_run) (simp add: no_stale_entry_def)
  ultimately show ?thesis by (simp add: idle_check_iff no_stale_entry_def)
qed

definition sample_barrier_history :: "barrier_event list" where
  "sample_barrier_history = [Begin ''a'', Begin ''b'', Begin ''a'', End ''a'', Retire ''a'', Begin ''a'']"

lemma idle_means_no_lease_witness:
  "\<not> idle_check ''a'' (run_barrier sample_barrier_history Map.empty)
    \<and> idle_check ''a'' (run_barrier (sample_barrier_history @ [End ''a'']) Map.empty)"
proof -
  have 1: "leases ''a'' sample_barrier_history Map.empty 0 = Some 1"
    and 2: "leases ''a'' (sample_barrier_history @ [End ''a'']) Map.empty 0 = Some 0"
    by (simp_all add: sample_barrier_history_def barrier_defs Let_def saturating_add64_def u64_max_def)
  have "length (sample_barrier_history @ [End ''a'']) \<le> u64_max"
    by (simp add: sample_barrier_history_def u64_max_def)
  then show ?thesis
    using idle_means_no_lease[OF 1] idle_means_no_lease[OF 2] by simp
qed

text \<open>
  The deletion barrier: once a host is retired and idle it stays retired and idle, and every
  \<^verbatim>\<open>begin\<close> for it is refused, whatever other callers do in whatever order, until it is restored.
\<close>

theorem retired_host_stays_idle:
  assumes "is_retired h b" and "idle_check h b" and "Restore h \<notin> set es"
  shows "is_retired h (run_barrier es b) \<and> idle_check h (run_barrier es b)
    \<and> \<not> fst (begin_lease h (run_barrier es b))"
  using hb.retired_run[OF assms(1,3)] assms(2)
  by (simp add: run_barrier_def idle_check_iff hb.begin_granted)

lemma retired_host_stays_idle_witness:
  "\<not> fst (begin_lease ''a'' (run_barrier
      [Begin ''a'', Restore ''b'', End ''a'', Retire ''a''] (retire ''a'' Map.empty)))"
  using retired_host_stays_idle[of "''a''" "retire ''a'' Map.empty"
      "[Begin ''a'', Restore ''b'', End ''a'', Retire ''a'']"]
  by (simp add: barrier_defs)

end
