(* ===== verification/Registry.thy ===== *)
theory Registry
  imports RustBase
begin

text \<open>
  The registries of jobs, transfers and terminals are \<^verbatim>\<open>HashMap\<close>s from identifiers to entries, bounded
  by pruning: while the map is over its limits, the oldest entry that is finished is removed.  A
  \<^verbatim>\<open>HashMap\<close> is an association list with distinct keys, in some order.
\<close>

section \<open>Maps\<close>

definition put :: "'k \<Rightarrow> 'e \<Rightarrow> ('k \<times> 'e) list \<Rightarrow> ('k \<times> 'e) list" where
  "put k e es =
     (if map_of es k = None then es @ [(k, e)]
      else map (\<lambda>(k', e'). if k' = k then (k, e) else (k', e')) es)"

definition del :: "'k \<Rightarrow> ('k \<times> 'e) list \<Rightarrow> ('k \<times> 'e) list" where
  "del k es = filter (\<lambda>p. fst p \<noteq> k) es"

definition keys_ok :: "('k \<times> 'e) list \<Rightarrow> bool" where
  "keys_ok es \<longleftrightarrow> distinct (map fst es)"

lemma map_fst_put: "map fst (put k e es) = (if map_of es k = None then map fst es @ [k] else map fst es)"
  by (auto simp: put_def comp_def split_def)

lemma map_of_put: "map_of (put k e es) k' = (if k' = k then Some e else map_of es k')"
proof (cases "map_of es k")
  case (Some x)
  have "map_of (map (\<lambda>(k', e'). if k' = k then (k, e) else (k', e')) es) k'
      = (if k' = k then map_option (\<lambda>_. e) (map_of es k) else map_of es k')"
    by (induction es) auto
  then show ?thesis using Some by (auto simp: put_def)
qed (auto simp: put_def map_add_def split: option.split)

lemma map_of_del: "map_of (del k es) k' = (if k' = k then None else map_of es k')"
  by (induction es) (auto simp: del_def)

lemma keys_ok_put: "keys_ok es \<Longrightarrow> keys_ok (put k e es)"
  by (auto simp: keys_ok_def map_fst_put map_of_eq_None_iff)

lemma keys_ok_filter: "keys_ok es \<Longrightarrow> keys_ok (filter p es)"
  by (simp add: keys_ok_def distinct_map_filter)

lemma keys_ok_del: "keys_ok es \<Longrightarrow> keys_ok (del k es)"
  by (simp add: del_def keys_ok_filter)

lemma length_put: "length (put k e es) = (if map_of es k = None then Suc (length es) else length es)"
  by (simp add: put_def)

lemma map_of_filter_keys:
  "keys_ok es \<Longrightarrow> map_of (filter p es) k = (case map_of es k of None \<Rightarrow> None | Some e \<Rightarrow> if p (k, e) then Some e else None)"
proof (induction es)
  case (Cons x es)
  then have "map_of es (fst x) = None" by (auto simp: keys_ok_def map_of_eq_None_iff)
  with Cons show ?case by (cases x) (auto simp: keys_ok_def split: option.splits)
qed simp

lemma in_set_map_of: "keys_ok es \<Longrightarrow> (k, e) \<in> set es \<longleftrightarrow> map_of es k = Some e"
  by (simp add: keys_ok_def)

text \<open>Counting the entries with a property when one entry is put.\<close>

definition count_where :: "('k \<times> 'e \<Rightarrow> bool) \<Rightarrow> ('k \<times> 'e) list \<Rightarrow> nat" where
  "count_where p es = length (filter p es)"

lemma count_where_le: "count_where p es \<le> length es"
  by (simp add: count_where_def)

lemma count_where_filter: "count_where p (filter q es) \<le> count_where p es"
  by (induction es) (auto simp: count_where_def)

lemma count_where_put_new:
  "map_of es k = None \<Longrightarrow> count_where p (put k e es) = count_where p es + (if p (k, e) then 1 else 0)"
  by (simp add: count_where_def put_def)

lemma count_where_put_le:
  assumes "map_of es k = Some e" and "p (k, e') \<Longrightarrow> p (k, e)" and "keys_ok es"
  shows "count_where p (put k e' es) \<le> count_where p es"
proof -
  have "length (filter p (map (\<lambda>(k', x). if k' = k then (k, e') else (k', x)) es)) \<le> length (filter p es)"
    if "\<forall>x. (k, x) \<in> set es \<longrightarrow> x = e" for es
    using that
  proof (induction es)
    case (Cons y es)
    then show ?case using assms(2) by (cases y) (auto split: if_splits)
  qed simp
  moreover have "\<forall>x. (k, x) \<in> set es \<longrightarrow> x = e"
    using assms(1,3) by (auto simp: in_set_map_of)
  ultimately show ?thesis using assms(1) by (simp add: put_def count_where_def)
qed

section \<open>Pruning\<close>

text \<open>\<^verbatim>\<open>filter(removable).min_by_key(age)\<close>: the first of the oldest.\<close>

fun oldest :: "('k \<times> 'e \<Rightarrow> bool) \<Rightarrow> ('e \<Rightarrow> 'a :: linorder) \<Rightarrow> ('k \<times> 'e) list \<Rightarrow> ('k \<times> 'e) option" where
  "oldest removable age [] = None"
| "oldest removable age (p # es) =
     (case oldest removable age es of
        None \<Rightarrow> if removable p then Some p else None
      | Some q \<Rightarrow> if removable p \<and> age (snd p) \<le> age (snd q) then Some p else Some q)"

lemma oldest_Some:
  "oldest removable age es = Some p \<Longrightarrow>
     p \<in> set es \<and> removable p \<and> (\<forall>q \<in> set es. removable q \<longrightarrow> age (snd p) \<le> age (snd q))"
proof (induction es arbitrary: p)
  case (Cons q es)
  show ?case
  proof (cases "oldest removable age es")
    case None
    moreover have "\<forall>q \<in> set es. \<not> removable q" using None
      by (induction es) (auto split: option.splits if_splits)
    ultimately show ?thesis using Cons.prems by (auto split: if_splits)
  next
    case (Some q')
    with Cons.IH[OF Some] Cons.prems show ?thesis by (fastforce split: if_splits)
  qed
qed simp

lemma oldest_None: "oldest removable age es = None \<longleftrightarrow> (\<forall>p \<in> set es. \<not> removable p)"
  by (induction es) (auto split: option.splits)

function prune :: "(('k \<times> 'e) list \<Rightarrow> bool) \<Rightarrow> ('k \<times> 'e \<Rightarrow> bool) \<Rightarrow> ('e \<Rightarrow> 'a :: linorder) \<Rightarrow>
    ('k \<times> 'e) list \<Rightarrow> ('k \<times> 'e) list" where
  "prune over removable age es =
     (if over es then
        (case oldest removable age es of
           None \<Rightarrow> es
         | Some p \<Rightarrow> prune over removable age (del (fst p) es))
      else es)"
  by pat_completeness auto
termination
proof (relation "measure (\<lambda>(_, _, _, es). length es)", goal_cases)
  case (2 over removable age es p)
  then have "p \<in> set es" using oldest_Some by blast
  then show ?case by (auto simp: del_def intro!: length_filter_less)
qed simp

declare prune.simps [simp del]

lemma prune_same: "\<not> (over es \<and> oldest removable age es \<noteq> None) \<Longrightarrow> prune over removable age es = es"
  by (subst prune.simps) (cases "oldest removable age es", simp_all)

lemma prune_step:
  "over es \<Longrightarrow> oldest removable age es = Some p \<Longrightarrow>
     prune over removable age es = prune over removable age (del (fst p) es)"
  by (subst prune.simps) simp

text \<open>
  Pruning removes entries only, keeps every entry that is not removable, and removes older entries
  before younger ones.
\<close>

lemma prune_filter: "\<exists>ks. prune over removable age es = filter (\<lambda>p. fst p \<notin> ks) es"
proof (induction over removable age es rule: prune.induct)
  case (1 over removable age es)
  show ?case
  proof (cases "over es \<and> oldest removable age es \<noteq> None")
    case True
    then obtain p where p: "over es" "oldest removable age es = Some p" by auto
    from 1[OF p] obtain ks where
      "prune over removable age (del (fst p) es) = filter (\<lambda>p. fst p \<notin> ks) (del (fst p) es)" by blast
    then have "prune over removable age es = filter (\<lambda>q. fst q \<notin> insert (fst p) ks) es"
      using prune_step[of over es, OF p] by (auto simp: del_def intro: filter_cong)
    then show ?thesis by blast
  next
    case False
    then have "prune over removable age es = filter (\<lambda>p. fst p \<notin> {}) es"
      using prune_same[of over es, OF False] by simp
    then show ?thesis by blast
  qed
qed

lemma prune_subset: "set (prune over removable age es) \<subseteq> set es"
  using prune_filter[of over removable age es] by auto

lemma keys_ok_prune: "keys_ok es \<Longrightarrow> keys_ok (prune over removable age es)"
  using prune_filter[of over removable age es] by (auto simp: keys_ok_filter)

lemma length_prune: "length (prune over removable age es) \<le> length es"
  using prune_filter[of over removable age es] by auto

lemma count_where_prune: "count_where p (prune over removable age es) \<le> count_where p es"
  using prune_filter[of over removable age es] count_where_filter by metis

lemma prune_keeps:
  "keys_ok es \<Longrightarrow> p \<in> set es \<Longrightarrow> \<not> removable p \<Longrightarrow> p \<in> set (prune over removable age es)"
proof (induction over removable age es rule: prune.induct)
  case (1 over removable age es)
  show ?case
  proof (cases "over es \<and> oldest removable age es \<noteq> None")
    case True
    then obtain q where q: "over es" "oldest removable age es = Some q" by auto
    have "q \<in> set es" "removable q" using oldest_Some[OF q(2)] by auto
    then have "fst p \<noteq> fst q"
      using 1(2-4) by (metis eq_key_imp_eq_value keys_ok_def prod.collapse)
    then have "p \<in> set (del (fst q) es)" using 1(3) by (simp add: del_def)
    from 1(1)[OF q keys_ok_del[OF 1(2)] this 1(4)] show ?thesis
      using prune_step[of over es, OF q] by simp
  next
    case False
    with 1 prune_same[of over es, OF False] show ?thesis by simp
  qed
qed

lemma prune_map_of:
  assumes "keys_ok es" and "map_of (prune over removable age es) k = Some e"
  shows "map_of es k = Some e"
  using assms prune_subset[of over removable age es] keys_ok_prune[OF assms(1), of over removable age]
  by (metis in_set_map_of subsetD)

lemma prune_stops:
  "\<not> over (prune over removable age es) \<or> (\<forall>p \<in> set (prune over removable age es). \<not> removable p)"
proof (induction over removable age es rule: prune.induct)
  case (1 over removable age es)
  show ?case
  proof (cases "over es \<and> oldest removable age es \<noteq> None")
    case True
    then obtain q where q: "over es" "oldest removable age es = Some q" by auto
    from 1[OF q] prune_step[of over es, OF q] show ?thesis by simp
  next
    case False
    with prune_same[of over es, OF False] show ?thesis by (auto simp: oldest_None)
  qed
qed

lemma prune_oldest_first:
  assumes "keys_ok es" and "p \<in> set es" and "p \<notin> set (prune over removable age es)"
    and "q \<in> set (prune over removable age es)" and "removable q"
  shows "age (snd p) \<le> age (snd q)"
  using assms
proof (induction over removable age es rule: prune.induct)
  case (1 over removable age es)
  then have "over es \<and> oldest removable age es \<noteq> None"
    using prune_same[of over es removable age] by fastforce
  then obtain r where r: "over es" "oldest removable age es = Some r" by auto
  then have eq: "prune over removable age es = prune over removable age (del (fst r) es)"
    by (rule prune_step)
  show ?case
  proof (cases "fst p = fst r")
    case True
    then have "p = r"
      using 1(2,3) oldest_Some[OF r(2)] by (metis eq_key_imp_eq_value keys_ok_def prod.collapse)
    moreover have "q \<in> set es" using 1(5) prune_subset by blast
    ultimately show ?thesis using oldest_Some[OF r(2)] 1(6) by blast
  next
    case False
    then have "p \<in> set (del (fst r) es)" using 1(3) by (simp add: del_def)
    from 1(1)[OF r keys_ok_del[OF 1(2)] this] 1(4-6) eq show ?thesis by simp
  qed
qed

section \<open>The contract of a bounded registry\<close>

text \<open>
  A retention policy: which maps are over their limits and which entries may go.  Its one law is
  that a map over its limits has an entry that may go, unless too many entries are still in use.
\<close>

locale retention =
  fixes over :: "('k \<times> 'e) list \<Rightarrow> bool"
    and removable :: "'k \<times> 'e \<Rightarrow> bool"
    and age :: "'e \<Rightarrow> 'a :: linorder"
    and in_use_limit :: nat
  assumes over_removable:
    "over es \<Longrightarrow> count_where (\<lambda>p. \<not> removable p) es \<le> in_use_limit \<Longrightarrow> \<exists>p \<in> set es. removable p"
begin

lemma prune_within:
  assumes "count_where (\<lambda>p. \<not> removable p) es \<le> in_use_limit"
  shows "\<not> over (prune over removable age es)"
proof
  assume over: "over (prune over removable age es)"
  have "count_where (\<lambda>p. \<not> removable p) (prune over removable age es) \<le> in_use_limit"
    using count_where_prune assms by (rule le_trans)
  from over_removable[OF over this] prune_stops[of over removable age es] over show False by blast
qed

end

lemma count_list_remove1: "x \<in> set xs \<Longrightarrow> count_list (remove1 x xs) y = (if y = x then count_list xs y - 1 else count_list xs y)"
proof (induction xs)
  case (Cons z xs)
  have "x \<in> set xs \<Longrightarrow> count_list xs x \<noteq> 0" by (simp add: count_list_0_iff)
  with Cons show ?case by auto
qed simp

end
