(* ===== verification/Utf8.thy ===== *)
theory Utf8
  imports RustStr
begin

text \<open>
  The UTF-8 functions of the standard library that the program uses: \<^verbatim>\<open>str::from_utf8\<close>,
  \<^verbatim>\<open>String::from_utf8_lossy\<close>, \<^verbatim>\<open>is_char_boundary\<close>; and the two things the code builds from them: the
  truncation at a character boundary, which several modules repeat, and the incremental
  \<^verbatim>\<open>Utf8StreamDecoder\<close> of \<^verbatim>\<open>session.rs\<close>.
\<close>

section \<open>One sequence\<close>

text \<open>
  The first sequence of some bytes: a scalar value, a maximal broken part of a sequence, or a
  sequence that the end of the input cuts off.
\<close>

datatype utf8_piece = Scalar nat | Broken nat | Cut

definition byte_in :: "nat \<Rightarrow> nat \<Rightarrow> char \<Rightarrow> bool" where
  "byte_in lo hi c \<longleftrightarrow> lo \<le> byte c \<and> byte c \<le> hi"

text \<open>What must follow a leading byte (Unicode, table 3-7).\<close>

definition tail_tests :: "char \<Rightarrow> (char \<Rightarrow> bool) list option" where
  "tail_tests c =
     (let b = byte c; cont = byte_in 128 191
      in if b < 128 then Some []
         else if 194 \<le> b \<and> b \<le> 223 then Some [cont]
         else if b = 224 then Some [byte_in 160 191, cont]
         else if b = 237 then Some [byte_in 128 159, cont]
         else if 225 \<le> b \<and> b \<le> 239 then Some [cont, cont]
         else if b = 240 then Some [byte_in 144 191, cont, cont]
         else if 241 \<le> b \<and> b \<le> 243 then Some [cont, cont, cont]
         else if b = 244 then Some [byte_in 128 143, cont, cont]
         else None)"

fun scan_tail :: "(char \<Rightarrow> bool) list \<Rightarrow> nat \<Rightarrow> string \<Rightarrow> utf8_piece" where
  "scan_tail [] n s = Scalar n"
| "scan_tail (p # ps) n [] = Cut"
| "scan_tail (p # ps) n (b # bs) = (if p b then scan_tail ps (Suc n) bs else Broken n)"

fun utf8_head :: "string \<Rightarrow> utf8_piece" where
  "utf8_head [] = Cut"
| "utf8_head (c # cs) = (case tail_tests c of None \<Rightarrow> Broken 1 | Some ps \<Rightarrow> scan_tail ps 1 cs)"

lemma scan_tail_bounds:
  "scan_tail ps n s = Scalar k \<Longrightarrow> n \<le> k \<and> k \<le> n + length s"
  "scan_tail ps n s = Broken k \<Longrightarrow> n \<le> k \<and> k \<le> n + length s"
  by (induction ps n s rule: scan_tail.induct) (auto split: if_splits)

lemma utf8_head_bounds:
  "utf8_head s = Scalar k \<Longrightarrow> 0 < k \<and> k \<le> length s"
  "utf8_head s = Broken k \<Longrightarrow> 0 < k \<and> k \<le> length s"
  by (cases s; auto split: option.splits dest: scan_tail_bounds)+

lemma scan_tail_append:
  "scan_tail ps n s = Scalar k \<Longrightarrow> scan_tail ps n (s @ t) = Scalar k"
  "scan_tail ps n s = Broken k \<Longrightarrow> scan_tail ps n (s @ t) = Broken k"
  by (induction ps n s rule: scan_tail.induct) (auto split: if_splits)

lemma utf8_head_append:
  "utf8_head s = Scalar k \<Longrightarrow> utf8_head (s @ t) = Scalar k"
  "utf8_head s = Broken k \<Longrightarrow> utf8_head (s @ t) = Broken k"
  by (cases s; auto split: option.splits dest: scan_tail_append)+

lemma scan_tail_take:
  "scan_tail ps n s = Scalar k \<Longrightarrow> scan_tail ps n (take (k - n) s) = Scalar k"
proof (induction ps n s rule: scan_tail.induct)
  case (3 p ps n b bs)
  then have "Suc n \<le> k" by (auto dest: scan_tail_bounds split: if_splits)
  then have "k - n = Suc (k - Suc n)" by simp
  with 3 show ?case by (auto split: if_splits)
qed simp_all

lemma utf8_head_take: "utf8_head s = Scalar k \<Longrightarrow> utf8_head (take k s) = Scalar k"
proof (cases s)
  case (Cons c cs)
  assume "utf8_head s = Scalar k"
  with Cons utf8_head_bounds(1)[of s k] show ?thesis
    by (cases k) (auto split: option.splits dest: scan_tail_take)
qed simp

text \<open>The bytes after the first of a scalar value are continuation bytes.\<close>

lemma scan_tail_cont:
  assumes "scan_tail ps n s = Scalar k" and "\<forall>p \<in> set ps. \<forall>c. p c \<longrightarrow> is_cont c" and "i < k - n"
  shows "is_cont (s ! i)"
  using assms
proof (induction ps n s arbitrary: i rule: scan_tail.induct)
  case (3 p ps n b bs)
  show ?case
  proof (cases i)
    case (Suc j)
    with 3 have "is_cont (bs ! j)" by (intro 3(1)) (auto split: if_splits)
    with Suc show ?thesis by simp
  qed (use 3 in \<open>auto split: if_splits\<close>)
qed auto

lemma tail_tests_cont: "tail_tests c = Some ps \<Longrightarrow> p \<in> set ps \<Longrightarrow> p b \<Longrightarrow> is_cont b"
  by (auto simp: tail_tests_def Let_def byte_in_def is_cont_def split: if_splits)

lemma utf8_head_cont:
  assumes "utf8_head s = Scalar k" and "0 < i" and "i < k"
  shows "is_cont (s ! i)"
proof (cases s)
  case (Cons c cs)
  with assms obtain ps where ps: "tail_tests c = Some ps" "scan_tail ps 1 cs = Scalar k"
    by (auto split: option.splits)
  have "is_cont (cs ! (i - 1))"
    by (rule scan_tail_cont[OF ps(2)]) (use tail_tests_cont[OF ps(1)] assms in auto)
  with Cons assms show ?thesis by simp
qed (use assms in simp)

section \<open>from\_utf8 and from\_utf8\_lossy\<close>

text \<open>\<open>None\<close> is \<^verbatim>\<open>Ok\<close>; otherwise \<^verbatim>\<open>valid_up_to\<close> and \<^verbatim>\<open>error_len\<close> of the error.\<close>

function from_utf8 :: "string \<Rightarrow> (nat \<times> nat option) option" where
  "from_utf8 s =
     (if s = [] then None
      else case utf8_head s of
        Scalar n \<Rightarrow> (case from_utf8 (drop n s) of None \<Rightarrow> None | Some (v, l) \<Rightarrow> Some (n + v, l))
      | Broken n \<Rightarrow> Some (0, Some n)
      | Cut \<Rightarrow> Some (0, None))"
  by pat_completeness auto
termination
  by (relation "measure length") (auto dest: utf8_head_bounds)

definition valid_utf8 :: "string \<Rightarrow> bool" where
  "valid_utf8 s \<longleftrightarrow> from_utf8 s = None"

text \<open>U+FFFD.\<close>

definition replacement :: string where
  "replacement = [CHR 0xEF, CHR 0xBF, CHR 0xBD]"

function from_utf8_lossy :: "string \<Rightarrow> string" where
  "from_utf8_lossy s =
     (if s = [] then []
      else case utf8_head s of
        Scalar n \<Rightarrow> take n s @ from_utf8_lossy (drop n s)
      | Broken n \<Rightarrow> replacement @ from_utf8_lossy (drop n s)
      | Cut \<Rightarrow> replacement)"
  by pat_completeness auto
termination
  by (relation "measure length") (auto dest: utf8_head_bounds)

declare from_utf8.simps [simp del] from_utf8_lossy.simps [simp del]

lemma from_utf8_Nil [simp]: "from_utf8 [] = None"
  by (simp add: from_utf8.simps)

lemma lossy_Nil [simp]: "from_utf8_lossy [] = []"
  by (simp add: from_utf8_lossy.simps)

lemma lossy_Scalar: "utf8_head s = Scalar n \<Longrightarrow> from_utf8_lossy s = take n s @ from_utf8_lossy (drop n s)"
  by (cases "s = []") (simp_all add: from_utf8_lossy.simps[of s])

lemma lossy_Broken: "utf8_head s = Broken n \<Longrightarrow> from_utf8_lossy s = replacement @ from_utf8_lossy (drop n s)"
  by (cases "s = []") (simp_all add: from_utf8_lossy.simps[of s])

lemma valid_Nil [simp]: "valid_utf8 []"
  by (simp add: valid_utf8_def)

lemma valid_Scalar: "utf8_head s = Scalar n \<Longrightarrow> valid_utf8 s \<longleftrightarrow> valid_utf8 (drop n s)"
  by (cases "s = []") (auto simp: valid_utf8_def from_utf8.simps[of s] split: option.splits)

lemma valid_head: "valid_utf8 s \<Longrightarrow> s \<noteq> [] \<Longrightarrow> \<exists>n. utf8_head s = Scalar n \<and> 0 < n \<and> n \<le> length s"
  by (cases "utf8_head s") (auto simp: valid_utf8_def from_utf8.simps[of s] dest: utf8_head_bounds)

lemma valid_induct [consumes 1, case_names Nil Scalar]:
  assumes "valid_utf8 s" and "P []"
    and "\<And>s n. utf8_head s = Scalar n \<Longrightarrow> 0 < n \<Longrightarrow> n \<le> length s \<Longrightarrow> valid_utf8 s \<Longrightarrow> valid_utf8 (drop n s)
      \<Longrightarrow> P (drop n s) \<Longrightarrow> P s"
  shows "P s"
  using assms(1)
proof (induction s rule: measure_induct_rule[of length])
  case (less s)
  show ?case
  proof (cases "s = []")
    case False
    then obtain n where n: "utf8_head s = Scalar n" "0 < n" "n \<le> length s"
      using valid_head less.prems by blast
    with less.prems have "valid_utf8 (drop n s)" by (simp add: valid_Scalar)
    moreover from this n False have "P (drop n s)" by (intro less.IH) simp_all
    ultimately show ?thesis using assms(3)[OF n less.prems] by simp
  qed (use assms(2) in simp)
qed

lemma valid_append: "valid_utf8 s \<Longrightarrow> valid_utf8 t \<Longrightarrow> valid_utf8 (s @ t)"
proof (induction rule: valid_induct)
  case (Scalar s n)
  from utf8_head_append(1)[OF Scalar(1)] Scalar show ?case by (simp add: valid_Scalar[of "s @ t"])
qed simp

lemma lossy_valid: "valid_utf8 s \<Longrightarrow> from_utf8_lossy s = s"
  by (induction rule: valid_induct) (simp_all add: lossy_Scalar)

lemma valid_replacement: "valid_utf8 replacement"
  by code_simp

lemma valid_take_Scalar: "utf8_head s = Scalar n \<Longrightarrow> valid_utf8 (take n s)"
  using utf8_head_take[of s n] valid_Scalar[of "take n s" n] by simp

lemma valid_lossy: "valid_utf8 (from_utf8_lossy s)"
proof (induction s rule: measure_induct_rule[of length])
  case (less s)
  show ?case
  proof (cases "s = []")
    case False
    show ?thesis
    proof (cases "utf8_head s")
      case (Scalar n)
      with utf8_head_bounds(1)[OF Scalar] less[of "drop n s"] False show ?thesis
        by (auto simp: lossy_Scalar intro: valid_append valid_take_Scalar)
    next
      case (Broken n)
      with utf8_head_bounds(2)[OF Broken] less[of "drop n s"] False show ?thesis
        by (auto simp: lossy_Broken intro: valid_append valid_replacement)
    next
      case Cut
      with False show ?thesis by (simp add: from_utf8_lossy.simps[of s] valid_replacement)
    qed
  qed simp
qed

section \<open>Character boundaries\<close>

definition is_char_boundary :: "string \<Rightarrow> nat \<Rightarrow> bool" where
  "is_char_boundary s i \<longleftrightarrow> i = 0 \<or> i = length s \<or> (i < length s \<and> \<not> is_cont (s ! i))"

lemma valid_take:
  "valid_utf8 s \<Longrightarrow> is_char_boundary s i \<Longrightarrow> valid_utf8 (take i s)"
proof (induction arbitrary: i rule: valid_induct)
  case (Scalar s n)
  show ?case
  proof (cases "i < n")
    case True
    then have "i = 0"
      using Scalar utf8_head_cont[OF Scalar(1)] by (auto simp: is_char_boundary_def)
    then show ?thesis by simp
  next
    case False
    then have "is_char_boundary (drop n s) (i - n)"
      using Scalar by (auto simp: is_char_boundary_def)
    with Scalar.IH have "valid_utf8 (take (i - n) (drop n s))" by simp
    moreover have "take i s = take n s @ take (i - n) (drop n s)"
      using False by (simp add: take_add[symmetric])
    ultimately show ?thesis using valid_take_Scalar[OF Scalar(1)] by (simp add: valid_append)
  qed
qed simp

text \<open>\<^verbatim>\<open>while end > 0 && !value.is_char_boundary(end) { end -= 1; }\<close>\<close>

fun floor_boundary :: "string \<Rightarrow> nat \<Rightarrow> nat" where
  "floor_boundary s 0 = 0"
| "floor_boundary s (Suc n) = (if is_char_boundary s (Suc n) then Suc n else floor_boundary s n)"

lemma floor_boundary_le: "floor_boundary s n \<le> n"
  by (induction n) (auto intro: le_SucI)

lemma floor_boundary: "is_char_boundary s (floor_boundary s n)"
  by (induction n) (auto simp: is_char_boundary_def)

text \<open>\<^verbatim>\<open>truncate_utf8\<close>: the longest prefix of at most \<open>max_bytes\<close> bytes that ends at a boundary.\<close>

definition truncate_utf8 :: "string \<Rightarrow> nat \<Rightarrow> string" where
  "truncate_utf8 value max_bytes = take (floor_boundary value (min (length value) max_bytes)) value"

lemma length_truncate_utf8: "length (truncate_utf8 s n) \<le> n"
  using floor_boundary_le[of s "min (length s) n"] by (simp add: truncate_utf8_def)

lemma valid_truncate_utf8: "valid_utf8 s \<Longrightarrow> valid_utf8 (truncate_utf8 s n)"
  by (simp add: truncate_utf8_def valid_take floor_boundary)

section \<open>The incremental decoder of session.rs\<close>

lemma from_utf8_error:
  "from_utf8 s = Some (v, l) \<Longrightarrow>
     valid_utf8 (take v s) \<and> drop v s \<noteq> [] \<and> utf8_head (drop v s) = (case l of None \<Rightarrow> Cut | Some k \<Rightarrow> Broken k)"
proof (induction s arbitrary: v l rule: measure_induct_rule[of length])
  case (less s)
  then have ne: "s \<noteq> []" by auto
  show ?case
  proof (cases "utf8_head s")
    case (Scalar n)
    then obtain w where w: "from_utf8 (drop n s) = Some (w, l)" "v = n + w"
      using less.prems ne by (auto simp: from_utf8.simps[of s] split: option.splits)
    have "0 < n" using utf8_head_bounds(1)[OF Scalar] by simp
    with less.IH[OF _ w(1)] ne w(2) valid_take_Scalar[OF Scalar] show ?thesis
      by (auto simp: take_add valid_append add.commute)
  qed (use less.prems ne in \<open>auto simp: from_utf8.simps[of s]\<close>)
qed

text \<open>\<open>push\<close> after \<^verbatim>\<open>extend_from_slice\<close>: the strings that are complete and what stays pending.\<close>

function decoder_loop :: "string \<Rightarrow> string list \<times> string" where
  "decoder_loop pending =
     (case from_utf8 pending of
        None \<Rightarrow> (if pending = [] then [] else [pending], [])
      | Some (valid, invalid) \<Rightarrow>
          let outs = (if 0 < valid then [from_utf8_lossy (take valid pending)] else []);
              pending = drop valid pending
          in (case invalid of
                None \<Rightarrow> (outs, pending)
              | Some invalid \<Rightarrow>
                  let (rest, pending') = decoder_loop (drop invalid pending)
                  in (outs @ from_utf8_lossy (take invalid pending) # rest, pending')))"
  by pat_completeness auto
termination
proof (relation "measure length", goal_cases)
  case (2 pending p valid invalid outs pending' k)
  then have e: "from_utf8 pending = Some (valid, Some k)" by simp
  from from_utf8_error[OF e] have "0 < k" "pending \<noteq> []"
    using utf8_head_bounds(2) by auto
  with 2 show ?case by auto
qed simp

definition decoder_push :: "string \<Rightarrow> string \<Rightarrow> string list \<times> string" where
  "decoder_push pending bytes = decoder_loop (pending @ bytes)"

definition decoder_finish :: "string \<Rightarrow> string option" where
  "decoder_finish pending = (if pending \<noteq> [] then Some (from_utf8_lossy pending) else None)"

text \<open>Everything one stream produces, given how its bytes were cut into reads.\<close>

fun decoder_stream :: "string list \<Rightarrow> string \<Rightarrow> string" where
  "decoder_stream [] pending = (case decoder_finish pending of None \<Rightarrow> [] | Some s \<Rightarrow> s)"
| "decoder_stream (bytes # reads) pending =
     (let (outs, pending) = decoder_push pending bytes in concat outs @ decoder_stream reads pending)"

declare decoder_loop.simps [simp del]

lemma lossy_append_valid: "valid_utf8 s \<Longrightarrow> from_utf8_lossy (s @ t) = s @ from_utf8_lossy t"
proof (induction rule: valid_induct)
  case (Scalar s n)
  from utf8_head_append(1)[OF Scalar(1), of t] Scalar show ?case
    by (simp add: lossy_Scalar[of "s @ t"])
qed simp

lemma lossy_append_broken:
  assumes "utf8_head s = Broken k"
  shows "from_utf8_lossy (s @ t) = replacement @ from_utf8_lossy (drop k s @ t)"
  using utf8_head_append(2)[OF assms, of t] utf8_head_bounds(2)[OF assms] by (simp add: lossy_Broken)

lemma scan_tail_shorter:
  "scan_tail ps n s = Broken k \<Longrightarrow>
     scan_tail ps n (take (k - n) s) = Cut \<or> scan_tail ps n (take (k - n) s) = Broken k"
proof (induction ps n s rule: scan_tail.induct)
  case (3 p ps n b bs)
  show ?case
  proof (cases "p b")
    case True
    with 3 have r: "scan_tail ps (Suc n) bs = Broken k" by simp
    then have "Suc n \<le> k" using scan_tail_bounds(2) by blast
    then have "k - n = Suc (k - Suc n)" by simp
    with 3(1)[OF True r] True show ?thesis by simp
  qed (use 3 in auto)
qed simp_all

text \<open>The bytes \<open>error_len\<close> covers decode to one replacement character.\<close>

lemma lossy_error:
  assumes "utf8_head s = Broken k"
  shows "from_utf8_lossy (take k s) = replacement"
proof (cases s)
  case (Cons c cs)
  have k: "0 < k" "k \<le> length s" using utf8_head_bounds(2)[OF assms] by simp_all
  then have t: "take k s = c # take (k - 1) cs" using Cons by (cases k) auto
  have "utf8_head (take k s) = Cut \<or> utf8_head (take k s) = Broken k"
    unfolding t using assms Cons k scan_tail_shorter[of _ 1 cs k]
    by (auto split: option.splits)
  then show ?thesis
    using lossy_Broken[of "take k s" k] k t from_utf8_lossy.simps[of "take k s"] by auto
qed (use assms in simp)

lemma decoder_loop_lossy:
  "decoder_loop p = (outs, q) \<Longrightarrow> from_utf8_lossy (p @ t) = concat outs @ from_utf8_lossy (q @ t)"
proof (induction p arbitrary: outs q rule: measure_induct_rule[of length])
  case (less p)
  show ?case
  proof (cases "from_utf8 p")
    case None
    then have "outs = (if p = [] then [] else [p])" "q = []"
      using less.prems by (auto simp: decoder_loop.simps[of p])
    with None show ?thesis by (simp add: lossy_append_valid valid_utf8_def)
  next
    case (Some e)
    obtain v l where e: "e = (v, l)" by fastforce
    then have err: "from_utf8 p = Some (v, l)" using Some by simp
    note split = from_utf8_error[OF err]
    define out where "out = (if 0 < v then [from_utf8_lossy (take v p)] else [])"
    have out: "concat out = take v p" using split by (simp add: out_def lossy_valid)
    have p: "from_utf8_lossy (p @ t) = take v p @ from_utf8_lossy (drop v p @ t)"
      using split lossy_append_valid[of "take v p" "drop v p @ t"] by (simp flip: append_assoc)
    show ?thesis
    proof (cases l)
      case None
      with less.prems err out p show ?thesis
        by (simp add: decoder_loop.simps[of p] Let_def out_def)
    next
      case k: (Some k)
      then have broken: "utf8_head (drop v p) = Broken k" using split by simp
      have "0 < k" "p \<noteq> []" using utf8_head_bounds(2)[OF broken] split by auto
      then have shorter: "length (drop k (drop v p)) < length p" by (simp add: length_greater_0_conv)
      obtain rest q' where rest: "decoder_loop (drop k (drop v p)) = (rest, q')" by fastforce
      have "outs = out @ from_utf8_lossy (take k (drop v p)) # rest" "q = q'"
        using less.prems err k rest by (simp_all add: decoder_loop.simps[of p] Let_def out_def)
      with less.IH[OF shorter rest] p out lossy_append_broken[OF broken, of t] lossy_error[OF broken]
      show ?thesis by simp
    qed
  qed
qed

text \<open>
  C19: the terminal's incremental decoder is independent of how the bytes were cut into reads: over
  any sequence of reads it produces, in total, exactly the lossy decoding of the whole stream.
\<close>

theorem decoder_is_chunk_independent:
  "decoder_stream reads [] = from_utf8_lossy (concat reads)"
proof -
  have "decoder_stream reads p = from_utf8_lossy (p @ concat reads)" for p
  proof (induction reads arbitrary: p)
    case (Cons r rs)
    then show ?case
      using decoder_loop_lossy[of "p @ r" _ _ "concat rs"] by (auto simp: decoder_push_def split: prod.split)
  qed (simp add: decoder_finish_def)
  from this[of "[]"] show ?thesis by simp
qed

end
