(* ===== verification/CommandJobs.thy ===== *)
theory CommandJobs
  imports CommandRequest Barrier Registry Utf8
begin

text \<open>
  \<^verbatim>\<open>crates/remotedeck-core/src/command_job.rs\<close>, the part that owns processes: the registry of jobs,
  the executor task of each job and the retirement of a host.

  The entries are behind one lock: each critical section is one operation.  An executor is a task
  of its own; \<open>exec_step\<close> is one turn of its \<^verbatim>\<open>select!\<close>s.  Records handed to the broadcast channel are
  collected in the order of the critical sections that made them; the sends themselves happen after
  the lock is released, so a subscriber orders them by revision.
\<close>

section \<open>Jobs\<close>

definition COMMAND_OUTPUT_LIMIT :: nat where "COMMAND_OUTPUT_LIMIT = 1024 * 1024"
definition OUTPUT_TRUNCATED_MARKER :: string where
  "OUTPUT_TRUNCATED_MARKER = CHR 0x0A # ''[RemoteDeck: output truncated at 1 MiB]''"
definition MAX_CONCURRENT_JOBS :: nat where "MAX_CONCURRENT_JOBS = 16"
definition MAX_PENDING_JOBS :: nat where "MAX_PENDING_JOBS = 128"
definition MAX_RETAINED_JOBS :: nat where "MAX_RETAINED_JOBS = 512"
definition MAX_RETAINED_OUTPUT_BYTES :: nat where "MAX_RETAINED_OUTPUT_BYTES = 16 * 1024 * 1024"

datatype command_job_state =
  JobQueued | JobRunning | JobCancelling | JobCompleted | JobFailed | JobCancelled

fun job_terminal :: "command_job_state \<Rightarrow> bool" where
  "job_terminal JobCompleted = True"
| "job_terminal JobFailed = True"
| "job_terminal JobCancelled = True"
| "job_terminal _ = False"

record command_job =
  cj_id :: string
  cj_revision :: nat
  cj_command_id :: "string option"
  cj_host_id :: string
  cj_name :: string
  cj_command :: string
  cj_risk :: command_risk
  cj_state :: command_job_state
  cj_stdout :: string
  cj_stderr :: string
  cj_exit_code :: "int option"
  cj_error :: "string option"
  cj_started_at :: "timestamp option"
  cj_finished_at :: "timestamp option"

record job_entry =
  je_job :: command_job
  je_sequence :: nat
  je_stdout_truncated :: bool
  je_stderr_truncated :: bool

datatype output_stream = Stdout | Stderr

type_synonym job_entries = "(string \<times> job_entry) list"

definition revise_command_job :: "command_job \<Rightarrow> command_job" where
  "revise_command_job job = job\<lparr>cj_revision := saturating_add64 (cj_revision job) 1\<rparr>"

definition is_terminal_entry :: "string \<times> job_entry \<Rightarrow> bool" where
  "is_terminal_entry p \<longleftrightarrow> job_terminal (cj_state (je_job (snd p)))"

definition entry_bytes :: "job_entry \<Rightarrow> nat \<Rightarrow> nat" where
  "entry_bytes entry so_far =
     saturating_add64 (saturating_add64 (saturating_add64 so_far (length (cj_stdout (je_job entry))))
       (length (cj_stderr (je_job entry))))
       (case cj_error (je_job entry) of None \<Rightarrow> 0 | Some e \<Rightarrow> length e)"

definition retained_output_bytes :: "job_entries \<Rightarrow> nat" where
  "retained_output_bytes entries = fold (\<lambda>p. entry_bytes (snd p)) (filter is_terminal_entry entries) 0"

definition jobs_over :: "nat \<Rightarrow> job_entries \<Rightarrow> bool" where
  "jobs_over limit entries \<longleftrightarrow>
     length entries \<ge> limit \<or> retained_output_bytes entries > MAX_RETAINED_OUTPUT_BYTES"

definition prune_terminal_jobs :: "job_entries \<Rightarrow> nat \<Rightarrow> job_entries" where
  "prune_terminal_jobs entries limit = prune (jobs_over limit) is_terminal_entry je_sequence entries"

subsection \<open>Output\<close>

definition append_bounded :: "string \<Rightarrow> bool \<Rightarrow> string \<Rightarrow> bool \<times> string \<times> bool" where
  "append_bounded target truncated data =
     (if data = [] \<or> truncated then (False, target, truncated)
      else
        let v = from_utf8_lossy data
        in if length target + length v \<le> COMMAND_OUTPUT_LIMIT then (True, target @ v, truncated)
        else
          let content_limit = COMMAND_OUTPUT_LIMIT - length OUTPUT_TRUNCATED_MARKER;
              target = truncate_utf8 target content_limit;
              remaining = content_limit - length target;
              target = (if 0 < remaining
                then target @ take (floor_boundary v (min remaining (length v))) v else target)
          in (True, target @ OUTPUT_TRUNCATED_MARKER, True))"

definition bounded_error :: "string \<Rightarrow> string" where
  "bounded_error v = truncate_utf8 v 4096"

section \<open>The registry\<close>

datatype exit_status = ExitCode int | Signalled

text \<open>The variables of \<^verbatim>\<open>execute_job\<close>'s loop.\<close>

record exec_locals =
  el_status :: "(string + exit_status) option"
  el_pipes_open :: bool
  el_cancellation_seen :: bool
  el_deadline :: bool
  el_cancellation_failure :: "string option"
  el_pipe_error :: "string option"

datatype phase = Waiting | Spawning | Looping exec_locals | Done

text \<open>
  \<open>js_marked\<close>: cancelled or cancelling jobs whose \<^verbatim>\<open>sender.send(true)\<close> is still to come; \<open>js_flags\<close>: jobs
  whose watch holds \<^verbatim>\<open>true\<close>; \<open>js_starting\<close>: hosts of calls that hold a lease and have not registered
  their job yet; \<open>js_permits\<close>: free permits of the semaphore.
\<close>

record job_system =
  js_entries :: job_entries
  js_next_sequence :: nat
  js_barrier :: barrier
  js_starting :: "string list"
  js_phases :: "string \<Rightarrow> phase"
  js_marked :: "string set"
  js_flags :: "string set"
  js_permits :: nat
  js_announced :: "command_job list"

definition new_registry :: "nat \<Rightarrow> job_system job_result" where
  "new_registry max_concurrency =
     (if max_concurrency = 0 \<or> max_concurrency > MAX_CONCURRENT_JOBS
      then Inl (InvalidRequest ''max concurrency must be between 1 and 16'')
      else Inr \<lparr>js_entries = [], js_next_sequence = 0, js_barrier = Map.empty, js_starting = [],
        js_phases = (\<lambda>_. Done), js_marked = {}, js_flags = {}, js_permits = max_concurrency,
        js_announced = []\<rparr>)"

definition announce :: "command_job \<Rightarrow> job_system \<Rightarrow> job_system" where
  "announce job s = s\<lparr>js_announced := js_announced s @ [job]\<rparr>"

definition set_entry :: "string \<Rightarrow> job_entry \<Rightarrow> job_system \<Rightarrow> job_system" where
  "set_entry job_id entry s = s\<lparr>js_entries := put job_id entry (js_entries s)\<rparr>"

definition list_jobs :: "string option \<Rightarrow> job_system \<Rightarrow> command_job list" where
  "list_jobs host_id s =
     map (\<lambda>p. je_job (snd p)) (sort_key (\<lambda>p. je_sequence (snd p))
       (filter (\<lambda>p. case host_id of None \<Rightarrow> True | Some i \<Rightarrow> cj_host_id (je_job (snd p)) = i) (js_entries s)))"

definition insert_job :: "string \<Rightarrow> command_job \<Rightarrow> job_system \<Rightarrow> job_system" where
  "insert_job job_id job s =
     announce job (set_entry job_id
       \<lparr>je_job = job, je_sequence = js_next_sequence s, je_stdout_truncated = False, je_stderr_truncated = False\<rparr>
       (s\<lparr>js_next_sequence := saturating_add64 (js_next_sequence s) 1\<rparr>))"

definition live_jobs :: "job_entries \<Rightarrow> nat" where
  "live_jobs entries = count_where (\<lambda>p. \<not> is_terminal_entry p) entries"

definition queued_job :: "string \<Rightarrow> prepared_command \<Rightarrow> command_job" where
  "queued_job job_id prepared =
     \<lparr>cj_id = job_id, cj_revision = 1, cj_command_id = pc_command_id prepared,
      cj_host_id = hp_id (pc_host prepared), cj_name = pc_name prepared,
      cj_command = pc_display_command prepared, cj_risk = pc_risk prepared, cj_state = JobQueued,
      cj_stdout = [], cj_stderr = [], cj_exit_code = None, cj_error = None, cj_started_at = None,
      cj_finished_at = None\<rparr>"

text \<open>\<open>start_process\<close>: registers the job and spawns its executor.\<close>

definition start_process :: "string \<Rightarrow> prepared_command \<Rightarrow> job_system \<Rightarrow> command_job job_result \<times> job_system" where
  "start_process job_id prepared s =
     (let job = queued_job job_id prepared;
          s = s\<lparr>js_entries := prune_terminal_jobs (js_entries s) MAX_RETAINED_JOBS\<rparr>
      in if live_jobs (js_entries s) \<ge> MAX_PENDING_JOBS
         then (Inl (ProcessError (''command queue is full; at most '' @ dec MAX_PENDING_JOBS
                 @ '' active or queued jobs are allowed'')), s)
         else (Inr job, (insert_job job_id job s)\<lparr>js_phases := (js_phases s)(job_id := Waiting)\<rparr>))"

definition handoff_job :: "timestamp \<Rightarrow> string \<Rightarrow> pty_command_plan \<Rightarrow> string \<Rightarrow> command_job" where
  "handoff_job now job_id plan session_id =
     \<lparr>cj_id = job_id, cj_revision = 1, cj_command_id = pcp_command_id plan, cj_host_id = pcp_host_id plan,
      cj_name = pcp_name plan, cj_command = pcp_command plan, cj_risk = pcp_risk plan,
      cj_state = JobCompleted, cj_stdout = ''Opened interactive terminal session '' @ session_id @ ''.'',
      cj_stderr = [], cj_exit_code = Some 0, cj_error = None, cj_started_at = Some now,
      cj_finished_at = Some now\<rparr>"

definition record_pty_handoff ::
    "timestamp \<Rightarrow> string \<Rightarrow> pty_command_plan \<Rightarrow> string \<Rightarrow> job_system \<Rightarrow> command_job \<times> job_system" where
  "record_pty_handoff now job_id plan session_id s =
     (let job = handoff_job now job_id plan session_id
      in (job, insert_job job_id job (s\<lparr>js_entries := prune_terminal_jobs (js_entries s) MAX_RETAINED_JOBS\<rparr>)))"

text \<open>The critical section of \<open>cancel\<close>, then \<^verbatim>\<open>sender.send(true)\<close>.\<close>

definition cancel_job :: "timestamp \<Rightarrow> string \<Rightarrow> job_system \<Rightarrow> command_job job_result \<times> job_system" where
  "cancel_job now job_id s =
     (case map_of (js_entries s) job_id of
        None \<Rightarrow> (Inl (UnknownJob job_id), s)
      | Some entry \<Rightarrow>
          let job = je_job entry
          in if job_terminal (cj_state job) then (Inr job, s)
          else if cj_state job = JobCancelling then (Inr job, s)
          else
            let job = (if cj_state job = JobQueued
                  then job\<lparr>cj_state := JobCancelled, cj_finished_at := Some now\<rparr>
                  else job\<lparr>cj_state := JobCancelling\<rparr>);
                job = revise_command_job job;
                s = announce job (set_entry job_id (entry\<lparr>je_job := job\<rparr>) s)
            in (Inr job, s\<lparr>js_marked := insert job_id (js_marked s)\<rparr>))"

definition send_cancel :: "string \<Rightarrow> job_system \<Rightarrow> job_system" where
  "send_cancel job_id s =
     s\<lparr>js_marked := js_marked s - {job_id}, js_flags := insert job_id (js_flags s)\<rparr>"

subsection \<open>Transitions of the executor\<close>

definition transition_running :: "timestamp \<Rightarrow> string \<Rightarrow> job_system \<Rightarrow> bool \<times> job_system" where
  "transition_running now job_id s =
     (case map_of (js_entries s) job_id of
        None \<Rightarrow> (False, s)
      | Some entry \<Rightarrow>
          if cj_state (je_job entry) \<noteq> JobQueued then (False, s)
          else
            let job = revise_command_job ((je_job entry)\<lparr>cj_state := JobRunning, cj_started_at := Some now\<rparr>)
            in (True, announce job (set_entry job_id (entry\<lparr>je_job := job\<rparr>) s)))"

definition job_active :: "command_job_state \<Rightarrow> bool" where
  "job_active state \<longleftrightarrow> state = JobRunning \<or> state = JobCancelling"

definition append_job_output :: "string \<Rightarrow> output_stream \<Rightarrow> string \<Rightarrow> job_system \<Rightarrow> job_system" where
  "append_job_output job_id stream data s =
     (case map_of (js_entries s) job_id of
        None \<Rightarrow> s
      | Some entry \<Rightarrow>
          if \<not> job_active (cj_state (je_job entry)) then s
          else
            let job = je_job entry;
                (changed, target, truncated) =
                  (case stream of
                     Stdout \<Rightarrow> append_bounded (cj_stdout job) (je_stdout_truncated entry) data
                   | Stderr \<Rightarrow> append_bounded (cj_stderr job) (je_stderr_truncated entry) data)
            in if \<not> changed then s
            else
              let job = revise_command_job (case stream of
                      Stdout \<Rightarrow> job\<lparr>cj_stdout := target\<rparr> | Stderr \<Rightarrow> job\<lparr>cj_stderr := target\<rparr>);
                  entry = (case stream of
                      Stdout \<Rightarrow> entry\<lparr>je_job := job, je_stdout_truncated := truncated\<rparr>
                    | Stderr \<Rightarrow> entry\<lparr>je_job := job, je_stderr_truncated := truncated\<rparr>)
              in announce job (set_entry job_id entry s))"

definition finish_job ::
    "timestamp \<Rightarrow> string \<Rightarrow> command_job_state \<Rightarrow> int option \<Rightarrow> string option \<Rightarrow> job_system \<Rightarrow> job_system" where
  "finish_job now job_id state exit_code error s =
     (case map_of (js_entries s) job_id of
        None \<Rightarrow> s
      | Some entry \<Rightarrow>
          if \<not> job_active (cj_state (je_job entry)) then s
          else
            let job = revise_command_job ((je_job entry)\<lparr>cj_state := state, cj_exit_code := exit_code,
                    cj_error := error, cj_finished_at := Some now\<rparr>);
                s = announce job (set_entry job_id (entry\<lparr>je_job := job\<rparr>) s)
            in s\<lparr>js_entries := prune_terminal_jobs (js_entries s) MAX_RETAINED_JOBS\<rparr>)"

definition finish_completed :: "timestamp \<Rightarrow> string \<Rightarrow> int option \<Rightarrow> job_system \<Rightarrow> job_system" where
  "finish_completed now job_id exit_code s = finish_job now job_id JobCompleted exit_code None s"

definition finish_failed :: "timestamp \<Rightarrow> string \<Rightarrow> string \<Rightarrow> int option \<Rightarrow> job_system \<Rightarrow> job_system" where
  "finish_failed now job_id error exit_code s =
     finish_job now job_id JobFailed exit_code (Some (bounded_error error)) s"

definition finish_cancelled :: "timestamp \<Rightarrow> string \<Rightarrow> job_system \<Rightarrow> job_system" where
  "finish_cancelled now job_id s =
     (case map_of (js_entries s) job_id of
        None \<Rightarrow> s
      | Some entry \<Rightarrow>
          let job = je_job entry;
              changed = (cj_state job \<noteq> JobCancelled \<or> cj_finished_at job = None);
              job = job\<lparr>cj_state := JobCancelled,
                cj_finished_at := (case cj_finished_at job of None \<Rightarrow> Some now | Some t \<Rightarrow> Some t)\<rparr>
          in if \<not> changed then s
          else
            let job = revise_command_job job;
                s = announce job (set_entry job_id (entry\<lparr>je_job := job\<rparr>) s)
            in s\<lparr>js_entries := prune_terminal_jobs (js_entries s) MAX_RETAINED_JOBS\<rparr>)"

definition job_cancellation_requested :: "string \<Rightarrow> job_system \<Rightarrow> bool" where
  "job_cancellation_requested job_id s =
     (case map_of (js_entries s) job_id of
        None \<Rightarrow> False
      | Some entry \<Rightarrow> cj_state (je_job entry) = JobCancelling \<or> cj_state (je_job entry) = JobCancelled)"

section \<open>The executor\<close>

definition dec_int :: "int \<Rightarrow> string" where
  "dec_int i = (if i < 0 then ''-'' @ dec (nat (- i)) else dec (nat i))"

definition stream_name :: "output_stream \<Rightarrow> string" where
  "stream_name stream = (case stream of Stdout \<Rightarrow> ''stdout'' | Stderr \<Rightarrow> ''stderr'')"

definition status_code :: "exit_status \<Rightarrow> int option" where
  "status_code status = (case status of ExitCode c \<Rightarrow> Some c | Signalled \<Rightarrow> None)"

definition exit_code :: "(string + exit_status) option \<Rightarrow> int option" where
  "exit_code status = (case status of Some (Inr st) \<Rightarrow> status_code st | _ \<Rightarrow> None)"

definition insert_if_none :: "'a option \<Rightarrow> 'a \<Rightarrow> 'a option" where
  "insert_if_none x v = (case x of None \<Rightarrow> Some v | Some y \<Rightarrow> Some y)"

definition new_locals :: exec_locals where
  "new_locals = \<lparr>el_status = None, el_pipes_open = True, el_cancellation_seen = False,
     el_deadline = False, el_cancellation_failure = None, el_pipe_error = None\<rparr>"

definition set_phase :: "string \<Rightarrow> phase \<Rightarrow> job_system \<Rightarrow> job_system" where
  "set_phase job_id phase s = s\<lparr>js_phases := (js_phases s)(job_id := phase)\<rparr>"

definition drop_permit :: "job_system \<Rightarrow> job_system" where
  "drop_permit s = s\<lparr>js_permits := Suc (js_permits s)\<rparr>"

text \<open>What follows the loop: the permit goes back and the job gets its final state.\<close>

definition conclude :: "timestamp \<Rightarrow> string \<Rightarrow> exec_locals \<Rightarrow> job_system \<Rightarrow> job_system" where
  "conclude now job_id v s =
     (if el_cancellation_seen v \<or> job_cancellation_requested job_id s
      then (case el_cancellation_failure v of
              Some error \<Rightarrow> finish_failed now job_id error (exit_code (el_status v)) s
            | None \<Rightarrow> finish_cancelled now job_id s)
      else (case el_pipe_error v of
        Some error \<Rightarrow> finish_failed now job_id error (exit_code (el_status v)) s
      | None \<Rightarrow>
        (case el_status v of
           Some (Inr st) \<Rightarrow>
             if st = ExitCode 0 then finish_completed now job_id (status_code st) s
             else finish_failed now job_id (''remote command exited with code ''
               @ (case status_code st of None \<Rightarrow> ''unknown'' | Some c \<Rightarrow> dec_int c)) (status_code st) s
         | Some (Inl error) \<Rightarrow> finish_failed now job_id error None s
         | None \<Rightarrow> finish_failed now job_id ''command process ended without an exit status'' None s)))"

definition end_loop :: "timestamp \<Rightarrow> string \<Rightarrow> exec_locals \<Rightarrow> job_system \<Rightarrow> job_system" where
  "end_loop now job_id v s = set_phase job_id Done (conclude now job_id v (drop_permit s))"

text \<open>\<^verbatim>\<open>while status.is_none() || pipes_open\<close>\<close>

definition loop_on :: "timestamp \<Rightarrow> string \<Rightarrow> exec_locals \<Rightarrow> job_system \<Rightarrow> job_system" where
  "loop_on now job_id v s =
     (if el_status v = None \<or> el_pipes_open v then set_phase job_id (Looping v) s
      else end_loop now job_id v s)"

datatype exec_event =
    SeeCancel
  | GotPermit
  | SpawnResult "string option"
  | LoopCancel "string option"
  | LoopExit "string + exit_status"
  | LoopData output_stream string
  | LoopPipeError output_stream string "string option"
  | LoopPipesClosed
  | LoopDeadline

text \<open>The watch reports a change: its value became true, or the entry that held the sender is gone.\<close>

definition cancel_visible :: "string \<Rightarrow> job_system \<Rightarrow> bool" where
  "cancel_visible job_id s \<longleftrightarrow> job_id \<in> js_flags s \<or> map_of (js_entries s) job_id = None"

definition kill_failure :: "string \<Rightarrow> string option \<Rightarrow> string option \<Rightarrow> string option" where
  "kill_failure text kill_error so_far =
     (case kill_error of None \<Rightarrow> so_far | Some error \<Rightarrow> insert_if_none so_far (text @ error))"

fun exec_step :: "timestamp \<Rightarrow> string \<Rightarrow> exec_event \<Rightarrow> job_system \<Rightarrow> job_system option" where
  "exec_step now job_id SeeCancel s =
     (if js_phases s job_id = Waiting \<and> cancel_visible job_id s
      then Some (set_phase job_id Done (finish_cancelled now job_id s)) else None)"
| "exec_step now job_id GotPermit s =
     (if js_phases s job_id = Waiting \<and> 0 < js_permits s
      then (case transition_running now job_id (s\<lparr>js_permits := js_permits s - 1\<rparr>) of
              (True, s) \<Rightarrow> Some (set_phase job_id Spawning s)
            | (False, s) \<Rightarrow> Some (set_phase job_id Done (drop_permit s)))
      else None)"
| "exec_step now job_id (SpawnResult r) s =
     (if js_phases s job_id = Spawning
      then (case r of
              None \<Rightarrow> Some (set_phase job_id (Looping new_locals) s)
            | Some error \<Rightarrow> Some (set_phase job_id Done (drop_permit (finish_failed now job_id error None s))))
      else None)"
| "exec_step now job_id (LoopCancel kill_error) s =
     (case js_phases s job_id of
        Looping v \<Rightarrow>
          if el_cancellation_seen v \<or> \<not> cancel_visible job_id s then None
          else
            let v = v\<lparr>el_cancellation_seen := True, el_deadline := True\<rparr>
            in Some (loop_on now job_id
                 (if job_id \<notin> js_flags s then v
                  else case kill_error of
                    None \<Rightarrow> v
                  | Some error \<Rightarrow> v\<lparr>el_cancellation_failure :=
                      Some (''failed to terminate the owned command process: '' @ error)\<rparr>) s)
      | _ \<Rightarrow> None)"
| "exec_step now job_id (LoopExit status) s =
     (case js_phases s job_id of
        Looping v \<Rightarrow>
          if el_status v \<noteq> None then None
          else Some (loop_on now job_id (v\<lparr>el_status := Some status\<rparr>) s)
      | _ \<Rightarrow> None)"
| "exec_step now job_id (LoopData stream data) s =
     (case js_phases s job_id of
        Looping v \<Rightarrow>
          if \<not> el_pipes_open v then None
          else Some (loop_on now job_id v (append_job_output job_id stream data s))
      | _ \<Rightarrow> None)"
| "exec_step now job_id (LoopPipeError stream message kill_error) s =
     (case js_phases s job_id of
        Looping v \<Rightarrow>
          if \<not> el_pipes_open v then None
          else Some (loop_on now job_id
            (v\<lparr>el_pipe_error := insert_if_none (el_pipe_error v)
                 (stream_name stream @ '' reader failed: '' @ message),
               el_cancellation_failure := kill_failure ''failed to terminate after a pipe error: ''
                 kill_error (el_cancellation_failure v),
               el_deadline := True\<rparr>) s)
      | _ \<Rightarrow> None)"
| "exec_step now job_id LoopPipesClosed s =
     (case js_phases s job_id of
        Looping v \<Rightarrow>
          if \<not> el_pipes_open v then None
          else Some (loop_on now job_id (v\<lparr>el_pipes_open := False\<rparr>) s)
      | _ \<Rightarrow> None)"
| "exec_step now job_id LoopDeadline s =
     (case js_phases s job_id of
        Looping v \<Rightarrow>
          if \<not> (el_deadline v \<and> (el_cancellation_seen v \<or> el_pipe_error v \<noteq> None)) then None
          else
            let v = (if el_cancellation_seen v
                  then v\<lparr>el_cancellation_failure := insert_if_none (el_cancellation_failure v)
                    ''owned command process or output pipes did not close within 5 seconds''\<rparr>
                  else v\<lparr>el_pipe_error := insert_if_none (el_pipe_error v)
                    ''owned command process did not exit after an output-pipe failure''\<rparr>)
            in Some (end_loop now job_id v s)
      | _ \<Rightarrow> None)"

section \<open>The system\<close>

text \<open>
  \<open>run_resolved\<close> and \<open>record_pty_handoff\<close> hold a lease of their host from the first statement to
  the last; what is in between either registers a job or fails.  \<open>retire_host\<close> retires the host,
  waits until it is idle, cancels its jobs, waits until they are all finished and removes them.
\<close>

datatype job_op =
    OpBegin string
  | OpRun timestamp string resolved_command "string option"
  | OpHandoff timestamp string pty_command_plan string
  | OpFail string
  | OpCancel timestamp string
  | OpSend string
  | OpExec timestamp string exec_event
  | OpRetire string
  | OpPurge string
  | OpRestore string

definition end_start :: "string \<Rightarrow> job_system \<Rightarrow> job_system" where
  "end_start host_id s =
     s\<lparr>js_starting := remove1 host_id (js_starting s), js_barrier := end_lease host_id (js_barrier s)\<rparr>"

text \<open>A fresh \<^verbatim>\<open>Uuid::new_v4\<close>: no entry, no executor and no cancellation has it.\<close>

definition fresh_job :: "string \<Rightarrow> job_system \<Rightarrow> bool" where
  "fresh_job job_id s \<longleftrightarrow> map_of (js_entries s) job_id = None \<and> js_phases s job_id = Done
     \<and> job_id \<notin> js_marked s \<and> job_id \<notin> js_flags s"

definition host_finished :: "string \<Rightarrow> job_system \<Rightarrow> bool" where
  "host_finished host_id s \<longleftrightarrow>
     list_all (\<lambda>p. cj_host_id (je_job (snd p)) = host_id \<longrightarrow> is_terminal_entry p) (js_entries s)"

definition purge_host :: "string \<Rightarrow> job_system \<Rightarrow> job_system" where
  "purge_host host_id s =
     s\<lparr>js_entries := filter (\<lambda>p. cj_host_id (je_job (snd p)) \<noteq> host_id) (js_entries s)\<rparr>"

text \<open>One operation; \<open>None\<close> when it cannot happen in this state.\<close>

fun job_step :: "job_op \<Rightarrow> job_system \<Rightarrow> job_system option" where
  "job_step (OpBegin host_id) s =
     (case begin_lease host_id (js_barrier s) of
        (True, b) \<Rightarrow> Some (s\<lparr>js_barrier := b, js_starting := host_id # js_starting s\<rparr>)
      | (False, b) \<Rightarrow> Some (s\<lparr>js_barrier := b\<rparr>))"
| "job_step (OpRun now job_id resolved confirmation) s =
     (if hp_id (rc_host resolved) \<notin> set (js_starting s) \<or> \<not> fresh_job job_id s then None
      else case prepare_run resolved confirmation of
        Inl _ \<Rightarrow> Some (end_start (hp_id (rc_host resolved)) s)
      | Inr prepared \<Rightarrow>
          Some (end_start (hp_id (rc_host resolved)) (snd (start_process job_id prepared s))))"
| "job_step (OpHandoff now job_id plan session_id) s =
     (if pcp_host_id plan \<notin> set (js_starting s) \<or> \<not> fresh_job job_id s then None
      else Some (end_start (pcp_host_id plan) (snd (record_pty_handoff now job_id plan session_id s))))"
| "job_step (OpFail host_id) s =
     (if host_id \<notin> set (js_starting s) then None else Some (end_start host_id s))"
| "job_step (OpCancel now job_id) s = Some (snd (cancel_job now job_id s))"
| "job_step (OpSend job_id) s = (if job_id \<notin> js_marked s then None else Some (send_cancel job_id s))"
| "job_step (OpExec now job_id event) s = exec_step now job_id event s"
| "job_step (OpRetire host_id) s = Some (s\<lparr>js_barrier := retire host_id (js_barrier s)\<rparr>)"
| "job_step (OpPurge host_id) s =
     (if is_retired host_id (js_barrier s) \<and> idle_check host_id (js_barrier s) \<and> host_finished host_id s
      then Some (purge_host host_id s) else None)"
| "job_step (OpRestore host_id) s = Some (s\<lparr>js_barrier := restore host_id (js_barrier s)\<rparr>)"

text \<open>
  Histories in which at most \<^verbatim>\<open>usize::MAX\<close> calls are in progress at once.  A terminal session is
  identified by the text of a UUID.
\<close>

fun op_args_ok :: "job_op \<Rightarrow> bool" where
  "op_args_ok (OpHandoff _ _ _ session_id) \<longleftrightarrow> valid_utf8 session_id \<and> length session_id \<le> 64"
| "op_args_ok _ \<longleftrightarrow> True"

inductive jobs_reach :: "job_system \<Rightarrow> job_system \<Rightarrow> bool" for s0 where
  start: "jobs_reach s0 s0"
| step: "jobs_reach s0 s \<Longrightarrow> length (js_starting s) < u64_max \<Longrightarrow> op_args_ok op \<Longrightarrow>
     job_step op s = Some s' \<Longrightarrow> jobs_reach s0 s'"

inductive_cases jobs_reachE: "jobs_reach s0 s"

end
