(* ===== verification/CommandJobsInv.thy ===== *)
theory CommandJobsInv
  imports CommandJobs
begin

text \<open>
  The invariant of the job system of \<^verbatim>\<open>command_job.rs\<close>: what one operation does to the entries, and
  what every reachable system satisfies.
\<close>

section \<open>Pruning jobs\<close>

lemma retained_Nil: "\<forall>p \<in> set es. \<not> is_terminal_entry p \<Longrightarrow> retained_output_bytes es = 0"
  by (simp add: retained_output_bytes_def filter_False)

interpretation jobs: retention "jobs_over MAX_RETAINED_JOBS" is_terminal_entry je_sequence 511
proof
  fix es
  assume over: "jobs_over MAX_RETAINED_JOBS es"
    and few: "count_where (\<lambda>p. \<not> is_terminal_entry p) es \<le> 511"
  show "\<exists>p \<in> set es. is_terminal_entry p"
  proof (rule ccontr)
    assume no: "\<not> (\<exists>p \<in> set es. is_terminal_entry p)"
    then have "retained_output_bytes es = 0" by (intro retained_Nil) blast
    with over have "512 \<le> length es" by (simp add: jobs_over_def MAX_RETAINED_JOBS_def)
    moreover have "filter (\<lambda>p. \<not> is_terminal_entry p) es = es" using no by (intro filter_True) blast
    ultimately show False using few by (simp add: count_where_def)
  qed
qed

lemma prune_jobs_within:
  "live_jobs es \<le> MAX_PENDING_JOBS \<Longrightarrow>
     length (prune_terminal_jobs es MAX_RETAINED_JOBS) < MAX_RETAINED_JOBS
     \<and> retained_output_bytes (prune_terminal_jobs es MAX_RETAINED_JOBS) \<le> MAX_RETAINED_OUTPUT_BYTES"
  using jobs.prune_within[of es]
  by (simp add: live_jobs_def MAX_PENDING_JOBS_def prune_terminal_jobs_def jobs_over_def not_le)

lemma keys_ok_prune_jobs: "keys_ok es \<Longrightarrow> keys_ok (prune_terminal_jobs es n)"
  by (simp add: prune_terminal_jobs_def keys_ok_prune)

lemma prune_jobs_cases:
  assumes "keys_ok es"
  shows "map_of (prune_terminal_jobs es n) k = map_of es k
    \<or> (map_of (prune_terminal_jobs es n) k = None
       \<and> (\<exists>e. map_of es k = Some e \<and> job_terminal (cj_state (je_job e))))"
proof (cases "map_of es k")
  case None
  then have "map_of (prune_terminal_jobs es n) k = None"
    using prune_subset[of "jobs_over n" is_terminal_entry je_sequence es]
    by (force simp: prune_terminal_jobs_def map_of_eq_None_iff)
  with None show ?thesis by simp
next
  case (Some e)
  show ?thesis
  proof (cases "is_terminal_entry (k, e)")
    case True
    have "map_of (prune_terminal_jobs es n) k \<in> {None, Some e}"
      using prune_map_of[OF assms, of "jobs_over n" is_terminal_entry je_sequence k] Some
      by (cases "map_of (prune_terminal_jobs es n) k") (auto simp: prune_terminal_jobs_def)
    with True Some show ?thesis by (auto simp: is_terminal_entry_def)
  next
    case False
    then have "(k, e) \<in> set (prune_terminal_jobs es n)"
      using prune_keeps[OF assms, of "(k, e)" is_terminal_entry] Some assms
      by (simp add: prune_terminal_jobs_def in_set_map_of)
    then show ?thesis using Some keys_ok_prune_jobs[OF assms] by (simp add: in_set_map_of)
  qed
qed

lemma live_jobs_prune: "live_jobs (prune_terminal_jobs es n) \<le> live_jobs es"
  by (simp add: live_jobs_def prune_terminal_jobs_def count_where_prune)

lemma length_prune_jobs: "length (prune_terminal_jobs es n) \<le> length es"
  by (simp add: prune_terminal_jobs_def length_prune)

section \<open>One entry changes\<close>

text \<open>The changes one critical section may make to a job.\<close>

fun state_edge :: "command_job_state \<Rightarrow> command_job_state \<Rightarrow> bool" where
  "state_edge JobQueued t \<longleftrightarrow> t = JobRunning \<or> t = JobCancelled"
| "state_edge JobRunning t \<longleftrightarrow> t \<noteq> JobQueued"
| "state_edge JobCancelling t \<longleftrightarrow> t = JobCancelling \<or> t = JobFailed \<or> t = JobCancelled"
| "state_edge _ _ \<longleftrightarrow> False"

definition entry_ok :: "string \<Rightarrow> job_entry \<Rightarrow> bool" where
  "entry_ok job_id e \<longleftrightarrow>
     cj_id (je_job e) = job_id
     \<and> (job_terminal (cj_state (je_job e)) \<longleftrightarrow> cj_finished_at (je_job e) \<noteq> None)
     \<and> valid_utf8 (cj_stdout (je_job e)) \<and> valid_utf8 (cj_stderr (je_job e))"

definition output_ok :: "job_entry \<Rightarrow> bool" where
  "output_ok e \<longleftrightarrow> length (cj_stdout (je_job e)) \<le> COMMAND_OUTPUT_LIMIT
     \<and> length (cj_stderr (je_job e)) \<le> COMMAND_OUTPUT_LIMIT"

definition job_edge :: "job_entry \<Rightarrow> job_entry \<Rightarrow> bool" where
  "job_edge e e' \<longleftrightarrow>
     state_edge (cj_state (je_job e)) (cj_state (je_job e'))
     \<and> cj_revision (je_job e') = saturating_add64 (cj_revision (je_job e)) 1
     \<and> je_sequence e' = je_sequence e
     \<and> cj_id (je_job e') = cj_id (je_job e) \<and> cj_host_id (je_job e') = cj_host_id (je_job e)
     \<and> cj_command (je_job e') = cj_command (je_job e) \<and> cj_risk (je_job e') = cj_risk (je_job e)"

text \<open>\<open>changes job_id s s'\<close>: nothing happens to the entries, or one job moves along an edge, its new
  record is announced, and finished jobs may be pruned.\<close>

definition touched :: "string \<Rightarrow> job_entry \<Rightarrow> job_entry \<Rightarrow> job_system \<Rightarrow> job_system \<Rightarrow> bool" where
  "touched job_id e e' s s' \<longleftrightarrow>
     map_of (js_entries s) job_id = Some e \<and> job_edge e e'
     \<and> (entry_ok job_id e \<longrightarrow> entry_ok job_id e') \<and> (output_ok e \<longrightarrow> output_ok e')
     \<and> (js_entries s' = put job_id e' (js_entries s)
        \<or> js_entries s' = prune_terminal_jobs (put job_id e' (js_entries s)) MAX_RETAINED_JOBS)
     \<and> js_announced s' = js_announced s @ [je_job e']"

definition same_frame :: "job_system \<Rightarrow> job_system \<Rightarrow> bool" where
  "same_frame s s' \<longleftrightarrow> js_next_sequence s' = js_next_sequence s \<and> js_barrier s' = js_barrier s
     \<and> js_starting s' = js_starting s \<and> js_phases s' = js_phases s \<and> js_marked s' = js_marked s
     \<and> js_flags s' = js_flags s \<and> js_permits s' = js_permits s"

lemma length_append_bounded:
  assumes "append_bounded t b data = (c, t', b')" and "length t \<le> COMMAND_OUTPUT_LIMIT"
  shows "length t' \<le> COMMAND_OUTPUT_LIMIT"
proof -
  have marker: "length OUTPUT_TRUNCATED_MARKER \<le> COMMAND_OUTPUT_LIMIT"
    by (simp add: OUTPUT_TRUNCATED_MARKER_def COMMAND_OUTPUT_LIMIT_def)
  define limit where "limit = COMMAND_OUTPUT_LIMIT - length OUTPUT_TRUNCATED_MARKER"
  define u where "u = truncate_utf8 t limit"
  have u: "length u \<le> limit" by (simp add: u_def length_truncate_utf8)
  have "length (take (floor_boundary v (min (limit - length u) (length v))) v) \<le> limit - length u" for v
    using floor_boundary_le[of v "min (limit - length u) (length v)"] by simp
  then have "length u + length (take (floor_boundary v (min (limit - length u) (length v))) v) \<le> limit" for v
    using u by (metis add_diff_inverse_nat add_le_cancel_left not_less)
  with u marker assms show ?thesis
    by (auto simp: append_bounded_def Let_def limit_def[symmetric] u_def[symmetric] split: if_splits)
      (auto simp: limit_def le_diff_conv2 add.assoc[symmetric])
qed

lemma valid_marker: "valid_utf8 OUTPUT_TRUNCATED_MARKER"
  by code_simp

lemma valid_append_bounded:
  assumes "append_bounded t b data = (c, t', b')" and "valid_utf8 t"
  shows "valid_utf8 t'"
  using assms
  by (auto simp: append_bounded_def Let_def valid_truncate_utf8 valid_marker floor_boundary
      intro!: valid_append valid_take valid_lossy split: if_splits)

lemma revise_simps [simp]:
  "cj_revision (revise_command_job j) = saturating_add64 (cj_revision j) 1"
  "cj_state (revise_command_job j) = cj_state j" "cj_id (revise_command_job j) = cj_id j"
  "cj_host_id (revise_command_job j) = cj_host_id j" "cj_command (revise_command_job j) = cj_command j"
  "cj_risk (revise_command_job j) = cj_risk j" "cj_stdout (revise_command_job j) = cj_stdout j"
  "cj_stderr (revise_command_job j) = cj_stderr j" "cj_finished_at (revise_command_job j) = cj_finished_at j"
  by (simp_all add: revise_command_job_def)

lemma announce_simps [simp]:
  "js_entries (announce j s) = js_entries s" "js_announced (announce j s) = js_announced s @ [j]"
  "js_entries (set_entry i e s) = put i e (js_entries s)" "js_announced (set_entry i e s) = js_announced s"
  by (simp_all add: announce_def set_entry_def)

lemma frame_announce [simp]: "same_frame s (announce j (set_entry i e s))"
  by (simp add: same_frame_def announce_def set_entry_def)

lemmas edge_defs = touched_def job_edge_def entry_ok_def output_ok_def Let_def

lemma cancel_job_effect:
  assumes "cancel_job now i s = (r, s')"
  shows "s' = s \<or> (\<exists>e e'. touched i e e' s (s'\<lparr>js_marked := js_marked s\<rparr>)
    \<and> same_frame s (s'\<lparr>js_marked := js_marked s\<rparr>) \<and> js_marked s' = insert i (js_marked s)
    \<and> ((cj_state (je_job e) = JobQueued \<and> cj_state (je_job e') = JobCancelled)
       \<or> (cj_state (je_job e) = JobRunning \<and> cj_state (je_job e') = JobCancelling)))"
proof (cases "map_of (js_entries s) i")
  case (Some e)
  show ?thesis
  proof (cases "job_terminal (cj_state (je_job e)) \<or> cj_state (je_job e) = JobCancelling")
    case True
    with assms Some show ?thesis by (auto simp: cancel_job_def Let_def)
  next
    case False
    define job where "job = revise_command_job (if cj_state (je_job e) = JobQueued
        then (je_job e)\<lparr>cj_state := JobCancelled, cj_finished_at := Some now\<rparr>
        else (je_job e)\<lparr>cj_state := JobCancelling\<rparr>)"
    have s': "s' = (announce job (set_entry i (e\<lparr>je_job := job\<rparr>) s))\<lparr>js_marked := insert i (js_marked s)\<rparr>"
      using assms Some False by (auto simp: cancel_job_def Let_def job_def announce_def set_entry_def)
    have "cj_state (je_job e) = JobQueued \<or> cj_state (je_job e) = JobRunning"
      using False by (cases "cj_state (je_job e)") auto
    then have "touched i e (e\<lparr>je_job := job\<rparr>) s (s'\<lparr>js_marked := js_marked s\<rparr>)"
      using Some by (auto simp: edge_defs job_def s')
    moreover have "same_frame s (s'\<lparr>js_marked := js_marked s\<rparr>)"
      by (simp add: s' same_frame_def announce_def set_entry_def)
    moreover have "js_marked s' = insert i (js_marked s)" by (simp add: s')
    moreover have "(cj_state (je_job e) = JobQueued \<and> cj_state job = JobCancelled)
        \<or> (cj_state (je_job e) = JobRunning \<and> cj_state job = JobCancelling)"
      using \<open>_ \<or> cj_state (je_job e) = JobRunning\<close> by (auto simp: job_def)
    ultimately show ?thesis
      by (intro disjI2 exI[of _ e] exI[of _ "e\<lparr>je_job := job\<rparr>"]) simp
  qed
qed (use assms in \<open>simp add: cancel_job_def\<close>)

lemma transition_running_effect:
  assumes "transition_running now i s = (b, s')"
  shows "(\<not> b \<and> s' = s \<and> (\<forall>e. map_of (js_entries s) i = Some e \<longrightarrow> cj_state (je_job e) \<noteq> JobQueued))
    \<or> (b \<and> same_frame s s' \<and> (\<exists>e e'. touched i e e' s s' \<and> cj_state (je_job e) = JobQueued
          \<and> cj_state (je_job e') = JobRunning))"
proof (cases "map_of (js_entries s) i")
  case (Some e)
  show ?thesis
  proof (cases "cj_state (je_job e) = JobQueued")
    case True
    define job where "job = revise_command_job ((je_job e)\<lparr>cj_state := JobRunning, cj_started_at := Some now\<rparr>)"
    have s': "b" "s' = announce job (set_entry i (e\<lparr>je_job := job\<rparr>) s)"
      using assms Some True by (auto simp: transition_running_def Let_def job_def)
    have "touched i e (e\<lparr>je_job := job\<rparr>) s s'" using Some True by (simp add: edge_defs job_def s')
    with s' True show ?thesis
      by (intro disjI2 conjI exI[of _ e] exI[of _ "e\<lparr>je_job := job\<rparr>"]) (simp_all add: job_def)
  qed (use assms Some in \<open>auto simp: transition_running_def\<close>)
qed (use assms in \<open>auto simp: transition_running_def\<close>)

lemma append_job_output_effect:
  assumes "s' = append_job_output i stream data s"
  shows "same_frame s s' \<and> (s' = s \<or> (\<exists>e e'. touched i e e' s s' \<and> cj_state (je_job e') = cj_state (je_job e)))"
proof (cases "map_of (js_entries s) i")
  case (Some e)
  define target where "target = (case stream of
      Stdout \<Rightarrow> append_bounded (cj_stdout (je_job e)) (je_stdout_truncated e) data
    | Stderr \<Rightarrow> append_bounded (cj_stderr (je_job e)) (je_stderr_truncated e) data)"
  obtain c t b where t: "target = (c, t, b)" by (metis prod_cases3)
  define job where "job = revise_command_job (case stream of
      Stdout \<Rightarrow> (je_job e)\<lparr>cj_stdout := t\<rparr> | Stderr \<Rightarrow> (je_job e)\<lparr>cj_stderr := t\<rparr>)"
  define e' where "e' = (case stream of
      Stdout \<Rightarrow> e\<lparr>je_job := job, je_stdout_truncated := b\<rparr> | Stderr \<Rightarrow> e\<lparr>je_job := job, je_stderr_truncated := b\<rparr>)"
  have run: "s' = (if job_active (cj_state (je_job e)) \<and> c then announce job (set_entry i e' s) else s)"
    using assms Some t
    by (cases stream) (auto simp: append_job_output_def target_def e'_def job_def Let_def)
  show ?thesis
  proof (cases "job_active (cj_state (je_job e)) \<and> c")
    case True
    have len: "length t \<le> COMMAND_OUTPUT_LIMIT" if "output_ok e"
      using t that unfolding target_def output_ok_def
      by (cases stream) (auto dest: length_append_bounded)
    have valid: "valid_utf8 t" if "entry_ok i e"
      using t that unfolding target_def entry_ok_def
      by (cases stream) (auto dest: valid_append_bounded)
    have "je_job e' = job" "je_sequence e' = je_sequence e" by (simp_all add: e'_def split: output_stream.split)
    moreover have "cj_state job = cj_state (je_job e)" by (simp add: job_def split: output_stream.split)
    ultimately have touched: "touched i e e' s s'"
      using True Some len valid run
      by (cases stream) (auto simp: edge_defs job_def job_active_def)
    have "same_frame s s'" using run True by simp
    with touched show ?thesis
      using \<open>je_job e' = job\<close> \<open>cj_state job = cj_state (je_job e)\<close> by blast
  qed (use run in \<open>auto simp: same_frame_def\<close>)
qed (use assms in \<open>simp add: append_job_output_def same_frame_def\<close>)

lemma frame_finish: "same_frame s ((announce j (set_entry i e s))\<lparr>js_entries := es\<rparr>)"
  by (simp add: same_frame_def announce_def set_entry_def)

lemma finish_job_effect:
  assumes "s' = finish_job now i state code error s" and "job_terminal state"
    and "state = JobCompleted \<Longrightarrow> \<not> job_cancellation_requested i s"
  shows "same_frame s s' \<and>
    ((s' = s \<and> (\<forall>e. map_of (js_entries s) i = Some e \<longrightarrow> \<not> job_active (cj_state (je_job e))))
     \<or> (\<exists>e e'. touched i e e' s s' \<and> job_active (cj_state (je_job e)) \<and> cj_state (je_job e') = state))"
proof (cases "map_of (js_entries s) i")
  case (Some e)
  show ?thesis
  proof (cases "job_active (cj_state (je_job e))")
    case True
    define job where "job = revise_command_job ((je_job e)\<lparr>cj_state := state, cj_exit_code := code,
                    cj_error := error, cj_finished_at := Some now\<rparr>)"
    have s': "s' = (announce job (set_entry i (e\<lparr>je_job := job\<rparr>) s))
        \<lparr>js_entries := prune_terminal_jobs (put i (e\<lparr>je_job := job\<rparr>) (js_entries s)) MAX_RETAINED_JOBS\<rparr>"
      using assms Some True by (simp add: finish_job_def Let_def job_def)
    have "state_edge (cj_state (je_job e)) state"
      using True assms(2,3) Some by (cases state) (auto simp: job_active_def job_cancellation_requested_def)
    then have "touched i e (e\<lparr>je_job := job\<rparr>) s s'"
      using Some True assms(2) by (auto simp: edge_defs job_def s')
    with True show ?thesis unfolding s'
      by (intro conjI frame_finish disjI2 exI[of _ e] exI[of _ "e\<lparr>je_job := job\<rparr>"]) (simp_all add: job_def)
  qed (use assms Some in \<open>auto simp: finish_job_def same_frame_def\<close>)
qed (use assms in \<open>simp add: finish_job_def same_frame_def\<close>)

lemma finish_cancelled_effect:
  assumes "s' = finish_cancelled now i s"
    and "\<And>e. map_of (js_entries s) i = Some e \<Longrightarrow> entry_ok i e \<and>
      cj_state (je_job e) \<noteq> JobCompleted \<and> cj_state (je_job e) \<noteq> JobFailed"
  shows "same_frame s s' \<and>
    ((s' = s \<and> (\<forall>e. map_of (js_entries s) i = Some e \<longrightarrow> cj_state (je_job e) = JobCancelled))
     \<or> (\<exists>e e'. touched i e e' s s' \<and> cj_state (je_job e) \<noteq> JobCancelled \<and> cj_state (je_job e') = JobCancelled))"
proof (cases "map_of (js_entries s) i")
  case (Some e)
  note e = assms(2)[OF Some]
  show ?thesis
  proof (cases "cj_state (je_job e) = JobCancelled")
    case True
    with e assms(1) Some have "s' = s" by (auto simp: finish_cancelled_def Let_def entry_ok_def)
    with True Some show ?thesis by (simp add: same_frame_def)
  next
    case False
    then have none: "cj_finished_at (je_job e) = None"
      using e by (cases "cj_state (je_job e)") (auto simp: entry_ok_def)
    define job where "job = revise_command_job ((je_job e)\<lparr>cj_state := JobCancelled, cj_finished_at := Some now\<rparr>)"
    have s': "s' = (announce job (set_entry i (e\<lparr>je_job := job\<rparr>) s))
        \<lparr>js_entries := prune_terminal_jobs (put i (e\<lparr>je_job := job\<rparr>) (js_entries s)) MAX_RETAINED_JOBS\<rparr>"
      using assms(1) Some False none by (simp add: finish_cancelled_def Let_def job_def)
    have "state_edge (cj_state (je_job e)) JobCancelled"
      using False e by (cases "cj_state (je_job e)") auto
    then have "touched i e (e\<lparr>je_job := job\<rparr>) s s'"
      using Some by (auto simp: edge_defs job_def s')
    with False show ?thesis unfolding s'
      by (intro conjI frame_finish disjI2 exI[of _ e] exI[of _ "e\<lparr>je_job := job\<rparr>"]) (simp_all add: job_def)
  qed
qed (use assms in \<open>simp add: finish_cancelled_def same_frame_def\<close>)

end
