(* ===== verification/CommandJobsSafe.thy ===== *)
theory CommandJobsSafe
  imports CommandJobsInv
begin

text \<open>
  The invariant that ties each job to its executor, and the bounds, for every reachable state of
  the job system of \<^verbatim>\<open>command_job.rs\<close>; the properties of the jobs.
\<close>

section \<open>A job and its executor\<close>

definition signalled :: "string \<Rightarrow> job_system \<Rightarrow> bool" where
  "signalled i s \<longleftrightarrow> i \<in> js_marked s \<or> i \<in> js_flags s"

fun phase_ok :: "phase \<Rightarrow> job_entry option \<Rightarrow> bool \<Rightarrow> bool" where
  "phase_ok Waiting None sig = True"
| "phase_ok Done None sig = True"
| "phase_ok _ None sig = False"
| "phase_ok Waiting (Some e) sig \<longleftrightarrow>
     cj_state (je_job e) = JobQueued \<or> (cj_state (je_job e) = JobCancelled \<and> sig)"
| "phase_ok Done (Some e) sig \<longleftrightarrow> job_terminal (cj_state (je_job e))"
| "phase_ok _ (Some e) sig \<longleftrightarrow>
     job_active (cj_state (je_job e)) \<and> (cj_state (je_job e) = JobCancelling \<longrightarrow> sig)"

definition core :: "job_system \<Rightarrow> bool" where
  "core s \<longleftrightarrow> keys_ok (js_entries s)
     \<and> (\<forall>i e. map_of (js_entries s) i = Some e \<longrightarrow> entry_ok i e \<and> output_ok e)
     \<and> (\<forall>i. phase_ok (js_phases s i) (map_of (js_entries s) i) (signalled i s))"

lemma coreD:
  assumes "core s"
  shows "keys_ok (js_entries s)" "map_of (js_entries s) i = Some e \<Longrightarrow> entry_ok i e \<and> output_ok e"
    "phase_ok (js_phases s i) (map_of (js_entries s) i) (signalled i s)"
  using assms by (auto simp: core_def)

lemma phase_ok_gone: "phase_ok p (Some e) sig \<Longrightarrow> job_terminal (cj_state (je_job e)) \<Longrightarrow> phase_ok p None sig"
  by (cases p) (auto simp: job_active_def)

lemma phase_ok_active:
  "phase_ok (Looping v) eo sig \<Longrightarrow> \<exists>e. eo = Some e \<and> job_active (cj_state (je_job e))"
  "phase_ok Spawning eo sig \<Longrightarrow> \<exists>e. eo = Some e \<and> job_active (cj_state (je_job e))"
  by (cases eo; auto)+

text \<open>What a touched registry looks like to a reader.\<close>

lemma touched_map_of:
  assumes "touched i e e' s s'" and "keys_ok (js_entries s)"
  shows "keys_ok (js_entries s')"
    and "map_of (js_entries s') k = Some x \<Longrightarrow> (if k = i then x = e' else map_of (js_entries s) k = Some x)"
    and "map_of (js_entries s') k = None \<Longrightarrow>
      (if k = i then job_terminal (cj_state (je_job e'))
       else \<forall>x. map_of (js_entries s) k = Some x \<longrightarrow> job_terminal (cj_state (je_job x)))"
proof -
  let ?put = "put i e' (js_entries s)"
  have put: "keys_ok ?put" using assms(2) by (rule keys_ok_put)
  from assms(1) consider "js_entries s' = ?put" | "js_entries s' = prune_terminal_jobs ?put MAX_RETAINED_JOBS"
    by (auto simp: touched_def)
  then have *: "keys_ok (js_entries s') \<and> (\<forall>k. map_of (js_entries s') k = map_of ?put k
      \<or> (map_of (js_entries s') k = None \<and> (\<exists>x. map_of ?put k = Some x \<and> job_terminal (cj_state (je_job x)))))"
    using put prune_jobs_cases[OF put, of MAX_RETAINED_JOBS] keys_ok_prune_jobs[OF put] by cases auto
  then show "keys_ok (js_entries s')" by simp
  show "map_of (js_entries s') k = Some x \<Longrightarrow> (if k = i then x = e' else map_of (js_entries s) k = Some x)"
    using *[THEN conjunct2, rule_format, of k] by (auto simp: map_of_put split: if_splits)
  show "map_of (js_entries s') k = None \<Longrightarrow>
      (if k = i then job_terminal (cj_state (je_job e'))
       else \<forall>x. map_of (js_entries s) k = Some x \<longrightarrow> job_terminal (cj_state (je_job x)))"
    using *[THEN conjunct2, rule_format, of k] by (auto simp: map_of_put split: if_splits)
qed

lemma core_touched:
  assumes c: "core s" and t: "touched i e e' s s1" and "js_entries s' = js_entries s1"
    and others: "\<And>k. k \<noteq> i \<Longrightarrow> js_phases s' k = js_phases s k \<and> signalled k s' = signalled k s"
    and new: "phase_ok (js_phases s' i) (Some e') (signalled i s')"
  shows "core s'"
proof -
  note m = touched_map_of[OF t coreD(1)[OF c], folded assms(3)]
  have old: "entry_ok i e" "output_ok e" using coreD(2)[OF c] t by (auto simp: touched_def)
  have "phase_ok (js_phases s' k) (map_of (js_entries s') k) (signalled k s')" for k
  proof (cases "map_of (js_entries s') k")
    case (Some x)
    then show ?thesis
      using m(2)[OF Some] coreD(3)[OF c, of k] others[of k] new by (auto split: if_splits)
  next
    case None
    show ?thesis
    proof (cases "k = i")
      case True
      with m(3)[OF None] new None show ?thesis using phase_ok_gone by auto
    next
      case False
      show ?thesis
      proof (cases "map_of (js_entries s) k")
        case None
        with \<open>map_of (js_entries s') k = None\<close> coreD(3)[OF c, of k] others[OF False] show ?thesis by simp
      next
        case (Some x)
        with m(3)[OF None] False coreD(3)[OF c, of k] others[OF False] None show ?thesis
          by (auto intro: phase_ok_gone)
      qed
    qed
  qed
  moreover have "entry_ok k x \<and> output_ok x" if "map_of (js_entries s') k = Some x" for k x
    using m(2)[OF that] coreD(2)[OF c, of k x] t old by (auto simp: touched_def split: if_splits)
  ultimately show ?thesis using m(1) by (auto simp: core_def)
qed

lemma core_same:
  assumes c: "core s" and "js_entries s' = js_entries s"
    and "\<And>k. k \<noteq> i \<Longrightarrow> js_phases s' k = js_phases s k \<and> signalled k s' = signalled k s"
    and "phase_ok (js_phases s' i) (map_of (js_entries s) i) (signalled i s')"
  shows "core s'"
proof -
  have "phase_ok (js_phases s' k) (map_of (js_entries s') k) (signalled k s')" for k
    using coreD(3)[OF c, of k] assms(2-4) by (cases "k = i") auto
  with c assms(2) show ?thesis by (auto simp: core_def)
qed

section \<open>Turns of the executor\<close>

lemma set_phase_simps [simp]:
  "js_entries (set_phase i p s) = js_entries s" "js_phases (set_phase i p s) = (js_phases s)(i := p)"
  "js_announced (set_phase i p s) = js_announced s" "signalled k (set_phase i p s) = signalled k s"
  "js_permits (set_phase i p s) = js_permits s" "js_barrier (set_phase i p s) = js_barrier s"
  "js_starting (set_phase i p s) = js_starting s" "js_next_sequence (set_phase i p s) = js_next_sequence s"
  by (simp_all add: set_phase_def signalled_def)

lemma drop_permit_simps [simp]:
  "js_entries (drop_permit s) = js_entries s" "js_phases (drop_permit s) = js_phases s"
  "js_announced (drop_permit s) = js_announced s" "signalled k (drop_permit s) = signalled k s"
  "js_permits (drop_permit s) = Suc (js_permits s)" "js_barrier (drop_permit s) = js_barrier s"
  "js_starting (drop_permit s) = js_starting s" "js_next_sequence (drop_permit s) = js_next_sequence s"
  by (simp_all add: drop_permit_def signalled_def)

lemma frame_signalled: "same_frame s s' \<Longrightarrow> signalled k s' = signalled k s"
  by (simp add: same_frame_def signalled_def)

text \<open>The end of an executor gives its active job a final state.\<close>

lemma conclude_effect:
  assumes "map_of (js_entries s) i = Some e" and "job_active (cj_state (je_job e))" and "entry_ok i e"
  shows "same_frame s (conclude now i v s)
    \<and> (\<exists>e'. touched i e e' s (conclude now i v s) \<and> job_terminal (cj_state (je_job e')))"
proof -
  have finish: "same_frame s (finish_job now i st code error s)
      \<and> (\<exists>e'. touched i e e' s (finish_job now i st code error s) \<and> job_terminal (cj_state (je_job e')))"
    if st: "job_terminal st" "st = JobCompleted \<Longrightarrow> \<not> job_cancellation_requested i s" for st code error
  proof -
    let ?s = "finish_job now i st code error s"
    have "same_frame s ?s \<and>
      ((?s = s \<and> (\<forall>e. map_of (js_entries s) i = Some e \<longrightarrow> \<not> job_active (cj_state (je_job e))))
       \<or> (\<exists>e e'. touched i e e' s ?s \<and> job_active (cj_state (je_job e)) \<and> cj_state (je_job e') = st))"
      by (rule finish_job_effect[OF refl st])
    with assms st(1) show ?thesis by (auto simp: touched_def)
  qed
  have failed: "same_frame s (finish_job now i JobFailed code error s)
      \<and> (\<exists>e'. touched i e e' s (finish_job now i JobFailed code error s) \<and> job_terminal (cj_state (je_job e')))"
    for code error by (rule finish) simp_all
  have completed: "same_frame s (finish_job now i JobCompleted code error s)
      \<and> (\<exists>e'. touched i e e' s (finish_job now i JobCompleted code error s) \<and> job_terminal (cj_state (je_job e')))"
    if "\<not> job_cancellation_requested i s" for code error using that by (intro finish) simp_all
  have ne: "cj_state (je_job e) \<noteq> JobCompleted" "cj_state (je_job e) \<noteq> JobFailed" "cj_state (je_job e) \<noteq> JobCancelled"
    using assms(2) by (auto simp: job_active_def)
  let ?c = "finish_cancelled now i s"
  have "same_frame s ?c \<and>
    ((?c = s \<and> (\<forall>e. map_of (js_entries s) i = Some e \<longrightarrow> cj_state (je_job e) = JobCancelled))
     \<or> (\<exists>e e'. touched i e e' s ?c \<and> cj_state (je_job e) \<noteq> JobCancelled \<and> cj_state (je_job e') = JobCancelled))"
    by (rule finish_cancelled_effect[OF refl]) (use assms ne in auto)
  then have cancelled: "same_frame s ?c
      \<and> (\<exists>e'. touched i e e' s ?c \<and> job_terminal (cj_state (je_job e')))"
    using assms(1) ne by (auto simp: touched_def)
  show ?thesis
    unfolding conclude_def finish_failed_def finish_completed_def
    by (auto simp: cancelled failed completed split: option.split sum.split)
qed

lemma end_loop_core:
  assumes c: "core s" and p: "js_phases s i = Looping v0" and n: "js_phases s2 = js_phases s"
    and e2: "js_entries s2 = js_entries s" "js_announced s2 = js_announced s" "\<And>k. signalled k s2 = signalled k s"
  shows "core (end_loop now i v s2)
    \<and> (\<exists>e e'. touched i e e' s (end_loop now i v s2) \<and> job_terminal (cj_state (je_job e')))"
proof -
  obtain e where e: "map_of (js_entries s) i = Some e" "job_active (cj_state (je_job e))"
    using coreD(3)[OF c, of i] p phase_ok_active(1) by metis
  then have "entry_ok i e" using coreD(2)[OF c] by simp
  with conclude_effect[of "drop_permit s2" i e now v] e e2(1) obtain e' where
    f: "same_frame (drop_permit s2) (conclude now i v (drop_permit s2))"
    and t: "touched i e e' (drop_permit s2) (conclude now i v (drop_permit s2))"
    and final: "job_terminal (cj_state (je_job e'))"
    by auto
  have t': "touched i e e' s (end_loop now i v s2)"
    using t by (simp add: touched_def end_loop_def e2(1,2))
  have sig: "signalled k (end_loop now i v s2) = signalled k s" for k
    using frame_signalled[OF f, of k] e2(3) by (simp add: end_loop_def)
  have ph: "js_phases (end_loop now i v s2) = (js_phases s)(i := Done)"
    using f n by (simp add: end_loop_def same_frame_def)
  have "core (end_loop now i v s2)"
    by (rule core_touched[OF c t' refl]) (simp_all add: sig ph final)
  with t' final show ?thesis by blast
qed

text \<open>Every turn keeps the invariant; it changes at most the job of its executor.\<close>

definition only_job :: "string \<Rightarrow> job_system \<Rightarrow> job_system \<Rightarrow> bool" where
  "only_job i s s' \<longleftrightarrow>
     (js_entries s' = js_entries s \<and> js_announced s' = js_announced s) \<or> (\<exists>e e'. touched i e e' s s')"

lemma loop_on_core:
  assumes c: "core s" and p: "js_phases s i = Looping v0"
    and e2: "js_entries s2 = js_entries s" "js_announced s2 = js_announced s" "\<And>k. signalled k s2 = signalled k s"
      "js_phases s2 = js_phases s"
  shows "core (loop_on now i v s2) \<and> only_job i s (loop_on now i v s2)"
proof (cases "el_status v = None \<or> el_pipes_open v")
  case True
  have "phase_ok (Looping v) (map_of (js_entries s) i) (signalled i s)"
    using coreD(3)[OF c, of i] p by (cases "map_of (js_entries s) i") auto
  then have "core (set_phase i (Looping v) s2)"
    by (intro core_same[OF c, of _ i]) (simp_all add: e2)
  with True e2 show ?thesis by (simp add: loop_on_def only_job_def)
next
  case False
  with end_loop_core[OF c p e2(4) e2(1-3)] show ?thesis by (auto simp: loop_on_def only_job_def)
qed

lemma exec_step_core:
  assumes c: "core s" and run: "exec_step now i ev s = Some s'"
  shows "core s' \<and> only_job i s s'"
proof (cases ev)
  case SeeCancel
  then have p: "js_phases s i = Waiting" and s': "s' = set_phase i Done (finish_cancelled now i s)"
    using run by (auto split: if_splits)
  have eff: "same_frame s (finish_cancelled now i s) \<and>
    ((finish_cancelled now i s = s \<and> (\<forall>e. map_of (js_entries s) i = Some e \<longrightarrow> cj_state (je_job e) = JobCancelled))
     \<or> (\<exists>e e'. touched i e e' s (finish_cancelled now i s) \<and> cj_state (je_job e) \<noteq> JobCancelled
          \<and> cj_state (je_job e') = JobCancelled))"
  proof (rule finish_cancelled_effect[OF refl])
    fix e assume e: "map_of (js_entries s) i = Some e"
    then show "entry_ok i e \<and> cj_state (je_job e) \<noteq> JobCompleted \<and> cj_state (je_job e) \<noteq> JobFailed"
      using coreD(2)[OF c e] coreD(3)[OF c, of i] p by auto
  qed
  note frame = conjunct1[OF eff]
  have sig: "signalled k s' = signalled k s" and ph: "js_phases s' = (js_phases s)(i := Done)" for k
    using frame_signalled[OF frame] frame by (simp_all add: s' same_frame_def)
  from conjunct2[OF eff] show ?thesis
  proof (elim disjE conjE exE)
    assume same: "finish_cancelled now i s = s"
      and "\<forall>e. map_of (js_entries s) i = Some e \<longrightarrow> cj_state (je_job e) = JobCancelled"
    then have "phase_ok Done (map_of (js_entries s) i) (signalled i s')"
      by (cases "map_of (js_entries s) i") auto
    then have "core s'"
      by (intro core_same[OF c, of _ i]) (simp_all add: sig ph, simp add: s' same)
    then show ?thesis by (simp add: only_job_def s' same)
  next
    fix e e' assume t: "touched i e e' s (finish_cancelled now i s)" and "cj_state (je_job e') = JobCancelled"
    then have "core s'"
      by (intro core_touched[OF c t]) (simp_all add: sig ph, simp add: s')
    moreover have "touched i e e' s s'" using t by (simp add: s' touched_def)
    ultimately show ?thesis by (auto simp: only_job_def)
  qed
next
  case GotPermit
  define s1 where "s1 = s\<lparr>js_permits := js_permits s - 1\<rparr>"
  obtain b s2 where tr: "transition_running now i s1 = (b, s2)" by fastforce
  then have p: "js_phases s i = Waiting"
    and s': "s' = (if b then set_phase i Spawning s2 else set_phase i Done (drop_permit s2))"
    using run GotPermit by (auto simp: s1_def split: if_splits prod.splits bool.splits)
  have s1: "js_entries s1 = js_entries s" "js_announced s1 = js_announced s" "js_phases s1 = js_phases s"
    "\<And>k. signalled k s1 = signalled k s"
    by (simp_all add: s1_def signalled_def)
  from transition_running_effect[OF tr] show ?thesis
  proof (elim disjE conjE exE)
    assume nb: "\<not> b" "s2 = s1" and no: "\<forall>e. map_of (js_entries s1) i = Some e \<longrightarrow> cj_state (je_job e) \<noteq> JobQueued"
    then have "phase_ok Done (map_of (js_entries s) i) (signalled i s)"
      using coreD(3)[OF c, of i] p s1(1) by (cases "map_of (js_entries s) i") auto
    then have "core s'"
      by (intro core_same[OF c, of _ i]) (simp_all add: s' nb s1)
    then show ?thesis by (simp add: only_job_def s' nb s1)
  next
    fix e e' assume b: "b" and f: "same_frame s1 s2" and t: "touched i e e' s1 s2"
      and q: "cj_state (je_job e') = JobRunning"
    have t': "touched i e e' s s'" using t b by (simp add: touched_def s' s1)
    have "core s'"
      by (rule core_touched[OF c t' refl])
        (use b q f in \<open>simp_all add: s' frame_signalled[OF f] s1(4) job_active_def\<close>,
         simp add: same_frame_def s1(3))
    with t' show ?thesis by (auto simp: only_job_def)
  qed
next
  case (SpawnResult r)
  then have p: "js_phases s i = Spawning" using run by (auto split: if_splits)
  show ?thesis
  proof (cases r)
    case None
    then have s': "s' = set_phase i (Looping new_locals) s" using run SpawnResult p by simp
    have "phase_ok (Looping new_locals) (map_of (js_entries s) i) (signalled i s)"
      using coreD(3)[OF c, of i] p by (cases "map_of (js_entries s) i") auto
    then have "core s'" by (intro core_same[OF c, of _ i]) (simp_all add: s')
    then show ?thesis by (simp add: only_job_def s')
  next
    case (Some err)
    obtain e where e: "map_of (js_entries s) i = Some e" "job_active (cj_state (je_job e))"
      using coreD(3)[OF c, of i] p phase_ok_active(2) by metis
    define s1 where "s1 = finish_failed now i err None s"
    have s': "s' = set_phase i Done (drop_permit s1)" using run SpawnResult p Some by (simp add: s1_def)
    have "same_frame s s1 \<and> ((s1 = s \<and> (\<forall>e. map_of (js_entries s) i = Some e \<longrightarrow> \<not> job_active (cj_state (je_job e))))
     \<or> (\<exists>e e'. touched i e e' s s1 \<and> job_active (cj_state (je_job e)) \<and> cj_state (je_job e') = JobFailed))"
      unfolding s1_def finish_failed_def by (rule finish_job_effect[OF refl]) simp_all
    then obtain e0 e' where f: "same_frame s s1" and t: "touched i e0 e' s s1" and q: "cj_state (je_job e') = JobFailed"
      using e by blast
    have t': "touched i e0 e' s s'" using t by (simp add: touched_def s')
    have "core s'"
      by (rule core_touched[OF c t' refl])
        (use q f in \<open>simp_all add: s' frame_signalled[OF f]\<close>, simp add: same_frame_def)
    with t' show ?thesis by (auto simp: only_job_def)
  qed
next
  case (LoopData stream data)
  obtain v where p: "js_phases s i = Looping v" and s': "s' = loop_on now i v (append_job_output i stream data s)"
    and "el_pipes_open v"
    using run LoopData by (auto split: phase.splits if_splits)
  then have s': "s' = set_phase i (Looping v) (append_job_output i stream data s)" by (simp add: loop_on_def)
  have eff: "same_frame s (append_job_output i stream data s) \<and>
      (append_job_output i stream data s = s
       \<or> (\<exists>e e'. touched i e e' s (append_job_output i stream data s) \<and> cj_state (je_job e') = cj_state (je_job e)))"
    by (rule append_job_output_effect[OF refl])
  note f = conjunct1[OF eff]
  have ph: "js_phases s' = js_phases s" using f p by (simp add: s' same_frame_def fun_upd_idem)
  have sig: "signalled k s' = signalled k s" for k using frame_signalled[OF f] by (simp add: s')
  from conjunct2[OF eff] show ?thesis
  proof (elim disjE conjE exE)
    assume same: "append_job_output i stream data s = s"
    have "core s'"
      by (rule core_same[OF c, of _ i]) (use coreD(3)[OF c, of i] in \<open>simp_all add: sig ph\<close>, simp add: s' same)
    then show ?thesis by (simp add: only_job_def s' same)
  next
    fix e e' assume t: "touched i e e' s (append_job_output i stream data s)"
      and q: "cj_state (je_job e') = cj_state (je_job e)"
    have t': "touched i e e' s s'" using t by (simp add: touched_def s')
    have "core s'"
      by (rule core_touched[OF c t' refl])
        (use coreD(3)[OF c, of i] t p q in \<open>simp_all add: sig ph touched_def\<close>)
    with t' show ?thesis by (auto simp: only_job_def)
  qed
next
  case LoopDeadline
  obtain v v' where "js_phases s i = Looping v" "s' = end_loop now i v' s"
    using run LoopDeadline by (auto simp: Let_def split: phase.splits if_splits)
  with end_loop_core[OF c, of i v s now v'] show ?thesis by (auto simp: only_job_def)
qed (use run in \<open>auto simp: Let_def loop_on_core[OF c _ refl refl refl refl] split: phase.splits if_splits\<close>)

section \<open>Permits\<close>

text \<open>The finishing operations touch the entries and the announcements only.\<close>

lemma frame_ops:
  "same_frame s (finish_job now i st code er s)" "same_frame s (finish_cancelled now i s)"
  "same_frame s (append_job_output i stream data s)"
  by (auto simp: finish_job_def finish_cancelled_def append_job_output_def Let_def same_frame_def
      announce_def set_entry_def split: option.splits output_stream.splits prod.splits)

lemma frame_conclude: "same_frame s (conclude now i v s)"
  unfolding conclude_def finish_failed_def finish_completed_def
  by (auto simp: frame_ops split: option.split sum.split)

lemma frame_finish_failed: "same_frame s (finish_failed now i er code s)"
  by (simp add: finish_failed_def frame_ops)

lemma frameD:
  assumes "same_frame s s'"
  shows "js_phases s' = js_phases s" "js_permits s' = js_permits s" "js_barrier s' = js_barrier s"
    "js_starting s' = js_starting s"
  using assms by (simp_all add: same_frame_def)

lemmas frame_op_simps [simp] =
  frame_ops(1)[THEN frameD(1)] frame_ops(1)[THEN frameD(2)] frame_ops(1)[THEN frameD(3)] frame_ops(1)[THEN frameD(4)]
  frame_ops(2)[THEN frameD(1)] frame_ops(2)[THEN frameD(2)] frame_ops(2)[THEN frameD(3)] frame_ops(2)[THEN frameD(4)]
  frame_ops(3)[THEN frameD(1)] frame_ops(3)[THEN frameD(2)] frame_ops(3)[THEN frameD(3)] frame_ops(3)[THEN frameD(4)]
  frame_conclude[THEN frameD(1)] frame_conclude[THEN frameD(2)] frame_conclude[THEN frameD(3)] frame_conclude[THEN frameD(4)]
  frame_finish_failed[THEN frameD(1)] frame_finish_failed[THEN frameD(2)]
  frame_finish_failed[THEN frameD(3)] frame_finish_failed[THEN frameD(4)]

fun holds_permit :: "phase \<Rightarrow> bool" where
  "holds_permit Spawning = True"
| "holds_permit (Looping _) = True"
| "holds_permit _ = False"

definition holders :: "job_system \<Rightarrow> string set" where
  "holders s = {i. holds_permit (js_phases s i)}"

definition turn_ok :: "string \<Rightarrow> job_system \<Rightarrow> job_system \<Rightarrow> bool" where
  "turn_ok i s s' \<longleftrightarrow> (\<forall>k. k \<noteq> i \<longrightarrow> js_phases s' k = js_phases s k)
     \<and> js_permits s' + of_bool (holds_permit (js_phases s' i)) = js_permits s + of_bool (holds_permit (js_phases s i))
     \<and> js_barrier s' = js_barrier s \<and> js_starting s' = js_starting s"

lemma turn_ok_loop:
  assumes "js_phases s i = Looping v0" and "same_frame s s1"
  shows "turn_ok i s (end_loop now i v s1)" "turn_ok i s (loop_on now i v s1)"
  using assms frameD[OF assms(2)] by (simp_all add: turn_ok_def loop_on_def end_loop_def)

lemma same_frame_refl [simp]: "same_frame s s"
  by (simp add: same_frame_def)

lemma exec_step_turn: "exec_step now i ev s = Some s' \<Longrightarrow> turn_ok i s s'"
proof (cases ev)
  case GotPermit
  assume run: "exec_step now i ev s = Some s'"
  define s1 where "s1 = s\<lparr>js_permits := js_permits s - 1\<rparr>"
  obtain b s2 where tr: "transition_running now i s1 = (b, s2)" by fastforce
  have "same_frame s1 s2"
    using transition_running_effect[OF tr] by auto
  note f = frameD[OF this, unfolded s1_def, simplified]
  from run GotPermit tr show ?thesis
    by (cases b; cases "js_phases s i = Waiting \<and> 0 < js_permits s")
      (auto simp: s1_def turn_ok_def f)
next
  case (LoopData stream data)
  assume "exec_step now i ev s = Some s'"
  with LoopData show ?thesis by (auto intro: turn_ok_loop frame_ops split: phase.splits if_splits)
next
  case LoopDeadline
  assume "exec_step now i ev s = Some s'"
  with LoopDeadline show ?thesis
    by (auto simp: Let_def split: phase.splits if_splits intro: turn_ok_loop)
qed (auto simp: Let_def intro: turn_ok_loop split: phase.splits if_splits option.splits,
     auto simp: turn_ok_def)

lemma turn_ok_holders:
  assumes "turn_ok i s s'" and "finite (holders s)"
  shows "finite (holders s') \<and> js_permits s' + card (holders s') = js_permits s + card (holders s)"
proof -
  have others: "holders s' - {i} = holders s - {i}"
    using assms(1) by (auto simp: turn_ok_def holders_def)
  have split: "finite (holders x) \<longleftrightarrow> finite (holders x - {i})" for x by simp
  have card: "card (holders x) = card (holders x - {i}) + of_bool (holds_permit (js_phases x i))"
    if "finite (holders x)" for x
  proof (cases "i \<in> holders x")
    case True
    then have "holds_permit (js_phases x i)" by (simp add: holders_def)
    with card.remove[OF that True] show ?thesis by simp
  next
    case False
    then have "\<not> holds_permit (js_phases x i)" by (simp add: holders_def)
    with False show ?thesis by simp
  qed
  have fin: "finite (holders s')" using assms(2) others split by metis
  show ?thesis
    using card[OF fin] card[OF assms(2)] others assms(1) fin by (simp add: turn_ok_def)
qed

section \<open>The invariant of the whole system\<close>

definition jobs_inv :: "nat \<Rightarrow> job_system \<Rightarrow> bool" where
  "jobs_inv m s \<longleftrightarrow> core s
     \<and> live_jobs (js_entries s) \<le> MAX_PENDING_JOBS \<and> length (js_entries s) \<le> MAX_RETAINED_JOBS
     \<and> finite (holders s) \<and> js_permits s + card (holders s) = m
     \<and> (\<forall>h. active_of (js_barrier s) h = count_list (js_starting s) h)"

lemma touched_bounds:
  assumes "touched i e e' s s'" and "keys_ok (js_entries s)"
  shows "live_jobs (js_entries s') \<le> live_jobs (js_entries s)" "length (js_entries s') \<le> length (js_entries s)"
proof -
  have e: "map_of (js_entries s) i = Some e" and "\<not> job_terminal (cj_state (je_job e))"
    using assms(1) by (auto simp: touched_def job_edge_def) (cases "cj_state (je_job e)"; simp)+
  then have "live_jobs (put i e' (js_entries s)) \<le> live_jobs (js_entries s)"
    unfolding live_jobs_def by (intro count_where_put_le[OF e _ assms(2)]) (simp add: is_terminal_entry_def)
  moreover have "length (put i e' (js_entries s)) = length (js_entries s)" using e by (simp add: length_put)
  ultimately show "live_jobs (js_entries s') \<le> live_jobs (js_entries s)"
    "length (js_entries s') \<le> length (js_entries s)"
    using assms(1) live_jobs_prune[of "put i e' (js_entries s)" MAX_RETAINED_JOBS]
      length_prune_jobs[of "put i e' (js_entries s)" MAX_RETAINED_JOBS]
    by (auto simp: touched_def)
qed

lemma core_removed:
  assumes c: "core s" and "keys_ok (js_entries s')"
    and gone: "\<And>k. map_of (js_entries s') k = map_of (js_entries s) k
      \<or> (map_of (js_entries s') k = None
         \<and> (\<exists>e. map_of (js_entries s) k = Some e \<and> job_terminal (cj_state (je_job e))))"
    and "js_phases s' = js_phases s" and "\<And>k. signalled k s' = signalled k s"
  shows "core s'"
proof -
  have "phase_ok (js_phases s' k) (map_of (js_entries s') k) (signalled k s')" for k
    using gone[of k] coreD(3)[OF c, of k] assms(4,5) phase_ok_gone by auto
  moreover have "entry_ok k e \<and> output_ok e" if "map_of (js_entries s') k = Some e" for k e
    using gone[of k] coreD(2)[OF c, of k e] that by auto
  ultimately show ?thesis using assms(2) by (simp add: core_def)
qed

lemma core_pruned: "core s \<Longrightarrow> core (s\<lparr>js_entries := prune_terminal_jobs (js_entries s) n\<rparr>)"
  by (rule core_removed)
    (use coreD(1) prune_jobs_cases in \<open>auto simp: keys_ok_prune_jobs signalled_def\<close>)

lemma core_purged:
  assumes c: "core s" and f: "host_finished h s"
  shows "core (purge_host h s)"
proof (rule core_removed[OF c])
  note k = coreD(1)[OF c]
  show "keys_ok (js_entries (purge_host h s))" using k by (simp add: purge_host_def keys_ok_filter)
  fix i
  show "map_of (js_entries (purge_host h s)) i = map_of (js_entries s) i
      \<or> (map_of (js_entries (purge_host h s)) i = None
         \<and> (\<exists>e. map_of (js_entries s) i = Some e \<and> job_terminal (cj_state (je_job e))))"
  proof (cases "map_of (js_entries s) i")
    case (Some e)
    then have "(i, e) \<in> set (js_entries s)" using k by (simp add: in_set_map_of)
    with f have "cj_host_id (je_job e) = h \<Longrightarrow> job_terminal (cj_state (je_job e))"
      by (auto simp: host_finished_def list_all_iff is_terminal_entry_def)
    then show ?thesis using Some by (simp add: purge_host_def map_of_filter_keys[OF k])
  qed (simp add: purge_host_def map_of_filter_keys[OF k])
qed (simp_all add: purge_host_def signalled_def)

lemma core_inserted:
  assumes c: "core s" and "map_of (js_entries s) i = None" and "entry_ok i e" and "output_ok e"
    and "js_entries s' = put i e (js_entries s)"
    and "\<And>k. k \<noteq> i \<Longrightarrow> js_phases s' k = js_phases s k" and "\<And>k. signalled k s' = signalled k s"
    and "phase_ok (js_phases s' i) (Some e) (signalled i s)"
  shows "core s'"
proof -
  have "phase_ok (js_phases s' k) (map_of (js_entries s') k) (signalled k s')" for k
    using coreD(3)[OF c, of k] assms(5-8) by (auto simp: map_of_put)
  then show ?thesis using c assms(3-5) by (auto simp: core_def keys_ok_put map_of_put)
qed

lemma core_frame: "js_entries s' = js_entries s \<Longrightarrow> js_phases s' = js_phases s \<Longrightarrow> js_marked s' = js_marked s \<Longrightarrow>
    js_flags s' = js_flags s \<Longrightarrow> core s' \<longleftrightarrow> core s"
  by (simp add: core_def signalled_def)

lemma end_start_simps [simp]:
  "js_entries (end_start h s) = js_entries s" "js_phases (end_start h s) = js_phases s"
  "js_announced (end_start h s) = js_announced s" "js_permits (end_start h s) = js_permits s"
  "js_barrier (end_start h s) = end_lease h (js_barrier s)" "js_starting (end_start h s) = remove1 h (js_starting s)"
  "js_marked (end_start h s) = js_marked s" "js_flags (end_start h s) = js_flags s"
  "core (end_start h s) = core s"
  by (simp_all add: end_start_def core_def signalled_def)

lemma insert_job_simps [simp]:
  "js_entries (insert_job i job s) = put i \<lparr>je_job = job, je_sequence = js_next_sequence s,
     je_stdout_truncated = False, je_stderr_truncated = False\<rparr> (js_entries s)"
  "js_phases (insert_job i job s) = js_phases s" "js_permits (insert_job i job s) = js_permits s"
  "js_barrier (insert_job i job s) = js_barrier s" "js_starting (insert_job i job s) = js_starting s"
  "js_marked (insert_job i job s) = js_marked s" "js_flags (insert_job i job s) = js_flags s"
  "signalled k (insert_job i job s) = signalled k s" "js_announced (insert_job i job s) = js_announced s @ [job]"
  by (simp_all add: insert_job_def announce_def set_entry_def signalled_def)

text \<open>Registering a job.\<close>

lemma start_process_cases:
  obtains (full) er where
    "start_process i pc s = (Inl er, s\<lparr>js_entries := prune_terminal_jobs (js_entries s) MAX_RETAINED_JOBS\<rparr>)"
  | (started) "live_jobs (prune_terminal_jobs (js_entries s) MAX_RETAINED_JOBS) < MAX_PENDING_JOBS"
    "start_process i pc s = (Inr (queued_job i pc),
       (insert_job i (queued_job i pc) (s\<lparr>js_entries := prune_terminal_jobs (js_entries s) MAX_RETAINED_JOBS\<rparr>))
         \<lparr>js_phases := (js_phases s)(i := Waiting)\<rparr>)"
  by (cases "live_jobs (prune_terminal_jobs (js_entries s) MAX_RETAINED_JOBS) \<ge> MAX_PENDING_JOBS")
    (auto simp: start_process_def Let_def)

lemma pruned_fresh: "core s \<Longrightarrow> map_of (js_entries s) i = None \<Longrightarrow>
    map_of (prune_terminal_jobs (js_entries s) n) i = None"
  using prune_jobs_cases[OF coreD(1), of s n i] by auto

lemma start_process_core:
  assumes c: "core s" and f: "fresh_job i s"
  shows "core (snd (start_process i pc s))"
proof (cases rule: start_process_cases[of i pc s])
  case full
  then show ?thesis using core_pruned[OF c] by simp
next
  case started
  show ?thesis unfolding started(2) snd_conv
    by (rule core_inserted[OF core_pruned[OF c, of MAX_RETAINED_JOBS], of i "\<lparr>je_job = queued_job i pc,
          je_sequence = js_next_sequence s, je_stdout_truncated = False, je_stderr_truncated = False\<rparr>"])
      (use f pruned_fresh[OF c] in \<open>simp_all add: fresh_job_def signalled_def entry_ok_def output_ok_def
        queued_job_def\<close>)
qed

lemma handoff_core:
  assumes c: "core s" and f: "fresh_job i s" and "valid_utf8 sid" and "length sid \<le> 64"
  shows "core (snd (record_pty_handoff now i plan sid s))"
proof -
  have "valid_utf8 ''Opened interactive terminal session ''" "valid_utf8 ''.''" by code_simp+
  then have v: "valid_utf8 (''Opened interactive terminal session '' @ sid @ ''.'')"
    using assms(3) by (intro valid_append)
  have l: "length (''Opened interactive terminal session '' @ sid @ ''.'') \<le> COMMAND_OUTPUT_LIMIT"
    using assms(4) by (simp add: COMMAND_OUTPUT_LIMIT_def)
  show ?thesis unfolding record_pty_handoff_def Let_def snd_conv
    by (rule core_inserted[OF core_pruned[OF c, of MAX_RETAINED_JOBS], of i "\<lparr>je_job = handoff_job now i plan sid,
          je_sequence = js_next_sequence s, je_stdout_truncated = False, je_stderr_truncated = False\<rparr>"])
      (use f pruned_fresh[OF c] v l in \<open>simp_all add: fresh_job_def signalled_def entry_ok_def output_ok_def
        handoff_job_def\<close>)
qed

lemma cancel_core:
  assumes c: "core s"
  shows "core (snd (cancel_job now i s)) \<and> only_job i s (snd (cancel_job now i s))"
proof -
  obtain r s' where run: "cancel_job now i s = (r, s')" by fastforce
  from cancel_job_effect[OF run] consider (same) "s' = s"
    | (moved) e e' where "touched i e e' s (s'\<lparr>js_marked := js_marked s\<rparr>)"
      "same_frame s (s'\<lparr>js_marked := js_marked s\<rparr>)" "js_marked s' = insert i (js_marked s)"
      "cj_state (je_job e) = JobQueued \<and> cj_state (je_job e') = JobCancelled
        \<or> cj_state (je_job e) = JobRunning \<and> cj_state (je_job e') = JobCancelling"
    by blast
  then show ?thesis
  proof cases
    case same
    with run c show ?thesis by (simp add: only_job_def)
  next
    case moved
    note t = moved(1) and f = moved(2) and m = moved(3) and st = moved(4)
    have t': "touched i e e' s s'" using t by (simp add: touched_def)
    have old: "phase_ok (js_phases s i) (Some e) (signalled i s)"
      using coreD(3)[OF c, of i] t by (simp add: touched_def)
    have ph: "js_phases s' = js_phases s" using f by (simp add: same_frame_def)
    have sig: "signalled k s' \<longleftrightarrow> k = i \<or> signalled k s" for k
      using f m by (auto simp: same_frame_def signalled_def)
    have "phase_ok (js_phases s i) (Some e') True"
      using old st by (cases "js_phases s i") (auto simp: job_active_def)
    then have new: "phase_ok (js_phases s' i) (Some e') (signalled i s')" by (simp add: ph sig)
    have "core s'"
      by (rule core_touched[OF c t' refl _ new]) (simp add: ph sig)
    with run t' show ?thesis by (auto simp: only_job_def)
  qed
qed

lemma job_step_core:
  assumes c: "core s" and "op_args_ok op" and run: "job_step op s = Some s'"
  shows "core s'"
proof (cases op)
  case (OpBegin h)
  with run c show ?thesis
    by (auto simp: core_def signalled_def split: prod.splits bool.splits)
next
  case (OpRun now i r conf)
  then show ?thesis
    using run c start_process_core[OF c, of i] by (auto split: if_splits sum.splits)
next
  case (OpHandoff now i plan sid)
  then show ?thesis
    using run c handoff_core[OF c, of i sid] assms(2) by (auto split: if_splits)
next
  case (OpSend i)
  then have "js_entries s' = js_entries s" "js_phases s' = js_phases s" "\<And>k. signalled k s' = signalled k s"
    using run by (auto simp: send_cancel_def signalled_def split: if_splits)
  with c show ?thesis by (simp add: core_def)
next
  case (OpPurge h)
  then show ?thesis using run core_purged[OF c, of h] by (auto split: if_splits)
qed (use run c cancel_core[OF c] exec_step_core[OF c] in
    \<open>auto simp: core_def signalled_def split: if_splits\<close>)

text \<open>The parts of the invariant that speak of numbers.\<close>

lemma only_job_bounds:
  assumes "only_job i s s'" and "keys_ok (js_entries s)"
  shows "live_jobs (js_entries s') \<le> live_jobs (js_entries s)" "length (js_entries s') \<le> length (js_entries s)"
  using assms touched_bounds[OF _ assms(2)] by (fastforce simp: only_job_def)+

lemma insert_bounds:
  assumes "live_jobs (js_entries s) \<le> MAX_PENDING_JOBS" and "core s" and "map_of (js_entries s) i = None"
    and "es = prune_terminal_jobs (js_entries s) MAX_RETAINED_JOBS"
    and "job_terminal (cj_state (je_job e)) \<or> live_jobs es < MAX_PENDING_JOBS"
  shows "live_jobs (put i e es) \<le> MAX_PENDING_JOBS" "length (put i e es) \<le> MAX_RETAINED_JOBS"
proof -
  have none: "map_of es i = None" using pruned_fresh[OF assms(2,3)] assms(4) by simp
  have "live_jobs es \<le> MAX_PENDING_JOBS"
    using live_jobs_prune[of "js_entries s" MAX_RETAINED_JOBS] assms(1,4) by simp
  then show "live_jobs (put i e es) \<le> MAX_PENDING_JOBS"
    using assms(5) unfolding live_jobs_def count_where_put_new[OF none] by (auto simp: is_terminal_entry_def)
  show "length (put i e es) \<le> MAX_RETAINED_JOBS"
    using prune_jobs_within[OF assms(1)] none assms(4) by (simp add: length_put)
qed

lemma job_step_bounds:
  assumes c: "core s" and run: "job_step op s = Some s'"
    and b: "live_jobs (js_entries s) \<le> MAX_PENDING_JOBS" "length (js_entries s) \<le> MAX_RETAINED_JOBS"
  shows "live_jobs (js_entries s') \<le> MAX_PENDING_JOBS \<and> length (js_entries s') \<le> MAX_RETAINED_JOBS"
proof -
  note k = coreD(1)[OF c]
  let ?es = "prune_terminal_jobs (js_entries s) MAX_RETAINED_JOBS"
  have pruned: "live_jobs ?es \<le> MAX_PENDING_JOBS" "length ?es \<le> MAX_RETAINED_JOBS"
    using live_jobs_prune[of "js_entries s" MAX_RETAINED_JOBS] length_prune_jobs[of "js_entries s" MAX_RETAINED_JOBS] b
    by simp_all
  show ?thesis
  proof (cases op)
    case (OpRun now i r conf)
    show ?thesis
    proof (cases "prepare_run r conf")
      case (Inr pc)
      then have f: "map_of (js_entries s) i = None" and s': "s' = end_start (hp_id (rc_host r)) (snd (start_process i pc s))"
        using run OpRun by (auto simp: fresh_job_def split: if_splits)
      show ?thesis
      proof (cases rule: start_process_cases[of i pc s])
        case full
        then show ?thesis using pruned s' by simp
      next
        case started
        then show ?thesis using insert_bounds[OF b(1) c f refl] s' by simp
      qed
    qed (use run OpRun b in \<open>auto split: if_splits\<close>)
  next
    case (OpHandoff now i plan sid)
    then have f: "map_of (js_entries s) i = None"
      and s': "s' = end_start (pcp_host_id plan) (snd (record_pty_handoff now i plan sid s))"
      using run by (auto simp: fresh_job_def split: if_splits)
    show ?thesis
      using insert_bounds[OF b(1) c f refl] s' by (simp add: record_pty_handoff_def Let_def handoff_job_def)
  next
    case (OpPurge h)
    then have s': "js_entries s' = filter (\<lambda>p. cj_host_id (je_job (snd p)) \<noteq> h) (js_entries s)"
      using run by (auto simp: purge_host_def split: if_splits)
    have "live_jobs (js_entries s') \<le> live_jobs (js_entries s)"
      unfolding s' live_jobs_def by (rule count_where_filter)
    moreover have "length (js_entries s') \<le> length (js_entries s)"
      unfolding s' by (rule length_filter_le)
    ultimately show ?thesis using b by simp
  next
    case (OpCancel now i)
    with run b only_job_bounds[OF conjunct2[OF cancel_core[OF c, of now i]] k] show ?thesis by simp
  next
    case (OpExec now i ev)
    with run b only_job_bounds[OF conjunct2[OF exec_step_core[OF c, of now i ev s']] k] show ?thesis by simp
  qed (use run b in \<open>auto simp: send_cancel_def split: if_splits prod.splits bool.splits\<close>)
qed

text \<open>Which phases, permits, leases and starting calls an operation changes.\<close>

lemma cancel_frame [simp]:
  "js_phases (snd (cancel_job now i s)) = js_phases s" "js_permits (snd (cancel_job now i s)) = js_permits s"
  "js_barrier (snd (cancel_job now i s)) = js_barrier s" "js_starting (snd (cancel_job now i s)) = js_starting s"
  by (auto simp: cancel_job_def Let_def announce_def set_entry_def split: option.split)

lemma start_frame [simp]:
  "js_permits (snd (start_process i pc s)) = js_permits s" "js_barrier (snd (start_process i pc s)) = js_barrier s"
  "js_starting (snd (start_process i pc s)) = js_starting s"
  by (cases rule: start_process_cases[of i pc s]; simp)+

lemma start_phases: "js_phases s i = Done \<Longrightarrow>
    holds_permit (js_phases (snd (start_process i pc s)) k) \<longleftrightarrow> holds_permit (js_phases s k)"
  by (cases rule: start_process_cases[of i pc s]) auto

lemma handoff_frame [simp]:
  "js_phases (snd (record_pty_handoff now i plan sid s)) = js_phases s"
  "js_permits (snd (record_pty_handoff now i plan sid s)) = js_permits s"
  "js_barrier (snd (record_pty_handoff now i plan sid s)) = js_barrier s"
  "js_starting (snd (record_pty_handoff now i plan sid s)) = js_starting s"
  by (simp_all add: record_pty_handoff_def Let_def)

lemma send_purge_frame [simp]:
  "js_phases (send_cancel i s) = js_phases s" "js_permits (send_cancel i s) = js_permits s"
  "js_barrier (send_cancel i s) = js_barrier s" "js_starting (send_cancel i s) = js_starting s"
  "js_phases (purge_host h s) = js_phases s" "js_permits (purge_host h s) = js_permits s"
  "js_barrier (purge_host h s) = js_barrier s" "js_starting (purge_host h s) = js_starting s"
  by (simp_all add: send_cancel_def purge_host_def)

lemma job_step_permits:
  assumes run: "job_step op s = Some s'" and "finite (holders s)"
  shows "finite (holders s') \<and> js_permits s' + card (holders s') = js_permits s + card (holders s)"
proof (cases op)
  case (OpExec now i ev)
  with run turn_ok_holders[OF exec_step_turn assms(2)] show ?thesis by simp
next
  case (OpRun now i r conf)
  then have "js_permits s' = js_permits s" "holders s' = holders s"
    using run by (auto simp: holders_def start_phases fresh_job_def split: if_splits sum.splits)
  with assms(2) show ?thesis by simp
qed (use run assms(2) in \<open>auto simp: holders_def split: if_splits prod.splits bool.splits\<close>)

lemma end_start_leases:
  assumes "\<forall>k. active_of (js_barrier s) k = count_list (js_starting s) k" and "h \<in> set (js_starting s)"
  shows "active_of (end_lease h (js_barrier s)) k = count_list (remove1 h (js_starting s)) k"
  using assms by (auto simp: hb.end_active count_list_remove1)

lemma job_step_leases:
  assumes run: "job_step op s = Some s'" and a: "\<forall>h. active_of (js_barrier s) h = count_list (js_starting s) h"
    and "length (js_starting s) < u64_max"
  shows "\<forall>h. active_of (js_barrier s') h = count_list (js_starting s') h"
proof (cases op)
  case (OpBegin g)
  obtain okay b where bl: "begin_lease g (js_barrier s) = (okay, b)" by fastforce
  have act: "active_of b h = (if g = h \<and> okay then Suc (count_list (js_starting s) h) else count_list (js_starting s) h)" for h
  proof -
    have "count_list (js_starting s) g < u64_max"
      using count_le_length[of "js_starting s" g] assms(3) by simp
    then show ?thesis
      using hb.begin_active[of g "js_barrier s" h] hb.begin_granted[of g "js_barrier s"] bl a by auto
  qed
  with run OpBegin bl show ?thesis by (auto split: bool.splits)
next
  case (OpExec now i ev)
  with run exec_step_turn[of now i ev s s'] a show ?thesis by (simp add: turn_ok_def)
qed (use run a end_start_leases[OF a] in \<open>auto simp: hb.retire_active hb.restore_active split: if_splits sum.splits\<close>)

lemma job_step_inv:
  assumes "jobs_inv m s" and "job_step op s = Some s'" and "op_args_ok op" and "length (js_starting s) < u64_max"
  shows "jobs_inv m s'"
  using assms job_step_core[of s op s'] job_step_bounds[of s op s'] job_step_permits[OF assms(2)]
    job_step_leases[OF assms(2)]
  by (simp add: jobs_inv_def)

lemma jobs_reach_inv: "jobs_reach s0 s \<Longrightarrow> jobs_inv m s0 \<Longrightarrow> jobs_inv m s"
  by (induction rule: jobs_reach.induct) (auto intro: job_step_inv)

lemma new_registry_inv: "new_registry m = Inr s \<Longrightarrow> jobs_inv m s \<and> m \<le> MAX_CONCURRENT_JOBS"
  by (auto simp: new_registry_def jobs_inv_def core_def keys_ok_def live_jobs_def count_where_def holders_def
      active_of_def or_default_def default_host_operation_state_def split: if_splits)

end
