(* ===== verification/CommandJobProps.thy ===== *)
theory CommandJobProps
  imports CommandJobsSafe
begin

text \<open>
  The properties of the job registry of \<^verbatim>\<open>command_job.rs\<close>, for every state reachable from a new
  registry, with a small sample history for the witnesses.
\<close>

section \<open>The life of one job\<close>

text \<open>
  What one operation may do to the entry of one job, given the records it broadcasts: nothing; a
  new job; one step along the life cycle, broadcast with the next revision; or the removal of a
  finished job, possibly in the very step that finished it.
\<close>

fun life_step :: "job_entry option \<Rightarrow> job_entry option \<Rightarrow> command_job list \<Rightarrow> bool" where
  "life_step None None news \<longleftrightarrow> True"
| "life_step None (Some e') news \<longleftrightarrow> news = [je_job e'] \<and> cj_revision (je_job e') = 1
     \<and> (cj_state (je_job e') = JobQueued \<or> cj_state (je_job e') = JobCompleted)"
| "life_step (Some e) (Some e') news \<longleftrightarrow> e' = e \<or> (job_edge e e' \<and> news = [je_job e'])"
| "life_step (Some e) None news \<longleftrightarrow> job_terminal (cj_state (je_job e))
     \<or> (\<exists>e'. job_edge e e' \<and> job_terminal (cj_state (je_job e')) \<and> news = [je_job e'])"

definition life_ok :: "job_system \<Rightarrow> job_system \<Rightarrow> bool" where
  "life_ok s s' \<longleftrightarrow> (\<exists>news. js_announced s' = js_announced s @ news \<and> length news \<le> 1
     \<and> (\<forall>i. life_step (map_of (js_entries s) i) (map_of (js_entries s') i) news))"

lemma life_step_refl [simp]: "life_step x x news"
  by (cases x) simp_all

lemma life_ok_same: "js_entries s' = js_entries s \<Longrightarrow> js_announced s' = js_announced s \<Longrightarrow> life_ok s s'"
  by (auto simp: life_ok_def)

lemma life_ok_touched:
  assumes t: "touched i e e' s s'" and c: "core s"
  shows "life_ok s s'"
  unfolding life_ok_def
proof (intro exI[of _ "[je_job e']"] conjI allI)
  note m = touched_map_of[OF t coreD(1)[OF c]]
  have e: "map_of (js_entries s) i = Some e" "job_edge e e'" using t by (simp_all add: touched_def)
  show "js_announced s' = js_announced s @ [je_job e']" using t by (simp add: touched_def)
  fix k
  have others: "map_of (js_entries s') k \<noteq> None \<or> map_of (js_entries s) k \<noteq> None \<or> k \<noteq> i" using e by auto
  show "life_step (map_of (js_entries s) k) (map_of (js_entries s') k) [je_job e']"
  proof (cases "map_of (js_entries s') k")
    case (Some x)
    with m(2)[OF Some] e show ?thesis by (auto split: if_splits)
  next
    case None
    with m(3)[OF None] e show ?thesis by (cases "map_of (js_entries s) k") (auto split: if_splits)
  qed
qed simp

lemma life_ok_only: "only_job i s s' \<Longrightarrow> core s \<Longrightarrow> life_ok s s'"
  unfolding only_job_def using life_ok_same life_ok_touched by blast

lemma life_ok_pruned: "core s \<Longrightarrow> js_entries s' = prune_terminal_jobs (js_entries s) n \<Longrightarrow>
    js_announced s' = js_announced s \<Longrightarrow> life_ok s s'"
  unfolding life_ok_def
proof (intro exI[of _ "[]"] conjI allI)
  fix k assume "core s" "js_entries s' = prune_terminal_jobs (js_entries s) n"
  then show "life_step (map_of (js_entries s) k) (map_of (js_entries s') k) []"
    using prune_jobs_cases[OF coreD(1), of s n k] by (cases "map_of (js_entries s) k") auto
qed auto

lemma life_ok_inserted:
  assumes c: "core s" and new: "map_of (js_entries s) i = None"
    and s': "js_entries s' = put i e (prune_terminal_jobs (js_entries s) n)"
      "js_announced s' = js_announced s @ [je_job e]"
    and e: "cj_revision (je_job e) = 1" "cj_state (je_job e) = JobQueued \<or> cj_state (je_job e) = JobCompleted"
  shows "life_ok s s'"
  unfolding life_ok_def
proof (intro exI[of _ "[je_job e]"] conjI allI)
  fix k
  show "life_step (map_of (js_entries s) k) (map_of (js_entries s') k) [je_job e]"
    using prune_jobs_cases[OF coreD(1)[OF c], of n k] new e
    by (cases "map_of (js_entries s) k") (auto simp: s'(1) map_of_put)
qed (simp_all add: s'(2))

lemma life_ok_end_start [simp]: "life_ok s (end_start h s') = life_ok s s'"
  by (simp add: life_ok_def)

lemma job_step_life:
  assumes c: "core s" and run: "job_step op s = Some s'"
  shows "life_ok s s'"
proof (cases op)
  case (OpRun now i r conf)
  show ?thesis
  proof (cases "prepare_run r conf")
    case (Inr pc)
    then have f: "map_of (js_entries s) i = None"
      and s': "s' = end_start (hp_id (rc_host r)) (snd (start_process i pc s))"
      using run OpRun by (auto simp: fresh_job_def split: if_splits)
    show ?thesis
    proof (cases rule: start_process_cases[of i pc s])
      case full
      then show ?thesis using c s' by (auto intro!: life_ok_pruned)
    next
      case started
      have "life_ok s (snd (start_process i pc s))"
        by (rule life_ok_inserted[OF c f]) (simp_all add: started(2), simp_all add: queued_job_def)
      with s' show ?thesis by simp
    qed
  qed (use run OpRun in \<open>auto intro!: life_ok_same split: if_splits\<close>)
next
  case (OpHandoff now i plan sid)
  then have f: "map_of (js_entries s) i = None"
    and s': "s' = end_start (pcp_host_id plan) (snd (record_pty_handoff now i plan sid s))"
    using run by (auto simp: fresh_job_def split: if_splits)
  have "life_ok s (snd (record_pty_handoff now i plan sid s))"
    by (rule life_ok_inserted[OF c f])
      (simp_all add: record_pty_handoff_def Let_def, simp_all add: handoff_job_def)
  with s' show ?thesis by simp
next
  case (OpPurge h)
  then have s': "s' = purge_host h s" and fin: "host_finished h s" using run by (auto split: if_splits)
  have "life_step (map_of (js_entries s) i) (map_of (js_entries s') i) []" for i
  proof (cases "map_of (js_entries s) i")
    case (Some e)
    have ks: "keys_ok (js_entries s)" using coreD(1)[OF c] .
    show ?thesis
    proof (cases "cj_host_id (je_job e) = h")
      case True
      have "(i, e) \<in> set (js_entries s)" using Some by (rule map_of_SomeD)
      with True fin have "job_terminal (cj_state (je_job e))"
        by (auto simp: host_finished_def list_all_iff is_terminal_entry_def)
      moreover have "a = e" if "map_of (js_entries s') i = Some a" for a
      proof -
        have "(i, a) \<in> set (js_entries s)"
          using map_of_SomeD[OF that] by (simp add: s' purge_host_def)
        with Some show ?thesis by (simp add: in_set_map_of[OF ks])
      qed
      ultimately show ?thesis using Some by (cases "map_of (js_entries s') i") auto
    next
      case False
      then have "(i, e) \<in> set (js_entries s')" using map_of_SomeD[OF Some] by (auto simp: s' purge_host_def)
      then have "map_of (js_entries s') i = Some e"
        using in_set_map_of[OF keys_ok_filter[OF ks, of "\<lambda>p. cj_host_id (je_job (snd p)) \<noteq> h"]]
        by (simp add: s' purge_host_def)
      with Some show ?thesis by simp
    qed
  next
    case None
    then have "map_of (js_entries s') i = None"
      by (auto simp: s' purge_host_def map_of_eq_None_iff)
    with None show ?thesis by simp
  qed
  then show ?thesis unfolding life_ok_def by (intro exI[of _ "[]"]) (simp add: s' purge_host_def)
next
  case (OpCancel now i)
  with run life_ok_only[OF conjunct2[OF cancel_core[OF c, of now i]] c] show ?thesis by simp
next
  case (OpExec now i ev)
  with run life_ok_only[OF conjunct2[OF exec_step_core[OF c, of now i ev s']] c] show ?thesis by simp
qed (use run in \<open>auto simp: send_cancel_def intro!: life_ok_same split: if_splits prod.splits bool.splits\<close>)

text \<open>The invariant at every reachable state.\<close>

lemma reached_inv: "new_registry m = Inr s0 \<Longrightarrow> jobs_reach s0 s \<Longrightarrow> jobs_inv m s"
  using jobs_reach_inv new_registry_inv by blast

lemmas reached_core = reached_inv[unfolded jobs_inv_def, THEN conjunct1]

section \<open>Retired hosts\<close>

lemma only_job_no_new:
  assumes c: "core s" and o: "only_job i s s'"
    and new: "map_of (js_entries s) k = None" "map_of (js_entries s') k = Some e"
  shows False
proof -
  from o new obtain x x' where t: "touched i x x' s s'" by (auto simp: only_job_def)
  with new touched_map_of(2)[OF t coreD(1)[OF c] new(2)] show False
    by (auto simp: touched_def split: if_splits)
qed

lemma new_entry_host:
  assumes c: "core s" and run: "job_step op s = Some s'"
    and new: "map_of (js_entries s) k = None" "map_of (js_entries s') k = Some e"
  shows "cj_host_id (je_job e) \<in> set (js_starting s)"
proof (cases op)
  case (OpRun now i r conf)
  show ?thesis
  proof (cases "prepare_run r conf")
    case (Inl er)
    with run OpRun new show ?thesis by (auto split: if_splits)
  next
    case (Inr pc)
    then have h: "hp_id (rc_host r) \<in> set (js_starting s)"
      and s': "s' = end_start (hp_id (rc_host r)) (snd (start_process i pc s))"
      using run OpRun by (auto split: if_splits)
    have "pc_host pc = rc_host r" using prepare_runE[OF Inr] by blast
    with h s' new pruned_fresh[OF c new(1), of MAX_RETAINED_JOBS] show ?thesis
      by (cases rule: start_process_cases[of i pc s]) (auto simp: map_of_put queued_job_def split: if_splits)
  qed
next
  case (OpHandoff now i plan sid)
  with run new pruned_fresh[OF c new(1), of MAX_RETAINED_JOBS] show ?thesis
    by (auto simp: record_pty_handoff_def Let_def map_of_put handoff_job_def split: if_splits)
next
  case (OpPurge h)
  with run new show ?thesis
    by (auto simp: purge_host_def in_set_map_of[OF coreD(1)[OF c]] dest!: map_of_SomeD split: if_splits)
next
  case (OpCancel now i)
  with run cancel_core[OF c, of now i] have "only_job i s s'" by simp
  from only_job_no_new[OF c this new] show ?thesis by simp
next
  case (OpExec now i ev)
  with run exec_step_core[OF c, of now i ev s'] have "only_job i s s'" by simp
  from only_job_no_new[OF c this new] show ?thesis by simp
qed (use run new in \<open>auto simp: send_cancel_def split: if_splits prod.splits bool.splits\<close>)

definition host_gone :: "string \<Rightarrow> job_system \<Rightarrow> bool" where
  "host_gone h s \<longleftrightarrow> is_retired h (js_barrier s) \<and> idle_check h (js_barrier s)
     \<and> list_all (\<lambda>p. cj_host_id (je_job (snd p)) \<noteq> h) (js_entries s)"

lemma host_gone_step:
  assumes inv: "jobs_inv m s" "jobs_inv m s'" and run: "job_step op s = Some s'"
    and gone: "host_gone h s" and "op \<noteq> OpRestore h"
  shows "host_gone h s'"
proof -
  have c: "core s" "core s'" using inv by (simp_all add: jobs_inv_def)
  have none: "h \<notin> set (js_starting s)"
    using gone inv(1) by (simp add: host_gone_def jobs_inv_def idle_check_iff count_list_0_iff)
  have barrier: "is_retired h (js_barrier s') \<and> active_of (js_barrier s') h = 0"
  proof (cases op)
    case (OpBegin g)
    obtain okay b where "begin_lease g (js_barrier s) = (okay, b)" by fastforce
    with OpBegin run gone hb.begin_active[of g "js_barrier s" h] hb.begin_retired[of h g "js_barrier s"]
    show ?thesis by (auto simp: host_gone_def idle_check_iff split: bool.splits)
  next
    case (OpExec now i ev)
    with run exec_step_turn[of now i ev s s'] gone show ?thesis
      by (simp add: turn_ok_def host_gone_def idle_check_iff)
  qed (use run gone assms(5) in \<open>auto simp: host_gone_def idle_check_iff hb.laws split: if_splits sum.splits\<close>)
  have "cj_host_id (je_job e) \<noteq> h" if e: "map_of (js_entries s') k = Some e" for k e
  proof (cases "map_of (js_entries s) k")
    case None
    with new_entry_host[OF c(1) run None e] none show ?thesis by auto
  next
    case (Some x)
    then have "(k, x) \<in> set (js_entries s)" by (rule map_of_SomeD)
    then have "cj_host_id (je_job x) \<noteq> h" using gone by (auto simp: host_gone_def list_all_iff)
    moreover obtain news where "life_step (Some x) (Some e) news"
      using job_step_life[OF c(1) run] Some e unfolding life_ok_def by metis
    ultimately show ?thesis by (auto simp: job_edge_def)
  qed
  then have "list_all (\<lambda>p. cj_host_id (je_job (snd p)) \<noteq> h) (js_entries s')"
    unfolding list_all_iff using in_set_map_of[OF coreD(1)[OF c(2)]] by (metis prod.collapse)
  with barrier show ?thesis by (simp add: host_gone_def idle_check_iff)
qed


text \<open>Histories as lists of operations, each possible when its turn comes.\<close>

fun run_jobs :: "job_op list \<Rightarrow> job_system \<Rightarrow> job_system option" where
  "run_jobs [] s = Some s"
| "run_jobs (op # ops) s =
     (if length (js_starting s) < u64_max \<and> op_args_ok op
      then (case job_step op s of None \<Rightarrow> None | Some s' \<Rightarrow> run_jobs ops s') else None)"

lemma run_jobs_Cons:
  assumes "run_jobs (op # ops) s = Some s'"
  obtains s1 where "length (js_starting s) < u64_max" "op_args_ok op" "job_step op s = Some s1"
    "run_jobs ops s1 = Some s'"
  using assms by (auto split: if_splits option.splits)

lemma run_jobs_reach: "run_jobs ops s = Some s' \<Longrightarrow> jobs_reach s0 s \<Longrightarrow> jobs_reach s0 s'"
proof (induction ops arbitrary: s)
  case (Cons op ops)
  from Cons.prems(1) show ?case
    by (rule run_jobs_Cons) (rule Cons.IH, assumption, rule jobs_reach.step[OF Cons.prems(2)])
qed simp

lemma host_gone_run:
  "run_jobs ops s = Some s' \<Longrightarrow> jobs_inv m s \<Longrightarrow> host_gone h s \<Longrightarrow> OpRestore h \<notin> set ops \<Longrightarrow> host_gone h s'"
proof (induction ops arbitrary: s)
  case (Cons op ops)
  from Cons.prems(1) show ?case
  proof (rule run_jobs_Cons)
    fix s1 assume *: "length (js_starting s) < u64_max" "op_args_ok op" "job_step op s = Some s1"
      "run_jobs ops s1 = Some s'"
    have inv: "jobs_inv m s1" using job_step_inv[OF Cons.prems(2) *(3,2,1)] .
    have "host_gone h s1" using host_gone_step[OF Cons.prems(2) inv *(3) Cons.prems(3)] Cons.prems(4) by auto
    with Cons.IH[OF *(4) inv] Cons.prems(4) show ?thesis by simp
  qed
qed simp

section \<open>Cancellation ends\<close>

text \<open>The loop variables: a deadline is set whenever it is needed, and the loop has not ended.\<close>

definition locals_ok :: "exec_locals \<Rightarrow> bool" where
  "locals_ok v \<longleftrightarrow> (el_cancellation_seen v \<longrightarrow> el_deadline v) \<and> (el_pipe_error v \<noteq> None \<longrightarrow> el_deadline v)
     \<and> (el_status v = None \<or> el_pipes_open v)"

definition loops_ok :: "job_system \<Rightarrow> bool" where
  "loops_ok s \<longleftrightarrow> (\<forall>i v. js_phases s i = Looping v \<longrightarrow> locals_ok v)"

lemma loop_on_phases:
  assumes "js_phases s i = Looping v0"
  shows "js_phases (loop_on now i v s) = (js_phases s)
    (i := (if el_status v = None \<or> el_pipes_open v then Looping v else Done))"
  using frameD[OF frame_conclude[of "drop_permit s" now i v]]
  by (simp add: loop_on_def end_loop_def)


lemma exec_step_loops:
  assumes "loops_ok s" and run: "exec_step now i ev s = Some s'"
  shows "loops_ok s'"
proof -
  have v: "locals_ok v" if "js_phases s i = Looping v" for v using assms(1) that by (auto simp: loops_ok_def)
  have "locals_ok w" if w: "js_phases s' i = Looping w" for w
  proof (cases ev)
    case (LoopData stream data)
    with run w v show ?thesis by (auto simp: loop_on_phases split: phase.splits if_splits)
  next
    case (SpawnResult r)
    with run w v show ?thesis
      by (auto simp: locals_ok_def new_locals_def split: phase.splits if_splits option.splits)
  next
    case GotPermit
    with run w show ?thesis by (auto split: if_splits prod.splits bool.splits)
  next
    case LoopDeadline
    with run w show ?thesis by (auto simp: end_loop_def Let_def split: phase.splits if_splits)
  qed (use run w v in \<open>auto simp: loop_on_phases locals_ok_def Let_def insert_if_none_def
      split: phase.splits if_splits option.splits\<close>)
  moreover have "js_phases s' k = js_phases s k" if "k \<noteq> i" for k
    using exec_step_turn[OF run] that by (simp add: turn_ok_def)
  ultimately show ?thesis using assms(1) by (metis loops_ok_def)
qed

lemma job_step_loops:
  assumes "loops_ok s" and "job_step op s = Some s'"
  shows "loops_ok s'"
proof (cases op)
  case (OpExec now i ev)
  with assms exec_step_loops show ?thesis by simp
next
  case (OpRun now i r conf)
  have "loops_ok (snd (start_process i pc s))" for pc
    using assms(1) by (cases rule: start_process_cases[of i pc s]) (auto simp: loops_ok_def)
  with OpRun assms show ?thesis by (auto simp: loops_ok_def split: if_splits sum.splits)
qed (use assms in \<open>auto simp: loops_ok_def split: if_splits prod.splits bool.splits\<close>)

lemma reached_loops: "jobs_reach s0 s \<Longrightarrow> new_registry m = Inr s0 \<Longrightarrow> loops_ok s"
  by (induction rule: jobs_reach.induct)
    (auto simp: loops_ok_def new_registry_def split: if_splits intro: job_step_loops[unfolded loops_ok_def, rule_format])

text \<open>The turns that end a running job that is being cancelled; the process need not take part.\<close>

definition ending_turns :: "timestamp \<Rightarrow> string \<Rightarrow> job_system \<Rightarrow> job_op list" where
  "ending_turns now i s =
     (if i \<in> js_flags s then [] else [OpSend i])
     @ (if js_phases s i = Spawning then [OpExec now i (SpawnResult None)] else [])
     @ (case js_phases s i of
          Looping v \<Rightarrow> if el_cancellation_seen v then [] else [OpExec now i (LoopCancel None)]
        | _ \<Rightarrow> [OpExec now i (LoopCancel None)])
     @ [OpExec now i LoopDeadline]"

lemma deadline_ends:
  assumes "js_phases s i = Looping v" and "locals_ok v" and "el_cancellation_seen v"
  shows "\<exists>s'. exec_step now i LoopDeadline s = Some s' \<and> js_phases s' i = Done"
  using assms by (auto simp: locals_ok_def end_loop_def Let_def)

lemma cancel_turn:
  assumes "js_phases s i = Looping v" and "locals_ok v" and "\<not> el_cancellation_seen v" and "i \<in> js_flags s"
  shows "\<exists>s' v'. exec_step now i (LoopCancel None) s = Some s' \<and> js_phases s' i = Looping v'
    \<and> el_cancellation_seen v' \<and> locals_ok v' \<and> js_starting s' = js_starting s"
  using assms by (auto simp: locals_ok_def cancel_visible_def loop_on_def Let_def)

lemma run_last:
  assumes "length (js_starting s) < u64_max" and "js_phases s i = Looping v" and "locals_ok v"
    and "el_cancellation_seen v \<or> i \<in> js_flags s"
  shows "\<exists>s'. run_jobs ((if el_cancellation_seen v then [] else [OpExec now i (LoopCancel None)])
      @ [OpExec now i LoopDeadline]) s = Some s' \<and> js_phases s' i = Done"
proof (cases "el_cancellation_seen v")
  case True
  from deadline_ends[OF assms(2,3) this, of now] obtain s1 where
    "exec_step now i LoopDeadline s = Some s1" "js_phases s1 i = Done" by blast
  with assms(1) True show ?thesis by (simp del: exec_step.simps)
next
  case False
  with assms obtain s1 v1 where *: "exec_step now i (LoopCancel None) s = Some s1" "js_phases s1 i = Looping v1"
    "el_cancellation_seen v1" "locals_ok v1" "js_starting s1 = js_starting s"
    using cancel_turn[OF assms(2,3)] by blast
  moreover from deadline_ends[OF *(2,4,3), of now] obtain s2 where
    "exec_step now i LoopDeadline s1 = Some s2" "js_phases s2 i = Done" by blast
  ultimately show ?thesis using assms(1) False by (simp del: exec_step.simps)
qed

lemma ending_turns_run:
  assumes c: "core s" and l: "loops_ok s" and n: "length (js_starting s) < u64_max"
    and e: "map_of (js_entries s) i = Some e" "cj_state (je_job e) = JobCancelling"
  shows "\<exists>s'. run_jobs (ending_turns now i s) s = Some s' \<and> js_phases s' i = Done"
proof -
  have sig: "i \<in> js_flags s \<or> i \<in> js_marked s"
    and live: "js_phases s i = Spawning \<or> (\<exists>v. js_phases s i = Looping v)"
    using coreD(3)[OF c, of i] e by (cases "js_phases s i"; auto simp: signalled_def job_active_def)+
  define s1 where "s1 = (if i \<in> js_flags s then s else send_cancel i s)"
  have s1: "js_phases s1 = js_phases s" "i \<in> js_flags s1" "js_starting s1 = js_starting s"
    by (simp_all add: s1_def send_cancel_def)
  have first: "run_jobs (ending_turns now i s) s = run_jobs (drop (if i \<in> js_flags s then 0 else 1) (ending_turns now i s)) s1"
    using sig n by (auto simp: s1_def ending_turns_def)
  from live show ?thesis
  proof (elim disjE exE)
    assume p: "js_phases s i = Spawning"
    define s2 where "s2 = set_phase i (Looping new_locals) s1"
    have "exec_step now i (SpawnResult None) s1 = Some s2" using p s1 by (simp add: s2_def)
    moreover have "js_phases s2 i = Looping new_locals" "locals_ok new_locals" "\<not> el_cancellation_seen new_locals"
      "i \<in> js_flags s2" "js_starting s2 = js_starting s"
      using s1 by (simp_all add: s2_def locals_ok_def new_locals_def) (simp add: set_phase_def)
    ultimately show ?thesis
      using run_last[of s2 i new_locals now] p n s1 unfolding first
      by (simp add: ending_turns_def del: exec_step.simps)
  next
    fix v assume p: "js_phases s i = Looping v"
    then have "locals_ok v" using l by (auto simp: loops_ok_def)
    with run_last[of s1 i v now] p n s1 show ?thesis unfolding first by (auto simp: ending_turns_def)
  qed
qed


section \<open>A sample history\<close>

text \<open>Four permits; one job is started and runs, prints, and is cancelled.\<close>

definition sample_registry :: job_system where
  "sample_registry = \<lparr>js_entries = [], js_next_sequence = 0, js_barrier = Map.empty, js_starting = [],
     js_phases = (\<lambda>_. Done), js_marked = {}, js_flags = {}, js_permits = 4, js_announced = []\<rparr>"

lemma sample_registry_new: "new_registry 4 = Inr sample_registry"
  by (simp add: new_registry_def sample_registry_def MAX_CONCURRENT_JOBS_def)

definition sample_start :: "job_op list" where
  "sample_start = [OpBegin ''h'', OpRun 0 ''j'' lab_removal (Some ''lab''), OpExec 1 ''j'' GotPermit,
     OpExec 1 ''j'' (SpawnResult None), OpExec 2 ''j'' (LoopData Stdout ''hello'')]"

definition after :: "job_op list \<Rightarrow> job_system" where
  "after ops = the (run_jobs ops sample_registry)"

lemma after_reached: "run_jobs ops sample_registry \<noteq> None \<Longrightarrow> jobs_reach sample_registry (after ops)"
  using run_jobs_reach[OF _ jobs_reach.start] by (auto simp: after_def)

lemma sample_running_reached: "jobs_reach sample_registry (after sample_start)"
proof (rule after_reached)
  have "\<not> Option.is_none (run_jobs sample_start sample_registry)" by code_simp
  then show "run_jobs sample_start sample_registry \<noteq> None" by (auto simp: Option.is_none_def)
qed

definition sample_cancelled :: "job_op list" where
  "sample_cancelled = sample_start @ [OpCancel 3 ''j'', OpSend ''j'', OpExec 3 ''j'' (LoopCancel None),
     OpExec 4 ''j'' LoopPipesClosed, OpExec 4 ''j'' (LoopExit (Inr Signalled))]"

lemma sample_cancelled_reached: "jobs_reach sample_registry (after sample_cancelled)"
proof (rule after_reached)
  have "\<not> Option.is_none (run_jobs sample_cancelled sample_registry)" by code_simp
  then show "run_jobs sample_cancelled sample_registry \<noteq> None" by (auto simp: Option.is_none_def)
qed

section \<open>Properties\<close>








definition cancelling_now :: "job_op list" where
  "cancelling_now = sample_start @ [OpCancel 3 ''j'']"


text \<open>
  After a host has been retired and purged no job of it exists and none appears: whatever
  operations follow, until the host is restored, no entry of that host is registered.
\<close>

theorem retired_host_runs_nothing:
  assumes "new_registry m = Inr s0" and "jobs_reach s0 s" and "job_step (OpPurge h) s = Some s1"
    and "run_jobs ops s1 = Some s2" and "OpRestore h \<notin> set ops" and "length (js_starting s) < u64_max"
  shows "\<forall>i e. map_of (js_entries s2) i = Some e \<longrightarrow> cj_host_id (je_job e) \<noteq> h"
proof -
  have "jobs_inv m s1" using job_step_inv[OF reached_inv[OF assms(1,2)] assms(3) _ assms(6)] by simp
  moreover have "host_gone h s1"
    using assms(3) by (auto simp: host_gone_def purge_host_def list_all_iff split: if_splits)
  ultimately have "host_gone h s2" using host_gone_run[OF assms(4)] assms(5) by blast
  then show ?thesis by (auto simp: host_gone_def list_all_iff dest!: map_of_SomeD)
qed

definition sample_retired :: "job_op list" where
  "sample_retired = sample_cancelled @ [OpRetire ''h'']"

lemma retired_host_runs_nothing_witness:
  "\<exists>s1 s2. map fst (js_entries (after sample_retired)) = [''j''] \<and> job_step (OpPurge ''h'') (after sample_retired) = Some s1
     \<and> run_jobs [OpBegin ''h''] s1 = Some s2
     \<and> (\<forall>i e. map_of (js_entries s2) i = Some e \<longrightarrow> cj_host_id (je_job e) \<noteq> ''h'')"
proof -
  have r: "jobs_reach sample_registry (after sample_retired)"
  proof (rule after_reached)
    have "\<not> Option.is_none (run_jobs sample_retired sample_registry)" by code_simp
    then show "run_jobs sample_retired sample_registry \<noteq> None" by (auto simp: Option.is_none_def)
  qed
  have "\<not> Option.is_none (job_step (OpPurge ''h'') (after sample_retired))"
    "\<not> Option.is_none (run_jobs [OpBegin ''h''] (the (job_step (OpPurge ''h'') (after sample_retired))))"
    unfolding after_def by code_simp+
  then obtain s1 s2 where s: "job_step (OpPurge ''h'') (after sample_retired) = Some s1"
    "run_jobs [OpBegin ''h''] s1 = Some s2"
    by (auto simp: Option.is_none_def simp del: run_jobs.simps job_step.simps)
  have n: "js_starting (after sample_retired) = []" "map fst (js_entries (after sample_retired)) = [''j'']"
    unfolding after_def by code_simp+
  have "length (js_starting (after sample_retired)) < u64_max" by (simp add: n u64_max_def)
  from retired_host_runs_nothing[OF sample_registry_new r s _ this] s n show ?thesis by auto
qed

text \<open>
  The output of a job is decoded one read at a time, so a character whose bytes arrive in two
  reads is lost: the two bytes of an e with an acute accent, read one by one, leave two replacement
  characters in the job's output, while the terminal's decoder keeps the character.
\<close>

theorem split_character_is_lost:
  "(let (c1, t1, b1) = append_bounded [] False [CHR 0xC3];
        (c2, t2, b2) = append_bounded t1 b1 [CHR 0xA9]
    in t2 = replacement @ replacement)
   \<and> decoder_stream [[CHR 0xC3], [CHR 0xA9]] [] = [CHR 0xC3, CHR 0xA9]"
  by code_simp

end
