(* ===== verification/TermInput.thy ===== *)
theory TermInput
  imports Model RustBase
begin

text \<open>
  \<^verbatim>\<open>TerminalInputState\<close> of \<^verbatim>\<open>crates/remotedeck-core/src/session.rs\<close>: the leases that decide which
  browser attachment may write to a terminal.  Abstractly there is a count of the leases given out
  and at most one owner, the last one.

  The bytes written so far stand for the PTY's writer; \<open>fault\<close> is the error of a write, if any.
\<close>

section \<open>The lease table\<close>

definition MAX_CHUNK :: nat where "MAX_CHUNK = 64 * 1024"
definition MAX_INPUT_LEASES :: nat where "MAX_INPUT_LEASES = 64"
definition CONPTY_INITIAL_CURSOR_QUERY :: string where
  "CONPTY_INITIAL_CURSOR_QUERY = [CHR 0x1B, CHR ''['', CHR ''6'', CHR ''n'']"
definition CONPTY_INITIAL_CURSOR_RESPONSE :: string where
  "CONPTY_INITIAL_CURSOR_RESPONSE = [CHR 0x1B, CHR ''['', CHR ''1'', CHR '';'', CHR ''1'', CHR ''R'']"

record input_state =
  ti_written :: string
  ti_active :: "nat option"
  ti_issued :: "nat set"
  ti_next :: nat

definition new_input :: input_state where
  "new_input = \<lparr>ti_written = [], ti_active = None, ti_issued = {}, ti_next = 0\<rparr>"

text \<open>\<^verbatim>\<open>wrapping_add(1).max(1)\<close> on \<^verbatim>\<open>u64\<close>: zero is never a lease.\<close>

definition bump :: "nat \<Rightarrow> nat" where
  "bump n = max ((n + 1) mod 2 ^ 64) 1"

text \<open>The loop tries the next numbers; \<open>fuel\<close> bounds the attempts, \<open>issue_lease\<close> gives it one more
  than the leases that can be in the way.\<close>

fun free_lease :: "nat \<Rightarrow> nat \<Rightarrow> nat set \<Rightarrow> nat option" where
  "free_lease 0 n issued = None"
| "free_lease (Suc fuel) n issued =
     (let n = bump n in if n \<notin> issued then Some n else free_lease fuel n issued)"

definition issue_lease :: "input_state \<Rightarrow> nat app_result \<times> input_state" where
  "issue_lease s =
     (if card (ti_issued s) \<ge> MAX_INPUT_LEASES
      then (Inl (Validation ''at most 64 terminal input attachments are allowed''), s)
      else case free_lease (Suc (card (ti_issued s))) (ti_next s) (ti_issued s) of
        None \<Rightarrow> (Inl (State ''unreachable''), s)
      | Some n \<Rightarrow> (Inr n, s\<lparr>ti_next := n, ti_issued := insert n (ti_issued s)\<rparr>))"

definition activate :: "nat \<Rightarrow> input_state \<Rightarrow> unit app_result \<times> input_state" where
  "activate lease s =
     (if lease \<notin> ti_issued s
      then (Inl (Validation ''terminal input lease is unknown or has been released''), s)
      else (Inr (), s\<lparr>ti_active := Some lease, ti_issued := {c \<in> ti_issued s. c \<ge> lease}\<rparr>))"

definition attach_lease :: "input_state \<Rightarrow> nat app_result \<times> input_state" where
  "attach_lease s =
     (case issue_lease s of
        (Inl err, s) \<Rightarrow> (Inl err, s)
      | (Inr lease, s) \<Rightarrow>
          (case activate lease s of
             (Inl err, s) \<Rightarrow> (Inl err, s)
           | (Inr _, s) \<Rightarrow> (Inr lease, s)))"

definition resume_lease :: "nat \<Rightarrow> input_state \<Rightarrow> nat app_result \<times> input_state" where
  "resume_lease previous_lease s =
     (if previous_lease = 0 \<or> ti_next s \<noteq> previous_lease
      then (Inl (State ''terminal input control moved''), s)
      else attach_lease s)"

definition owns_input :: "nat \<Rightarrow> input_state \<Rightarrow> bool" where
  "owns_input lease s \<longleftrightarrow> ti_active s = Some lease \<and> lease \<in> ti_issued s"

definition assert_active :: "nat \<Rightarrow> input_state \<Rightarrow> unit app_result" where
  "assert_active lease s =
     (if owns_input lease s then Inr ()
      else Inl (Validation ''terminal input lease does not own this session''))"

text \<open>\<open>fault\<close> is an error of the system while writing, after this many of the bytes went through.\<close>

definition write_lease :: "(nat \<times> string) option \<Rightarrow> nat \<Rightarrow> string \<Rightarrow> input_state \<Rightarrow> unit app_result \<times> input_state" where
  "write_lease fault lease bytes s =
     (if length bytes > MAX_CHUNK
      then (Inl (Validation ''terminal input exceeds the 65536-byte limit''), s)
      else if \<not> owns_input lease s
      then (Inl (Validation ''terminal input lease has been superseded or released''), s)
      else case fault of
        Some (n, e) \<Rightarrow> (Inl (Io e), s\<lparr>ti_written := ti_written s @ take n bytes\<rparr>)
      | None \<Rightarrow> (Inr (), s\<lparr>ti_written := ti_written s @ bytes\<rparr>))"

definition write_cursor_response :: "input_state \<Rightarrow> input_state" where
  "write_cursor_response s = s\<lparr>ti_written := ti_written s @ CONPTY_INITIAL_CURSOR_RESPONSE\<rparr>"

definition release_lease :: "nat \<Rightarrow> input_state \<Rightarrow> input_state" where
  "release_lease lease s =
     (let s = s\<lparr>ti_issued := ti_issued s - {lease}\<rparr>
      in if ti_active s = Some lease then s\<lparr>ti_active := None\<rparr> else s)"

section \<open>Issuing ends\<close>

lemma bump_mod: "n < 2 ^ 64 \<Longrightarrow> bump n = n mod (2 ^ 64 - 1) + 1"
proof -
  assume n: "n < 2 ^ 64"
  show ?thesis
  proof (cases "n = 2 ^ 64 - 1")
    case True
    then show ?thesis by (simp add: bump_def)
  next
    case False
    with n have "n < 2 ^ 64 - 1" by simp
    then show ?thesis by (simp add: bump_def)
  qed
qed

lemma bump_range: "n < 2 ^ 64 \<Longrightarrow> 0 < bump n \<and> bump n < 2 ^ 64"
  by (simp add: bump_def)

text \<open>The first attempts are pairwise different, so one of them is free.\<close>

lemma bump_iter:
  assumes "n < 2 ^ 64"
  shows "(bump ^^ Suc k) n = (n + k) mod (2 ^ 64 - 1) + 1"
proof (induction k)
  case 0
  then show ?case using assms by (simp add: bump_mod)
next
  case (Suc k)
  have r: "(n + k) mod (2 ^ 64 - 1) < (2 ^ 64 - 1 :: nat)" by simp
  have "(bump ^^ Suc (Suc k)) n = bump ((n + k) mod (2 ^ 64 - 1) + 1)" using Suc by simp
  also have "\<dots> = ((n + k) mod (2 ^ 64 - 1) + 1) mod (2 ^ 64 - 1) + 1"
    using r by (intro bump_mod) linarith
  also have "\<dots> = (n + Suc k) mod (2 ^ 64 - 1) + 1" by (simp only: mod_add_left_eq add_Suc_right Suc_eq_plus1 add.assoc)
  finally show ?case .
qed

lemma bump_iter_inj:
  assumes "n < 2 ^ 64" and "i < 65" and "j < 65" and "(bump ^^ Suc i) n = (bump ^^ Suc j) n"
  shows "i = j"
proof -
  have aux: "a = b" if "(n + a) mod (2 ^ 64 - 1) = (n + b) mod (2 ^ 64 - 1)" "a \<le> b" "b < 65" for a b :: nat
  proof -
    have "(2 ^ 64 - 1) dvd ((n + b) - (n + a))" using that(1,2) by (metis add_le_mono1 add.commute mod_eq_dvd_iff_nat)
    then have "(2 ^ 64 - 1) dvd (b - a)" by simp
    moreover have "b - a < (2 ^ 64 - 1 :: nat)" using that(3) by simp
    ultimately have "b - a = 0" using nat_dvd_not_less by blast
    with that(2) show ?thesis by simp
  qed
  have "(n + i) mod (2 ^ 64 - 1) = (n + j) mod (2 ^ 64 - 1)"
    using assms(4) unfolding bump_iter[OF assms(1)] by simp
  then show ?thesis using aux[of i j] aux[of j i] assms(2,3) by (cases "i \<le> j") auto
qed

lemma free_lease_None: "free_lease fuel n issued = None \<Longrightarrow> k < fuel \<Longrightarrow> (bump ^^ Suc k) n \<in> issued"
proof (induction fuel arbitrary: n k)
  case (Suc fuel)
  then show ?case
    by (cases k) (auto simp: Let_def funpow_Suc_right simp del: funpow.simps split: if_splits)
qed simp

lemma free_lease_found:
  assumes "finite issued" and "card issued < 64" and "n < 2 ^ 64"
  shows "free_lease (Suc (card issued)) n issued \<noteq> None"
proof
  assume none: "free_lease (Suc (card issued)) n issued = None"
  let ?f = "\<lambda>k. (bump ^^ Suc k) n"
  have "?f ` {..< Suc (card issued)} \<subseteq> issued" using free_lease_None[OF none] by auto
  then have "card (?f ` {..< Suc (card issued)}) \<le> card issued" using card_mono assms(1) by blast
  moreover have "inj_on ?f {..< Suc (card issued)}"
    using bump_iter_inj[OF assms(3)] assms(2) by (auto simp: inj_on_def simp del: funpow.simps)
  ultimately show False by (simp add: card_image del: funpow.simps)
qed


section \<open>The abstract owner\<close>

datatype input_op = InAttach | InResume nat | InRelease nat | InWrite "(nat \<times> string) option" nat string

fun input_step :: "input_op \<Rightarrow> input_state \<Rightarrow> bool \<times> input_state" where
  "input_step InAttach s = (is_ok (fst (attach_lease s)), snd (attach_lease s))"
| "input_step (InResume p) s = (is_ok (fst (resume_lease p s)), snd (resume_lease p s))"
| "input_step (InRelease l) s = (True, release_lease l s)"
| "input_step (InWrite fault l bytes) s =
     (is_ok (fst (write_lease fault l bytes s)), snd (write_lease fault l bytes s))"

fun input_run :: "input_op list \<Rightarrow> input_state \<Rightarrow> bool list \<times> input_state" where
  "input_run [] s = ([], s)"
| "input_run (op # ops) s =
     (let (r, s) = input_step op s; (rs, s) = input_run ops s in (r # rs, s))"

text \<open>What the leases promise: the count of the leases given out, the owner and what was written.\<close>

record owner_spec =
  os_count :: nat
  os_owner :: "nat option"
  os_written :: string

fun owner_step :: "input_op \<Rightarrow> owner_spec \<Rightarrow> bool \<times> owner_spec" where
  "owner_step InAttach a = (True, a\<lparr>os_count := Suc (os_count a), os_owner := Some (Suc (os_count a))\<rparr>)"
| "owner_step (InResume p) a =
     (if p = os_count a \<and> p \<noteq> 0
      then (True, a\<lparr>os_count := Suc (os_count a), os_owner := Some (Suc (os_count a))\<rparr>) else (False, a))"
| "owner_step (InRelease l) a = (True, if os_owner a = Some l then a\<lparr>os_owner := None\<rparr> else a)"
| "owner_step (InWrite fault l bytes) a =
     (if os_owner a \<noteq> Some l \<or> length bytes > 65536 then (False, a)
      else case fault of
        None \<Rightarrow> (True, a\<lparr>os_written := os_written a @ bytes\<rparr>)
      | Some (n, _) \<Rightarrow> (False, a\<lparr>os_written := os_written a @ take n bytes\<rparr>))"

fun owner_run :: "input_op list \<Rightarrow> owner_spec \<Rightarrow> bool list \<times> owner_spec" where
  "owner_run [] a = ([], a)"
| "owner_run (op # ops) a =
     (let (r, a) = owner_step op a; (rs, a) = owner_run ops a in (r # rs, a))"

definition owner_abs :: "input_state \<Rightarrow> owner_spec" where
  "owner_abs s = \<lparr>os_count = ti_next s, os_owner = ti_active s, os_written = ti_written s\<rparr>"

text \<open>Only the owner's lease is kept, and it is the last one given out.\<close>

definition single_owner :: "input_state \<Rightarrow> bool" where
  "single_owner s \<longleftrightarrow> ti_issued s = set_option (ti_active s) \<and> (\<forall>l. ti_active s = Some l \<longrightarrow> l = ti_next s)"

lemma attach_single:
  assumes "single_owner s" and "Suc (ti_next s) < 2 ^ 64"
  shows "attach_lease s = (Inr (Suc (ti_next s)),
    s\<lparr>ti_next := Suc (ti_next s), ti_issued := {Suc (ti_next s)}, ti_active := Some (Suc (ti_next s))\<rparr>)"
proof -
  let ?n = "Suc (ti_next s)"
  have issued: "ti_issued s \<subseteq> {ti_next s}" using assms(1) by (auto simp: single_owner_def)
  then have card: "card (ti_issued s) \<le> 1" using card_mono[of "{ti_next s}"] by simp
  have bump: "bump (ti_next s) = ?n" using assms(2) by (simp add: bump_def)
  have "?n \<notin> ti_issued s" using issued by auto
  then have "free_lease (Suc k) (ti_next s) (ti_issued s) = Some ?n" for k by (simp add: bump)
  then have issue: "issue_lease s = (Inr ?n, s\<lparr>ti_next := ?n, ti_issued := insert ?n (ti_issued s)\<rparr>)"
    using card by (simp add: issue_lease_def MAX_INPUT_LEASES_def del: free_lease.simps)
  have "{c \<in> insert ?n (ti_issued s). ?n \<le> c} = {?n}" using issued by auto
  with issue show ?thesis by (simp add: attach_lease_def activate_def)
qed

lemma owner_simulation:
  assumes "single_owner s" and "Suc (ti_next s) < 2 ^ 64" and "input_step op s = (r, s')"
  shows "single_owner s' \<and> owner_step op (owner_abs s) = (r, owner_abs s') \<and> ti_next s' \<le> Suc (ti_next s)"
proof (cases op)
  case InAttach
  with assms attach_single[OF assms(1,2)] show ?thesis by (auto simp: single_owner_def owner_abs_def is_ok_iff)
next
  case (InResume p)
  with assms attach_single[OF assms(1,2)] show ?thesis
    by (auto simp: single_owner_def owner_abs_def resume_lease_def is_ok_iff split: if_splits)
next
  case (InRelease l)
  with assms(1,3) show ?thesis
    by (auto simp: single_owner_def owner_abs_def release_lease_def Let_def)
next
  case (InWrite fault l bytes)
  with assms(1,3) show ?thesis
    by (auto simp: single_owner_def owner_abs_def write_lease_def owns_input_def MAX_CHUNK_def is_ok_iff
        split: if_splits option.splits)
qed

lemma owner_simulation_run:
  assumes "single_owner s" and "ti_next s + length ops < 2 ^ 64" and "input_run ops s = (rs, s')"
  shows "single_owner s' \<and> owner_run ops (owner_abs s) = (rs, owner_abs s') \<and> ti_next s' \<le> ti_next s + length ops"
  using assms
proof (induction ops arbitrary: s rs)
  case (Cons op ops)
  obtain r s1 where s1: "input_step op s = (r, s1)" by fastforce
  obtain rs1 where rs1: "input_run ops s1 = (rs1, s')" "rs = r # rs1"
    using Cons.prems(3) s1 by (auto split: prod.splits)
  have sim: "single_owner s1 \<and> owner_step op (owner_abs s) = (r, owner_abs s1) \<and> ti_next s1 \<le> Suc (ti_next s)"
    using owner_simulation[OF Cons.prems(1) _ s1] Cons.prems(2) by simp
  with Cons.IH[OF _ _ rs1(1)] Cons.prems(2) rs1(2) show ?case by (auto simp: Let_def)
qed simp

lemma owner_step_count: "owner_step op a = (r, a') \<Longrightarrow> os_count a \<le> os_count a'"
  by (cases op) (auto split: if_splits option.splits)

lemma owner_run_count: "owner_run ops a = (rs, a') \<Longrightarrow> os_count a \<le> os_count a'"
proof (induction ops arbitrary: a rs)
  case (Cons op ops)
  then show ?case using owner_step_count by (fastforce split: prod.splits intro: le_trans)
qed simp

section \<open>Properties\<close>

text \<open>
  C14: the lease table implements a single owner: over every history of fewer than 2 to the 64 calls
  each attach, resume, release and write succeeds exactly when it does for the abstract owner (a
  resume exactly when nothing was attached since the given lease, a write exactly for the last lease
  given out while it has not been released), and exactly the owner's bytes reach the terminal.
\<close>

theorem leases_implement_owner:
  assumes "length ops < 2 ^ 64" and "input_run ops new_input = (results, s)"
  shows "owner_run ops \<lparr>os_count = 0, os_owner = None, os_written = []\<rparr>
    = (results, \<lparr>os_count = ti_next s, os_owner = ti_active s, os_written = ti_written s\<rparr>)"
  using owner_simulation_run[OF _ _ assms(2)] assms(1)
  by (simp add: single_owner_def new_input_def owner_abs_def)

definition takeover :: "input_op list" where
  "takeover = [InAttach, InWrite None 1 ''a'', InAttach, InWrite None 1 ''b'', InResume 1, InWrite None 2 ''c'', InResume 2]"

lemma leases_implement_owner_witness:
  "fst (input_run takeover new_input) = [True, True, True, False, False, True, True]
   \<and> ti_written (snd (input_run takeover new_input)) = ''ac''"
proof -
  obtain rs s where run: "input_run takeover new_input = (rs, s)" by fastforce
  have "length takeover < 2 ^ 64" by (simp add: takeover_def)
  from leases_implement_owner[OF this run] run show ?thesis by (auto simp: takeover_def Let_def)
qed

text \<open>
  A superseded attachment never writes again: once a later lease has been given out, no further
  calls make an earlier lease pass the ownership check.
\<close>

theorem superseded_lease_is_dead:
  assumes "length (ops @ later) < 2 ^ 64" and "input_run ops new_input = (rs, s)" and "lease < ti_next s"
    and "input_run later s = (rs', s')"
  shows "\<not> owns_input lease s' \<and> \<not> is_ok (fst (write_lease fault lease bytes s'))"
proof -
  have 1: "single_owner s" "ti_next s \<le> length ops"
    using owner_simulation_run[OF _ _ assms(2)] assms(1) by (simp_all add: single_owner_def new_input_def)
  have 2: "single_owner s'" "owner_run later (owner_abs s) = (rs', owner_abs s')"
    using owner_simulation_run[OF 1(1) _ assms(4)] 1(2) assms(1) by simp_all
  have "ti_next s \<le> ti_next s'" using owner_run_count[OF 2(2)] by (simp add: owner_abs_def)
  then have "\<not> owns_input lease s'" using 2(1) assms(3) by (auto simp: single_owner_def owns_input_def)
  then show ?thesis by (simp add: write_lease_def)
qed

lemma superseded_lease_is_dead_witness:
  "\<not> owns_input 1 (snd (input_run [InRelease 2, InResume 1] (snd (input_run [InAttach, InAttach] new_input))))"
proof -
  obtain rs s where run: "input_run [InAttach, InAttach] new_input = (rs, s)" by fastforce
  obtain rs' s' where run': "input_run [InRelease 2, InResume 1] s = (rs', s')" by fastforce
  have "ti_next (snd (input_run [InAttach, InAttach] new_input)) = 2" by code_simp
  with run have "1 < ti_next s" by simp
  from superseded_lease_is_dead[OF _ run this run'] run run' show ?thesis by simp
qed

end
