(* ===== verification/TermStream.thy ===== *)
theory TermStream
  imports TermInput RustStr
begin

text \<open>
  Two more parts of \<^verbatim>\<open>crates/remotedeck-core/src/session.rs\<close>: the replay buffer of a terminal
  (\<^verbatim>\<open>TerminalEventStream\<close>) and the filter that answers the cursor query at the start of a ConPTY
  (\<^verbatim>\<open>InitialConPtyCursorHandshake\<close>).
\<close>

section \<open>The replay buffer\<close>

definition MAX_TERMINAL_REPLAY_BYTES :: nat where "MAX_TERMINAL_REPLAY_BYTES = 1024 * 1024"

record sequenced_event =
  sq_sequence :: nat
  sq_generation :: nat
  sq_event :: terminal_event

text \<open>\<open>es_sent\<close> is what went to the broadcast channel, in order.\<close>

record event_stream =
  es_sent :: "sequenced_event list"
  es_replay :: "sequenced_event list"
  es_bytes :: nat
  es_next :: nat
  es_dropped :: "nat option"

definition new_stream :: event_stream where
  "new_stream = \<lparr>es_sent = [], es_replay = [], es_bytes = 0, es_next = 0, es_dropped = None\<rparr>"

definition replay_event_bytes :: "terminal_event \<Rightarrow> nat" where
  "replay_event_bytes e = (case te_data e of None \<Rightarrow> 0 | Some data \<Rightarrow> length data)"

fun drop_excess :: "sequenced_event list \<Rightarrow> nat \<Rightarrow> nat option \<Rightarrow> sequenced_event list \<times> nat \<times> nat option" where
  "drop_excess [] bytes dropped = ([], if bytes > MAX_TERMINAL_REPLAY_BYTES then 0 else bytes, dropped)"
| "drop_excess (e # es) bytes dropped =
     (if bytes > MAX_TERMINAL_REPLAY_BYTES
      then drop_excess es (bytes - replay_event_bytes (sq_event e)) (Some (sq_sequence e))
      else (e # es, bytes, dropped))"

definition publish :: "nat \<Rightarrow> terminal_event \<Rightarrow> event_stream \<Rightarrow> event_stream" where
  "publish generation event s =
     (let sequence = bump (es_next s);
          sequenced = \<lparr>sq_sequence = sequence, sq_generation = generation, sq_event = event\<rparr>;
          (replay, bytes, dropped) = drop_excess (es_replay s @ [sequenced])
            (saturating_add64 (es_bytes s) (replay_event_bytes event)) (es_dropped s)
      in \<lparr>es_sent = es_sent s @ [sequenced], es_replay = replay, es_bytes = bytes,
          es_next = sequence, es_dropped = dropped\<rparr>)"

definition truncation_notice :: "string \<Rightarrow> nat \<Rightarrow> nat \<Rightarrow> sequenced_event" where
  "truncation_notice session_id generation dropped =
     \<lparr>sq_sequence = dropped, sq_generation = generation,
      sq_event = \<lparr>te_session_id = session_id, te_kind = TekReplayTruncated, te_data = None, te_exit_code = None,
        te_message = Some (''terminal replay is limited to the most recent '' @ dec MAX_TERMINAL_REPLAY_BYTES @ '' bytes''),
        te_snapshot = None\<rparr>\<rparr>"

definition replay_is_truncated :: "nat option \<Rightarrow> event_stream \<Rightarrow> bool" where
  "replay_is_truncated since s \<longleftrightarrow>
     (case es_dropped s of
        None \<Rightarrow> False
      | Some dropped \<Rightarrow> (case since of Some sequence \<Rightarrow> sequence < dropped | None \<Rightarrow> True))"

definition attach_stream :: "string \<Rightarrow> nat \<Rightarrow> nat option \<Rightarrow> event_stream \<Rightarrow> sequenced_event list" where
  "attach_stream session_id generation since s =
     (if replay_is_truncated since s
      then [truncation_notice session_id generation (case es_dropped s of None \<Rightarrow> 0 | Some d \<Rightarrow> d)] else [])
     @ filter (\<lambda>e. sq_sequence e > (case since of None \<Rightarrow> 0 | Some n \<Rightarrow> n)) (es_replay s)"

subsection \<open>The buffer is the longest suffix that fits\<close>

definition payload :: "sequenced_event list \<Rightarrow> nat" where
  "payload es = sum_list (map (\<lambda>e. replay_event_bytes (sq_event e)) es)"

lemma payload_simps [simp]:
  "payload [] = 0" "payload (e # es) = replay_event_bytes (sq_event e) + payload es"
  "payload (xs @ ys) = payload xs + payload ys"
  by (simp_all add: payload_def)

lemma payload_drop: "i \<le> j \<Longrightarrow> payload (drop j es) \<le> payload (drop i es)"
proof -
  assume "i \<le> j"
  then have "drop i es = take (j - i) (drop i es) @ drop j es"
    by (metis append_take_drop_id drop_drop le_add_diff_inverse2)
  then show ?thesis by (metis le_add2 payload_simps(3))
qed

text \<open>\<open>stream_ok k s\<close>: the first \<open>k\<close> events of the stream were dropped, for no other reason than the limit.\<close>

definition stream_ok :: "nat \<Rightarrow> event_stream \<Rightarrow> bool" where
  "stream_ok k s \<longleftrightarrow> map sq_sequence (es_sent s) = [1 ..< Suc (es_next s)]
     \<and> es_replay s = drop k (es_sent s) \<and> k \<le> es_next s
     \<and> es_dropped s = (if k = 0 then None else Some k)
     \<and> es_bytes s = payload (es_replay s) \<and> es_bytes s \<le> MAX_TERMINAL_REPLAY_BYTES
     \<and> (\<forall>j < k. payload (drop j (es_sent s)) > MAX_TERMINAL_REPLAY_BYTES)"

lemma drop_excess_suffix:
  assumes "drop_excess (drop k es) bytes dropped = (replay, b, d)" and "bytes = payload (drop k es)"
    and "map sq_sequence es = [1 ..< Suc (length es)]" and "k \<le> length es"
    and "dropped = (if k = 0 then None else Some k)"
    and "\<forall>j < k. payload (drop j es) > MAX_TERMINAL_REPLAY_BYTES"
  shows "\<exists>k'. k' \<le> length es \<and> replay = drop k' es \<and> b = payload replay \<and> b \<le> MAX_TERMINAL_REPLAY_BYTES
    \<and> d = (if k' = 0 then None else Some k') \<and> (\<forall>j < k'. payload (drop j es) > MAX_TERMINAL_REPLAY_BYTES)"
  using assms
proof (induction "length es - k" arbitrary: k bytes dropped)
  case 0
  then have "drop k es = []" by simp
  with 0 show ?case by (intro exI[of _ k]) auto
next
  case (Suc n)
  then have k: "k < length es" by simp
  then have split: "drop k es = es ! k # drop (Suc k) es" by (rule Cons_nth_drop_Suc[symmetric])
  have seq: "sq_sequence (es ! k) = Suc k"
  proof -
    have "map sq_sequence es ! k = [1 ..< Suc (length es)] ! k" by (simp only: Suc.prems(3))
    with k show ?thesis by (simp del: upt_Suc)
  qed
  show ?case
  proof (cases "bytes > MAX_TERMINAL_REPLAY_BYTES")
    case True
    have "drop_excess (drop (Suc k) es) (bytes - replay_event_bytes (sq_event (es ! k))) (Some (Suc k)) = (replay, b, d)"
      using Suc.prems(1) True seq by (simp add: split)
    moreover have "bytes - replay_event_bytes (sq_event (es ! k)) = payload (drop (Suc k) es)"
      using Suc.prems(2) by (simp add: split)
    moreover have "\<forall>j < Suc k. payload (drop j es) > MAX_TERMINAL_REPLAY_BYTES"
      using True Suc.prems(2,6) by (auto simp: less_Suc_eq)
    ultimately show ?thesis using Suc.hyps(1)[of "Suc k"] Suc.hyps(2) Suc.prems(3) k by simp
  next
    case False
    then have "replay = drop k es" "b = bytes" "d = dropped" using Suc.prems(1) by (simp_all add: split)
    with Suc.prems False k show ?thesis by (intro exI[of _ k]) auto
  qed
qed

lemma publish_ok:
  assumes ok: "stream_ok k s" and n: "Suc (es_next s) < 2 ^ 64" and small: "replay_event_bytes e \<le> 2 ^ 32"
  shows "\<exists>k'. stream_ok k' (publish g e s) \<and> es_next (publish g e s) = Suc (es_next s)
    \<and> (\<exists>x. es_sent (publish g e s) = es_sent s @ [x] \<and> sq_event x = e \<and> sq_generation x = g)"
proof -
  define x where "x = \<lparr>sq_sequence = Suc (es_next s), sq_generation = g, sq_event = e\<rparr>"
  let ?es = "es_sent s @ [x]"
  have bump: "bump (es_next s) = Suc (es_next s)" using n by (simp add: bump_def)
  have len: "length (es_sent s) = es_next s"
    using ok by (metis diff_Suc_1 length_map length_upt stream_ok_def One_nat_def)
  have rep: "es_replay s @ [x] = drop k ?es" using ok len by (simp add: stream_ok_def)
  have "es_bytes s + replay_event_bytes e \<le> u64_max"
  proof -
    have "es_bytes s \<le> 1048576" using ok unfolding stream_ok_def MAX_TERMINAL_REPLAY_BYTES_def by linarith
    with small show ?thesis by (simp add: u64_max_def)
  qed
  then have bytes: "saturating_add64 (es_bytes s) (replay_event_bytes e) = payload (drop k ?es)"
    using ok rep[symmetric] by (simp add: saturating_add64_def stream_ok_def x_def)
  obtain replay b d where d: "drop_excess (drop k ?es) (payload (drop k ?es)) (es_dropped s) = (replay, b, d)"
    using prod_cases3 by blast
  have seqs: "map sq_sequence ?es = [1 ..< Suc (length ?es)]"
    using ok len by (simp add: stream_ok_def x_def)
  have over: "\<forall>j < k. payload (drop j ?es) > MAX_TERMINAL_REPLAY_BYTES"
    using ok len by (auto simp: stream_ok_def intro: less_le_trans[OF _ le_add1])
  have "k \<le> length ?es" and "es_dropped s = (if k = 0 then None else Some k)"
    using ok len by (simp_all add: stream_ok_def)
  from drop_excess_suffix[OF d refl seqs this over] obtain k' where
    k': "k' \<le> length ?es" "replay = drop k' ?es" "b = payload replay" "b \<le> MAX_TERMINAL_REPLAY_BYTES"
      "d = (if k' = 0 then None else Some k')" "\<forall>j < k'. payload (drop j ?es) > MAX_TERMINAL_REPLAY_BYTES"
    by blast
  have pub: "publish g e s = \<lparr>es_sent = ?es, es_replay = replay, es_bytes = b, es_next = Suc (es_next s), es_dropped = d\<rparr>"
    unfolding publish_def Let_def bump x_def[symmetric] rep bytes d by simp
  have "stream_ok k' (publish g e s)"
    using k' seqs len unfolding pub stream_ok_def by simp
  then show ?thesis unfolding pub by (intro exI[of _ k']) (simp add: x_def)
qed


text \<open>A terminal's events are published in order by \<^verbatim>\<open>publish_terminal_event\<close>.\<close>

definition publish_all :: "nat \<Rightarrow> terminal_event list \<Rightarrow> event_stream \<Rightarrow> event_stream" where
  "publish_all g events s = fold (publish g) events s"

lemma publish_all_ok:
  assumes "stream_ok k s" and "es_next s + length events < 2 ^ 64"
    and "\<forall>e \<in> set events. replay_event_bytes e \<le> 2 ^ 32"
  shows "\<exists>k'. stream_ok k' (publish_all g events s) \<and> es_next (publish_all g events s) = es_next s + length events
    \<and> map sq_event (es_sent (publish_all g events s)) = map sq_event (es_sent s) @ events"
  using assms
proof (induction events arbitrary: k s)
  case (Cons e events)
  from publish_ok[OF Cons.prems(1), of e g] Cons.prems(2,3) obtain k1 x where
    1: "stream_ok k1 (publish g e s)" "es_next (publish g e s) = Suc (es_next s)"
      "es_sent (publish g e s) = es_sent s @ [x]" "sq_event x = e"
    by auto
  from Cons.IH[OF 1(1)] 1 Cons.prems(2,3) show ?case by (auto simp: publish_all_def)
qed (auto simp: publish_all_def)

lemma new_stream_ok: "stream_ok 0 new_stream"
  by (simp add: stream_ok_def new_stream_def)

section \<open>The cursor query\<close>

record handshake =
  hs_awaiting :: bool
  hs_matched :: nat

definition new_handshake :: "bool \<Rightarrow> handshake" where
  "new_handshake enabled = \<lparr>hs_awaiting = enabled, hs_matched = 0\<rparr>"

datatype query_match = QueryMismatch nat string | QueryOpen nat | QueryFull string

text \<open>The loop of \<open>consume\<close>: \<open>matched\<close> bytes of the query have been seen.\<close>

fun match_query :: "nat \<Rightarrow> string \<Rightarrow> query_match" where
  "match_query matched bytes =
     (if matched \<ge> length CONPTY_INITIAL_CURSOR_QUERY then QueryFull bytes
      else case bytes of
        [] \<Rightarrow> QueryOpen matched
      | b # rest \<Rightarrow>
          if b \<noteq> CONPTY_INITIAL_CURSOR_QUERY ! matched then QueryMismatch matched bytes
          else match_query (matched + 1) rest)"

definition consume :: "string \<Rightarrow> handshake \<Rightarrow> (bool \<times> string) \<times> handshake" where
  "consume bytes h =
     (if \<not> hs_awaiting h then ((False, bytes), h)
      else case match_query (hs_matched h) bytes of
        QueryMismatch matched rest \<Rightarrow>
          ((False, take matched CONPTY_INITIAL_CURSOR_QUERY @ rest), \<lparr>hs_awaiting = False, hs_matched = 0\<rparr>)
      | QueryOpen matched \<Rightarrow> ((False, []), h\<lparr>hs_matched := matched\<rparr>)
      | QueryFull rest \<Rightarrow> ((True, rest), \<lparr>hs_awaiting = False, hs_matched = 0\<rparr>))"

definition finish_handshake :: "handshake \<Rightarrow> string" where
  "finish_handshake h =
     (if \<not> hs_awaiting h then [] else take (hs_matched h) CONPTY_INITIAL_CURSOR_QUERY)"

text \<open>All reads of a terminal and its end: the answers given and the bytes passed on.\<close>

fun conpty_reads :: "string list \<Rightarrow> handshake \<Rightarrow> nat \<times> string" where
  "conpty_reads [] h = (0, finish_handshake h)"
| "conpty_reads (bytes # reads) h =
     (let ((answer, out), h) = consume bytes h;
          (answers, rest) = conpty_reads reads h
      in ((if answer then 1 else 0) + answers, out @ rest))"

declare match_query.simps [simp del]

lemma query_length [simp]: "length CONPTY_INITIAL_CURSOR_QUERY = 4"
  by (simp add: CONPTY_INITIAL_CURSOR_QUERY_def)

lemma match_query_cases:
  assumes "m < 4"
  shows "case match_query m bytes of
      QueryMismatch k rest \<Rightarrow> m \<le> k \<and> k < 4
        \<and> take m CONPTY_INITIAL_CURSOR_QUERY @ bytes = take k CONPTY_INITIAL_CURSOR_QUERY @ rest
        \<and> rest \<noteq> [] \<and> hd rest \<noteq> CONPTY_INITIAL_CURSOR_QUERY ! k
    | QueryOpen k \<Rightarrow> m \<le> k \<and> k < 4
        \<and> take m CONPTY_INITIAL_CURSOR_QUERY @ bytes = take k CONPTY_INITIAL_CURSOR_QUERY
    | QueryFull rest \<Rightarrow> take m CONPTY_INITIAL_CURSOR_QUERY @ bytes = CONPTY_INITIAL_CURSOR_QUERY @ rest"
  using assms
proof (induction bytes arbitrary: m)
  case Nil
  then show ?case by (simp add: match_query.simps[of m "[]"])
next
  case (Cons b rest)
  show ?case
  proof (cases "b = CONPTY_INITIAL_CURSOR_QUERY ! m")
    case False
    then show ?thesis using Cons.prems by (simp add: match_query.simps[of m "b # rest"])
  next
    case True
    then have eq: "match_query m (b # rest) = match_query (Suc m) rest"
      using Cons.prems by (subst match_query.simps) simp
    have t: "take m CONPTY_INITIAL_CURSOR_QUERY @ b # rest = take (Suc m) CONPTY_INITIAL_CURSOR_QUERY @ rest"
      using True Cons.prems by (simp add: take_Suc_conv_app_nth)
    show ?thesis
    proof (cases "Suc m < 4")
      case True
      from Cons.IH[OF True] show ?thesis unfolding eq t by (auto split: query_match.splits)
    next
      case False
      then have "m = 3" using Cons.prems by simp
      then show ?thesis unfolding eq t by (simp add: match_query.simps[of 4 rest])
    qed
  qed
qed

lemma conpty_reads_inert: "\<not> hs_awaiting h \<Longrightarrow> conpty_reads reads h = (0, concat reads)"
  by (induction reads arbitrary: h) (auto simp: consume_def finish_handshake_def)

text \<open>The same in one piece: an initial query is removed and answered once.\<close>

definition strip_query :: "string \<Rightarrow> nat \<times> string" where
  "strip_query input =
     (if take 4 input = CONPTY_INITIAL_CURSOR_QUERY then (1, drop 4 input) else (0, input))"

lemma strip_query_append: "strip_query (CONPTY_INITIAL_CURSOR_QUERY @ rest) = (1, rest)"
  by (simp add: strip_query_def)

lemma strip_query_mismatch:
  assumes "k < 4" and "rest \<noteq> []" and "hd rest \<noteq> CONPTY_INITIAL_CURSOR_QUERY ! k"
  shows "strip_query (take k CONPTY_INITIAL_CURSOR_QUERY @ rest) = (0, take k CONPTY_INITIAL_CURSOR_QUERY @ rest)"
proof -
  let ?i = "take k CONPTY_INITIAL_CURSOR_QUERY @ rest"
  have "?i ! k = hd rest" using assms(1,2) by (simp add: nth_append hd_conv_nth)
  then have "take 4 ?i ! k \<noteq> CONPTY_INITIAL_CURSOR_QUERY ! k"
    using assms(1,3) by (simp del: take_append)
  then have "take 4 ?i \<noteq> CONPTY_INITIAL_CURSOR_QUERY" by metis
  then show ?thesis by (simp add: strip_query_def)
qed

lemma conpty_reads_strip:
  assumes "hs_awaiting h" and "hs_matched h < 4"
  shows "conpty_reads reads h = strip_query (take (hs_matched h) CONPTY_INITIAL_CURSOR_QUERY @ concat reads)"
  using assms
proof (induction reads arbitrary: h)
  case Nil
  have "length (take (hs_matched h) CONPTY_INITIAL_CURSOR_QUERY) < 4" using Nil.prems(2) by simp
  then have "take 4 (take (hs_matched h) CONPTY_INITIAL_CURSOR_QUERY) \<noteq> CONPTY_INITIAL_CURSOR_QUERY"
    by (metis length_take min.strict_coboundedI2 min.commute nat_neq_iff query_length)
  with Nil show ?case by (simp add: finish_handshake_def strip_query_def)
next
  case (Cons bytes reads)
  note m = match_query_cases[OF Cons.prems(2), of bytes]
  have assoc: "take (hs_matched h) CONPTY_INITIAL_CURSOR_QUERY @ concat (bytes # reads)
      = (take (hs_matched h) CONPTY_INITIAL_CURSOR_QUERY @ bytes) @ concat reads" by simp
  show ?case
  proof (cases "match_query (hs_matched h) bytes")
    case (QueryMismatch k rest)
    with m Cons.prems show ?thesis unfolding assoc
      by (auto simp: consume_def conpty_reads_inert strip_query_mismatch)
  next
    case (QueryOpen k)
    with m Cons.prems have eq: "conpty_reads (bytes # reads) h = conpty_reads reads (h\<lparr>hs_matched := k\<rparr>)"
      by (auto simp: consume_def split: prod.splits)
    show ?thesis unfolding eq assoc using m QueryOpen Cons.prems Cons.IH[of "h\<lparr>hs_matched := k\<rparr>"] by simp
  next
    case (QueryFull rest)
    with m Cons.prems show ?thesis unfolding assoc
      by (auto simp: consume_def conpty_reads_inert strip_query_append)
  qed
qed

section \<open>Properties\<close>

text \<open>
  C15: a reconnecting browser never misses output unnoticed.  After any publications in a terminal
  the buffer is the longest suffix of what was published that holds at most 1 MiB; attaching with
  the last sequence the browser has seen returns exactly the published events after it, unless some
  of them were dropped, and then the first thing returned is the notice that says up to where, and
  the rest is everything published after that point.
\<close>

theorem attach_has_no_silent_gap:
  assumes "length events < 2 ^ 64" and "\<forall>e \<in> set events. replay_event_bytes e \<le> 2 ^ 32"
    and "s = publish_all g events new_stream" and "case since of None \<Rightarrow> seen = 0 | Some n \<Rightarrow> seen = n"
  shows "\<exists>k \<le> length events. payload (drop k (es_sent s)) \<le> 1048576
    \<and> (\<forall>j < k. payload (drop j (es_sent s)) > 1048576)
    \<and> map sq_event (es_sent s) = events \<and> map sq_sequence (es_sent s) = [1 ..< Suc (length events)]
    \<and> attach_stream i g since s =
        (if k = 0 \<or> (since \<noteq> None \<and> k \<le> seen) then drop seen (es_sent s)
         else truncation_notice i g k # drop k (es_sent s))"
proof -
  from publish_all_ok[OF new_stream_ok, of events g] assms(1,2) obtain k where
    k: "stream_ok k s" "es_next s = length events" "map sq_event (es_sent s) = events"
    unfolding assms(3) by (auto simp: new_stream_def)
  have seqs: "map sq_sequence (es_sent s) = [1 ..< Suc (length events)]" and kl: "k \<le> length events"
    using k by (simp_all add: stream_ok_def del: upt_Suc)
  have len: "length (es_sent s) = length events" using k(3) by (metis length_map)
  have after: "filter (\<lambda>e. sq_sequence e > n) (drop j (es_sent s)) = drop (max n j) (es_sent s)" for n j
  proof -
    have nth: "sq_sequence (es_sent s ! i) = Suc i" if "i < length events" for i
    proof -
      have "map sq_sequence (es_sent s) ! i = [1 ..< Suc (length events)] ! i" by (simp only: seqs)
      with that len show ?thesis by (simp del: upt_Suc)
    qed
    have "drop j (es_sent s) = take (n - j) (drop j (es_sent s)) @ drop (max n j) (es_sent s)"
    proof -
      have "drop (max n j) (es_sent s) = drop (n - j) (drop j (es_sent s))"
        by (cases "j \<le> n") (simp_all add: max_def)
      then show ?thesis by (simp only: append_take_drop_id)
    qed
    moreover have "filter (\<lambda>e. sq_sequence e > n) (take (n - j) (drop j (es_sent s))) = []"
      using nth len by (auto simp: filter_empty_conv in_set_conv_nth)
    moreover have "filter (\<lambda>e. sq_sequence e > n) (drop (max n j) (es_sent s)) = drop (max n j) (es_sent s)"
      unfolding filter_id_conv
    proof
      fix e assume "e \<in> set (drop (max n j) (es_sent s))"
      then obtain i where i: "i < length (drop (max n j) (es_sent s))" "e = drop (max n j) (es_sent s) ! i"
        by (metis in_set_conv_nth)
      have "max n j \<le> length (es_sent s)" using i(1) by (metis diff_is_0_eq length_drop nle_le not_less_zero)
      with i(2) have "e = es_sent s ! (max n j + i)" by (simp add: nth_drop)
      then have "sq_sequence e = Suc (max n j + i)" using nth[of "max n j + i"] i(1) len by simp
      then show "sq_sequence e > n" by simp
    qed
    ultimately show ?thesis by (metis append_Nil filter_append)
  qed
  have seen: "seen = (case since of None \<Rightarrow> 0 | Some n \<Rightarrow> n)" using assms(4) by (auto split: option.splits)
  have "attach_stream i g since s =
        (if k = 0 \<or> (since \<noteq> None \<and> k \<le> seen) then drop seen (es_sent s)
         else truncation_notice i g k # drop k (es_sent s))"
    using k(1) by (auto simp: attach_stream_def replay_is_truncated_def stream_ok_def after seen max_def
        split: option.splits)
  moreover have max: "MAX_TERMINAL_REPLAY_BYTES = 1048576" by (simp add: MAX_TERMINAL_REPLAY_BYTES_def)
  have "payload (drop k (es_sent s)) \<le> 1048576" "\<forall>j < k. payload (drop j (es_sent s)) > 1048576"
    using k(1) unfolding stream_ok_def max by metis+
  ultimately show ?thesis using k(3) seqs kl by metis
qed

definition long_output :: terminal_event where
  "long_output = \<lparr>te_session_id = ''t'', te_kind = TekOutput, te_data = Some (replicate 700000 CHR ''x''),
     te_exit_code = None, te_message = None, te_snapshot = None\<rparr>"

lemma payload_events: "payload es = sum_list (map replay_event_bytes (map sq_event es))"
  by (simp add: payload_def o_def)

lemma attach_has_no_silent_gap_witness:
  "attach_stream ''t'' 1 None (publish_all 1 [long_output, long_output] new_stream)
     = truncation_notice ''t'' 1 1 # drop 1 (es_sent (publish_all 1 [long_output, long_output] new_stream))"
proof -
  define s where "s = publish_all 1 [long_output, long_output] new_stream"
  have bytes: "replay_event_bytes long_output = 700000"
    by (simp add: replay_event_bytes_def long_output_def)
  have "length [long_output, long_output] < 2 ^ 64"
    "\<forall>e \<in> set [long_output, long_output]. replay_event_bytes e \<le> 2 ^ 32"
    "case None :: nat option of None \<Rightarrow> (0 :: nat) = 0 | Some n \<Rightarrow> 0 = n"
    by (simp_all add: bytes)
  from attach_has_no_silent_gap[OF this(1,2) s_def this(3), of "''t''"] obtain k where
    k: "k \<le> length [long_output, long_output]" "payload (drop k (es_sent s)) \<le> 1048576"
      "\<forall>j < k. payload (drop j (es_sent s)) > 1048576" "map sq_event (es_sent s) = [long_output, long_output]"
      "attach_stream ''t'' 1 None s = (if k = 0 \<or> (None \<noteq> (None :: nat option) \<and> k \<le> 0) then drop 0 (es_sent s)
        else truncation_notice ''t'' 1 k # drop k (es_sent s))"
    by (elim exE conjE) (rule that)
  have "payload (drop j (es_sent s)) = sum_list (map replay_event_bytes (drop j [long_output, long_output]))" for j
    unfolding payload_events by (simp only: drop_map k(4)[symmetric])
  from this[of 0] this[of 1]
  have pay: "payload (drop 0 (es_sent s)) = 1400000" "payload (drop 1 (es_sent s)) = 700000"
    by (simp_all add: bytes)
  have "k \<noteq> 0"
  proof
    assume "k = 0"
    with k(2) pay(1) show False by simp
  qed
  moreover have "\<not> 1 < k" using k(3) pay(2) by auto
  ultimately have "k = 1" by simp
  with k(5) show ?thesis by (simp add: s_def)
qed

text \<open>
  C18: the cursor query of a new Windows terminal is answered and removed exactly when the terminal's
  output begins with it, once, however the output is cut into reads; every other byte is passed on
  unchanged and in order, and nothing is ever answered elsewhere.
\<close>

theorem cursor_query_is_chunk_independent:
  "conpty_reads reads (new_handshake enabled) =
     (if enabled \<and> take 4 (concat reads) = CONPTY_INITIAL_CURSOR_QUERY
      then (1, drop 4 (concat reads)) else (0, concat reads))"
  using conpty_reads_strip[of "new_handshake True" reads] conpty_reads_inert[of "new_handshake False" reads]
  by (cases enabled) (simp_all add: new_handshake_def strip_query_def)

end
