(* ===== verification/Terminals.thy ===== *)
theory Terminals
  imports TermStream Registry Barrier "HOL-Library.Product_Lexorder" "HOL-Library.List_Lexorder"
begin

text \<open>
  \<^verbatim>\<open>TerminalRegistry\<close> of \<^verbatim>\<open>crates/remotedeck-core/src/session.rs\<close>: the slots of active terminals,
  the snapshots of all of them, and the steps of the threads that start, reconnect, close and reap
  them.  Every step is one critical section of the registry's lock; between two of them any other
  thread may run.

  The PTY and its process are the operating system's: \<open>tm_children\<close> holds the generations whose
  process is alive, and each step that depends on the system says what happened.
\<close>

section \<open>The registry state\<close>

definition MAX_ACTIVE_TERMINALS :: nat where "MAX_ACTIVE_TERMINALS = 32"
definition MAX_RETAINED_TERMINALS :: nat where "MAX_RETAINED_TERMINALS = 256"

datatype terminal_slot =
    StartingSlot (slot_generation: nat) (slot_host: string) (slot_close_requested: bool) (slot_cleanup: bool)
  | RunningSlot (slot_generation: nat) (slot_host: string)

record terminal_record =
  tr_generation :: nat
  tr_snapshot :: terminal_snapshot

type_synonym slots = "(string \<times> terminal_slot) list"
type_synonym records = "(string \<times> terminal_record) list"

record registry_state =
  rs_active :: slots
  rs_snapshots :: records

definition validate_size :: "u16 \<Rightarrow> u16 \<Rightarrow> unit app_result" where
  "validate_size rows cols =
     (if rows < 2 \<or> rows > 1000 \<or> cols < 2 \<or> cols > 1000
      then Inl (Validation ''terminal dimensions must be between 2 and 1000'') else Inr ())"

definition reserve_slot :: "string \<Rightarrow> string \<Rightarrow> nat \<Rightarrow> registry_state \<Rightarrow> unit app_result \<times> registry_state" where
  "reserve_slot session_id host_id generation s =
     (if length (rs_active s) \<ge> MAX_ACTIVE_TERMINALS
      then (Inl (Validation ''at most 32 active terminal sessions are allowed''), s)
      else (Inr (), s\<lparr>rs_active := put session_id (StartingSlot generation host_id False False) (rs_active s)\<rparr>))"

definition reserve_new :: "string \<Rightarrow> string \<Rightarrow> nat \<Rightarrow> registry_state \<Rightarrow> unit app_result \<times> registry_state" where
  "reserve_new session_id host_id generation s =
     (if map_of (rs_active s) session_id \<noteq> None \<or> map_of (rs_snapshots s) session_id \<noteq> None
      then (Inl (State ''terminal session identifier collision''), s)
      else reserve_slot session_id host_id generation s)"

definition reserve_reconnect ::
    "string \<Rightarrow> string \<Rightarrow> nat \<Rightarrow> registry_state \<Rightarrow> terminal_snapshot app_result \<times> registry_state" where
  "reserve_reconnect session_id host_id generation s =
     (case map_of (rs_snapshots s) session_id of
        None \<Rightarrow> (Inl (NotFound (''terminal session '' @ session_id)), s)
      | Some record \<Rightarrow>
          let previous = tr_snapshot record
          in if tsn_host_id previous \<noteq> host_id
          then (Inl (State ''terminal session host no longer matches its profile''), s)
          else if map_of (rs_active s) session_id \<noteq> None
          then (Inl (Validation ''terminal session is already running or starting''), s)
          else (case reserve_slot session_id host_id generation s of
                  (Inl err, s) \<Rightarrow> (Inl err, s)
                | (Inr _, s) \<Rightarrow> (Inr previous, s)))"

definition next_terminal_snapshot_revision :: "terminal_snapshot \<Rightarrow> nat" where
  "next_terminal_snapshot_revision previous = max (saturating_add64 (tsn_revision previous) 1) 1"

definition register_spawn_cleanup :: "string \<Rightarrow> nat \<Rightarrow> registry_state \<Rightarrow> bool \<times> registry_state" where
  "register_spawn_cleanup session_id generation s =
     (case map_of (rs_active s) session_id of
        Some (StartingSlot current host_id close_requested registered) \<Rightarrow>
          if current \<noteq> generation then (False, s)
          else (\<not> close_requested,
            s\<lparr>rs_active := put session_id (StartingSlot current host_id close_requested True) (rs_active s)\<rparr>)
      | _ \<Rightarrow> (False, s))"

definition terminals_over :: "nat \<Rightarrow> records \<Rightarrow> bool" where
  "terminals_over limit snapshots \<longleftrightarrow> length snapshots > limit"

definition detached :: "slots \<Rightarrow> string \<times> terminal_record \<Rightarrow> bool" where
  "detached active p \<longleftrightarrow> map_of active (fst p) = None"

definition prune_terminal_records :: "nat \<Rightarrow> registry_state \<Rightarrow> registry_state" where
  "prune_terminal_records limit s =
     s\<lparr>rs_snapshots := prune (terminals_over limit) (detached (rs_active s)) tr_generation (rs_snapshots s)\<rparr>"

definition can_commit :: "nat \<Rightarrow> terminal_slot option \<Rightarrow> bool" where
  "can_commit generation slot \<longleftrightarrow>
     (case slot of
        Some (StartingSlot current _ close_requested _) \<Rightarrow> \<not> close_requested \<and> current = generation
      | _ \<Rightarrow> False)"

definition commit_running ::
    "string \<Rightarrow> nat \<Rightarrow> string \<Rightarrow> terminal_snapshot \<Rightarrow> registry_state \<Rightarrow> bool \<times> registry_state" where
  "commit_running session_id generation host_id snapshot s =
     (if \<not> can_commit generation (map_of (rs_active s) session_id) then (False, s)
      else (True, prune_terminal_records MAX_RETAINED_TERMINALS
        (s\<lparr>rs_active := put session_id (RunningSlot generation host_id) (rs_active s),
           rs_snapshots := put session_id \<lparr>tr_generation = generation, tr_snapshot = snapshot\<rparr> (rs_snapshots s)\<rparr>)))"

definition remove_slot :: "string \<Rightarrow> bool \<Rightarrow> registry_state \<Rightarrow> registry_state" where
  "remove_slot session_id with_snapshot s =
     s\<lparr>rs_active := del session_id (rs_active s),
       rs_snapshots := (if with_snapshot then del session_id (rs_snapshots s) else rs_snapshots s)\<rparr>"

definition release_reservation :: "string \<Rightarrow> nat \<Rightarrow> registry_state \<Rightarrow> registry_state" where
  "release_reservation session_id generation s =
     (case map_of (rs_active s) session_id of
        Some (StartingSlot current _ close_requested _) \<Rightarrow>
          if current = generation then remove_slot session_id close_requested s else s
      | _ \<Rightarrow> s)"

definition is_current_generation :: "string \<Rightarrow> nat \<Rightarrow> registry_state \<Rightarrow> bool" where
  "is_current_generation session_id generation s \<longleftrightarrow>
     (case map_of (rs_active s) session_id of None \<Rightarrow> False | Some slot \<Rightarrow> slot_generation slot = generation)"

definition is_running_generation :: "string \<Rightarrow> nat \<Rightarrow> registry_state \<Rightarrow> bool" where
  "is_running_generation session_id generation s \<longleftrightarrow>
     (case map_of (rs_active s) session_id of Some (RunningSlot g _) \<Rightarrow> g = generation | _ \<Rightarrow> False)"

text \<open>The last critical section of \<open>abort_spawn\<close>, after the child was terminated.\<close>

definition abort_finish :: "string \<Rightarrow> nat \<Rightarrow> bool \<Rightarrow> registry_state \<Rightarrow> registry_state" where
  "abort_finish session_id generation remove_snapshot s =
     (case map_of (rs_active s) session_id of
        Some (StartingSlot current _ close_requested _) \<Rightarrow>
          if current = generation then remove_slot session_id (remove_snapshot \<or> close_requested) s else s
      | Some (RunningSlot current _) \<Rightarrow>
          if current = generation then remove_slot session_id remove_snapshot s else s
      | None \<Rightarrow> s)"

text \<open>The first critical section of \<open>close\<close>: the generation to terminate, if any, or an error.\<close>

definition close_begin :: "string \<Rightarrow> registry_state \<Rightarrow> nat option app_result \<times> registry_state" where
  "close_begin session_id s =
     (case map_of (rs_active s) session_id of
        Some (StartingSlot generation host_id _ cleanup) \<Rightarrow>
          (Inr (if cleanup then Some generation else None),
           s\<lparr>rs_active := put session_id (StartingSlot generation host_id True cleanup) (rs_active s)\<rparr>)
      | Some (RunningSlot generation host_id) \<Rightarrow> (Inr (Some generation), s)
      | None \<Rightarrow>
          if map_of (rs_snapshots s) session_id \<noteq> None
          then (Inr None, s\<lparr>rs_snapshots := del session_id (rs_snapshots s)\<rparr>)
          else (Inl (NotFound (''terminal session '' @ session_id)), s))"

definition close_finish :: "string \<Rightarrow> nat \<Rightarrow> registry_state \<Rightarrow> registry_state" where
  "close_finish session_id generation s =
     (if is_current_generation session_id generation s then remove_slot session_id True s else s)"

definition revise_terminal_snapshot :: "terminal_snapshot \<Rightarrow> terminal_snapshot" where
  "revise_terminal_snapshot snapshot = snapshot\<lparr>tsn_revision := saturating_add64 (tsn_revision snapshot) 1\<rparr>"

text \<open>What \<^verbatim>\<open>ExitStatus\<close> tells: the code, when it is an \<^verbatim>\<open>i32\<close>, and the signal.\<close>

record pty_status =
  ps_exit_code :: "int option"
  ps_signal :: "string option"

definition exited_snapshot :: "pty_status \<Rightarrow> terminal_snapshot \<Rightarrow> terminal_snapshot" where
  "exited_snapshot status snapshot =
     (let terminal_state = (if ps_exit_code status = Some 0 then TsClosed else TsOffline);
          changed = (tsn_state snapshot \<noteq> terminal_state \<or> tsn_exit_code snapshot \<noteq> ps_exit_code status
            \<or> tsn_error snapshot \<noteq> ps_signal status);
          snapshot = snapshot\<lparr>tsn_state := terminal_state, tsn_exit_code := ps_exit_code status,
            tsn_error := ps_signal status\<rparr>
      in if changed then revise_terminal_snapshot snapshot else snapshot)"

definition finalize_exit ::
    "string \<Rightarrow> nat \<Rightarrow> pty_status \<Rightarrow> registry_state \<Rightarrow> terminal_event option \<times> registry_state" where
  "finalize_exit session_id generation status s =
     (case map_of (rs_snapshots s) session_id of
        None \<Rightarrow> (None, s)
      | Some record \<Rightarrow>
          if \<not> is_running_generation session_id generation s \<or> tr_generation record \<noteq> generation then (None, s)
          else
            let snapshot = exited_snapshot status (tr_snapshot record)
            in (Some \<lparr>te_session_id = session_id, te_kind = TekExit, te_data = None,
                  te_exit_code = ps_exit_code status, te_message = tsn_error snapshot, te_snapshot = Some snapshot\<rparr>,
                s\<lparr>rs_active := del session_id (rs_active s),
                  rs_snapshots := put session_id (record\<lparr>tr_snapshot := snapshot\<rparr>) (rs_snapshots s)\<rparr>))"

definition record_terminal_error ::
    "string \<Rightarrow> nat \<Rightarrow> string \<Rightarrow> registry_state \<Rightarrow> terminal_event option \<times> registry_state" where
  "record_terminal_error session_id generation message s =
     (if \<not> is_running_generation session_id generation s then (None, s)
      else case map_of (rs_snapshots s) session_id of
        None \<Rightarrow> (None, s)
      | Some record \<Rightarrow>
          let snapshot = tr_snapshot record
          in if tr_generation record \<noteq> generation then (None, s)
          else if tsn_state snapshot = TsFailed \<and> tsn_error snapshot = Some message then (None, s)
          else
            let snapshot = revise_terminal_snapshot (snapshot\<lparr>tsn_state := TsFailed, tsn_error := Some message\<rparr>)
            in (Some \<lparr>te_session_id = session_id, te_kind = TekError, te_data = None, te_exit_code = None,
                  te_message = Some message, te_snapshot = Some snapshot\<rparr>,
                s\<lparr>rs_snapshots := put session_id (record\<lparr>tr_snapshot := snapshot\<rparr>) (rs_snapshots s)\<rparr>))"

definition record_wait_error :: "string \<Rightarrow> nat \<Rightarrow> string \<Rightarrow> registry_state \<Rightarrow> terminal_event option \<times> registry_state" where
  "record_wait_error session_id generation error s =
     record_terminal_error session_id generation (''failed to wait for PTY child: '' @ error) s"

text \<open>
  \<open>list\<close>: by title, then by identifier.  Strings are compared byte by byte.
\<close>

definition snapshot_key :: "string \<times> terminal_record \<Rightarrow> nat list \<times> nat list" where
  "snapshot_key p = (map of_char (tsn_title (tr_snapshot (snd p))), map of_char (tsn_session_id (tr_snapshot (snd p))))"

definition list_terminals :: "registry_state \<Rightarrow> terminal_snapshot list" where
  "list_terminals s = map (\<lambda>p. tr_snapshot (snd p)) (sort_key snapshot_key (rs_snapshots s))"

section \<open>The threads\<close>

text \<open>
  \<open>spawn_reserved\<close> of one generation: the slot is reserved; the PTY child exists; its cleanup is
  registered; the terminal runs but its threads have not started; \<open>abort_spawn\<close> is about to
  terminate the child; it has terminated it.
\<close>

datatype spawn_stage = Reserved | Spawned | Registered | Committed | Aborting bool | Killed bool

record spawn_call =
  sc_session :: string
  sc_host :: string
  sc_snapshot :: terminal_snapshot
  sc_stage :: spawn_stage

record terminal_system =
  tm_registry :: registry_state
  tm_next_generation :: nat
  tm_barrier :: barrier
  tm_entering :: "string list"
  tm_drawn :: "(string \<times> nat) list"
  tm_calls :: "nat \<rightharpoonup> spawn_call"
  tm_children :: "nat set"
  tm_threads :: "nat \<rightharpoonup> string"
  tm_closing :: "(string \<times> nat) list"
  tm_closed :: "(string \<times> nat) list"
  tm_published :: "terminal_event list"

definition new_terminals :: terminal_system where
  "new_terminals = \<lparr>tm_registry = \<lparr>rs_active = [], rs_snapshots = []\<rparr>, tm_next_generation = 0,
     tm_barrier = Map.empty, tm_entering = [], tm_drawn = [], tm_calls = Map.empty, tm_children = {}, tm_threads = Map.empty,
     tm_closing = [], tm_closed = [], tm_published = []\<rparr>"

definition spawn_snapshot :: "host_profile \<Rightarrow> string option \<Rightarrow> string \<Rightarrow> nat \<Rightarrow> nat \<Rightarrow> terminal_snapshot" where
  "spawn_snapshot host title session_id generation revision =
     \<lparr>tsn_session_id = session_id, tsn_generation = generation, tsn_revision = revision,
      tsn_host_id = hp_id host, tsn_alias = hp_alias host, tsn_cwd = hp_default_workspace host,
      tsn_title = (case title of
          Some t \<Rightarrow> t
        | None \<Rightarrow> hp_alias host @ '' '' @ [CHR 0xC2, CHR 0xB7] @ '' '' @ hp_default_workspace host),
      tsn_state = TsRunning, tsn_exit_code = None, tsn_error = None\<rparr>"

datatype terminal_op =
    TBegin string
  | TFail string
  | TDraw string
  | TReserveNew host_profile "string option" string nat
  | TReserveReconnect host_profile string nat
  | TSpawnFailed nat
  | TSpawned nat
  | TRegister nat
  | TSetupFailed nat
  | TCommit nat
  | TThreads nat bool
  | TAbort nat bool
  | TAbortFinish nat
  | TCloseBegin string
  | TCloseKill string nat bool
  | TCloseFinish string nat
  | TChildExit nat
  | TFinalize nat pty_status
  | TThreadError nat string
  | TStopAll "nat set"
  | TRetire string
  | TRestore string

text \<open>\<^verbatim>\<open>next_generation.fetch_add(1).wrapping_add(1)\<close>\<close>

definition next_generation :: "terminal_system \<Rightarrow> nat" where
  "next_generation s = (tm_next_generation s + 1) mod 2 ^ 64"

text \<open>The call of a generation returns: its lease is dropped.\<close>

definition end_call :: "nat \<Rightarrow> string \<Rightarrow> terminal_system \<Rightarrow> terminal_system" where
  "end_call generation host_id s =
     s\<lparr>tm_calls := (tm_calls s)(generation := None), tm_barrier := end_lease host_id (tm_barrier s)\<rparr>"

definition set_stage :: "nat \<Rightarrow> spawn_stage \<Rightarrow> terminal_system \<Rightarrow> terminal_system" where
  "set_stage generation stage s =
     s\<lparr>tm_calls := (tm_calls s)(generation := map_option (\<lambda>c. c\<lparr>sc_stage := stage\<rparr>) (tm_calls s generation))\<rparr>"

definition leave :: "string \<Rightarrow> terminal_system \<Rightarrow> terminal_system" where
  "leave host_id s = s\<lparr>tm_entering := remove1 host_id (tm_entering s), tm_barrier := end_lease host_id (tm_barrier s)\<rparr>"

text \<open>
  The generation is drawn before the lock is taken.  After the reservation the call takes over the
  lease, or the error returns.
\<close>

definition reserved :: "host_profile \<Rightarrow> string option \<Rightarrow> string \<Rightarrow> nat \<Rightarrow> nat app_result \<Rightarrow> registry_state \<Rightarrow>
    terminal_system \<Rightarrow> terminal_system" where
  "reserved host title session_id generation r registry s =
     (let s = s\<lparr>tm_registry := registry, tm_drawn := remove1 (hp_id host, generation) (tm_drawn s)\<rparr>
      in case r of
        Inl _ \<Rightarrow> s\<lparr>tm_barrier := end_lease (hp_id host) (tm_barrier s)\<rparr>
      | Inr revision \<Rightarrow> s\<lparr>tm_calls := (tm_calls s)(generation \<mapsto> \<lparr>sc_session = session_id, sc_host = hp_id host,
            sc_snapshot = spawn_snapshot host title session_id generation revision, sc_stage = Reserved\<rparr>)\<rparr>)"

definition publish_event :: "terminal_event option \<Rightarrow> terminal_system \<Rightarrow> terminal_system" where
  "publish_event event s =
     (case event of None \<Rightarrow> s | Some e \<Rightarrow> s\<lparr>tm_published := tm_published s @ [e]\<rparr>)"

definition started_event :: "spawn_call \<Rightarrow> terminal_event" where
  "started_event c = \<lparr>te_session_id = sc_session c, te_kind = TekStarted, te_data = None, te_exit_code = None,
     te_message = None, te_snapshot = Some (sc_snapshot c)\<rparr>"

text \<open>The generations whose child \<open>stop_all\<close> can reach.\<close>

definition reachable_children :: "registry_state \<Rightarrow> nat set" where
  "reachable_children r = set (map slot_generation (filter
     (\<lambda>slot. case slot of StartingSlot _ _ _ cleanup \<Rightarrow> cleanup | RunningSlot _ _ \<Rightarrow> True)
     (map snd (rs_active r))))"

definition stage_is :: "spawn_stage \<Rightarrow> nat \<Rightarrow> terminal_system \<Rightarrow> spawn_call option" where
  "stage_is stage generation s =
     (case tm_calls s generation of
        None \<Rightarrow> None
      | Some c \<Rightarrow> if sc_stage c = stage then Some c else None)"

fun spawn_step :: "terminal_op \<Rightarrow> terminal_system \<Rightarrow> terminal_system option" where
  "spawn_step (TSpawnFailed g) s =
     (case stage_is Reserved g s of
        None \<Rightarrow> None
      | Some c \<Rightarrow> Some (end_call g (sc_host c)
          (s\<lparr>tm_registry := release_reservation (sc_session c) g (tm_registry s)\<rparr>)))"
| "spawn_step (TSpawned g) s =
     (case stage_is Reserved g s of
        None \<Rightarrow> None
      | Some c \<Rightarrow> Some (set_stage g Spawned (s\<lparr>tm_children := insert g (tm_children s)\<rparr>)))"
| "spawn_step (TRegister g) s =
     (case stage_is Spawned g s of
        None \<Rightarrow> None
      | Some c \<Rightarrow>
          let (okay, registry) = register_spawn_cleanup (sc_session c) g (tm_registry s)
          in Some (set_stage g (if okay then Registered else Aborting False) (s\<lparr>tm_registry := registry\<rparr>)))"
| "spawn_step (TSetupFailed g) s =
     (case stage_is Registered g s of
        None \<Rightarrow> None | Some c \<Rightarrow> Some (set_stage g (Aborting False) s))"
| "spawn_step (TCommit g) s =
     (case stage_is Registered g s of
        None \<Rightarrow> None
      | Some c \<Rightarrow>
          let (okay, registry) = commit_running (sc_session c) g (sc_host c) (sc_snapshot c) (tm_registry s);
              s = s\<lparr>tm_registry := registry\<rparr>
          in Some (if okay then publish_event (Some (started_event c)) (set_stage g Committed s)
                   else set_stage g (Aborting False) s))"
| "spawn_step (TThreads g started) s =
     (case stage_is Committed g s of
        None \<Rightarrow> None
      | Some c \<Rightarrow> Some (if started
          then end_call g (sc_host c) (s\<lparr>tm_threads := (tm_threads s)(g \<mapsto> sc_session c)\<rparr>)
          else set_stage g (Aborting True) s))"
| "spawn_step (TAbort g killed) s =
     (case tm_calls s g of
        None \<Rightarrow> None
      | Some c \<Rightarrow>
          (case sc_stage c of
             Aborting remove_snapshot \<Rightarrow>
               Some (if \<not> is_current_generation (sc_session c) g (tm_registry s) \<or> \<not> killed
                     then end_call g (sc_host c) s
                     else set_stage g (Killed remove_snapshot) (s\<lparr>tm_children := tm_children s - {g}\<rparr>))
           | _ \<Rightarrow> None))"
| "spawn_step (TAbortFinish g) s =
     (case tm_calls s g of
        None \<Rightarrow> None
      | Some c \<Rightarrow>
          (case sc_stage c of
             Killed remove_snapshot \<Rightarrow>
               Some (end_call g (sc_host c)
                 (s\<lparr>tm_registry := abort_finish (sc_session c) g remove_snapshot (tm_registry s)\<rparr>))
           | _ \<Rightarrow> None))"
| "spawn_step _ s = None"

text \<open>One step of the system; \<open>None\<close> when it cannot happen in this state.\<close>

fun terminal_step :: "terminal_op \<Rightarrow> terminal_system \<Rightarrow> terminal_system option" where
  "terminal_step (TBegin host_id) s =
     (case begin_lease host_id (tm_barrier s) of
        (True, b) \<Rightarrow> Some (s\<lparr>tm_barrier := b, tm_entering := host_id # tm_entering s\<rparr>)
      | (False, b) \<Rightarrow> Some (s\<lparr>tm_barrier := b\<rparr>))"
| "terminal_step (TFail host_id) s =
     (if host_id \<notin> set (tm_entering s) then None else Some (leave host_id s))"
| "terminal_step (TDraw host_id) s =
     (if host_id \<notin> set (tm_entering s) then None
      else Some (s\<lparr>tm_entering := remove1 host_id (tm_entering s),
        tm_drawn := (host_id, next_generation s) # tm_drawn s, tm_next_generation := next_generation s\<rparr>))"
| "terminal_step (TReserveNew host title session_id g) s =
     (if (hp_id host, g) \<notin> set (tm_drawn s) then None
      else case reserve_new session_id (hp_id host) g (tm_registry s) of
        (r, registry) \<Rightarrow> Some (reserved host title session_id g (map_sum id (\<lambda>_. 1) r) registry s))"
| "terminal_step (TReserveReconnect host session_id g) s =
     (if (hp_id host, g) \<notin> set (tm_drawn s) then None
      else case reserve_reconnect session_id (hp_id host) g (tm_registry s) of
        (Inl err, registry) \<Rightarrow> Some (reserved host None session_id g (Inl err) registry s)
      | (Inr previous, registry) \<Rightarrow>
          Some (reserved host (Some (tsn_title previous)) session_id g
            (Inr (next_terminal_snapshot_revision previous)) registry s))"
| "terminal_step (TCloseBegin session_id) s =
     (case close_begin session_id (tm_registry s) of
        (Inr (Some g), registry) \<Rightarrow> Some (s\<lparr>tm_registry := registry, tm_closing := (session_id, g) # tm_closing s\<rparr>)
      | (_, registry) \<Rightarrow> Some (s\<lparr>tm_registry := registry\<rparr>))"
| "terminal_step (TCloseKill session_id g killed) s =
     (if (session_id, g) \<notin> set (tm_closing s) then None
      else let s = s\<lparr>tm_closing := remove1 (session_id, g) (tm_closing s)\<rparr>
        in Some (if killed
          then s\<lparr>tm_children := tm_children s - {g}, tm_closed := (session_id, g) # tm_closed s\<rparr> else s))"
| "terminal_step (TCloseFinish session_id g) s =
     (if (session_id, g) \<notin> set (tm_closed s) then None
      else Some (s\<lparr>tm_closed := remove1 (session_id, g) (tm_closed s),
        tm_registry := close_finish session_id g (tm_registry s)\<rparr>))"
| "terminal_step (TChildExit g) s =
     (if g \<notin> tm_children s then None else Some (s\<lparr>tm_children := tm_children s - {g}\<rparr>))"
| "terminal_step (TFinalize g status) s =
     (case tm_threads s g of
        None \<Rightarrow> None
      | Some session_id \<Rightarrow>
          if g \<in> tm_children s then None
          else let (event, registry) = finalize_exit session_id g status (tm_registry s)
            in Some (publish_event event
              (s\<lparr>tm_registry := registry, tm_threads := (tm_threads s)(g := None)\<rparr>)))"
| "terminal_step (TThreadError g message) s =
     (case tm_threads s g of
        None \<Rightarrow> None
      | Some session_id \<Rightarrow>
          let (event, registry) = record_terminal_error session_id g message (tm_registry s)
          in Some (publish_event event (s\<lparr>tm_registry := registry\<rparr>)))"
| "terminal_step (TStopAll killed) s =
     Some (s\<lparr>tm_children := tm_children s - (reachable_children (tm_registry s) \<inter> killed),
       tm_registry := \<lparr>rs_active = [], rs_snapshots = []\<rparr>\<rparr>)"
| "terminal_step (TRetire host_id) s = Some (s\<lparr>tm_barrier := retire host_id (tm_barrier s)\<rparr>)"
| "terminal_step (TRestore host_id) s = Some (s\<lparr>tm_barrier := restore host_id (tm_barrier s)\<rparr>)"
| "terminal_step op s = spawn_step op s"

text \<open>
  Histories of the operations in \<open>allowed\<close>, with fewer than 2 to the 64 generations and leases.
\<close>

definition room :: "terminal_system \<Rightarrow> bool" where
  "room s \<longleftrightarrow> tm_next_generation s + 1 < u64_max
     \<and> length (tm_entering s) + length (tm_drawn s) + card (dom (tm_calls s)) < u64_max"

inductive terminals_reach :: "(terminal_op \<Rightarrow> bool) \<Rightarrow> terminal_system \<Rightarrow> bool" for allowed where
  start: "terminals_reach allowed new_terminals"
| step: "terminals_reach allowed s \<Longrightarrow> room s \<Longrightarrow> allowed op \<Longrightarrow> terminal_step op s = Some s' \<Longrightarrow> terminals_reach allowed s'"

inductive_cases terminals_reachE: "terminals_reach allowed s"

end
