(* ===== verification/TerminalsInv.thy ===== *)
theory TerminalsInv
  imports Terminals
begin

text \<open>
  The invariants of the terminal registry: generations are never reused, a slot belongs to the call
  that reserved it, the tables are bounded, and leases count the calls in progress.
\<close>

section \<open>Generations\<close>

abbreviation slot_at :: "terminal_system \<Rightarrow> string \<Rightarrow> terminal_slot option" where
  "slot_at s i \<equiv> map_of (rs_active (tm_registry s)) i"

abbreviation record_at :: "terminal_system \<Rightarrow> string \<Rightarrow> terminal_record option" where
  "record_at s i \<equiv> map_of (rs_snapshots (tm_registry s)) i"

text \<open>A generation that was drawn and reserved, successfully or not.\<close>

definition spent :: "terminal_system \<Rightarrow> nat \<Rightarrow> bool" where
  "spent s g \<longleftrightarrow> g \<le> tm_next_generation s \<and> g \<notin> snd ` set (tm_drawn s)"

definition drawn_ok :: "terminal_system \<Rightarrow> bool" where
  "drawn_ok s \<longleftrightarrow> distinct (map snd (tm_drawn s)) \<and> (\<forall>g \<in> snd ` set (tm_drawn s). g \<le> tm_next_generation s)"

lemmas registry_defs = reserve_new_def reserve_reconnect_def reserve_slot_def register_spawn_cleanup_def
  commit_running_def release_reservation_def abort_finish_def close_begin_def close_finish_def
  remove_slot_def finalize_exit_def record_terminal_error_def prune_terminal_records_def Let_def

lemma system_simps [simp]:
  "tm_drawn (end_call g h s) = tm_drawn s" "tm_next_generation (end_call g h s) = tm_next_generation s"
  "tm_registry (end_call g h s) = tm_registry s" "tm_children (end_call g h s) = tm_children s"
  "tm_threads (end_call g h s) = tm_threads s" "tm_closing (end_call g h s) = tm_closing s"
  "tm_closed (end_call g h s) = tm_closed s" "tm_entering (end_call g h s) = tm_entering s"
  "tm_calls (end_call g h s) = (tm_calls s)(g := None)" "tm_published (end_call g h s) = tm_published s"
  "tm_barrier (end_call g h s) = end_lease h (tm_barrier s)"
  "tm_drawn (set_stage g st s) = tm_drawn s" "tm_next_generation (set_stage g st s) = tm_next_generation s"
  "tm_registry (set_stage g st s) = tm_registry s" "tm_children (set_stage g st s) = tm_children s"
  "tm_threads (set_stage g st s) = tm_threads s" "tm_closing (set_stage g st s) = tm_closing s"
  "tm_closed (set_stage g st s) = tm_closed s" "tm_entering (set_stage g st s) = tm_entering s"
  "tm_calls (set_stage g st s) = (tm_calls s)(g := map_option (\<lambda>c. c\<lparr>sc_stage := st\<rparr>) (tm_calls s g))"
  "tm_published (set_stage g st s) = tm_published s" "tm_barrier (set_stage g st s) = tm_barrier s"
  "tm_drawn (leave h s) = tm_drawn s" "tm_next_generation (leave h s) = tm_next_generation s"
  "tm_registry (leave h s) = tm_registry s" "tm_children (leave h s) = tm_children s"
  "tm_threads (leave h s) = tm_threads s" "tm_closing (leave h s) = tm_closing s"
  "tm_closed (leave h s) = tm_closed s" "tm_entering (leave h s) = remove1 h (tm_entering s)"
  "tm_calls (leave h s) = tm_calls s" "tm_published (leave h s) = tm_published s"
  "tm_barrier (leave h s) = end_lease h (tm_barrier s)"
  by (simp_all add: end_call_def set_stage_def leave_def)

lemma publish_event_simps [simp]:
  "tm_drawn (publish_event e s) = tm_drawn s" "tm_next_generation (publish_event e s) = tm_next_generation s"
  "tm_registry (publish_event e s) = tm_registry s" "tm_children (publish_event e s) = tm_children s"
  "tm_threads (publish_event e s) = tm_threads s" "tm_closing (publish_event e s) = tm_closing s"
  "tm_closed (publish_event e s) = tm_closed s" "tm_entering (publish_event e s) = tm_entering s"
  "tm_calls (publish_event e s) = tm_calls s" "tm_barrier (publish_event e s) = tm_barrier s"
  "tm_published (publish_event e s) = tm_published s @ (case e of None \<Rightarrow> [] | Some x \<Rightarrow> [x])"
  by (cases e; simp add: publish_event_def)+

lemma reserved_simps [simp]:
  "tm_registry (reserved host title i g r registry s) = registry"
  "tm_drawn (reserved host title i g r registry s) = remove1 (hp_id host, g) (tm_drawn s)"
  "tm_next_generation (reserved host title i g r registry s) = tm_next_generation s"
  "tm_children (reserved host title i g r registry s) = tm_children s"
  "tm_threads (reserved host title i g r registry s) = tm_threads s"
  "tm_closing (reserved host title i g r registry s) = tm_closing s"
  "tm_closed (reserved host title i g r registry s) = tm_closed s"
  "tm_entering (reserved host title i g r registry s) = tm_entering s"
  "tm_published (reserved host title i g r registry s) = tm_published s"
  "tm_calls (reserved host title i g (Inl err) registry s) = tm_calls s"
  "tm_calls (reserved host title i g (Inr n) registry s) = (tm_calls s)(g \<mapsto> \<lparr>sc_session = i, sc_host = hp_id host,
            sc_snapshot = spawn_snapshot host title i g n, sc_stage = Reserved\<rparr>)"
  "tm_barrier (reserved host title i g (Inl err) registry s) = end_lease (hp_id host) (tm_barrier s)"
  "tm_barrier (reserved host title i g (Inr n) registry s) = tm_barrier s"
  by (simp_all add: reserved_def Let_def split: sum.split)

lemma stage_is_iff [simp]: "stage_is st g s = Some c \<longleftrightarrow> tm_calls s g = Some c \<and> sc_stage c = st"
  "stage_is st g s = None \<longleftrightarrow> (\<forall>c. tm_calls s g = Some c \<longrightarrow> sc_stage c \<noteq> st)"
  by (auto simp: stage_is_def split: option.splits)

text \<open>What a step draws and spends.\<close>

lemma step_drawn:
  assumes "terminal_step op s = Some s'" and "room s"
  shows "(tm_drawn s' = tm_drawn s \<and> tm_next_generation s' = tm_next_generation s)
    \<or> (\<exists>h. tm_drawn s' = (h, Suc (tm_next_generation s)) # tm_drawn s \<and> tm_next_generation s' = Suc (tm_next_generation s))
    \<or> (\<exists>p \<in> set (tm_drawn s). tm_drawn s' = remove1 p (tm_drawn s) \<and> tm_next_generation s' = tm_next_generation s)"
proof (cases op)
  case (TDraw h)
  have "next_generation s = Suc (tm_next_generation s)"
    using assms(2) by (simp add: room_def next_generation_def u64_max_def)
  with TDraw assms(1) show ?thesis by (auto split: if_splits)
next
  case (TReserveNew host title i g)
  with assms(1) show ?thesis by (auto split: if_splits prod.splits)
next
  case (TReserveReconnect host i g)
  with assms(1) show ?thesis by (auto split: if_splits prod.splits sum.splits)
qed (use assms(1) in \<open>auto simp: Let_def split: if_splits prod.splits sum.splits option.splits bool.splits spawn_stage.splits\<close>)

lemma snd_remove1: "distinct (map snd xs) \<Longrightarrow> p \<in> set xs \<Longrightarrow> snd ` set (remove1 p xs) = snd ` set xs - {snd p}"
  by (induction xs) (auto simp: image_iff)

lemma distinct_remove1: "distinct (map snd xs) \<Longrightarrow> distinct (map snd (remove1 p xs))"
  by (induction xs) (auto dest: notin_set_remove1 simp: image_iff)

lemma drawn_ok_step:
  assumes "terminal_step op s = Some s'" and "room s" and "drawn_ok s"
  shows "drawn_ok s'"
  using step_drawn[OF assms(1,2)]
proof (elim disjE exE bexE conjE)
  fix p assume "p \<in> set (tm_drawn s)" "tm_drawn s' = remove1 p (tm_drawn s)" "tm_next_generation s' = tm_next_generation s"
  with assms(3) show ?thesis by (auto simp: drawn_ok_def distinct_remove1 snd_remove1)
qed (use assms(3) in \<open>force simp: drawn_ok_def\<close>)+

lemma spent_mono:
  assumes "terminal_step op s = Some s'" and "room s" and "spent s g"
  shows "spent s' g"
  using step_drawn[OF assms(1,2)] assms(3)
  by (elim disjE exE bexE conjE) (auto simp: spent_def image_iff dest: notin_set_remove1)

lemma drawn_not_spent: "(h, g) \<in> set (tm_drawn s) \<Longrightarrow> \<not> spent s g"
  by (force simp: spent_def)


section \<open>Slots and calls\<close>

text \<open>A slot against the call of its generation, if that is still in progress.\<close>

fun slot_ok :: "spawn_call option \<Rightarrow> string \<Rightarrow> terminal_slot \<Rightarrow> bool" where
  "slot_ok None i (StartingSlot g h cr cu) \<longleftrightarrow> cu"
| "slot_ok (Some c) i (StartingSlot g h cr cu) \<longleftrightarrow> sc_session c = i \<and> sc_host c = h
     \<and> (if cu then sc_stage c = Registered \<or> sc_stage c = Aborting False \<or> sc_stage c = Killed False
        else sc_stage c = Reserved \<or> sc_stage c = Spawned)"
| "slot_ok None i (RunningSlot g h) \<longleftrightarrow> True"
| "slot_ok (Some c) i (RunningSlot g h) \<longleftrightarrow> sc_session c = i \<and> sc_host c = h
     \<and> (sc_stage c = Committed \<or> sc_stage c = Aborting True \<or> sc_stage c = Killed True)"

definition slots_ok :: "terminal_system \<Rightarrow> bool" where
  "slots_ok s \<longleftrightarrow> keys_ok (rs_active (tm_registry s)) \<and> keys_ok (rs_snapshots (tm_registry s))
     \<and> (\<forall>i sl. slot_at s i = Some sl \<longrightarrow> spent s (slot_generation sl) \<and> slot_ok (tm_calls s (slot_generation sl)) i sl)
     \<and> (\<forall>i j sl sl'. slot_at s i = Some sl \<longrightarrow> slot_at s j = Some sl' \<longrightarrow> slot_generation sl = slot_generation sl' \<longrightarrow> i = j)"

definition calls_ok :: "terminal_system \<Rightarrow> bool" where
  "calls_ok s \<longleftrightarrow> finite (dom (tm_calls s)) \<and> (\<forall>g c. tm_calls s g = Some c \<longrightarrow> spent s g)"

lemma calls_ok_step:
  assumes run: "terminal_step op s = Some s'" and r: "room s" and d: "drawn_ok s" and c: "calls_ok s"
  shows "calls_ok s'"
proof -
  have mono: "spent s g \<Longrightarrow> spent s' g" for g using spent_mono[OF run r] .
  have fresh: "spent s' g" if "(h, g) \<in> set (tm_drawn s)" "tm_drawn s' = remove1 (h, g) (tm_drawn s)"
      "tm_next_generation s' = tm_next_generation s" for h g
    using that d by (force simp: spent_def drawn_ok_def snd_remove1)
  show ?thesis
  proof (cases op)
    case (TReserveNew host title i g)
    with run c mono fresh show ?thesis
      by (auto simp: calls_ok_def split: if_splits prod.splits sum.splits)
        (auto simp: reserved_def Let_def split: sum.splits if_splits)
  next
    case (TReserveReconnect host i g)
    with run c mono fresh show ?thesis
      by (auto simp: calls_ok_def split: if_splits prod.splits sum.splits)
  qed (use run c mono in \<open>auto simp: calls_ok_def Let_def
      split: if_splits prod.splits sum.splits option.splits bool.splits spawn_stage.splits\<close>)
qed


lemma slots_okD:
  assumes "slots_ok s"
  shows "keys_ok (rs_active (tm_registry s))" "keys_ok (rs_snapshots (tm_registry s))"
    "slot_at s i = Some sl \<Longrightarrow> spent s (slot_generation sl)"
    "slot_at s i = Some sl \<Longrightarrow> slot_ok (tm_calls s (slot_generation sl)) i sl"
    "slot_at s i = Some sl \<Longrightarrow> slot_at s j = Some sl' \<Longrightarrow> slot_generation sl = slot_generation sl' \<Longrightarrow> i = j"
  using assms by (auto simp: slots_ok_def)

text \<open>Slots that stay at their session with their generation, and at most one fresh slot.\<close>

lemma slots_ok_intro:
  assumes s: "slots_ok s" and mono: "\<And>g. spent s g \<Longrightarrow> spent s' g"
    and keys: "keys_ok (rs_active (tm_registry s'))" "keys_ok (rs_snapshots (tm_registry s'))"
    and from_old: "\<And>i sl'. slot_at s' i = Some sl' \<Longrightarrow> slot_ok (tm_calls s' (slot_generation sl')) i sl'
      \<and> ((\<exists>sl. slot_at s i = Some sl \<and> slot_generation sl = slot_generation sl')
         \<or> (i = at \<and> \<not> spent s (slot_generation sl') \<and> spent s' (slot_generation sl')))"
  shows "slots_ok s'"
  unfolding slots_ok_def
proof (intro conjI keys allI impI)
  fix i sl' assume i: "slot_at s' i = Some sl'"
  then show "slot_ok (tm_calls s' (slot_generation sl')) i sl'" using from_old by blast
  show "spent s' (slot_generation sl')" using from_old[OF i] slots_okD(3)[OF s] mono by metis
  fix j sl'' assume j: "slot_at s' j = Some sl''" and g: "slot_generation sl' = slot_generation sl''"
  show "i = j"
    using from_old[OF i] from_old[OF j] slots_okD(3,5)[OF s] g by metis
qed

text \<open>A step that leaves the slots alone and changes only the call of one generation.\<close>

lemma slots_ok_calls:
  assumes s: "slots_ok s" and mono: "\<And>g. spent s g \<Longrightarrow> spent s' g" and "tm_registry s' = tm_registry s"
    and "\<And>k. k \<noteq> g \<Longrightarrow> tm_calls s' k = tm_calls s k"
    and "\<And>i sl. slot_at s i = Some sl \<Longrightarrow> slot_generation sl = g \<Longrightarrow> slot_ok (tm_calls s' g) i sl"
  shows "slots_ok s'"
proof (rule slots_ok_intro[OF s mono, where at = "[]"])
  fix i sl' assume i: "slot_at s' i = Some sl'"
  then show "slot_ok (tm_calls s' (slot_generation sl')) i sl'
      \<and> ((\<exists>sl. slot_at s i = Some sl \<and> slot_generation sl = slot_generation sl')
         \<or> (i = [] \<and> \<not> spent s (slot_generation sl') \<and> spent s' (slot_generation sl')))"
    using slots_okD(4)[OF s] assms(3-5) by (cases "slot_generation sl' = g") auto
qed (use slots_okD(1,2)[OF s] assms(3) in simp_all)

text \<open>A step that removes or rewrites the slot of one session, keeping its generation.\<close>

lemma slots_ok_slot:
  assumes s: "slots_ok s" and mono: "\<And>g. spent s g \<Longrightarrow> spent s' g"
    and keys: "keys_ok (rs_active (tm_registry s'))" "keys_ok (rs_snapshots (tm_registry s'))"
    and old: "slot_at s i = Some sl" "slot_generation sl = g"
    and others: "\<And>j. j \<noteq> i \<Longrightarrow> slot_at s' j = slot_at s j"
    and calls: "\<And>k. k \<noteq> g \<Longrightarrow> tm_calls s' k = tm_calls s k"
    and new: "\<And>sl'. slot_at s' i = Some sl' \<Longrightarrow> slot_generation sl' = g \<and> slot_ok (tm_calls s' g) i sl'"
  shows "slots_ok s'"
proof (rule slots_ok_intro[OF s mono keys])
  fix j sl' assume j: "slot_at s' j = Some sl'"
  show "slot_ok (tm_calls s' (slot_generation sl')) j sl'
      \<and> ((\<exists>sl. slot_at s j = Some sl \<and> slot_generation sl = slot_generation sl')
         \<or> (j = i \<and> \<not> spent s (slot_generation sl') \<and> spent s' (slot_generation sl')))"
  proof (cases "j = i")
    case True
    with new j old show ?thesis by auto
  next
    case False
    with others j have sj: "slot_at s j = Some sl'" by simp
    then have "slot_generation sl' \<noteq> g" using slots_okD(5)[OF s _ old(1)] old(2) False by metis
    with calls slots_okD(4)[OF s sj] sj show ?thesis by auto
  qed
qed

lemma calls_absent:
  assumes "slots_ok s" and "tm_calls s g = Some c" and "\<And>sl. slot_at s (sc_session c) = Some sl \<Longrightarrow> slot_generation sl \<noteq> g"
  shows "slot_at s i = Some sl \<Longrightarrow> slot_generation sl \<noteq> g"
proof
  assume sl: "slot_at s i = Some sl" "slot_generation sl = g"
  with slots_okD(4)[OF assms(1) sl(1)] assms(2) have "i = sc_session c" by (cases sl) auto
  with sl assms(3) show False by auto
qed

text \<open>A step of the call \<open>c\<close> of generation \<open>g\<close>: it may touch the slot only while that is its own.\<close>

lemma slots_ok_spawn:
  assumes s: "slots_ok s" and mono: "\<And>g. spent s g \<Longrightarrow> spent s' g"
    and keys: "keys_ok (rs_active (tm_registry s'))" "keys_ok (rs_snapshots (tm_registry s'))"
    and c: "tm_calls s g = Some c"
    and calls: "\<And>k. k \<noteq> g \<Longrightarrow> tm_calls s' k = tm_calls s k"
    and others: "\<And>j. j \<noteq> sc_session c \<Longrightarrow> slot_at s' j = slot_at s j"
    and stale: "\<forall>sl. slot_at s (sc_session c) = Some sl \<longrightarrow> slot_generation sl \<noteq> g \<Longrightarrow>
      slot_at s' (sc_session c) = slot_at s (sc_session c)"
    and own: "\<And>sl sl'. slot_at s (sc_session c) = Some sl \<Longrightarrow> slot_generation sl = g \<Longrightarrow>
      slot_ok (Some c) (sc_session c) sl \<Longrightarrow> slot_at s' (sc_session c) = Some sl' \<Longrightarrow>
      slot_generation sl' = g \<and> slot_ok (tm_calls s' g) (sc_session c) sl'"
  shows "slots_ok s'"
proof (cases "\<exists>sl. slot_at s (sc_session c) = Some sl \<and> slot_generation sl = g")
  case True
  then obtain sl where sl: "slot_at s (sc_session c) = Some sl" "slot_generation sl = g" by blast
  have "slot_ok (Some c) (sc_session c) sl" using slots_okD(4)[OF s sl(1)] sl(2) c by simp
  from own[OF sl this] show ?thesis
    by (intro slots_ok_slot[OF s mono keys sl]) (use others calls in auto)
next
  case False
  then have same: "slot_at s' j = slot_at s j" for j using stale others[of j] by (cases "j = sc_session c") auto
  show ?thesis
  proof (rule slots_ok_intro[OF s mono keys, where at = "[]"])
    fix i sl' assume i: "slot_at s' i = Some sl'"
    then have si: "slot_at s i = Some sl'" using same by simp
    have "slot_generation sl' \<noteq> g" by (rule calls_absent[OF s c _ si]) (use False in auto)
    with slots_okD(4)[OF s si] calls si show "slot_ok (tm_calls s' (slot_generation sl')) i sl'
      \<and> ((\<exists>sl. slot_at s i = Some sl \<and> slot_generation sl = slot_generation sl')
         \<or> (i = [] \<and> \<not> spent s (slot_generation sl') \<and> spent s' (slot_generation sl')))" by auto
  qed
qed

text \<open>A step that only removes slots.\<close>

lemma slots_ok_shrink:
  assumes s: "slots_ok s" and mono: "\<And>g. spent s g \<Longrightarrow> spent s' g"
    and keys: "keys_ok (rs_active (tm_registry s'))" "keys_ok (rs_snapshots (tm_registry s'))"
    and calls: "tm_calls s' = tm_calls s"
    and old: "\<And>i sl. slot_at s' i = Some sl \<Longrightarrow> slot_at s i = Some sl"
  shows "slots_ok s'"
  by (rule slots_ok_intro[OF s mono keys, where at = "[]"]) (use old slots_okD(4)[OF s] calls in auto)

lemma slots_ok_step:
  assumes run: "terminal_step op s = Some s'" and r: "room s" and d: "drawn_ok s" and s: "slots_ok s"
  shows "slots_ok s'"
proof -
  have mono: "spent s g \<Longrightarrow> spent s' g" for g using spent_mono[OF run r] .
  note k = slots_okD(1,2)[OF s]
  have fresh: "spent s' g" if "(h, g) \<in> set (tm_drawn s)" "tm_drawn s' = remove1 (h, g) (tm_drawn s)"
      "tm_next_generation s' = tm_next_generation s" for h g
    using that d by (force simp: spent_def drawn_ok_def snd_remove1)
  show ?thesis
  proof (cases op)
    case (TReserveNew host title i g)
    then have g: "(hp_id host, g) \<in> set (tm_drawn s)" using run by (auto split: if_splits)
    note ns = drawn_not_spent[OF g]
    have old: "slot_generation sl \<noteq> g" if "slot_at s j = Some sl" for j sl
      using slots_okD(3)[OF s that] ns by auto
    have sp: "spent s' g"
      by (rule fresh[OF g]) (use TReserveNew run g in \<open>auto split: if_splits prod.splits\<close>)
    show ?thesis
      using TReserveNew run g sp ns
      by (intro slots_ok_intro[OF s mono, where at = i])
        (auto simp: registry_defs map_of_put keys_ok_put k old slots_okD(4)[OF s] split: if_splits)
  next
    case (TReserveReconnect host i g)
    then have g: "(hp_id host, g) \<in> set (tm_drawn s)" using run by (auto split: if_splits)
    note ns = drawn_not_spent[OF g]
    have old: "slot_generation sl \<noteq> g" if "slot_at s j = Some sl" for j sl
      using slots_okD(3)[OF s that] ns by auto
    have sp: "spent s' g"
      by (rule fresh[OF g]) (use TReserveReconnect run g in \<open>auto split: if_splits prod.splits sum.splits\<close>)
    show ?thesis
      using TReserveReconnect run g sp ns
      by (intro slots_ok_intro[OF s mono, where at = i])
        (auto simp: registry_defs map_of_put keys_ok_put k old slots_okD(4)[OF s] split: if_splits option.splits)
  next
    case (TStopAll x)
    with run show ?thesis by (auto simp: slots_ok_def keys_ok_def)
  next
    case (TSpawnFailed g)
    then obtain c where c: "tm_calls s g = Some c" "sc_stage c = Reserved"
      and s': "tm_calls s' = (tm_calls s)(g := None)"
        "tm_registry s' = release_reservation (sc_session c) g (tm_registry s)"
      using run by (auto split: option.splits)
    show ?thesis
      by (rule slots_ok_spawn[OF s mono _ _ c(1)])
        (use s' k c(2) in \<open>auto simp: release_reservation_def remove_slot_def map_of_del keys_ok_del
          split: option.splits terminal_slot.splits if_splits\<close>)
  next
    case (TSpawned g)
    then obtain c where c: "tm_calls s g = Some c" "sc_stage c = Reserved"
      and s': "tm_calls s' = (tm_calls s)(g := Some (c\<lparr>sc_stage := Spawned\<rparr>))" "tm_registry s' = tm_registry s"
      using run by (auto split: option.splits)
    show ?thesis
      by (rule slots_ok_spawn[OF s mono _ _ c(1)]) (use s' k c(2) in \<open>auto elim: slot_ok.elims split: if_splits\<close>)
  next
    case (TRegister g)
    then obtain c okay where c: "tm_calls s g = Some c" "sc_stage c = Spawned"
      and reg: "okay = fst (register_spawn_cleanup (sc_session c) g (tm_registry s))"
        "tm_registry s' = snd (register_spawn_cleanup (sc_session c) g (tm_registry s))"
      and s': "tm_calls s' = (tm_calls s)(g := Some (c\<lparr>sc_stage := (if okay then Registered else Aborting False)\<rparr>))"
      using run by (auto split: option.splits prod.splits)
    show ?thesis
      by (rule slots_ok_spawn[OF s mono _ _ c(1)])
        (use reg s' k c(2) in \<open>auto simp: register_spawn_cleanup_def map_of_put keys_ok_put
          split: option.splits terminal_slot.splits if_splits\<close>)
  next
    case (TSetupFailed g)
    then obtain c where c: "tm_calls s g = Some c" "sc_stage c = Registered"
      and s': "tm_calls s' = (tm_calls s)(g := Some (c\<lparr>sc_stage := Aborting False\<rparr>))" "tm_registry s' = tm_registry s"
      using run by (auto split: option.splits)
    show ?thesis
      by (rule slots_ok_spawn[OF s mono _ _ c(1)]) (use s' k c(2) in \<open>auto elim: slot_ok.elims split: if_splits\<close>)
  next
    case (TCommit g)
    then obtain c okay where c: "tm_calls s g = Some c" "sc_stage c = Registered"
      and reg: "okay = fst (commit_running (sc_session c) g (sc_host c) (sc_snapshot c) (tm_registry s))"
        "tm_registry s' = snd (commit_running (sc_session c) g (sc_host c) (sc_snapshot c) (tm_registry s))"
      and s': "tm_calls s' = (tm_calls s)(g := Some (c\<lparr>sc_stage := (if okay then Committed else Aborting False)\<rparr>))"
      using run by (auto simp: Let_def split: option.splits prod.splits if_splits)
    show ?thesis
      by (rule slots_ok_spawn[OF s mono _ _ c(1)])
        (use reg s' k c(2) in \<open>auto simp: commit_running_def can_commit_def prune_terminal_records_def
          map_of_put keys_ok_put keys_ok_prune split: option.splits terminal_slot.splits if_splits\<close>)
  next
    case (TThreads g started)
    then obtain c where c: "tm_calls s g = Some c" "sc_stage c = Committed"
      and s': "tm_calls s' g = (if started then None else Some (c\<lparr>sc_stage := Aborting True\<rparr>))"
        "\<And>j. j \<noteq> g \<Longrightarrow> tm_calls s' j = tm_calls s j" "tm_registry s' = tm_registry s"
      using run by (auto split: option.splits if_splits)
    show ?thesis
      by (rule slots_ok_spawn[OF s mono _ _ c(1)]) (use s' k c(2) in \<open>auto elim!: slot_ok.elims split: if_splits\<close>)
  next
    case (TAbort g killed)
    then obtain c b where c: "tm_calls s g = Some c" "sc_stage c = Aborting b"
      and s': "tm_calls s' g = None \<or> tm_calls s' g = Some (c\<lparr>sc_stage := Killed b\<rparr>)"
        "\<And>j. j \<noteq> g \<Longrightarrow> tm_calls s' j = tm_calls s j" "tm_registry s' = tm_registry s"
      using run by (auto split: option.splits if_splits spawn_stage.splits)
    show ?thesis
      by (rule slots_ok_spawn[OF s mono _ _ c(1)]) (use s' k c(2) in \<open>auto elim!: slot_ok.elims split: if_splits\<close>)
  next
    case (TAbortFinish g)
    then obtain c b where c: "tm_calls s g = Some c" "sc_stage c = Killed b"
      and s': "tm_calls s' = (tm_calls s)(g := None)"
        "tm_registry s' = abort_finish (sc_session c) g b (tm_registry s)"
      using run by (auto split: option.splits spawn_stage.splits)
    show ?thesis
      by (rule slots_ok_spawn[OF s mono _ _ c(1)])
        (use s' k c(2) in \<open>auto simp: abort_finish_def remove_slot_def map_of_del keys_ok_del
          split: option.splits terminal_slot.splits if_splits\<close>)
  next
    case (TCloseBegin i)
    then have c: "tm_calls s' = tm_calls s" and reg: "tm_registry s' = snd (close_begin i (tm_registry s))"
      using run by (auto split: prod.splits sum.splits option.splits)
    show ?thesis
    proof (cases "slot_at s i")
      case None
      then show ?thesis
        using k c reg by (intro slots_ok_shrink[OF s mono _ _ c])
          (auto simp: close_begin_def keys_ok_del split: if_splits)
    next
      case (Some sl)
      show ?thesis
        using slots_okD(4)[OF s Some] k reg c Some
        by (intro slots_ok_slot[OF s mono _ _ Some refl]; cases sl; cases "tm_calls s (slot_generation sl)")
          (auto simp: close_begin_def map_of_put keys_ok_put)
    qed
  next
    case (TCloseFinish i g)
    then have c: "tm_calls s' = tm_calls s" and reg: "tm_registry s' = close_finish i g (tm_registry s)"
      using run by (auto split: if_splits)
    show ?thesis
      using k by (intro slots_ok_shrink[OF s mono _ _ c])
        (auto simp: reg close_finish_def remove_slot_def map_of_del keys_ok_del split: if_splits)
  next
    case (TFinalize g status)
    then obtain i where c: "tm_calls s' = tm_calls s" and reg: "tm_registry s' = snd (finalize_exit i g status (tm_registry s))"
      using run by (auto simp: case_prod_beta Let_def split: option.splits if_splits)
    show ?thesis
      using k by (intro slots_ok_shrink[OF s mono _ _ c])
        (auto simp: reg finalize_exit_def Let_def map_of_del keys_ok_del keys_ok_put split: if_splits option.splits)
  next
    case (TThreadError g m)
    then obtain i where c: "tm_calls s' = tm_calls s" and reg: "tm_registry s' = snd (record_terminal_error i g m (tm_registry s))"
      using run by (auto simp: case_prod_beta Let_def split: option.splits if_splits)
    show ?thesis
      using k by (intro slots_ok_shrink[OF s mono _ _ c])
        (auto simp: reg record_terminal_error_def Let_def keys_ok_put split: if_splits option.splits)
  qed (use run k mono slots_okD(3-5)[OF s] in \<open>auto simp: slots_ok_def Let_def split: if_splits prod.splits bool.splits\<close>)
qed


section \<open>Children\<close>

definition past_register :: "spawn_call option \<Rightarrow> bool" where
  "past_register c \<longleftrightarrow> (\<forall>x. c = Some x \<longrightarrow> sc_stage x \<noteq> Reserved \<and> sc_stage x \<noteq> Spawned)"

definition may_live :: "spawn_call option \<Rightarrow> bool" where
  "may_live c \<longleftrightarrow> (\<forall>x. c = Some x \<longrightarrow> sc_stage x \<noteq> Reserved \<and> (\<forall>b. sc_stage x \<noteq> Killed b))"

definition marks_ok :: "terminal_system \<Rightarrow> bool" where
  "marks_ok s \<longleftrightarrow>
     (\<forall>g \<in> tm_children s. spent s g \<and> may_live (tm_calls s g))
     \<and> (\<forall>p \<in> set (tm_closing s) \<union> set (tm_closed s). spent s (snd p) \<and> past_register (tm_calls s (snd p)))
     \<and> (\<forall>p \<in> set (tm_closed s). snd p \<notin> tm_children s)
     \<and> (\<forall>g i. tm_threads s g = Some i \<longrightarrow> spent s g \<and> tm_calls s g = None)"

lemma marks_okD:
  assumes "marks_ok s"
  shows "g \<in> tm_children s \<Longrightarrow> spent s g" "g \<in> tm_children s \<Longrightarrow> may_live (tm_calls s g)"
    "(i, g) \<in> set (tm_closing s) \<Longrightarrow> spent s g" "(i, g) \<in> set (tm_closed s) \<Longrightarrow> spent s g"
    "(i, g) \<in> set (tm_closing s) \<Longrightarrow> past_register (tm_calls s g)"
    "(i, g) \<in> set (tm_closed s) \<Longrightarrow> past_register (tm_calls s g)"
    "(i, g) \<in> set (tm_closed s) \<Longrightarrow> g \<notin> tm_children s"
    "tm_threads s g = Some i \<Longrightarrow> spent s g" "tm_threads s g = Some i \<Longrightarrow> tm_calls s g = None"
  using assms unfolding marks_ok_def by (metis snd_conv Un_iff)+

lemma marks_ok_frame:
  assumes "marks_ok s" and "\<And>g. spent s g \<Longrightarrow> spent s' g" and "tm_children s' \<subseteq> tm_children s"
    and "tm_calls s' = tm_calls s"
    and "\<And>p. p \<in> set (tm_closed s') \<Longrightarrow> p \<in> set (tm_closed s) \<or> (p \<in> set (tm_closing s) \<and> snd p \<notin> tm_children s')"
    and "\<And>g i. tm_threads s' g = Some i \<Longrightarrow> tm_threads s g = Some i"
    and "\<And>p. p \<in> set (tm_closing s') \<Longrightarrow> p \<in> set (tm_closing s) \<or> (spent s (snd p) \<and> past_register (tm_calls s (snd p)))"
  shows "marks_ok s'"
proof -
  note m = assms(1)[unfolded marks_ok_def]
  have "\<forall>g \<in> tm_children s'. spent s' g \<and> may_live (tm_calls s' g)" using m assms(2-4) by auto
  moreover have "\<forall>p \<in> set (tm_closing s') \<union> set (tm_closed s'). spent s' (snd p) \<and> past_register (tm_calls s' (snd p))"
    using m assms(2,4,5,7) by (metis Un_iff)
  moreover have "\<forall>p \<in> set (tm_closed s'). snd p \<notin> tm_children s'" using m assms(3,5) by (metis subsetD)
  moreover have "\<forall>g i. tm_threads s' g = Some i \<longrightarrow> spent s' g \<and> tm_calls s' g = None" using m assms(2,4,6) by metis
  ultimately show ?thesis unfolding marks_ok_def by blast
qed

text \<open>A step of one call in progress: it leaves the closing lists alone.\<close>

lemma marks_ok_call:
  assumes m: "marks_ok s" and c: "calls_ok s" and mono: "\<And>g. spent s g \<Longrightarrow> spent s' g"
    and call: "tm_calls s g = Some x"
    and same: "\<And>k. k \<noteq> g \<Longrightarrow> tm_calls s' k = tm_calls s k" "tm_closing s' = tm_closing s" "tm_closed s' = tm_closed s"
    and children: "tm_children s' - {g} = tm_children s - {g}" "g \<in> tm_children s' \<Longrightarrow> may_live (tm_calls s' g)"
      "g \<in> tm_children s' \<Longrightarrow> g \<in> tm_children s \<or> sc_stage x = Reserved"
    and past: "past_register (Some x) \<Longrightarrow> past_register (tm_calls s' g)"
    and threads: "tm_threads s' = tm_threads s \<or> (tm_calls s' g = None \<and> (\<exists>i. tm_threads s' = (tm_threads s)(g \<mapsto> i)))"
  shows "marks_ok s'"
proof -
  have sp: "spent s g" using c call by (auto simp: calls_ok_def)
  have nt: "tm_threads s g = None" using marks_okD(9)[OF m, of g] call by (cases "tm_threads s g") auto
  have ch: "k \<in> tm_children s' \<longleftrightarrow> k \<in> tm_children s" if "k \<noteq> g" for k using children(1) that by blast
  have pr: "past_register (tm_calls s' k)" if "past_register (tm_calls s k)" for k
    using past same(1)[of k] that call by (cases "k = g") auto
  show ?thesis
    unfolding marks_ok_def same(2,3)
  proof (intro conjI ballI allI impI)
    fix k assume k: "k \<in> tm_children s'"
    show "spent s' k" using k ch[of k] marks_okD(1)[OF m] mono sp by (cases "k = g") auto
    show "may_live (tm_calls s' k)" using k ch[of k] marks_okD(2)[OF m] same(1)[of k] children(2) by (cases "k = g") auto
  next
    fix p assume p: "p \<in> set (tm_closing s) \<union> set (tm_closed s)"
    then show "spent s' (snd p)" using marks_okD(3,4)[OF m, of "fst p" "snd p"] mono by auto
    show "past_register (tm_calls s' (snd p))" using p marks_okD(5,6)[OF m, of "fst p" "snd p"] pr by auto
  next
    fix p assume p: "p \<in> set (tm_closed s)"
    then have n: "snd p \<notin> tm_children s" "past_register (tm_calls s (snd p))"
      using marks_okD(6,7)[OF m, of "fst p" "snd p"] by auto
    show "snd p \<notin> tm_children s'"
    proof (cases "snd p = g")
      case True
      then have "sc_stage x \<noteq> Reserved" using n(2) call by (auto simp: past_register_def)
      with True n(1) children(3) show ?thesis by auto
    next
      case False
      with n(1) ch show ?thesis by auto
    qed
  next
    fix k i assume k: "tm_threads s' k = Some i"
    show "spent s' k" using k threads marks_okD(8)[OF m] mono sp by (auto split: if_splits)
    show "tm_calls s' k = None"
      using k threads marks_okD(9)[OF m] nt same(1)[of k] by (cases "k = g") (auto split: if_splits)
  qed
qed

lemma marks_ok_step:
  assumes run: "terminal_step op s = Some s'" and r: "room s" and d: "drawn_ok s" and c: "calls_ok s"
    and s: "slots_ok s" and m: "marks_ok s"
  shows "marks_ok s'"
proof -
  have mono: "spent s g \<Longrightarrow> spent s' g" for g using spent_mono[OF run r] .
  note D = marks_okD[OF m]
  show ?thesis
  proof (cases op)
    case (TReserveNew host title i g)
    then have g: "(hp_id host, g) \<in> set (tm_drawn s)" using run by (auto split: if_splits)
    have ne: "spent s k \<Longrightarrow> k \<noteq> g" for k using drawn_not_spent[OF g] by auto
    have calls: "tm_calls s' k = tm_calls s k" if "k \<noteq> g" for k
      using TReserveNew run that by (auto simp: reserved_def Let_def split: if_splits prod.splits sum.splits)
    have "tm_children s' = tm_children s" "tm_closing s' = tm_closing s" "tm_closed s' = tm_closed s" "tm_threads s' = tm_threads s"
      using TReserveNew run by (auto split: if_splits prod.splits)
    then show ?thesis using m mono calls ne unfolding marks_ok_def by (metis Un_iff)
  next
    case (TReserveReconnect host i g)
    then have g: "(hp_id host, g) \<in> set (tm_drawn s)" using run by (auto split: if_splits)
    have ne: "spent s k \<Longrightarrow> k \<noteq> g" for k using drawn_not_spent[OF g] by auto
    have calls: "tm_calls s' k = tm_calls s k" if "k \<noteq> g" for k
      using TReserveReconnect run that by (auto simp: reserved_def Let_def split: if_splits prod.splits sum.splits)
    have "tm_children s' = tm_children s" "tm_closing s' = tm_closing s" "tm_closed s' = tm_closed s" "tm_threads s' = tm_threads s"
      using TReserveReconnect run by (auto split: if_splits prod.splits sum.splits)
    then show ?thesis using m mono calls ne unfolding marks_ok_def by (metis Un_iff)
  next
    case (TSpawnFailed g)
    then obtain x where x: "tm_calls s g = Some x" "sc_stage x = Reserved" using run by (auto split: option.splits)
    show ?thesis by (rule marks_ok_call[OF m c mono x(1)])
      (use TSpawnFailed run x in \<open>auto simp: past_register_def may_live_def split: option.splits\<close>)
  next
    case (TSpawned g)
    then obtain x where x: "tm_calls s g = Some x" "sc_stage x = Reserved" using run by (auto split: option.splits)
    show ?thesis by (rule marks_ok_call[OF m c mono x(1)])
      (use TSpawned run x in \<open>auto simp: past_register_def may_live_def split: option.splits\<close>)
  next
    case (TRegister g)
    then obtain x where x: "tm_calls s g = Some x" "sc_stage x = Spawned" using run by (auto split: option.splits)
    show ?thesis by (rule marks_ok_call[OF m c mono x(1)])
      (use TRegister run x in \<open>auto simp: past_register_def may_live_def split: option.splits prod.splits if_splits\<close>)
  next
    case (TSetupFailed g)
    then obtain x where x: "tm_calls s g = Some x" "sc_stage x = Registered" using run by (auto split: option.splits)
    show ?thesis by (rule marks_ok_call[OF m c mono x(1)])
      (use TSetupFailed run x in \<open>auto simp: past_register_def may_live_def split: option.splits\<close>)
  next
    case (TCommit g)
    then obtain x where x: "tm_calls s g = Some x" "sc_stage x = Registered" using run by (auto split: option.splits)
    show ?thesis by (rule marks_ok_call[OF m c mono x(1)])
      (use TCommit run x in \<open>auto simp: past_register_def may_live_def Let_def split: option.splits prod.splits if_splits\<close>)
  next
    case (TThreads g b)
    then obtain x where x: "tm_calls s g = Some x" "sc_stage x = Committed" using run by (auto split: option.splits)
    show ?thesis by (rule marks_ok_call[OF m c mono x(1)])
      (use TThreads run x in \<open>auto simp: past_register_def may_live_def split: option.splits if_splits\<close>)
  next
    case (TAbort g b)
    then obtain x r where x: "tm_calls s g = Some x" "sc_stage x = Aborting r"
      using run by (auto split: option.splits spawn_stage.splits)
    show ?thesis by (rule marks_ok_call[OF m c mono x(1)])
      (use TAbort run x in \<open>auto simp: past_register_def may_live_def split: option.splits if_splits\<close>)
  next
    case (TAbortFinish g)
    then obtain x r where x: "tm_calls s g = Some x" "sc_stage x = Killed r"
      using run by (auto split: option.splits spawn_stage.splits)
    show ?thesis by (rule marks_ok_call[OF m c mono x(1)])
      (use TAbortFinish run x D(2)[of g] in \<open>auto simp: past_register_def may_live_def split: option.splits if_splits\<close>)
  next
    case (TCloseBegin i)
    show ?thesis
    proof (cases "slot_at s i")
      case None
      with TCloseBegin run show ?thesis
        by (intro marks_ok_frame[OF m mono]) (auto simp: close_begin_def split: if_splits)
    next
      case (Some sl)
      have "spent s (slot_generation sl)" using slots_okD(3)[OF s Some] .
      moreover have "past_register (tm_calls s (slot_generation sl))"
        if "case sl of StartingSlot _ _ _ cu \<Rightarrow> cu | RunningSlot _ _ \<Rightarrow> True"
        using slots_okD(4)[OF s Some] that
        by (cases "tm_calls s (slot_generation sl)"; cases sl) (auto simp: past_register_def)
      ultimately show ?thesis
        using TCloseBegin run Some
        by (intro marks_ok_frame[OF m mono]; cases sl) (auto simp: close_begin_def split: if_splits)
    qed
  next
    case (TCloseKill i g b)
    with run show ?thesis
      by (intro marks_ok_frame[OF m mono]) (auto simp: Let_def split: if_splits dest: notin_set_remove1)
  next
    case (TCloseFinish i g)
    with run show ?thesis
      by (intro marks_ok_frame[OF m mono]) (auto split: if_splits dest: notin_set_remove1)
  qed (rule marks_ok_frame[OF m mono]; insert run; auto simp: Let_def
      split: if_splits prod.splits bool.splits option.splits)+
qed

text \<open>While nobody stops everything, every live child has a slot through which it can be closed.\<close>

definition owned_children :: "terminal_system \<Rightarrow> bool" where
  "owned_children s \<longleftrightarrow> (\<forall>g \<in> tm_children s. \<exists>i sl. slot_at s i = Some sl \<and> slot_generation sl = g)
     \<and> (\<forall>g c. tm_calls s g = Some c \<longrightarrow> \<not> past_register (Some c) \<longrightarrow>
          (\<exists>sl. slot_at s (sc_session c) = Some sl \<and> slot_generation sl = g))"

lemma owned_frame:
  assumes o: "owned_children s" and children: "tm_children s' \<subseteq> tm_children s"
    and calls: "\<And>g c. tm_calls s' g = Some c \<Longrightarrow> \<not> past_register (Some c) \<Longrightarrow>
      \<exists>c0. tm_calls s g = Some c0 \<and> \<not> past_register (Some c0) \<and> sc_session c0 = sc_session c"
    and kept: "\<And>i sl. slot_at s i = Some sl \<Longrightarrow>
      slot_generation sl \<in> tm_children s' \<or> (\<exists>c. tm_calls s' (slot_generation sl) = Some c \<and> \<not> past_register (Some c)) \<Longrightarrow>
      \<exists>sl'. slot_at s' i = Some sl' \<and> slot_generation sl' = slot_generation sl"
  shows "owned_children s'"
  unfolding owned_children_def
proof (intro conjI ballI allI impI)
  fix g assume g: "g \<in> tm_children s'"
  then obtain i sl where sl: "slot_at s i = Some sl" "slot_generation sl = g"
    using o children unfolding owned_children_def by blast
  with kept[OF sl(1)] g show "\<exists>i sl. slot_at s' i = Some sl \<and> slot_generation sl = g" by blast
next
  fix g c assume c: "tm_calls s' g = Some c" "\<not> past_register (Some c)"
  from calls[OF this] obtain c0 where c0: "tm_calls s g = Some c0" "\<not> past_register (Some c0)" "sc_session c0 = sc_session c"
    by blast
  then obtain sl where "slot_at s (sc_session c) = Some sl" "slot_generation sl = g"
    using o unfolding owned_children_def by metis
  with kept[OF this(1)] c show "\<exists>sl. slot_at s' (sc_session c) = Some sl \<and> slot_generation sl = g" by metis
qed

text \<open>A step of the call \<open>c\<close> of generation \<open>g\<close>.\<close>

lemma owned_call:
  assumes o: "owned_children s" and c: "tm_calls s g = Some c" and children: "tm_children s' \<subseteq> tm_children s"
    and calls: "\<And>k. k \<noteq> g \<Longrightarrow> tm_calls s' k = tm_calls s k"
    and call: "tm_calls s' g = None \<or> (\<exists>c'. tm_calls s' g = Some c' \<and> sc_session c' = sc_session c
      \<and> (\<not> past_register (Some c') \<longrightarrow> \<not> past_register (Some c)))"
    and others: "\<And>j. j \<noteq> sc_session c \<Longrightarrow> slot_at s' j = slot_at s j"
    and own: "\<And>sl. slot_at s (sc_session c) = Some sl \<Longrightarrow>
      (\<exists>sl'. slot_at s' (sc_session c) = Some sl' \<and> slot_generation sl' = slot_generation sl)
      \<or> (slot_generation sl = g \<and> g \<notin> tm_children s' \<and> tm_calls s' g = None)"
  shows "owned_children s'"
proof (rule owned_frame[OF o children])
  fix k x assume x: "tm_calls s' k = Some x" "\<not> past_register (Some x)"
  show "\<exists>c0. tm_calls s k = Some c0 \<and> \<not> past_register (Some c0) \<and> sc_session c0 = sc_session x"
  proof (cases "k = g")
    case True
    with x call c show ?thesis by auto
  next
    case False
    with x calls show ?thesis by auto
  qed
next
  fix i sl assume sl: "slot_at s i = Some sl"
    and live: "slot_generation sl \<in> tm_children s' \<or> (\<exists>c. tm_calls s' (slot_generation sl) = Some c \<and> \<not> past_register (Some c))"
  show "\<exists>sl'. slot_at s' i = Some sl' \<and> slot_generation sl' = slot_generation sl"
  proof (cases "i = sc_session c")
    case True
    with own sl live show ?thesis by auto
  next
    case False
    with others sl show ?thesis by auto
  qed
qed

lemma owned_reserve:
  assumes o: "owned_children s" and children: "tm_children s' = tm_children s"
    and calls: "\<And>k. k \<noteq> g \<Longrightarrow> tm_calls s' k = tm_calls s k"
    and new: "tm_calls s' g = tm_calls s g \<or>
      (\<exists>c. tm_calls s' g = Some c \<and> slot_at s' (sc_session c) = Some (StartingSlot g h False False))"
    and kept: "\<And>i sl. slot_at s i = Some sl \<Longrightarrow> slot_at s' i = Some sl"
  shows "owned_children s'"
  unfolding owned_children_def
proof (intro conjI ballI allI impI)
  fix k assume "k \<in> tm_children s'"
  then show "\<exists>i sl. slot_at s' i = Some sl \<and> slot_generation sl = k"
    using o children kept unfolding owned_children_def by metis
next
  fix k c assume c: "tm_calls s' k = Some c" "\<not> past_register (Some c)"
  show "\<exists>sl. slot_at s' (sc_session c) = Some sl \<and> slot_generation sl = k"
  proof (cases "tm_calls s' k = tm_calls s k")
    case True
    with c o kept show ?thesis unfolding owned_children_def by metis
  next
    case False
    with calls new c show ?thesis by (metis option.inject terminal_slot.sel(1))
  qed
qed

lemma owned_step:
  assumes run: "terminal_step op s = Some s'" and "\<And>k. op \<noteq> TStopAll k"
    and s: "slots_ok s" and m: "marks_ok s" and o: "owned_children s"
  shows "owned_children s'"
proof (cases op)
  case (TReserveNew host title i g)
  with run show ?thesis
    by (intro owned_reserve[OF o, of _ g "hp_id host"])
      (auto simp: registry_defs map_of_put reserved_def split: if_splits)
next
  case (TReserveReconnect host i g)
  with run show ?thesis
    by (intro owned_reserve[OF o, of _ g "hp_id host"])
      (auto simp: registry_defs map_of_put reserved_def split: if_splits option.splits)
next
  case (TSpawned g)
  then obtain c where c: "tm_calls s g = Some c" "sc_stage c = Reserved"
    and s': "tm_calls s' = (tm_calls s)(g := Some (c\<lparr>sc_stage := Spawned\<rparr>))" "tm_registry s' = tm_registry s"
      "tm_children s' = insert g (tm_children s)"
    using run by (auto split: option.splits)
  have "\<exists>sl. slot_at s (sc_session c) = Some sl \<and> slot_generation sl = g"
    using o c by (auto simp: owned_children_def past_register_def)
  with o s' show ?thesis by (auto simp: owned_children_def past_register_def)
next
  case (TSpawnFailed g)
  then obtain c where c: "tm_calls s g = Some c" "sc_stage c = Reserved"
    and s': "tm_calls s' = (tm_calls s)(g := None)" "tm_children s' = tm_children s"
      "tm_registry s' = release_reservation (sc_session c) g (tm_registry s)"
    using run by (auto split: option.splits)
  have "g \<notin> tm_children s" using marks_okD(2)[OF m, of g] c by (auto simp: may_live_def)
  with s' show ?thesis
    by (intro owned_call[OF o c(1)]) (auto simp: release_reservation_def remove_slot_def map_of_del
      split: option.splits terminal_slot.splits if_splits)
next
  case (TRegister g)
  then obtain c okay where c: "tm_calls s g = Some c" "sc_stage c = Spawned"
    and "okay = fst (register_spawn_cleanup (sc_session c) g (tm_registry s))"
    and s': "tm_calls s' = (tm_calls s)(g := Some (c\<lparr>sc_stage := (if okay then Registered else Aborting False)\<rparr>))"
      "tm_children s' = tm_children s" "tm_registry s' = snd (register_spawn_cleanup (sc_session c) g (tm_registry s))"
    using run by (auto split: option.splits prod.splits)
  then show ?thesis
    by (intro owned_call[OF o c(1)]) (auto simp: register_spawn_cleanup_def map_of_put past_register_def
      split: option.splits terminal_slot.splits if_splits)
next
  case (TCommit g)
  then obtain c okay where c: "tm_calls s g = Some c" "sc_stage c = Registered"
    and "okay = fst (commit_running (sc_session c) g (sc_host c) (sc_snapshot c) (tm_registry s))"
    and s': "tm_calls s' = (tm_calls s)(g := Some (c\<lparr>sc_stage := (if okay then Committed else Aborting False)\<rparr>))"
      "tm_children s' = tm_children s"
      "tm_registry s' = snd (commit_running (sc_session c) g (sc_host c) (sc_snapshot c) (tm_registry s))"
    using run by (auto simp: Let_def split: option.splits prod.splits if_splits)
  then show ?thesis
    by (intro owned_call[OF o c(1)]) (auto simp: commit_running_def can_commit_def prune_terminal_records_def map_of_put
      past_register_def split: option.splits terminal_slot.splits if_splits)
next
  case (TAbortFinish g)
  then obtain c b where c: "tm_calls s g = Some c" "sc_stage c = Killed b"
    and s': "tm_calls s' = (tm_calls s)(g := None)" "tm_children s' = tm_children s"
      "tm_registry s' = abort_finish (sc_session c) g b (tm_registry s)"
    using run by (auto split: option.splits spawn_stage.splits)
  have "g \<notin> tm_children s" using marks_okD(2)[OF m, of g] c by (auto simp: may_live_def)
  with s' show ?thesis
    by (intro owned_call[OF o c(1)]) (auto simp: abort_finish_def remove_slot_def map_of_del
      split: option.splits terminal_slot.splits if_splits)
next
  case (TCloseBegin i)
  with run show ?thesis
    by (intro owned_frame[OF o]) (auto simp: close_begin_def map_of_put split: option.splits terminal_slot.splits if_splits)
next
  case (TCloseFinish i g)
  then have "g \<notin> tm_children s" "past_register (tm_calls s g)"
    using run marks_okD(6,7)[OF m, of i g] by (auto split: if_splits)
  with TCloseFinish run show ?thesis
    by (intro owned_frame[OF o]) (auto simp: close_finish_def is_current_generation_def remove_slot_def map_of_del
      past_register_def split: option.splits if_splits)
next
  case (TFinalize g status)
  then obtain i where i: "tm_threads s g = Some i" "g \<notin> tm_children s"
    and s': "tm_calls s' = tm_calls s" "tm_children s' = tm_children s"
      "tm_registry s' = snd (finalize_exit i g status (tm_registry s))"
    using run by (auto simp: case_prod_beta Let_def split: option.splits if_splits)
  have "tm_calls s g = None" using marks_okD(9)[OF m i(1)] .
  with i s' show ?thesis
    by (intro owned_frame[OF o]) (auto simp: finalize_exit_def is_running_generation_def Let_def map_of_del
      split: option.splits terminal_slot.splits if_splits)
next
  case (TThreadError g msg)
  then obtain i where s': "tm_calls s' = tm_calls s" "tm_children s' = tm_children s"
      "tm_registry s' = snd (record_terminal_error i g msg (tm_registry s))"
    using run by (auto simp: case_prod_beta Let_def split: option.splits if_splits)
  then show ?thesis
    by (intro owned_frame[OF o]) (auto simp: record_terminal_error_def Let_def split: option.splits if_splits)
next
  case (TStopAll k)
  with assms(2) show ?thesis by blast
qed (rule owned_frame[OF o]; insert run; auto simp: Let_def past_register_def
      split: if_splits prod.splits bool.splits option.splits spawn_stage.splits)+

end
