(* ===== verification/TerminalsSafe.thy ===== *)
theory TerminalsSafe
  imports TerminalsInv
begin

text \<open>
  More invariants of the terminal registry (bounds, revisions, leases) and its properties.
\<close>

section \<open>The steps that write records\<close>

lemma commitE:
  assumes "terminal_step (TCommit g) s = Some s'"
  obtains c where "tm_calls s g = Some c" "sc_stage c = Registered"
    "tm_registry s' = snd (commit_running (sc_session c) g (sc_host c) (sc_snapshot c) (tm_registry s))"
    "tm_calls s' = (tm_calls s)(g \<mapsto> c\<lparr>sc_stage :=
      (if fst (commit_running (sc_session c) g (sc_host c) (sc_snapshot c) (tm_registry s)) then Committed else Aborting False)\<rparr>)"
    "tm_published s' = tm_published s @
      (if fst (commit_running (sc_session c) g (sc_host c) (sc_snapshot c) (tm_registry s)) then [started_event c] else [])"
    "tm_barrier s' = tm_barrier s" "tm_entering s' = tm_entering s" "tm_drawn s' = tm_drawn s"
proof -
  from assms obtain c where c: "tm_calls s g = Some c" "sc_stage c = Registered" by (auto split: option.splits)
  show ?thesis
    by (rule that[OF c]) (use assms c in \<open>auto simp: case_prod_beta Let_def split: option.splits if_splits\<close>)
qed

lemma finalizeE:
  assumes "terminal_step (TFinalize g status) s = Some s'"
  obtains i where "tm_threads s g = Some i" "g \<notin> tm_children s"
    "tm_registry s' = snd (finalize_exit i g status (tm_registry s))" "tm_calls s' = tm_calls s"
    "tm_published s' = tm_published s @ (case fst (finalize_exit i g status (tm_registry s)) of None \<Rightarrow> [] | Some e \<Rightarrow> [e])"
proof -
  from assms obtain i where i: "tm_threads s g = Some i" "g \<notin> tm_children s" by (auto split: option.splits if_splits)
  show ?thesis
    by (rule that[OF i]) (use assms i in \<open>auto simp: case_prod_beta Let_def\<close>)
qed

lemma threadErrorE:
  assumes "terminal_step (TThreadError g m) s = Some s'"
  obtains i where "tm_threads s g = Some i"
    "tm_registry s' = snd (record_terminal_error i g m (tm_registry s))" "tm_calls s' = tm_calls s"
    "tm_published s' = tm_published s @ (case fst (record_terminal_error i g m (tm_registry s)) of None \<Rightarrow> [] | Some e \<Rightarrow> [e])"
proof -
  from assms obtain i where i: "tm_threads s g = Some i" by (auto split: option.splits)
  show ?thesis
    by (rule that[OF i]) (use assms i in \<open>auto simp: case_prod_beta Let_def\<close>)
qed

section \<open>Bounds\<close>

interpretation terminals: retention "terminals_over MAX_RETAINED_TERMINALS" "detached active" tr_generation
    MAX_ACTIVE_TERMINALS for active
proof
  fix es :: records and active :: slots
  assume over: "terminals_over MAX_RETAINED_TERMINALS es"
    and "count_where (\<lambda>p. \<not> detached active p) es \<le> MAX_ACTIVE_TERMINALS"
  show "\<exists>p \<in> set es. detached active p"
  proof (rule ccontr)
    assume "\<not> ?thesis"
    then have "filter (\<lambda>p. \<not> detached active p) es = es" by (simp add: filter_id_conv)
    with over show False
      using \<open>count_where (\<lambda>p. \<not> detached active p) es \<le> MAX_ACTIVE_TERMINALS\<close>
      by (simp add: count_where_def terminals_over_def MAX_RETAINED_TERMINALS_def MAX_ACTIVE_TERMINALS_def)
  qed
qed

text \<open>Records of active terminals are at most as many as the active terminals.\<close>

lemma attached_records:
  assumes "keys_ok es"
  shows "count_where (\<lambda>p. \<not> detached active p) es \<le> length active"
proof -
  let ?f = "filter (\<lambda>p. \<not> detached active p) es"
  have "distinct (map fst ?f)" using assms keys_ok_filter unfolding keys_ok_def by blast
  then have "length ?f = card (fst ` set ?f)" by (metis distinct_card length_map set_map)
  also have "\<dots> \<le> card (fst ` set active)"
    by (rule card_mono) (auto simp: detached_def map_of_eq_None_iff)
  also have "\<dots> \<le> length active" using card_image_le[of "set active" fst] card_length[of active] by simp
  finally show ?thesis by (simp add: count_where_def)
qed

definition bounds_ok :: "terminal_system \<Rightarrow> bool" where
  "bounds_ok s \<longleftrightarrow> length (rs_active (tm_registry s)) \<le> MAX_ACTIVE_TERMINALS
     \<and> length (rs_snapshots (tm_registry s)) \<le> MAX_RETAINED_TERMINALS"

lemma length_del: "length (del k es) \<le> length es"
  by (simp add: del_def)

lemma commit_bounds:
  assumes "length (rs_active r) \<le> MAX_ACTIVE_TERMINALS" "length (rs_snapshots r) \<le> MAX_RETAINED_TERMINALS"
    and "keys_ok (rs_snapshots r)"
  shows "length (rs_active (snd (commit_running i g h sn r))) \<le> MAX_ACTIVE_TERMINALS
    \<and> length (rs_snapshots (snd (commit_running i g h sn r))) \<le> MAX_RETAINED_TERMINALS"
proof (cases "can_commit g (map_of (rs_active r) i)")
  case True
  let ?active = "put i (RunningSlot g h) (rs_active r)"
  let ?es = "put i \<lparr>tr_generation = g, tr_snapshot = sn\<rparr> (rs_snapshots r)"
  obtain sl where "map_of (rs_active r) i = Some sl" using True by (auto simp: can_commit_def split: option.splits)
  then have len: "length ?active \<le> MAX_ACTIVE_TERMINALS" using assms(1) by (simp add: length_put)
  then have "count_where (\<lambda>p. \<not> detached ?active p) ?es \<le> MAX_ACTIVE_TERMINALS"
    using attached_records[OF keys_ok_put[OF assms(3)]] by (rule le_trans[rotated])
  from terminals.prune_within[OF this] len True show ?thesis
    by (simp add: commit_running_def prune_terminal_records_def terminals_over_def)
qed (use assms in \<open>simp add: commit_running_def\<close>)

lemma bounds_step:
  assumes run: "terminal_step op s = Some s'" and s: "slots_ok s" and b: "bounds_ok s"
  shows "bounds_ok s'"
proof (cases op)
  case (TCommit g)
  with run have "terminal_step (TCommit g) s = Some s'" by simp
  then show ?thesis
    by (rule commitE) (use commit_bounds[of "tm_registry s"] b slots_okD(2)[OF s] in \<open>simp add: bounds_ok_def\<close>)
next
  case (TReserveNew host title i g)
  with run b show ?thesis by (auto simp: bounds_ok_def registry_defs length_put split: if_splits)
next
  case (TReserveReconnect host i g)
  with run b show ?thesis by (auto simp: bounds_ok_def registry_defs length_put split: if_splits option.splits)
next
  case (TSpawnFailed g)
  with run b show ?thesis
    by (auto simp: bounds_ok_def release_reservation_def remove_slot_def intro: le_trans[OF length_del]
      split: if_splits option.splits terminal_slot.splits)
next
  case (TRegister g)
  with run b show ?thesis
    by (auto simp: bounds_ok_def register_spawn_cleanup_def length_put split: if_splits option.splits terminal_slot.splits)
next
  case (TAbortFinish g)
  with run b show ?thesis
    by (auto simp: bounds_ok_def abort_finish_def remove_slot_def intro: le_trans[OF length_del]
      split: if_splits option.splits terminal_slot.splits spawn_stage.splits)
next
  case (TCloseBegin i)
  with run b show ?thesis
    by (auto simp: bounds_ok_def close_begin_def length_put intro: le_trans[OF length_del]
      split: if_splits option.splits terminal_slot.splits)
next
  case (TCloseFinish i g)
  with run b show ?thesis
    by (auto simp: bounds_ok_def close_finish_def remove_slot_def intro: le_trans[OF length_del] split: if_splits)
next
  case (TFinalize g status)
  then obtain i where "tm_registry s' = snd (finalize_exit i g status (tm_registry s))"
    using run by (auto simp: case_prod_beta Let_def split: option.splits if_splits)
  with b show ?thesis
    by (auto simp: bounds_ok_def finalize_exit_def Let_def length_put intro: le_trans[OF length_del]
      split: option.splits if_splits)
next
  case (TThreadError g msg)
  then obtain i where "tm_registry s' = snd (record_terminal_error i g msg (tm_registry s))"
    using run by (auto simp: case_prod_beta Let_def split: option.splits if_splits)
  with b show ?thesis
    by (auto simp: bounds_ok_def record_terminal_error_def Let_def length_put split: option.splits if_splits)
qed (insert run b, auto simp: bounds_ok_def Let_def
      split: if_splits prod.splits bool.splits option.splits spawn_stage.splits)


section \<open>Revisions\<close>

text \<open>
  A call that may still commit will write the successor of the revision on record.  Between the
  reservation and the commit nobody else writes the record of a starting terminal.
\<close>

definition may_commit :: "spawn_call \<Rightarrow> bool" where
  "may_commit c \<longleftrightarrow> sc_stage c = Reserved \<or> sc_stage c = Spawned \<or> sc_stage c = Registered"

definition revisions_ok :: "terminal_system \<Rightarrow> bool" where
  "revisions_ok s \<longleftrightarrow> (\<forall>g c sl r. tm_calls s g = Some c \<longrightarrow> may_commit c \<longrightarrow> slot_at s (sc_session c) = Some sl \<longrightarrow>
     slot_generation sl = g \<longrightarrow> record_at s (sc_session c) = Some r \<longrightarrow>
     tsn_revision (sc_snapshot c) = saturating_add64 (tsn_revision (tr_snapshot r)) 1)"

lemma revisions_okD:
  "revisions_ok s \<Longrightarrow> tm_calls s g = Some c \<Longrightarrow> may_commit c \<Longrightarrow> slot_at s (sc_session c) = Some sl \<Longrightarrow>
    slot_generation sl = g \<Longrightarrow> record_at s (sc_session c) = Some r \<Longrightarrow>
    tsn_revision (sc_snapshot c) = saturating_add64 (tsn_revision (tr_snapshot r)) 1"
  by (auto simp: revisions_ok_def)

text \<open>Steps after which every call that may commit, its slot and its record were there before.\<close>

lemma revisions_frame:
  assumes ok: "revisions_ok s"
    and calls: "\<And>g c. tm_calls s' g = Some c \<Longrightarrow> may_commit c \<Longrightarrow>
      (\<exists>c0. tm_calls s g = Some c0 \<and> may_commit c0 \<and> sc_session c0 = sc_session c \<and> sc_snapshot c0 = sc_snapshot c)"
    and slots: "\<And>i sl. slot_at s' i = Some sl \<Longrightarrow> \<exists>sl0. slot_at s i = Some sl0 \<and> slot_generation sl0 = slot_generation sl"
    and records: "\<And>i r sl c. record_at s' i = Some r \<Longrightarrow> slot_at s' i = Some sl \<Longrightarrow>
      tm_calls s' (slot_generation sl) = Some c \<Longrightarrow> may_commit c \<Longrightarrow> record_at s i = Some r"
  shows "revisions_ok s'"
  unfolding revisions_ok_def
proof (intro allI impI)
  fix g c sl r assume c: "tm_calls s' g = Some c" "may_commit c" and sl: "slot_at s' (sc_session c) = Some sl"
    "slot_generation sl = g" and r: "record_at s' (sc_session c) = Some r"
  obtain c0 where c0: "tm_calls s g = Some c0" "may_commit c0" "sc_session c0 = sc_session c" "sc_snapshot c0 = sc_snapshot c"
    using calls[OF c] by blast
  obtain sl0 where sl0: "slot_at s (sc_session c) = Some sl0" "slot_generation sl0 = g"
    using slots[OF sl(1)] sl(2) by blast
  have "record_at s (sc_session c) = Some r" using records[OF r sl(1)] sl(2) c by blast
  from revisions_okD[OF ok c0(1,2)] sl0 this c0(3,4)
  show "tsn_revision (sc_snapshot c) = saturating_add64 (tsn_revision (tr_snapshot r)) 1" by auto
qed

text \<open>A reservation.\<close>

lemma revisions_reserve:
  assumes ok: "revisions_ok s" and s: "slots_ok s" and fresh: "\<not> spent s g"
    and calls: "\<And>k. k \<noteq> g \<Longrightarrow> tm_calls s' k = tm_calls s k"
    and slots: "\<And>j. j \<noteq> i \<Longrightarrow> slot_at s' j = slot_at s j"
    and slot: "slot_at s' i = slot_at s i \<or> (\<exists>h. slot_at s' i = Some (StartingSlot g h False False))"
    and records: "rs_snapshots (tm_registry s') = rs_snapshots (tm_registry s)"
    and new: "\<And>c r. tm_calls s' g = Some c \<Longrightarrow> tm_calls s g = Some c \<or> (record_at s (sc_session c) = Some r \<longrightarrow>
      tsn_revision (sc_snapshot c) = saturating_add64 (tsn_revision (tr_snapshot r)) 1)"
    and co: "calls_ok s"
  shows "revisions_ok s'"
  unfolding revisions_ok_def records
proof (intro allI impI)
  fix k c sl r assume c: "tm_calls s' k = Some c" "may_commit c" and sl: "slot_at s' (sc_session c) = Some sl"
    "slot_generation sl = k" and r: "record_at s (sc_session c) = Some r"
  show "tsn_revision (sc_snapshot c) = saturating_add64 (tsn_revision (tr_snapshot r)) 1"
  proof (cases "k = g")
    case True
    have "tm_calls s g \<noteq> Some c" using co fresh by (auto simp: calls_ok_def)
    with new[of c r] c r True show ?thesis by auto
  next
    case False
    have "slot_at s (sc_session c) = Some sl" using slots[of "sc_session c"] slot sl False by (cases "sc_session c = i") auto
    from revisions_okD[OF ok _ c(2) this sl(2) r] calls[OF False] c(1) show ?thesis by simp
  qed
qed

lemma next_revision: "next_terminal_snapshot_revision sn = saturating_add64 (tsn_revision sn) 1"
  using saturating_add64_pos[of "tsn_revision sn"] by (simp add: next_terminal_snapshot_revision_def max_absorb1 Suc_leI)

lemma map_of_prune_Some:
  assumes "keys_ok es" and "map_of (prune f p a es) i = Some r"
  shows "map_of es i = Some r"
  using prune_map_of[OF assms] .

lemma revisions_step:
  assumes run: "terminal_step op s = Some s'" and r: "room s" and d: "drawn_ok s" and co: "calls_ok s"
    and s: "slots_ok s" and ok: "revisions_ok s"
  shows "revisions_ok s'"
proof (cases op)
  case (TReserveNew host title i g)
  then have g: "\<not> spent s g" using run drawn_not_spent by (auto split: if_splits)
  show ?thesis
    by (rule revisions_reserve[OF ok s g, where i = i])
      (use TReserveNew run co in \<open>auto simp: registry_defs map_of_put reserved_def split: if_splits\<close>)
next
  case (TReserveReconnect host i g)
  then have g: "\<not> spent s g" using run drawn_not_spent by (auto split: if_splits)
  show ?thesis
    by (rule revisions_reserve[OF ok s g, where i = i])
      (use TReserveReconnect run co in \<open>auto simp: registry_defs map_of_put reserved_def next_revision
        spawn_snapshot_def split: if_splits option.splits\<close>)
next
  case (TSpawnFailed g)
  with run show ?thesis
    by (intro revisions_frame[OF ok]) (auto simp: release_reservation_def remove_slot_def map_of_del
      split: if_splits option.splits terminal_slot.splits)
next
  case (TRegister g)
  then obtain c where c: "tm_calls s g = Some c" "sc_stage c = Spawned" using run by (auto split: option.splits)
  with TRegister run show ?thesis
    by (intro revisions_frame[OF ok]) (auto simp: register_spawn_cleanup_def map_of_put may_commit_def case_prod_beta
      split: if_splits option.splits terminal_slot.splits)
next
  case (TCommit g)
  with run have "terminal_step (TCommit g) s = Some s'" by simp
  then show ?thesis
  proof (rule commitE)
    fix c assume c: "tm_calls s g = Some c" "sc_stage c = Registered"
      and reg: "tm_registry s' = snd (commit_running (sc_session c) g (sc_host c) (sc_snapshot c) (tm_registry s))"
      and calls: "tm_calls s' = (tm_calls s)(g \<mapsto> c\<lparr>sc_stage :=
      (if fst (commit_running (sc_session c) g (sc_host c) (sc_snapshot c) (tm_registry s)) then Committed else Aborting False)\<rparr>)"
    have pr: "map_of (prune f p a (put i x (rs_snapshots (tm_registry s)))) j = Some y \<Longrightarrow> j \<noteq> i \<Longrightarrow>
        record_at s j = Some y" for f p a i x j y
      using map_of_prune_Some[OF keys_ok_put[OF slots_okD(2)[OF s]], of f p a i x j y] by (simp add: map_of_put)
    show ?thesis
      by (rule revisions_frame[OF ok])
        (auto simp: reg calls commit_running_def can_commit_def prune_terminal_records_def map_of_put may_commit_def
          split: if_splits option.splits terminal_slot.splits dest: pr)
  qed
next
  case (TAbortFinish g)
  with run show ?thesis
    by (intro revisions_frame[OF ok]) (auto simp: abort_finish_def remove_slot_def map_of_del
      split: if_splits option.splits terminal_slot.splits spawn_stage.splits)
next
  case (TCloseBegin i)
  with run show ?thesis
    by (intro revisions_frame[OF ok]) (auto simp: close_begin_def map_of_put map_of_del
      split: if_splits option.splits terminal_slot.splits)
next
  case (TCloseFinish i g)
  with run show ?thesis
    by (intro revisions_frame[OF ok]) (auto simp: close_finish_def remove_slot_def map_of_del split: if_splits)
next
  case (TFinalize g status)
  with run have "terminal_step (TFinalize g status) s = Some s'" by simp
  then show ?thesis
    by (rule finalizeE; intro revisions_frame[OF ok])
      (auto simp: finalize_exit_def Let_def map_of_put map_of_del split: if_splits option.splits)
next
  case (TThreadError g m)
  with run have "terminal_step (TThreadError g m) s = Some s'" by simp
  then show ?thesis
  proof (rule threadErrorE)
    fix i assume i: "tm_registry s' = snd (record_terminal_error i g m (tm_registry s))" "tm_calls s' = tm_calls s"
    have no: "\<not> may_commit c" if "slot_at s j = Some (RunningSlot k h)" "tm_calls s k = Some c" for j k h c
      using slots_okD(4)[OF s that(1)] that(2) by (auto simp: may_commit_def)
    show ?thesis
      by (rule revisions_frame[OF ok])
        (auto simp: i record_terminal_error_def is_running_generation_def Let_def map_of_put no
          split: if_splits option.splits terminal_slot.splits)
  qed
qed (insert run, auto simp: may_commit_def Let_def intro!: revisions_frame[OF ok]
      split: if_splits prod.splits bool.splits option.splits spawn_stage.splits)


text \<open>Every change of a record is the next revision and is published.\<close>

definition record_change_ok :: "terminal_system \<Rightarrow> terminal_system \<Rightarrow> bool" where
  "record_change_ok s s' \<longleftrightarrow> (\<forall>i r'. record_at s' i = Some r' \<longrightarrow> record_at s i = Some r'
     \<or> ((\<exists>e. tm_published s' = tm_published s @ [e] \<and> te_snapshot e = Some (tr_snapshot r'))
        \<and> (\<forall>r. record_at s i = Some r \<longrightarrow>
             tsn_revision (tr_snapshot r') = saturating_add64 (tsn_revision (tr_snapshot r)) 1)))"

lemma record_change_none: "(\<And>i r'. record_at s' i = Some r' \<Longrightarrow> record_at s i = Some r') \<Longrightarrow> record_change_ok s s'"
  by (simp add: record_change_ok_def)

lemma exited_revision:
  "exited_snapshot status sn = sn \<or> tsn_revision (exited_snapshot status sn) = saturating_add64 (tsn_revision sn) 1"
  by (auto simp: exited_snapshot_def revise_terminal_snapshot_def Let_def)

lemma record_step:
  assumes run: "terminal_step op s = Some s'" and s: "slots_ok s" and ok: "revisions_ok s"
  shows "record_change_ok s s'"
proof (cases op)
  case (TReserveNew host title i g)
  with run show ?thesis by (intro record_change_none) (auto simp: registry_defs split: if_splits)
next
  case (TReserveReconnect host i g)
  with run show ?thesis by (intro record_change_none) (auto simp: registry_defs split: if_splits option.splits)
next
  case (TSpawnFailed g)
  with run show ?thesis
    by (intro record_change_none) (auto simp: release_reservation_def remove_slot_def map_of_del
      split: if_splits option.splits terminal_slot.splits)
next
  case (TRegister g)
  with run show ?thesis
    by (intro record_change_none) (auto simp: register_spawn_cleanup_def case_prod_beta
      split: if_splits option.splits terminal_slot.splits)
next
  case (TCommit g)
  with run have "terminal_step (TCommit g) s = Some s'" by simp
  then show ?thesis
  proof (rule commitE)
    fix c assume c: "tm_calls s g = Some c" "sc_stage c = Registered"
      and reg: "tm_registry s' = snd (commit_running (sc_session c) g (sc_host c) (sc_snapshot c) (tm_registry s))"
      and pub: "tm_published s' = tm_published s @
        (if fst (commit_running (sc_session c) g (sc_host c) (sc_snapshot c) (tm_registry s)) then [started_event c] else [])"
    show ?thesis
    proof (cases "can_commit g (slot_at s (sc_session c))")
      case False
      then show ?thesis by (intro record_change_none) (simp add: reg commit_running_def)
    next
      case True
      then obtain sl where sl: "slot_at s (sc_session c) = Some sl" "slot_generation sl = g"
        by (auto simp: can_commit_def split: option.splits terminal_slot.splits)
      have pub': "tm_published s' = tm_published s @ [started_event c]" using True by (simp add: pub commit_running_def)
      have rec: "map_of (put (sc_session c) \<lparr>tr_generation = g, tr_snapshot = sc_snapshot c\<rparr> (rs_snapshots (tm_registry s))) i = Some r'"
        if "record_at s' i = Some r'" for i r'
        using that True map_of_prune_Some[OF keys_ok_put[OF slots_okD(2)[OF s]]]
        by (simp add: reg commit_running_def prune_terminal_records_def)
      have rev: "tsn_revision (sc_snapshot c) = saturating_add64 (tsn_revision (tr_snapshot r)) 1"
        if "record_at s (sc_session c) = Some r" for r
        using revisions_okD[OF ok c(1) _ sl that] c(2) by (simp add: may_commit_def)
      show ?thesis
        unfolding record_change_ok_def
      proof (intro allI impI)
        fix i r' assume "record_at s' i = Some r'"
        from rec[OF this] rev pub' show "record_at s i = Some r'
          \<or> ((\<exists>e. tm_published s' = tm_published s @ [e] \<and> te_snapshot e = Some (tr_snapshot r'))
            \<and> (\<forall>r. record_at s i = Some r \<longrightarrow>
               tsn_revision (tr_snapshot r') = saturating_add64 (tsn_revision (tr_snapshot r)) 1))"
          by (auto simp: map_of_put started_event_def split: if_splits)
      qed
    qed
  qed
next
  case (TAbortFinish g)
  with run show ?thesis
    by (intro record_change_none) (auto simp: abort_finish_def remove_slot_def map_of_del
      split: if_splits option.splits terminal_slot.splits spawn_stage.splits)
next
  case (TCloseBegin i)
  with run show ?thesis
    by (intro record_change_none) (auto simp: close_begin_def map_of_del
      split: if_splits option.splits terminal_slot.splits)
next
  case (TCloseFinish i g)
  with run show ?thesis
    by (intro record_change_none) (auto simp: close_finish_def remove_slot_def map_of_del split: if_splits)
next
  case (TFinalize g status)
  with run have "terminal_step (TFinalize g status) s = Some s'" by simp
  then show ?thesis
  proof (rule finalizeE)
    fix i assume i: "tm_registry s' = snd (finalize_exit i g status (tm_registry s))"
      "tm_published s' = tm_published s @ (case fst (finalize_exit i g status (tm_registry s)) of None \<Rightarrow> [] | Some e \<Rightarrow> [e])"
    show ?thesis
      using exited_revision[of status] unfolding record_change_ok_def
      by (auto simp: i finalize_exit_def Let_def map_of_put split: if_splits option.splits) (metis terminal_record.surjective terminal_record.update_convs(2))+
  qed
next
  case (TThreadError g m)
  with run have "terminal_step (TThreadError g m) s = Some s'" by simp
  then show ?thesis
  proof (rule threadErrorE)
    fix i assume i: "tm_registry s' = snd (record_terminal_error i g m (tm_registry s))"
      "tm_published s' = tm_published s @ (case fst (record_terminal_error i g m (tm_registry s)) of None \<Rightarrow> [] | Some e \<Rightarrow> [e])"
    show ?thesis
      unfolding record_change_ok_def
      by (auto simp: i record_terminal_error_def revise_terminal_snapshot_def Let_def map_of_put split: if_splits option.splits)
  qed
qed (insert run, auto simp: Let_def intro!: record_change_none
      split: if_splits prod.splits bool.splits option.splits spawn_stage.splits)


section \<open>Leases\<close>

definition calls_of :: "string \<Rightarrow> (nat \<rightharpoonup> spawn_call) \<Rightarrow> nat set" where
  "calls_of h calls = {g. \<exists>c. calls g = Some c \<and> sc_host c = h}"

definition lease_count :: "terminal_system \<Rightarrow> string \<Rightarrow> nat" where
  "lease_count s h = count_list (tm_entering s) h + count_list (map fst (tm_drawn s)) h + card (calls_of h (tm_calls s))"

definition leases_ok :: "terminal_system \<Rightarrow> bool" where
  "leases_ok s \<longleftrightarrow> (\<forall>h. active_of (tm_barrier s) h = lease_count s h)"

lemma calls_of_subset: "calls_of h calls \<subseteq> dom calls"
  by (auto simp: calls_of_def)

lemma calls_of_new: "calls g = None \<Longrightarrow>
    calls_of h (calls(g \<mapsto> c)) = (if sc_host c = h then insert g (calls_of h calls) else calls_of h calls)"
  by (auto simp: calls_of_def)

lemma calls_of_end: "calls g = Some c \<Longrightarrow> calls_of h (calls(g := None)) = calls_of h calls - {g}"
  by (auto simp: calls_of_def)

lemma calls_of_same: "calls g = Some c \<Longrightarrow> sc_host c' = sc_host c \<Longrightarrow> calls_of h (calls(g \<mapsto> c')) = calls_of h calls"
  by (auto simp: calls_of_def)

lemma count_fst_remove1: "p \<in> set xs \<Longrightarrow>
    count_list (map fst (remove1 p xs)) h = (if h = fst p then count_list (map fst xs) h - 1 else count_list (map fst xs) h)"
proof (induction xs)
  case (Cons z xs)
  have nz: "count_list (map fst xs) (fst p) \<noteq> 0" if "p \<in> set xs"
    using imageI[OF that, of fst] unfolding count_list_0_iff by simp
  show ?case
  proof (cases "z = p")
    case False
    with Cons have "p \<in> set xs" by simp
    from nz[OF this] Cons.IH[OF this] False show ?thesis by (cases "h = fst p") simp_all
  qed simp
qed simp

lemma lease_end_call:
  assumes l: "leases_ok s" and fin: "finite (dom (tm_calls s))" and c: "tm_calls s g = Some c"
    and s': "tm_barrier s' = end_lease (sc_host c) (tm_barrier s)" "tm_entering s' = tm_entering s"
      "tm_drawn s' = tm_drawn s" "tm_calls s' = (tm_calls s)(g := None)"
  shows "leases_ok s'"
proof -
  have f: "finite (calls_of h (tm_calls s))" for h using finite_subset[OF calls_of_subset fin] .
  have g: "g \<in> calls_of h (tm_calls s) \<longleftrightarrow> h = sc_host c" for h using c by (auto simp: calls_of_def)
  have calls: "calls_of h (tm_calls s') = calls_of h (tm_calls s) - {g}" for h
    unfolding s'(4) using c by (rule calls_of_end)
  have other: "card (calls_of h (tm_calls s')) = card (calls_of h (tm_calls s))" if "h \<noteq> sc_host c" for h
    using that g[of h] calls[of h] by simp
  have own: "card (calls_of (sc_host c) (tm_calls s)) = Suc (card (calls_of (sc_host c) (tm_calls s')))"
    unfolding calls using f g by (metis card.remove)
  show ?thesis
    unfolding leases_ok_def
  proof
    fix h
    have h: "active_of (tm_barrier s) h = lease_count s h" using l by (simp add: leases_ok_def)
    show "active_of (tm_barrier s') h = lease_count s' h"
    proof (cases "h = sc_host c")
      case True
      then show ?thesis using h own by (simp add: lease_count_def s'(1-3) hb.end_active)
    next
      case False
      then show ?thesis using h other by (simp add: lease_count_def s'(1-3) hb.end_active)
    qed
  qed
qed

lemma lease_call:
  assumes l: "leases_ok s" and c: "tm_calls s g = Some c" and c': "sc_host c' = sc_host c"
    and s': "tm_barrier s' = tm_barrier s" "tm_entering s' = tm_entering s" "tm_drawn s' = tm_drawn s"
      "tm_calls s' = (tm_calls s)(g \<mapsto> c')"
  shows "leases_ok s'"
  using l s' calls_of_same[of "tm_calls s", OF c c'] by (simp add: leases_ok_def lease_count_def)

lemma lease_frame:
  assumes "leases_ok s" and "tm_barrier s' = tm_barrier s" "tm_entering s' = tm_entering s" "tm_drawn s' = tm_drawn s"
    "tm_calls s' = tm_calls s"
  shows "leases_ok s'"
  using assms by (simp add: leases_ok_def lease_count_def)

lemma lease_reserve:
  assumes l: "leases_ok s" and fin: "finite (dom (tm_calls s))" and g: "(hp_id host, g) \<in> set (tm_drawn s)"
    and none: "tm_calls s g = None"
  shows "leases_ok (reserved host title i g r registry s)"
proof (cases r)
  case (Inl er)
  have "0 < count_list (map fst (tm_drawn s)) (hp_id host)"
    using g by (metis count_list_0_iff fst_conv gr0I image_eqI list.set_map)
  with l Inl count_fst_remove1[OF g] show ?thesis
    by (auto simp: leases_ok_def lease_count_def hb.end_active)
next
  case (Inr n)
  have f: "finite (calls_of h (tm_calls s))" for h using finite_subset[OF calls_of_subset fin] .
  have "g \<notin> calls_of h (tm_calls s)" for h using none by (simp add: calls_of_def)
  moreover have "0 < count_list (map fst (tm_drawn s)) (hp_id host)"
    using g by (metis count_list_0_iff fst_conv gr0I image_eqI list.set_map)
  ultimately show ?thesis
    using l Inr count_fst_remove1[OF g] f
    by (auto simp: leases_ok_def lease_count_def calls_of_new[of "tm_calls s", OF none])
qed

lemma leases_step:
  assumes run: "terminal_step op s = Some s'" and r: "room s" and co: "calls_ok s" and l: "leases_ok s"
  shows "leases_ok s'"
proof -
  have fin: "finite (dom (tm_calls s))" using co by (simp add: calls_ok_def)
  have undrawn: "tm_calls s g = None" if "(h, g) \<in> set (tm_drawn s)" for h g
    using co drawn_not_spent[OF that] by (cases "tm_calls s g") (auto simp: calls_ok_def)
  show ?thesis
  proof (cases op)
    case (TBegin h)
    obtain okay b where b: "begin_lease h (tm_barrier s) = (okay, b)" by fastforce
    have "card (calls_of h (tm_calls s)) \<le> card (dom (tm_calls s))" by (rule card_mono[OF fin calls_of_subset])
    then have "lease_count s h < u64_max"
      using r count_le_length[of "tm_entering s" h] count_le_length[of "map fst (tm_drawn s)" h]
      by (simp add: room_def lease_count_def)
    moreover have "okay \<longleftrightarrow> \<not> is_retired h (tm_barrier s)" using hb.begin_granted[of h "tm_barrier s"] b by simp
    moreover have "active_of b k = (if h = k \<and> \<not> is_retired h (tm_barrier s)
        then saturating_add64 (active_of (tm_barrier s) h) 1 else active_of (tm_barrier s) k)" for k
      using hb.begin_active[of h "tm_barrier s" k] b by simp
    ultimately show ?thesis using TBegin run b l by (auto simp: leases_ok_def lease_count_def split: bool.splits)
  next
    case (TFail h)
    then have "0 < count_list (tm_entering s) h" using run by (metis count_list_0_iff gr0I option.distinct(1) terminal_step.simps(2))
    with TFail run l show ?thesis
      by (auto simp: leases_ok_def lease_count_def hb.end_active count_list_remove1 split: if_splits)
  next
    case (TDraw h)
    then have "h \<in> set (tm_entering s)" using run by (auto split: if_splits)
    then have "0 < count_list (tm_entering s) h" by (metis count_list_0_iff gr0I)
    with TDraw run l show ?thesis
      by (auto simp: leases_ok_def lease_count_def count_list_remove1 split: if_splits)
  next
    case (TReserveNew host title i g)
    with run lease_reserve[OF l fin _ undrawn] show ?thesis by (auto split: if_splits prod.splits)
  next
    case (TReserveReconnect host i g)
    with run lease_reserve[OF l fin _ undrawn] show ?thesis by (auto split: if_splits prod.splits sum.splits)
  next
    case (TSpawnFailed g)
    with run show ?thesis by (auto split: option.splits intro!: lease_end_call[OF l fin])
  next
    case (TAbortFinish g)
    with run show ?thesis by (auto split: option.splits spawn_stage.splits intro!: lease_end_call[OF l fin])
  next
    case (TAbort g k)
    with run obtain c b where c: "tm_calls s g = Some c" "sc_stage c = Aborting b"
      and s': "s' = (if \<not> is_current_generation (sc_session c) g (tm_registry s) \<or> \<not> k then end_call g (sc_host c) s
        else set_stage g (Killed b) (s\<lparr>tm_children := tm_children s - {g}\<rparr>))"
      by (auto split: option.splits spawn_stage.splits)
    show ?thesis
    proof (cases "\<not> is_current_generation (sc_session c) g (tm_registry s) \<or> \<not> k")
      case True
      then show ?thesis using s' by (intro lease_end_call[OF l fin c(1)]) simp_all
    next
      case False
      then show ?thesis using s' c(1)
        by (intro lease_call[OF l c(1), of "c\<lparr>sc_stage := Killed b\<rparr>"]) simp_all
    qed
  next
    case (TThreads g k)
    with run obtain c where c: "tm_calls s g = Some c"
      and s': "s' = (if k then end_call g (sc_host c) (s\<lparr>tm_threads := (tm_threads s)(g \<mapsto> sc_session c)\<rparr>)
          else set_stage g (Aborting True) s)"
      by (auto split: option.splits)
    show ?thesis
    proof (cases k)
      case True
      then show ?thesis using s' by (intro lease_end_call[OF l fin c(1)]) simp_all
    next
      case False
      then show ?thesis using s' c(1)
        by (intro lease_call[OF l c(1), of "c\<lparr>sc_stage := Aborting True\<rparr>"]) simp_all
    qed
  next
    case (TCommit g)
    with run have "terminal_step (TCommit g) s = Some s'" by simp
    then show ?thesis by (rule commitE) (rule lease_call[OF l]; simp)
  qed (insert run l, auto simp: Let_def hb.retire_active hb.restore_active leases_ok_def lease_count_def calls_of_same
      split: if_splits prod.splits bool.splits option.splits sum.splits)
qed

section \<open>The whole invariant\<close>

definition terminals_inv :: "terminal_system \<Rightarrow> bool" where
  "terminals_inv s \<longleftrightarrow> drawn_ok s \<and> calls_ok s \<and> slots_ok s \<and> marks_ok s \<and> bounds_ok s \<and> revisions_ok s \<and> leases_ok s"

lemma terminals_invD:
  assumes "terminals_inv s"
  shows "drawn_ok s" "calls_ok s" "slots_ok s" "marks_ok s" "bounds_ok s" "revisions_ok s" "leases_ok s"
  using assms by (simp_all add: terminals_inv_def)

lemma terminals_inv_step:
  assumes "terminals_inv s" and "room s" and "terminal_step op s = Some s'"
  shows "terminals_inv s'"
proof -
  note D = terminals_invD[OF assms(1)] and run = assms(3) and r = assms(2)
  show ?thesis
    unfolding terminals_inv_def
    using drawn_ok_step[OF run r D(1)] calls_ok_step[OF run r D(1,2)] slots_ok_step[OF run r D(1,3)]
      marks_ok_step[OF run r D(1-4)] bounds_step[OF run D(3,5)] revisions_step[OF run r D(1-3,6)]
      leases_step[OF run r D(2,7)]
    by blast
qed

lemma new_terminals_inv: "terminals_inv new_terminals"
  by (simp add: terminals_inv_def drawn_ok_def calls_ok_def slots_ok_def marks_ok_def bounds_ok_def revisions_ok_def
      leases_ok_def lease_count_def calls_of_def new_terminals_def keys_ok_def active_of_def or_default_def
      default_host_operation_state_def)

lemma terminals_reach_inv: "terminals_reach allowed s \<Longrightarrow> terminals_inv s"
  by (induction rule: terminals_reach.induct) (auto intro: new_terminals_inv terminals_inv_step)

end
