(* ===== verification/TerminalProps.thy ===== *)
theory TerminalProps
  imports TerminalsSafe TermInput
begin

text \<open>
  Histories of the terminal registry, its properties, and three histories that end where the code
  does not mean to end.
\<close>

section \<open>Histories\<close>

fun run_terminals :: "terminal_op list \<Rightarrow> terminal_system \<Rightarrow> terminal_system option" where
  "run_terminals [] s = Some s"
| "run_terminals (op # ops) s = (case terminal_step op s of None \<Rightarrow> None | Some s' \<Rightarrow> run_terminals ops s')"

definition load :: "terminal_system \<Rightarrow> nat" where
  "load s = length (tm_entering s) + length (tm_drawn s) + card (dom (tm_calls s))"

lemma card_insert_Suc: "card (insert x A) \<le> Suc (card A)"
  by (cases "finite A") (auto simp: card_insert_if)

lemma card_dom_new: "card (dom (m(g \<mapsto> c))) \<le> Suc (card (dom m))"
  by (simp add: card_insert_Suc)

lemma card_dom_end: "card (dom (m(g := None))) \<le> card (dom m)"
  by (simp add: card_Diff1_le)

lemma length_remove1_le: "length (remove1 x xs) \<le> length xs"
  by (simp add: length_remove1)

lemma step_load:
  assumes "terminal_step op s = Some s'"
  shows "load s' \<le> Suc (load s) \<and> tm_next_generation s' \<le> Suc (tm_next_generation s)"
proof -
  have remove: "Suc (length (remove1 x xs)) = length xs" if "x \<in> set xs" for x and xs :: "'a list"
    using length_pos_if_in_set[of x xs] that by (simp add: length_remove1)
  have reserve: "load (reserved host title i g r registry s) \<le> Suc (load s)
      \<and> tm_next_generation (reserved host title i g r registry s) \<le> Suc (tm_next_generation s)" for host title i g r registry
    using card_dom_new[of "tm_calls s" g] length_remove1_le[of "(hp_id host, g)" "tm_drawn s"]
    by (cases r) (auto simp: load_def intro: add_mono le_SucI)
  show ?thesis
  proof (cases op)
    case (TReserveNew host title i g)
    with assms reserve show ?thesis by (auto split: if_splits prod.splits)
  next
    case (TReserveReconnect host i g)
    with assms reserve show ?thesis by (auto split: if_splits prod.splits sum.splits)
  next
    case (TDraw h)
    then have "h \<in> set (tm_entering s)" using assms by (auto split: if_splits)
    with TDraw assms remove[of h "tm_entering s"] show ?thesis
      by (auto simp: load_def next_generation_def)
  next
    case (TFail h)
    then show ?thesis using assms length_remove1_le[of h "tm_entering s"]
      by (auto simp: load_def split: if_splits)
  next
    case (TCommit g)
    with assms have "terminal_step (TCommit g) s = Some s'" by simp
    then show ?thesis
      by (rule commitE) (use assms TCommit in \<open>auto simp: load_def card_insert_Suc case_prod_beta Let_def split: option.splits if_splits\<close>)
  qed (insert assms card_dom_end[of "tm_calls s"], auto simp: load_def Let_def card_insert_Suc
      intro: le_SucI split: if_splits prod.splits bool.splits option.splits sum.splits spawn_stage.splits)
qed

lemma run_terminals_reach:
  assumes "terminals_reach allowed s" and "run_terminals ops s = Some s'" and "list_all allowed ops"
    and "tm_next_generation s + load s + 2 * length ops + 1 < u64_max"
  shows "terminals_reach allowed s'"
  using assms
proof (induction ops arbitrary: s)
  case (Cons op ops)
  then obtain s1 where s1: "terminal_step op s = Some s1" "run_terminals ops s1 = Some s'"
    by (auto simp del: terminal_step.simps split: option.splits)
  have "room s" using Cons.prems(4) by (simp add: room_def load_def)
  then have "terminals_reach allowed s1"
    using terminals_reach.step[OF Cons.prems(1) _ _ s1(1)] Cons.prems(3) by simp
  moreover have "tm_next_generation s1 + load s1 + 2 * length ops + 1 < u64_max"
    using step_load[OF s1(1)] Cons.prems(4) by simp
  ultimately show ?case using Cons.IH[OF _ s1(2)] Cons.prems(3) by simp
qed simp

lemma run_load:
  "run_terminals ops s = Some s' \<Longrightarrow>
    load s' \<le> load s + length ops \<and> tm_next_generation s' \<le> tm_next_generation s + length ops"
proof (induction ops arbitrary: s)
  case (Cons op ops)
  then obtain s1 where s1: "terminal_step op s = Some s1" "run_terminals ops s1 = Some s'"
    by (auto simp del: terminal_step.simps split: option.splits)
  show ?case using step_load[OF s1(1)] Cons.IH[OF s1(2)] by auto
qed simp

definition sample_profile :: host_profile where
  "sample_profile = \<lparr>hp_schema_version = 1, hp_id = ''h'', hp_alias = ''box'', hp_hostname = ''box'', hp_port = 22,
     hp_username = ''me'', hp_auth_method = Agent, hp_identity_file = None, hp_proxy_jump = None,
     hp_default_workspace = ''/w'', hp_groups = [], hp_advanced = default_ssh_advanced_options,
     hp_monitor_enabled = True, hp_created_at = 1, hp_updated_at = 1\<rparr>"

text \<open>A terminal is started; its shell exits with an error; it is reconnected.\<close>

definition start_run :: "string \<Rightarrow> nat \<Rightarrow> terminal_op list" where
  "start_run i g = [TBegin ''h'', TDraw ''h'', TReserveNew sample_profile None i g, TSpawned g, TRegister g,
     TCommit g, TThreads g True]"

definition reconnect_run :: "string \<Rightarrow> nat \<Rightarrow> terminal_op list" where
  "reconnect_run i g = [TBegin ''h'', TDraw ''h'', TReserveReconnect sample_profile i g, TSpawned g, TRegister g,
     TCommit g, TThreads g True]"

definition exit_run :: "nat \<Rightarrow> terminal_op list" where
  "exit_run g = [TChildExit g, TFinalize g \<lparr>ps_exit_code = Some 1, ps_signal = None\<rparr>]"

definition ran :: "terminal_op list \<Rightarrow> terminal_system" where
  "ran ops = the (run_terminals ops new_terminals)"

lemma ran_reach:
  assumes "\<not> Option.is_none (run_terminals ops new_terminals)" and "list_all allowed ops" and "length ops < 1000"
  shows "terminals_reach allowed (ran ops)"
proof -
  obtain s where s: "run_terminals ops new_terminals = Some s" using assms(1) by (auto simp: Option.is_none_def)
  have "terminals_reach allowed s"
    using run_terminals_reach[OF terminals_reach.start s assms(2)] assms(3)
    by (simp add: new_terminals_def load_def u64_max_def)
  then show ?thesis by (simp add: ran_def s)
qed

section \<open>Properties\<close>

lemma owned_reach:
  assumes "terminals_reach (\<lambda>op. \<forall>k. op \<noteq> TStopAll k) s"
  shows "owned_children s"
  using assms
proof (induction rule: terminals_reach.induct)
  case start
  show ?case by (simp add: owned_children_def new_terminals_def)
next
  case (step s op s')
  from terminals_reach_inv[OF step.hyps(1)] have "slots_ok s" "marks_ok s" by (simp_all add: terminals_inv_def)
  with owned_step[OF step.hyps(4)] step show ?case by blast
qed

text \<open>
  C16: no shell is ever lost: as long as nobody stops everything, each live child process belongs to
  exactly one registered session, under its own generation, so \<open>close\<close> can reach it.
\<close>

theorem live_child_has_one_session:
  assumes "terminals_reach (\<lambda>op. \<forall>k. op \<noteq> TStopAll k) s" and "g \<in> tm_children s"
  shows "\<exists>!i. is_current_generation i g (tm_registry s)"
proof -
  have "slots_ok s" using terminals_reach_inv[OF assms(1)] by (simp add: terminals_inv_def)
  from slots_okD(5)[OF this] have one: "is_current_generation i g (tm_registry s) \<Longrightarrow>
      is_current_generation j g (tm_registry s) \<Longrightarrow> i = j" for i j
    by (auto simp: is_current_generation_def split: option.splits)
  obtain i sl where "slot_at s i = Some sl" "slot_generation sl = g"
    using owned_reach[OF assms(1)] assms(2) by (auto simp: owned_children_def)
  then have "is_current_generation i g (tm_registry s)" by (simp add: is_current_generation_def)
  with one show ?thesis by blast
qed

lemma live_child_has_one_session_witness:
  "\<exists>!i. is_current_generation i 2 (tm_registry (ran (start_run ''t'' 1 @ exit_run 1 @ reconnect_run ''t'' 2)))"
proof -
  let ?ops = "start_run ''t'' 1 @ exit_run 1 @ reconnect_run ''t'' 2"
  have "\<not> Option.is_none (run_terminals ?ops new_terminals)" by code_simp
  then have "terminals_reach (\<lambda>op. \<forall>k. op \<noteq> TStopAll k) (ran ?ops)"
    by (rule ran_reach) (simp_all add: start_run_def exit_run_def reconnect_run_def)
  moreover have "2 \<in> tm_children (ran ?ops)" unfolding ran_def by code_simp
  ultimately show ?thesis by (rule live_child_has_one_session)
qed

text \<open>
  C17: every change of a terminal's record is announced: a step leaves each record as it is, or
  publishes one event that carries the new snapshot, whose revision is the successor of the one it
  replaces, so a consumer that keeps the largest revision of a session keeps its current state.
\<close>

theorem record_changes_are_announced:
  assumes "terminals_reach allowed s" and "terminal_step op s = Some s'"
    and "map_of (rs_snapshots (tm_registry s')) i = Some r'"
  shows "map_of (rs_snapshots (tm_registry s)) i = Some r'
    \<or> ((\<exists>e. tm_published s' = tm_published s @ [e] \<and> te_snapshot e = Some (tr_snapshot r'))
      \<and> (\<forall>r. map_of (rs_snapshots (tm_registry s)) i = Some r \<longrightarrow>
           tsn_revision (tr_snapshot r') = saturating_add64 (tsn_revision (tr_snapshot r)) 1))"
proof -
  have "slots_ok s" "revisions_ok s" using terminals_reach_inv[OF assms(1)] by (simp_all add: terminals_inv_def)
  from record_step[OF assms(2) this] assms(3) show ?thesis by (simp add: record_change_ok_def)
qed

definition commit_ready :: "terminal_op list" where
  "commit_ready = start_run ''t'' 1 @ exit_run 1 @
     [TBegin ''h'', TDraw ''h'', TReserveReconnect sample_profile ''t'' 2, TSpawned 2, TRegister 2]"

lemma record_changes_are_announced_witness:
  "\<exists>s' r'. terminal_step (TCommit 2) (ran commit_ready) = Some s' \<and> map_of (rs_snapshots (tm_registry s')) ''t'' = Some r'
    \<and> tsn_revision (tr_snapshot r') = 3 \<and> (\<exists>e. tm_published s' = tm_published (ran commit_ready) @ [e])"
proof -
  have "\<not> Option.is_none (run_terminals commit_ready new_terminals)" by code_simp
  then have r: "terminals_reach (\<lambda>_. True) (ran commit_ready)"
    by (rule ran_reach) (simp_all add: list_all_iff commit_ready_def start_run_def exit_run_def)
  have "map_option (\<lambda>s. map_option (\<lambda>r. tsn_revision (tr_snapshot r)) (map_of (rs_snapshots (tm_registry s)) ''t''))
      (terminal_step (TCommit 2) (ran commit_ready)) = Some (Some 3)"
    "map_option (\<lambda>r. tsn_revision (tr_snapshot r)) (map_of (rs_snapshots (tm_registry (ran commit_ready))) ''t'') = Some 2"
    unfolding ran_def by code_simp+
  then obtain s' r' r0 where s': "terminal_step (TCommit 2) (ran commit_ready) = Some s'"
    "map_of (rs_snapshots (tm_registry s')) ''t'' = Some r'" "tsn_revision (tr_snapshot r') = 3"
    "map_of (rs_snapshots (tm_registry (ran commit_ready))) ''t'' = Some r0" "tsn_revision (tr_snapshot r0) = 2"
    by (auto simp del: terminal_step.simps)
  then have "r0 \<noteq> r'" by auto
  with record_changes_are_announced[OF r s'(1,2)] s' show ?thesis by auto
qed

text \<open>
  The registry never holds more than 32 active terminals nor more than 256 snapshots, one of
  each per session identifier, whatever the threads do.
\<close>

theorem terminals_are_bounded:
  assumes "terminals_reach allowed s"
  shows "length (rs_active (tm_registry s)) \<le> 32 \<and> length (list_terminals (tm_registry s)) \<le> 256
    \<and> distinct (map fst (rs_active (tm_registry s))) \<and> distinct (map fst (rs_snapshots (tm_registry s)))"
  using terminals_reach_inv[OF assms]
  by (simp add: terminals_inv_def bounds_ok_def MAX_ACTIVE_TERMINALS_def MAX_RETAINED_TERMINALS_def list_terminals_def
      slots_ok_def keys_ok_def)

lemma terminals_are_bounded_witness:
  "length (rs_active (tm_registry (ran (start_run ''t'' 1 @ start_run ''u'' 2)))) \<le> 32"
proof -
  have "\<not> Option.is_none (run_terminals (start_run ''t'' 1 @ start_run ''u'' 2) new_terminals)" by code_simp
  then have "terminals_reach (\<lambda>_. True) (ran (start_run ''t'' 1 @ start_run ''u'' 2))"
    by (rule ran_reach) (simp_all add: list_all_iff start_run_def)
  from terminals_are_bounded[OF this] show ?thesis by blast
qed

section \<open>Retirement of a host\<close>

definition slots_for :: "string \<Rightarrow> terminal_system \<Rightarrow> (string \<times> nat) set" where
  "slots_for h s = {(i, slot_generation sl) |i sl. slot_at s i = Some sl \<and> slot_host sl = h}"

lemma slots_for_mono:
  assumes "\<And>i sl'. slot_at s' i = Some sl' \<Longrightarrow> slot_host sl' = h \<Longrightarrow>
    \<exists>sl. slot_at s i = Some sl \<and> slot_host sl = h \<and> slot_generation sl = slot_generation sl'"
  shows "slots_for h s' \<subseteq> slots_for h s"
  using assms by (force simp: slots_for_def)

text \<open>Without a lease there is neither a drawn generation nor a call of the host.\<close>

lemma idle_host:
  assumes "leases_ok s" and "calls_ok s" and "active_of (tm_barrier s) h = 0"
  shows "h \<notin> set (tm_entering s)" "h \<notin> fst ` set (tm_drawn s)" "tm_calls s g = Some c \<Longrightarrow> sc_host c \<noteq> h"
proof -
  have n: "count_list (tm_entering s) h = 0" "count_list (map fst (tm_drawn s)) h = 0" "card (calls_of h (tm_calls s)) = 0"
    using assms(1,3) by (simp_all add: leases_ok_def lease_count_def)
  show "h \<notin> set (tm_entering s)" "h \<notin> fst ` set (tm_drawn s)" using n(1,2) by (simp_all add: count_list_0_iff)
  have "finite (calls_of h (tm_calls s))"
    using finite_subset[OF calls_of_subset] assms(2) by (simp add: calls_ok_def)
  with n(3) have "calls_of h (tm_calls s) = {}" by simp
  then show "tm_calls s g = Some c \<Longrightarrow> sc_host c \<noteq> h" by (auto simp: calls_of_def)
qed

lemma reserve_keeps_slots:
  assumes "hp_id host \<noteq> h" and "\<And>i sl. map_of (rs_active registry) i = Some sl \<Longrightarrow> slot_host sl = h \<Longrightarrow> slot_at s i = Some sl"
  shows "slots_for h (reserved host title i g r registry s) \<subseteq> slots_for h s"
  using assms by (intro slots_for_mono) auto

lemma retired_slots_step:
  assumes run: "terminal_step op s = Some s'" and "leases_ok s" and "calls_ok s" and "active_of (tm_barrier s) h = 0"
  shows "slots_for h s' \<subseteq> slots_for h s"
proof -
  note idle = idle_host[OF assms(2-4)]
  show ?thesis
  proof (cases op)
    case (TReserveNew host title i g)
    have h: "hp_id host \<noteq> h" using idle(2) TReserveNew run by (force split: if_splits)
    obtain r registry where r: "reserve_new i (hp_id host) g (tm_registry s) = (r, registry)" by fastforce
    then have "s' = reserved host title i g (map_sum id (\<lambda>_. 1) r) registry s"
      using TReserveNew run by (auto split: if_splits)
    moreover have "map_of (rs_active registry) k = Some sl \<Longrightarrow> slot_host sl = h \<Longrightarrow> slot_at s k = Some sl" for k sl
      using r h by (auto simp: reserve_new_def reserve_slot_def map_of_put split: if_splits)
    ultimately show ?thesis using reserve_keeps_slots[OF h] by simp
  next
    case (TReserveReconnect host i g)
    have h: "hp_id host \<noteq> h" using idle(2) TReserveReconnect run by (force split: if_splits)
    obtain r registry where r: "reserve_reconnect i (hp_id host) g (tm_registry s) = (r, registry)" by fastforce
    then obtain title r' where "s' = reserved host title i g r' registry s"
      using TReserveReconnect run by (auto split: if_splits sum.splits)
    moreover have "map_of (rs_active registry) k = Some sl \<Longrightarrow> slot_host sl = h \<Longrightarrow> slot_at s k = Some sl" for k sl
      using r h by (auto simp: reserve_reconnect_def reserve_slot_def map_of_put Let_def split: if_splits option.splits)
    ultimately show ?thesis using reserve_keeps_slots[OF h] by simp
  next
    case (TCommit g)
    with run have "terminal_step (TCommit g) s = Some s'" by simp
    then show ?thesis
    proof (rule commitE)
      fix c assume c: "tm_calls s g = Some c"
        "tm_registry s' = snd (commit_running (sc_session c) g (sc_host c) (sc_snapshot c) (tm_registry s))"
      show ?thesis
        by (rule slots_for_mono) (use idle(3)[OF c(1)] in \<open>auto simp: c(2) commit_running_def prune_terminal_records_def
          map_of_put split: if_splits\<close>)
    qed
  qed (rule slots_for_mono; insert run; auto simp: registry_defs map_of_put map_of_del
      split: if_splits prod.splits bool.splits option.splits sum.splits spawn_stage.splits terminal_slot.splits)+
qed

lemma retired_barrier_step:
  assumes run: "terminal_step op s = Some s'" and "op \<noteq> TRestore h" and "is_retired h (tm_barrier s)"
  shows "is_retired h (tm_barrier s') \<and> active_of (tm_barrier s') h \<le> active_of (tm_barrier s) h"
proof -
  have still: "is_retired h (end_lease k (tm_barrier s)) \<and> active_of (end_lease k (tm_barrier s)) h \<le> active_of (tm_barrier s) h" for k
    using assms(3) by (simp add: hb.end_active hb.end_retired)
  then have reserve: "is_retired h (tm_barrier (reserved host title i g r registry s))
      \<and> active_of (tm_barrier (reserved host title i g r registry s)) h \<le> active_of (tm_barrier s) h" for host title i g r registry
    using assms(3) by (cases r) (simp_all add: reserved_def Let_def)
  show ?thesis
  proof (cases op)
    case (TBegin k)
    with run have "tm_barrier s' = snd (begin_lease k (tm_barrier s))" by (auto split: prod.splits bool.splits)
    then show ?thesis
      using assms(3) by (auto simp: hb.begin_retired hb.begin_active)
  next
    case (TRetire k)
    with run assms(3) show ?thesis by (auto simp: hb.retire_active hb.retire_retired)
  next
    case (TRestore k)
    with run assms(2,3) show ?thesis by (auto simp: hb.restore_active hb.restore_retired)
  next
    case (TCommit g)
    with run have "terminal_step (TCommit g) s = Some s'" by simp
    then show ?thesis by (rule commitE) (use assms(3) in simp)
  qed (insert run assms(3) still reserve, auto simp: Let_def
      split: if_splits prod.splits bool.splits option.splits sum.splits spawn_stage.splits)
qed

lemma terminals_retired_run:
  assumes "terminals_reach (\<lambda>_. True) s" and "run_terminals ops s = Some s'"
    and "is_retired h (tm_barrier s)" and "active_of (tm_barrier s) h = 0" and "TRestore h \<notin> set ops"
    and "tm_next_generation s + load s + 2 * length ops + 1 < u64_max"
  shows "slots_for h s' \<subseteq> slots_for h s"
  using assms
proof (induction ops arbitrary: s)
  case (Cons op ops)
  then obtain s1 where s1: "terminal_step op s = Some s1" "run_terminals ops s1 = Some s'"
    by (auto simp del: terminal_step.simps split: option.splits)
  have inv: "leases_ok s" "calls_ok s" using terminals_reach_inv[OF Cons.prems(1)] by (simp_all add: terminals_inv_def)
  have "room s" using Cons.prems(6) by (simp add: room_def load_def)
  then have r: "terminals_reach (\<lambda>_. True) s1" using terminals_reach.step[OF Cons.prems(1) _ _ s1(1)] by simp
  have b: "is_retired h (tm_barrier s1)" "active_of (tm_barrier s1) h = 0"
    using retired_barrier_step[OF s1(1) _ Cons.prems(3)] Cons.prems(4,5) by auto
  have "tm_next_generation s1 + load s1 + 2 * length ops + 1 < u64_max"
    using step_load[OF s1(1)] Cons.prems(6) by simp
  with Cons.IH[OF r s1(2) b] Cons.prems(5) have "slots_for h s' \<subseteq> slots_for h s1" by simp
  also have "\<dots> \<subseteq> slots_for h s" using retired_slots_step[OF s1(1) inv Cons.prems(4)] .
  finally show ?case .
qed simp

text \<open>
  Once a host is retired and its start-ups have settled, no terminal of it starts or reconnects
  until it is restored, whatever the threads do: every later slot of the host was there before.
\<close>

theorem retired_host_starts_no_terminal:
  assumes "terminals_reach (\<lambda>_. True) s" and "is_retired h (tm_barrier s)" and "idle_check h (tm_barrier s)"
    and "run_terminals ops s = Some s'" and "TRestore h \<notin> set ops"
    and "tm_next_generation s + load s + 2 * length ops + 1 < u64_max"
    and "map_of (rs_active (tm_registry s')) i = Some slot" and "slot_host slot = h"
  shows "\<exists>old. map_of (rs_active (tm_registry s)) i = Some old \<and> slot_host old = h
    \<and> slot_generation old = slot_generation slot"
proof -
  have "slots_for h s' \<subseteq> slots_for h s"
    using assms(1,2,4-6) assms(3) by (intro terminals_retired_run[OF assms(1)]) (simp_all add: idle_check_iff)
  moreover have "(i, slot_generation slot) \<in> slots_for h s'" using assms(7,8) by (auto simp: slots_for_def)
  ultimately have "(i, slot_generation slot) \<in> slots_for h s" ..
  then show ?thesis by (auto simp: slots_for_def)
qed

definition retiring :: "terminal_op list" where
  "retiring = start_run ''t'' 1 @ [TRetire ''h'']"

lemma retired_host_starts_no_terminal_witness:
  "\<exists>s' slot. run_terminals [TBegin ''h'', TChildExit 1] (ran retiring) = Some s'
     \<and> map_of (rs_active (tm_registry s')) ''t'' = Some slot \<and> slot_generation slot = 1
     \<and> (\<exists>old. map_of (rs_active (tm_registry (ran retiring))) ''t'' = Some old \<and> slot_generation old = slot_generation slot)"
proof -
  have *: "\<not> Option.is_none (run_terminals retiring new_terminals)" by code_simp
  then have r: "terminals_reach (\<lambda>_. True) (ran retiring)"
    by (rule ran_reach) (simp_all add: list_all_iff retiring_def start_run_def)
  have b: "is_retired ''h'' (tm_barrier (ran retiring))" "idle_check ''h'' (tm_barrier (ran retiring))"
    unfolding ran_def by code_simp+
  have n: "tm_next_generation (ran retiring) = 1" "tm_entering (ran retiring) = []" "tm_drawn (ran retiring) = []"
    unfolding ran_def by code_simp+
  have "map_option (\<lambda>s. map_option (\<lambda>sl. (slot_generation sl, slot_host sl)) (map_of (rs_active (tm_registry s)) ''t''))
      (run_terminals [TBegin ''h'', TChildExit 1] (ran retiring)) = Some (Some (1, ''h''))"
    unfolding ran_def by code_simp
  then obtain s' slot where s': "run_terminals [TBegin ''h'', TChildExit 1] (ran retiring) = Some s'"
    "map_of (rs_active (tm_registry s')) ''t'' = Some slot" "slot_generation slot = 1" "slot_host slot = ''h''"
    by (auto simp del: run_terminals.simps)
  have "run_terminals retiring new_terminals = Some (ran retiring)"
    using * by (auto simp: ran_def Option.is_none_def simp del: run_terminals.simps)
  from run_load[OF this] have "load (ran retiring) \<le> 8"
    by (simp add: retiring_def start_run_def new_terminals_def load_def)
  then have "tm_next_generation (ran retiring) + load (ran retiring) + 2 * length [TBegin ''h'', TChildExit 1] + 1 < u64_max"
    by (simp add: n u64_max_def)
  from retired_host_starts_no_terminal[OF r b s'(1) _ this s'(2,4)] s' show ?thesis by auto
qed

section \<open>Where the code falls short\<close>

text \<open>
  \<open>close\<close> kills the shell and then removes the slot and the snapshot only if the slot is still
  there; when the thread that waits for the shell finalizes it first, \<open>close\<close> reports success and the
  closed terminal stays in the list as an offline one.
\<close>

theorem close_can_leave_the_terminal:
  "map_option (\<lambda>s. map (\<lambda>t. (tsn_session_id t, tsn_state t)) (list_terminals (tm_registry s)))
     (run_terminals (start_run ''t'' 1 @ [TCloseBegin ''t'', TCloseKill ''t'' 1 True,
        TFinalize 1 \<lparr>ps_exit_code = Some 1, ps_signal = None\<rparr>, TCloseFinish ''t'' 1]) new_terminals)
   = Some [(''t'', TsOffline)]"
  by code_simp

text \<open>
  \<open>stop_all\<close> reaches only children whose cleanup is registered: a child spawned just before it
  stays alive, its call finds its slot gone and returns an error without terminating it, and
  nothing in the registry refers to it any more.
\<close>

theorem stop_all_misses_a_starting_child:
  "map_option (\<lambda>s. (1 \<in> tm_children s, rs_active (tm_registry s), Option.is_none (tm_calls s 1), tm_threads s 1))
     (run_terminals [TBegin ''h'', TDraw ''h'', TReserveNew sample_profile None ''t'' 1, TSpawned 1,
        TStopAll {1}, TRegister 1, TAbort 1 True] new_terminals)
   = Some (True, [], True, None)"
  by code_simp

text \<open>
  A reconnection draws its generation before it takes the lock, so of two reconnections of one
  terminal the one with the smaller generation may come last: the terminal's current record then
  has a smaller generation than a record already announced for the same terminal.
\<close>

theorem reconnect_can_lower_the_generation:
  "map_option (\<lambda>s. map (\<lambda>e. map_option (\<lambda>t. (tsn_generation t, tsn_revision t)) (te_snapshot e)) (tm_published s))
     (run_terminals (start_run ''t'' 1 @ exit_run 1
        @ [TBegin ''h'', TDraw ''h'', TBegin ''h'', TDraw ''h'',
           TReserveReconnect sample_profile ''t'' 3, TSpawned 3, TRegister 3, TCommit 3, TThreads 3 True]
        @ exit_run 3
        @ [TReserveReconnect sample_profile ''t'' 2, TSpawned 2, TRegister 2, TCommit 2, TThreads 2 True]) new_terminals)
   = Some [Some (1, 1), Some (1, 2), Some (3, 3), Some (3, 4), Some (2, 5)]"
  by code_simp

end
