(* ===== verification/ServerAuth.thy ===== *)
theory ServerAuth
  imports Model Registry
begin

text \<open>
  \<^verbatim>\<open>apps/server/src/auth.rs\<close>: who may talk to the server.  A browser is let in with a launch ticket,
  which it exchanges once for a session; every request then carries the session's cookie, and one
  that changes something also its CSRF token and the server's own origin.

  An \<^verbatim>\<open>Instant\<close> is a number of nanoseconds; a call reads the clock once.  Random tokens are
  arguments of the calls that draw them.  The hash maps are association lists without repeated
  keys.  A header that is there more than once is its first value, as for \<^verbatim>\<open>HeaderMap::get\<close>.
\<close>

section \<open>Errors\<close>

record api_error =
  ae_status :: nat
  ae_code :: string
  ae_message :: string

definition new_api_error :: "nat \<Rightarrow> string \<Rightarrow> string \<Rightarrow> api_error" where
  "new_api_error status code message = \<lparr>ae_status = status, ae_code = code, ae_message = message\<rparr>"

definition invalid_request :: "string \<Rightarrow> api_error" where
  "invalid_request message = new_api_error 400 ''invalid_request'' message"

type_synonym 'a api_result = "api_error + 'a"

fun error_status :: "app_error \<Rightarrow> nat \<times> string" where
  "error_status (Validation _) = (400, ''invalid_request'')"
| "error_status (NotFound _) = (404, ''not_found'')"
| "error_status (State _) = (409, ''state_conflict'')"
| "error_status (MissingExecutable _) = (503, ''missing_executable'')"
| "error_status (Timeout _) = (504, ''timeout'')"
| "error_status Cancelled = (409, ''cancelled'')"
| "error_status (Process _) = (502, ''process_failed'')"
| "error_status (ProcessCleanup _) = (409, ''cleanup_failed'')"
| "error_status _ = (500, ''operation_failed'')"

definition api_error_from :: "app_error \<Rightarrow> api_error" where
  "api_error_from error = (let (status, code) = error_status error
     in new_api_error status code (app_error_display error))"

section \<open>State\<close>

definition TICKET_TTL :: nat where "TICKET_TTL = 30 * 10 ^ 9"
definition SESSION_TTL :: nat where "SESSION_TTL = 24 * 60 * 60 * 10 ^ 9"
definition MAX_SESSIONS :: nat where "MAX_SESSIONS = 64"
definition MAX_TICKETS :: nat where "MAX_TICKETS = 128"

record session =
  ss_id :: string
  ss_csrf :: string
  ss_expires :: nat

record terminal_ticket =
  tt_session_id :: string
  tt_browser_id :: string
  tt_generation :: nat
  tt_expires :: nat

text \<open>A \<^verbatim>\<open>LaunchTicket\<close> holds only its end.\<close>

record secrets =
  se_launch :: "(string \<times> nat) list"
  se_sessions :: "(string \<times> session) list"
  se_terminals :: "(string \<times> terminal_ticket) list"

definition no_secrets :: secrets where
  "no_secrets = \<lparr>se_launch = [], se_sessions = [], se_terminals = []\<rparr>"

record auth =
  au_authority :: string
  au_origin :: string
  au_cookie_name :: string
  au_dev_origin :: "string option"
  au_control_token :: string

definition new_auth :: "nat \<Rightarrow> string \<Rightarrow> string option \<Rightarrow> auth" where
  "new_auth port control_token dev_origin =
     \<lparr>au_authority = ''127.0.0.1:'' @ dec port, au_origin = ''http://127.0.0.1:'' @ dec port,
      au_cookie_name = ''remotedeck_'' @ dec port, au_dev_origin = dev_origin, au_control_token = control_token\<rparr>"

definition browser_origin :: "auth \<Rightarrow> string" where
  "browser_origin a = (case au_dev_origin a of None \<Rightarrow> au_origin a | Some v \<Rightarrow> v)"

section \<open>Headers\<close>

type_synonym headers = "string \<rightharpoonup> string"

text \<open>\<^verbatim>\<open>HeaderValue::to_str\<close> succeeds on visible ASCII, spaces and tabs.\<close>

definition visible_ascii :: "char \<Rightarrow> bool" where
  "visible_ascii c \<longleftrightarrow> (32 \<le> byte c \<and> byte c < 127) \<or> byte c = 9"

definition header_str :: "string \<Rightarrow> headers \<Rightarrow> string option" where
  "header_str name headers =
     (case headers name of None \<Rightarrow> None | Some v \<Rightarrow> if list_all visible_ascii v then Some v else None)"

text \<open>The comparison that takes the same time for all strings of a length.\<close>

definition byte_word :: "char \<Rightarrow> u8" where
  "byte_word c = of_nat (byte c)"

definition constant_eq :: "string \<Rightarrow> string \<Rightarrow> bool" where
  "constant_eq left right =
     (if length left \<noteq> length right then False
      else fold (\<lambda>(a, b) acc. or acc (xor (byte_word a) (byte_word b))) (zip left right) 0 = 0)"

definition check_host :: "auth \<Rightarrow> headers \<Rightarrow> unit api_result" where
  "check_host a headers =
     (if header_str ''host'' headers \<noteq> Some (au_authority a)
      then Inl (new_api_error 403 ''invalid_host'' ''Only the bound loopback host is accepted.'') else Inr ())"

definition check_origin :: "auth \<Rightarrow> headers \<Rightarrow> bool \<Rightarrow> unit api_result" where
  "check_origin a headers required =
     (let denied = Inl (new_api_error 403 ''invalid_origin'' ''This request did not originate from RemoteDeck.'')
      in case header_str ''origin'' headers of
        Some origin \<Rightarrow> if origin = au_origin a \<or> au_dev_origin a = Some origin then Inr () else denied
      | None \<Rightarrow> if \<not> required then Inr () else denied)"

definition cookie_id :: "auth \<Rightarrow> headers \<Rightarrow> string option" where
  "cookie_id a headers =
     (case header_str ''cookie'' headers of
        None \<Rightarrow> None
      | Some cookies \<Rightarrow>
          map_option snd (find (\<lambda>(name, _). name = au_cookie_name a)
            (List.map_filter (\<lambda>part. split_once (CHR ''='') (trim part)) (split_on (\<lambda>c. c = CHR '';'') cookies))))"

definition session_cookie :: "auth \<Rightarrow> session \<Rightarrow> string" where
  "session_cookie a s = au_cookie_name a @ ''='' @ ss_id s @ ''; HttpOnly; SameSite=Strict; Path=/''"

section \<open>Operations\<close>

definition launch_url :: "auth \<Rightarrow> nat \<Rightarrow> string \<Rightarrow> secrets \<Rightarrow> string api_result \<times> secrets" where
  "launch_url a now ticket s =
     (let s = s\<lparr>se_launch := filter (\<lambda>(_, expires). expires > now) (se_launch s)\<rparr>
      in if length (se_launch s) \<ge> MAX_TICKETS
      then (Inl (new_api_error 429 ''ticket_limit'' ''Too many pending browser launches.''), s)
      else (Inr (browser_origin a @ ''/#ticket='' @ ticket),
        s\<lparr>se_launch := put ticket (now + TICKET_TTL) (se_launch s)\<rparr>))"

definition exchange ::
    "auth \<Rightarrow> nat \<Rightarrow> string \<Rightarrow> string \<Rightarrow> headers \<Rightarrow> string \<Rightarrow> secrets \<Rightarrow> (session \<times> string) api_result \<times> secrets" where
  "exchange a now new_id new_csrf headers ticket s =
     (case rbind (check_host a headers) (\<lambda>_. check_origin a headers True) of
        Inl e \<Rightarrow> (Inl e, s)
      | Inr _ \<Rightarrow>
          let valid = (case map_of (se_launch s) ticket of None \<Rightarrow> False | Some expires \<Rightarrow> expires > now);
              s = s\<lparr>se_launch := del ticket (se_launch s)\<rparr>
          in if \<not> valid
          then (Inl (new_api_error 401 ''invalid_ticket''
                 ''The launch link expired or was already used. Open RemoteDeck again.''), s)
          else
            let s = s\<lparr>se_sessions := filter (\<lambda>(_, item). ss_expires item > now) (se_sessions s)\<rparr>
            in case Option.bind (cookie_id a headers) (map_of (se_sessions s)) of
              Some existing \<Rightarrow>
                let session = existing\<lparr>ss_expires := now + SESSION_TTL\<rparr>
                in (Inr (session, session_cookie a session),
                    s\<lparr>se_sessions := put (the (cookie_id a headers)) session (se_sessions s)\<rparr>)
            | None \<Rightarrow>
                if length (se_sessions s) \<ge> MAX_SESSIONS
                then (Inl (new_api_error 429 ''session_limit'' ''Too many browser sessions.''), s)
                else
                  let session = \<lparr>ss_id = new_id, ss_csrf = new_csrf, ss_expires = now + SESSION_TTL\<rparr>
                  in (Inr (session, session_cookie a session),
                      s\<lparr>se_sessions := put new_id session (se_sessions s)\<rparr>))"

definition csrf_ok :: "headers \<Rightarrow> session \<Rightarrow> bool" where
  "csrf_ok headers session \<longleftrightarrow>
     (case header_str ''x-remotedeck-csrf'' headers of None \<Rightarrow> False | Some csrf \<Rightarrow> constant_eq csrf (ss_csrf session))"

definition require :: "auth \<Rightarrow> nat \<Rightarrow> headers \<Rightarrow> bool \<Rightarrow> secrets \<Rightarrow> session api_result \<times> secrets" where
  "require a now headers mutation s =
     (case rbind (check_host a headers) (\<lambda>_. check_origin a headers mutation) of
        Inl e \<Rightarrow> (Inl e, s)
      | Inr _ \<Rightarrow>
          case cookie_id a headers of
            None \<Rightarrow> (Inl (new_api_error 401 ''session_required''
                      ''Open RemoteDeck from its shortcut to authorize this browser.''), s)
          | Some i \<Rightarrow>
              case Option.bind (map_of (se_sessions s) i) (\<lambda>x. if ss_expires x > now then Some x else None) of
                None \<Rightarrow> (Inl (new_api_error 401 ''session_expired''
                          ''The browser session expired. Open RemoteDeck again.''), s)
              | Some session \<Rightarrow>
                  if mutation \<and> \<not> csrf_ok headers session
                  then (Inl (new_api_error 403 ''invalid_csrf''
                         ''The request is missing its session-bound CSRF token.''), s)
                  else
                    let session = session\<lparr>ss_expires := now + SESSION_TTL\<rparr>
                    in (Inr session, s\<lparr>se_sessions := put i session (se_sessions s)\<rparr>))"

definition live :: "nat \<Rightarrow> string \<Rightarrow> secrets \<Rightarrow> bool" where
  "live now i s \<longleftrightarrow> (case map_of (se_sessions s) i of None \<Rightarrow> False | Some x \<Rightarrow> ss_expires x > now)"

definition issue_terminal ::
    "nat \<Rightarrow> string \<Rightarrow> session \<Rightarrow> string \<Rightarrow> nat \<Rightarrow> secrets \<Rightarrow> string api_result \<times> secrets" where
  "issue_terminal now ticket browser session_id generation s =
     (let s = s\<lparr>se_terminals := filter (\<lambda>(_, t). tt_expires t > now) (se_terminals s)\<rparr>
      in if length (se_terminals s) \<ge> MAX_TICKETS
      then (Inl (new_api_error 429 ''ticket_limit'' ''Too many pending terminal attachments.''), s)
      else (Inr ticket, s\<lparr>se_terminals := put ticket
             \<lparr>tt_session_id = session_id, tt_browser_id = ss_id browser, tt_generation = generation,
              tt_expires = now + TICKET_TTL\<rparr> (se_terminals s)\<rparr>))"

definition claim_terminal :: "auth \<Rightarrow> nat \<Rightarrow> headers \<Rightarrow> string \<Rightarrow> secrets \<Rightarrow> terminal_ticket api_result \<times> secrets" where
  "claim_terminal a now headers ticket s =
     (case check_origin a headers True of
        Inl e \<Rightarrow> (Inl e, s)
      | Inr _ \<Rightarrow>
          (case require a now headers False s of
             (Inl e, s) \<Rightarrow> (Inl e, s)
           | (Inr session, s) \<Rightarrow>
               let found = map_of (se_terminals s) ticket;
                   s = s\<lparr>se_terminals := del ticket (se_terminals s)\<rparr>
               in case found of
                 Some t \<Rightarrow>
                   if tt_expires t > now \<and> tt_browser_id t = ss_id session then (Inr t, s)
                   else (Inl (new_api_error 401 ''invalid_terminal_ticket''
                          ''The terminal ticket expired or was already used.''), s)
               | None \<Rightarrow> (Inl (new_api_error 401 ''invalid_terminal_ticket''
                          ''The terminal ticket expired or was already used.''), s)))"

definition internal :: "auth \<Rightarrow> headers \<Rightarrow> unit api_result" where
  "internal a headers =
     rbind (check_host a headers) (\<lambda>_.
       if headers ''origin'' \<noteq> None \<or> headers ''cookie'' \<noteq> None
       then Inl (new_api_error 403 ''invalid_control_request''
              ''Browser requests cannot use the launcher channel.'')
       else if \<not> (case Option.bind (header_str ''authorization'' headers) (strip_prefix ''Bearer '') of
              None \<Rightarrow> False | Some v \<Rightarrow> constant_eq v (au_control_token a))
       then Inl (new_api_error 401 ''invalid_control_token'' ''Invalid launcher credential.'')
       else Inr ())"

lemmas auth_defs = launch_url_def exchange_def require_def issue_terminal_def claim_terminal_def

section \<open>Comparing secrets\<close>

lemma byte_word_inject: "byte_word a = byte_word b \<longleftrightarrow> a = b"
proof -
  have "unat (byte_word c) = byte c" for c
    using of_char_mod_256[of c, where ?'a = nat] by (simp add: byte_word_def byte_def unat_of_nat)
  then show ?thesis by (metis byte_def of_char_eq_iff)
qed

lemma fold_or_xor:
  "fold (\<lambda>(a, b) acc. or acc (xor (byte_word a) (byte_word b))) ps acc = 0
    \<longleftrightarrow> acc = 0 \<and> (\<forall>(a, b) \<in> set ps. a = b)"
proof (induction ps arbitrary: acc)
  case (Cons p ps)
  obtain a b where p: "p = (a, b)" by fastforce
  have "xor (byte_word a) (byte_word b) = 0 \<longleftrightarrow> byte_word a = byte_word b"
    by (metis xor.assoc xor.left_neutral xor.right_neutral xor_self_eq)
  with Cons p show ?case by (auto simp: or_eq_0_iff byte_word_inject)
qed simp

lemma constant_eq_iff [simp]: "constant_eq left right \<longleftrightarrow> left = right"
proof -
  have "length left = length right \<Longrightarrow> (\<forall>(a, b) \<in> set (zip left right). a = b) \<longleftrightarrow> left = right"
    by (induction left right rule: list_induct2) auto
  then show ?thesis by (auto simp: constant_eq_def fold_or_xor)
qed

section \<open>Histories\<close>

datatype auth_op =
    OpLaunch nat string
  | OpExchange nat headers string string string
  | OpRequire nat headers bool
  | OpIssue nat headers bool string nat string
  | OpClaim nat headers string

text \<open>What the calls let through, in order; a refused call leaves no event.\<close>

datatype auth_event =
    Launched nat string
  | Granted nat string string string
  | Authorized nat string
  | Issued nat string string string nat
  | Claimed nat string string

text \<open>\<open>issue_terminal\<close> is called with the session that \<open>require\<close> has just authorized.\<close>

fun auth_step :: "auth \<Rightarrow> auth_op \<Rightarrow> secrets \<Rightarrow> auth_event list \<times> secrets" where
  "auth_step a (OpLaunch now ticket) s =
     (case launch_url a now ticket s of
        (Inr _, s) \<Rightarrow> ([Launched now ticket], s) | (Inl _, s) \<Rightarrow> ([], s))"
| "auth_step a (OpExchange now headers ticket new_id new_csrf) s =
     (case exchange a now new_id new_csrf headers ticket s of
        (Inr (x, _), s) \<Rightarrow> ([Granted now ticket (ss_id x) (ss_csrf x)], s) | (Inl _, s) \<Rightarrow> ([], s))"
| "auth_step a (OpRequire now headers mutation) s =
     (case require a now headers mutation s of
        (Inr x, s) \<Rightarrow> ([Authorized now (ss_id x)], s) | (Inl _, s) \<Rightarrow> ([], s))"
| "auth_step a (OpIssue now headers mutation session_id generation ticket) s =
     (case require a now headers mutation s of
        (Inl _, s) \<Rightarrow> ([], s)
      | (Inr x, s) \<Rightarrow>
          (case issue_terminal now ticket x session_id generation s of
             (Inl _, s) \<Rightarrow> ([Authorized now (ss_id x)], s)
           | (Inr _, s) \<Rightarrow> ([Authorized now (ss_id x), Issued now ticket (ss_id x) session_id generation], s)))"
| "auth_step a (OpClaim now headers ticket) s =
     (case claim_terminal a now headers ticket s of
        (Inr t, s') \<Rightarrow> ([Authorized now (tt_browser_id t), Claimed now ticket (tt_browser_id t)], s')
      | (Inl _, s') \<Rightarrow>
          ((case (check_origin a headers True, require a now headers False s) of
              (Inr _, Inr x, _) \<Rightarrow> [Authorized now (ss_id x)] | _ \<Rightarrow> []), s'))"

fun auth_run :: "auth \<Rightarrow> auth_op list \<Rightarrow> auth_event list \<Rightarrow> secrets \<Rightarrow> auth_event list \<times> secrets" where
  "auth_run a [] tr s = (tr, s)"
| "auth_run a (op # ops) tr s = (let (es, s) = auth_step a op s in auth_run a ops (tr @ es) s)"

definition launches :: "string \<Rightarrow> auth_event list \<Rightarrow> nat" where
  "launches ticket tr = length (filter (\<lambda>e. \<exists>now. e = Launched now ticket) tr)"

definition grants :: "string \<Rightarrow> auth_event list \<Rightarrow> nat" where
  "grants ticket tr = length (filter (\<lambda>e. \<exists>now i c. e = Granted now ticket i c) tr)"

definition issues :: "string \<Rightarrow> auth_event list \<Rightarrow> nat" where
  "issues ticket tr = length (filter (\<lambda>e. \<exists>now b i g. e = Issued now ticket b i g) tr)"

definition claims :: "string \<Rightarrow> auth_event list \<Rightarrow> nat" where
  "claims ticket tr = length (filter (\<lambda>e. \<exists>now b. e = Claimed now ticket b) tr)"

text \<open>A session was last used at \<open>now\<close>.\<close>

definition used_at :: "string \<Rightarrow> nat \<Rightarrow> auth_event list \<Rightarrow> bool" where
  "used_at i now tr \<longleftrightarrow> Authorized now i \<in> set tr \<or> (\<exists>t c. Granted now t i c \<in> set tr)"

text \<open>
  A table of tickets that are used once: each ticket was used, or is still there, at most as often as
  it was issued.
\<close>

definition held :: "string \<Rightarrow> (string \<times> 'e) list \<Rightarrow> nat" where
  "held t table = (if map_of table t = None then 0 else 1)"

definition tickets_ok :: "nat \<Rightarrow> (string \<Rightarrow> nat) \<Rightarrow> (string \<Rightarrow> nat) \<Rightarrow> (string \<times> 'e) list \<Rightarrow> bool" where
  "tickets_ok limit issued used table \<longleftrightarrow> keys_ok table \<and> length table \<le> limit
     \<and> (\<forall>t. used t + held t table \<le> issued t)"

definition launch_row :: "auth_event list \<Rightarrow> string \<times> nat \<Rightarrow> bool" where
  "launch_row tr p \<longleftrightarrow> (\<exists>now. Launched now (fst p) \<in> set tr \<and> snd p = now + TICKET_TTL)"

definition session_row :: "auth_event list \<Rightarrow> string \<times> session \<Rightarrow> bool" where
  "session_row tr p \<longleftrightarrow> ss_id (snd p) = fst p \<and> (\<exists>now t. Granted now t (fst p) (ss_csrf (snd p)) \<in> set tr)
     \<and> (\<exists>now. used_at (fst p) now tr \<and> ss_expires (snd p) = now + SESSION_TTL)"

definition terminal_row :: "auth_event list \<Rightarrow> string \<times> terminal_ticket \<Rightarrow> bool" where
  "terminal_row tr p \<longleftrightarrow> (\<exists>now. tt_expires (snd p) = now + TICKET_TTL
     \<and> Issued now (fst p) (tt_browser_id (snd p)) (tt_session_id (snd p)) (tt_generation (snd p)) \<in> set tr)"

definition launch_ok :: "auth_event list \<Rightarrow> (string \<times> nat) list \<Rightarrow> bool" where
  "launch_ok tr table \<longleftrightarrow> tickets_ok MAX_TICKETS (\<lambda>t. launches t tr) (\<lambda>t. grants t tr) table
     \<and> list_all (launch_row tr) table"

definition sessions_ok :: "auth_event list \<Rightarrow> (string \<times> session) list \<Rightarrow> bool" where
  "sessions_ok tr table \<longleftrightarrow> keys_ok table \<and> length table \<le> MAX_SESSIONS \<and> list_all (session_row tr) table"

definition terminal_tickets_ok :: "auth_event list \<Rightarrow> (string \<times> terminal_ticket) list \<Rightarrow> bool" where
  "terminal_tickets_ok tr table \<longleftrightarrow> tickets_ok MAX_TICKETS (\<lambda>t. issues t tr) (\<lambda>t. claims t tr) table
     \<and> list_all (terminal_row tr) table"

definition secrets_ok :: "auth_event list \<Rightarrow> secrets \<Rightarrow> bool" where
  "secrets_ok tr s \<longleftrightarrow> launch_ok tr (se_launch s) \<and> sessions_ok tr (se_sessions s) \<and> terminal_tickets_ok tr (se_terminals s)"

section \<open>What each call checks\<close>

lemma check_host_iff [result_simps]: "check_host a headers = Inr u \<longleftrightarrow> header_str ''host'' headers = Some (au_authority a)"
  by (simp add: check_host_def)

lemma check_origin_iff [result_simps]:
  "check_origin a headers required = Inr u \<longleftrightarrow>
    (case header_str ''origin'' headers of
       None \<Rightarrow> \<not> required | Some origin \<Rightarrow> origin = au_origin a \<or> au_dev_origin a = Some origin)"
  by (auto simp: check_origin_def Let_def split: option.splits)

definition own_origin :: "auth \<Rightarrow> headers \<Rightarrow> bool" where
  "own_origin a headers \<longleftrightarrow> header_str ''host'' headers = Some (au_authority a)
     \<and> (\<exists>origin. header_str ''origin'' headers = Some origin \<and> (origin = au_origin a \<or> au_dev_origin a = Some origin))"

lemma exchangeE:
  assumes "exchange a now new_id new_csrf headers ticket s = (Inr (x, cookie), s')"
  obtains (old) i y where "own_origin a headers" "\<exists>e. map_of (se_launch s) ticket = Some e \<and> now < e"
      "map_of (filter (\<lambda>(_, item). ss_expires item > now) (se_sessions s)) i = Some y"
      "x = y\<lparr>ss_expires := now + SESSION_TTL\<rparr>"
      "s' = s\<lparr>se_launch := del ticket (se_launch s),
        se_sessions := put i x (filter (\<lambda>(_, item). ss_expires item > now) (se_sessions s))\<rparr>"
  | (new) "own_origin a headers" "\<exists>e. map_of (se_launch s) ticket = Some e \<and> now < e"
      "length (filter (\<lambda>(_, item). ss_expires item > now) (se_sessions s)) < MAX_SESSIONS"
      "x = \<lparr>ss_id = new_id, ss_csrf = new_csrf, ss_expires = now + SESSION_TTL\<rparr>"
      "s' = s\<lparr>se_launch := del ticket (se_launch s),
        se_sessions := put new_id x (filter (\<lambda>(_, item). ss_expires item > now) (se_sessions s))\<rparr>"
proof -
  have own: "own_origin a headers"
    using assms by (auto simp: exchange_def own_origin_def result_simps Let_def split: sum.splits option.splits if_splits)
  have valid: "\<exists>e. map_of (se_launch s) ticket = Some e \<and> now < e"
    using assms by (auto simp: exchange_def Let_def split: sum.splits option.splits if_splits)
  let ?kept = "filter (\<lambda>(_, item). ss_expires item > now) (se_sessions s)"
  show ?thesis
  proof (cases "Option.bind (cookie_id a headers) (map_of ?kept)")
    case None
    with assms show ?thesis
      by (intro new[OF own valid]) (auto simp: exchange_def Let_def split: sum.splits option.splits if_splits)
  next
    case (Some y)
    then obtain i where i: "cookie_id a headers = Some i" "map_of ?kept i = Some y" by (auto simp: bind_eq_Some_conv)
    with assms Some show ?thesis
      by (intro old[OF own valid i(2)]) (auto simp: exchange_def Let_def split: sum.splits option.splits if_splits)
  qed
qed

lemma requireE:
  assumes "require a now headers mutation s = (Inr x, s')"
  obtains i y where "header_str ''host'' headers = Some (au_authority a)" "check_origin a headers mutation = Inr ()"
    "cookie_id a headers = Some i" "map_of (se_sessions s) i = Some y" "now < ss_expires y"
    "mutation \<longrightarrow> header_str ''x-remotedeck-csrf'' headers = Some (ss_csrf y)"
    "x = y\<lparr>ss_expires := now + SESSION_TTL\<rparr>" "s' = s\<lparr>se_sessions := put i x (se_sessions s)\<rparr>"
  using assms
  by (auto simp: require_def csrf_ok_def result_simps Let_def bind_eq_Some_conv
      split: sum.splits option.splits if_splits)

lemma counts_append [simp]:
  "launches t (tr @ es) = launches t tr + launches t es" "grants t (tr @ es) = grants t tr + grants t es"
  "issues t (tr @ es) = issues t tr + issues t es" "claims t (tr @ es) = claims t tr + claims t es"
  by (simp_all add: launches_def grants_def issues_def claims_def)

lemma counts_simps [simp]:
  "launches t [] = 0" "grants t [] = 0" "issues t [] = 0" "claims t [] = 0"
  "launches t (e # es) = (if \<exists>now. e = Launched now t then 1 else 0) + launches t es"
  "grants t (e # es) = (if \<exists>now i c. e = Granted now t i c then 1 else 0) + grants t es"
  "issues t (e # es) = (if \<exists>now b i g. e = Issued now t b i g then 1 else 0) + issues t es"
  "claims t (e # es) = (if \<exists>now b. e = Claimed now t b then 1 else 0) + claims t es"
  by (simp_all add: launches_def grants_def issues_def claims_def)

section \<open>The invariant\<close>

lemma held_simps [simp]:
  "held t [] = 0" "held k (put t e es) = (if k = t then 1 else held k es)" "held k (del t es) = (if k = t then 0 else held k es)"
  by (simp_all add: held_def map_of_put map_of_del)

lemma held_filter: "keys_ok es \<Longrightarrow> held t (filter p es) \<le> held t es"
  by (simp add: held_def map_of_filter_keys split: option.splits)

lemma tickets_filter:
  assumes "tickets_ok n issued used es"
  shows "tickets_ok n issued used (filter p es)"
proof -
  have "used t + held t (filter p es) \<le> issued t" for t
    using assms held_filter[of es t p] by (auto simp: tickets_ok_def intro: le_trans[OF add_left_mono])
  then show ?thesis using assms by (auto simp: tickets_ok_def keys_ok_filter intro: le_trans[OF length_filter_le])
qed

lemma tickets_put:
  assumes "tickets_ok n issued used es" and "length es < n" and "\<And>k. issued' k = issued k + (if k = t then 1 else 0)"
  shows "tickets_ok n issued' used (put t e es)"
proof -
  have "used k + held k (put t e es) \<le> issued' k" for k
    using assms(1) assms(3)[of k] by (auto simp: tickets_ok_def intro: add_leD1 dest: spec[of _ k])
  then show ?thesis using assms(1,2) by (auto simp: tickets_ok_def keys_ok_put length_put)
qed

lemma tickets_use:
  assumes "tickets_ok n issued used es" and "map_of es t = Some e" and "\<And>k. used' k = used k + (if k = t then 1 else 0)"
  shows "tickets_ok n issued used' (del t es)"
proof -
  have "held t es = 1" using assms(2) by (simp add: held_def)
  then have "used' k + held k (del t es) \<le> issued k" for k
    using assms(1) assms(3)[of k] by (auto simp: tickets_ok_def dest: spec[of _ k])
  moreover have "length (del t es) \<le> length es" by (simp add: del_def)
  ultimately show ?thesis using assms(1) by (auto simp: tickets_ok_def keys_ok_del)
qed

lemma list_all_put: "list_all P es \<Longrightarrow> P (k, e) \<Longrightarrow> list_all P (put k e es)"
  by (auto simp: put_def list_all_iff)

lemma list_all_del: "list_all P es \<Longrightarrow> list_all P (del k es)"
  by (auto simp: del_def list_all_iff)

lemma list_all_map_of: "list_all P es \<Longrightarrow> map_of es k = Some e \<Longrightarrow> P (k, e)"
  by (auto simp: list_all_iff dest: map_of_SomeD)

lemma row_more:
  "launch_row tr p \<Longrightarrow> launch_row (tr @ es) p" "session_row tr q \<Longrightarrow> session_row (tr @ es) q"
  "terminal_row tr r \<Longrightarrow> terminal_row (tr @ es) r"
  by (auto simp: launch_row_def session_row_def terminal_row_def used_at_def)

lemma rows_more [simp]:
  "list_all (launch_row tr) l \<Longrightarrow> list_all (launch_row (tr @ es)) l"
  "list_all (session_row tr) x \<Longrightarrow> list_all (session_row (tr @ es)) x"
  "list_all (terminal_row tr) t \<Longrightarrow> list_all (terminal_row (tr @ es)) t"
  by (auto simp: row_more elim: list.pred_mono_strong)

text \<open>More events of other kinds keep a table as it is.\<close>

lemma tables_more:
  "launch_ok tr l \<Longrightarrow> (\<And>t. launches t es = 0) \<Longrightarrow> (\<And>t. grants t es = 0) \<Longrightarrow> launch_ok (tr @ es) l"
  "sessions_ok tr x \<Longrightarrow> sessions_ok (tr @ es) x"
  "terminal_tickets_ok tr t \<Longrightarrow> (\<And>t. issues t es = 0) \<Longrightarrow> (\<And>t. claims t es = 0) \<Longrightarrow> terminal_tickets_ok (tr @ es) t"
  by (auto simp: launch_ok_def sessions_ok_def terminal_tickets_ok_def row_more elim: list.pred_mono_strong)

lemma tables_filter:
  "launch_ok tr l \<Longrightarrow> launch_ok tr (filter p l)" "sessions_ok tr x \<Longrightarrow> sessions_ok tr (filter q x)"
  "terminal_tickets_ok tr t \<Longrightarrow> terminal_tickets_ok tr (filter r t)"
  by (auto simp: launch_ok_def sessions_ok_def terminal_tickets_ok_def tickets_filter keys_ok_filter list_all_iff
      intro: le_trans[OF length_filter_le])

lemma tables_del:
  "launch_ok tr l \<Longrightarrow> launch_ok tr (del k l)" "terminal_tickets_ok tr t \<Longrightarrow> terminal_tickets_ok tr (del k t)"
  unfolding del_def by (rule tables_filter, assumption)+

lemma sessions_ok_put:
  assumes "sessions_ok tr es" and "session_row tr (i, x)" and "map_of es i \<noteq> None \<or> length es < MAX_SESSIONS"
  shows "sessions_ok tr (put i x es)"
  using assms by (auto simp: sessions_ok_def keys_ok_put length_put list_all_put)

lemma require_refused: "require a now headers mutation s = (Inl e, s') \<Longrightarrow> s' = s"
  by (auto simp: require_def Let_def split: sum.splits option.splits if_splits)

lemma require_ok:
  assumes "secrets_ok tr s" and "require a now headers mutation s = (Inr x, s')"
  shows "secrets_ok (tr @ [Authorized now (ss_id x)]) s'"
  using assms(2)
proof (cases rule: requireE)
  case (1 i y)
  have row: "session_row tr (i, y)" using assms(1) 1(4) by (auto simp: secrets_ok_def sessions_ok_def dest: list_all_map_of)
  then have "session_row (tr @ [Authorized now (ss_id x)]) (i, x)"
    using 1(7) by (auto simp: session_row_def used_at_def)
  moreover have "sessions_ok (tr @ [Authorized now (ss_id x)]) (se_sessions s)"
    using assms(1) by (simp add: secrets_ok_def tables_more)
  ultimately show ?thesis
    using assms(1) 1(4,8) by (simp add: secrets_ok_def tables_more sessions_ok_put)
qed

lemma exchange_refused:
  assumes "secrets_ok tr s" and "exchange a now new_id new_csrf headers ticket s = (Inl e, s')"
  shows "secrets_ok tr s'"
  using assms by (auto simp: exchange_def Let_def secrets_ok_def intro!: tables_filter tables_del
      split: sum.splits option.splits if_splits)

lemma exchange_ok:
  assumes ok: "secrets_ok tr s" and run: "exchange a now new_id new_csrf headers ticket s = (Inr (x, cookie), s')"
  shows "secrets_ok (tr @ [Granted now ticket (ss_id x) (ss_csrf x)]) s'"
proof -
  let ?tr = "tr @ [Granted now ticket (ss_id x) (ss_csrf x)]"
  let ?kept = "filter (\<lambda>(_, item). ss_expires item > now) (se_sessions s)"
  have launch: "launch_ok ?tr (del ticket (se_launch s))" if e: "map_of (se_launch s) ticket = Some e" for e
    using ok tickets_use[OF _ e] by (auto simp: secrets_ok_def launch_ok_def row_more list_all_del elim: list.pred_mono_strong)
  have terminals: "terminal_tickets_ok ?tr (se_terminals s)" using ok by (simp add: secrets_ok_def tables_more)
  have kept: "sessions_ok tr ?kept" using ok by (simp add: secrets_ok_def tables_filter)
  have kept': "sessions_ok ?tr ?kept" using kept by (rule tables_more)
  show ?thesis
    using run
  proof (cases rule: exchangeE)
    case (old i y)
    then have "session_row tr (i, y)" using kept by (auto simp: sessions_ok_def dest: list_all_map_of)
    then have "session_row ?tr (i, x)" using old(4) by (auto simp: session_row_def used_at_def)
    with old(2,3,5) kept' terminals launch show ?thesis
      by (auto simp: secrets_ok_def intro!: sessions_ok_put)
  next
    case new
    then have "session_row ?tr (new_id, x)" by (auto simp: session_row_def used_at_def)
    with new(2,3,5) kept' terminals launch show ?thesis
      by (auto simp: secrets_ok_def intro!: sessions_ok_put)
  qed
qed

lemma auth_step_ok:
  assumes ok: "secrets_ok tr s" and run: "auth_step a op s = (es, s')"
  shows "secrets_ok (tr @ es) s'"
proof (cases op)
  case (OpLaunch now ticket)
  have "launch_ok tr (filter p (se_launch s))" for p using ok by (simp add: secrets_ok_def tables_filter)
  then have "launch_ok (tr @ [Launched now ticket]) (put ticket (now + TICKET_TTL) (filter p (se_launch s)))"
    if "length (filter p (se_launch s)) < MAX_TICKETS" for p
    using that by (auto simp: launch_ok_def row_more launch_row_def intro!: tickets_put list_all_put elim: list.pred_mono_strong)
  with OpLaunch run ok show ?thesis
    by (auto simp: launch_url_def Let_def secrets_ok_def tables_filter intro!: tables_more(2,3) split: if_splits)
next
  case (OpExchange now headers ticket new_id new_csrf)
  with run ok show ?thesis
    by (auto split: prod.splits sum.splits intro: exchange_refused exchange_ok)
next
  case (OpRequire now headers mutation)
  with run ok show ?thesis
    by (auto split: prod.splits sum.splits dest: require_refused intro: require_ok)
next
  case (OpIssue now headers mutation i g ticket)
  obtain r s1 where r: "require a now headers mutation s = (r, s1)" by fastforce
  show ?thesis
  proof (cases r)
    case (Inl e)
    with OpIssue run r ok show ?thesis by (auto dest: require_refused)
  next
    case (Inr x)
    let ?tr = "tr @ [Authorized now (ss_id x)]"
    have ok1: "secrets_ok ?tr s1" using require_ok[OF ok] r Inr by simp
    have t: "terminal_tickets_ok (?tr @ [Issued now ticket (ss_id x) i g]) (put ticket \<lparr>tt_session_id = i,
        tt_browser_id = ss_id x, tt_generation = g, tt_expires = now + TICKET_TTL\<rparr> (filter p (se_terminals s1)))"
      if "length (filter p (se_terminals s1)) < MAX_TICKETS" for p
    proof -
      have "terminal_tickets_ok ?tr (filter p (se_terminals s1))" using ok1 by (simp add: secrets_ok_def tables_filter)
      then show ?thesis unfolding terminal_tickets_ok_def using that
        by (intro conjI tickets_put list_all_put) (auto simp: row_more terminal_row_def elim!: list.pred_mono_strong)
    qed
    have "secrets_ok (?tr @ [Issued now ticket (ss_id x) i g]) (snd (issue_terminal now ticket x i g s1))"
      if "is_ok (fst (issue_terminal now ticket x i g s1))"
      using ok1 that t by (auto simp: issue_terminal_def Let_def secrets_ok_def simp del: append_assoc append.simps intro!: tables_more(1,2) split: if_splits)
    moreover have "secrets_ok ?tr (snd (issue_terminal now ticket x i g s1))"
      if "\<not> is_ok (fst (issue_terminal now ticket x i g s1))"
      using ok1 that by (auto simp: issue_terminal_def Let_def secrets_ok_def tables_filter split: if_splits)
    ultimately show ?thesis using OpIssue run r Inr by (auto split: prod.splits sum.splits)
  qed
next
  case (OpClaim now headers ticket)
  show ?thesis
  proof (cases "is_ok (check_origin a headers True) \<and> is_ok (fst (require a now headers False s))")
    case False
    with OpClaim run ok show ?thesis
      by (auto simp: claim_terminal_def is_ok_def dest: require_refused split: sum.splits prod.splits)
  next
    case True
    then obtain u x s1 where r: "check_origin a headers True = Inr u" "require a now headers False s = (Inr x, s1)"
      by (metis is_ok_iff prod.collapse)
    let ?tr = "tr @ [Authorized now (ss_id x)]"
    have ok1: "secrets_ok ?tr s1" using require_ok[OF ok r(2)] .
    show ?thesis
    proof (cases "\<exists>t. map_of (se_terminals s1) ticket = Some t \<and> now < tt_expires t \<and> tt_browser_id t = ss_id x")
      case False
      have "claim_terminal a now headers ticket s = (Inl (new_api_error 401 ''invalid_terminal_ticket''
          ''The terminal ticket expired or was already used.''), s1\<lparr>se_terminals := del ticket (se_terminals s1)\<rparr>)"
        using False r by (auto simp: claim_terminal_def Let_def split: option.splits)
      with OpClaim run r ok1 show ?thesis by (auto simp: secrets_ok_def intro: tables_del)
    next
      case True
      then obtain t where t: "map_of (se_terminals s1) ticket = Some t" "now < tt_expires t" "tt_browser_id t = ss_id x"
        by blast
      then have "claim_terminal a now headers ticket s = (Inr t, s1\<lparr>se_terminals := del ticket (se_terminals s1)\<rparr>)"
        using r by (simp add: claim_terminal_def Let_def)
      then have s': "es = [Authorized now (ss_id x), Claimed now ticket (ss_id x)]"
        "s' = s1\<lparr>se_terminals := del ticket (se_terminals s1)\<rparr>" using OpClaim run t(3) by auto
      have "terminal_tickets_ok (?tr @ [Claimed now ticket (ss_id x)]) (del ticket (se_terminals s1))"
        using ok1 tickets_use[OF _ t(1)]
        by (auto simp: secrets_ok_def terminal_tickets_ok_def row_more list_all_del simp del: append_assoc append.simps
            elim: list.pred_mono_strong)
      moreover have "launch_ok (?tr @ [Claimed now ticket (ss_id x)]) (se_launch s1)"
        "sessions_ok (?tr @ [Claimed now ticket (ss_id x)]) (se_sessions s1)"
        using ok1 tables_more(1)[of ?tr "se_launch s1" "[Claimed now ticket (ss_id x)]"]
          tables_more(2)[of ?tr "se_sessions s1" "[Claimed now ticket (ss_id x)]"] by (simp_all add: secrets_ok_def)
      ultimately show ?thesis by (simp add: s' secrets_ok_def)
    qed
  qed
qed

lemma auth_run_ok: "secrets_ok tr s \<Longrightarrow> auth_run a ops tr s = (tr', s') \<Longrightarrow> secrets_ok tr' s'"
proof (induction ops arbitrary: tr s)
  case (Cons op ops)
  obtain es s1 where "auth_step a op s = (es, s1)" by fastforce
  with Cons auth_step_ok[OF Cons.prems(1), of a op es s1] show ?case by simp
qed simp

lemma no_secrets_ok: "secrets_ok [] no_secrets"
  by (simp add: secrets_ok_def no_secrets_def launch_ok_def sessions_ok_def terminal_tickets_ok_def tickets_ok_def keys_ok_def)

section \<open>Properties\<close>

text \<open>
  C20: a session is granted only to a request that names the bound host and the server's own origin and
  brings a launch ticket that the server issued less than 30 seconds ago and that has been exchanged
  fewer times than it was issued: a ticket works once.
\<close>

theorem session_needs_fresh_ticket:
  assumes "auth_run a ops [] no_secrets = (tr, s)"
    and "exchange a now new_id new_csrf headers ticket s = (Inr (x, cookie), s')"
  shows "own_origin a headers \<and> (\<exists>issued. Launched issued ticket \<in> set tr \<and> now < issued + TICKET_TTL)
    \<and> grants ticket tr < launches ticket tr \<and> live now (ss_id x) s'"
proof -
  have ok: "secrets_ok tr s" using auth_run_ok[OF no_secrets_ok assms(1)] .
  obtain e where e: "own_origin a headers" "map_of (se_launch s) ticket = Some e" "now < e"
    using assms(2) by (cases rule: exchangeE) auto
  have "launch_row tr (ticket, e)" "grants ticket tr + held ticket (se_launch s) \<le> launches ticket tr"
    using ok e(2) by (auto simp: secrets_ok_def launch_ok_def tickets_ok_def dest: list_all_map_of)
  moreover have "held ticket (se_launch s) = 1" using e(2) by (simp add: held_def)
  moreover have "map_of (se_sessions s') (ss_id x) = Some x \<and> now < ss_expires x"
    using assms(2)
  proof (cases rule: exchangeE)
    case (old i y)
    then have "session_row tr (i, y)" using ok tables_filter(2)[of tr "se_sessions s"]
      by (auto simp: secrets_ok_def sessions_ok_def dest: list_all_map_of)
    with old show ?thesis by (simp add: session_row_def map_of_put SESSION_TTL_def)
  qed (simp add: map_of_put SESSION_TTL_def)
  ultimately show ?thesis using e by (auto simp: launch_row_def live_def)
qed

text \<open>A browser that opens the launch link, reads the page, posts a change and attaches to a terminal.\<close>

definition sample_auth :: auth where
  "sample_auth = new_auth 43123 ''control'' None"

definition browser_headers :: "string \<Rightarrow> string \<Rightarrow> headers" where
  "browser_headers cookie csrf = [''host'' \<mapsto> ''127.0.0.1:43123'', ''origin'' \<mapsto> ''http://127.0.0.1:43123'',
     ''cookie'' \<mapsto> ''theme=dark; remotedeck_43123='' @ cookie, ''x-remotedeck-csrf'' \<mapsto> csrf]"

definition browsing :: "auth_op list" where
  "browsing = [OpLaunch 1 ''t'', OpExchange 2 (browser_headers '''' '''') ''t'' ''id'' ''csrf'',
     OpRequire 3 (browser_headers ''id'' '''') False, OpIssue 4 (browser_headers ''id'' ''csrf'') True ''pty'' 7 ''u'']"

definition browsed :: "auth_event list \<times> secrets" where
  "browsed = auth_run sample_auth browsing [] no_secrets"

lemma session_needs_fresh_ticket_witness:
  "\<exists>tr s x cookie s'. auth_run sample_auth [OpLaunch 1 ''t''] [] no_secrets = (tr, s)
     \<and> exchange sample_auth 5 ''id'' ''csrf'' (browser_headers '''' '''') ''t'' s = (Inr (x, cookie), s')
     \<and> grants ''t'' tr < launches ''t'' tr \<and> live 5 (ss_id x) s'"
proof -
  obtain tr s where run: "auth_run sample_auth [OpLaunch 1 ''t''] [] no_secrets = (tr, s)" by fastforce
  obtain r s' where ex: "exchange sample_auth 5 ''id'' ''csrf'' (browser_headers '''' '''') ''t'' s = (r, s')" by fastforce
  have "is_ok (fst (exchange sample_auth 5 ''id'' ''csrf'' (browser_headers '''' '''') ''t''
      (snd (auth_run sample_auth [OpLaunch 1 ''t''] [] no_secrets))))" by code_simp
  then have "is_ok r" unfolding run using ex by simp
  then obtain x cookie where "r = Inr (x, cookie)" by (auto simp: is_ok_iff)
  with session_needs_fresh_ticket[OF run] run ex show ?thesis by blast
qed

text \<open>
  C21: a request that changes something is authorized only if it names the bound host and the server's
  own origin, carries the cookie of a session that was granted for a launch ticket and used less
  than a day ago, and the CSRF token that was granted with that session.
\<close>

theorem mutation_is_authorized:
  assumes "auth_run a ops [] no_secrets = (tr, s)" and "require a now headers True s = (Inr x, s')"
  shows "own_origin a headers \<and> cookie_id a headers = Some (ss_id x)
    \<and> header_str ''x-remotedeck-csrf'' headers = Some (ss_csrf x)
    \<and> (\<exists>granted ticket. Granted granted ticket (ss_id x) (ss_csrf x) \<in> set tr)
    \<and> (\<exists>used. used_at (ss_id x) used tr \<and> now < used + SESSION_TTL)"
  using assms(2)
proof (cases rule: requireE)
  case (1 i y)
  have "session_row tr (i, y)"
    using auth_run_ok[OF no_secrets_ok assms(1)] 1(4) by (auto simp: secrets_ok_def sessions_ok_def dest: list_all_map_of)
  with 1 show ?thesis
    by (auto simp: session_row_def own_origin_def check_origin_iff split: option.splits)
qed

lemma mutation_is_authorized_witness:
  "\<exists>x s'. require sample_auth 9 (browser_headers ''id'' ''csrf'') True (snd browsed) = (Inr x, s')
     \<and> (\<exists>granted ticket. Granted granted ticket (ss_id x) (ss_csrf x) \<in> set (fst browsed))"
proof -
  have run: "auth_run sample_auth browsing [] no_secrets = (fst browsed, snd browsed)" by (simp add: browsed_def)
  obtain r s' where req: "require sample_auth 9 (browser_headers ''id'' ''csrf'') True (snd browsed) = (r, s')" by fastforce
  have "is_ok (fst (require sample_auth 9 (browser_headers ''id'' ''csrf'') True (snd browsed)))"
    unfolding browsed_def by code_simp
  with req obtain x where "r = Inr x" by (auto simp: is_ok_iff)
  with mutation_is_authorized[OF run] req show ?thesis by blast
qed

text \<open>
  A terminal is attached only with a ticket that was issued less than 30 seconds ago to the very
  session whose cookie the request carries, for that terminal and generation, and that has been
  claimed fewer times than it was issued; the request comes from the server's own origin.
\<close>

theorem terminal_ticket_is_bound:
  assumes "auth_run a ops [] no_secrets = (tr, s)" and "claim_terminal a now headers ticket s = (Inr t, s')"
  shows "own_origin a headers \<and> cookie_id a headers = Some (tt_browser_id t)
    \<and> (\<exists>issued. Issued issued ticket (tt_browser_id t) (tt_session_id t) (tt_generation t) \<in> set tr
        \<and> now < issued + TICKET_TTL)
    \<and> claims ticket tr < issues ticket tr"
proof -
  have ok: "secrets_ok tr s" using auth_run_ok[OF no_secrets_ok assms(1)] .
  obtain u x s1 where c: "check_origin a headers True = Inr u" "require a now headers False s = (Inr x, s1)"
      "map_of (se_terminals s1) ticket = Some t" "now < tt_expires t" "tt_browser_id t = ss_id x"
    using assms(2) by (auto simp: claim_terminal_def Let_def split: sum.splits prod.splits option.splits if_splits)
  from c(2) obtain i y where r: "header_str ''host'' headers = Some (au_authority a)" "cookie_id a headers = Some i"
      "map_of (se_sessions s) i = Some y" "x = y\<lparr>ss_expires := now + SESSION_TTL\<rparr>" "se_terminals s1 = se_terminals s"
    by (cases rule: requireE) auto
  have "terminal_row tr (ticket, t)" "session_row tr (i, y)"
      "claims ticket tr + held ticket (se_terminals s) \<le> issues ticket tr"
    using ok c(3) r(3,5) by (auto simp: secrets_ok_def terminal_tickets_ok_def sessions_ok_def tickets_ok_def dest: list_all_map_of)
  moreover have "held ticket (se_terminals s) = 1" using c(3) r(5) by (simp add: held_def)
  ultimately show ?thesis
    using c r by (auto simp: terminal_row_def session_row_def own_origin_def check_origin_iff split: option.splits)
qed

lemma terminal_ticket_is_bound_witness:
  "\<exists>t s'. claim_terminal sample_auth 9 (browser_headers ''id'' '''') ''u'' (snd browsed) = (Inr t, s')
     \<and> claims ''u'' (fst browsed) < issues ''u'' (fst browsed)"
proof -
  have run: "auth_run sample_auth browsing [] no_secrets = (fst browsed, snd browsed)" by (simp add: browsed_def)
  obtain r s' where req: "claim_terminal sample_auth 9 (browser_headers ''id'' '''') ''u'' (snd browsed) = (r, s')" by fastforce
  have "is_ok (fst (claim_terminal sample_auth 9 (browser_headers ''id'' '''') ''u'' (snd browsed)))"
    unfolding browsed_def by code_simp
  with req obtain t where "r = Inr t" by (auto simp: is_ok_iff)
  with terminal_ticket_is_bound[OF run] req show ?thesis by blast
qed

text \<open>The launcher's own channel: the control token, and nothing a browser would send.\<close>

lemma internal_iff:
  "internal a headers = Inr u \<longleftrightarrow> header_str ''host'' headers = Some (au_authority a)
     \<and> headers ''origin'' = None \<and> headers ''cookie'' = None
     \<and> header_str ''authorization'' headers = Some (''Bearer '' @ au_control_token a)"
  by (auto simp: internal_def result_simps bind_eq_Some_conv strip_prefix_iff split: option.splits)

lemma secrets_are_bounded:
  assumes "auth_run a ops [] no_secrets = (tr, s)"
  shows "length (se_launch s) \<le> 128 \<and> length (se_sessions s) \<le> 64 \<and> length (se_terminals s) \<le> 128"
  using auth_run_ok[OF no_secrets_ok assms]
  by (simp add: secrets_ok_def launch_ok_def sessions_ok_def terminal_tickets_ok_def tickets_ok_def
      MAX_TICKETS_def MAX_SESSIONS_def)

end
