(* ===== verification/ServerEvents.thy ===== *)
theory ServerEvents
  imports ServerAuth
begin

text \<open>
  \<^verbatim>\<open>apps/server/src/transport.rs\<close>: the log of events that browsers follow over server-sent events,
  and the checks of a request before it is dispatched.

  A JSON value is a tree; an object lists its fields in order, a number is its text.
\<close>

datatype json =
    JNull
  | JBool bool
  | JNumber string
  | JString string
  | JArray "json list"
  | JObject "(string \<times> json) list"

section \<open>The event log\<close>

record envelope =
  ev_sequence :: nat
  ev_event :: string
  ev_payload :: json

text \<open>\<open>el_sent\<close> is what went to the broadcast channel, in order.\<close>

record event_log =
  lg_sequence :: nat
  lg_entries :: "(envelope \<times> nat) list"
  lg_bytes :: nat
  lg_sent :: "envelope list"

definition new_event_log :: event_log where
  "new_event_log = \<lparr>lg_sequence = 0, lg_entries = [], lg_bytes = 0, lg_sent = []\<rparr>"

definition json_field :: "string \<Rightarrow> json \<Rightarrow> json option" where
  "json_field key v = (case v of JObject kvs \<Rightarrow> map_of kvs key | _ \<Rightarrow> None)"

text \<open>Terminal bytes stay in the transport of their session.\<close>

definition session_only :: "string \<Rightarrow> json \<Rightarrow> bool" where
  "session_only event payload \<longleftrightarrow> event = ''terminal-event''
     \<and> json_field ''kind'' payload \<in> {Some (JString ''output''), Some (JString ''replayTruncated'')}"

text \<open>The loop ends only if popping entries brings the size down.\<close>

partial_function (option) trim_log :: "(envelope \<times> nat) list \<Rightarrow> nat \<Rightarrow> ((envelope \<times> nat) list \<times> nat) option" where
  "trim_log entries bytes =
     (if length entries > 512 \<or> bytes > 8 * 1024 * 1024
      then case entries of
        [] \<Rightarrow> trim_log entries bytes
      | (_, n) # entries \<Rightarrow> trim_log entries (bytes - n)
      else Some (entries, bytes))"

text \<open>\<open>encoded\<close> is the size of an envelope as JSON.\<close>

definition publish_to_log :: "(envelope \<Rightarrow> nat) \<Rightarrow> string \<Rightarrow> json \<Rightarrow> event_log \<Rightarrow> event_log option" where
  "publish_to_log encoded event payload s =
     (if session_only event payload then Some s
      else
        let item = \<lparr>ev_sequence = lg_sequence s + 1, ev_event = event, ev_payload = payload\<rparr>;
            bytes = encoded item
        in case trim_log (lg_entries s @ [(item, bytes)]) (lg_bytes s + bytes) of
          None \<Rightarrow> None
        | Some (entries, bytes) \<Rightarrow>
            Some (s\<lparr>lg_sequence := lg_sequence s + 1, lg_entries := entries, lg_bytes := bytes,
              lg_sent := lg_sent s @ [item]\<rparr>))"

definition resync :: "nat \<Rightarrow> envelope" where
  "resync sequence = \<lparr>ev_sequence = sequence, ev_event = ''resync'', ev_payload = JNull\<rparr>"

definition can_resume :: "nat \<Rightarrow> event_log \<Rightarrow> bool" where
  "can_resume since s \<longleftrightarrow> since \<le> lg_sequence s
     \<and> (case lg_entries s of [] \<Rightarrow> True | (e, _) # _ \<Rightarrow> saturating_add64 since 1 \<ge> ev_sequence e)"

definition initial :: "nat option \<Rightarrow> event_log \<Rightarrow> envelope list" where
  "initial since s =
     (case since of
        None \<Rightarrow> [resync (lg_sequence s)]
      | Some n \<Rightarrow>
          if can_resume n s then map fst (filter (\<lambda>(e, _). ev_sequence e > n) (lg_entries s))
          else [resync (lg_sequence s)])"

section \<open>The loop of publish ends\<close>

definition log_bytes :: "(envelope \<times> nat) list \<Rightarrow> nat" where
  "log_bytes entries = sum_list (map snd entries)"

lemma trim_log_ends:
  "\<exists>k. k \<le> length entries \<and> trim_log entries (log_bytes entries) = Some (drop k entries, log_bytes (drop k entries))
     \<and> length (drop k entries) \<le> 512 \<and> log_bytes (drop k entries) \<le> 8 * 1024 * 1024
     \<and> (\<forall>j < k. length (drop j entries) > 512 \<or> log_bytes (drop j entries) > 8 * 1024 * 1024)"
proof (induction entries)
  case Nil
  show ?case by (subst trim_log.simps) (simp add: log_bytes_def)
next
  case (Cons p entries)
  show ?case
  proof (cases "length (p # entries) > 512 \<or> log_bytes (p # entries) > 8 * 1024 * 1024")
    case True
    obtain k where k: "k \<le> length entries"
      "trim_log entries (log_bytes entries) = Some (drop k entries, log_bytes (drop k entries))"
      "length (drop k entries) \<le> 512" "log_bytes (drop k entries) \<le> 8 * 1024 * 1024"
      "\<forall>j < k. length (drop j entries) > 512 \<or> log_bytes (drop j entries) > 8 * 1024 * 1024"
      using Cons.IH by blast
    have "trim_log (p # entries) (log_bytes (p # entries)) = trim_log entries (log_bytes entries)"
      using True by (subst trim_log.simps) (simp add: log_bytes_def split: prod.split)
    moreover have "\<forall>j < Suc k. length (drop j (p # entries)) > 512 \<or> log_bytes (drop j (p # entries)) > 8 * 1024 * 1024"
      using k(5) True by (auto simp: less_Suc_eq_0_disj)
    ultimately show ?thesis using k by (intro exI[of _ "Suc k"]) simp
  next
    case False
    then have "trim_log (p # entries) (log_bytes (p # entries)) = Some (p # entries, log_bytes (p # entries))"
      by (subst trim_log.simps) simp
    with False show ?thesis by (intro exI[of _ 0]) simp
  qed
qed

section \<open>The log is a suffix of what was sent\<close>

definition log_ok :: "(envelope \<Rightarrow> nat) \<Rightarrow> event_log \<Rightarrow> bool" where
  "log_ok encoded s \<longleftrightarrow> lg_bytes s = log_bytes (lg_entries s)
     \<and> map ev_sequence (lg_sent s) = [1..<Suc (lg_sequence s)]
     \<and> (\<exists>k \<le> length (lg_sent s). lg_entries s = map (\<lambda>e. (e, encoded e)) (drop k (lg_sent s)))
     \<and> length (lg_entries s) \<le> 512 \<and> lg_bytes s \<le> 8 * 1024 * 1024
     \<and> (lg_entries s = [] \<longrightarrow> lg_sent s = [] \<or> encoded (last (lg_sent s)) > 8 * 1024 * 1024)"

lemma publish_log_ok:
  assumes ok: "log_ok encoded s"
  shows "\<exists>s'. publish_to_log encoded event payload s = Some s' \<and> log_ok encoded s'"
proof (cases "session_only event payload")
  case True
  with ok show ?thesis by (simp add: publish_to_log_def)
next
  case False
  let ?item = "\<lparr>ev_sequence = lg_sequence s + 1, ev_event = event, ev_payload = payload\<rparr>"
  let ?entries = "lg_entries s @ [(?item, encoded ?item)]" and ?sent = "lg_sent s @ [?item]"
  obtain k where k: "k \<le> length (lg_sent s)" "lg_entries s = map (\<lambda>e. (e, encoded e)) (drop k (lg_sent s))"
    using ok by (auto simp: log_ok_def)
  obtain j where j: "j \<le> length ?entries"
    "trim_log ?entries (log_bytes ?entries) = Some (drop j ?entries, log_bytes (drop j ?entries))"
    "length (drop j ?entries) \<le> 512" "log_bytes (drop j ?entries) \<le> 8 * 1024 * 1024"
    "\<forall>i < j. length (drop i ?entries) > 512 \<or> log_bytes (drop i ?entries) > 8 * 1024 * 1024"
    using trim_log_ends[of ?entries] by blast
  have bytes: "lg_bytes s + encoded ?item = log_bytes ?entries" using ok by (simp add: log_ok_def log_bytes_def)
  let ?s' = "s\<lparr>lg_sequence := lg_sequence s + 1, lg_entries := drop j ?entries, lg_bytes := log_bytes (drop j ?entries),
    lg_sent := ?sent\<rparr>"
  have run: "publish_to_log encoded event payload s = Some ?s'"
    unfolding publish_to_log_def Let_def bytes j(2) using False by simp
  have entries: "?entries = map (\<lambda>e. (e, encoded e)) (drop k ?sent)" using k by simp
  have suffix: "drop j ?entries = map (\<lambda>e. (e, encoded e)) (drop (j + k) ?sent)"
    by (simp only: entries drop_map drop_drop)
  have within: "j + k \<le> length ?sent" using j(1) k by simp
  have empty: "encoded (last ?sent) > 8 * 1024 * 1024" if "drop j ?entries = []"
  proof -
    have "j = length ?entries" using j(1) that by (simp; arith)
    then have "length (lg_entries s) < j" by simp
    with j(5) have "length (drop (length (lg_entries s)) ?entries) > 512
        \<or> log_bytes (drop (length (lg_entries s)) ?entries) > 8 * 1024 * 1024" by blast
    then show ?thesis by (simp add: log_bytes_def)
  qed
  have "log_ok encoded ?s'"
    unfolding log_ok_def
  proof (intro conjI)
    show "map ev_sequence (lg_sent ?s') = [1..<Suc (lg_sequence ?s')]" using ok by (simp add: log_ok_def)
    have "lg_entries ?s' = map (\<lambda>e. (e, encoded e)) (drop (j + k) (lg_sent ?s'))" using suffix by (simp del: drop_append)
    moreover have "j + k \<le> length (lg_sent ?s')" using within by simp
    ultimately show "\<exists>k\<le>length (lg_sent ?s'). lg_entries ?s' = map (\<lambda>e. (e, encoded e)) (drop k (lg_sent ?s'))" by blast
  qed (use j(3,4) empty in \<open>simp_all del: drop_append\<close>)
  with run show ?thesis by blast
qed

fun publish_events :: "(envelope \<Rightarrow> nat) \<Rightarrow> (string \<times> json) list \<Rightarrow> event_log \<Rightarrow> event_log option" where
  "publish_events encoded [] s = Some s"
| "publish_events encoded ((event, payload) # es) s =
     (case publish_to_log encoded event payload s of None \<Rightarrow> None | Some s \<Rightarrow> publish_events encoded es s)"

lemma publish_events_ok:
  "log_ok encoded s \<Longrightarrow> \<exists>s'. publish_events encoded es s = Some s' \<and> log_ok encoded s'"
proof (induction es arbitrary: s)
  case (Cons e es)
  with publish_log_ok[OF Cons.prems, of "fst e" "snd e"] show ?case by (cases e) auto
qed simp

lemma new_log_ok: "log_ok encoded new_event_log"
  by (simp add: log_ok_def new_event_log_def log_bytes_def)

text \<open>
  Publishing always returns: the loop that drops old entries ends, because the byte count of the log
  is exactly the sum of its entries.
\<close>

theorem publishing_ends: "\<exists>s. publish_events encoded es new_event_log = Some s
    \<and> length (lg_entries s) \<le> 512 \<and> lg_bytes s \<le> 8 * 1024 * 1024"
  using publish_events_ok[OF new_log_ok, of encoded es] by (auto simp: log_ok_def)

lemma sequence_at:
  assumes "log_ok encoded s" and "i < length (lg_sent s)"
  shows "ev_sequence (lg_sent s ! i) = Suc i"
proof -
  have "map ev_sequence (lg_sent s) ! i = [1..<Suc (lg_sequence s)] ! i" using assms by (simp add: log_ok_def del: upt_Suc)
  moreover have "length (lg_sent s) = lg_sequence s"
    using assms(1) by (auto simp: log_ok_def simp del: upt_Suc dest!: arg_cong[where f = length])
  ultimately show ?thesis using assms(2) by (simp del: upt_Suc)
qed

lemma length_sent: "log_ok encoded s \<Longrightarrow> length (lg_sent s) = lg_sequence s"
  by (auto simp: log_ok_def simp del: upt_Suc dest!: arg_cong[where f = length])

lemma filter_sent:
  assumes "log_ok encoded s"
  shows "filter (\<lambda>e. ev_sequence e > n) (drop k (lg_sent s)) = drop (max k n) (lg_sent s)"
proof -
  have "filter (\<lambda>e. ev_sequence e > n) (take (n - k) (drop k (lg_sent s))) = []"
    using sequence_at[OF assms] by (auto simp: filter_empty_conv in_set_conv_nth)
  moreover have "filter (\<lambda>e. ev_sequence e > n) (drop (n - k) (drop k (lg_sent s))) = drop (n - k) (drop k (lg_sent s))"
    using sequence_at[OF assms] by (intro filter_True) (auto simp: in_set_conv_nth)
  moreover have "filter P xs = filter P (take m xs) @ filter P (drop m xs)" for P :: "envelope \<Rightarrow> bool" and xs m
    by (metis append_take_drop_id filter_append)
  ultimately show ?thesis by (metis append_Nil drop_drop add.commute max.commute nat_minus_add_max)
qed



text \<open>
  An event larger than the log empties it, and an empty log answers any sequence it has reached
  with nothing: the event is lost without a resync.
\<close>

lemma oversized_event_is_lost:
  "\<exists>s. publish_to_log (\<lambda>_. 8 * 1024 * 1024 + 1) ''big'' JNull new_event_log = Some s
     \<and> length (lg_sent s) = 1 \<and> initial (Some 0) s = []"
  by (simp add: publish_to_log_def session_only_def new_event_log_def Let_def trim_log.simps initial_def can_resume_def)

section \<open>Checks of a request\<close>

definition LONG_OPERATIONS :: "string list" where
  "LONG_OPERATIONS = [''save_host'', ''import_ssh_config'', ''scan_host_keys'', ''accept_host_key'', ''list_host_keys'',
     ''remove_host_key'', ''test_connection'', ''list_keys'', ''generate_key'', ''deploy_key'', ''delete_host'',
     ''sftp_list'', ''sftp_create_directory'', ''sftp_rename'', ''sftp_delete'', ''probe_agent'', ''btop_probe'',
     ''btop_start_watchdog'', ''btop_stop_watchdog'', ''legacy_preview'', ''legacy_apply'', ''export_diagnostics'',
     ''pick_local_path'', ''pick_save_path'', ''telemetry_stop'', ''signal_process'']"

definition needs_key :: "string \<Rightarrow> bool" where
  "needs_key command \<longleftrightarrow> command \<in> set LONG_OPERATIONS \<or> command \<notin> set [''bootstrap'', ''list_terminals'', ''list_tunnels'', ''transfer_list'',
     ''telemetry_list'', ''telemetry_history'', ''list_commands'', ''analyze_command'', ''list_command_jobs'',
     ''agent_session_plan'']"

definition credential_key :: "string \<Rightarrow> bool" where
  "credential_key key \<longleftrightarrow> filter (\<lambda>c. c \<noteq> CHR ''_'') (to_ascii_lowercase key)
     \<in> set [''password'', ''passphrase'', ''privatekey'', ''privatekeycontent'']"

fun contains_credentials :: "json \<Rightarrow> bool" where
  "contains_credentials (JObject kvs) =
     list_ex (\<lambda>(key, v). credential_key key \<or> contains_credentials v) kvs"
| "contains_credentials (JArray vs) = list_ex contains_credentials vs"
| "contains_credentials _ = False"

text \<open>The keys of a value at any depth.\<close>

inductive key_inside :: "string \<Rightarrow> json \<Rightarrow> bool" where
  here: "(k, v) \<in> set kvs \<Longrightarrow> key_inside k (JObject kvs)"
| field: "(l, v) \<in> set kvs \<Longrightarrow> key_inside k v \<Longrightarrow> key_inside k (JObject kvs)"
| item: "v \<in> set vs \<Longrightarrow> key_inside k v \<Longrightarrow> key_inside k (JArray vs)"

inductive_simps key_inside_simps [simp]:
  "key_inside k JNull" "key_inside k (JBool b)" "key_inside k (JNumber n)" "key_inside k (JString s)"
  "key_inside k (JArray vs)" "key_inside k (JObject kvs)"

text \<open>
  A request is refused exactly when some object inside it, at any depth, has a field that would carry
  a credential.
\<close>

theorem credentials_are_found: "contains_credentials v \<longleftrightarrow> (\<exists>k. key_inside k v \<and> credential_key k)"
proof (induction v rule: contains_credentials.induct)
  case (1 kvs)
  then show ?case by (fastforce simp: list_ex_iff)
next
  case (2 vs)
  then show ?case by (auto simp: list_ex_iff)
qed simp_all

end
