(* ===== verification/ServerOperations.thy ===== *)
theory ServerOperations
  imports ServerEvents
begin

text \<open>
  \<^verbatim>\<open>apps/server/src/operations.rs\<close>, the way of a request: it is claimed under its idempotency key, so
  that it runs once however often it is sent, and its work is admitted.  Every critical section of
  the two locks is one step.

  A \<^verbatim>\<open>watch\<close> channel is a number; a record holds the last value sent on its channel.  Times are
  nanoseconds; a call reads the clock once.
\<close>

record outcome =
  oc_status :: nat
  oc_body :: json

text \<open>\<open>encode\<close> is \<^verbatim>\<open>serde_json::to_value\<close> of an error.\<close>

definition outcome_of_error :: "(api_error \<Rightarrow> json) \<Rightarrow> api_error \<Rightarrow> outcome" where
  "outcome_of_error encode e = \<lparr>oc_status = ae_status e, oc_body = encode e\<rparr>"

section \<open>Claims\<close>

record request_record =
  rr_digest :: string
  rr_started :: nat
  rr_channel :: nat
  rr_result :: "outcome option"

type_synonym requests = "(string \<times> request_record) list"

datatype claim = Existing nat | New nat

definition request_key :: "string \<Rightarrow> string \<Rightarrow> string" where
  "request_key session key = session @ '':'' @ key"

definition REQUEST_TTL :: nat where "REQUEST_TTL = 30 * 60 * 10 ^ 9"

text \<open>
  \<open>rl_is_uuid\<close> is \<^verbatim>\<open>Uuid::parse_str\<close>, \<open>rl_to_vec\<close> is \<^verbatim>\<open>serde_json\<close>'s encoding of the arguments, \<open>rl_sha\<close> the
  hash function and \<open>rl_encode\<close> the JSON form of an error.
\<close>

record request_library =
  rl_is_uuid :: "string \<Rightarrow> bool"
  rl_to_vec :: "json \<Rightarrow> string + string"
  rl_sha :: "string \<Rightarrow> string"
  rl_encode :: "api_error \<Rightarrow> json"

definition request_kept :: "nat \<Rightarrow> string \<times> request_record \<Rightarrow> bool" where
  "request_kept now p \<longleftrightarrow> now - rr_started (snd p) < REQUEST_TTL \<or> rr_result (snd p) = None"

text \<open>\<open>channel\<close> is the channel that a new request gets.\<close>

definition claim_request ::
    "request_library \<Rightarrow> nat \<Rightarrow> nat \<Rightarrow> string \<Rightarrow> string \<Rightarrow> string \<Rightarrow> json \<Rightarrow> requests \<Rightarrow> claim api_result \<times> requests" where
  "claim_request lib channel now session key command args requests =
     (if \<not> rl_is_uuid lib key then (Inl (invalid_request ''Idempotency-Key must be a UUID.''), requests)
      else case rl_to_vec lib args of
        Inl e \<Rightarrow> (Inl (invalid_request e), requests)
      | Inr bytes \<Rightarrow>
          let key = request_key session key;
              digest = rl_sha lib (command @ [CHR 0x00] @ bytes);
              requests = filter (request_kept now) requests
          in case map_of requests key of
            Some record \<Rightarrow>
              if rr_digest record \<noteq> digest
              then (Inl (new_api_error 409 ''idempotency_conflict''
                     ''This request identifier was already used with different arguments.''), requests)
              else (Inr (Existing (rr_channel record)), requests)
          | None \<Rightarrow>
              if length requests \<ge> 1024
              then (Inl (new_api_error 429 ''request_limit''
                     ''The request history is full; retry after older entries expire.''), requests)
              else (Inr (New channel), put key
                     \<lparr>rr_digest = digest, rr_started = now, rr_channel = channel, rr_result = None\<rparr> requests))"

definition send_outcome :: "nat \<Rightarrow> outcome \<Rightarrow> requests \<Rightarrow> requests" where
  "send_outcome channel v requests =
     map (\<lambda>(k, r). (k, if rr_channel r = channel then r\<lparr>rr_result := Some v\<rparr> else r)) requests"

section \<open>Admission\<close>

text \<open>
  A task that has been admitted works, then sends its outcome (an error if it panics), then removes
  itself.  A task that is aborted may still send the outcome it had ready.
\<close>

record task =
  tk_channel :: nat
  tk_sent :: bool

record front =
  fr_requests :: requests
  fr_channels :: nat
  fr_pending :: "nat list"
  fr_closed :: bool
  fr_next :: nat
  fr_tasks :: "(nat \<times> task) list"
  fr_aborted :: "nat list"
  fr_started :: "nat list"

definition new_front :: front where
  "new_front = \<lparr>fr_requests = [], fr_channels = 0, fr_pending = [], fr_closed = False, fr_next = 0, fr_tasks = [],
     fr_aborted = [], fr_started = []\<rparr>"

definition admission_closed :: api_error where
  "admission_closed = new_api_error 503 ''admission_closed'' ''The service is stopping or its operation queue is full.''"

definition service_stopping :: api_error where
  "service_stopping = new_api_error 503 ''service_stopping''
     ''Service shutdown interrupted the request; verify its result before retrying.''"

text \<open>\<^verbatim>\<open>Admission::spawn\<close> with the sender of a channel.\<close>

definition spawn_request :: "request_library \<Rightarrow> nat \<Rightarrow> front \<Rightarrow> unit api_result \<times> front" where
  "spawn_request lib channel s =
     (if fr_closed s \<or> length (fr_tasks s) \<ge> 128
      then (Inl admission_closed,
        s\<lparr>fr_requests := send_outcome channel (outcome_of_error (rl_encode lib) admission_closed) (fr_requests s)\<rparr>)
      else (Inr (), s\<lparr>fr_next := fr_next s + 1, fr_started := channel # fr_started s,
             fr_tasks := put (fr_next s + 1) \<lparr>tk_channel = channel, tk_sent = False\<rparr> (fr_tasks s)\<rparr>))"

definition send_all :: "nat list \<Rightarrow> outcome \<Rightarrow> requests \<Rightarrow> requests" where
  "send_all channels v requests = fold (\<lambda>c. send_outcome c v) channels requests"

definition cancel_requests :: "request_library \<Rightarrow> front \<Rightarrow> front" where
  "cancel_requests lib s =
     (let channels = map (\<lambda>p. tk_channel (snd p)) (fr_tasks s)
      in s\<lparr>fr_closed := True, fr_tasks := [], fr_aborted := channels @ fr_aborted s,
        fr_requests := send_all channels (outcome_of_error (rl_encode lib) service_stopping) (fr_requests s)\<rparr>)"

datatype front_op =
    FClaim nat string string string json
  | FAdmit nat
  | FSend nat outcome
  | FGone nat
  | FLate nat outcome
  | FClose
  | FCancel

fun front_step :: "request_library \<Rightarrow> front_op \<Rightarrow> front \<Rightarrow> front option" where
  "front_step lib (FClaim now session key command args) s =
     (case claim_request lib (fr_channels s) now session key command args (fr_requests s) of
        (Inr (New channel), requests) \<Rightarrow>
          Some (s\<lparr>fr_requests := requests, fr_channels := fr_channels s + 1, fr_pending := channel # fr_pending s\<rparr>)
      | (_, requests) \<Rightarrow> Some (s\<lparr>fr_requests := requests\<rparr>))"
| "front_step lib (FAdmit channel) s =
     (if channel \<notin> set (fr_pending s) then None
      else Some (snd (spawn_request lib channel (s\<lparr>fr_pending := remove1 channel (fr_pending s)\<rparr>))))"
| "front_step lib (FSend i v) s =
     (case map_of (fr_tasks s) i of
        None \<Rightarrow> None
      | Some t \<Rightarrow>
          if tk_sent t then None
          else Some (s\<lparr>fr_tasks := put i (t\<lparr>tk_sent := True\<rparr>) (fr_tasks s),
                 fr_requests := send_outcome (tk_channel t) v (fr_requests s)\<rparr>))"
| "front_step lib (FGone i) s =
     (case map_of (fr_tasks s) i of
        None \<Rightarrow> None
      | Some t \<Rightarrow> if tk_sent t then Some (s\<lparr>fr_tasks := del i (fr_tasks s)\<rparr>) else None)"
| "front_step lib (FLate channel v) s =
     (if channel \<notin> set (fr_aborted s) then None
      else Some (s\<lparr>fr_requests := send_outcome channel v (fr_requests s)\<rparr>))"
| "front_step lib FClose s = Some (s\<lparr>fr_closed := True\<rparr>)"
| "front_step lib FCancel s = Some (cancel_requests lib s)"

fun run_front :: "request_library \<Rightarrow> front_op list \<Rightarrow> front \<Rightarrow> front option" where
  "run_front lib [] s = Some s"
| "run_front lib (op # ops) s = (case front_step lib op s of None \<Rightarrow> None | Some s \<Rightarrow> run_front lib ops s)"

section \<open>Who still owes an answer\<close>

definition unsent :: "front \<Rightarrow> nat list" where
  "unsent s = map (\<lambda>p. tk_channel (snd p)) (filter (\<lambda>p. \<not> tk_sent (snd p)) (fr_tasks s))"

definition owing :: "front \<Rightarrow> nat list" where
  "owing s = fr_pending s @ unsent s"

definition record_ok :: "front \<Rightarrow> request_record \<Rightarrow> bool" where
  "record_ok s r \<longleftrightarrow> rr_channel r < fr_channels s \<and> (rr_result r = None \<longleftrightarrow> rr_channel r \<in> set (owing s))"

definition front_ok :: "front \<Rightarrow> bool" where
  "front_ok s \<longleftrightarrow> keys_ok (fr_requests s) \<and> keys_ok (fr_tasks s) \<and> (\<forall>p \<in> set (fr_tasks s). fst p \<le> fr_next s)
     \<and> list_all (\<lambda>p. record_ok s (snd p)) (fr_requests s)
     \<and> distinct (owing s) \<and> (\<forall>c \<in> set (owing s). c < fr_channels s)
     \<and> set (fr_aborted s) \<inter> set (owing s) = {} \<and> set (fr_aborted s) \<subseteq> {..<fr_channels s}
     \<and> (\<forall>p \<in> set (fr_tasks s). tk_channel (snd p) < fr_channels s \<and> (tk_sent (snd p) \<longrightarrow> tk_channel (snd p) \<notin> set (owing s)))
     \<and> length (fr_requests s) \<le> 1024 \<and> length (fr_tasks s) \<le> 128
     \<and> distinct (fr_started s) \<and> set (fr_started s) \<inter> set (fr_pending s) = {} \<and> set (fr_started s) \<subseteq> {..<fr_channels s}"

lemma front_okD:
  assumes "front_ok s"
  shows "keys_ok (fr_requests s)" "keys_ok (fr_tasks s)" "p \<in> set (fr_tasks s) \<Longrightarrow> fst p \<le> fr_next s"
    "list_all (\<lambda>p. record_ok s (snd p)) (fr_requests s)" "distinct (owing s)"
    "c \<in> set (owing s) \<Longrightarrow> c < fr_channels s" "set (fr_aborted s) \<inter> set (owing s) = {}"
    "set (fr_aborted s) \<subseteq> {..<fr_channels s}" "p \<in> set (fr_tasks s) \<Longrightarrow> tk_channel (snd p) < fr_channels s"
    "p \<in> set (fr_tasks s) \<Longrightarrow> tk_sent (snd p) \<Longrightarrow> tk_channel (snd p) \<notin> set (owing s)"
    "length (fr_requests s) \<le> 1024" "length (fr_tasks s) \<le> 128"
    "distinct (fr_started s)" "set (fr_started s) \<inter> set (fr_pending s) = {}" "set (fr_started s) \<subseteq> {..<fr_channels s}"
  using assms by (simp_all add: front_ok_def)

lemma send_outcome_simps [simp]:
  "length (send_outcome c v es) = length es" "keys_ok (send_outcome c v es) = keys_ok es"
  by (simp_all add: send_outcome_def keys_ok_def comp_def split_def)

definition answered :: "nat set \<Rightarrow> outcome \<Rightarrow> request_record \<Rightarrow> request_record" where
  "answered cs v r = (if rr_channel r \<in> cs then r\<lparr>rr_result := Some v\<rparr> else r)"

lemma answered_simps [simp]:
  "rr_channel (answered cs v r) = rr_channel r" "rr_started (answered cs v r) = rr_started r"
  "rr_digest (answered cs v r) = rr_digest r"
  "rr_result (answered cs v r) = (if rr_channel r \<in> cs then Some v else rr_result r)"
  by (simp_all add: answered_def)

lemma send_outcome_answered: "send_outcome c v es = map (\<lambda>(k, r). (k, answered {c} v r)) es"
  by (simp add: send_outcome_def answered_def)

lemma send_all_answered: "send_all cs v es = map (\<lambda>(k, r). (k, answered (set cs) v r)) es"
proof (induction cs arbitrary: es)
  case Nil
  have "map (\<lambda>(k, r). (k, answered {} v r)) es = es" by (induction es) (auto simp: answered_def)
  then show ?case by (simp add: send_all_def)
next
  case (Cons c cs)
  have "send_all (c # cs) v es = send_all cs v (send_outcome c v es)" by (simp add: send_all_def)
  also have "\<dots> = map (\<lambda>(k, r). (k, answered (set cs) v (answered {c} v r))) es"
    unfolding Cons.IH send_outcome_answered by (simp add: split_def)
  also have "\<dots> = map (\<lambda>(k, r). (k, answered (set (c # cs)) v r)) es"
    by (rule map_cong) (auto simp: answered_def)
  finally show ?case .
qed

lemma send_all_simps [simp]: "length (send_all cs v es) = length es" "keys_ok (send_all cs v es) = keys_ok es"
  by (simp_all add: send_all_answered keys_ok_def comp_def split_def)

lemma map_of_send_all: "map_of (send_all cs v es) k = map_option (answered (set cs) v) (map_of es k)"
  by (induction es) (auto simp: send_all_answered)

lemma list_all_keyed: "keys_ok es \<Longrightarrow> list_all (\<lambda>p. P (snd p)) es \<longleftrightarrow> (\<forall>k e. map_of es k = Some e \<longrightarrow> P e)"
  by (auto simp: list_all_iff in_set_map_of[symmetric])

text \<open>Sending on some channels is right when exactly those stop owing an answer.\<close>

lemma records_send:
  assumes "keys_ok (fr_requests s)" and "list_all (\<lambda>p. record_ok s (snd p)) (fr_requests s)"
    and "fr_requests s' = send_all cs v (fr_requests s)" and "fr_channels s' = fr_channels s"
    and "set (owing s') = set (owing s) - set cs"
  shows "list_all (\<lambda>p. record_ok s' (snd p)) (fr_requests s')"
proof -
  have k: "keys_ok (send_all cs v (fr_requests s))" using assms(1) by simp
  show ?thesis
    using assms(2,4,5)
    unfolding assms(3) list_all_keyed[OF k, where P = "record_ok s'"] list_all_keyed[OF assms(1), where P = "record_ok s"]
    by (auto simp: map_of_send_all record_ok_def split: if_splits)
qed

lemma send_one: "send_outcome c v es = send_all [c] v es"
  by (simp add: send_all_def)

lemma unsent_send:
  assumes "keys_ok (fr_tasks s)" and "map_of (fr_tasks s) i = Some t" and "\<not> tk_sent t" and "distinct (unsent s)"
    and "fr_tasks s' = put i (t\<lparr>tk_sent := True\<rparr>) (fr_tasks s)"
  shows "set (unsent s') = set (unsent s) - {tk_channel t}" and "distinct (unsent s')"
proof -
  let ?p = "\<lambda>p. \<not> tk_sent (snd p)"
  have it: "(i, t) \<in> set (fr_tasks s)" using assms(1,2) by (simp add: in_set_map_of)
  have same: "p = (i, t)" if "p \<in> set (fr_tasks s)" "fst p = i" for p
    using that it assms(1) by (metis eq_key_imp_eq_value keys_ok_def prod.collapse)
  have eq: "filter ?p (fr_tasks s') = filter (\<lambda>p. ?p p \<and> fst p \<noteq> i) (fr_tasks s)"
  proof -
    have "filter ?p (map (\<lambda>(k, e). if k = i then (i, t\<lparr>tk_sent := True\<rparr>) else (k, e)) es)
        = filter (\<lambda>p. ?p p \<and> fst p \<noteq> i) es" for es
      by (induction es) (auto split: if_splits)
    then show ?thesis using assms(2,5) by (simp add: put_def)
  qed
  then have eq': "filter ?p (fr_tasks s') = filter (\<lambda>p. fst p \<noteq> i) (filter ?p (fr_tasks s))"
    by (simp add: conj_commute)
  have d: "distinct (map (\<lambda>p. tk_channel (snd p)) (filter ?p (fr_tasks s)))" using assms(4) by (simp add: unsent_def)
  have inj: "inj_on (\<lambda>p. tk_channel (snd p)) (set (filter ?p (fr_tasks s)))" using d by (simp only: distinct_map)
  have in_f: "(i, t) \<in> set (filter ?p (fr_tasks s))" using it assms(3) by simp
  show "distinct (unsent s')" unfolding unsent_def eq' using d by (rule distinct_map_filter)
  show "set (unsent s') = set (unsent s) - {tk_channel t}"
  proof
    show "set (unsent s') \<subseteq> set (unsent s) - {tk_channel t}"
    proof
      fix c assume "c \<in> set (unsent s')"
      then obtain p where p: "p \<in> set (filter ?p (fr_tasks s))" "fst p \<noteq> i" "c = tk_channel (snd p)"
        unfolding unsent_def eq' by auto
      then have "p \<noteq> (i, t)" by auto
      then have "c \<noteq> tk_channel t" using inj_onD[OF inj _ p(1) in_f] p(3) by auto
      then show "c \<in> set (unsent s) - {tk_channel t}" using p by (auto simp: unsent_def)
    qed
    show "set (unsent s) - {tk_channel t} \<subseteq> set (unsent s')"
    proof
      fix c assume "c \<in> set (unsent s) - {tk_channel t}"
      then obtain p where p: "p \<in> set (filter ?p (fr_tasks s))" "c = tk_channel (snd p)" "c \<noteq> tk_channel t"
        by (auto simp: unsent_def)
      have "fst p \<noteq> i"
      proof
        assume "fst p = i"
        with same[of p] p(1) have "p = (i, t)" by simp
        with p show False by simp
      qed
      with p show "c \<in> set (unsent s')" unfolding unsent_def eq' by auto
    qed
  qed
qed

lemma unsent_gone:
  assumes "keys_ok (fr_tasks s)" and "map_of (fr_tasks s) i = Some t" and "tk_sent t" and "fr_tasks s' = del i (fr_tasks s)"
  shows "unsent s' = unsent s"
proof -
  have "filter (\<lambda>p. \<not> tk_sent (snd p)) (del i (fr_tasks s)) = filter (\<lambda>p. \<not> tk_sent (snd p)) (fr_tasks s)"
    using assms(1-3) unfolding del_def filter_filter
    by (intro filter_cong) (auto simp: in_set_map_of)
  then show ?thesis by (simp add: unsent_def assms(4))
qed

lemma claim_cases:
  obtains (refused) e where "claim_request lib ch now session key command args es = (Inl e, es)"
  | (kept) r where "claim_request lib ch now session key command args es = (r, filter (request_kept now) es)"
      "\<And>c. r \<noteq> Inr (New c)"
  | (fresh) d where "claim_request lib ch now session key command args es = (Inr (New ch),
        put (request_key session key) \<lparr>rr_digest = d, rr_started = now, rr_channel = ch, rr_result = None\<rparr>
          (filter (request_kept now) es))"
      "map_of (filter (request_kept now) es) (request_key session key) = None"
      "length (filter (request_kept now) es) < 1024"
      "\<exists>bytes. rl_to_vec lib args = Inr bytes \<and> d = rl_sha lib (command @ [CHR 0x00] @ bytes)"
  by (cases "claim_request lib ch now session key command args es")
    (auto simp: claim_request_def Let_def split: if_splits sum.splits option.splits)

lemma front_ok_same_owing:
  assumes "front_ok s" and "owing s' = owing s" and "fr_channels s' = fr_channels s"
    and "list_all (\<lambda>p. record_ok s (snd p)) (fr_requests s) \<Longrightarrow> list_all (\<lambda>p. record_ok s (snd p)) (fr_requests s')"
    and "keys_ok (fr_requests s')" and "length (fr_requests s') \<le> 1024"
    and "keys_ok (fr_tasks s')" and "set (fr_tasks s') \<subseteq> set (fr_tasks s)" and "length (fr_tasks s') \<le> 128"
    and "fr_next s' = fr_next s" and "fr_aborted s' = fr_aborted s" and "fr_started s' = fr_started s"
    and "fr_pending s' = fr_pending s"
  shows "front_ok s'"
proof -
  have "record_ok s' = record_ok s" using assms(2,3) by (auto simp: record_ok_def fun_eq_iff)
  then show ?thesis using assms by (auto simp: front_ok_def)
qed

lemma front_step_ok:
  assumes ok: "front_ok s" and run: "front_step lib op s = Some s'"
  shows "front_ok s'"
proof (cases op)
  case (FClaim now session key command args)
  note D = front_okD[OF ok]
  have kept: "list_all (\<lambda>p. record_ok s (snd p)) (filter q (fr_requests s))" "keys_ok (filter q (fr_requests s))"
    "length (filter q (fr_requests s)) \<le> 1024" for q
    using D(1,4,11) by (auto simp: list_all_iff keys_ok_filter intro: le_trans[OF length_filter_le])
  show ?thesis
  proof (cases rule: claim_cases[of lib "fr_channels s" now session key command args "fr_requests s"])
    case (refused e)
    with FClaim run ok show ?thesis by auto
  next
    case (kept r)
    then have s': "s' = s\<lparr>fr_requests := filter (request_kept now) (fr_requests s)\<rparr>"
      using FClaim run by (auto split: sum.splits claim.splits)
    show ?thesis
      by (rule front_ok_same_owing[OF ok])
        (use D \<open>\<And>q. length (filter q (fr_requests s)) \<le> 1024\<close> in
          \<open>auto simp: s' owing_def unsent_def list_all_iff keys_ok_filter\<close>)
  next
    case (fresh d)
    let ?n = "fr_channels s" and ?F = "filter (request_kept now) (fr_requests s)"
    let ?r = "\<lparr>rr_digest = d, rr_started = now, rr_channel = ?n, rr_result = None\<rparr>"
    have s': "s' = s\<lparr>fr_requests := put (request_key session key) ?r ?F, fr_channels := ?n + 1, fr_pending := ?n # fr_pending s\<rparr>"
      using FClaim run fresh(1) by simp
    have owing: "owing s' = ?n # owing s" by (simp add: s' owing_def unsent_def)
    have channels: "fr_channels s' = Suc ?n" by (simp add: s')
    have "record_ok s' r" if "record_ok s r" for r using that by (auto simp: record_ok_def owing channels)
    moreover have "record_ok s' ?r" by (simp add: record_ok_def owing channels)
    ultimately have "list_all (\<lambda>p. record_ok s' (snd p)) (put (request_key session key) ?r ?F)"
      using kept(1)[of "request_kept now"] by (intro list_all_put) (auto elim: list.pred_mono_strong)
    moreover have "?n \<notin> set (owing s)" using D(6) by blast
    moreover have "tk_channel (snd p) \<noteq> ?n" if "p \<in> set (fr_tasks s)" for p using D(9)[OF that] by simp
    ultimately show ?thesis
      using D kept(2) fresh(2,3) owing unfolding front_ok_def by (auto simp: s' keys_ok_put length_put intro: less_SucI)
  qed
next
  case (FAdmit c)
  note D = front_okD[OF ok]
  have c: "c \<in> set (fr_pending s)" using FAdmit run by (auto split: if_splits)
  have d: "distinct (fr_pending s)" "distinct (unsent s)" "set (fr_pending s) \<inter> set (unsent s) = {}"
    using D(5) by (auto simp: owing_def)
  show ?thesis
  proof (cases "fr_closed s \<or> length (fr_tasks s) \<ge> 128")
    case True
    then have s': "s' = s\<lparr>fr_pending := remove1 c (fr_pending s),
        fr_requests := send_outcome c (outcome_of_error (rl_encode lib) admission_closed) (fr_requests s)\<rparr>"
      using FAdmit run c by (auto simp: spawn_request_def)
    have owing: "set (owing s') = set (owing s) - {c}" "distinct (owing s')"
      using d c by (auto simp: s' owing_def unsent_def)
    have "list_all (\<lambda>p. record_ok s' (snd p)) (fr_requests s')"
    proof (rule records_send[OF D(1,4)])
      show "fr_requests s' = send_all [c] (outcome_of_error (rl_encode lib) admission_closed) (fr_requests s)"
        "fr_channels s' = fr_channels s" by (simp_all add: s' send_one)
      show "set (owing s') = set (owing s) - set [c]" using owing(1) by simp
    qed
    moreover have frame: "fr_channels s' = fr_channels s" "fr_tasks s' = fr_tasks s" "fr_next s' = fr_next s"
      "fr_aborted s' = fr_aborted s" "fr_started s' = fr_started s" "length (fr_requests s') = length (fr_requests s)"
      by (simp_all add: s')
    moreover have "keys_ok (fr_requests s')" using D(1) by (simp add: s')
    moreover have "set (fr_pending s') \<subseteq> set (fr_pending s)" by (simp add: s' set_remove1_subset)
    then have "set (fr_started s') \<inter> set (fr_pending s') = {}" using D(14) unfolding frame by blast
    moreover have "set (fr_aborted s') \<inter> set (owing s') = {}" using D(7) unfolding frame owing(1) by blast
    moreover have "\<forall>c \<in> set (owing s'). c < fr_channels s" using D(6) unfolding owing(1) by blast
    moreover have "\<forall>p \<in> set (fr_tasks s). tk_channel (snd p) < fr_channels s \<and> (tk_sent (snd p) \<longrightarrow> tk_channel (snd p) \<notin> set (owing s'))"
      using D(9,10) unfolding owing(1) by blast
    ultimately show ?thesis
      using D(2,8,11-13,15) owing(2) ok[unfolded front_ok_def] unfolding front_ok_def by simp
  next
    case False
    let ?t = "\<lparr>tk_channel = c, tk_sent = False\<rparr>"
    have new: "map_of (fr_tasks s) (fr_next s + 1) = None"
      using D(3) by (fastforce simp: map_of_eq_None_iff)
    have s': "s' = s\<lparr>fr_pending := remove1 c (fr_pending s), fr_next := fr_next s + 1, fr_started := c # fr_started s,
        fr_tasks := fr_tasks s @ [(fr_next s + 1, ?t)]\<rparr>"
      using False FAdmit run c new by (auto simp: spawn_request_def put_def)
    have owing: "set (owing s') = set (owing s)" "distinct (owing s')"
      using d c by (auto simp: s' owing_def unsent_def)
    then have "record_ok s' = record_ok s" by (simp add: record_ok_def fun_eq_iff s')
    moreover have "c \<in> set (owing s)" using c by (simp add: owing_def)
    moreover have "keys_ok (fr_tasks s')" using D(2) new by (simp add: s' keys_ok_def map_of_eq_None_iff)
    ultimately show ?thesis
      using D owing c False d(1) set_remove1_subset[of c "fr_pending s"]
      unfolding front_ok_def by (auto simp: s' le_SucI)
  qed
next
  case (FSend i v)
  note D = front_okD[OF ok]
  obtain t where t: "map_of (fr_tasks s) i = Some t" "\<not> tk_sent t"
    and s': "s' = s\<lparr>fr_tasks := put i (t\<lparr>tk_sent := True\<rparr>) (fr_tasks s), fr_requests := send_outcome (tk_channel t) v (fr_requests s)\<rparr>"
    using FSend run by (auto split: option.splits if_splits)
  have it: "(i, t) \<in> set (fr_tasks s)" using t(1) D(2) by (simp add: in_set_map_of)
  have d: "distinct (fr_pending s)" "distinct (unsent s)" "set (fr_pending s) \<inter> set (unsent s) = {}"
    using D(5) by (auto simp: owing_def)
  have u: "set (unsent s') = set (unsent s) - {tk_channel t}" "distinct (unsent s')"
    using unsent_send[OF D(2) t d(2)] by (simp_all add: s')
  have "tk_channel t \<in> set (unsent s)" using it t(2) by (force simp: unsent_def)
  with d u have owing: "set (owing s') = set (owing s) - {tk_channel t}" "distinct (owing s')"
    by (auto simp: owing_def s')
  have "list_all (\<lambda>p. record_ok s' (snd p)) (fr_requests s')"
  proof (rule records_send[OF D(1,4)])
    show "fr_requests s' = send_all [tk_channel t] v (fr_requests s)" "fr_channels s' = fr_channels s"
      by (simp_all add: s' send_one)
    show "set (owing s') = set (owing s) - set [tk_channel t]" using owing(1) by simp
  qed
  moreover have sub: "set (fr_tasks s') \<subseteq> insert (i, t\<lparr>tk_sent := True\<rparr>) (set (fr_tasks s))"
    by (auto simp: s' put_def split: if_splits)
  have task: "fst p \<le> fr_next s \<and> tk_channel (snd p) < fr_channels s \<and> (tk_sent (snd p) \<longrightarrow> tk_channel (snd p) \<notin> set (owing s'))"
    if "p \<in> set (fr_tasks s')" for p
  proof (cases "p \<in> set (fr_tasks s)")
    case True
    then show ?thesis using D(3)[OF True] D(9)[OF True] D(10)[OF True] owing(1) by blast
  next
    case False
    then have "p = (i, t\<lparr>tk_sent := True\<rparr>)" using sub that by blast
    then show ?thesis using D(3)[OF it] D(9)[OF it] owing(1) by simp
  qed
  have frame: "fr_channels s' = fr_channels s" "fr_next s' = fr_next s" "fr_pending s' = fr_pending s"
    "fr_aborted s' = fr_aborted s" "fr_started s' = fr_started s" "length (fr_requests s') = length (fr_requests s)"
    "length (fr_tasks s') = length (fr_tasks s)"
    using t(1) by (simp_all add: s' length_put)
  moreover have "keys_ok (fr_requests s')" "keys_ok (fr_tasks s')" using D(1,2) by (simp_all add: s' keys_ok_put)
  moreover have "set (fr_aborted s') \<inter> set (owing s') = {}" using D(7) unfolding frame owing(1) by blast
  moreover have "\<forall>c \<in> set (owing s'). c < fr_channels s" using D(6) unfolding owing(1) by blast
  ultimately show ?thesis
    using D(8,11-15) owing(2) task unfolding front_ok_def by simp
next
  case (FGone i)
  note D = front_okD[OF ok]
  obtain t where t: "map_of (fr_tasks s) i = Some t" "tk_sent t" and s': "s' = s\<lparr>fr_tasks := del i (fr_tasks s)\<rparr>"
    using FGone run by (auto split: option.splits if_splits)
  have "owing s' = owing s" using unsent_gone[OF D(2) t, of s'] by (simp add: owing_def s')
  then show ?thesis
    by (rule front_ok_same_owing[OF ok])
      (use D in \<open>auto simp: s' keys_ok_filter del_def intro: le_trans[OF length_filter_le]\<close>)
next
  case (FLate c v)
  note D = front_okD[OF ok]
  have c: "c \<in> set (fr_aborted s)" and s': "s' = s\<lparr>fr_requests := send_outcome c v (fr_requests s)\<rparr>"
    using FLate run by (auto split: if_splits)
  have owing: "owing s' = owing s" by (simp add: s' owing_def unsent_def)
  have "list_all (\<lambda>p. record_ok s' (snd p)) (fr_requests s')"
  proof (rule records_send[OF D(1,4)])
    show "fr_requests s' = send_all [c] v (fr_requests s)" "fr_channels s' = fr_channels s"
      by (simp_all add: s' send_one)
    have "c \<notin> set (owing s)" using c D(7) by blast
    then show "set (owing s') = set (owing s) - set [c]" unfolding owing by simp
  qed
  moreover have "record_ok s' = record_ok s" using owing by (simp add: record_ok_def fun_eq_iff s')
  ultimately show ?thesis
    by (intro front_ok_same_owing[OF ok owing]) (use D in \<open>auto simp: s'\<close>)
next
  case FClose
  with run have s': "s' = s\<lparr>fr_closed := True\<rparr>" by simp
  show ?thesis
    by (rule front_ok_same_owing[OF ok]) (use front_okD[OF ok] in \<open>auto simp: s' owing_def unsent_def\<close>)
next
  case FCancel
  note D = front_okD[OF ok]
  let ?cs = "map (\<lambda>p. tk_channel (snd p)) (fr_tasks s)"
  from FCancel run have s': "s' = cancel_requests lib s" by simp
  have owing: "owing s' = fr_pending s" by (simp add: s' cancel_requests_def Let_def owing_def unsent_def)
  have apart: "c \<notin> set (fr_pending s)" if c: "c \<in> set ?cs" for c
  proof -
    obtain p where p: "p \<in> set (fr_tasks s)" "c = tk_channel (snd p)" using c by auto
    show ?thesis
    proof (cases "tk_sent (snd p)")
      case True
      with D(10)[OF p(1)] p(2) show ?thesis by (simp add: owing_def)
    next
      case False
      then have "c \<in> set (unsent s)" using p by (force simp: unsent_def)
      then show ?thesis using D(5) by (auto simp: owing_def)
    qed
  qed
  have unsent: "set (unsent s) \<subseteq> set ?cs" by (auto simp: unsent_def)
  have set_owing: "set (owing s') = set (owing s) - set ?cs"
    using apart unsent unfolding owing by (auto simp: owing_def)
  have "list_all (\<lambda>p. record_ok s' (snd p)) (fr_requests s')"
    by (rule records_send[OF D(1,4) _ _ set_owing]) (auto simp: s' cancel_requests_def Let_def)
  moreover have "distinct (owing s')" using D(5) unfolding owing by (simp add: owing_def)
  moreover have "set (fr_aborted s') \<inter> set (owing s') = {}" "set (fr_aborted s') \<subseteq> {..<fr_channels s}"
    using apart D(7-9) unfolding owing by (auto simp: s' cancel_requests_def Let_def owing_def)
  moreover have "\<forall>c \<in> set (owing s'). c < fr_channels s" using D(6) unfolding owing by (simp add: owing_def)
  moreover have "fr_channels s' = fr_channels s" "fr_tasks s' = []" "fr_pending s' = fr_pending s"
    "fr_started s' = fr_started s" "length (fr_requests s') = length (fr_requests s)" "keys_ok (fr_tasks s')"
    using D(1) by (simp_all add: s' cancel_requests_def Let_def keys_ok_def)
  moreover have "keys_ok (fr_requests s')" using D(1) by (simp add: s' cancel_requests_def Let_def)
  ultimately show ?thesis
    using D(11,13-15) unfolding front_ok_def by simp
qed

lemma run_front_ok: "front_ok s \<Longrightarrow> run_front lib ops s = Some s' \<Longrightarrow> front_ok s'"
  by (induction ops arbitrary: s) (auto split: option.splits dest: front_step_ok)

lemma new_front_ok: "front_ok new_front"
  by (simp add: front_ok_def new_front_def owing_def unsent_def keys_ok_def)

section \<open>A request runs once\<close>

definition kept_record :: "front \<Rightarrow> string \<Rightarrow> string \<Rightarrow> nat \<Rightarrow> nat \<Rightarrow> bool" where
  "kept_record s key digest t ch \<longleftrightarrow> (case map_of (fr_requests s) key of
     None \<Rightarrow> False | Some r \<Rightarrow> rr_digest r = digest \<and> rr_started r = t \<and> rr_channel r = ch)"

fun claimed_at :: "front_op \<Rightarrow> nat list" where
  "claimed_at (FClaim now _ _ _ _) = [now]"
| "claimed_at _ = []"

lemma send_none: "send_all [] v es = es"
  by (simp add: send_all_def)

lemma kept_record_send:
  "fr_requests s' = send_all cs v (fr_requests s) \<Longrightarrow> kept_record s' key d t ch = kept_record s key d t ch"
  by (auto simp: kept_record_def map_of_send_all split: option.splits)

lemma step_sends:
  assumes "front_step lib op s = Some s'" and "claimed_at op = []"
  shows "\<exists>cs v. fr_requests s' = send_all cs v (fr_requests s)"
proof (cases op)
  case (FAdmit c)
  then consider "fr_requests s' = send_outcome c (outcome_of_error (rl_encode lib) admission_closed) (fr_requests s)"
    | "fr_requests s' = fr_requests s"
    using assms(1) by (auto simp: spawn_request_def split: if_splits)
  then show ?thesis by cases (metis send_one, metis send_none)
next
  case (FSend i v)
  then obtain c where "fr_requests s' = send_outcome c v (fr_requests s)"
    using assms(1) by (auto split: option.splits if_splits)
  then show ?thesis by (metis send_one)
next
  case (FGone i)
  then have "fr_requests s' = fr_requests s" using assms(1) by (auto split: option.splits if_splits)
  then show ?thesis by (metis send_none)
next
  case (FLate c v)
  then have "fr_requests s' = send_outcome c v (fr_requests s)" using assms(1) by (auto split: if_splits)
  then show ?thesis by (metis send_one)
next
  case FClose
  then have "fr_requests s' = fr_requests s" using assms(1) by auto
  then show ?thesis by (metis send_none)
next
  case FCancel
  then have "fr_requests s' = send_all (map (\<lambda>p. tk_channel (snd p)) (fr_tasks s))
      (outcome_of_error (rl_encode lib) service_stopping) (fr_requests s)"
    using assms(1) by (auto simp: cancel_requests_def Let_def)
  then show ?thesis by blast
qed (use assms(2) in auto)

lemma kept_record_filter:
  assumes "front_ok s" and "kept_record s key d t ch" and "n < t + REQUEST_TTL \<or> ch \<in> set (owing s)"
  shows "\<exists>r. map_of (filter (request_kept n) (fr_requests s)) key = Some r \<and> rr_digest r = d \<and> rr_started r = t \<and> rr_channel r = ch"
proof -
  obtain r where r: "map_of (fr_requests s) key = Some r" "rr_digest r = d" "rr_started r = t" "rr_channel r = ch"
    using assms(2) by (auto simp: kept_record_def split: option.splits)
  have k: "keys_ok (fr_requests s)" and l: "list_all (\<lambda>p. record_ok s (snd p)) (fr_requests s)"
    using front_okD[OF assms(1)] by blast+
  have "record_ok s r" using l r(1) unfolding list_all_keyed[OF k, where P = "record_ok s"] by blast
  then have "request_kept n (key, r)"
    using assms(3) r(3,4) by (auto simp: request_kept_def record_ok_def REQUEST_TTL_def)
  with map_of_filter_keys[OF k, where p = "request_kept n" and k = key] r show ?thesis by simp
qed

lemma kept_record_step:
  assumes ok: "front_ok s" and step: "front_step lib op s = Some s'" and kept: "kept_record s key d t ch"
    and time: "\<forall>n \<in> set (claimed_at op). n < t + REQUEST_TTL \<or> ch \<in> set (owing s)"
  shows "kept_record s' key d t ch"
proof (cases op)
  case (FClaim n session key' command args)
  obtain r where r: "map_of (filter (request_kept n) (fr_requests s)) key = Some r"
      "rr_digest r = d" "rr_started r = t" "rr_channel r = ch"
    using kept_record_filter[OF ok kept, of n] time FClaim by auto
  show ?thesis
  proof (cases rule: claim_cases[of lib "fr_channels s" n session key' command args "fr_requests s"])
    case (refused e)
    with step FClaim kept show ?thesis by (auto simp: kept_record_def)
  next
    case (kept q)
    then have "fr_requests s' = filter (request_kept n) (fr_requests s)"
      using FClaim step by (auto split: sum.splits claim.splits)
    with r show ?thesis by (simp add: kept_record_def)
  next
    case (fresh x)
    then have s': "fr_requests s' = put (request_key session key')
        \<lparr>rr_digest = x, rr_started = n, rr_channel = fr_channels s, rr_result = None\<rparr>
        (filter (request_kept n) (fr_requests s))"
      using FClaim step by auto
    have "key \<noteq> request_key session key'" using r(1) fresh(2) by auto
    with r show ?thesis by (simp add: kept_record_def s' map_of_put)
  qed
qed (use step_sends[OF step] kept kept_record_send in auto)

text \<open>Only a claim makes a channel owe an answer, and that channel is new.\<close>

lemma owing_step:
  assumes ok: "front_ok s" and step: "front_step lib op s = Some s'"
  shows "set (owing s') \<subseteq> insert (fr_channels s) (set (owing s)) \<and> fr_channels s \<le> fr_channels s'"
proof (cases op)
  case (FClaim n session key command args)
  show ?thesis
  proof (cases rule: claim_cases[of lib "fr_channels s" n session key command args "fr_requests s"])
    case (refused e)
    then have "s' = s" using FClaim step by auto
    then show ?thesis by auto
  next
    case (kept q)
    then have "s' = s\<lparr>fr_requests := filter (request_kept n) (fr_requests s)\<rparr>"
      using FClaim step by (auto split: sum.splits claim.splits)
    then show ?thesis by (auto simp: owing_def unsent_def)
  next
    case (fresh x)
    then show ?thesis using FClaim step by (auto simp: owing_def unsent_def)
  qed
next
  case (FAdmit c)
  then have c: "c \<in> set (fr_pending s)" using step by (auto split: if_splits)
  have r: "set (remove1 c (fr_pending s)) \<subseteq> set (fr_pending s)" by (rule set_remove1_subset)
  show ?thesis
  proof (cases "fr_closed s \<or> length (fr_tasks s) \<ge> 128")
    case True
    then show ?thesis using FAdmit step c r by (auto simp: spawn_request_def owing_def unsent_def)
  next
    case False
    have "fr_tasks s' = put (fr_next s + 1) \<lparr>tk_channel = c, tk_sent = False\<rparr> (fr_tasks s)"
      "fr_pending s' = remove1 c (fr_pending s)" "fr_channels s' = fr_channels s"
      using False FAdmit step c by (auto simp: spawn_request_def)
    moreover from this(1) have "set (unsent s') \<subseteq> insert c (set (unsent s))"
      by (auto simp: unsent_def put_def split: if_splits)
    ultimately show ?thesis using c r unfolding owing_def by auto
  qed
next
  case (FSend i v)
  note D = front_okD[OF ok]
  obtain t where t: "map_of (fr_tasks s) i = Some t" "\<not> tk_sent t"
    and s': "s' = s\<lparr>fr_tasks := put i (t\<lparr>tk_sent := True\<rparr>) (fr_tasks s), fr_requests := send_outcome (tk_channel t) v (fr_requests s)\<rparr>"
    using FSend step by (auto split: option.splits if_splits)
  have "distinct (unsent s)" using D(5) by (simp add: owing_def)
  from unsent_send(1)[OF D(2) t this, of s'] show ?thesis by (auto simp: s' owing_def)
next
  case (FGone i)
  then show ?thesis using step by (auto simp: owing_def unsent_def del_def split: option.splits if_splits)
next
  case (FLate c v)
  then show ?thesis using step by (auto simp: owing_def unsent_def split: if_splits)
next
  case FClose
  then show ?thesis using step by (auto simp: owing_def unsent_def)
next
  case FCancel
  then show ?thesis using step by (auto simp: owing_def unsent_def cancel_requests_def Let_def)
qed

lemma owing_run:
  assumes "front_ok s" and "run_front lib ops s = Some s'" and "ch < fr_channels s" and "ch \<in> set (owing s')"
  shows "ch \<in> set (owing s)"
  using assms
proof (induction ops arbitrary: s)
  case (Cons op ops)
  then obtain z where z: "front_step lib op s = Some z" "run_front lib ops z = Some s'"
    by (auto split: option.splits)
  have "ch \<in> set (owing z)"
    using Cons.IH[OF front_step_ok[OF Cons.prems(1) z(1)] z(2)] owing_step[OF Cons.prems(1) z(1)] Cons.prems(3,4) by simp
  with owing_step[OF Cons.prems(1) z(1)] Cons.prems(3) show ?case by blast
qed auto

lemma kept_record_run:
  assumes "front_ok s" and "run_front lib ops s = Some s'" and "kept_record s key d t ch" and "ch < fr_channels s"
    and "\<forall>n \<in> set (concat (map claimed_at ops)). n \<le> now" and "now < t + REQUEST_TTL \<or> ch \<in> set (owing s')"
  shows "kept_record s' key d t ch"
  using assms
proof (induction ops arbitrary: s)
  case (Cons op ops)
  then obtain z where z: "front_step lib op s = Some z" "run_front lib ops z = Some s'"
    by (auto split: option.splits)
  have "\<forall>n \<in> set (claimed_at op). n < t + REQUEST_TTL \<or> ch \<in> set (owing s)"
    using Cons.prems(5,6) owing_run[OF Cons.prems(1,2,4)] by (auto intro: le_less_trans)
  from kept_record_step[OF Cons.prems(1) z(1) Cons.prems(3) this] have "kept_record z key d t ch" .
  moreover have "ch < fr_channels z" using owing_step[OF Cons.prems(1) z(1)] Cons.prems(4) by simp
  ultimately show ?case
    using Cons.IH[OF front_step_ok[OF Cons.prems(1) z(1)] z(2)] Cons.prems(5,6) by simp
qed auto

lemma claim_kept:
  assumes "front_ok s" and "kept_record s (request_key session key) d t ch" and "now < t + REQUEST_TTL \<or> ch \<in> set (owing s)"
    and "rl_is_uuid lib key" and "rl_to_vec lib args = Inr bytes"
  shows "fst (claim_request lib c now session key command args (fr_requests s)) =
    (if rl_sha lib (command @ [CHR 0x00] @ bytes) = d then Inr (Existing ch)
     else Inl (new_api_error 409 ''idempotency_conflict'' ''This request identifier was already used with different arguments.''))"
  using kept_record_filter[OF assms(1-3)] assms(4,5) by (auto simp: claim_request_def Let_def)


definition sample_requests :: request_library where
  "sample_requests = \<lparr>rl_is_uuid = (\<lambda>k. length k = 4), rl_to_vec = (\<lambda>_. Inr ''{}''), rl_sha = rev, rl_encode = (\<lambda>_. JNull)\<rparr>"

definition sample_later :: "front_op list" where
  "sample_later = (let out = \<lparr>oc_status = 200, oc_body = JNull\<rparr>
     in [FAdmit 0, FClaim 20 ''s'' ''key2'' ''save'' JNull, FSend 1 out, FAdmit 1, FGone 1, FClose])"


text \<open>
  C24: the request registry is bounded and forgets no request.  In every history of the server's front
  there are at most 1024 remembered requests and 128 admitted tasks; the work of a channel starts at
  most once, and a remembered request has no outcome exactly while its caller is about to be admitted
  or its task has not answered.
\<close>

theorem requests_are_answered:
  assumes "run_front lib ops new_front = Some s"
  shows "length (fr_requests s) \<le> 1024 \<and> length (fr_tasks s) \<le> 128 \<and> distinct (fr_started s)
    \<and> (\<forall>(k, r) \<in> set (fr_requests s). rr_result r = None \<longleftrightarrow>
        (rr_channel r \<in> set (fr_pending s) \<or> (\<exists>(i, t) \<in> set (fr_tasks s). \<not> tk_sent t \<and> tk_channel t = rr_channel r)))"
proof -
  have ok: "front_ok s" using run_front_ok[OF new_front_ok assms] .
  have "rr_channel r \<in> set (owing s) \<longleftrightarrow> rr_channel r \<in> set (fr_pending s) \<or>
      (\<exists>(i, t) \<in> set (fr_tasks s). \<not> tk_sent t \<and> tk_channel t = rr_channel r)" for r
    by (force simp: owing_def unsent_def)
  with front_okD(4,11-13)[OF ok] show ?thesis by (fastforce simp: list_all_iff record_ok_def)
qed

lemma requests_are_answered_witness:
  "\<exists>s. run_front sample_requests (FClaim 10 ''s'' ''key1'' ''save'' JNull # sample_later) new_front = Some s
     \<and> distinct (fr_started s)"
proof -
  have "\<not> Option.is_none (run_front sample_requests (FClaim 10 ''s'' ''key1'' ''save'' JNull # sample_later) new_front)"
    by code_simp
  then obtain s where s: "run_front sample_requests (FClaim 10 ''s'' ''key1'' ''save'' JNull # sample_later) new_front = Some s"
    by (auto simp: Option.is_none_def)
  with requests_are_answered[OF s] show ?thesis by blast
qed

end
