(* ===== verification/SftpPaths.thy ===== *)
theory SftpPaths
  imports Model
begin

text \<open>
  \<^verbatim>\<open>crates/remotedeck-core/src/sftp.rs\<close>, the text it exchanges with \<^verbatim>\<open>sftp\<close>: batch lines, remote
  paths and the names of temporaries and backups.  Paths are strings of UTF-8 bytes.
\<close>

definition invalid :: "string \<Rightarrow> 'a app_result" where
  "invalid message = Inl (Validation message)"

definition has_line_byte :: "string \<Rightarrow> bool" where
  "has_line_byte s \<longleftrightarrow> list_ex (\<lambda>c. c \<in> {CHR 0x00, CHR 0x0D, CHR 0x0A}) s"

section \<open>Batch lines\<close>

definition quote_special :: "char \<Rightarrow> bool" where
  "quote_special c \<longleftrightarrow> c \<in> {CHR 0x5C, CHR 0x22, CHR ''*'', CHR ''?'', CHR ''['', CHR '']''}"

fun escape_special :: "string \<Rightarrow> string" where
  "escape_special [] = []"
| "escape_special (c # cs) = (if quote_special c then [CHR 0x5C, c] else [c]) @ escape_special cs"

definition batch_quote :: "string \<Rightarrow> string app_result" where
  "batch_quote v =
     (if v = [] \<or> has_line_byte v \<or> length v > 32767 then invalid ''SFTP batch path is invalid''
      else Inr (CHR 0x22 # escape_special v @ [CHR 0x22]))"

definition batch_command :: "string \<Rightarrow> string list \<Rightarrow> string app_result" where
  "batch_command command arguments =
     (if command = [] \<or> any_control command \<or> CHR '';'' \<in> set command then invalid ''SFTP batch command is invalid''
      else rbind (rfold (\<lambda>a line. rbind (batch_quote a) (\<lambda>q. Inr (line @ CHR '' '' # q))) arguments command)
        (\<lambda>line. Inr (line @ [CHR 0x0A])))"

section \<open>Remote paths\<close>

definition validate_remote_path :: "string \<Rightarrow> unit app_result" where
  "validate_remote_path path =
     (if path = [] \<or> length path > 4096 \<or> starts_with path ''-'' \<or> has_line_byte path
      then invalid ''remote path is invalid'' else Inr ())"

definition path_suffix :: "string \<Rightarrow> string" where
  "path_suffix v = (case strip_prefix ''~/'' v of Some r \<Rightarrow> r | None \<Rightarrow> dropWhile (\<lambda>c. c = CHR ''/'') v)"

text \<open>The loop over the components; \<open>None\<close> is the early return.\<close>

fun path_depth :: "string list \<Rightarrow> nat \<Rightarrow> nat option" where
  "path_depth [] depth = Some depth"
| "path_depth (c # cs) depth =
     (if c = [] \<or> c = ''.'' then path_depth cs depth
      else if c = ''..'' then (if depth = 0 then None else path_depth cs (depth - 1))
      else path_depth cs (depth + 1))"

definition components :: "string \<Rightarrow> string list" where
  "components v = split_on (\<lambda>c. c = CHR ''/'') v"

definition remote_path_is_dangerous :: "string \<Rightarrow> bool" where
  "remote_path_is_dangerous path =
     (if path \<noteq> trim path then True
      else if path \<in> set [[], ''/'', ''//'', ''.'', ''..'', ''~'', ''~/''] then True
      else if \<not> starts_with path ''/'' \<and> \<not> starts_with path ''~/'' then True
      else case path_depth (components (path_suffix path)) 0 of None \<Rightarrow> True | Some depth \<Rightarrow> depth = 0)"

definition validate_destructive_remote_path :: "string \<Rightarrow> unit app_result" where
  "validate_destructive_remote_path path =
     rbind (validate_remote_path path) (\<lambda>_.
       if remote_path_is_dangerous path
       then invalid ''refusing a destructive operation on a remote root or ambiguous path'' else Inr ())"

definition trim_slashes :: "string \<Rightarrow> string" where
  "trim_slashes s = rev (dropWhile (\<lambda>c. c = CHR ''/'') (rev s))"

text \<open>The position of the last slash, and what follows it (everything if there is none).\<close>

definition rfind_slash :: "string \<Rightarrow> nat option" where
  "rfind_slash s = (if CHR ''/'' \<in> set s
     then Some (length s - 1 - length (takeWhile (\<lambda>c. c \<noteq> CHR ''/'') (rev s))) else None)"

definition after_slash :: "string \<Rightarrow> string" where
  "after_slash s = rev (takeWhile (\<lambda>c. c \<noteq> CHR ''/'') (rev s))"

definition remote_parent :: "string \<Rightarrow> string option" where
  "remote_parent path =
     (let trimmed = trim_slashes path
      in case rfind_slash trimmed of
        None \<Rightarrow> None
      | Some index \<Rightarrow>
          if index = 0 then Some ''/''
          else if index = 1 \<and> starts_with trimmed ''~'' then Some ''~/''
          else Some (take index trimmed))"

definition remote_file_name :: "string \<Rightarrow> string option" where
  "remote_file_name path = (let name = after_slash (trim_slashes path) in if name = [] then None else Some name)"

definition remote_join :: "string \<Rightarrow> string \<Rightarrow> string" where
  "remote_join parent name =
     (if parent = ''/'' then ''/'' @ name
      else if ends_with parent ''/'' then parent @ name
      else parent @ ''/'' @ name)"

definition metadata_listing_target :: "string \<Rightarrow> string \<times> string option" where
  "metadata_listing_target path =
     (let target_name = (case remote_file_name path of
            Some name \<Rightarrow> if name \<in> set [''.'', ''..'', ''~''] then None else Some name
          | None \<Rightarrow> None);
        query_path = (case Option.bind target_name (\<lambda>_. remote_parent path) of
            Some p \<Rightarrow> p
          | None \<Rightarrow> if target_name \<noteq> None then ''.'' else path)
      in (query_path, target_name))"

section \<open>Temporaries, backups and names beside a destination\<close>

definition sibling :: "string \<Rightarrow> (string \<Rightarrow> string) \<Rightarrow> string app_result" where
  "sibling destination rename =
     rbind (ok_or (Validation ''remote destination has no parent'') (remote_parent destination)) (\<lambda>parent.
     rbind (ok_or (Validation ''remote destination has no name'') (remote_file_name destination)) (\<lambda>name.
     Inr (remote_join parent (rename name))))"

definition owned_remote_temp :: "string \<Rightarrow> string \<Rightarrow> string app_result" where
  "owned_remote_temp destination job_id =
     sibling destination (\<lambda>name. ''.'' @ name @ ''.remotedeck-'' @ job_id @ ''.part'')"

definition owned_remote_backup :: "string \<Rightarrow> string \<Rightarrow> string app_result" where
  "owned_remote_backup destination job_id =
     sibling destination (\<lambda>name. ''.'' @ name @ ''.remotedeck-'' @ job_id @ ''.backup'')"

definition conflict_name :: "string \<Rightarrow> nat \<Rightarrow> bool \<Rightarrow> string" where
  "conflict_name name counter is_directory =
     (let n = length name; tail = length (takeWhile (\<lambda>c. c \<noteq> CHR ''.'') (rev name)); index = n - 1 - tail
      in if \<not> is_directory \<and> CHR ''.'' \<in> set name \<and> index > 0 \<and> index + 1 < n
         then take index name @ '' ('' @ dec counter @ '')'' @ drop index name
         else name @ '' ('' @ dec counter @ '')'')"

definition conflict_remote_path :: "string \<Rightarrow> nat \<Rightarrow> bool \<Rightarrow> string app_result" where
  "conflict_remote_path path counter is_directory =
     sibling path (\<lambda>name. conflict_name name counter is_directory)"

text \<open>\<^verbatim>\<open>rsplit_once\<close> and \<^verbatim>\<open>strip_suffix\<close>.\<close>

fun rsplit_once :: "string \<Rightarrow> string \<Rightarrow> (string \<times> string) option" where
  "rsplit_once d [] = (if d = [] then Some ([], []) else None)"
| "rsplit_once d (c # cs) =
     (case rsplit_once d cs of
        Some (a, b) \<Rightarrow> Some (c # a, b)
      | None \<Rightarrow> map_option (\<lambda>r. ([], r)) (strip_prefix d (c # cs)))"

definition strip_suffix :: "string \<Rightarrow> string \<Rightarrow> string option" where
  "strip_suffix d s = (if ends_with s d then Some (take (length s - length d) s) else None)"

text \<open>\<open>is_uuid\<close> is \<^verbatim>\<open>Uuid::parse_str\<close>.\<close>

definition is_owned :: "(string \<Rightarrow> bool) \<Rightarrow> string \<Rightarrow> string \<Rightarrow> bool" where
  "is_owned is_uuid ending path =
     (case remote_file_name path of
        None \<Rightarrow> False
      | Some name \<Rightarrow>
          case rsplit_once ''.remotedeck-'' name of
            None \<Rightarrow> False
          | Some (_, r) \<Rightarrow> (case strip_suffix ending r of None \<Rightarrow> False | Some uuid \<Rightarrow> is_uuid uuid))"

definition is_owned_remote_temp :: "(string \<Rightarrow> bool) \<Rightarrow> string \<Rightarrow> bool" where
  "is_owned_remote_temp is_uuid path = is_owned is_uuid ''.part'' path"

definition is_owned_remote_backup :: "(string \<Rightarrow> bool) \<Rightarrow> string \<Rightarrow> bool" where
  "is_owned_remote_backup is_uuid path = is_owned is_uuid ''.backup'' path"

section \<open>What a batch line means\<close>

text \<open>
  The reader of a batch line that \<^verbatim>\<open>batch_quote\<close> writes for: words are separated by blanks; in double
  quotes a backslash takes away the meaning of the next character, and outside of that \<^verbatim>\<open>*\<close>, \<^verbatim>\<open>?\<close> and
  \<^verbatim>\<open>[\<close> are wildcards.
\<close>

datatype batch_char = Plain char | Wild char

definition batch_char :: "char \<Rightarrow> batch_char" where
  "batch_char c = (if c \<in> {CHR ''*'', CHR ''?'', CHR ''[''} then Wild c else Plain c)"

fun quoted_word :: "string \<Rightarrow> (batch_char list \<times> string) option" where
  "quoted_word [] = None"
| "quoted_word [c] = (if c = CHR 0x22 then Some ([], []) else None)"
| "quoted_word (c # d # cs) =
     (if c = CHR 0x22 then Some ([], d # cs)
      else if c = CHR 0x5C then map_option (\<lambda>(w, r). (Plain d # w, r)) (quoted_word cs)
      else map_option (\<lambda>(w, r). (batch_char c # w, r)) (quoted_word (d # cs)))"

definition bare_char :: "char \<Rightarrow> bool" where
  "bare_char c \<longleftrightarrow> c \<notin> {CHR '' '', CHR 0x22, CHR 0x5C}"

lemma quoted_word_length: "quoted_word s = Some (w, r) \<Longrightarrow> length r < length s"
  by (induction s arbitrary: w rule: quoted_word.induct) (fastforce split: if_splits)+

function batch_words :: "string \<Rightarrow> batch_char list list option" where
  "batch_words [] = Some []"
| "batch_words (c # cs) =
     (if c = CHR '' '' then batch_words cs
      else if c = CHR 0x22 then
        (case quoted_word cs of
           None \<Rightarrow> None
         | Some (w, r) \<Rightarrow> if r = [] \<or> hd r = CHR '' '' then map_option ((#) w) (batch_words r) else None)
      else if bare_char c then
        map_option ((#) (map batch_char (takeWhile bare_char (c # cs)))) (batch_words (dropWhile bare_char cs))
      else None)"
  by pat_completeness auto
termination
proof (relation "measure length", goal_cases)
  case (3 c cs p w r)
  then show ?case using quoted_word_length[of cs w r] by simp
qed (auto simp: length_dropWhile_le le_imp_less_Suc)

definition BATCH_COMMANDS :: "string list" where
  "BATCH_COMMANDS = [''ls -lan'', ''mkdir'', ''rename'', ''rmdir'', ''rm'', ''put'', ''put -r'', ''get'', ''get -r'']"

definition command_words :: "string \<Rightarrow> string list" where
  "command_words command = split_on (\<lambda>c. c = CHR '' '') command"

text \<open>The lines of a script that ends with a line break.\<close>

definition script_lines :: "string \<Rightarrow> string list" where
  "script_lines script = butlast (split_on (\<lambda>c. c = CHR 0x0A) script)"

lemma quoted_word_escape: "quoted_word (escape_special v @ CHR 0x22 # r) = Some (map Plain v, r)"
proof (induction v)
  case Nil
  then show ?case by (cases r) auto
next
  case (Cons c v)
  obtain d ds where tail: "escape_special v @ CHR 0x22 # r = d # ds"
    by (cases "escape_special v") auto
  show ?case
    using Cons by (auto simp: quote_special_def batch_char_def tail)
qed

definition quoted :: "string \<Rightarrow> string" where
  "quoted v = CHR 0x22 # escape_special v @ [CHR 0x22]"

definition argument_ok :: "string \<Rightarrow> bool" where
  "argument_ok v \<longleftrightarrow> v \<noteq> [] \<and> \<not> has_line_byte v \<and> length v \<le> 32767"

lemma batch_quote_iff [result_simps]: "batch_quote v = Inr q \<longleftrightarrow> argument_ok v \<and> q = quoted v"
  by (auto simp: batch_quote_def argument_ok_def quoted_def invalid_def)

lemma batch_words_args:
  "batch_words (concat (map (\<lambda>v. CHR '' '' # quoted v) vs)) = Some (map (map Plain) vs)"
proof (induction vs)
  case (Cons v vs)
  let ?r = "concat (map (\<lambda>v. CHR '' '' # quoted v) vs)"
  have "?r = [] \<or> hd ?r = CHR '' ''" by (cases vs) auto
  with Cons quoted_word_escape[of v ?r] show ?case by (simp add: quoted_def)
qed simp

lemma batch_words_command:
  assumes "command \<in> set BATCH_COMMANDS" and "r = [] \<or> hd r = CHR '' ''" and "batch_words r = Some ws"
  shows "batch_words (command @ r) = Some (map (map Plain) (command_words command) @ ws)"
proof -
  have "takeWhile bare_char r = []" "dropWhile bare_char r = r" using assms(2) by (cases r; simp add: bare_char_def)+
  with assms(1,3) show ?thesis
    by (auto simp: BATCH_COMMANDS_def command_words_def bare_char_def batch_char_def)
qed

lemma batch_command_iff:
  assumes "command \<in> set BATCH_COMMANDS"
  shows "batch_command command vs = Inr line \<longleftrightarrow>
    list_all argument_ok vs \<and> line = command @ concat (map (\<lambda>v. CHR '' '' # quoted v) vs) @ [CHR 0x0A]"
proof -
  have fold: "rfold (\<lambda>a line. rbind (batch_quote a) (\<lambda>q. Inr (line @ CHR '' '' # q))) vs start = Inr r \<longleftrightarrow>
      list_all argument_ok vs \<and> r = start @ concat (map (\<lambda>v. CHR '' '' # quoted v) vs)" for start r
    by (induction vs arbitrary: start) (auto simp: result_simps)
  have "list_all (\<lambda>c. c \<noteq> [] \<and> \<not> any_control c \<and> CHR '';'' \<notin> set c) BATCH_COMMANDS" by code_simp
  with assms have "command \<noteq> [] \<and> \<not> any_control command \<and> CHR '';'' \<notin> set command"
    by (auto simp: list_all_iff)
  then show ?thesis by (auto simp: batch_command_def fold result_simps)
qed

lemma escape_no_line: "CHR 0x0A \<notin> set v \<Longrightarrow> CHR 0x0A \<notin> set (escape_special v)"
  by (induction v) (auto simp: quote_special_def)

lemma batch_line_once:
  assumes "command \<in> set BATCH_COMMANDS" and "list_all argument_ok vs"
  shows "CHR 0x0A \<notin> set (command @ concat (map (\<lambda>v. CHR '' '' # quoted v) vs))"
proof -
  have "list_all (\<lambda>c. CHR 0x0A \<notin> set c) BATCH_COMMANDS" by code_simp
  then have "CHR 0x0A \<notin> set command" using assms(1) by (auto simp: list_all_iff)
  moreover have "CHR 0x0A \<notin> set (quoted v)" if "v \<in> set vs" for v
    using that assms(2) escape_no_line[of v] by (auto simp: quoted_def argument_ok_def has_line_byte_def list_all_iff list_ex_iff)
  ultimately show ?thesis by auto
qed

lemma split_on_line: "CHR 0x0A \<notin> set a \<Longrightarrow> split_on (\<lambda>c. c = CHR 0x0A) (a @ CHR 0x0A # b) = a # split_on (\<lambda>c. c = CHR 0x0A) b"
  by (induction a) auto

lemma split_on_nonempty [simp]: "split_on p s \<noteq> []"
  by (induction s) (auto split: list.splits)

fun batch_script :: "(string \<times> string list) list \<Rightarrow> string app_result" where
  "batch_script [] = Inr []"
| "batch_script ((command, arguments) # cs) =
     rbind (batch_command command arguments) (\<lambda>line. rbind (batch_script cs) (\<lambda>rest. Inr (line @ rest)))"

lemma batch_lines_read_back:
  assumes "\<forall>(command, arguments) \<in> set cs. command \<in> set BATCH_COMMANDS"
  shows "if list_all (\<lambda>(_, arguments). list_all argument_ok arguments) cs
    then \<exists>script. batch_script cs = Inr script \<and> map batch_words (script_lines script)
        = map (\<lambda>(command, arguments). Some (map (map Plain) (command_words command @ arguments))) cs
    else \<not> is_ok (batch_script cs)"
  using assms
proof (induction cs)
  case (Cons x cs)
  obtain command vs where x: "x = (command, vs)" by fastforce
  have command: "command \<in> set BATCH_COMMANDS" using Cons.prems x by simp
  show ?case
  proof (cases "list_all argument_ok vs \<and> is_ok (batch_script cs)")
    case True
    let ?line = "command @ concat (map (\<lambda>v. CHR '' '' # quoted v) vs)"
    obtain script where script: "batch_script cs = Inr script" using True by (auto simp: is_ok_iff)
    have line: "batch_command command vs = Inr (?line @ [CHR 0x0A])" using True by (simp add: batch_command_iff[OF command])
    have "concat (map (\<lambda>v. CHR '' '' # quoted v) vs) = [] \<or> hd (concat (map (\<lambda>v. CHR '' '' # quoted v) vs)) = CHR '' ''"
      by (cases vs) auto
    from batch_words_command[OF command this batch_words_args]
    have words: "batch_words ?line = Some (map (map Plain) (command_words command @ vs))" by simp
    have "script_lines (?line @ CHR 0x0A # script) = ?line # script_lines script"
      using split_on_line[OF batch_line_once[OF command]] True by (simp add: script_lines_def)
    with Cons line script words True x show ?thesis by (auto simp: is_ok_def split: if_splits)
  next
    case False
    then show ?thesis
      using Cons x batch_command_iff[OF command, of vs] by (auto simp: is_ok_iff result_simps split: if_splits)
  qed
qed (simp add: script_lines_def)



section \<open>Where a path leads\<close>

text \<open>
  The components of a path from its anchor, the root or the home directory, innermost first; \<open>None\<close> if
  it climbs above the anchor.
\<close>

fun walk :: "string list \<Rightarrow> string list \<Rightarrow> string list option" where
  "walk here [] = Some here"
| "walk here (c # cs) =
     (if c = [] \<or> c = ''.'' then walk here cs
      else if c = ''..'' then (case here of [] \<Rightarrow> None | _ # up \<Rightarrow> walk up cs)
      else walk (c # here) cs)"

definition anchored :: "string \<Rightarrow> bool" where
  "anchored path \<longleftrightarrow> starts_with path ''/'' \<or> starts_with path ''~/''"

definition resolve :: "string \<Rightarrow> string list option" where
  "resolve path = walk [] (components (path_suffix path))"

lemma walk_depth: "map_option length (walk here cs) = path_depth cs (length here)"
  by (induction here cs rule: walk.induct) (auto split: list.splits)

lemma walk_append: "walk here (cs @ ds) = Option.bind (walk here cs) (\<lambda>h. walk h ds)"
  by (induction here cs rule: walk.induct) (auto split: list.splits)

lemma components_append: "components (a @ CHR ''/'' # b) = components a @ components b"
proof (induction a)
  case (Cons c a)
  then show ?case by (cases "split_on (\<lambda>c. c = CHR ''/'') a") (auto simp: components_def split: list.splits)
qed (simp add: components_def)

lemma components_plain: "CHR ''/'' \<notin> set a \<Longrightarrow> components a = [a]"
  by (induction a) (auto simp: components_def)

lemma walk_slashes: "walk here (components (dropWhile (\<lambda>c. c = CHR ''/'') v)) = walk here (components v)"
  by (induction v) (auto simp: components_def)

lemma resolve_home: "resolve (''~/'' @ r) = walk [] (components r)"
  by (simp add: resolve_def path_suffix_def strip_prefix_iff)

lemma resolve_root: "\<not> starts_with path ''~/'' \<Longrightarrow> resolve path = walk [] (components path)"
  using walk_slashes[of "[]" path]
  by (auto simp: resolve_def path_suffix_def strip_prefix_iff starts_with_def split: option.splits)

lemma destructive_path_iff:
  "validate_destructive_remote_path path = Inr () \<longleftrightarrow>
     validate_remote_path path = Inr () \<and> trim path = path \<and> anchored path
     \<and> (\<exists>name dir. resolve path = Some (name # dir))"
proof -
  have depth: "path_depth (components (path_suffix path)) 0 = map_option length (resolve path)"
    using walk_depth[of "[]" "components (path_suffix path)"] by (simp add: resolve_def)
  have small: "resolve p = Some [] \<or> \<not> anchored p" if "p \<in> set [[], ''/'', ''//'', ''.'', ''..'', ''~'', ''~/'']" for p
    using that by (auto simp: resolve_def path_suffix_def components_def anchored_def starts_with_def)
  have "\<not> remote_path_is_dangerous path \<longleftrightarrow>
      trim path = path \<and> anchored path \<and> (\<exists>name dir. resolve path = Some (name # dir))"
    using small[of path]
    by (auto simp: remote_path_is_dangerous_def anchored_def depth neq_Nil_conv split: option.splits)
  then show ?thesis by (auto simp: validate_destructive_remote_path_def result_simps invalid_def)
qed

text \<open>
  C31: a path that a destructive operation accepts lies strictly below the root or the home directory:
  \<^verbatim>\<open>validate_destructive_remote_path\<close> accepts exactly the paths that pass the syntactic checks, have no
  blank at either end, start at the root or the home directory, and, with \<^verbatim>\<open>.\<close>, \<^verbatim>\<open>..\<close> and doubled slashes
  resolved, name something below it without ever climbing above it on the way.
\<close>

theorem destructive_path_is_below_anchor:
  "validate_destructive_remote_path path = Inr () \<longleftrightarrow>
     validate_remote_path path = Inr () \<and> trim path = path \<and> anchored path
     \<and> (\<exists>name dir. resolve path = Some (name # dir))"
  by (rule destructive_path_iff)

section \<open>Siblings\<close>

lemma trim_slashes_split: "\<exists>k. path = trim_slashes path @ replicate k (CHR ''/'')"
proof -
  have "takeWhile (\<lambda>c. c = CHR ''/'') (rev path) = replicate (length (takeWhile (\<lambda>c. c = CHR ''/'') (rev path))) (CHR ''/'')"
    by (induction "rev path" arbitrary: path) (auto intro!: replicate_eqI dest: set_takeWhileD)
  moreover have "rev path = takeWhile (\<lambda>c. c = CHR ''/'') (rev path) @ dropWhile (\<lambda>c. c = CHR ''/'') (rev path)" by simp
  ultimately have "path = trim_slashes path @ rev (replicate (length (takeWhile (\<lambda>c. c = CHR ''/'') (rev path))) (CHR ''/''))"
    unfolding trim_slashes_def by (metis rev_append rev_rev_ident)
  then show ?thesis by auto
qed

lemma last_slash_split:
  "CHR ''/'' \<in> set s \<Longrightarrow> s = take (length s - 1 - length (after_slash s)) s @ CHR ''/'' # after_slash s \<and> CHR ''/'' \<notin> set (after_slash s)"
proof -
  assume "CHR ''/'' \<in> set s"
  then obtain a b where ab: "s = a @ CHR ''/'' # b" "CHR ''/'' \<notin> set b" by (meson split_list_last)
  then have "takeWhile (\<lambda>c. c \<noteq> CHR ''/'') (rev s) = rev b"
    by (subst ab(1)) (auto simp: takeWhile_append2 takeWhile_tail)
  with ab show ?thesis by (simp add: after_slash_def)
qed

definition parent_of :: "string \<Rightarrow> string" where
  "parent_of pre = (if pre = [] then ''/'' else if pre = ''~'' then ''~/'' else pre)"

lemma parent_and_name:
  assumes "remote_parent path = Some parent" and "remote_file_name path = Some name"
  obtains pre k where "path = pre @ CHR ''/'' # name @ replicate k (CHR ''/'')" "CHR ''/'' \<notin> set name" "parent = parent_of pre"
proof -
  let ?t = "trim_slashes path"
  have slash: "CHR ''/'' \<in> set ?t" and name: "after_slash ?t = name"
    using assms by (auto simp: remote_parent_def remote_file_name_def rfind_slash_def Let_def split: if_splits)
  obtain pre where t: "?t = pre @ CHR ''/'' # name" "CHR ''/'' \<notin> set name" using last_slash_split[OF slash] name by blast
  have "takeWhile (\<lambda>c. c \<noteq> CHR ''/'') (rev ?t) = rev name"
    by (metis after_slash_def name rev_rev_ident)
  then have "rfind_slash ?t = Some (length pre)"
    using slash by (simp add: rfind_slash_def) (simp add: t(1))
  moreover have "length pre = 1 \<and> starts_with ?t ''~'' \<longleftrightarrow> pre = ''~''"
    by (cases pre) (auto simp: starts_with_def t(1))
  ultimately have "parent = parent_of pre"
    using assms(1) by (simp add: remote_parent_def Let_def parent_of_def t(1) split: if_splits)
  moreover obtain k where "path = ?t @ replicate k (CHR ''/'')" using trim_slashes_split by blast
  ultimately show thesis using that[of pre k] t by simp
qed

definition base :: "string \<Rightarrow> string list" where
  "base pre = (if starts_with (pre @ ''/'') ''~/'' then tl (components pre) else components pre)"

lemma components_nonempty [simp]: "components s \<noteq> []"
  by (simp add: components_def)

lemma resolve_components:
  "resolve path = walk [] (if starts_with path ''~/'' then tl (components path) else components path)"
proof (cases "starts_with path ''~/''")
  case True
  then obtain r where "path = ''~/'' @ r" by (metis append_eq_conv_conj append_take_drop_id starts_with_def)
  moreover have "components (''~/'' @ r) = ''~'' # components r"
    using components_append[of "''~''" r] by (simp add: components_def)
  ultimately show ?thesis using resolve_home[of r] starts_with_append[of "''~/''" r] by simp
next
  case False
  then show ?thesis by (simp add: resolve_root)
qed

lemma starts_home: "starts_with (pre @ CHR ''/'' # rest) ''~/'' \<longleftrightarrow> starts_with (pre @ ''/'') ''~/''"
proof (cases pre)
  case (Cons a pre')
  then show ?thesis by (cases pre') (simp_all add: starts_with_def)
qed (simp add: starts_with_def)

lemma resolve_below: "resolve (pre @ CHR ''/'' # rest) = Option.bind (walk [] (base pre)) (\<lambda>h. walk h (components rest))"
proof -
  have "resolve (pre @ CHR ''/'' # rest) = walk [] (base pre @ components rest)"
    using starts_home[of pre rest] by (simp add: resolve_components components_append base_def tl_append2)
  then show ?thesis unfolding walk_append .
qed

lemma base_slash: "walk [] (base (pre @ ''/'')) = walk [] (base pre)"
proof -
  have "components (pre @ ''/'') = components pre @ [[]]" using components_append[of pre "[]"] by (simp add: components_def)
  moreover have "starts_with (pre @ ''/'' @ ''/'') ''~/'' \<longleftrightarrow> starts_with (pre @ ''/'') ''~/''"
    using starts_home[of pre "''/''"] by simp
  moreover have "walk [] (cs @ [[]]) = walk [] cs" for cs by (cases "walk [] cs") (simp_all add: walk_append)
  ultimately show ?thesis by (simp add: base_def tl_append2)
qed

definition plain_name :: "string \<Rightarrow> bool" where
  "plain_name name \<longleftrightarrow> CHR ''/'' \<notin> set name \<and> name \<notin> {[], ''.'', ''..''}"

lemma walk_empties: "walk h (replicate k []) = Some h"
  by (induction k) auto

lemma components_trailing: "plain_name name \<Longrightarrow> walk h (components (name @ replicate k (CHR ''/''))) = Some (name # h)"
proof -
  assume n: "plain_name name"
  have "components (name @ replicate k (CHR ''/'')) = name # replicate k []"
    using n
  proof (induction k)
    case (Suc k)
    have "name @ replicate (Suc k) (CHR ''/'') = (name @ replicate k (CHR ''/'')) @ CHR ''/'' # []"
      by (simp add: replicate_append_same)
    then have "components (name @ replicate (Suc k) (CHR ''/'')) = components (name @ replicate k (CHR ''/'')) @ [[]]"
      using components_append[of "name @ replicate k (CHR ''/'')" "[]"] by (simp add: components_def)
    with Suc show ?case by (simp add: replicate_append_same)
  qed (simp add: components_plain plain_name_def)
  with n show ?thesis by (simp add: plain_name_def walk_empties)
qed

lemma join_parent: "\<exists>q. remote_join (parent_of pre) name = q @ CHR ''/'' # name \<and> walk [] (base q) = walk [] (base pre)"
proof (cases "ends_with pre ''/'' \<and> pre \<noteq> ''/''")
  case True
  then obtain q where q: "pre = q @ ''/''" by (metis append_take_drop_id ends_with_def)
  with True have "remote_join (parent_of pre) name = q @ CHR ''/'' # name"
    by (auto simp: remote_join_def parent_of_def)
  with q base_slash[of q] show ?thesis by auto
next
  case False
  show ?thesis
  proof (cases "pre = ''/''")
    case True
    then have "remote_join (parent_of pre) name = [] @ CHR ''/'' # name" by (simp add: remote_join_def parent_of_def)
    with True base_slash[of "[]"] show ?thesis by (metis append_Nil)
  next
    case pre: False
    then have "remote_join (parent_of pre) name = pre @ CHR ''/'' # name"
      using False by (auto simp: remote_join_def parent_of_def ends_with_def)
    then show ?thesis by blast
  qed
qed

lemma sibling_resolves:
  assumes "resolve path = Some (here # dir)" and "remote_file_name path = Some name" and "plain_name name"
    and "remote_parent path \<noteq> None" and "plain_name (rename name)"
  shows "here = name \<and> (\<exists>q. sibling path rename = Inr (q @ CHR ''/'' # rename name)
    \<and> resolve (q @ CHR ''/'' # rename name) = Some (rename name # dir))"
proof -
  obtain parent where parent: "remote_parent path = Some parent" using assms(4) by blast
  obtain pre k where pre: "path = pre @ CHR ''/'' # name @ replicate k (CHR ''/'')" "parent = parent_of pre"
    using parent_and_name[OF parent assms(2)] by blast
  have walked: "walk [] (base pre) = Some dir" "here = name"
    using assms(1) pre(1) components_trailing[OF assms(3)] by (auto simp: resolve_below split: Option.bind_splits)
  obtain q where q: "remote_join parent (rename name) = q @ CHR ''/'' # rename name" "walk [] (base q) = walk [] (base pre)"
    using join_parent pre(2) by blast
  have "resolve (q @ CHR ''/'' # rename name) = Some (rename name # dir)"
    using q(2) walked components_trailing[OF assms(5), of dir 0] by (simp add: resolve_below)
  with q(1) parent assms(2) walked(2) show ?thesis by (simp add: sibling_def)
qed

lemma rsplit_once_append: "rsplit_once d b = Some (x, y) \<Longrightarrow> rsplit_once d (a @ b) = Some (a @ x, y)"
  by (induction a) auto

lemma rsplit_once_none: "c \<notin> set a \<Longrightarrow> rsplit_once (c # d) b = None \<Longrightarrow> rsplit_once (c # d) (a @ b) = None"
  by (induction a) auto

lemma rsplit_once_last:
  assumes "c \<notin> set d" and "c \<notin> set a" and "rsplit_once (c # d) b = None"
  shows "rsplit_once (c # d) ((c # d) @ a @ b) = Some ([], a @ b)"
proof -
  have "rsplit_once (c # d) ((d @ a) @ b) = None" using assms by (intro rsplit_once_none) auto
  moreover have "strip_prefix (c # d) ((c # d) @ a @ b) = Some (a @ b)" by (simp only: strip_prefix_iff)
  ultimately show ?thesis by simp
qed

lemma remote_file_name_below: "CHR ''/'' \<notin> set f \<Longrightarrow> f \<noteq> [] \<Longrightarrow> remote_file_name (q @ CHR ''/'' # f) = Some f"
proof -
  assume f: "CHR ''/'' \<notin> set f" "f \<noteq> []"
  have "dropWhile (\<lambda>c. c = CHR ''/'') (rev f @ CHR ''/'' # rev q) = rev f @ CHR ''/'' # rev q"
    using f by (cases "rev f") auto
  then have "trim_slashes (q @ CHR ''/'' # f) = q @ CHR ''/'' # f" by (simp add: trim_slashes_def)
  moreover have "takeWhile (\<lambda>c. c \<noteq> CHR ''/'') (rev f @ CHR ''/'' # rev q) = rev f"
    using f by (auto simp: takeWhile_append2 takeWhile_tail)
  ultimately show ?thesis using f by (simp add: remote_file_name_def after_slash_def)
qed

lemma owned_name:
  assumes "is_uuid job_id" and "set job_id \<inter> {CHR ''/'', CHR ''.''} = {}" and "CHR ''/'' \<notin> set name"
    and "ending \<in> {''.part'', ''.backup''}"
  shows "is_owned is_uuid ending (q @ CHR ''/'' # (''.'' @ name @ ''.remotedeck-'' @ job_id @ ending))"
proof -
  let ?f = "''.'' @ name @ ''.remotedeck-'' @ job_id @ ending"
  have "CHR ''/'' \<notin> set ?f" using assms by auto
  then have name: "remote_file_name (q @ CHR ''/'' # ?f) = Some ?f" by (intro remote_file_name_below) auto
  have "rsplit_once ''.remotedeck-'' (''.remotedeck-'' @ job_id @ ending) = Some ([], job_id @ ending)"
    using assms(2,4) by (intro rsplit_once_last) auto
  from rsplit_once_append[OF this, of "''.'' @ name"]
  have "rsplit_once ''.remotedeck-'' ?f = Some (''.'' @ name, job_id @ ending)" by simp
  moreover have "strip_suffix ending (job_id @ ending) = Some job_id" by (simp add: strip_suffix_def ends_with_def)
  ultimately show ?thesis unfolding is_owned_def name using assms(1) by simp
qed

lemma siblings_of_destination:
  assumes "resolve destination = Some (here # dir)" and "remote_parent destination \<noteq> None"
    and "remote_file_name destination = Some name" and "plain_name name"
    and "is_uuid job_id" and "set job_id \<inter> {CHR ''/'', CHR ''.''} = {}"
  shows "\<exists>temporary backup. owned_remote_temp destination job_id = Inr temporary
    \<and> owned_remote_backup destination job_id = Inr backup
    \<and> is_owned_remote_temp is_uuid temporary \<and> is_owned_remote_backup is_uuid backup
    \<and> (\<exists>t b. resolve temporary = Some (t # dir) \<and> resolve backup = Some (b # dir) \<and> distinct [here, t, b])"
proof -
  let ?t = "\<lambda>name. ''.'' @ name @ ''.remotedeck-'' @ job_id @ ''.part''"
  let ?b = "\<lambda>name. ''.'' @ name @ ''.remotedeck-'' @ job_id @ ''.backup''"
  have slash: "CHR ''/'' \<notin> set name" using assms(4) by (simp add: plain_name_def)
  have plain: "plain_name (?t name)" "plain_name (?b name)" using assms(4,6) by (auto simp: plain_name_def)
  obtain q where q: "here = name" "owned_remote_temp destination job_id = Inr (q @ CHR ''/'' # ?t name)"
      "resolve (q @ CHR ''/'' # ?t name) = Some (?t name # dir)"
    using sibling_resolves[OF assms(1,3,4,2), where rename = ?t] plain(1) by (auto simp: owned_remote_temp_def)
  obtain r where r: "owned_remote_backup destination job_id = Inr (r @ CHR ''/'' # ?b name)"
      "resolve (r @ CHR ''/'' # ?b name) = Some (?b name # dir)"
    using sibling_resolves[OF assms(1,3,4,2), where rename = ?b] plain(2) by (auto simp: owned_remote_backup_def)
  have "length (?t name) \<noteq> length (?b name)" "length name < length (?t name)" "length name < length (?b name)" by simp_all
  then have "distinct [name, ?t name, ?b name]" by (metis distinct_length_2_or_more distinct_singleton less_irrefl)
  then show ?thesis
    using q r owned_name[of is_uuid job_id name, OF assms(5,6) slash] by (auto simp: is_owned_remote_temp_def is_owned_remote_backup_def)
qed

text \<open>
  The temporary and the backup of a transfer lie beside its destination and can be cleaned up.
  For a destination that passed the check of destructive paths and whose last component is a name,
  both lead into the directory of the destination, under names of their own, and are recognized as
  the application's temporary and backup, so that the code that removes them does not refuse.
\<close>

theorem temporary_is_removable_sibling:
  assumes "resolve destination = Some (here # dir)" and "remote_parent destination \<noteq> None"
    and "remote_file_name destination = Some name" and "plain_name name"
    and "is_uuid job_id" and "set job_id \<inter> {CHR ''/'', CHR ''.''} = {}"
  shows "\<exists>temporary backup. owned_remote_temp destination job_id = Inr temporary
    \<and> owned_remote_backup destination job_id = Inr backup
    \<and> is_owned_remote_temp is_uuid temporary \<and> is_owned_remote_backup is_uuid backup
    \<and> (\<exists>t b. resolve temporary = Some (t # dir) \<and> resolve backup = Some (b # dir) \<and> distinct [here, t, b])"
  using siblings_of_destination[of destination here dir name is_uuid job_id] assms by blast

lemma temporary_is_removable_sibling_witness:
  "\<exists>temporary. owned_remote_temp ''~/a//b.txt/'' ''id-1'' = Inr temporary \<and> is_owned_remote_temp (\<lambda>s. s = ''id-1'') temporary
     \<and> (\<exists>t. resolve temporary = Some (t # [''a'']))"
proof -
  have "resolve ''~/a//b.txt/'' = Some (''b.txt'' # [''a''])" "remote_file_name ''~/a//b.txt/'' = Some ''b.txt''"
    "plain_name ''b.txt''" "\<not> Option.is_none (remote_parent ''~/a//b.txt/'')"
    by code_simp+
  with temporary_is_removable_sibling[of "''~/a//b.txt/''" "''b.txt''" "[''a'']" "''b.txt''" "\<lambda>s. s = ''id-1''" "''id-1''"]
  show ?thesis by (auto simp: Option.is_none_def)
qed

end
