(* ===== verification/SftpTree.thy ===== *)
theory SftpTree
  imports SftpPaths Utf8 "HOL-Library.Product_Lexorder" "HOL-Library.List_Lexorder" "HOL-Library.Char_ord"
begin

text \<open>
  \<^verbatim>\<open>crates/remotedeck-core/src/sftp.rs\<close>, the operations on remote paths: the parser of \<^verbatim>\<open>ls -lan\<close>,
  the basic operations, the deletion of a tree and the measuring of one.

  What runs \<^verbatim>\<open>sftp\<close> is a parameter: from a script and the remote side \<open>'w\<close> to an error of its own or
  the captured output, and the remote side afterwards.
\<close>

section \<open>Entries\<close>

datatype sftp_entry_kind = FileKind | DirectoryKind | SymlinkKind | OtherKind

record sftp_entry =
  se_name :: string
  se_path :: string
  se_kind :: sftp_entry_kind
  se_size :: nat
  se_modified_at :: "string option"
  se_permissions :: "string option"

definition MAX_REMOTE_ENTRIES :: nat where "MAX_REMOTE_ENTRIES = 10000"
definition MAX_RECURSION_DEPTH :: nat where "MAX_RECURSION_DEPTH = 64"
definition MAX_TREE_PATH_BYTES :: nat where "MAX_TREE_PATH_BYTES = 8 * 1024 * 1024"
definition MAX_BATCH_BYTES :: nat where "MAX_BATCH_BYTES = 1048576"

section \<open>The parser of listings\<close>

text \<open>\<^verbatim>\<open>str::lines\<close>\<close>

definition str_lines :: "string \<Rightarrow> string list" where
  "str_lines s =
     (let ls = split_on (\<lambda>c. c = CHR 0x0A) s; ls = (if last ls = [] then butlast ls else ls)
      in map (\<lambda>l. if ends_with l [CHR 0x0D] then butlast l else l) ls)"

definition trim_end_of :: "char \<Rightarrow> string \<Rightarrow> string" where
  "trim_end_of d s = rev (dropWhile (\<lambda>c. c = d) (rev s))"

fun take_groups :: "nat \<Rightarrow> string list \<Rightarrow> (string list \<times> string list) option" where
  "take_groups 0 gs = (if gs = [] then None else Some ([], gs))"
| "take_groups (Suc n) gs =
     (if gs = [] then None
      else map_option (\<lambda>(fs, r). (concat (takeWhile (\<lambda>g. \<not> is_ws_group g) gs) # fs, r))
        (take_groups n (dropWhile is_ws_group (dropWhile (\<lambda>g. \<not> is_ws_group g) gs))))"

definition take_fields :: "string \<Rightarrow> nat \<Rightarrow> (string list \<times> string) option" where
  "take_fields v count = map_option (\<lambda>(fs, r). (fs, concat r)) (take_groups count (dropWhile is_ws_group (groups v)))"

text \<open>\<^verbatim>\<open>u64::from_str\<close>\<close>

definition parse_u64 :: "string \<Rightarrow> nat option" where
  "parse_u64 s =
     (let digits = (case s of c # cs \<Rightarrow> if c = CHR ''+'' then cs else s | [] \<Rightarrow> []);
          n = fold (\<lambda>c n. 10 * n + (byte c - 48)) digits 0
      in if digits \<noteq> [] \<and> list_all is_ascii_digit digits \<and> n \<le> u64_max then Some n else None)"

definition listing_file_name :: "string \<Rightarrow> string \<Rightarrow> string" where
  "listing_file_name displayed parent =
     (let before = (if ends_with parent ''/'' then parent else parent @ ''/'')
      in after_slash (case strip_prefix before displayed of Some r \<Rightarrow> r | None \<Rightarrow> displayed))"

definition listing_kind :: "char \<Rightarrow> sftp_entry_kind" where
  "listing_kind c = (if c = CHR ''-'' then FileKind else if c = CHR ''d'' then DirectoryKind
     else if c = CHR ''l'' then SymlinkKind else OtherKind)"

definition is_listing_row :: "string \<Rightarrow> bool" where
  "is_listing_row line \<longleftrightarrow> line \<noteq> [] \<and> \<not> starts_with line ''sftp>'' \<and> hd line \<in> set ''-dlbcps''"

text \<open>\<open>modified\<close> is \<^verbatim>\<open>parse_listing_modified\<close> on the local clock and time zone.\<close>

definition parse_row ::
    "(string \<Rightarrow> string \<Rightarrow> string \<Rightarrow> string option) \<Rightarrow> string \<Rightarrow> string \<Rightarrow> sftp_entry list \<times> nat \<Rightarrow> (sftp_entry list \<times> nat) app_result" where
  "parse_row modified parent raw_line = (\<lambda>(entries, retained_bytes).
     let line = trim_start (trim_end_of (CHR 0x0D) raw_line)
     in if \<not> is_listing_row line then Inr (entries, retained_bytes)
     else rbind (ok_or (Process (''could not parse SFTP listing line: '' @ line)) (take_fields line 8)) (\<lambda>(fields, remainder).
       let permissions = fields ! 0
       in if length permissions < 10 then Inl (Process (''invalid SFTP permissions field: '' @ permissions))
       else
         let kind = listing_kind (hd permissions)
         in rbind (ok_or (Process (''invalid SFTP size: '' @ fields ! 4)) (parse_u64 (fields ! 4))) (\<lambda>size.
           let displayed_name = (if kind = SymlinkKind
                 then (case rsplit_once '' -> '' remainder of Some (name, _) \<Rightarrow> name | None \<Rightarrow> remainder) else remainder)
           in if displayed_name = [] \<or> has_line_byte displayed_name then Inl (Process ''SFTP returned an invalid file name'')
           else if length entries \<ge> MAX_REMOTE_ENTRIES
           then invalid (''SFTP listing exceeds '' @ dec MAX_REMOTE_ENTRIES @ '' entries'')
           else
             let name = listing_file_name displayed_name parent;
                 path = remote_join parent name;
                 retained_bytes = retained_bytes + length name + length path + length permissions
             in if retained_bytes > MAX_TREE_PATH_BYTES
             then invalid ''SFTP listing exceeds the retained path budget''
             else Inr (entries @ [\<lparr>se_name = name, se_path = path, se_kind = kind, se_size = size,
                    se_modified_at = modified (fields ! 5) (fields ! 6) (fields ! 7), se_permissions = Some permissions\<rparr>],
                  retained_bytes))))"

definition parse_long_listing ::
    "(string \<Rightarrow> string \<Rightarrow> string \<Rightarrow> string option) \<Rightarrow> string \<Rightarrow> string \<Rightarrow> sftp_entry list app_result" where
  "parse_long_listing modified output parent =
     rbind (rfold (parse_row modified parent) (str_lines output) ([], 0)) (\<lambda>(entries, _). Inr entries)"

section \<open>Running a batch\<close>

record captured =
  ca_success :: bool
  ca_status :: string
  ca_stdout :: string
  ca_stderr :: string
  ca_truncated :: bool

type_synonym 'w sftp = "string \<Rightarrow> 'w \<Rightarrow> captured app_result \<times> 'w"

definition OUTPUT_LIMIT :: nat where "OUTPUT_LIMIT = 1048576"

text \<open>\<^verbatim>\<open>captured_text\<close> of \<^verbatim>\<open>ssh.rs\<close> for a capture that is not truncated.\<close>

definition captured_text :: "string \<Rightarrow> string" where
  "captured_text bytes = truncate_utf8 (from_utf8_lossy bytes) OUTPUT_LIMIT"

definition limited_error :: "string \<Rightarrow> string" where
  "limited_error v =
     (if length v \<le> 16 * 1024 then v
      else take (floor_boundary v (16 * 1024)) v @ [CHR 0x0A] @ ''[RemoteDeck: error truncated]'')"

definition process_message :: "captured \<Rightarrow> string" where
  "process_message output =
     (let stderr = captured_text (ca_stderr output); stdout = captured_text (ca_stdout output);
          message = (if trim stderr = [] then stdout else stderr)
      in if trim message = [] then ''OpenSSH sftp exited with '' @ ca_status output
      else limited_error (trim message))"

definition run_raw_batch :: "'w sftp \<Rightarrow> string \<Rightarrow> 'w \<Rightarrow> captured app_result \<times> 'w" where
  "run_raw_batch run script w =
     (if script = [] \<or> length script > MAX_BATCH_BYTES \<or> CHR 0x00 \<in> set script
      then (invalid ''SFTP batch payload is invalid or too large'', w)
      else
        let script = (if ends_with script [CHR 0x0A] then script else script @ [CHR 0x0A])
        in case run script w of
          (Inl e, w) \<Rightarrow> (Inl e, w)
        | (Inr output, w) \<Rightarrow>
            (if ca_truncated output then Inl (Process ''SFTP output exceeded the 1 MiB safety limit'') else Inr output, w))"

definition run_batch :: "'w sftp \<Rightarrow> string \<Rightarrow> 'w \<Rightarrow> captured app_result \<times> 'w" where
  "run_batch run script w =
     (case run_raw_batch run script w of
        (Inl e, w) \<Rightarrow> (Inl e, w)
      | (Inr output, w) \<Rightarrow> (if \<not> ca_success output then Inl (Process (process_message output)) else Inr output, w))"

text \<open>A batch of one command whose output does not matter.\<close>

definition run_command :: "'w sftp \<Rightarrow> string \<Rightarrow> string list \<Rightarrow> 'w \<Rightarrow> unit app_result \<times> 'w" where
  "run_command run command arguments w =
     (case batch_command command arguments of
        Inl e \<Rightarrow> (Inl e, w)
      | Inr script \<Rightarrow> (case run_batch run script w of (r, w) \<Rightarrow> (rbind r (\<lambda>_. Inr ()), w)))"

section \<open>The basic operations\<close>

text \<open>\<open>sl_lower\<close> is \<^verbatim>\<open>str::to_lowercase\<close>, \<open>sl_is_uuid\<close> is \<^verbatim>\<open>Uuid::parse_str\<close>.\<close>

record sftp_library =
  sl_modified :: "string \<Rightarrow> string \<Rightarrow> string \<Rightarrow> string option"
  sl_lower :: "string \<Rightarrow> string"
  sl_is_uuid :: "string \<Rightarrow> bool"

fun entry_kind_order :: "sftp_entry_kind \<Rightarrow> nat" where
  "entry_kind_order DirectoryKind = 0"
| "entry_kind_order FileKind = 1"
| "entry_kind_order SymlinkKind = 2"
| "entry_kind_order OtherKind = 3"

definition sftp_list :: "sftp_library \<Rightarrow> 'w sftp \<Rightarrow> string \<Rightarrow> bool \<Rightarrow> 'w \<Rightarrow> sftp_entry list app_result \<times> 'w" where
  "sftp_list lib run path show_hidden w =
     (case rbind (validate_remote_path path) (\<lambda>_. batch_command ''ls -lan'' [path]) of
        Inl e \<Rightarrow> (Inl e, w)
      | Inr script \<Rightarrow>
          case run_batch run script w of
            (Inl e, w) \<Rightarrow> (Inl e, w)
          | (Inr output, w) \<Rightarrow>
              (rbind (parse_long_listing (sl_modified lib) (captured_text (ca_stdout output)) path) (\<lambda>entries.
                 let entries = filter (\<lambda>e. se_name e \<notin> set [''.'', ''..'']) entries;
                     entries = (if show_hidden then entries else filter (\<lambda>e. \<not> starts_with (se_name e) ''.'') entries)
                 in Inr (sort_key (\<lambda>e. (entry_kind_order (se_kind e), sl_lower lib (se_name e), se_name e)) entries)), w))"

definition sftp_mkdir :: "'w sftp \<Rightarrow> string \<Rightarrow> 'w \<Rightarrow> string list app_result \<times> 'w" where
  "sftp_mkdir run path w =
     (case validate_remote_path path of
        Inl e \<Rightarrow> (Inl e, w)
      | Inr _ \<Rightarrow> (case run_command run ''mkdir'' [path] w of (r, w) \<Rightarrow> (rbind r (\<lambda>_. Inr [path]), w)))"

definition sftp_rename :: "'w sftp \<Rightarrow> string \<Rightarrow> string \<Rightarrow> 'w \<Rightarrow> string list app_result \<times> 'w" where
  "sftp_rename run source destination w =
     (case rbind (validate_destructive_remote_path source) (\<lambda>_. validate_destructive_remote_path destination) of
        Inl e \<Rightarrow> (Inl e, w)
      | Inr _ \<Rightarrow> (case run_command run ''rename'' [source, destination] w of
          (r, w) \<Rightarrow> (rbind r (\<lambda>_. Inr [source, destination]), w)))"

definition is_missing_path_error :: "string \<Rightarrow> bool" where
  "is_missing_path_error message \<longleftrightarrow>
     (let lower = to_ascii_lowercase message in str_contains lower ''no such file'' \<or> str_contains lower ''not found'')"

definition select_metadata_entry :: "sftp_entry list \<Rightarrow> string \<Rightarrow> string \<Rightarrow> sftp_entry option app_result" where
  "select_metadata_entry entries target_name path =
     (case filter (\<lambda>e. se_name e = target_name) entries of
        [] \<Rightarrow> Inr None
      | [e] \<Rightarrow> Inr (Some (e\<lparr>se_path := path\<rparr>))
      | _ \<Rightarrow> Inl (Process ''SFTP metadata returned duplicate records''))"

definition sftp_metadata :: "sftp_library \<Rightarrow> 'w sftp \<Rightarrow> string \<Rightarrow> 'w \<Rightarrow> sftp_entry option app_result \<times> 'w" where
  "sftp_metadata lib run path w =
     (let (query_path, target_name) = metadata_listing_target path
      in case rbind (validate_remote_path path) (\<lambda>_. batch_command ''ls -lan'' [query_path]) of
        Inl e \<Rightarrow> (Inl e, w)
      | Inr script \<Rightarrow>
          case run_raw_batch run script w of
            (Inl e, w) \<Rightarrow> (Inl e, w)
          | (Inr output, w) \<Rightarrow>
              if \<not> ca_success output
              then (if is_missing_path_error (process_message output) then Inr None else Inl (Process (process_message output)), w)
              else case target_name of
                None \<Rightarrow> (Inr (Some \<lparr>se_name = (case remote_file_name path of Some n \<Rightarrow> n | None \<Rightarrow> path), se_path = path,
                          se_kind = DirectoryKind, se_size = 0, se_modified_at = None, se_permissions = None\<rparr>), w)
              | Some name \<Rightarrow>
                  (rbind (parse_long_listing (sl_modified lib) (captured_text (ca_stdout output)) query_path)
                    (\<lambda>entries. select_metadata_entry entries name path), w))"

section \<open>Deleting a tree\<close>

text \<open>
  The walk keeps a stack of paths with their depth and whether their children were listed.  A
  directory is pushed back before its children, so that it is taken off after them.
\<close>

record tree_walk =
  tw_stack :: "(string \<times> nat \<times> bool) list"
  tw_files :: "string list"
  tw_directories :: "string list"
  tw_discovered :: nat
  tw_path_bytes :: nat

definition walk_budget :: "tree_walk \<Rightarrow> bool" where
  "walk_budget t \<longleftrightarrow> tw_discovered t \<le> MAX_REMOTE_ENTRIES \<and> tw_path_bytes t \<le> MAX_TREE_PATH_BYTES"

definition push_child :: "nat \<Rightarrow> sftp_entry \<Rightarrow> tree_walk \<Rightarrow> tree_walk app_result" where
  "push_child depth child t =
     (let t = t\<lparr>tw_discovered := tw_discovered t + 1, tw_path_bytes := tw_path_bytes t + length (se_path child)\<rparr>
      in if \<not> walk_budget t then invalid ''remote tree exceeds deletion safety limits''
      else if se_kind child = DirectoryKind
      then Inr (t\<lparr>tw_stack := (se_path child, depth + 1, False) # tw_stack t\<rparr>)
      else Inr (t\<lparr>tw_files := tw_files t @ [se_path child]\<rparr>))"

definition walk_step :: "sftp_library \<Rightarrow> 'w sftp \<Rightarrow> tree_walk \<Rightarrow> 'w \<Rightarrow> tree_walk app_result \<times> 'w" where
  "walk_step lib run t w =
     (let (path, depth, visited) = hd (tw_stack t); t = t\<lparr>tw_stack := tl (tw_stack t)\<rparr>
      in if depth > MAX_RECURSION_DEPTH
      then (invalid (''remote tree exceeds '' @ dec MAX_RECURSION_DEPTH @ '' levels''), w)
      else if \<not> walk_budget t
      then (invalid (''remote tree exceeds the '' @ dec MAX_REMOTE_ENTRIES @ ''-entry or ''
             @ dec MAX_TREE_PATH_BYTES @ ''-byte path budget''), w)
      else if visited then (Inr (t\<lparr>tw_directories := tw_directories t @ [path]\<rparr>), w)
      else
        let t = t\<lparr>tw_stack := (path, depth, True) # tw_stack t\<rparr>
        in case sftp_list lib run path True w of
          (Inl e, w) \<Rightarrow> (Inl e, w)
        | (Inr children, w) \<Rightarrow> (rfold (push_child depth) (rev children) t, w))"

partial_function (option) walk_tree ::
    "sftp_library \<Rightarrow> 'w sftp \<Rightarrow> tree_walk \<Rightarrow> 'w \<Rightarrow> (tree_walk app_result \<times> 'w) option" where
  "walk_tree lib run t w =
     (if tw_stack t = [] then Some (Inr t, w)
      else case walk_step lib run t w of
        (Inl e, w) \<Rightarrow> Some (Inl e, w)
      | (Inr t, w) \<Rightarrow> walk_tree lib run t w)"

definition start_walk :: "string \<Rightarrow> tree_walk" where
  "start_walk root = \<lparr>tw_stack = [(root, 0, False)], tw_files = [], tw_directories = [], tw_discovered = 1,
     tw_path_bytes = length root\<rparr>"

text \<open>The scripts of \<^verbatim>\<open>run_path_commands\<close>: a full script is run before the line that does not fit.\<close>

definition add_line :: "'w sftp \<Rightarrow> string \<Rightarrow> string \<Rightarrow> string \<times> 'w \<Rightarrow> string app_result \<times> 'w" where
  "add_line run command path = (\<lambda>(script, w).
     case batch_command command [path] of
       Inl e \<Rightarrow> (Inl e, w)
     | Inr line \<Rightarrow>
         if length line > MAX_BATCH_BYTES then (invalid ''one SFTP batch command exceeds the safety limit'', w)
         else if script \<noteq> [] \<and> length script + length line > MAX_BATCH_BYTES
         then (case run_batch run script w of (r, w) \<Rightarrow> (rbind r (\<lambda>_. Inr line), w))
         else (Inr (script @ line), w))"

fun path_script :: "'w sftp \<Rightarrow> string \<Rightarrow> string list \<Rightarrow> string \<times> 'w \<Rightarrow> string app_result \<times> 'w" where
  "path_script run command [] (script, w) = (Inr script, w)"
| "path_script run command (path # paths) s =
     (case add_line run command path s of
        (Inl e, w) \<Rightarrow> (Inl e, w)
      | (Inr script, w) \<Rightarrow> path_script run command paths (script, w))"

definition run_path_commands :: "'w sftp \<Rightarrow> string \<Rightarrow> string list \<Rightarrow> 'w \<Rightarrow> unit app_result \<times> 'w" where
  "run_path_commands run command paths w =
     (case path_script run command paths ([], w) of
        (Inl e, w) \<Rightarrow> (Inl e, w)
      | (Inr script, w) \<Rightarrow>
          if script = [] then (Inr (), w)
          else (case run_batch run script w of (r, w) \<Rightarrow> (rbind r (\<lambda>_. Inr ()), w)))"

definition delete_tree :: "sftp_library \<Rightarrow> 'w sftp \<Rightarrow> string \<Rightarrow> 'w \<Rightarrow> (string list app_result \<times> 'w) option" where
  "delete_tree lib run root w =
     (case walk_tree lib run (start_walk root) w of
        None \<Rightarrow> None
      | Some (Inl e, w) \<Rightarrow> Some (Inl e, w)
      | Some (Inr t, w) \<Rightarrow> Some
          (case run_path_commands run ''rm'' (tw_files t) w of
             (Inl e, w) \<Rightarrow> (Inl e, w)
           | (Inr _, w) \<Rightarrow>
               (case run_path_commands run ''rmdir'' (tw_directories t) w of
                  (Inl e, w) \<Rightarrow> (Inl e, w)
                | (Inr _, w) \<Rightarrow> (Inr (tw_files t @ tw_directories t), w))))"

definition sftp_delete :: "sftp_library \<Rightarrow> 'w sftp \<Rightarrow> string \<Rightarrow> bool \<Rightarrow> 'w \<Rightarrow> (string list app_result \<times> 'w) option" where
  "sftp_delete lib run path recursive w =
     (case validate_destructive_remote_path path of
        Inl e \<Rightarrow> Some (Inl e, w)
      | Inr _ \<Rightarrow>
          case sftp_metadata lib run path w of
            (Inl e, w) \<Rightarrow> Some (Inl e, w)
          | (Inr None, w) \<Rightarrow> Some (Inr [], w)
          | (Inr (Some metadata), w) \<Rightarrow>
              if se_kind metadata = DirectoryKind \<and> recursive then delete_tree lib run path w
              else Some (case run_command run (if se_kind metadata = DirectoryKind then ''rmdir'' else ''rm'') [path] w of
                (r, w) \<Rightarrow> (rbind r (\<lambda>_. Inr [path]), w)))"

end
