(* ===== verification/SftpListing.thy ===== *)
theory SftpListing
  imports SftpTree
begin

text \<open>
  The parser of \<^verbatim>\<open>ls -lan\<close> reads back what an SFTP server prints.
\<close>

section \<open>Rows\<close>

text \<open>Eight fields with the blanks behind each, then the name.\<close>

definition field_text :: "string \<times> nat \<Rightarrow> string" where
  "field_text = (\<lambda>(f, blanks). f @ replicate (Suc blanks) (CHR '' ''))"

definition row_text :: "(string \<times> nat) list \<Rightarrow> string \<Rightarrow> string" where
  "row_text cols name = concat (map field_text cols) @ name"

definition printable :: "char \<Rightarrow> bool" where
  "printable c \<longleftrightarrow> 33 \<le> byte c \<and> byte c < 127"

definition begins_visible :: "string \<Rightarrow> bool" where
  "begins_visible s \<longleftrightarrow> s \<noteq> [] \<and> starts s \<and> \<not> is_ws_group (hd (groups s))"

lemma printable_group: "printable c \<Longrightarrow> \<not> is_cont c \<and> \<not> is_ws_group [c]"
  by (simp add: printable_def is_cont_def is_ws_group_def cp_is_whitespace_def)

lemma groups_ascii:
  "list_all (\<lambda>c. \<not> is_cont c) s \<Longrightarrow> r = [] \<or> starts r \<Longrightarrow> groups (s @ r) = map (\<lambda>c. [c]) s @ groups r"
proof (induction s)
  case (Cons c s)
  then have "s @ r = [] \<or> starts (s @ r)" by (cases s) (auto simp: starts_def)
  then have "groups ([c] @ s @ r) = [c] # groups (s @ r)" by (intro groups_append_starts) (simp_all add: is_group_def)
  with Cons show ?case by simp
qed simp

lemma field_groups:
  assumes "list_all printable f" and "begins_visible r"
  shows "groups (field_text (f, k) @ r) = map (\<lambda>c. [c]) f @ replicate (Suc k) [CHR '' ''] @ groups r"
proof -
  have "list_all (\<lambda>c. \<not> is_cont c) (field_text (f, k))"
    using assms(1) printable_group by (auto simp: field_text_def list_all_iff is_cont_def byte_def)
  then show ?thesis
    using groups_ascii[of "field_text (f, k)" r] assms(2) by (simp add: field_text_def map_replicate_const begins_visible_def)
qed

lemma take_groups_field:
  assumes "list_all printable f" and "f \<noteq> []" and "begins_visible r"
  shows "take_groups (Suc n) (groups (field_text (f, k) @ r)) = map_option (\<lambda>(fs, x). (f # fs, x)) (take_groups n (groups r))"
proof -
  let ?g = "map (\<lambda>c. [c]) f"
  have vis: "\<forall>g \<in> set ?g. \<not> is_ws_group g" using assms(1) printable_group by (auto simp: list_all_iff)
  have blank: "is_ws_group [CHR '' '']" by code_simp
  have "takeWhile (\<lambda>g. \<not> is_ws_group g) (?g @ replicate (Suc k) [CHR '' ''] @ groups r) = ?g"
    by (subst takeWhile_append2) (use vis blank in auto)
  moreover have "dropWhile (\<lambda>g. \<not> is_ws_group g) (?g @ replicate (Suc k) [CHR '' ''] @ groups r)
      = replicate (Suc k) [CHR '' ''] @ groups r"
    by (subst dropWhile_append2) (use vis blank in auto)
  moreover have "dropWhile is_ws_group (replicate (Suc k) [CHR '' ''] @ groups r) = groups r"
    using blank assms(3) by (subst dropWhile_append2) (auto simp: begins_visible_def intro: dropWhile_eq_self)
  moreover have "concat ?g = f" by (induction f) auto
  ultimately show ?thesis unfolding field_groups[OF assms(1,3)] using assms(2) by (simp add: case_prod_unfold)
qed

lemma take_groups_row:
  assumes "list_all (\<lambda>(f, _). list_all printable f \<and> f \<noteq> []) cols" and "begins_visible name"
  shows "take_groups (length cols) (groups (row_text cols name)) = Some (map fst cols, groups name)"
  using assms(1)
proof (induction cols)
  case Nil
  then show ?case using assms(2) by (simp add: row_text_def begins_visible_def)
next
  case (Cons c cols)
  obtain f k where c: "c = (f, k)" by fastforce
  have "begins_visible (row_text cols name)"
  proof (cases cols)
    case Nil
    then show ?thesis using assms(2) by (simp add: row_text_def)
  next
    case (Cons d ds)
    then obtain g l where d: "d = (g, l)" by fastforce
    then have "list_all printable g" "g \<noteq> []" using Cons Cons.prems by auto
    then obtain x xs where g: "g = x # xs" "printable x" by (cases g) auto
    have "row_text cols name = x # (xs @ replicate (Suc l) (CHR '' '') @ row_text ds name)"
      using Cons d g(1) by (simp add: row_text_def field_text_def)
    moreover have "takeWhile is_cont (xs @ replicate (Suc l) (CHR '' '') @ row_text ds name) = []"
      using \<open>list_all printable g\<close> g(1) printable_group by (cases xs) (auto simp: is_cont_def byte_def)
    ultimately show ?thesis using printable_group[OF g(2)] by (simp add: begins_visible_def starts_def)
  qed
  from take_groups_field[OF _ _ this, of f "length cols" k] Cons c
  show ?case by (simp add: row_text_def del: take_groups.simps)
qed

section \<open>Numbers\<close>

lemma dec_digits: "list_all is_ascii_digit (dec n)"
proof (induction n rule: dec.induct)
  case (1 n)
  have "is_ascii_digit (char_of (48 + m))" if "m < 10" for m :: nat
    using that by (simp add: is_ascii_digit_def byte_def)
  with 1 show ?case by (subst dec.simps) simp
qed

lemma dec_value: "fold (\<lambda>c n. 10 * n + (byte c - 48)) (dec n) 0 = n"
proof (induction n rule: dec.induct)
  case (1 n)
  show ?case
  proof (cases "n < 10")
    case True
    then show ?thesis by (subst dec.simps) (simp add: byte_def)
  next
    case False
    have "byte (char_of (48 + n mod 10)) = 48 + n mod 10" by (simp add: byte_def)
    with False 1 show ?thesis by (subst dec.simps) simp
  qed
qed

lemma parse_dec: "n \<le> u64_max \<Longrightarrow> parse_u64 (dec n) = Some n"
proof -
  assume n: "n \<le> u64_max"
  obtain c cs where d: "dec n = c # cs" by (cases "dec n") auto
  with dec_digits[of n] have "c \<noteq> CHR ''+''" by (auto simp: is_ascii_digit_def byte_def)
  then show ?thesis
    using n d dec_digits[of n] dec_value[of n] by (simp add: parse_u64_def Let_def)
qed

section \<open>The round trip\<close>

text \<open>
  A row of a listing: the columns as the server prints them, the size among them, the name, and for a
  symbolic link its target.
\<close>

record listing_row =
  lr_cols :: "(string \<times> nat) list"
  lr_size :: nat
  lr_name :: string
  lr_target :: "string option"

definition shown_name :: "listing_row \<Rightarrow> string" where
  "shown_name r = lr_name r @ (case lr_target r of None \<Rightarrow> [] | Some t \<Rightarrow> '' -> '' @ t)"

definition shown_row :: "listing_row \<Rightarrow> string" where
  "shown_row r = row_text (lr_cols r) (shown_name r)"

definition row_permissions :: "listing_row \<Rightarrow> string" where
  "row_permissions r = fst (lr_cols r ! 0)"

definition name_shown_whole :: "string \<Rightarrow> bool" where
  "name_shown_whole n \<longleftrightarrow> begins_visible n \<and> \<not> has_line_byte n \<and> CHR ''/'' \<notin> set n"

definition row_ok :: "listing_row \<Rightarrow> bool" where
  "row_ok r \<longleftrightarrow> length (lr_cols r) = 8 \<and> list_all (\<lambda>(f, _). list_all printable f \<and> f \<noteq> []) (lr_cols r)
     \<and> length (row_permissions r) \<ge> 10 \<and> hd (row_permissions r) \<in> set ''-dlbcps''
     \<and> \<not> starts_with (row_permissions r) ''sftp>''
     \<and> fst (lr_cols r ! 4) = dec (lr_size r) \<and> lr_size r \<le> u64_max
     \<and> name_shown_whole (lr_name r) \<and> (lr_target r \<noteq> None \<longleftrightarrow> hd (row_permissions r) = CHR ''l'')
     \<and> (case lr_target r of None \<Rightarrow> True
        | Some t \<Rightarrow> \<not> has_line_byte t \<and> rsplit_once '' -> '' (tl ('' -> '' @ t)) = None)"

definition row_entry :: "(string \<Rightarrow> string \<Rightarrow> string \<Rightarrow> string option) \<Rightarrow> string \<Rightarrow> listing_row \<Rightarrow> sftp_entry" where
  "row_entry modified parent r = \<lparr>se_name = lr_name r, se_path = remote_join parent (lr_name r),
     se_kind = listing_kind (hd (row_permissions r)), se_size = lr_size r,
     se_modified_at = modified (fst (lr_cols r ! 5)) (fst (lr_cols r ! 6)) (fst (lr_cols r ! 7)),
     se_permissions = Some (row_permissions r)\<rparr>"

definition row_bytes :: "string \<Rightarrow> listing_row \<Rightarrow> nat" where
  "row_bytes parent r = length (lr_name r) + length (remote_join parent (lr_name r)) + length (row_permissions r)"

lemma listing_name_plain: "CHR ''/'' \<notin> set n \<Longrightarrow> listing_file_name n parent = n"
proof -
  assume n: "CHR ''/'' \<notin> set n"
  let ?b = "if ends_with parent ''/'' then parent else parent @ ''/''"
  have "CHR ''/'' \<in> set ?b" by (auto simp: ends_with_def) (metis append_take_drop_id in_set_conv_decomp)
  then have "strip_prefix ?b n = None" using n by (cases "strip_prefix ?b n") (auto simp: strip_prefix_iff)
  moreover have "takeWhile (\<lambda>c. c \<noteq> CHR ''/'') (rev n) = rev n"
    by (rule takeWhile_eq_all_conv[THEN iffD2]) (use n in auto)
  then have "after_slash n = n" by (simp only: after_slash_def rev_rev_ident)
  ultimately show ?thesis by (simp add: listing_file_name_def Let_def)
qed

lemma takeWhile_stop: "\<not> P d \<Longrightarrow> takeWhile P (cs @ d # r) = takeWhile P cs"
  by (induction cs) auto

lemma shown_name_visible: "row_ok r \<Longrightarrow> begins_visible (shown_name r)"
proof -
  assume "row_ok r"
  then have v: "begins_visible (lr_name r)" by (simp add: row_ok_def name_shown_whole_def)
  show ?thesis
  proof (cases "lr_target r")
    case None
    with v show ?thesis by (simp add: shown_name_def)
  next
    case (Some t)
    obtain c cs where n: "lr_name r = c # cs" using v by (cases "lr_name r") (auto simp: begins_visible_def)
    have "takeWhile is_cont (cs @ '' -> '' @ t) = takeWhile is_cont cs"
      using takeWhile_stop[of is_cont "CHR '' ''" cs "''-> '' @ t"] by (simp add: is_cont_def byte_def)
    with v n Some show ?thesis by (simp add: shown_name_def begins_visible_def starts_def)
  qed
qed

lemma shown_row_fields: "row_ok r \<Longrightarrow> take_groups 8 (groups (shown_row r)) = Some (map fst (lr_cols r), groups (shown_name r))"
  using take_groups_row[of "lr_cols r" "shown_name r"] shown_name_visible[of r] by (simp add: row_ok_def shown_row_def)

lemma shown_row_head:
  assumes "row_ok r"
  obtains xs where "shown_row r = row_permissions r @ CHR '' '' # xs"
proof -
  obtain f k cols where c: "lr_cols r = (f, k) # cols"
    using assms by (cases "lr_cols r") (auto simp: row_ok_def)
  then have "shown_row r = row_permissions r @ CHR '' '' # replicate k (CHR '' '') @ concat (map field_text cols) @ shown_name r"
    by (simp add: shown_row_def row_text_def row_permissions_def field_text_def)
  then show thesis by (rule that)
qed

lemma shown_row_kept:
  assumes "row_ok r"
  shows "trim_end_of (CHR 0x0D) (shown_row r) = shown_row r" and "dropWhile is_ws_group (groups (shown_row r)) = groups (shown_row r)"
    and "is_listing_row (shown_row r)"
proof -
  let ?p = "row_permissions r"
  obtain xs where xs: "shown_row r = ?p @ CHR '' '' # xs" using shown_row_head[OF assms] .
  have perms: "list_all printable ?p" "?p \<noteq> []" "hd ?p \<in> set ''-dlbcps''" "\<not> starts_with ?p ''sftp>''" "length ?p \<ge> 10"
    using assms by (cases "lr_cols r"; auto simp: row_ok_def row_permissions_def)+
  have "CHR 0x0D \<notin> set (shown_name r)" "shown_name r \<noteq> []"
    using assms by (auto simp: row_ok_def name_shown_whole_def shown_name_def has_line_byte_def begins_visible_def list_ex_iff
        split: option.splits)
  then obtain l ls where "shown_name r = ls @ [l]" "l \<noteq> CHR 0x0D" by (cases "shown_name r" rule: rev_cases) auto
  then have "rev (shown_row r) = l # rev (concat (map field_text (lr_cols r)) @ ls)" by (simp add: shown_row_def row_text_def)
  then show "trim_end_of (CHR 0x0D) (shown_row r) = shown_row r"
    using \<open>l \<noteq> CHR 0x0D\<close> by (simp add: trim_end_of_def)
  obtain x ps where p: "?p = x # ps" "printable x" using perms(1,2) by (cases ?p) auto
  have "takeWhile is_cont (ps @ CHR '' '' # xs) = []"
    using perms(1) p(1) printable_group by (cases ps) (auto simp: is_cont_def byte_def)
  then show "dropWhile is_ws_group (groups (shown_row r)) = groups (shown_row r)"
    using printable_group[OF p(2)] by (simp add: xs p(1))
  have "starts_with (shown_row r) ''sftp>'' \<longleftrightarrow> starts_with ?p ''sftp>''"
    using perms(5) by (simp add: xs starts_with_def)
  then show "is_listing_row (shown_row r)" using perms(3,4) p(1) by (simp add: is_listing_row_def xs)
qed

lemma shown_link:
  assumes "row_ok r"
  shows "(if listing_kind (hd (row_permissions r)) = SymlinkKind
      then (case rsplit_once '' -> '' (shown_name r) of Some (name, _) \<Rightarrow> name | None \<Rightarrow> shown_name r) else shown_name r) = lr_name r"
proof (cases "lr_target r")
  case None
  then show ?thesis using assms by (simp add: row_ok_def listing_kind_def shown_name_def)
next
  case (Some t)
  then have "rsplit_once '' -> '' (tl ('' -> '' @ t)) = None" "hd (row_permissions r) = CHR ''l''"
    using assms by (auto simp: row_ok_def)
  then have "rsplit_once '' -> '' ('' -> '' @ t) = Some ([], t)" by simp
  from rsplit_once_append[OF this, of "lr_name r"] Some \<open>hd (row_permissions r) = CHR ''l''\<close>
  show ?thesis by (simp add: shown_name_def listing_kind_def)
qed

lemma parse_shown_row:
  assumes "row_ok r" and "length es < MAX_REMOTE_ENTRIES" and "b + row_bytes parent r \<le> MAX_TREE_PATH_BYTES"
  shows "parse_row modified parent (shown_row r) (es, b) = Inr (es @ [row_entry modified parent r], b + row_bytes parent r)"
proof -
  have fields: "take_fields (shown_row r) 8 = Some (map fst (lr_cols r), shown_name r)"
    using shown_row_fields[OF assms(1)] shown_row_kept(2)[OF assms(1)] by (simp add: take_fields_def)
  have line: "trim_start (trim_end_of (CHR 0x0D) (shown_row r)) = shown_row r"
    using shown_row_kept[OF assms(1)] by (simp add: trim_start_def)
  have n: "length (lr_cols r) = 8" "length (row_permissions r) \<ge> 10" "fst (lr_cols r ! 4) = dec (lr_size r)" "lr_size r \<le> u64_max"
    "CHR ''/'' \<notin> set (lr_name r)" "lr_name r \<noteq> []" "\<not> has_line_byte (lr_name r)"
    using assms(1) by (auto simp: row_ok_def name_shown_whole_def begins_visible_def)
  show ?thesis
    using shown_row_kept(3)[OF assms(1)] shown_link[OF assms(1)] parse_dec[OF n(4)] n assms(2,3)
    by (simp add: parse_row_def line fields Let_def row_permissions_def[symmetric] listing_name_plain row_entry_def row_bytes_def
        add.assoc)
qed

lemma parse_shown_rows:
  assumes "list_all row_ok rs" and "length es + length rs \<le> MAX_REMOTE_ENTRIES"
    and "b + sum_list (map (row_bytes parent) rs) \<le> MAX_TREE_PATH_BYTES"
  shows "rfold (parse_row modified parent) (map shown_row rs) (es, b)
    = Inr (es @ map (row_entry modified parent) rs, b + sum_list (map (row_bytes parent) rs))"
  using assms
proof (induction rs arbitrary: es b)
  case (Cons r rs)
  have "parse_row modified parent (shown_row r) (es, b) = Inr (es @ [row_entry modified parent r], b + row_bytes parent r)"
    using Cons.prems by (intro parse_shown_row) simp_all
  moreover have "rfold (parse_row modified parent) (map shown_row rs) (es @ [row_entry modified parent r], b + row_bytes parent r)
      = Inr ((es @ [row_entry modified parent r]) @ map (row_entry modified parent) rs,
          (b + row_bytes parent r) + sum_list (map (row_bytes parent) rs))"
    using Cons.prems by (intro Cons.IH) simp_all
  ultimately show ?case by (simp add: add.assoc)
qed simp

lemma shown_row_line: "row_ok r \<Longrightarrow> CHR 0x0A \<notin> set (shown_row r) \<and> \<not> ends_with (shown_row r) [CHR 0x0D]"
proof -
  assume r: "row_ok r"
  have cols: "list_all (\<lambda>(f, _). list_all printable f \<and> f \<noteq> []) (lr_cols r)" using r by (simp add: row_ok_def)
  have "CHR 0x0A \<notin> set (field_text c)" if c: "c \<in> set (lr_cols r)" for c
  proof -
    obtain f k where fk: "c = (f, k)" by fastforce
    with c cols have "list_all printable f" by (auto simp: list_all_iff)
    then have "CHR 0x0A \<notin> set f" by (auto simp: list_all_iff printable_def byte_def)
    with fk show ?thesis by (simp add: field_text_def)
  qed
  moreover have name: "CHR 0x0A \<notin> set (shown_name r)" "CHR 0x0D \<notin> set (shown_name r)" "shown_name r \<noteq> []"
    using r by (auto simp: row_ok_def name_shown_whole_def shown_name_def has_line_byte_def begins_visible_def list_ex_iff
        split: option.splits)
  moreover have "\<not> ends_with (a @ shown_name r) [CHR 0x0D]" for a
    using name(2,3) by (cases "shown_name r" rule: rev_cases) (auto simp: ends_with_def)
  ultimately show ?thesis by (auto simp: shown_row_def row_text_def)
qed

lemma str_lines_rows:
  "list_all row_ok rs \<Longrightarrow> str_lines (concat (map (\<lambda>r. shown_row r @ [CHR 0x0A]) rs)) = map shown_row rs"
proof -
  assume rs: "list_all row_ok rs"
  have split: "split_on (\<lambda>c. c = CHR 0x0A) (concat (map (\<lambda>r. shown_row r @ [CHR 0x0A]) rs)) = map shown_row rs @ [[]]"
    using rs by (induction rs) (auto simp: shown_row_line split_on_line)
  have "map (\<lambda>l. if ends_with l [CHR 0x0D] then butlast l else l) (map shown_row rs) = map shown_row rs"
    using rs by (auto simp: list_all_iff shown_row_line)
  then show ?thesis by (simp add: str_lines_def split)
qed


definition sample_listing_rows :: "listing_row list" where
  "sample_listing_rows =
     (let cols = \<lambda>perms n. [(perms, 4), (''1'', 0), (''1000'', 5), (''1000'', 5), (dec n, 0), (''Aug'', 1), (''1'', 0), (''12:34'', 0)]
      in [\<lparr>lr_cols = cols ''-rw-r--r--'' 17, lr_size = 17, lr_name = ''report final.txt'', lr_target = None\<rparr>,
          \<lparr>lr_cols = cols ''lrwxrwxrwx'' 6, lr_size = 6, lr_name = ''a -> b'', lr_target = Some ''/etc''\<rparr>])"


text \<open>A name that begins with a blank is read without it, so that its path is another file's.\<close>

lemma leading_blank_is_lost:
  "let row = row_text [(''-rw-r--r--'', 0), (''1'', 0), (''1'', 0), (''1'', 0), (''7'', 0), (''Aug'', 0), (''1'', 0), (''12:34'', 0)]
     in map_sum id (map se_path) (parse_long_listing (\<lambda>_ _ _. None) (row '' x'') ''/d'') = Inr [''/d/x'']"
  by code_simp

end
