(* ===== verification/SftpTreeProps.thy ===== *)
theory SftpTreeProps
  imports SftpTree
begin

text \<open>
  Deleting a remote tree: the walk ends whatever the remote side answers, and on a tree within the
  limits it finds every path, files first and each directory after everything in it.
\<close>

section \<open>The walk ends\<close>

definition item_weight :: "string \<times> nat \<times> bool \<Rightarrow> nat" where
  "item_weight = (\<lambda>(_, _, visited). if visited then 1 else 2)"

definition walk_measure :: "tree_walk \<Rightarrow> nat" where
  "walk_measure t = 3 * (MAX_REMOTE_ENTRIES + 1 - tw_discovered t) + sum_list (map item_weight (tw_stack t))"

lemma push_children:
  assumes "rfold (push_child depth) cs t = Inr t'"
  shows "tw_discovered t' = tw_discovered t + length cs
    \<and> (cs = [] \<longrightarrow> t' = t) \<and> (cs \<noteq> [] \<longrightarrow> tw_discovered t' \<le> MAX_REMOTE_ENTRIES)
    \<and> sum_list (map item_weight (tw_stack t')) \<le> sum_list (map item_weight (tw_stack t)) + 2 * length cs"
  using assms
proof (induction cs arbitrary: t)
  case (Cons c cs)
  then obtain u where u: "push_child depth c t = Inr u" "rfold (push_child depth) cs u = Inr t'"
    by (auto simp: result_simps)
  have "tw_discovered u = tw_discovered t + 1" "tw_discovered u \<le> MAX_REMOTE_ENTRIES"
    "sum_list (map item_weight (tw_stack u)) \<le> sum_list (map item_weight (tw_stack t)) + 2"
    using u(1) by (auto simp: push_child_def Let_def walk_budget_def invalid_def item_weight_def split: if_splits)
  with Cons.IH[OF u(2)] show ?case by (cases cs) auto
qed simp

lemma walk_step_measure:
  assumes "tw_stack t \<noteq> []" and "walk_step lib run t w = (Inr t', w')"
  shows "walk_measure t' < walk_measure t"
proof -
  obtain path depth visited st where st: "tw_stack t = (path, depth, visited) # st"
    using assms(1) by (cases "tw_stack t") auto
  show ?thesis
  proof (cases visited)
    case True
    then have "t' = t\<lparr>tw_stack := st, tw_directories := tw_directories t @ [path]\<rparr>"
      using assms(2) st by (auto simp: walk_step_def Let_def invalid_def split: if_splits)
    with st True show ?thesis by (simp add: walk_measure_def item_weight_def)
  next
    case False
    let ?u = "t\<lparr>tw_stack := (path, depth, True) # st\<rparr>"
    obtain children where "rfold (push_child depth) (rev children) ?u = Inr t'"
      using assms(2) st False
      by (auto simp: walk_step_def Let_def invalid_def split: if_splits prod.splits sum.splits)
    from push_children[OF this] st False show ?thesis
      by (cases "children = []") (auto simp: walk_measure_def item_weight_def)
  qed
qed

text \<open>
  C28: deleting a remote tree always ends: whatever the remote side answers, even if its directories
  seem to contain each other or change while they are listed, the walk returns a result or an error,
  because every listed entry uses up the budget of entries.
\<close>

theorem delete_tree_ends: "delete_tree lib run root w \<noteq> None"
proof -
  have "walk_measure t = n \<Longrightarrow> \<exists>r. walk_tree lib run t w = Some r" for n t w
  proof (induction n arbitrary: t w rule: less_induct)
    case (less n)
    show ?case
    proof (cases "tw_stack t = []")
      case True
      then show ?thesis by (subst walk_tree.simps) simp
    next
      case False
      obtain r w' where step: "walk_step lib run t w = (r, w')" by fastforce
      show ?thesis
      proof (cases r)
        case (Inr t')
        with step have "walk_measure t' < n" using walk_step_measure[OF False, of lib run w t' w'] less.prems by simp
        from less.IH[OF this refl, of w'] Inr False step show ?thesis by (subst walk_tree.simps) simp
      qed (use False step in \<open>subst walk_tree.simps; simp\<close>)
    qed
  qed
  then obtain r where "walk_tree lib run (start_walk root) w = Some r" by blast
  then show ?thesis by (auto simp: delete_tree_def split: prod.splits sum.splits)
qed

section \<open>The order of the walk\<close>

datatype remote_tree = Leaf sftp_entry | Node sftp_entry "remote_tree list"

fun entry_of :: "remote_tree \<Rightarrow> sftp_entry" where
  "entry_of (Leaf e) = e"
| "entry_of (Node e _) = e"

fun kinds_ok :: "remote_tree \<Rightarrow> bool" where
  "kinds_ok (Leaf e) = (se_kind e \<noteq> DirectoryKind)"
| "kinds_ok (Node e ts) = (se_kind e = DirectoryKind \<and> list_all kinds_ok ts)"

text \<open>The remote side answers every listing of a directory of the tree, and stays as it is.\<close>

fun answers :: "sftp_library \<Rightarrow> 'w sftp \<Rightarrow> 'w \<Rightarrow> remote_tree \<Rightarrow> bool" where
  "answers lib run w (Leaf e) = True"
| "answers lib run w (Node e ts) =
     (sftp_list lib run (se_path e) True w = (Inr (map entry_of ts), w) \<and> list_all (answers lib run w) ts)"

fun tree_height :: "remote_tree \<Rightarrow> nat" where
  "tree_height (Leaf e) = 0"
| "tree_height (Node e ts) = Suc (fold max (map tree_height ts) 0)"

fun below :: "remote_tree \<Rightarrow> sftp_entry list" where
  "below (Leaf e) = []"
| "below (Node e ts) = map entry_of ts @ concat (map below ts)"

fun post_order :: "remote_tree \<Rightarrow> string list" where
  "post_order (Leaf e) = []"
| "post_order (Node e ts) = concat (map post_order ts) @ [se_path e]"

definition is_leaf :: "remote_tree \<Rightarrow> bool" where
  "is_leaf t = (case t of Leaf _ \<Rightarrow> True | Node _ _ \<Rightarrow> False)"

fun file_order :: "remote_tree \<Rightarrow> string list" where
  "file_order (Leaf e) = []"
| "file_order (Node e ts) =
     map (\<lambda>t. se_path (entry_of t)) (filter is_leaf (rev ts)) @ concat (map file_order ts)"

definition path_bytes :: "sftp_entry list \<Rightarrow> nat" where
  "path_bytes es = sum_list (map (\<lambda>e. length (se_path e)) es)"

lemma path_bytes_simps [simp]:
  "path_bytes [] = 0" "path_bytes (e # es) = length (se_path e) + path_bytes es"
  "path_bytes (es @ fs) = path_bytes es + path_bytes fs" "path_bytes (rev es) = path_bytes es"
  by (simp_all add: path_bytes_def rev_map[symmetric])

definition fits :: "sftp_entry list \<Rightarrow> tree_walk \<Rightarrow> bool" where
  "fits es t \<longleftrightarrow> tw_discovered t + length es \<le> MAX_REMOTE_ENTRIES \<and> tw_path_bytes t + path_bytes es \<le> MAX_TREE_PATH_BYTES"

definition advance :: "(string \<times> nat \<times> bool) list \<Rightarrow> string list \<Rightarrow> string list \<Rightarrow> sftp_entry list \<Rightarrow> tree_walk \<Rightarrow> tree_walk" where
  "advance st fs ds es t = \<lparr>tw_stack = st, tw_files = tw_files t @ fs, tw_directories = tw_directories t @ ds,
     tw_discovered = tw_discovered t + length es, tw_path_bytes = tw_path_bytes t + path_bytes es\<rparr>"

lemma advance_simps [simp]:
  "tw_stack (advance st fs ds es t) = st"
  "advance st' fs' ds' es' (advance st fs ds es t) = advance st' (fs @ fs') (ds @ ds') (es @ es') t"
  "fits es' (advance st fs ds es t) = fits (es @ es') t"
  by (simp_all add: advance_def fits_def add.assoc)

lemma fits_append: "fits (es @ fs) t \<Longrightarrow> fits es t"
  by (simp add: fits_def)

lemma advance_none: "advance (tw_stack t) [] [] [] t = t"
  by (simp add: advance_def)

definition opened :: "nat \<Rightarrow> remote_tree list \<Rightarrow> (string \<times> nat \<times> bool) list" where
  "opened depth ts = map (\<lambda>t. (se_path (entry_of t), depth, False)) (filter (\<lambda>t. \<not> is_leaf t) ts)"

lemma is_leaf_simps [simp]: "is_leaf (Leaf e)" "\<not> is_leaf (Node e ts)"
  by (simp_all add: is_leaf_def)

lemma push_child_tree:
  "kinds_ok u \<Longrightarrow> fits [entry_of u] t \<Longrightarrow> push_child depth (entry_of u) t =
     Inr (advance (opened (depth + 1) [u] @ tw_stack t) (if is_leaf u then [se_path (entry_of u)] else []) [] [entry_of u] t)"
  by (cases u) (simp_all add: push_child_def Let_def walk_budget_def fits_def advance_def opened_def)

lemma push_children_tree:
  "list_all kinds_ok us \<Longrightarrow> fits (map entry_of us) t \<Longrightarrow> rfold (push_child depth) (map entry_of us) t =
     Inr (advance (opened (depth + 1) (rev us) @ tw_stack t) (map (\<lambda>t. se_path (entry_of t)) (filter is_leaf us)) []
       (map entry_of us) t)"
proof (induction us arbitrary: t)
  case (Cons u us)
  have fits: "fits ([entry_of u] @ map entry_of us) t" using Cons.prems(2) by simp
  let ?t = "advance (opened (depth + 1) [u] @ tw_stack t) (if is_leaf u then [se_path (entry_of u)] else []) [] [entry_of u] t"
  have "push_child depth (entry_of u) t = Inr ?t"
    using Cons.prems(1) fits_append[OF fits] by (intro push_child_tree) simp_all
  moreover have "rfold (push_child depth) (map entry_of us) ?t = Inr (advance (opened (depth + 1) (rev us) @ tw_stack ?t)
      (map (\<lambda>t. se_path (entry_of t)) (filter is_leaf us)) [] (map entry_of us) ?t)"
    using Cons.prems(1) fits by (intro Cons.IH) simp_all
  ultimately show ?case by (simp add: opened_def)
qed (simp add: opened_def advance_none)

lemma walk_tree_step:
  "tw_stack t \<noteq> [] \<Longrightarrow> walk_step lib run t w = (Inr t', w') \<Longrightarrow> walk_tree lib run t w = walk_tree lib run t' w'"
  by (subst walk_tree.simps) simp

lemma fold_max_le: "fold max (map f ts) (m :: nat) \<le> n \<longleftrightarrow> m \<le> n \<and> (\<forall>t \<in> set ts. f t \<le> n)"
  by (induction ts arbitrary: m) auto

lemma walk_tree_node:
  assumes "kinds_ok u" and "answers lib run w u" and "\<not> is_leaf u" and "depth + tree_height u \<le> MAX_RECURSION_DEPTH + 1"
    and "fits (below u) t" and "tw_stack t = (se_path (entry_of u), depth, False) # st"
  shows "walk_tree lib run t w = walk_tree lib run (advance st (file_order u) (post_order u) (below u) t) w"
  using assms
proof (induction u arbitrary: depth t st)
  case (Node e ts)
  have forest: "walk_tree lib run t w = walk_tree lib run
      (advance st (concat (map file_order us)) (concat (map post_order us)) (concat (map below us)) t) w"
    if "set us \<subseteq> set ts" "fits (concat (map below us)) t" "tw_stack t = opened (depth + 1) us @ st" for us t st
    using that
  proof (induction us arbitrary: t)
    case Nil
    then show ?case using advance_none[of t] by (simp add: opened_def)
  next
    case (Cons u us)
    have u: "u \<in> set ts" "kinds_ok u" "answers lib run w u"
      using Cons.prems(1) Node.prems(1,2) by (auto simp: list_all_iff)
    have "tree_height u \<le> fold max (map tree_height ts) 0"
      using u(1) fold_max_le[of tree_height ts 0 "fold max (map tree_height ts) 0"] by simp
    then have height: "depth + 1 + tree_height u \<le> MAX_RECURSION_DEPTH + 1" using Node.prems(4) by simp
    have fits: "fits (below u @ concat (map below us)) t" using Cons.prems(2) by simp
    show ?case
    proof (cases "is_leaf u")
      case True
      then show ?thesis using Cons by (cases u) (simp_all add: opened_def)
    next
      case False
      let ?st = "opened (depth + 1) us @ st"
      have "walk_tree lib run t w = walk_tree lib run (advance ?st (file_order u) (post_order u) (below u) t) w"
        using Node.IH[OF u False height fits_append[OF fits], of ?st] Cons.prems(3) False by (simp add: opened_def)
      also have "\<dots> = walk_tree lib run (advance st (concat (map file_order us)) (concat (map post_order us))
          (concat (map below us)) (advance ?st (file_order u) (post_order u) (below u) t)) w"
        using Cons.prems(1) fits by (intro Cons.IH) simp_all
      finally show ?thesis by simp
    qed
  qed
  let ?p = "se_path e"
  let ?leaves = "map (\<lambda>t. se_path (entry_of t)) (filter is_leaf (rev ts))"
  let ?t1 = "advance (opened (depth + 1) ts @ (?p, depth, True) # st) ?leaves [] (map entry_of (rev ts)) t"
  have depth: "depth \<le> MAX_RECURSION_DEPTH" using Node.prems(4) by simp
  have fits: "fits (map entry_of ts @ concat (map below ts)) t" using Node.prems(5) by simp
  have budget: "walk_budget t" using Node.prems(5) by (simp add: fits_def walk_budget_def)
  have "fits (map entry_of (rev ts)) (t\<lparr>tw_stack := (?p, depth, True) # st\<rparr>)"
    using fits by (simp add: fits_def rev_map[symmetric])
  from push_children_tree[OF _ this, of depth] Node.prems(1)
  have "rfold (push_child depth) (rev (map entry_of ts)) (t\<lparr>tw_stack := (?p, depth, True) # st\<rparr>) = Inr ?t1"
    by (simp add: rev_map advance_def)
  then have "walk_step lib run t w = (Inr ?t1, w)"
    using Node.prems(2,6) depth budget by (simp add: walk_step_def walk_budget_def Let_def)
  then have "walk_tree lib run t w = walk_tree lib run ?t1 w"
    using Node.prems(6) by (intro walk_tree_step) simp_all
  also have "\<dots> = walk_tree lib run (advance ((?p, depth, True) # st) (concat (map file_order ts)) (concat (map post_order ts))
      (concat (map below ts)) ?t1) w"
    using fits by (intro forest) (simp_all add: fits_def advance_def rev_map[symmetric] add.assoc)
  also have "\<dots> = walk_tree lib run (advance st (file_order (Node e ts)) (post_order (Node e ts)) (below (Node e ts)) t) w"
    (is "walk_tree lib run ?t2 w = _")
  proof (rule walk_tree_step)
    have "walk_budget ?t2" using fits by (simp add: fits_def walk_budget_def advance_def rev_map[symmetric])
    then show "walk_step lib run ?t2 w = (Inr (advance st (file_order (Node e ts)) (post_order (Node e ts)) (below (Node e ts)) t), w)"
      using depth by (simp add: walk_step_def walk_budget_def Let_def advance_def rev_map[symmetric])
  qed simp
  finally show ?case .
qed simp

lemma walked_paths:
  "kinds_ok u \<Longrightarrow> \<not> is_leaf u \<Longrightarrow> set (file_order u) = {se_path e |e. e \<in> set (below u) \<and> se_kind e \<noteq> DirectoryKind}
    \<and> set (post_order u) = insert (se_path (entry_of u)) {se_path e |e. e \<in> set (below u) \<and> se_kind e = DirectoryKind}"
proof (induction u)
  case (Node e ts)
  have kind: "is_leaf t \<longleftrightarrow> se_kind (entry_of t) \<noteq> DirectoryKind" if "t \<in> set ts" for t
    using Node.prems(1) that by (cases t) (auto simp: list_all_iff)
  have leaf: "file_order t = []" "post_order t = []" "below t = []" if "is_leaf t" for t
    using that by (cases t; simp)+
  have IH: "set (file_order t) = {se_path e |e. e \<in> set (below t) \<and> se_kind e \<noteq> DirectoryKind}"
    "set (post_order t) = (if is_leaf t then {} else insert (se_path (entry_of t))
       {se_path e |e. e \<in> set (below t) \<and> se_kind e = DirectoryKind})" if "t \<in> set ts" for t
  proof -
    have "kinds_ok t" using Node.prems(1) that by (simp add: list_all_iff)
    with Node.IH[OF that] leaf[of t]
    show "set (file_order t) = {se_path e |e. e \<in> set (below t) \<and> se_kind e \<noteq> DirectoryKind}"
      "set (post_order t) = (if is_leaf t then {} else insert (se_path (entry_of t))
         {se_path e |e. e \<in> set (below t) \<and> se_kind e = DirectoryKind})"
      by (cases "is_leaf t"; simp)+
  qed
  let ?P = "\<lambda>t. {se_path e |e. e \<in> set (below t) \<and> se_kind e \<noteq> DirectoryKind}"
  let ?D = "\<lambda>t. {se_path e |e. e \<in> set (below t) \<and> se_kind e = DirectoryKind}"
  have "set (file_order (Node e ts)) = (\<lambda>t. se_path (entry_of t)) ` {t \<in> set ts. is_leaf t} \<union> (\<Union>t\<in>set ts. set (file_order t))"
    by auto
  also have "{t \<in> set ts. is_leaf t} = {t \<in> set ts. se_kind (entry_of t) \<noteq> DirectoryKind}" using kind by blast
  also have "(\<Union>t\<in>set ts. set (file_order t)) = (\<Union>t\<in>set ts. ?P t)" using IH(1) by simp
  finally have files: "set (file_order (Node e ts)) = ?P (Node e ts)" by auto
  have "set (post_order (Node e ts)) = insert (se_path e) (\<Union>t\<in>set ts. set (post_order t))" by auto
  also have "(\<Union>t\<in>set ts. set (post_order t)) = (\<lambda>t. se_path (entry_of t)) ` {t \<in> set ts. \<not> is_leaf t} \<union> (\<Union>t\<in>set ts. ?D t)"
    using IH(2) leaf(3) by (auto split: if_splits)
  also have "{t \<in> set ts. \<not> is_leaf t} = {t \<in> set ts. se_kind (entry_of t) = DirectoryKind}" using kind by blast
  finally have "set (post_order (Node e ts)) = insert (se_path e) (?D (Node e ts))" by auto
  with files show ?case by simp
qed simp


definition sample_rows :: "(string \<times> string) list" where
  "sample_rows = [(''/d'', ''drwxr-xr-x 2 1 1 0 Aug 1 12:34 sub'' @ [CHR 0x0A] @ ''-rw-r--r-- 1 1 1 7 Aug 1 12:34 f'' @ [CHR 0x0A]),
     (''/d/sub'', ''lrwxrwxrwx 1 1 1 3 Aug 1 12:34 link -> /etc'' @ [CHR 0x0A])]"

definition sample_sftp :: "unit sftp" where
  "sample_sftp script w = (case find (\<lambda>(p, _). script = ''ls -lan '' @ [CHR 0x22] @ p @ [CHR 0x22, CHR 0x0A]) sample_rows of
      Some (_, rows) \<Rightarrow> (Inr \<lparr>ca_success = True, ca_status = [], ca_stdout = rows, ca_stderr = [], ca_truncated = False\<rparr>, w)
    | None \<Rightarrow> (Inr \<lparr>ca_success = False, ca_status = [], ca_stdout = [], ca_stderr = [], ca_truncated = False\<rparr>, w))"

definition sample_library :: sftp_library where
  "sample_library = \<lparr>sl_modified = (\<lambda>_ _ _. None), sl_lower = to_ascii_lowercase, sl_is_uuid = (\<lambda>_. True)\<rparr>"

definition sample_entry :: "string \<Rightarrow> string \<Rightarrow> sftp_entry_kind \<Rightarrow> nat \<Rightarrow> string \<Rightarrow> sftp_entry" where
  "sample_entry name path kind bytes permissions = \<lparr>se_name = name, se_path = path, se_kind = kind, se_size = bytes,
     se_modified_at = None, se_permissions = Some permissions\<rparr>"

definition sample_tree :: remote_tree where
  "sample_tree = Node (sample_entry ''d'' ''/d'' DirectoryKind 0 ''drwxr-xr-x'')
     [Node (sample_entry ''sub'' ''/d/sub'' DirectoryKind 0 ''drwxr-xr-x'')
        [Leaf (sample_entry ''link'' ''/d/sub/link'' SymlinkKind 3 ''lrwxrwxrwx'')],
      Leaf (sample_entry ''f'' ''/d/f'' FileKind 7 ''-rw-r--r--'')]"

lemma sample_listing:
  "sftp_list sample_library sample_sftp ''/d'' True () = (Inr [sample_entry ''sub'' ''/d/sub'' DirectoryKind 0 ''drwxr-xr-x'',
     sample_entry ''f'' ''/d/f'' FileKind 7 ''-rw-r--r--''], ())"
  "sftp_list sample_library sample_sftp ''/d/sub'' True () = (Inr [sample_entry ''link'' ''/d/sub/link'' SymlinkKind 3 ''lrwxrwxrwx''], ())"
  by code_simp+


end
