(* ===== verification/SftpDelete.thy ===== *)
theory SftpDelete
  imports SftpTreeProps
begin

text \<open>
  The scripts that carry out a deletion: they cover every path once, and no path leaves the tree that
  was asked to be deleted.
\<close>

section \<open>The scripts of a deletion\<close>

text \<open>The remote side together with the scripts that were run on it.\<close>

definition logged :: "'w sftp \<Rightarrow> ('w \<times> string list) sftp" where
  "logged run script = (\<lambda>(w, log). case run script w of (r, w) \<Rightarrow> (r, (w, log @ [script])))"

definition path_line :: "string \<Rightarrow> string \<Rightarrow> string" where
  "path_line command path = command @ CHR '' '' # quoted path @ [CHR 0x0A]"

lemma ends_line [simp]: "ends_with (a @ [x]) [x]"
  by (simp add: ends_with_def)

lemma run_batch_logged:
  assumes "run_batch (logged run) script (w, log) = (Inr r, (w', log'))" and "ends_with script [CHR 0x0A]"
  shows "log' = log @ [script] \<and> length script \<le> MAX_BATCH_BYTES"
  using assms
  by (auto simp: run_batch_def run_raw_batch_def logged_def invalid_def split: if_splits prod.splits sum.splits)

definition whole_lines :: "string \<Rightarrow> bool" where
  "whole_lines s \<longleftrightarrow> s = [] \<or> ends_with s [CHR 0x0A]"

lemma whole_lines_append: "whole_lines s \<Longrightarrow> whole_lines (s @ path_line command path)"
  by (simp add: whole_lines_def path_line_def ends_with_def)

lemma path_script_logged:
  assumes "command \<in> set BATCH_COMMANDS" and "path_script (logged run) command paths (script, (w, log)) = (Inr script', (w', log'))"
    and "whole_lines script"
  shows "\<exists>scripts. log' = log @ scripts \<and> (\<forall>s \<in> set scripts. s \<noteq> [] \<and> whole_lines s \<and> length s \<le> MAX_BATCH_BYTES)
    \<and> concat scripts @ script' = script @ concat (map (path_line command) paths) \<and> whole_lines script'
    \<and> list_all argument_ok paths"
  using assms(2,3)
proof (induction paths arbitrary: script w log)
  case (Cons p paths)
  obtain mid w1 log1 where mid: "add_line (logged run) command p (script, (w, log)) = (Inr mid, (w1, log1))"
    and rest: "path_script (logged run) command paths (mid, (w1, log1)) = (Inr script', (w', log'))"
    using Cons.prems(1) by (auto split: prod.splits sum.splits)
  obtain line where line: "batch_command command [p] = Inr line"
    using mid by (cases "batch_command command [p]") (auto simp: add_line_def)
  then have p: "line = path_line command p" "argument_ok p"
    by (auto simp: batch_command_iff[OF assms(1)] path_line_def)
  have whole: "whole_lines line" using p(1) by (simp add: whole_lines_def path_line_def ends_with_def)
  show ?case
  proof (cases "script \<noteq> [] \<and> length script + length line > MAX_BATCH_BYTES")
    case True
    obtain r where r: "run_batch (logged run) script (w, log) = (Inr r, (w1, log1))" and "mid = line"
      using mid line True by (auto simp: add_line_def invalid_def split: if_splits prod.splits sum.splits dest: rbind_Inr_iff[THEN iffD1])
    have "log1 = log @ [script] \<and> length script \<le> MAX_BATCH_BYTES"
      using run_batch_logged[OF r] Cons.prems(2) True by (simp add: whole_lines_def)
    moreover obtain scripts where "log' = log1 @ scripts" "\<forall>s \<in> set scripts. s \<noteq> [] \<and> whole_lines s \<and> length s \<le> MAX_BATCH_BYTES"
      "concat scripts @ script' = line @ concat (map (path_line command) paths)" "whole_lines script'" "list_all argument_ok paths"
      using Cons.IH[OF rest] whole \<open>mid = line\<close> by blast
    ultimately show ?thesis
      using True Cons.prems(2) p by (intro exI[of _ "script # scripts"]) auto
  next
    case False
    then have "mid = script @ line" "w1 = w" "log1 = log"
      using mid line by (auto simp: add_line_def invalid_def split: if_splits)
    with Cons.IH[OF rest] whole_lines_append[OF Cons.prems(2)] p show ?thesis by auto
  qed
qed simp

lemma script_lines_append:
  "whole_lines a \<Longrightarrow> script_lines (a @ b) = script_lines a @ script_lines b"
proof -
  assume "whole_lines a"
  moreover have split: "split_on (\<lambda>c. c = CHR 0x0A) (s @ CHR 0x0A # b) = split_on (\<lambda>c. c = CHR 0x0A) s @ split_on (\<lambda>c. c = CHR 0x0A) b" for s b
    by (induction s) (auto split: list.splits)
  ultimately show ?thesis
    using split[of "butlast a" "[]"]
    by (cases a rule: rev_cases) (auto simp: whole_lines_def ends_with_def script_lines_def butlast_append)
qed

lemma script_lines_concat: "\<forall>s \<in> set ss. whole_lines s \<Longrightarrow> concat (map script_lines ss) = script_lines (concat ss)"
  by (induction ss) (simp_all add: script_lines_append, simp add: script_lines_def)

text \<open>
  The commands of a deletion cover every path once.  When \<^verbatim>\<open>run_path_commands\<close> succeeds, the scripts
  it ran are within the batch limit of 1 MiB, and read back with the quoting rules they contain, one
  after the other, the command for each path in the order given, and nothing else.
\<close>

theorem deletion_scripts_cover_paths:
  assumes "command \<in> set BATCH_COMMANDS" and "run_path_commands (logged run) command paths (w, []) = (Inr (), (w', log))"
  shows "(\<forall>script \<in> set log. length script \<le> 1048576)
    \<and> map batch_words (concat (map script_lines log))
        = map (\<lambda>path. Some (map (map Plain) (command_words command @ [path]))) paths"
proof -
  obtain script' w1 log1 where script: "path_script (logged run) command paths ([], (w, [])) = (Inr script', (w1, log1))"
    using assms(2) by (auto simp: run_path_commands_def split: prod.splits sum.splits)
  obtain scripts where s: "log1 = scripts" "\<forall>s \<in> set scripts. s \<noteq> [] \<and> whole_lines s \<and> length s \<le> MAX_BATCH_BYTES"
    "concat scripts @ script' = concat (map (path_line command) paths)" "whole_lines script'" "list_all argument_ok paths"
    using path_script_logged[OF assms(1) script] by (auto simp: whole_lines_def)
  have log: "log = scripts @ (if script' = [] then [] else [script']) \<and> length script' \<le> MAX_BATCH_BYTES"
  proof (cases "script' = []")
    case True
    then show ?thesis using assms(2) script s(1) by (simp add: run_path_commands_def)
  next
    case False
    then obtain r where "run_batch (logged run) script' (w1, log1) = (Inr r, (w', log))"
      using assms(2) script
      by (auto simp: run_path_commands_def split: prod.splits sum.splits dest: rbind_Inr_iff[THEN iffD1])
    from run_batch_logged[OF this] False s(1,4) show ?thesis by (simp add: whole_lines_def)
  qed
  then have "\<forall>x \<in> set log. whole_lines x" "concat log = concat (map (path_line command) paths)"
    using s(2,3,4) by (auto split: if_splits)
  then have "concat (map script_lines log) = script_lines (concat (map (path_line command) paths))"
    by (simp add: script_lines_concat)
  moreover have "batch_script (map (\<lambda>p. (command, [p])) paths) = Inr (concat (map (path_line command) paths))"
    using s(5) by (induction paths) (auto simp: path_line_def batch_command_iff[OF assms(1), THEN iffD2])
  moreover have "list_all (\<lambda>(_, a). list_all argument_ok a) (map (\<lambda>p. (command, [p])) paths)"
    using s(5) by (simp add: list_all_iff)
  ultimately have "map batch_words (concat (map script_lines log))
      = map (\<lambda>(c, a). Some (map (map Plain) (command_words c @ a))) (map (\<lambda>p. (command, [p])) paths)"
    using batch_lines_read_back[of "map (\<lambda>p. (command, [p])) paths"] assms(1) by (auto simp: split: if_splits)
  then show ?thesis using s(2) log by (auto simp: MAX_BATCH_BYTES_def split: if_splits)
qed

definition obedient_sftp :: "unit sftp" where
  "obedient_sftp script w = (Inr \<lparr>ca_success = True, ca_status = [], ca_stdout = [], ca_stderr = [], ca_truncated = False\<rparr>, w)"

lemma deletion_scripts_cover_paths_witness:
  "\<exists>log. run_path_commands (logged obedient_sftp) ''rm'' [''/a'', ''/b*''] ((), []) = (Inr (), ((), log))
    \<and> map batch_words (concat (map script_lines log)) = [Some (map (map Plain) [''rm'', ''/a'']), Some (map (map Plain) [''rm'', ''/b*''])]"
proof -
  have ran: "run_path_commands (logged obedient_sftp) ''rm'' [''/a'', ''/b*''] ((), [])
      = (Inr (), ((), [path_line ''rm'' ''/a'' @ path_line ''rm'' ''/b*'']))"
    by code_simp
  have "''rm'' \<in> set BATCH_COMMANDS" by (simp add: BATCH_COMMANDS_def)
  from deletion_scripts_cover_paths[OF this ran] ran show ?thesis by (auto simp: command_words_def)
qed

section \<open>Staying inside\<close>

text \<open>\<open>within d p\<close>: the path leads to the location \<open>d\<close> or to something below it.\<close>

definition within :: "string list \<Rightarrow> string \<Rightarrow> bool" where
  "within d p \<longleftrightarrow> anchored p \<and> (\<exists>ns. resolve p = Some (ns @ d))"

definition listed_name :: "string \<Rightarrow> bool" where
  "listed_name n \<longleftrightarrow> CHR ''/'' \<notin> set n \<and> n \<notin> {''.'', ''..''}"

lemma anchored_append: "anchored p \<Longrightarrow> anchored (p @ x)"
  by (auto simp: anchored_def starts_with_prefix)

lemma resolve_slash: "resolve (p @ ''/'') = walk [] (base p)"
  using resolve_below[of p "[]"] by (cases "walk [] (base p)") (simp_all add: components_def)

lemma join_within:
  assumes "within d p" and "d \<noteq> []" and "listed_name name"
  shows "within d (remote_join p name)"
proof -
  obtain ns where ns: "resolve p = Some (ns @ d)" "anchored p" using assms(1) by (auto simp: within_def)
  have name: "\<exists>ms. walk h (components name) = Some (ms @ h)" for h
    using assms(3) by (cases "name = []") (auto simp: listed_name_def components_plain)
  have root: "p \<noteq> ''/''" using ns(1) assms(2) by (auto simp: resolve_def path_suffix_def components_def)
  obtain q where q: "remote_join p name = q @ CHR ''/'' # name" "walk [] (base q) = Some (ns @ d)"
  proof (cases "ends_with p ''/''")
    case True
    then obtain q where "p = q @ ''/''" by (metis append_take_drop_id ends_with_def)
    with ns(1) resolve_slash[of q] root True that[of q] show thesis by (simp add: remote_join_def)
  next
    case False
    have "p \<noteq> ''~''" using ns(2) by (auto simp: anchored_def starts_with_def)
    moreover have "starts_with (p @ ''/'') ''~/'' \<longleftrightarrow> p = ''~'' \<or> starts_with p ''~/''"
    proof (cases p)
      case (Cons a p')
      then show ?thesis by (cases p') (auto simp: starts_with_def)
    qed (simp add: starts_with_def)
    ultimately have "walk [] (base p) = resolve p" by (simp add: base_def resolve_components)
    with ns(1) root False that[of p] show thesis by (simp add: remote_join_def)
  qed
  obtain ms where "walk (ns @ d) (components name) = Some (ms @ ns @ d)" using name by blast
  then have "resolve (remote_join p name) = Some ((ms @ ns) @ d)" using q by (simp add: resolve_below)
  moreover have "anchored (remote_join p name)"
    using ns(2) anchored_append[of p] by (simp add: remote_join_def root)
  ultimately show ?thesis unfolding within_def by blast
qed

lemma parse_row_paths:
  assumes "parse_row modified parent line (es, b) = Inr (es', b')" and "e \<in> set es'"
  shows "e \<in> set es \<or> (se_path e = remote_join parent (se_name e) \<and> CHR ''/'' \<notin> set (se_name e))"
proof -
  have slash: "CHR ''/'' \<notin> set (after_slash x)" for x
    by (auto simp: after_slash_def dest: set_takeWhileD)
  show ?thesis
    using assms slash
    by (auto simp: parse_row_def Let_def invalid_def result_simps listing_file_name_def split: if_splits)
qed

lemma parse_rows_paths:
  "rfold (parse_row modified parent) ls (es, b) = Inr (es', b') \<Longrightarrow> e \<in> set es' \<Longrightarrow>
    e \<in> set es \<or> (se_path e = remote_join parent (se_name e) \<and> CHR ''/'' \<notin> set (se_name e))"
proof (induction ls arbitrary: es b)
  case (Cons l ls)
  then obtain es1 b1 where 1: "parse_row modified parent l (es, b) = Inr (es1, b1)"
    "rfold (parse_row modified parent) ls (es1, b1) = Inr (es', b')" by (auto simp: result_simps)
  from Cons.IH[OF 1(2) Cons.prems(2)] parse_row_paths[OF 1(1), of e] show ?case by blast
qed auto

lemma sftp_list_paths:
  assumes "sftp_list lib run path True w = (Inr es, w')" and "e \<in> set es"
  shows "se_path e = remote_join path (se_name e) \<and> listed_name (se_name e)"
proof -
  obtain out :: captured where "(rbind (parse_long_listing (sl_modified lib) (captured_text (ca_stdout out)) path)
      (\<lambda>entries. Inr (sort_key (\<lambda>e. (entry_kind_order (se_kind e), sl_lower lib (se_name e), se_name e))
         (filter (\<lambda>e. se_name e \<notin> set [''.'', ''..'']) entries)))) = Inr es"
    using assms(1) by (simp add: sftp_list_def Let_def split: sum.splits prod.splits)
  then obtain entries b where "rfold (parse_row (sl_modified lib) path) (str_lines (captured_text (ca_stdout out))) ([], 0) = Inr (entries, b)"
    "e \<in> set entries" "se_name e \<notin> {''.'', ''..''}"
    using assms(2) by (auto simp: parse_long_listing_def result_simps)
  from parse_rows_paths[OF this(1,2)] this(3) show ?thesis by (simp add: listed_name_def)
qed

section \<open>The paths of a walk\<close>

definition walk_within :: "string list \<Rightarrow> tree_walk \<Rightarrow> bool" where
  "walk_within d t \<longleftrightarrow> list_all (\<lambda>(p, _). within d p) (tw_stack t) \<and> list_all (within d) (tw_files t)
     \<and> list_all (within d) (tw_directories t)"

lemma push_within:
  "rfold (push_child depth) cs t = Inr t' \<Longrightarrow> walk_within d t \<Longrightarrow> \<forall>e \<in> set cs. within d (se_path e) \<Longrightarrow> walk_within d t'"
proof (induction cs arbitrary: t)
  case (Cons c cs)
  then obtain u where u: "push_child depth c t = Inr u" "rfold (push_child depth) cs u = Inr t'" by (auto simp: result_simps)
  have "walk_within d u"
    using u(1) Cons.prems(2,3) by (auto simp: push_child_def Let_def invalid_def walk_within_def split: if_splits)
  with Cons.IH[OF u(2)] Cons.prems(3) show ?case by simp
qed simp

lemma walk_step_within:
  assumes "walk_step lib run t w = (Inr t', w')" and "walk_within d t" and "tw_stack t \<noteq> []" and "d \<noteq> []"
  shows "walk_within d t'"
proof -
  obtain path depth visited st where st: "tw_stack t = (path, depth, visited) # st" using assms(3) by (cases "tw_stack t") auto
  have path: "within d path" using assms(2) st by (simp add: walk_within_def)
  show ?thesis
  proof (cases visited)
    case True
    then show ?thesis
      using assms(1,2) st path by (auto simp: walk_step_def Let_def invalid_def walk_within_def split: if_splits)
  next
    case False
    then obtain children where c: "sftp_list lib run path True w = (Inr children, w')"
      "rfold (push_child depth) (rev children) (t\<lparr>tw_stack := (path, depth, True) # st\<rparr>) = Inr t'"
      using assms(1) st by (auto simp: walk_step_def Let_def invalid_def split: if_splits prod.splits sum.splits)
    have "\<forall>e \<in> set (rev children). within d (se_path e)"
      using sftp_list_paths[OF c(1)] join_within[OF path assms(4)] by auto
    moreover have "walk_within d (t\<lparr>tw_stack := (path, depth, True) # st\<rparr>)"
      using assms(2) st by (simp add: walk_within_def)
    ultimately show ?thesis using push_within[OF c(2)] by blast
  qed
qed

lemma walk_tree_within:
  assumes "walk_tree lib run t w = Some (Inr t', w')" and "walk_within d t" and "d \<noteq> []"
  shows "walk_within d t'"
proof -
  have "walk_measure t = n \<Longrightarrow> walk_tree lib run t w = Some (Inr t', w') \<Longrightarrow> walk_within d t \<Longrightarrow> walk_within d t'" for n t w
  proof (induction n arbitrary: t w rule: less_induct)
    case (less n)
    show ?case
    proof (cases "tw_stack t = []")
      case True
      with less.prems show ?thesis by (simp add: walk_tree.simps)
    next
      case False
      then obtain u v where u: "walk_step lib run t w = (Inr u, v)" "walk_tree lib run u v = Some (Inr t', w')"
        using less.prems(2) by (subst (asm) walk_tree.simps) (auto split: prod.splits sum.splits)
      have "walk_measure u < n" using walk_step_measure[OF False u(1)] less.prems(1) by simp
      from less.IH[OF this refl u(2) walk_step_within[OF u(1) less.prems(3) False assms(3)]] show ?thesis .
    qed
  qed
  with assms(1,2) show ?thesis by blast
qed

section \<open>What is run\<close>

text \<open>A line that lists something or removes something inside \<open>d\<close>.\<close>

definition deletes_within :: "string list \<Rightarrow> string \<Rightarrow> bool" where
  "deletes_within d line \<longleftrightarrow> (\<exists>p. batch_words line = Some (map (map Plain) [''ls'', ''-lan'', p]))
     \<or> (\<exists>c q. c \<in> {''rm'', ''rmdir''} \<and> batch_words line = Some (map (map Plain) [c, q]) \<and> within d q)"

definition script_within :: "string list \<Rightarrow> string \<Rightarrow> bool" where
  "script_within d script \<longleftrightarrow> whole_lines script \<and> list_all (deletes_within d) (script_lines script)"

lemma command_line_words:
  assumes "command \<in> set BATCH_COMMANDS" and "batch_command command [p] = Inr line"
  shows "whole_lines line \<and> map batch_words (script_lines line) = [Some (map (map Plain) (command_words command @ [p]))]"
proof -
  have "list_all argument_ok [p]" "line = path_line command p"
    using assms(2) by (auto simp: batch_command_iff[OF assms(1)] path_line_def)
  then show ?thesis
    using batch_lines_read_back[of "[(command, [p])]"] assms whole_lines_append[of "[]" command p]
    by (auto simp: whole_lines_def)
qed

lemma list_line_within: "batch_command ''ls -lan'' [p] = Inr line \<Longrightarrow> script_within d line"
  using command_line_words[of "''ls -lan''" p line]
  by (auto simp: script_within_def deletes_within_def BATCH_COMMANDS_def command_words_def)

lemma remove_line_within:
  assumes "c \<in> {''rm'', ''rmdir''}" and "within d p" and "batch_command c [p] = Inr line"
  shows "script_within d line"
proof -
  have c: "c \<in> set BATCH_COMMANDS" "command_words c = [c]"
    using assms(1) by (auto simp: BATCH_COMMANDS_def command_words_def)
  obtain z where z: "whole_lines line" "script_lines line = [z]" "batch_words z = Some (map (map Plain) [c, p])"
    using command_line_words[OF c(1) assms(3)] c(2) by auto
  have "deletes_within d z" unfolding deletes_within_def using assms(1,2) z(3) by blast
  with z show ?thesis by (simp add: script_within_def)
qed

lemma script_within_append: "script_within d a \<Longrightarrow> script_within d b \<Longrightarrow> script_within d (a @ b)"
  by (cases "b = []") (auto simp: script_within_def script_lines_append whole_lines_def ends_with_def)

section \<open>The interface\<close>

text \<open>
  What a deletion inside \<open>d\<close> keeps: any property of the outside world that is kept by every script of
  listings and of removals inside \<open>d\<close>.
\<close>

locale batch_invariant =
  fixes d :: "string list" and run :: "'w sftp" and P :: "'w \<Rightarrow> bool"
  assumes keep: "script_within d script \<Longrightarrow> P w \<Longrightarrow> run script w = (r, w') \<Longrightarrow> P w'"
    and somewhere: "d \<noteq> []"
begin

lemma raw_batch_keeps:
  "run_raw_batch run script w = (r, w') \<Longrightarrow> P w \<Longrightarrow> script_within d script \<Longrightarrow> P w'"
  by (auto simp: run_raw_batch_def script_within_def whole_lines_def split: if_splits prod.splits sum.splits
      dest: keep[rotated 2] simp del: split_paired_All)

lemma batch_keeps: "run_batch run script w = (r, w') \<Longrightarrow> P w \<Longrightarrow> script_within d script \<Longrightarrow> P w'"
  by (auto simp: run_batch_def split: if_splits prod.splits sum.splits dest: raw_batch_keeps)

lemma list_keeps: "sftp_list lib run path b w = (r, w') \<Longrightarrow> P w \<Longrightarrow> P w'"
  by (auto simp: sftp_list_def result_simps split: sum.splits prod.splits intro: batch_keeps[OF _ _ list_line_within])

lemma metadata_keeps: "sftp_metadata lib run path w = (r, w') \<Longrightarrow> P w \<Longrightarrow> P w'"
  by (auto simp: sftp_metadata_def result_simps Let_def split: sum.splits prod.splits if_splits option.splits
      intro: raw_batch_keeps[OF _ _ list_line_within])

lemma path_script_keeps:
  assumes "path_script run c paths (script, w) = (r, w')" and "P w"
    and "script_within d script" and "list_all (within d) paths" and "c \<in> {''rm'', ''rmdir''}"
  shows "P w' \<and> (\<forall>s. r = Inr s \<longrightarrow> script_within d s)"
  using assms(1-4)
proof (induction paths arbitrary: script w)
  case (Cons p paths)
  obtain q w1 where q: "add_line run c p (script, w) = (q, w1)" by (metis surj_pair)
  have "P w1 \<and> (\<forall>s. q = Inr s \<longrightarrow> script_within d s)"
  proof (cases "batch_command c [p]")
    case (Inl e)
    with q Cons.prems show ?thesis by (auto simp: add_line_def)
  next
    case (Inr line)
    have line: "script_within d line" using remove_line_within[OF assms(5) _ Inr] Cons.prems(4) by simp
    with q Inr Cons.prems(2,3) show ?thesis
      by (auto simp: add_line_def invalid_def result_simps split: if_splits prod.splits
          intro: script_within_append batch_keeps)
  qed
  with Cons.IH[of _ w1] Cons.prems q show ?case by (cases q) auto
qed auto

lemma path_commands_keep:
  assumes "run_path_commands run c paths w = (r, w')" and "P w"
    and "list_all (within d) paths" and "c \<in> {''rm'', ''rmdir''}"
  shows "P w'"
proof -
  obtain q w1 where q: "path_script run c paths ([], w) = (q, w1)" by (metis surj_pair)
  have "script_within d []" by (simp add: script_within_def whole_lines_def script_lines_def)
  from path_script_keeps[OF q assms(2) this assms(3,4)] assms(1) q show ?thesis
    by (auto simp: run_path_commands_def split: sum.splits if_splits prod.splits intro: batch_keeps)
qed

lemma walk_tree_keeps:
  assumes "walk_tree lib run t w = Some (r, w')" and "P w"
  shows "P w'"
proof -
  have "walk_measure t = n \<Longrightarrow> walk_tree lib run t w = Some (r, w') \<Longrightarrow> P w \<Longrightarrow> P w'" for n t w
  proof (induction n arbitrary: t w rule: less_induct)
    case (less n)
    show ?case
    proof (cases "tw_stack t = []")
      case True
      with less.prems show ?thesis by (simp add: walk_tree.simps)
    next
      case False
      obtain q v where q: "walk_step lib run t w = (q, v)" by (metis surj_pair)
      then have v: "P v"
        using less.prems(3) by (auto simp: walk_step_def Let_def split: if_splits prod.splits sum.splits intro: list_keeps)
      show ?thesis
      proof (cases q)
        case (Inl e)
        with q False less.prems(2) v show ?thesis by (subst (asm) walk_tree.simps) auto
      next
        case (Inr u)
        then have u: "walk_tree lib run u v = Some (r, w')"
          using q False less.prems(2) by (subst (asm) walk_tree.simps) auto
        have "walk_measure u < n" using walk_step_measure[OF False, of lib run w u v] q Inr less.prems(1) by simp
        from less.IH[OF this refl u v] show ?thesis .
      qed
    qed
  qed
  with assms show ?thesis by blast
qed

lemma delete_tree_keeps:
  assumes "delete_tree lib run path w = Some (r, w')" and "P w" and "within d path"
  shows "P w'"
proof -
  obtain q w2 where q: "walk_tree lib run (start_walk path) w = Some (q, w2)"
    using assms(1) by (auto simp: delete_tree_def split: option.splits)
  have w2: "P w2" by (rule walk_tree_keeps[OF q assms(2)])
  show ?thesis
  proof (cases q)
    case (Inl e)
    with assms(1) q w2 show ?thesis by (simp add: delete_tree_def)
  next
    case (Inr t)
    have "walk_within d t"
      using walk_tree_within[of lib run "start_walk path" w t w2 d] q Inr assms(3) somewhere
      by (simp add: start_walk_def walk_within_def)
    then have paths: "list_all (within d) (tw_files t)" "list_all (within d) (tw_directories t)" by (simp_all add: walk_within_def)
    obtain q1 w3 where q1: "run_path_commands run ''rm'' (tw_files t) w2 = (q1, w3)" by (metis surj_pair)
    obtain q2 w4 where q2: "run_path_commands run ''rmdir'' (tw_directories t) w3 = (q2, w4)" by (metis surj_pair)
    have w3: "P w3" by (rule path_commands_keep[OF q1 w2 paths(1)]) simp
    have w4: "P w4" by (rule path_commands_keep[OF q2 w3 paths(2)]) simp
    show ?thesis using assms(1) q Inr q1 q2 w3 w4 by (auto simp: delete_tree_def split: sum.splits)
  qed
qed

lemma delete_keeps:
  assumes "sftp_delete lib run path recursive w = Some (r, w')" and "P w" and "resolve path = Some d"
  shows "P w'"
proof (cases "validate_destructive_remote_path path")
  case (Inl e)
  with assms(1,2) show ?thesis by (simp add: sftp_delete_def)
next
  case (Inr u)
  then have path: "within d path" using assms(3) by (auto simp: destructive_path_iff within_def)
  obtain m w1 where m: "sftp_metadata lib run path w = (m, w1)" by (metis surj_pair)
  have w1: "P w1" by (rule metadata_keeps[OF m assms(2)])
  show ?thesis
  proof (cases "\<exists>e. m = Inr (Some e) \<and> se_kind e = DirectoryKind \<and> recursive")
    case True
    then have "delete_tree lib run path w1 = Some (r, w')"
      using assms(1) Inr m by (auto simp: sftp_delete_def)
    from delete_tree_keeps[OF this w1 path] show ?thesis .
  next
    case False
    then show ?thesis
      using assms(1) Inr m w1 path
      by (auto simp: sftp_delete_def run_command_def split: sum.splits option.splits if_splits prod.splits
          intro: batch_keeps remove_line_within)
  qed
qed

end

text \<open>The log of a deletion.\<close>

definition log_within :: "string list \<Rightarrow> 'w \<times> string list \<Rightarrow> bool" where
  "log_within d s \<longleftrightarrow> list_all (script_within d) (snd s)"

interpretation log_kept: batch_invariant "here # dir" "logged run" "log_within (here # dir)" for here dir run
  by unfold_locales (auto simp: logged_def log_within_def split: prod.splits)

text \<open>
  C26: a deletion never leaves the tree it was asked to delete.  Whatever the remote side answers, with
  or without errors, and whatever names it lists, every command of every script that \<^verbatim>\<open>delete\<close> runs is a
  listing or removes a path that, with dots and slashes resolved, is the given path or below it; and
  when the path is refused nothing is run at all.
\<close>

theorem deletion_stays_inside:
  assumes "sftp_delete lib (logged run) path recursive (w, []) = Some (r, (w', log))"
  shows "case resolve path of
      None \<Rightarrow> log = []
    | Some d \<Rightarrow> list_all (deletes_within d) (concat (map script_lines log))"
proof (cases "validate_destructive_remote_path path")
  case (Inl e)
  with assms show ?thesis by (auto simp: sftp_delete_def split: option.splits)
next
  case (Inr u)
  then obtain here dir where d: "resolve path = Some (here # dir)"
    by (auto simp: destructive_path_iff)
  have "log_within (here # dir) (w', log)"
    by (rule log_kept.delete_keeps[OF assms _ d]) (simp add: log_within_def)
  then show ?thesis using d by (auto simp: log_within_def script_within_def list_all_iff)
qed

lemma deletion_stays_inside_witness:
  "\<exists>r log. sftp_delete sample_library (logged sample_sftp) ''/d/f'' True ((), []) = Some (r, ((), log))
    \<and> length log = 2 \<and> list_all (deletes_within [''f'', ''d'']) (concat (map script_lines log))"
proof -
  obtain r log where ran: "sftp_delete sample_library (logged sample_sftp) ''/d/f'' True ((), []) = Some (r, ((), log))"
    and n: "length log = 2"
  proof -
    have "(case sftp_delete sample_library (logged sample_sftp) ''/d/f'' True ((), []) of
        None \<Rightarrow> False | Some (_, (_, log)) \<Rightarrow> length log = 2)"
      by code_simp
    with that show thesis by (auto split: option.splits prod.splits)
  qed
  have "resolve ''/d/f'' = Some [''f'', ''d'']" by code_simp
  with deletion_stays_inside[OF ran] ran n show ?thesis by auto
qed

end
