(* ===== verification/SftpTransfer.thy ===== *)
theory SftpTransfer
  imports SftpDelete SftpListing
begin

text \<open>
  \<^verbatim>\<open>crates/remotedeck-core/src/sftp.rs\<close>, one attempt of a transfer: the choice of the destination, the
  copy into a temporary, and the commit that puts the temporary in place of the destination.

  An action takes the outside world \<open>'w\<close> (the remote side, the local disk, the clock and the flag that
  cancels the attempt) to a result and the world afterwards.
\<close>

type_synonym ('w, 'a) action = "'w \<Rightarrow> 'a app_result \<times> 'w"

definition andThen :: "('w, 'a) action \<Rightarrow> ('a \<Rightarrow> ('w, 'b) action) \<Rightarrow> ('w, 'b) action" where
  "andThen m f w = (case m w of (Inl e, w) \<Rightarrow> (Inl e, w) | (Inr x, w) \<Rightarrow> f x w)"

definition done_with :: "'a \<Rightarrow> ('w, 'a) action" where
  "done_with x w = (Inr x, w)"

definition fails :: "app_error \<Rightarrow> ('w, 'a) action" where
  "fails e w = (Inl e, w)"

definition lift_result :: "'a app_result \<Rightarrow> ('w, 'a) action" where
  "lift_result r w = (r, w)"

text \<open>\<^verbatim>\<open>if let Err(error) = m\<close>: the error is handled, a result goes on.\<close>

definition orElse :: "('w, 'a) action \<Rightarrow> (app_error \<Rightarrow> ('w, 'a) action) \<Rightarrow> ('w, 'a) action" where
  "orElse m h w = (case m w of (Inl e, w) \<Rightarrow> h e w | (Inr x, w) \<Rightarrow> (Inr x, w))"

lemma andThen_lift [simp]:
  "andThen (lift_result (Inr x)) f = f x" "andThen (lift_result (Inl e)) f = fails e"
  by (auto simp: andThen_def lift_result_def fails_def)

section \<open>Replacing a destination\<close>

text \<open>
  The steps that \<^verbatim>\<open>commit_remote_transfer\<close> and \<^verbatim>\<open>commit_local_transfer\<close> share: the destination becomes
  the backup, the temporary the destination, then the backup is removed; when the second step fails
  the backup is put back.  \<open>shown\<close> and \<open>displayed\<close> print the error of a move and a path in a message.
\<close>

definition swap_in ::
    "(app_error \<Rightarrow> string) \<Rightarrow> ('p \<Rightarrow> string) \<Rightarrow> ('p \<Rightarrow> 'p \<Rightarrow> ('w, 'a) action) \<Rightarrow> ('p \<Rightarrow> ('w, 'b) action) \<Rightarrow>
     'p \<Rightarrow> 'p \<Rightarrow> 'p \<Rightarrow> ('w, unit) action" where
  "swap_in shown displayed move remove temporary destination backup =
     andThen (move destination backup) (\<lambda>_.
     andThen (orElse (move temporary destination) (\<lambda>replace_error.
       andThen (orElse (move backup destination) (\<lambda>rollback_error.
         fails (State (''replacement failed ('' @ shown replace_error @ ''); rollback failed ('' @ shown rollback_error
           @ ''); the original remains at '' @ displayed backup)))) (\<lambda>_.
       fails replace_error))) (\<lambda>_.
     orElse (andThen (remove backup) (\<lambda>_. done_with ())) (\<lambda>error.
       fails (State (''replacement succeeded but the old destination backup remains at '' @ displayed backup @ '': '' @ app_error_display error)))))"

section \<open>The interface\<close>

text \<open>
  What the replacement relies on.  \<open>content w k\<close> is what lies at the location \<open>k\<close>; locations are apart
  when neither holds the other.  A move either does not happen or moves what lies at the source over
  the target; one that reports an error may still have happened (its answer was lost), one that
  reports success has.  A removal changes nothing apart from its location, however it ends.
\<close>

locale replacement =
  fixes content :: "'w \<Rightarrow> 'k \<Rightarrow> 'c option"
    and loc :: "'p \<Rightarrow> 'k"
    and apart :: "'k \<Rightarrow> 'k \<Rightarrow> bool"
    and move :: "'p \<Rightarrow> 'p \<Rightarrow> ('w, 'a) action"
    and remove :: "'p \<Rightarrow> ('w, 'b) action"
  assumes move_source: "apart (loc a) (loc b) \<Longrightarrow> move a b w = (r, w') \<Longrightarrow>
      content w' (loc a) = content w (loc a) \<and> content w' (loc b) = content w (loc b) \<and> \<not> is_ok r
      \<or> content w' (loc a) = None \<and> content w' (loc b) = content w (loc a) \<and> content w (loc a) \<noteq> None"
    and move_apart: "apart (loc a) (loc b) \<Longrightarrow> move a b w = (r, w') \<Longrightarrow> apart k (loc a) \<Longrightarrow> apart k (loc b) \<Longrightarrow> content w' k = content w k"
    and remove_apart: "remove p w = (q, w') \<Longrightarrow> apart k (loc p) \<Longrightarrow> content w' k = content w k"
    and apart_sym: "apart k l \<Longrightarrow> apart l k"
begin

text \<open>
  The replacement loses nothing: afterwards the new content is in place, or the old content is still
  there, at the destination or in the backup; success means that the new content is in place.
\<close>

lemma swap_safe:
  assumes run: "swap_in shown displayed move remove temporary destination backup w = (r, w')"
    and old: "content w (loc destination) = Some old" and new: "content w (loc temporary) = Some new"
    and td: "apart (loc temporary) (loc destination)" and tb: "apart (loc temporary) (loc backup)"
    and db: "apart (loc destination) (loc backup)"
  shows "(is_ok r \<longrightarrow> content w' (loc destination) = Some new \<and> content w' (loc temporary) = None)
    \<and> (content w' (loc destination) = Some new \<or> content w' (loc destination) = Some old \<or> content w' (loc backup) = Some old)"
proof -
  obtain r1 w1 where 1: "move destination backup w = (r1, w1)" by (metis surj_pair)
  have t1: "content w1 (loc temporary) = Some new" using move_apart[OF db 1 td tb] new by simp
  show ?thesis
  proof (cases r1)
    case (Inl e)
    then have "r = Inl e" "w' = w1" using run 1 by (simp_all add: swap_in_def andThen_def)
    then show ?thesis using move_source[OF db 1] old by (auto simp: Inl)
  next
    case (Inr x)
    have b1: "content w1 (loc backup) = Some old" using move_source[OF db 1] old Inr by auto
    obtain r2 w2 where 2: "move temporary destination w1 = (r2, w2)" by (metis surj_pair)
    have b2: "content w2 (loc backup) = Some old"
      using move_apart[OF td 2 apart_sym[OF tb] apart_sym[OF db]] b1 by simp
    show ?thesis
    proof (cases r2)
      case (Inl e)
      obtain r3 w3 where 3: "move backup destination w2 = (r3, w3)" by (metis surj_pair)
      have "\<not> is_ok r" "w' = w3"
        using run 1 Inr 2 Inl 3 by (auto simp: swap_in_def andThen_def orElse_def fails_def split: sum.splits)
      then show ?thesis using move_source[OF apart_sym[OF db] 3] b2 by auto
    next
      case r2: (Inr y)
      have d2: "content w2 (loc destination) = Some new" "content w2 (loc temporary) = None"
        using move_source[OF td 2] t1 r2 by auto
      obtain r4 w4 where 4: "remove backup w2 = (r4, w4)" by (metis surj_pair)
      have "w' = w4"
        using run 1 Inr 2 r2 4 by (auto simp: swap_in_def andThen_def orElse_def fails_def done_with_def split: sum.splits)
      then show ?thesis using remove_apart[OF 4 db] remove_apart[OF 4 tb] d2 by simp
    qed
  qed
qed

end

section \<open>The model\<close>

datatype conflict_policy = PolicyAsk | PolicySkip | PolicyOverwrite | PolicyRename

record upload_request =
  ur_local_path :: string
  ur_remote_path :: string
  ur_conflict_policy :: conflict_policy
  ur_recursive :: bool

record transfer_outcome =
  ou_destination :: string
  ou_total_bytes :: nat
  ou_skipped :: bool

datatype local_kind = LocalFile | LocalDirectory | LocalSymlink | LocalOther

text \<open>
  What an attempt finds outside: \<open>ae_run\<close> runs \<^verbatim>\<open>sftp\<close> until it ends or the attempt is cancelled;
  \<open>ae_preflight\<close> is \<^verbatim>\<open>transfer_preflight_remaining\<close> (the flag and the deadline), \<open>ae_cancelled\<close> the flag;
  \<open>ae_local_kind\<close> and \<open>ae_local_size\<close> are \<^verbatim>\<open>symlink_metadata\<close> and \<^verbatim>\<open>local_tree_size\<close> on the local disk.
\<close>

record 'w attempt_env =
  ae_lib :: sftp_library
  ae_run :: "'w sftp"
  ae_preflight :: "('w, unit) action"
  ae_cancelled :: "'w \<Rightarrow> bool \<times> 'w"
  ae_local_kind :: "string \<Rightarrow> ('w, local_kind) action"
  ae_local_size :: "string \<Rightarrow> ('w, nat) action"

definition conflict_requires_choice :: "string \<Rightarrow> app_error" where
  "conflict_requires_choice location =
     State (location @ '' transfer destination already exists; choose overwrite, skip, or rename'')"

text \<open>A deletion always ends (\<open>delete_tree_ends\<close>), so the last case is not reached.\<close>

definition remote_delete :: "'w attempt_env \<Rightarrow> string \<Rightarrow> bool \<Rightarrow> ('w, string list) action" where
  "remote_delete env path recursive w =
     (case sftp_delete (ae_lib env) (ae_run env) path recursive w of Some r \<Rightarrow> r | None \<Rightarrow> (Inl (Process []), w))"

fun try_conflict_names :: "'w attempt_env \<Rightarrow> string \<Rightarrow> bool \<Rightarrow> nat list \<Rightarrow> ('w, string) action" where
  "try_conflict_names env requested is_directory [] =
     fails (Process ''could not find an unused remote conflict name'')"
| "try_conflict_names env requested is_directory (counter # counters) =
     andThen (ae_preflight env) (\<lambda>_.
     andThen (lift_result (conflict_remote_path requested counter is_directory)) (\<lambda>candidate.
     andThen (sftp_metadata (ae_lib env) (ae_run env) candidate) (\<lambda>found.
       if found = None then done_with candidate
       else try_conflict_names env requested is_directory counters)))"

definition resolve_remote_conflict ::
    "'w attempt_env \<Rightarrow> string \<Rightarrow> conflict_policy \<Rightarrow> bool \<Rightarrow> ('w, string \<times> bool) action" where
  "resolve_remote_conflict env requested policy is_directory =
     andThen (ae_preflight env) (\<lambda>_.
     andThen (sftp_metadata (ae_lib env) (ae_run env) requested) (\<lambda>found.
       if found = None then done_with (requested, False)
       else case policy of
         PolicyAsk \<Rightarrow> fails (conflict_requires_choice ''remote'')
       | PolicySkip \<Rightarrow> done_with (requested, True)
       | PolicyOverwrite \<Rightarrow> done_with (requested, False)
       | PolicyRename \<Rightarrow>
           andThen (try_conflict_names env requested is_directory [1..<10000]) (\<lambda>candidate. done_with (candidate, False))))"

definition remove_remote_temp :: "'w attempt_env \<Rightarrow> string \<Rightarrow> ('w, unit) action" where
  "remove_remote_temp env temporary =
     (if \<not> is_owned_remote_temp (sl_is_uuid (ae_lib env)) temporary
      then fails (State ''refusing to remove a transfer path that is not app-owned'')
      else andThen (sftp_metadata (ae_lib env) (ae_run env) temporary) (\<lambda>found.
        case found of
          None \<Rightarrow> done_with ()
        | Some metadata \<Rightarrow> andThen (remote_delete env temporary (se_kind metadata = DirectoryKind)) (\<lambda>_. done_with ())))"

definition commit_remote_transfer ::
    "'w attempt_env \<Rightarrow> string \<Rightarrow> string \<Rightarrow> string \<Rightarrow> sftp_entry option \<Rightarrow> conflict_policy \<Rightarrow> ('w, unit) action" where
  "commit_remote_transfer env job_id temporary destination existing policy =
     (case existing of
        None \<Rightarrow> andThen (sftp_rename (ae_run env) temporary destination) (\<lambda>_. done_with ())
      | Some entry \<Rightarrow>
          if policy \<noteq> PolicyOverwrite then fails (Process ''transfer destination appeared before final rename'')
          else
            andThen (lift_result (owned_remote_backup destination job_id)) (\<lambda>backup.
            if \<not> is_owned_remote_backup (sl_is_uuid (ae_lib env)) backup
            then fails (State ''generated remote backup path is not app-owned'')
            else
              andThen (sftp_metadata (ae_lib env) (ae_run env) backup) (\<lambda>found.
              if found \<noteq> None
              then fails (State (''a preserved transfer backup already exists at '' @ backup @ ''; recover it before retrying''))
              else swap_in app_error_display id (sftp_rename (ae_run env))
                (\<lambda>p. remote_delete env p (se_kind entry = DirectoryKind)) temporary destination backup)))"

text \<open>The cleanup of the temporary on an error path; \<open>before\<close> begins the message when it fails too.\<close>

definition give_up :: "'w attempt_env \<Rightarrow> string \<Rightarrow> string \<Rightarrow> app_error \<Rightarrow> ('w, 'a) action" where
  "give_up env temporary before error =
     andThen (orElse (remove_remote_temp env temporary) (\<lambda>cleanup_error.
       fails (Process (before @ ''; failed to remove app-owned temporary '' @ temporary @ '': '' @ app_error_display cleanup_error))))
     (\<lambda>_. fails error)"

text \<open>The copy into the temporary, up to the check whether the attempt was cancelled meanwhile.\<close>

definition copy_failed :: "'w attempt_env \<Rightarrow> string \<Rightarrow> app_error \<Rightarrow> ('w, 'a) action" where
  "copy_failed env temporary error =
     (case error of
        ProcessCleanup _ \<Rightarrow> fails (ProcessCleanup (app_error_display error
          @ ''; an app-owned temporary may remain at '' @ temporary))
      | _ \<Rightarrow> give_up env temporary (''transfer ended ('' @ app_error_display error @ '')'') error)"

definition copy_to_temporary :: "'w attempt_env \<Rightarrow> string \<Rightarrow> bool \<Rightarrow> string \<Rightarrow> ('w, unit) action" where
  "copy_to_temporary env local_path is_directory temporary =
     andThen (lift_result (batch_command (if is_directory then ''put -r'' else ''put'') [local_path, temporary])) (\<lambda>script.
     andThen (orElse (andThen (run_batch (ae_run env) script) (\<lambda>_. done_with ())) (copy_failed env temporary)) (\<lambda>_.
     andThen (\<lambda>w. case ae_cancelled env w of (c, w) \<Rightarrow> (Inr c, w)) (\<lambda>cancelled.
     if cancelled then give_up env temporary ''transfer was cancelled after SFTP exit'' Cancelled else done_with ())))"

definition upload_into :: "'w attempt_env \<Rightarrow> string \<Rightarrow> upload_request \<Rightarrow> bool \<Rightarrow> nat \<Rightarrow> string \<Rightarrow> ('w, transfer_outcome) action" where
  "upload_into env job_id request is_directory total_bytes destination =
     andThen (lift_result (owned_remote_temp destination job_id)) (\<lambda>temporary.
     andThen (ae_preflight env) (\<lambda>_.
     andThen (sftp_metadata (ae_lib env) (ae_run env) temporary) (\<lambda>found.
     if found \<noteq> None
     then fails (State (''an app-owned temporary already exists at '' @ temporary @ ''; inspect or remove it before retrying''))
     else
       andThen (copy_to_temporary env (ur_local_path request) is_directory temporary) (\<lambda>_.
       andThen (sftp_metadata (ae_lib env) (ae_run env) destination) (\<lambda>existing.
       andThen (orElse (commit_remote_transfer env job_id temporary destination existing (ur_conflict_policy request))
         (\<lambda>error. give_up env temporary (''transfer commit failed ('' @ app_error_display error @ '')'') error)) (\<lambda>_.
       done_with \<lparr>ou_destination = destination, ou_total_bytes = total_bytes, ou_skipped = False\<rparr>))))))"

definition perform_upload :: "'w attempt_env \<Rightarrow> string \<Rightarrow> upload_request \<Rightarrow> ('w, transfer_outcome) action" where
  "perform_upload env job_id request =
     andThen (ae_local_kind env (ur_local_path request)) (\<lambda>kind.
     if kind = LocalSymlink then fails (Validation ''symbolic-link upload sources are not followed'')
     else if kind = LocalDirectory \<and> \<not> ur_recursive request
     then fails (Validation ''directory upload requires recursive=true'')
     else
       andThen (ae_local_size env (ur_local_path request)) (\<lambda>total_bytes.
       andThen (ae_preflight env) (\<lambda>_.
       andThen (resolve_remote_conflict env (ur_remote_path request) (ur_conflict_policy request) (kind = LocalDirectory))
         (\<lambda>(destination, skip).
       if skip then andThen (ae_preflight env)
         (\<lambda>_. done_with \<lparr>ou_destination = destination, ou_total_bytes = total_bytes, ou_skipped = True\<rparr>)
       else upload_into env job_id request (kind = LocalDirectory) total_bytes destination))))"

section \<open>What the remote side promises\<close>

definition apart_locations :: "string list \<Rightarrow> string list \<Rightarrow> bool" where
  "apart_locations k l \<longleftrightarrow> \<not> suffix k l \<and> \<not> suffix l k"

definition place :: "string \<Rightarrow> string list" where
  "place p = (case resolve p of None \<Rightarrow> [] | Some l \<Rightarrow> l)"

text \<open>
  The documented behaviour of \<^verbatim>\<open>sftp\<close> on the scripts of an attempt: a listing changes nothing; a rename
  that is reported as done was done, any other was done or not; a removal changes nothing apart from
  its path; a copy changes only its target, and a successful one puts something there.
\<close>

definition list_law :: "'w sftp \<Rightarrow> ('w \<Rightarrow> string list \<Rightarrow> 'c option) \<Rightarrow> bool" where
  "list_law run content \<longleftrightarrow>
     (\<forall>p s w r w'. batch_command ''ls -lan'' [p] = Inr s \<longrightarrow> run s w = (r, w') \<longrightarrow> content w' = content w)"

definition rename_law :: "'w sftp \<Rightarrow> ('w \<Rightarrow> string list \<Rightarrow> 'c option) \<Rightarrow> bool" where
  "rename_law run content \<longleftrightarrow>
     (\<forall>a b s w r w'. batch_command ''rename'' [a, b] = Inr s \<longrightarrow> run s w = (r, w') \<longrightarrow> apart_locations (place a) (place b) \<longrightarrow>
        (content w' (place a) = content w (place a) \<and> content w' (place b) = content w (place b)
           \<and> (\<forall>out. r = Inr out \<longrightarrow> \<not> ca_success out)
         \<or> content w' (place a) = None \<and> content w' (place b) = content w (place a) \<and> content w (place a) \<noteq> None)
        \<and> (\<forall>k. apart_locations k (place a) \<longrightarrow> apart_locations k (place b) \<longrightarrow> content w' k = content w k))"

definition remove_law :: "'w sftp \<Rightarrow> ('w \<Rightarrow> string list \<Rightarrow> 'c option) \<Rightarrow> bool" where
  "remove_law run content \<longleftrightarrow>
     (\<forall>d s w r w' k. script_within d s \<longrightarrow> run s w = (r, w') \<longrightarrow> apart_locations k d \<longrightarrow> content w' k = content w k)"

definition put_law :: "'w sftp \<Rightarrow> ('w \<Rightarrow> string list \<Rightarrow> 'c option) \<Rightarrow> bool" where
  "put_law run content \<longleftrightarrow>
     (\<forall>c f p s w r w'. c \<in> {''put'', ''put -r''} \<longrightarrow> batch_command c [f, p] = Inr s \<longrightarrow> run s w = (r, w') \<longrightarrow>
        (\<forall>k. apart_locations k (place p) \<longrightarrow> content w' k = content w k)
        \<and> (\<forall>out. r = Inr out \<longrightarrow> ca_success out \<longrightarrow> content w' (place p) \<noteq> None))"

definition sftp_laws :: "'w sftp \<Rightarrow> ('w \<Rightarrow> string list \<Rightarrow> 'c option) \<Rightarrow> bool" where
  "sftp_laws run content \<longleftrightarrow> list_law run content \<and> rename_law run content \<and> remove_law run content \<and> put_law run content"

lemma list_lawD: "sftp_laws run content \<Longrightarrow> batch_command ''ls -lan'' [p] = Inr s \<Longrightarrow> run s w = (r, w') \<Longrightarrow> content w' = content w"
  unfolding sftp_laws_def list_law_def by blast

lemma rename_lawD:
  assumes "sftp_laws run content" and "batch_command ''rename'' [a, b] = Inr s" and "run s w = (r, w')"
    and "apart_locations (place a) (place b)"
  shows "content w' (place a) = content w (place a) \<and> content w' (place b) = content w (place b)
           \<and> (\<forall>out. r = Inr out \<longrightarrow> \<not> ca_success out)
         \<or> content w' (place a) = None \<and> content w' (place b) = content w (place a) \<and> content w (place a) \<noteq> None"
    and "apart_locations k (place a) \<Longrightarrow> apart_locations k (place b) \<Longrightarrow> content w' k = content w k"
  using assms unfolding sftp_laws_def rename_law_def by blast+

lemma remove_lawD:
  "sftp_laws run content \<Longrightarrow> script_within d s \<Longrightarrow> run s w = (r, w') \<Longrightarrow> apart_locations k d \<Longrightarrow> content w' k = content w k"
  unfolding sftp_laws_def remove_law_def by blast

lemma put_lawD:
  assumes "sftp_laws run content" and "c \<in> {''put'', ''put -r''}" and "batch_command c [f, p] = Inr s" and "run s w = (r, w')"
  shows "apart_locations k (place p) \<Longrightarrow> content w' k = content w k"
    and "r = Inr out \<Longrightarrow> ca_success out \<Longrightarrow> content w' (place p) \<noteq> None"
  using assms unfolding sftp_laws_def put_law_def by blast+

lemma run_batch_cases:
  assumes "run_batch run s w = (r, w')" and "whole_lines s"
  shows "w' = w \<and> \<not> is_ok r \<or> (\<exists>q. run s w = (q, w') \<and> (is_ok r \<longrightarrow> (\<exists>out. q = Inr out \<and> ca_success out)))"
  using assms
  by (auto simp: run_batch_def run_raw_batch_def whole_lines_def invalid_def split: if_splits prod.splits sum.splits)

lemma batch_command_whole: "batch_command c vs = Inr s \<Longrightarrow> whole_lines s"
  by (auto simp: batch_command_def result_simps invalid_def whole_lines_def split: if_splits)

lemma metadata_quiet:
  assumes "sftp_laws run content" and "sftp_metadata lib run p w = (r, w')"
  shows "content w' = content w"
proof -
  have quiet: "run_raw_batch run s w = (q, w2) \<Longrightarrow> batch_command ''ls -lan'' [x] = Inr s \<Longrightarrow> content w2 = content w" for s q w2 x
    using list_lawD[OF assms(1)] batch_command_whole
    by (fastforce simp: run_raw_batch_def whole_lines_def split: if_splits prod.splits sum.splits)
  show ?thesis
    using assms(2)
    by (auto simp: sftp_metadata_def Let_def result_simps split: sum.splits prod.splits if_splits option.splits dest: quiet)
qed

lemma sftp_replacement:
  assumes laws: "sftp_laws (ae_run env) content"
  shows "replacement content place apart_locations (sftp_rename (ae_run env)) (\<lambda>p. remote_delete env p recursive)"
proof
  fix a b w r w'
  assume ab: "apart_locations (place a) (place b)" and run: "sftp_rename (ae_run env) a b w = (r, w')"
  have renamed: "w' = w \<and> \<not> is_ok r \<or> (\<exists>s q. batch_command ''rename'' [a, b] = Inr s \<and> ae_run env s w = (q, w')
      \<and> (is_ok r \<longrightarrow> (\<exists>out. q = Inr out \<and> ca_success out)))"
  proof (cases "rbind (validate_destructive_remote_path a) (\<lambda>_. validate_destructive_remote_path b)")
    case (Inl e)
    with run show ?thesis by (auto simp: sftp_rename_def)
  next
    case (Inr u)
    show ?thesis
    proof (cases "batch_command ''rename'' [a, b]")
      case (Inl e)
      with run Inr show ?thesis by (auto simp: sftp_rename_def run_command_def)
    next
      case s: (Inr s)
      obtain q where q: "run_batch (ae_run env) s w = (q, w')" "is_ok r \<longleftrightarrow> is_ok q"
        using run Inr s by (cases "run_batch (ae_run env) s w") (auto simp: sftp_rename_def run_command_def is_ok_def split: sum.splits)
      from run_batch_cases[OF q(1) batch_command_whole[OF s]] s q(2) show ?thesis by auto
    qed
  qed
  show "content w' (place a) = content w (place a) \<and> content w' (place b) = content w (place b) \<and> \<not> is_ok r
      \<or> content w' (place a) = None \<and> content w' (place b) = content w (place a) \<and> content w (place a) \<noteq> None"
    using renamed rename_lawD(1)[OF laws _ _ ab] by (elim disjE) (simp, blast)
  show "content w' k = content w k" if "apart_locations k (place a)" "apart_locations k (place b)" for k
    using renamed rename_lawD(2)[OF laws _ _ ab that] by (elim disjE) (simp, blast)
next
  fix p w q w' k
  assume del: "remote_delete env p recursive w = (q, w')" and k: "apart_locations k (place p)"
  show "content w' k = content w k"
  proof (cases "sftp_delete (ae_lib env) (ae_run env) p recursive w")
    case None
    with del show ?thesis by (simp add: remote_delete_def)
  next
    case (Some x)
    then have x: "sftp_delete (ae_lib env) (ae_run env) p recursive w = Some (q, w')" using del by (simp add: remote_delete_def)
    show ?thesis
    proof (cases "validate_destructive_remote_path p")
      case (Inl e)
      with x show ?thesis by (simp add: sftp_delete_def)
    next
      case (Inr u)
      then obtain here dir where d: "resolve p = Some (here # dir)" by (auto simp: destructive_path_iff)
      have "batch_invariant (here # dir) (ae_run env) (\<lambda>v. content v k = content w k)"
        using k d remove_lawD[OF laws] by unfold_locales (auto simp: place_def)
      from batch_invariant.delete_keeps[OF this x _ d] show ?thesis by simp
    qed
  qed
next
  show "apart_locations k l \<Longrightarrow> apart_locations l k" for k l by (simp add: apart_locations_def)
qed

section \<open>Frames\<close>

text \<open>\<open>touches L m\<close>: the action changes nothing that is apart from the locations \<open>L\<close>.\<close>

definition touches :: "('w \<Rightarrow> string list \<Rightarrow> 'c option) \<Rightarrow> string list list \<Rightarrow> ('w, 'a) action \<Rightarrow> bool" where
  "touches content L m \<longleftrightarrow> (\<forall>w r w' k. m w = (r, w') \<longrightarrow> (\<forall>l \<in> set L. apart_locations k l) \<longrightarrow> content w' k = content w k)"

named_theorems touching

lemma touchesD: "touches content L m \<Longrightarrow> m w = (r, w') \<Longrightarrow> \<forall>l \<in> set L. apart_locations k l \<Longrightarrow> content w' k = content w k"
  unfolding touches_def by blast

lemma touches_andThen [touching]:
  assumes "touches content L m" and "\<And>x. touches content L (f x)"
  shows "touches content L (andThen m f)"
  unfolding touches_def
proof (intro allI impI)
  fix w r w' k
  assume run: "andThen m f w = (r, w')" and k: "\<forall>l \<in> set L. apart_locations k l"
  obtain q v where v: "m w = (q, v)" by (metis surj_pair)
  have "content v k = content w k" using touchesD[OF assms(1) v k] .
  moreover have "content w' k = content v k" if "q = Inr x" for x
    using run v that touchesD[OF assms(2)[of x] _ k] by (simp add: andThen_def)
  ultimately show "content w' k = content w k" using run v by (cases q) (auto simp: andThen_def)
qed

lemma touches_orElse [touching]:
  assumes "touches content L m" and "\<And>e. touches content L (h e)"
  shows "touches content L (orElse m h)"
  unfolding touches_def
proof (intro allI impI)
  fix w r w' k
  assume run: "orElse m h w = (r, w')" and k: "\<forall>l \<in> set L. apart_locations k l"
  obtain q v where v: "m w = (q, v)" by (metis surj_pair)
  have "content v k = content w k" using touchesD[OF assms(1) v k] .
  moreover have "content w' k = content v k" if "q = Inl e" for e
    using run v that touchesD[OF assms(2)[of e] _ k] by (simp add: orElse_def)
  ultimately show "content w' k = content w k" using run v by (cases q) (auto simp: orElse_def)
qed

lemma touches_pure [touching]:
  "touches content L (done_with x)" "touches content L (fails e)" "touches content L (lift_result r)"
  by (simp_all add: touches_def done_with_def fails_def lift_result_def)

lemma touches_if [touching]:
  "touches content L m \<Longrightarrow> touches content L n \<Longrightarrow> touches content L (if b then m else n)"
  by simp

lemma touches_quiet: "(\<And>w r w'. m w = (r, w') \<Longrightarrow> content w' = content w) \<Longrightarrow> touches content L m"
  unfolding touches_def by metis

context replacement
begin

text \<open>A replacement changes nothing apart from the three locations.\<close>

lemma swap_frame:
  assumes "swap_in shown displayed move remove temporary destination backup w = (r, w')"
    and "apart (loc temporary) (loc destination)" and "apart (loc destination) (loc backup)"
    and k: "apart k (loc temporary)" "apart k (loc destination)" "apart k (loc backup)"
  shows "content w' k = content w k"
proof -
  note db = assms(3) note bd = apart_sym[OF db]
  obtain r1 w1 where 1: "move destination backup w = (r1, w1)" by (metis surj_pair)
  obtain r2 w2 where 2: "move temporary destination w1 = (r2, w2)" by (metis surj_pair)
  obtain r3 w3 where 3: "move backup destination w2 = (r3, w3)" by (metis surj_pair)
  obtain r4 w4 where 4: "remove backup w2 = (r4, w4)" by (metis surj_pair)
  have "content w1 k = content w k" using move_apart[OF db 1 k(2,3)] .
  moreover have "content w2 k = content w1 k" using move_apart[OF assms(2) 2 k(1,2)] .
  moreover have "content w3 k = content w2 k" using move_apart[OF bd 3 k(3,2)] .
  moreover have "content w4 k = content w2 k" using remove_apart[OF 4 k(3)] .
  moreover have "w' \<in> {w1, w3, w4}"
    using assms(1) 1 2 3 4 by (auto simp: swap_in_def andThen_def orElse_def fails_def done_with_def split: sum.splits)
  ultimately show ?thesis by auto
qed

end

section \<open>An attempt\<close>

text \<open>The local side, the clock and the flag change nothing on the remote side.\<close>

definition remote_quiet :: "'w attempt_env \<Rightarrow> ('w \<Rightarrow> string list \<Rightarrow> 'c option) \<Rightarrow> bool" where
  "remote_quiet env content \<longleftrightarrow> (\<forall>w. content (snd (ae_preflight env w)) = content w)
     \<and> (\<forall>w. content (snd (ae_cancelled env w)) = content w)
     \<and> (\<forall>p w. content (snd (ae_local_kind env p w)) = content w) \<and> (\<forall>p w. content (snd (ae_local_size env p w)) = content w)"

lemma remote_quietD:
  assumes "remote_quiet env content"
  shows "ae_preflight env w = (r, w') \<Longrightarrow> content w' = content w" and "ae_cancelled env w = (c, w') \<Longrightarrow> content w' = content w"
    and "ae_local_kind env p w = (q, w') \<Longrightarrow> content w' = content w" and "ae_local_size env p w = (n, w') \<Longrightarrow> content w' = content w"
  using assms unfolding remote_quiet_def by (metis snd_conv)+

lemma apart_refl [simp]: "\<not> apart_locations k k"
  by (simp add: apart_locations_def)

lemma give_up_touches:
  assumes "sftp_laws (ae_run env) content"
  shows "touches content [place temporary] (give_up env temporary before error)"
proof -
  have "touches content [place temporary] (remote_delete env temporary b)" for b
    unfolding touches_def using replacement.remove_apart[OF sftp_replacement[OF assms]] by fastforce
  moreover have "touches content L (sftp_metadata (ae_lib env) (ae_run env) p)" for L p
    by (rule touches_quiet) (rule metadata_quiet[OF assms])
  ultimately show ?thesis
    unfolding give_up_def remove_remote_temp_def by (auto intro!: touching split: option.splits)
qed

lemma give_up_fails: "give_up env temporary before error w = (r, w') \<Longrightarrow> \<not> is_ok r"
  by (auto simp: give_up_def andThen_def fails_def split: prod.splits sum.splits)

lemma copy_failed_fails: "copy_failed env temporary error w = (r, w') \<Longrightarrow> \<not> is_ok r"
  by (cases error) (auto simp: copy_failed_def fails_def dest: give_up_fails)

lemma copy_touches:
  assumes "sftp_laws (ae_run env) content" and "remote_quiet env content"
  shows "touches content [place temporary] (copy_to_temporary env local_path is_directory temporary)"
proof -
  have put: "touches content [place temporary] (run_batch (ae_run env) s)"
    if "batch_command (if is_directory then ''put -r'' else ''put'') [local_path, temporary] = Inr s" for s
    unfolding touches_def
  proof (intro allI impI)
    fix w r w' k
    assume run: "run_batch (ae_run env) s w = (r, w')" and k: "\<forall>l \<in> set [place temporary]. apart_locations k l"
    have "(if is_directory then ''put -r'' else ''put'') \<in> {''put'', ''put -r''}" by simp
    from put_lawD(1)[OF assms(1) this that] run_batch_cases[OF run batch_command_whole[OF that]] k
    show "content w' k = content w k" by auto
  qed
  have flag: "touches content [place temporary] (\<lambda>w. case ae_cancelled env w of (c, w) \<Rightarrow> (Inr c, w))"
    by (rule touches_quiet) (auto split: prod.splits dest: remote_quietD(2)[OF assms(2)])
  have handler: "touches content [place temporary] (copy_failed env temporary error)" for error
    using give_up_touches[OF assms(1)] by (cases error) (auto simp: copy_failed_def intro!: touching)
  show ?thesis
  proof (cases "batch_command (if is_directory then ''put -r'' else ''put'') [local_path, temporary]")
    case (Inl e)
    then show ?thesis by (simp add: copy_to_temporary_def touches_pure)
  next
    case (Inr s)
    have "copy_to_temporary env local_path is_directory temporary =
      andThen (orElse (andThen (run_batch (ae_run env) s) (\<lambda>_. done_with ())) (copy_failed env temporary)) (\<lambda>_.
     andThen (\<lambda>w. case ae_cancelled env w of (c, w) \<Rightarrow> (Inr c, w)) (\<lambda>cancelled.
     if cancelled then give_up env temporary ''transfer was cancelled after SFTP exit'' Cancelled else done_with ()))"
      using Inr by (simp add: copy_to_temporary_def andThen_def lift_result_def fun_eq_iff)
    then show ?thesis
      using put[OF Inr] flag handler give_up_touches[OF assms(1)] by (auto intro!: touching)
  qed
qed

text \<open>When the copy succeeds, what lies at the temporary is what a successful \<^verbatim>\<open>put\<close> left there.\<close>

definition complete_copy :: "'w attempt_env \<Rightarrow> ('w \<Rightarrow> string list \<Rightarrow> 'c option) \<Rightarrow> string \<Rightarrow> string \<Rightarrow> 'c \<Rightarrow> bool" where
  "complete_copy env content local_path temporary x \<longleftrightarrow> (\<exists>c script u out u'. c \<in> {''put'', ''put -r''}
     \<and> batch_command c [local_path, temporary] = Inr script \<and> ae_run env script u = (Inr out, u') \<and> ca_success out
     \<and> content u' (place temporary) = Some x)"

lemma copy_complete:
  assumes "sftp_laws (ae_run env) content" and "remote_quiet env content"
    and "copy_to_temporary env local_path is_directory temporary w = (Inr u, w')"
  shows "\<exists>x. complete_copy env content local_path temporary x \<and> content w' (place temporary) = Some x"
proof -
  let ?c = "if is_directory then ''put -r'' else ''put''"
  obtain s where s: "batch_command ?c [local_path, temporary] = Inr s"
    using assms(3) by (cases "batch_command ?c [local_path, temporary]") (auto simp: copy_to_temporary_def fails_def)
  obtain r1 w1 where r1: "run_batch (ae_run env) s w = (r1, w1)" by (metis surj_pair)
  obtain c w2 where c: "ae_cancelled env w1 = (c, w2)" by (metis surj_pair)
  have "\<exists>out. r1 = Inr out \<and> w' = w2"
  proof (cases r1)
    case (Inl e)
    obtain q :: "unit app_result" and v where "copy_failed env temporary e w1 = (q, v)" by (metis surj_pair)
    with copy_failed_fails[OF this] assms(3) s r1 Inl show ?thesis
      by (cases q) (auto simp: copy_to_temporary_def andThen_def orElse_def lift_result_def)
  next
    case (Inr out)
    have "\<not> c"
    proof
      assume c
      then have "give_up env temporary ''transfer was cancelled after SFTP exit'' Cancelled w2 = (Inr (), w')"
        using assms(3) s r1 Inr c by (simp add: copy_to_temporary_def andThen_def orElse_def lift_result_def done_with_def split: prod.splits sum.splits)
      from give_up_fails[OF this] show False by simp
    qed
    with assms(3) s r1 Inr c show ?thesis
      by (auto simp: copy_to_temporary_def andThen_def orElse_def lift_result_def done_with_def split: prod.splits sum.splits)
  qed
  then obtain out where out: "r1 = Inr out" "w' = w2" by blast
  then obtain q o' where q: "ae_run env s w = (Inr o', w1)" "ca_success o'"
    using run_batch_cases[OF r1 batch_command_whole[OF s]] by auto
  have "?c \<in> {''put'', ''put -r''}" by simp
  from put_lawD(2)[OF assms(1) this s q(1) refl q(2)]
  obtain x where x: "content w1 (place temporary) = Some x" by blast
  have "complete_copy env content local_path temporary x"
    unfolding complete_copy_def using \<open>?c \<in> _\<close> s q x by blast
  moreover have "content w' = content w1" using remote_quietD(2)[OF assms(2) c] out(2) by simp
  ultimately show ?thesis using x by auto
qed

text \<open>The choice of the destination changes nothing.\<close>

lemma touches_nothing: "touches content [] m \<Longrightarrow> m w = (r, w') \<Longrightarrow> content w' = content w"
  using touchesD[of content "[]" m w r w'] by (simp add: fun_eq_iff)

lemma preflight_touches: "remote_quiet env content \<Longrightarrow> touches content L (ae_preflight env)"
  by (rule touches_quiet) (rule remote_quietD(1))

lemma metadata_touches: "sftp_laws (ae_run env) content \<Longrightarrow> touches content L (sftp_metadata (ae_lib env) (ae_run env) p)"
  by (rule touches_quiet) (rule metadata_quiet)

lemma names_touch:
  assumes "sftp_laws (ae_run env) content" and "remote_quiet env content"
  shows "touches content [] (try_conflict_names env requested is_directory counters)"
  by (induction counters)
    (auto intro!: touching preflight_touches[OF assms(2)] metadata_touches[OF assms(1)])

lemma resolve_touches:
  assumes "sftp_laws (ae_run env) content" and "remote_quiet env content"
  shows "touches content [] (resolve_remote_conflict env requested policy is_directory)"
  unfolding resolve_remote_conflict_def
  by (cases policy) (auto intro!: touching preflight_touches[OF assms(2)] metadata_touches[OF assms(1)] names_touch[OF assms])

lemma names_chosen:
  "try_conflict_names env requested is_directory counters w = (Inr candidate, w') \<Longrightarrow>
     \<exists>counter. conflict_remote_path requested counter is_directory = Inr candidate"
  by (induction counters arbitrary: w)
    (auto simp: andThen_def lift_result_def fails_def done_with_def split: prod.splits sum.splits if_splits)

text \<open>\<open>sees env content p\<close>: when \<^verbatim>\<open>metadata\<close> answers that nothing lies at \<open>p\<close>, nothing does.\<close>

definition sees :: "'w attempt_env \<Rightarrow> ('w \<Rightarrow> string list \<Rightarrow> 'c option) \<Rightarrow> string \<Rightarrow> bool" where
  "sees env content p \<longleftrightarrow>
     (\<forall>w w'. sftp_metadata (ae_lib env) (ae_run env) p w = (Inr None, w') \<longrightarrow> content w (place p) = None)"

lemma resolve_chosen:
  assumes "remote_quiet env content" and "sees env content requested" and "content w (place requested) \<noteq> None"
    and "resolve_remote_conflict env requested policy is_directory w = (Inr (destination, skip), w')"
  shows "destination = requested \<and> (skip \<or> policy = PolicyOverwrite)
    \<or> \<not> skip \<and> (\<exists>counter. conflict_remote_path requested counter is_directory = Inr destination)"
proof -
  obtain q w1 where 1: "ae_preflight env w = (q, w1)" by (metis surj_pair)
  obtain found w2 where 2: "sftp_metadata (ae_lib env) (ae_run env) requested w1 = (found, w2)" by (metis surj_pair)
  have "content w1 (place requested) \<noteq> None" using remote_quietD(1)[OF assms(1) 1] assms(3) by simp
  then have "found \<noteq> Inr None" using 2 assms(2) by (auto simp: sees_def)
  then show ?thesis
    using assms(4) 1 2
    by (cases policy) (auto simp: resolve_remote_conflict_def andThen_def fails_def done_with_def conflict_requires_choice_def
      split: sum.splits prod.splits if_splits dest: names_chosen)
qed

section \<open>Locations of an attempt\<close>

text \<open>A destination whose last component is the name \<open>name\<close> in the directory \<open>dir\<close>.\<close>

definition named_path :: "string \<Rightarrow> string \<Rightarrow> string list \<Rightarrow> bool" where
  "named_path path name dir \<longleftrightarrow> resolve path = Some (name # dir) \<and> remote_parent path \<noteq> None
     \<and> remote_file_name path = Some name \<and> plain_name name"

lemma named_place: "named_path path name dir \<Longrightarrow> place path = name # dir"
  by (simp add: named_path_def place_def)

lemma apart_names [simp]: "apart_locations (a # dir) (b # dir) \<longleftrightarrow> a \<noteq> b"
  by (auto simp: apart_locations_def suffix_def append_eq_Cons_conv)

lemma named_sibling:
  assumes "named_path path name dir" and "plain_name (rename name)"
  shows "\<exists>p. sibling path rename = Inr p \<and> named_path p (rename name) dir"
proof -
  obtain q where q: "sibling path rename = Inr (q @ CHR ''/'' # rename name)"
      "resolve (q @ CHR ''/'' # rename name) = Some (rename name # dir)"
    using assms sibling_resolves[of path name dir name rename] by (auto simp: named_path_def)
  have name: "CHR ''/'' \<notin> set (rename name)" "rename name \<noteq> []" using assms(2) by (auto simp: plain_name_def)
  have "trim_slashes (q @ CHR ''/'' # rename name) = q @ CHR ''/'' # rename name"
    using name by (cases "rename name" rule: rev_cases) (auto simp: trim_slashes_def)
  then have "remote_parent (q @ CHR ''/'' # rename name) \<noteq> None"
    by (auto simp: remote_parent_def rfind_slash_def Let_def split: option.splits if_splits)
  with q name assms(2) show ?thesis by (auto simp: named_path_def remote_file_name_below)
qed

lemma conflict_name_plain:
  assumes "plain_name name"
  shows "plain_name (conflict_name name counter is_directory)" and "conflict_name name counter is_directory \<noteq> name"
proof -
  have digits: "CHR ''/'' \<notin> set (dec counter)" 
    using dec_digits[of counter] by (force simp: list_all_iff is_ascii_digit_def byte_def)
  have "length name < length (conflict_name name counter is_directory)"
    by (auto simp: conflict_name_def Let_def)
  moreover have "set (conflict_name name counter is_directory) \<subseteq> set name \<union> set (dec counter) \<union> {CHR '' '', CHR ''('', CHR '')''}"
    by (auto simp: conflict_name_def Let_def dest: in_set_takeD in_set_dropD)
  moreover have "CHR ''('' \<in> set (conflict_name name counter is_directory)"
    by (auto simp: conflict_name_def Let_def)
  ultimately show "plain_name (conflict_name name counter is_directory)" "conflict_name name counter is_directory \<noteq> name"
    using assms digits by (auto simp: plain_name_def)
qed

lemma owned_places:
  assumes "named_path destination name dir" and "CHR ''/'' \<notin> set job_id"
  shows "\<exists>temporary backup t b. owned_remote_temp destination job_id = Inr temporary \<and> owned_remote_backup destination job_id = Inr backup
    \<and> place temporary = t # dir \<and> place backup = b # dir \<and> length name < length t \<and> length name < length b \<and> t \<noteq> b"
proof -
  let ?t = "\<lambda>name. ''.'' @ name @ ''.remotedeck-'' @ job_id @ ''.part''"
  let ?b = "\<lambda>name. ''.'' @ name @ ''.remotedeck-'' @ job_id @ ''.backup''"
  have "plain_name (?t name)" "plain_name (?b name)" using assms by (auto simp: plain_name_def named_path_def)
  then obtain p q where "owned_remote_temp destination job_id = Inr p" "named_path p (?t name) dir"
      "owned_remote_backup destination job_id = Inr q" "named_path q (?b name) dir"
    using named_sibling[OF assms(1), of ?t] named_sibling[OF assms(1), of ?b]
    by (auto simp: owned_remote_temp_def owned_remote_backup_def)
  moreover have "length (?t name) \<noteq> length (?b name)" by simp
  then have "?t name \<noteq> ?b name" by metis
  ultimately show ?thesis by (intro exI[of _ p] exI[of _ q] exI[of _ "?t name"] exI[of _ "?b name"]) (auto dest: named_place)
qed

section \<open>The commit\<close>

lemma commit_touches:
  assumes laws: "sftp_laws (ae_run env) content" and backup: "owned_remote_backup destination job_id = Inr backup"
    and td: "apart_locations (place temporary) (place destination)" and db: "apart_locations (place destination) (place backup)"
  shows "touches content [place temporary, place destination, place backup]
    (commit_remote_transfer env job_id temporary destination existing policy)"
proof -
  have swap: "touches content [place temporary, place destination, place backup]
      (swap_in app_error_display id (sftp_rename (ae_run env)) (\<lambda>p. remote_delete env p b) temporary destination backup)" for b
    unfolding touches_def using replacement.swap_frame[OF sftp_replacement[OF laws] _ td db] by fastforce
  have rename: "touches content [place temporary, place destination, place backup] (sftp_rename (ae_run env) temporary destination)"
    unfolding touches_def using replacement.move_apart[OF sftp_replacement[OF laws] td] by fastforce
  show ?thesis
  proof (cases existing)
    case None
    then show ?thesis using rename by (auto simp: commit_remote_transfer_def intro!: touching)
  next
    case (Some entry)
    have "commit_remote_transfer env job_id temporary destination existing policy =
      (if policy \<noteq> PolicyOverwrite then fails (Process ''transfer destination appeared before final rename'')
       else if \<not> is_owned_remote_backup (sl_is_uuid (ae_lib env)) backup
            then fails (State ''generated remote backup path is not app-owned'')
       else andThen (sftp_metadata (ae_lib env) (ae_run env) backup) (\<lambda>found.
              if found \<noteq> None
              then fails (State (''a preserved transfer backup already exists at '' @ backup @ ''; recover it before retrying''))
              else swap_in app_error_display id (sftp_rename (ae_run env))
                (\<lambda>p. remote_delete env p (se_kind entry = DirectoryKind)) temporary destination backup))"
      using Some backup by (simp add: commit_remote_transfer_def)
    then show ?thesis using swap metadata_touches[OF laws] by (auto intro!: touching)
  qed
qed

lemma commit_safe:
  assumes laws: "sftp_laws (ae_run env) content" and backup: "owned_remote_backup destination job_id = Inr backup"
    and td: "apart_locations (place temporary) (place destination)" and db: "apart_locations (place destination) (place backup)"
    and tb: "apart_locations (place temporary) (place backup)"
    and run: "commit_remote_transfer env job_id temporary destination (Some entry) policy w = (r, w')"
    and old: "content w (place destination) = Some old" and new: "content w (place temporary) = Some new"
  shows "content w' (place destination) = Some old
    \<or> policy = PolicyOverwrite \<and> (content w' (place destination) = Some new \<or> content w' (place backup) = Some old)"
proof (cases "policy = PolicyOverwrite \<and> is_owned_remote_backup (sl_is_uuid (ae_lib env)) backup")
  case False
  then have "w' = w" using run backup by (auto simp: commit_remote_transfer_def andThen_def lift_result_def fails_def split: if_splits)
  then show ?thesis using old by simp
next
  case True
  obtain found v where v: "sftp_metadata (ae_lib env) (ae_run env) backup w = (found, v)" by (metis surj_pair)
  have same: "content v = content w" using metadata_quiet[OF laws v] .
  show ?thesis
  proof (cases "found = Inr None")
    case False
    then have "w' = v" using run backup True v
      by (auto simp: commit_remote_transfer_def andThen_def lift_result_def fails_def split: sum.splits)
    then show ?thesis using old same by simp
  next
    case found: True
    have "swap_in app_error_display id (sftp_rename (ae_run env)) (\<lambda>p. remote_delete env p (se_kind entry = DirectoryKind))
        temporary destination backup v = (r, w')"
      using run backup True v found by (simp add: commit_remote_transfer_def andThen_def lift_result_def)
    from replacement.swap_safe[OF sftp_replacement[OF laws] this _ _ td tb db, of old new] same old new True
    show ?thesis by auto
  qed
qed

section \<open>An upload\<close>

lemma upload_into_touches:
  assumes laws: "sftp_laws (ae_run env) content" and quiet: "remote_quiet env content"
    and temporary: "owned_remote_temp destination job_id = Inr temporary" and backup: "owned_remote_backup destination job_id = Inr backup"
    and td: "apart_locations (place temporary) (place destination)" and db: "apart_locations (place destination) (place backup)"
  shows "touches content [place temporary, place destination, place backup] (upload_into env job_id request is_directory n destination)"
proof -
  let ?L = "[place temporary, place destination, place backup]"
  have up: "touches content ?L m" if "touches content [place temporary] m" for m :: "('a, unit) action"
    using that unfolding touches_def by fastforce
  note commit = commit_touches[OF laws backup td db]
  show ?thesis
    unfolding upload_into_def temporary andThen_lift
    by (auto intro!: touching preflight_touches[OF quiet] metadata_touches[OF laws] commit
      up[OF copy_touches[OF laws quiet]] up[OF give_up_touches[OF laws]])
qed

lemma upload_into_safe:
  assumes laws: "sftp_laws (ae_run env) content" and quiet: "remote_quiet env content" and seen: "sees env content destination"
    and temporary: "owned_remote_temp destination job_id = Inr temporary" and backup: "owned_remote_backup destination job_id = Inr backup"
    and td: "apart_locations (place temporary) (place destination)" and db: "apart_locations (place destination) (place backup)"
    and tb: "apart_locations (place temporary) (place backup)"
    and run: "upload_into env job_id request is_directory n destination w = (r, w')"
    and old: "content w (place destination) = Some old"
  shows "content w' (place destination) = Some old \<or> ur_conflict_policy request = PolicyOverwrite
    \<and> (content w' (place backup) = Some old
       \<or> (\<exists>x. complete_copy env content (ur_local_path request) temporary x \<and> content w' (place destination) = Some x))"
proof -
  note metadata = metadata_quiet[OF laws]
  obtain r1 w1 where 1: "ae_preflight env w = (r1, w1)" by (metis surj_pair)
  obtain r2 w2 where 2: "sftp_metadata (ae_lib env) (ae_run env) temporary w1 = (r2, w2)" by (metis surj_pair)
  obtain r3 w3 where 3: "copy_to_temporary env (ur_local_path request) is_directory temporary w2 = (r3, w3)" by (metis surj_pair)
  obtain r4 w4 where 4: "sftp_metadata (ae_lib env) (ae_run env) destination w3 = (r4, w4)" by (metis surj_pair)
  have s2: "content w2 = content w" "content w1 = content w"
    using remote_quietD(1)[OF quiet 1] metadata[OF 2] by simp_all
  have "apart_locations (place destination) (place temporary)" using td by (simp add: apart_locations_def)
  then have d3: "content w3 (place destination) = Some old"
    using touchesD[OF copy_touches[OF laws quiet] 3] old s2 by simp
  have d4: "content w4 (place destination) = Some old" using metadata[OF 4] d3 by simp
  have unfold: "upload_into env job_id request is_directory n destination w =
    (case r1 of Inl e \<Rightarrow> (Inl e, w1) | Inr _ \<Rightarrow> (case r2 of Inl e \<Rightarrow> (Inl e, w2) | Inr found \<Rightarrow>
       if found \<noteq> None then (Inl (State (''an app-owned temporary already exists at '' @ temporary @ ''; inspect or remove it before retrying'')), w2)
       else case r3 of Inl e \<Rightarrow> (Inl e, w3) | Inr _ \<Rightarrow> (case r4 of Inl e \<Rightarrow> (Inl e, w4) | Inr existing \<Rightarrow>
         andThen (orElse (commit_remote_transfer env job_id temporary destination existing (ur_conflict_policy request))
           (\<lambda>error. give_up env temporary (''transfer commit failed ('' @ app_error_display error @ '')'') error)) (\<lambda>_.
         done_with \<lparr>ou_destination = destination, ou_total_bytes = n, ou_skipped = False\<rparr>) w4)))"
    using 1 2 3 4 by (auto simp: upload_into_def temporary andThen_def fails_def split: sum.splits)
  show ?thesis
  proof (cases "r1 = Inr () \<and> r2 = Inr None \<and> r3 = Inr () \<and> (\<exists>entry. r4 = Inr (Some entry))")
    case False
    moreover have "r4 \<noteq> Inr None" using 4 seen d3 metadata[OF 4] d4 by (auto simp: sees_def)
    ultimately have "w' \<in> {w1, w2, w3, w4}"
      using run unfolding unfold by (auto split: sum.splits if_splits option.splits)
    then show ?thesis using old s2 d3 d4 by auto
  next
    case True
    then obtain entry where t: "r1 = Inr ()" "r2 = Inr None" "r3 = Inr ()" "r4 = Inr (Some entry)" by blast
    obtain x where x: "complete_copy env content (ur_local_path request) temporary x" "content w3 (place temporary) = Some x"
      using copy_complete[OF laws quiet, of "ur_local_path request" is_directory temporary w2 "()" w3] 3 t(3) by blast
    obtain r5 w5 where 5: "commit_remote_transfer env job_id temporary destination (Some entry) (ur_conflict_policy request) w4 = (r5, w5)"
      by (metis surj_pair)
    have safe: "content w5 (place destination) = Some old \<or> ur_conflict_policy request = PolicyOverwrite
        \<and> (content w5 (place destination) = Some x \<or> content w5 (place backup) = Some old)"
      using commit_safe[OF laws backup td db tb 5 d4, of x] metadata[OF 4] x(2) by simp
    have "content w' (place destination) = content w5 (place destination) \<and> content w' (place backup) = content w5 (place backup)"
    proof (cases r5)
      case (Inr y)
      then show ?thesis using run 5 t unfolding unfold by (simp add: andThen_def orElse_def done_with_def)
    next
      case (Inl e)
      obtain q :: "unit app_result" and v
        where v: "give_up env temporary (''transfer commit failed ('' @ app_error_display e @ '')'') e w5 = (q, v)" by (metis surj_pair)
      have "w' = v" using run 5 t Inl v give_up_fails[OF v] unfolding unfold
        by (auto simp: andThen_def orElse_def done_with_def split: sum.splits)
      moreover have "apart_locations (place backup) (place temporary)" using tb by (simp add: apart_locations_def)
      ultimately show ?thesis
        using touchesD[OF give_up_touches[OF laws] v] \<open>apart_locations (place destination) (place temporary)\<close> by simp
    qed
    then show ?thesis using safe x(1) by auto
  qed
qed

lemma rename_elsewhere:
  assumes laws: "sftp_laws (ae_run env) content" and quiet: "remote_quiet env content"
    and path: "named_path requested name dir" and job: "CHR ''/'' \<notin> set job_id"
    and candidate: "conflict_remote_path requested counter b = Inr destination"
    and run: "upload_into env job_id request b n destination w = (r, w')"
  shows "content w' (place requested) = content w (place requested)"
proof -
  let ?c = "conflict_name name counter b"
  have c: "plain_name ?c" "?c \<noteq> name" "length name < length ?c"
    using path conflict_name_plain[of name counter b] by (auto simp: named_path_def) (auto simp: conflict_name_def Let_def)
  have "named_path destination ?c dir"
    using named_sibling[OF path, of "\<lambda>name. conflict_name name counter b"] c candidate by (auto simp: conflict_remote_path_def)
  then obtain temporary backup t bn where o: "owned_remote_temp destination job_id = Inr temporary"
      "owned_remote_backup destination job_id = Inr backup" "place temporary = t # dir" "place backup = bn # dir"
      "length ?c < length t" "length ?c < length bn" "place destination = ?c # dir"
    using owned_places[OF _ job, of destination ?c dir] by (auto dest: named_place)
  have n: "t \<noteq> ?c" "bn \<noteq> ?c" "name \<noteq> t" "name \<noteq> bn" using o(5,6) c(3) by auto
  have "touches content [place temporary, place destination, place backup] (upload_into env job_id request b n destination)"
    using n o by (intro upload_into_touches[OF laws quiet o(1,2)]) auto
  from touchesD[OF this run, of "place requested"] show ?thesis
    using n o c(2) named_place[OF path] by auto
qed

lemma destination_survives:
  assumes laws: "sftp_laws (ae_run env) content" and quiet: "remote_quiet env content"
    and path: "named_path (ur_remote_path request) name dir" and job: "CHR ''/'' \<notin> set job_id"
    and seen: "sees env content (ur_remote_path request)"
    and old: "content w (name # dir) = Some old" and run: "perform_upload env job_id request w = (r, w')"
  shows "content w' (name # dir) = Some old \<or> ur_conflict_policy request = PolicyOverwrite
    \<and> (\<exists>temporary backup. owned_remote_temp (ur_remote_path request) job_id = Inr temporary
       \<and> owned_remote_backup (ur_remote_path request) job_id = Inr backup
       \<and> (content w' (place backup) = Some old
          \<or> (\<exists>x. complete_copy env content (ur_local_path request) temporary x \<and> content w' (name # dir) = Some x)))"
proof -
  note place = named_place[OF path]
  obtain r1 w1 where 1: "ae_local_kind env (ur_local_path request) w = (r1, w1)" by (metis surj_pair)
  obtain r2 w2 where 2: "ae_local_size env (ur_local_path request) w1 = (r2, w2)" by (metis surj_pair)
  obtain r3 w3 where 3: "ae_preflight env w2 = (r3, w3)" by (metis surj_pair)
  let ?b = "r1 = Inr LocalDirectory"
  obtain r4 w4 where 4: "resolve_remote_conflict env (ur_remote_path request) (ur_conflict_policy request) ?b w3 = (r4, w4)"
    by (metis surj_pair)
  obtain r5 w5 where 5: "ae_preflight env w4 = (r5, w5)" by (metis surj_pair)
  have same: "content w1 = content w" "content w2 = content w" "content w3 = content w" "content w4 = content w" "content w5 = content w"
    using remote_quietD(3)[OF quiet 1] remote_quietD(4)[OF quiet 2] remote_quietD(1)[OF quiet 3]
      touches_nothing[OF resolve_touches[OF laws quiet] 4] remote_quietD(1)[OF quiet 5] by simp_all
  have cases: "w' \<in> {w1, w2, w3, w4, w5} \<or> (\<exists>destination n. r4 = Inr (destination, False)
      \<and> upload_into env job_id request ?b n destination w4 = (r, w'))"
    using run 1 2 3 4 5
    by (auto simp: perform_upload_def andThen_def fails_def done_with_def split: sum.splits if_splits prod.splits)
  show ?thesis
  proof (cases "content w' = content w")
    case True
    then show ?thesis using old by simp
  next
    case False
    then obtain destination n where d: "r4 = Inr (destination, False)" "upload_into env job_id request ?b n destination w4 = (r, w')"
      using cases same by auto
    from resolve_chosen[OF quiet seen _ 4[unfolded d(1)]]
    have chosen: "destination = ur_remote_path request \<and> ur_conflict_policy request = PolicyOverwrite
      \<or> (\<exists>counter. conflict_remote_path (ur_remote_path request) counter ?b = Inr destination)"
      using old same place by auto
    show ?thesis
    proof (cases "destination = ur_remote_path request")
      case True
      obtain temporary backup t b where o: "owned_remote_temp destination job_id = Inr temporary"
          "owned_remote_backup destination job_id = Inr backup" "place temporary = t # dir" "place backup = b # dir"
          "length name < length t" "length name < length b" "t \<noteq> b"
        using owned_places[OF path job] True by blast
      have n: "t \<noteq> name" "name \<noteq> b" using o(5,6) by auto
      have "sees env content destination" using seen True by simp
      from upload_into_safe[OF laws quiet this o(1,2) _ _ _ d(2)] old same place o n True
      show ?thesis by auto
    next
      case False
      with chosen obtain counter where "conflict_remote_path (ur_remote_path request) counter ?b = Inr destination" by blast
      from rename_elsewhere[OF laws quiet path job this d(2)] show ?thesis using old same place by simp
    qed
  qed
qed

end
