(* ===== verification/SftpUpload.thy ===== *)
theory SftpUpload
  imports SftpTransfer
begin

text \<open>
  \<^verbatim>\<open>crates/remotedeck-core/src/sftp.rs\<close>: an upload never loses what lies at its destination, and a small
  server that keeps the laws of \<^verbatim>\<open>sftp\<close>'s commands, on which uploads can be run.
\<close>

section \<open>A server\<close>

text \<open>A small server with the files by location, and the replies that the next renames get.\<close>

type_synonym sample_server = "(string list \<Rightarrow> string option) \<times> bool list"

fun letter :: "batch_char \<Rightarrow> char" where
  "letter (Plain c) = c"
| "letter (Wild c) = c"

definition line_words :: "string \<Rightarrow> string list" where
  "line_words line = (case batch_words line of None \<Rightarrow> [] | Some ws \<Rightarrow> map (map letter) ws)"

fun sample_command :: "string list \<Rightarrow> sample_server \<Rightarrow> bool \<times> sample_server" where
  "sample_command ws (files, replies) =
     (if ws = [] then (False, (files, replies))
      else if hd ws = ''rename'' then
        (let a = place (ws ! 1); b = place (ws ! 2); works = (replies = [] \<or> hd replies) \<and> apart_locations a b \<and> files a \<noteq> None
         in (works, (if works then files(a := None, b := files a) else files, tl replies)))
      else if hd ws \<in> {''rm'', ''rmdir''} then (True, (files(place (ws ! 1) := None), replies))
      else if hd ws = ''put'' then (True, (files(place (last ws) := Some ''new''), replies))
      else (hd ws = ''ls'', (files, replies)))"

fun sample_commands :: "string list list \<Rightarrow> sample_server \<Rightarrow> bool \<times> sample_server" where
  "sample_commands [] s = (True, s)"
| "sample_commands (ws # wss) s = (case sample_command ws s of (ok, s) \<Rightarrow> if ok then sample_commands wss s else (False, s))"

definition sample_run :: "sample_server sftp" where
  "sample_run script s = (case sample_commands (map line_words (script_lines script)) s of
     (ok, s) \<Rightarrow> (Inr \<lparr>ca_success = ok, ca_status = ''exit'',
       ca_stdout = (if fst s [''f''] = None then [] else ''-rw-r--r-- 1 0 0 3 Jan 1 2020 f'' @ [CHR 0x0A]),
       ca_stderr = [], ca_truncated = False\<rparr>, s))"

definition sample_env :: "sample_server attempt_env" where
  "sample_env = \<lparr>ae_lib = sample_library, ae_run = sample_run, ae_preflight = done_with (), ae_cancelled = Pair False,
     ae_local_kind = (\<lambda>_. done_with LocalFile), ae_local_size = (\<lambda>_. done_with 3)\<rparr>"

lemma line_words_plain: "batch_words line = Some (map (map Plain) ws) \<Longrightarrow> line_words line = ws"
  by (simp add: line_words_def comp_def)

lemma sample_run_line:
  assumes "command \<in> set BATCH_COMMANDS" and "batch_command command ps = Inr script" and "sample_run script s = (r, s')"
  shows "\<exists>ok out. sample_command (command_words command @ ps) s = (ok, s') \<and> r = Inr out \<and> ca_success out = ok"
proof -
  have args: "list_all argument_ok ps" "script = command @ concat (map (\<lambda>v. CHR '' '' # quoted v) ps) @ [CHR 0x0A]"
    using assms(2) by (auto simp: batch_command_iff[OF assms(1)])
  have "batch_script [(command, ps)] = Inr script" using assms(2) by (simp add: result_simps)
  with batch_lines_read_back[of "[(command, ps)]"] assms(1) args
  have "map batch_words (script_lines script) = [Some (map (map Plain) (command_words command @ ps))]"
    by auto
  then obtain line where "script_lines script = [line]" "line_words line = command_words command @ ps"
    using line_words_plain by auto
  moreover obtain ok u where u: "sample_command (command_words command @ ps) s = (ok, u)" by (metis surj_pair)
  ultimately have "sample_commands (map line_words (script_lines script)) s = (ok, u)"
    by (simp del: sample_command.simps)
  then have "s' = u" "\<exists>out. r = Inr out \<and> ca_success out = ok" using assms(3) by (auto simp: sample_run_def)
  with u show ?thesis by blast
qed

lemma sample_words:
  assumes "command \<in> set BATCH_COMMANDS" and "batch_command command ps = Inr script" and "ae_run sample_env script s = (r, s')"
    and "command_words command = cs"
  shows "\<exists>ok out. sample_command (cs @ ps) s = (ok, s') \<and> r = Inr out \<and> ca_success out = ok"
  using sample_run_line[OF assms(1,2), of s r s'] assms(3,4) by (simp add: sample_env_def)

lemma commands_split:
  "command_words ''ls -lan'' = [''ls'', ''-lan'']" "command_words ''rename'' = [''rename'']"
  "command_words ''put'' = [''put'']" "command_words ''put -r'' = [''put'', ''-r'']"
  "list_all (\<lambda>c. c \<in> set BATCH_COMMANDS) [''ls -lan'', ''rename'', ''put'', ''put -r'']"
  by code_simp+

lemma sample_deletes:
  assumes "deletes_within d line" and "apart_locations k d" and u: "sample_command (line_words line) s = (b, u)"
  shows "fst u k = fst s k"
  using assms(1) unfolding deletes_within_def
proof (elim disjE exE conjE)
  fix p assume "batch_words line = Some (map (map Plain) [''ls'', ''-lan'', p])"
  from u[unfolded line_words_plain[OF this]] show ?thesis by (cases s) simp
next
  fix c q assume q: "c \<in> {''rm'', ''rmdir''}" "batch_words line = Some (map (map Plain) [c, q])" "SftpDelete.within d q"
  then obtain ns where "place q = ns @ d" by (auto simp: SftpDelete.within_def place_def)
  then have "k \<noteq> place q" using assms(2) by (auto simp: apart_locations_def suffix_def)
  with u[unfolded line_words_plain[OF q(2)]] q(1) show ?thesis by (cases s) auto
qed

lemma sample_removal:
  assumes "list_all (deletes_within d) lines" and "sample_commands (map line_words lines) s = (ok, t)" and "apart_locations k d"
  shows "fst t k = fst s k"
  using assms(1,2)
proof (induction lines arbitrary: s)
  case (Cons line lines)
  obtain b u where u: "sample_command (line_words line) s = (b, u)" by (metis surj_pair)
  have "fst u k = fst s k" using sample_deletes[OF _ assms(3) u] Cons.prems(1) by simp
  moreover have "fst t k = fst u k"
    using Cons.IH[of u] Cons.prems u by (auto split: if_splits)
  ultimately show ?case by simp
qed simp

lemma sample_laws: "sftp_laws (ae_run sample_env) fst"
proof -
  have commands: "''ls -lan'' \<in> set BATCH_COMMANDS" "''rename'' \<in> set BATCH_COMMANDS"
      "''put'' \<in> set BATCH_COMMANDS" "''put -r'' \<in> set BATCH_COMMANDS"
    using commands_split(5) by simp_all
  have "list_law (ae_run sample_env) fst"
    unfolding list_law_def
  proof (intro allI impI)
    fix p script and w w' :: sample_server and r
    assume "batch_command ''ls -lan'' [p] = Inr script" "ae_run sample_env script w = (r, w')"
    from sample_words[OF commands(1) this commands_split(1)] show "fst w' = fst w" by (cases w) auto
  qed
  moreover have "rename_law (ae_run sample_env) fst"
    unfolding rename_law_def
  proof (intro allI impI)
    fix a b script and w w' :: sample_server and r
    assume "batch_command ''rename'' [a, b] = Inr script" "ae_run sample_env script w = (r, w')"
      "apart_locations (place a) (place b)"
    moreover from this(3) have "place a \<noteq> place b" by auto
    ultimately show "(fst w' (place a) = fst w (place a) \<and> fst w' (place b) = fst w (place b)
          \<and> (\<forall>out. r = Inr out \<longrightarrow> \<not> ca_success out)
        \<or> fst w' (place a) = None \<and> fst w' (place b) = fst w (place a) \<and> fst w (place a) \<noteq> None)
      \<and> (\<forall>k. apart_locations k (place a) \<longrightarrow> apart_locations k (place b) \<longrightarrow> fst w' k = fst w k)"
      using sample_words[OF commands(2) _ _ commands_split(2), of "[a, b]" script w r w']
      by (cases w) (auto simp: Let_def split: if_splits)
  qed
  moreover have "put_law (ae_run sample_env) fst"
    unfolding put_law_def
  proof (intro allI impI)
    fix c f p script and w w' :: sample_server and r
    assume "c \<in> {''put'', ''put -r''}" "batch_command c [f, p] = Inr script" "ae_run sample_env script w = (r, w')"
    then obtain cs ok out where "hd cs = ''put''" "cs \<noteq> []" "sample_command (cs @ [f, p]) w = (ok, w')" "r = Inr out"
      using sample_words[OF commands(3) _ _ commands_split(3)] sample_words[OF commands(4) _ _ commands_split(4)]
      by (metis hd_conv_nth insertE list.distinct(1) list.sel(1) singletonD)
    then show "(\<forall>k. apart_locations k (place p) \<longrightarrow> fst w' k = fst w k)
        \<and> (\<forall>out. r = Inr out \<longrightarrow> ca_success out \<longrightarrow> fst w' (place p) \<noteq> None)"
      by (cases w) auto
  qed
  moreover have "remove_law (ae_run sample_env) fst"
    unfolding remove_law_def
  proof (intro allI impI)
    fix d script and w w' :: sample_server and r k
    assume "script_within d script" "ae_run sample_env script w = (r, w')" "apart_locations k d"
    then show "fst w' k = fst w k"
      using sample_removal[of d "script_lines script" w _ w' k]
      by (auto simp: sample_env_def sample_run_def script_within_def split: prod.splits)
  qed
  ultimately show ?thesis by (simp add: sftp_laws_def)
qed

text \<open>The file \<^verbatim>\<open>~/f\<close> of the server is seen.\<close>

definition sample_request :: "conflict_policy \<Rightarrow> upload_request" where
  "sample_request policy = \<lparr>ur_local_path = ''/src'', ur_remote_path = ''~/f'', ur_conflict_policy = policy, ur_recursive = False\<rparr>"

lemma sample_quiet: "remote_quiet sample_env fst"
  by (simp add: remote_quiet_def sample_env_def done_with_def)

lemma sample_sees: "sees sample_env fst ''~/f''"
  unfolding sees_def
proof (intro allI impI)
  fix w w'
  assume none: "sftp_metadata (ae_lib sample_env) (ae_run sample_env) ''~/f'' w = (Inr None, w')"
  have target: "metadata_listing_target ''~/f'' = (''~/'', Some ''f'')" "is_ok (validate_remote_path ''~/f'')"
      "place ''~/f'' = [''f'']" by code_simp+
  let ?script = "''ls -lan '' @ [CHR 0x22] @ ''~/'' @ [CHR 0x22, CHR 0x0A]"
  have script: "batch_command ''ls -lan'' [''~/''] = Inr ?script" "map line_words (script_lines ?script) = [[''ls'', ''-lan'', ''~/'']]"
    by code_simp+
  have row: "rbind (parse_long_listing (sl_modified sample_library) (captured_text (''-rw-r--r-- 1 0 0 3 Jan 1 2020 f'' @ [CHR 0x0A])) ''~/'')
      (\<lambda>entries. select_metadata_entry entries ''f'' ''~/f'') = Inr (Some (sample_entry ''f'' ''~/f'' FileKind 3 ''-rw-r--r--''))"
    by code_simp
  show "fst w (place ''~/f'') = None"
  proof (rule ccontr)
    assume some: "fst w (place ''~/f'') \<noteq> None"
    have "run_raw_batch sample_run ?script w = (Inr \<lparr>ca_success = True, ca_status = ''exit'',
        ca_stdout = ''-rw-r--r-- 1 0 0 3 Jan 1 2020 f'' @ [CHR 0x0A], ca_stderr = [], ca_truncated = False\<rparr>, w)"
      using some script(2) target(3)
      by (cases w) (simp add: run_raw_batch_def sample_run_def ends_with_def MAX_BATCH_BYTES_def del: One_nat_def)
    then show False
      using none target script(1) row
      by (auto simp: sftp_metadata_def sample_env_def is_ok_iff)
  qed
qed

section \<open>Uploads\<close>



text \<open>
  A destination whose name begins with a blank: \<^verbatim>\<open>sftp\<close> prints the name after one blank, the blanks before
  a field are skipped, so that the entry is not found and the destination is taken for a free one.
\<close>

lemma blank_destination_looks_absent:
  "(let run = \<lambda>script w. (Inr \<lparr>ca_success = True, ca_status = ''exit'', ca_stdout = ''-rw-r--r-- 1 0 0 3 Jan 1 2020  f'' @ [CHR 0x0A],
        ca_stderr = [], ca_truncated = False\<rparr>, w)
    in sftp_metadata sample_library run ''~/ f'' () = (Inr None, ())
      \<and> fst (resolve_remote_conflict \<lparr>ae_lib = sample_library, ae_run = run, ae_preflight = done_with (), ae_cancelled = Pair False,
        ae_local_kind = (\<lambda>_. done_with LocalFile), ae_local_size = (\<lambda>_. done_with 3)\<rparr> ''~/ f'' PolicyAsk False ()) = Inr (''~/ f'', False))"
  by code_simp

end
