(* ===== verification/SftpLocal.thy ===== *)
theory SftpLocal
  imports SftpTransfer
begin

text \<open>
  \<^verbatim>\<open>crates/remotedeck-core/src/sftp.rs\<close>, the local side of a download: the choice of the destination and
  the commit that puts the temporary in place of it (\<^verbatim>\<open>resolve_local_conflict\<close>, \<^verbatim>\<open>commit_local_transfer\<close>).

  The disk maps a path to what lies there (a file or a whole tree).  An operation of \<^verbatim>\<open>std::fs\<close> does what
  it says or fails, as the list of faults says; a removal that fails may leave a part of a tree.
\<close>

section \<open>The local disk\<close>

text \<open>A path as \<^verbatim>\<open>std::path::Path\<close> reads it: its parent and its file name, when it has them.\<close>

record local_path =
  lp_parent :: "string option"
  lp_name :: "string option"

definition display_path :: "local_path \<Rightarrow> string" where
  "display_path p = (case (lp_parent p, lp_name p) of
      (Some d, Some n) \<Rightarrow> d @ ''/'' @ n | (Some d, None) \<Rightarrow> d @ ''/..'' | (None, Some n) \<Rightarrow> n | (None, None) \<Rightarrow> ''/'')"

definition join_path :: "string \<Rightarrow> string \<Rightarrow> local_path" where
  "join_path parent name = \<lparr>lp_parent = Some parent, lp_name = Some name\<rparr>"

datatype 'c fault = Works | Breaks string "'c option"

record 'c disk =
  dk_entries :: "local_path \<Rightarrow> 'c option"
  dk_faults :: "'c fault list"

definition next_fault :: "'c disk \<Rightarrow> 'c fault \<times> 'c disk" where
  "next_fault d = (case dk_faults d of [] \<Rightarrow> (Works, d) | f # fs \<Rightarrow> (f, d\<lparr>dk_faults := fs\<rparr>))"

text \<open>\<^verbatim>\<open>fs::symlink_metadata\<close>, with a missing path told from other failures, and \<^verbatim>\<open>fs::rename\<close>.\<close>

definition local_path_exists :: "local_path \<Rightarrow> ('c disk, bool) action" where
  "local_path_exists p d =
     (case next_fault d of
        (Breaks m _, d) \<Rightarrow> (Inl (Io m), d)
      | (Works, d) \<Rightarrow> (Inr (dk_entries d p \<noteq> None), d))"

definition disk_rename :: "local_path \<Rightarrow> local_path \<Rightarrow> ('c disk, unit) action" where
  "disk_rename a b d =
     (case next_fault d of
        (Breaks m _, d) \<Rightarrow> (Inl (Io m), d)
      | (Works, d) \<Rightarrow>
          if dk_entries d a = None then (Inl (Io ''No such file or directory''), d)
          else (Inr (), d\<lparr>dk_entries := (dk_entries d)(a := None, b := dk_entries d a)\<rparr>))"

text \<open>\<^verbatim>\<open>remove_local_path\<close>: \<^verbatim>\<open>fs::remove_dir_all\<close> or \<^verbatim>\<open>fs::remove_file\<close>, by what lies there.\<close>

definition remove_local_path :: "local_path \<Rightarrow> ('c disk, unit) action" where
  "remove_local_path p =
     andThen (local_path_exists p) (\<lambda>found.
     if \<not> found then done_with ()
     else (\<lambda>d. case next_fault d of
        (Breaks m rest, d) \<Rightarrow> (Inl (Io m), d\<lparr>dk_entries := (dk_entries d)(p := rest)\<rparr>)
      | (Works, d) \<Rightarrow> (Inr (), d\<lparr>dk_entries := (dk_entries d)(p := None)\<rparr>)))"

section \<open>Temporaries and backups\<close>

definition local_sibling :: "local_path \<Rightarrow> (string \<Rightarrow> string) \<Rightarrow> local_path app_result" where
  "local_sibling destination rename =
     rbind (ok_or (Validation ''local destination has no parent'') (lp_parent destination)) (\<lambda>parent.
     rbind (ok_or (Validation ''local destination name is not valid Unicode'') (lp_name destination)) (\<lambda>name.
     Inr (join_path parent (rename name))))"

definition owned_local_temp :: "local_path \<Rightarrow> string \<Rightarrow> local_path app_result" where
  "owned_local_temp destination job_id =
     local_sibling destination (\<lambda>name. ''.'' @ name @ ''.remotedeck-'' @ job_id @ ''.part'')"

definition owned_local_backup :: "local_path \<Rightarrow> string \<Rightarrow> local_path app_result" where
  "owned_local_backup destination job_id =
     local_sibling destination (\<lambda>name. ''.'' @ name @ ''.remotedeck-'' @ job_id @ ''.backup'')"

definition is_owned_local :: "(string \<Rightarrow> bool) \<Rightarrow> string \<Rightarrow> local_path \<Rightarrow> bool" where
  "is_owned_local is_uuid ending path =
     (case lp_name path of
        None \<Rightarrow> False
      | Some name \<Rightarrow>
          case rsplit_once ''.remotedeck-'' name of
            None \<Rightarrow> False
          | Some (_, rest) \<Rightarrow> case strip_suffix ending rest of None \<Rightarrow> False | Some uuid \<Rightarrow> is_uuid uuid)"

definition remove_local_temp_if_owned :: "(string \<Rightarrow> bool) \<Rightarrow> local_path \<Rightarrow> ('c disk, unit) action" where
  "remove_local_temp_if_owned is_uuid path =
     (if is_owned_local is_uuid ''.part'' path then remove_local_path path
      else fails (State ''refusing to remove a transfer path that is not app-owned''))"

definition remove_local_backup_if_owned :: "(string \<Rightarrow> bool) \<Rightarrow> local_path \<Rightarrow> ('c disk, unit) action" where
  "remove_local_backup_if_owned is_uuid path =
     (if is_owned_local is_uuid ''.backup'' path then remove_local_path path
      else fails (State ''refusing to remove a transfer backup that is not app-owned''))"

section \<open>Conflicts and the commit\<close>

text \<open>\<^verbatim>\<open>Path::exists\<close>: a failure to look counts as absent.\<close>

definition path_exists :: "local_path \<Rightarrow> ('c disk, bool) action" where
  "path_exists p d =
     (case local_path_exists p d of (Inl e, d) \<Rightarrow> (Inr False, d) | (Inr b, d) \<Rightarrow> (Inr b, d))"

fun try_local_names :: "local_path \<Rightarrow> bool \<Rightarrow> nat list \<Rightarrow> ('c disk, local_path) action" where
  "try_local_names requested is_directory [] = fails (Process ''could not find an unused local conflict name'')"
| "try_local_names requested is_directory (counter # counters) =
     andThen (lift_result (local_sibling requested (\<lambda>name. conflict_name name counter is_directory))) (\<lambda>candidate.
     andThen (path_exists candidate) (\<lambda>found.
     if \<not> found then done_with candidate else try_local_names requested is_directory counters))"

definition resolve_local_conflict :: "local_path \<Rightarrow> conflict_policy \<Rightarrow> bool \<Rightarrow> ('c disk, local_path \<times> bool) action" where
  "resolve_local_conflict requested policy is_directory =
     andThen (local_path_exists requested) (\<lambda>found.
     if \<not> found then done_with (requested, False)
     else case policy of
       PolicyAsk \<Rightarrow> fails (conflict_requires_choice ''local'')
     | PolicySkip \<Rightarrow> done_with (requested, True)
     | PolicyOverwrite \<Rightarrow> done_with (requested, False)
     | PolicyRename \<Rightarrow> andThen (try_local_names requested is_directory [1..<10000]) (\<lambda>candidate. done_with (candidate, False)))"

text \<open>The message of an error of \<^verbatim>\<open>fs::rename\<close> in the text of another.\<close>

definition io_text :: "app_error \<Rightarrow> string" where
  "io_text e = (case e of Io m \<Rightarrow> m | _ \<Rightarrow> app_error_display e)"

definition commit_local_transfer ::
    "(string \<Rightarrow> bool) \<Rightarrow> string \<Rightarrow> local_path \<Rightarrow> local_path \<Rightarrow> conflict_policy \<Rightarrow> ('c disk, unit) action" where
  "commit_local_transfer is_uuid job_id temporary destination policy =
     andThen (local_path_exists destination) (\<lambda>found.
     if \<not> found then disk_rename temporary destination
     else if policy \<noteq> PolicyOverwrite then fails (Process ''download destination appeared before final rename'')
     else
       andThen (lift_result (owned_local_backup destination job_id)) (\<lambda>backup.
       andThen (local_path_exists backup) (\<lambda>occupied.
       if occupied
       then fails (State (''a preserved transfer backup already exists at '' @ display_path backup @ ''; recover it before retrying''))
       else swap_in io_text display_path disk_rename (remove_local_backup_if_owned is_uuid) temporary destination backup)))"

section \<open>The disk keeps the laws of a replacement\<close>

lemma next_fault_entries: "next_fault d = (f, d') \<Longrightarrow> dk_entries d' = dk_entries d"
  by (auto simp: next_fault_def split: list.splits)

lemma exists_entries: "local_path_exists p d = (r, d') \<Longrightarrow> dk_entries d' = dk_entries d"
  by (auto simp: local_path_exists_def dest: next_fault_entries split: prod.splits fault.splits)

lemma exists_answer: "local_path_exists p d = (Inr b, d') \<Longrightarrow> b \<longleftrightarrow> dk_entries d p \<noteq> None"
  by (auto simp: local_path_exists_def dest: next_fault_entries split: prod.splits fault.splits)

interpretation local_disk: replacement dk_entries id "\<lambda>a b. a \<noteq> b" disk_rename "remove_local_backup_if_owned is_uuid" for is_uuid
proof
  fix a b :: local_path and w w' :: "'c disk" and r k
  assume "id a \<noteq> id b" and run: "disk_rename a b w = (r, w')"
  obtain f v where f: "next_fault w = (f, v)" by (metis surj_pair)
  note e = next_fault_entries[OF f]
  show "dk_entries w' (id a) = dk_entries w (id a) \<and> dk_entries w' (id b) = dk_entries w (id b) \<and> \<not> is_ok r
      \<or> dk_entries w' (id a) = None \<and> dk_entries w' (id b) = dk_entries w (id a) \<and> dk_entries w (id a) \<noteq> None"
    using run f e \<open>id a \<noteq> id b\<close> by (auto simp: disk_rename_def split: fault.splits if_splits)
  show "dk_entries w' k = dk_entries w k" if "k \<noteq> id a" "k \<noteq> id b"
    using run f e that by (auto simp: disk_rename_def split: fault.splits if_splits)
next
  fix p k :: local_path and w w' :: "'c disk" and q
  assume "remove_local_backup_if_owned is_uuid p w = (q, w')" "k \<noteq> id p"
  then show "dk_entries w' k = dk_entries w k"
    by (auto simp: remove_local_backup_if_owned_def remove_local_path_def andThen_def fails_def done_with_def
        split: if_splits sum.splits prod.splits fault.splits dest!: next_fault_entries exists_entries)
qed auto

section \<open>A download\<close>

text \<open>A destination in a directory; its temporary and backup are other paths beside it.\<close>

lemma local_siblings:
  assumes "lp_parent destination = Some dir" and "lp_name destination = Some name"
    and "owned_local_temp destination job_id = Inr temporary" and "owned_local_backup destination job_id = Inr backup"
  shows "temporary \<noteq> destination" and "destination \<noteq> backup" and "temporary \<noteq> backup"
proof -
  have t: "temporary = join_path dir (''.'' @ name @ ''.remotedeck-'' @ job_id @ ''.part'')"
    and b: "backup = join_path dir (''.'' @ name @ ''.remotedeck-'' @ job_id @ ''.backup'')"
    using assms by (auto simp: owned_local_temp_def owned_local_backup_def local_sibling_def ok_or_def)
  have "length (''.'' @ name @ ''.remotedeck-'' @ job_id @ ''.part'') \<noteq> length name"
    "length (''.'' @ name @ ''.remotedeck-'' @ job_id @ ''.backup'') \<noteq> length name"
    "length (''.'' @ name @ ''.remotedeck-'' @ job_id @ ''.part'') \<noteq> length (''.'' @ name @ ''.remotedeck-'' @ job_id @ ''.backup'')"
    by simp_all
  then have "''.'' @ name @ ''.remotedeck-'' @ job_id @ ''.part'' \<noteq> name"
    "''.'' @ name @ ''.remotedeck-'' @ job_id @ ''.backup'' \<noteq> name"
    "''.'' @ name @ ''.remotedeck-'' @ job_id @ ''.part'' \<noteq> ''.'' @ name @ ''.remotedeck-'' @ job_id @ ''.backup''"
    by metis+
  then show "temporary \<noteq> destination" "destination \<noteq> backup" "temporary \<noteq> backup"
    using t b assms(2) by (auto simp: join_path_def)
qed

text \<open>
  The commit of a download never loses a file.  Whatever operation of the disk fails, afterwards the
  destination holds the new content, or what it held, or that lies in the backup beside it; success
  means that the new content is in place and the temporary gone, and a destination that appeared is
  only replaced when the policy is to overwrite.
\<close>

theorem download_commit_never_loses:
  assumes "lp_parent destination = Some dir" and "lp_name destination = Some name"
    and "owned_local_temp destination job_id = Inr temporary" and "owned_local_backup destination job_id = Inr backup"
    and "dk_entries d temporary = Some new"
    and "commit_local_transfer is_uuid job_id temporary destination policy d = (r, d')"
  shows "(is_ok r \<longrightarrow> dk_entries d' destination = Some new \<and> dk_entries d' temporary = None)
    \<and> (\<forall>old. dk_entries d destination = Some old \<longrightarrow> dk_entries d' destination = Some old
        \<or> policy = PolicyOverwrite \<and> (dk_entries d' destination = Some new \<or> dk_entries d' backup = Some old))
    \<and> (dk_entries d' destination = Some new \<or> dk_entries d' destination = dk_entries d destination
        \<or> dk_entries d' backup = dk_entries d destination)"
proof -
  note apart = local_siblings[OF assms(1-4)]
  obtain f d1 where 1: "local_path_exists destination d = (f, d1)" by (metis surj_pair)
  obtain g d2 where 2: "local_path_exists backup d1 = (g, d2)" by (metis surj_pair)
  have same: "dk_entries d1 = dk_entries d" "dk_entries d2 = dk_entries d"
    using exists_entries[OF 1] exists_entries[OF 2] by simp_all
  consider (moved) "f = Inr False" "disk_rename temporary destination d1 = (r, d')"
    | (kept) "d' = d1 \<or> d' = d2" "\<not> is_ok r"
    | (swapped) "f = Inr True" "policy = PolicyOverwrite"
        "swap_in io_text display_path disk_rename (remove_local_backup_if_owned is_uuid) temporary destination backup d2 = (r, d')"
    using assms(6) 1 2 assms(4)
    by (auto simp: commit_local_transfer_def andThen_def fails_def lift_result_def split: sum.splits if_splits)
  then show ?thesis
  proof cases
    case moved
    have "dk_entries d destination = None" using exists_answer 1 moved(1) by blast
    then show ?thesis
      using local_disk.move_source[OF _ moved(2)] apart(1) assms(5) same by auto
  next
    case kept
    then show ?thesis using same by auto
  next
    case swapped
    obtain old where old: "dk_entries d destination = Some old" using exists_answer 1 swapped(1) by blast
    from local_disk.swap_safe[OF swapped(3), of old new] old same apart assms(5) swapped(2)
    show ?thesis by auto
  qed
qed

lemma download_commit_never_loses_witness:
  "\<exists>r d'. commit_local_transfer (\<lambda>s. s = ''id'') ''id'' (join_path ''/d'' ''.f.remotedeck-id.part'') (join_path ''/d'' ''f'') PolicyOverwrite
      \<lparr>dk_entries = [join_path ''/d'' ''f'' \<mapsto> 1, join_path ''/d'' ''.f.remotedeck-id.part'' \<mapsto> (2 :: nat)],
       dk_faults = [Works, Works, Works, Breaks ''busy'' None, Breaks ''gone'' None]\<rparr> = (r, d')
    \<and> \<not> is_ok r \<and> dk_entries d' (join_path ''/d'' ''.f.remotedeck-id.backup'') = Some 1"
proof -
  let ?t = "join_path ''/d'' ''.f.remotedeck-id.part''" and ?p = "join_path ''/d'' ''f''"
  let ?d = "\<lparr>dk_entries = [?p \<mapsto> 1, ?t \<mapsto> (2 :: nat)],
    dk_faults = [Works, Works, Works, Breaks ''busy'' None, Breaks ''gone'' None]\<rparr>"
  obtain r d' where run: "commit_local_transfer (\<lambda>s. s = ''id'') ''id'' ?t ?p PolicyOverwrite ?d = (r, d')" by (metis surj_pair)
  have named: "lp_parent ?p = Some ''/d''" "lp_name ?p = Some ''f''"
    "owned_local_temp ?p ''id'' = Inr ?t" "owned_local_backup ?p ''id'' = Inr (join_path ''/d'' ''.f.remotedeck-id.backup'')"
    by code_simp+
  have "(case commit_local_transfer (\<lambda>s. s = ''id'') ''id'' ?t ?p PolicyOverwrite ?d of
      (r, d') \<Rightarrow> \<not> is_ok r \<and> dk_entries d' ?p = None)" by code_simp
  moreover have "dk_entries ?d ?t = Some 2" "dk_entries ?d ?p = Some 1" by code_simp+
  ultimately show ?thesis using download_commit_never_loses[OF named _ run] run by auto
qed

end
