(* ===== verification/Transfers.thy ===== *)
theory Transfers
  imports SftpTransfer Registry Barrier
begin

text \<open>
  \<^verbatim>\<open>crates/remotedeck-core/src/sftp.rs\<close>, the registry of transfers.  Every critical section of the
  registry's locks is one step; an attempt (the task of \<^verbatim>\<open>spawn_attempt\<close>) and a removal (a call of
  \<^verbatim>\<open>remove_host\<close>) keep what they hold between their critical sections as a phase.  What the attempt
  itself does on the remote side (\<open>perform_upload\<close>, a download) is a step with any result.
\<close>

section \<open>Jobs\<close>

datatype transfer_direction = Upload | Download

datatype transfer_state = TfQueued | TfRunning | TfCancelling | TfCompleted | TfCancelled | TfFailed

record transfer_job =
  tj_id :: string
  tj_revision :: nat
  tj_host_id :: string
  tj_direction :: transfer_direction
  tj_source :: string
  tj_destination :: string
  tj_conflict_policy :: conflict_policy
  tj_recursive :: bool
  tj_state :: transfer_state
  tj_attempts :: nat
  tj_bytes_transferred :: nat
  tj_total_bytes :: "nat option"
  tj_skipped :: bool
  tj_created_at :: nat
  tj_updated_at :: nat
  tj_completed_at :: "nat option"
  tj_error :: "string option"

text \<open>An \<^verbatim>\<open>UploadRequest\<close> and a \<^verbatim>\<open>DownloadRequest\<close> have the same fields.\<close>

datatype transfer_operation = UploadOp upload_request | DownloadOp upload_request

definition MAX_ACTIVE_TRANSFERS :: nat where "MAX_ACTIVE_TRANSFERS = 8"
definition MAX_RETAINED_TRANSFERS :: nat where "MAX_RETAINED_TRANSFERS = 512"

fun transfer_state_is_terminal :: "transfer_state \<Rightarrow> bool" where
  "transfer_state_is_terminal TfCompleted = True"
| "transfer_state_is_terminal TfCancelled = True"
| "transfer_state_is_terminal TfFailed = True"
| "transfer_state_is_terminal _ = False"

fun state_name :: "transfer_state \<Rightarrow> string" where
  "state_name TfQueued = ''Queued''"
| "state_name TfRunning = ''Running''"
| "state_name TfCancelling = ''Cancelling''"
| "state_name TfCompleted = ''Completed''"
| "state_name TfCancelled = ''Cancelled''"
| "state_name TfFailed = ''Failed''"

definition transition :: "transfer_state \<Rightarrow> transfer_state \<Rightarrow> transfer_state app_result" where
  "transition current target =
     (if (current, target) \<in> set [(TfQueued, TfRunning), (TfQueued, TfCancelling), (TfRunning, TfCancelling),
           (TfRunning, TfCompleted), (TfRunning, TfFailed), (TfCancelling, TfCancelled), (TfFailed, TfQueued),
           (TfCancelled, TfQueued)]
      then Inr target
      else Inl (State (''invalid transfer state transition: '' @ state_name current @ '' -> '' @ state_name target)))"

definition revise_transfer_job :: "transfer_job \<Rightarrow> transfer_job" where
  "revise_transfer_job job = job\<lparr>tj_revision := saturating_add64 (tj_revision job) 1\<rparr>"

section \<open>The registry\<close>

text \<open>
  A \<^verbatim>\<open>TransferControl\<close> is shared between an entry, its attempt and whoever cancels or waits; it is named
  by a number, in the order in which the controls were made.
\<close>

record transfer_control =
  tc_cancelled :: bool
  tc_finished :: bool

record transfer_entry =
  te_job :: transfer_job
  te_host :: host_profile
  te_operation :: transfer_operation
  te_control :: nat

text \<open>
  An attempt: before its first critical section; after it, with what it took from the entry; with a
  lease of the host while it works; with a result to record; with a control to mark as finished; over.
\<close>

datatype attempt =
    Spawned string
  | Admitted string nat host_profile transfer_operation
  | Working string nat host_profile transfer_operation
  | Concluding string nat "transfer_outcome app_result"
  | Closing nat
  | Over

text \<open>
  A call of \<^verbatim>\<open>remove_host\<close>: the host is marked; retired in the barrier too; the matching jobs are being
  cancelled one after the other; the controls are waited for; then the entries go.  It ends with
  \<open>Removed\<close>, or with \<open>GaveUp\<close> when the wait times out.
\<close>

datatype removal =
    Marked string
  | Retired string
  | CancelEach string "string list" "nat list"
  | Waiting string "nat list"
  | Purging string
  | Removed string
  | GaveUp

record transfers =
  ts_entries :: "(string \<times> transfer_entry) list"
  ts_retired :: "string list"
  ts_barrier :: barrier
  ts_controls :: "transfer_control list"
  ts_attempts :: "attempt list"
  ts_cancels :: "(nat \<times> transfer_job) list"
  ts_removals :: "removal list"
  ts_direct :: "string list"
  ts_events :: "transfer_job list"

definition new_transfers :: transfers where
  "new_transfers = \<lparr>ts_entries = [], ts_retired = [], ts_barrier = Map.empty, ts_controls = [], ts_attempts = [],
     ts_cancels = [], ts_removals = [], ts_direct = [], ts_events = []\<rparr>"

definition emit :: "transfer_job \<Rightarrow> transfers \<Rightarrow> transfers" where
  "emit job s = s\<lparr>ts_events := ts_events s @ [job]\<rparr>"

definition get_transfer :: "string \<Rightarrow> transfers \<Rightarrow> transfer_job app_result" where
  "get_transfer job_id s =
     (case map_of (ts_entries s) job_id of
        None \<Rightarrow> Inl (NotFound (''transfer job '' @ job_id))
      | Some entry \<Rightarrow> Inr (te_job entry))"

definition list_transfers :: "transfers \<Rightarrow> transfer_job list" where
  "list_transfers s = sort_key tj_created_at (map (te_job \<circ> snd) (ts_entries s))"

definition is_terminal_transfer :: "string \<times> transfer_entry \<Rightarrow> bool" where
  "is_terminal_transfer p \<longleftrightarrow> transfer_state_is_terminal (tj_state (te_job (snd p)))"

definition live_transfers :: "(string \<times> transfer_entry) list \<Rightarrow> nat" where
  "live_transfers es = count_where (\<lambda>p. \<not> is_terminal_transfer p) es"

definition prune_terminal_transfers :: "(string \<times> transfer_entry) list \<Rightarrow> nat \<Rightarrow> (string \<times> transfer_entry) list" where
  "prune_terminal_transfers es limit =
     prune (\<lambda>es. length es \<ge> limit) is_terminal_transfer (\<lambda>e. tj_created_at (te_job e)) es"

definition too_many_transfers :: app_error where
  "too_many_transfers = Validation (''at most '' @ dec MAX_ACTIVE_TRANSFERS @ '' active transfers are allowed'')"

section \<open>Starting\<close>

definition validate_local_path :: "(string \<Rightarrow> bool) \<Rightarrow> string \<Rightarrow> unit app_result" where
  "validate_local_path is_absolute path =
     (if path = [] \<or> length path > 32767 \<or> has_line_byte path then invalid ''local path is invalid''
      else if \<not> is_absolute path then invalid ''local transfer paths must be absolute''
      else Inr ())"

definition validate_transfer_operation :: "(string \<Rightarrow> bool) \<Rightarrow> transfer_operation \<Rightarrow> unit app_result" where
  "validate_transfer_operation is_absolute operation =
     (case operation of
        UploadOp request \<Rightarrow> rbind (validate_local_path is_absolute (ur_local_path request))
          (\<lambda>_. validate_destructive_remote_path (ur_remote_path request))
      | DownloadOp request \<Rightarrow> rbind (validate_remote_path (ur_remote_path request))
          (\<lambda>_. validate_local_path is_absolute (ur_local_path request)))"

definition new_transfer_job :: "string \<Rightarrow> host_profile \<Rightarrow> transfer_operation \<Rightarrow> nat \<Rightarrow> transfer_job" where
  "new_transfer_job job_id host operation now =
     (let (direction, source, destination, request) =
        (case operation of
           UploadOp request \<Rightarrow> (Upload, ur_local_path request, ur_remote_path request, request)
         | DownloadOp request \<Rightarrow> (Download, ur_remote_path request, ur_local_path request, request))
      in \<lparr>tj_id = job_id, tj_revision = 1, tj_host_id = hp_id host, tj_direction = direction, tj_source = source,
          tj_destination = destination, tj_conflict_policy = ur_conflict_policy request, tj_recursive = ur_recursive request,
          tj_state = TfQueued, tj_attempts = 0, tj_bytes_transferred = 0, tj_total_bytes = None, tj_skipped = False,
          tj_created_at = now, tj_updated_at = now, tj_completed_at = None, tj_error = None\<rparr>)"

text \<open>\<^verbatim>\<open>Arc::new(TransferControl::default())\<close> and \<^verbatim>\<open>spawn_attempt\<close>.\<close>

definition new_control :: "transfers \<Rightarrow> transfers" where
  "new_control s = s\<lparr>ts_controls := ts_controls s @ [\<lparr>tc_cancelled = False, tc_finished = False\<rparr>]\<rparr>"

definition spawn_attempt :: "string \<Rightarrow> transfers \<Rightarrow> transfers" where
  "spawn_attempt job_id s = s\<lparr>ts_attempts := ts_attempts s @ [Spawned job_id]\<rparr>"

text \<open>\<open>job_id\<close> is the identifier that \<^verbatim>\<open>Uuid::new_v4\<close> makes.\<close>

definition start_registered ::
    "string \<Rightarrow> nat \<Rightarrow> host_profile \<Rightarrow> transfer_operation \<Rightarrow> transfers \<Rightarrow> transfer_job app_result \<times> transfers" where
  "start_registered job_id now host operation s =
     (if hp_id host \<in> set (ts_retired s) then (Inl (NotFound (''host '' @ hp_id host)), s)
      else
        let job = new_transfer_job job_id host operation now;
            entries = prune_terminal_transfers (ts_entries s) MAX_RETAINED_TRANSFERS
        in if live_transfers entries \<ge> MAX_ACTIVE_TRANSFERS then (Inl too_many_transfers, s\<lparr>ts_entries := entries\<rparr>)
           else
             let entry = \<lparr>te_job = job, te_host = host, te_operation = operation, te_control = length (ts_controls s)\<rparr>
             in (Inr job, spawn_attempt job_id (emit job (new_control (s\<lparr>ts_entries := put job_id entry entries\<rparr>)))))"

text \<open>\<open>current\<close> is \<^verbatim>\<open>current_host_profile\<close>, the saved profile of a host.\<close>

definition start_upload where
  "start_upload is_absolute current job_id now host request s =
     (case rbind (current host) (\<lambda>host.
        rbind (validate_local_path is_absolute (ur_local_path request)) (\<lambda>_.
        rbind (validate_destructive_remote_path (ur_remote_path request)) (\<lambda>_. Inr host))) of
        Inl e \<Rightarrow> (Inl e, s)
      | Inr host \<Rightarrow> start_registered job_id now host (UploadOp request) s)"

definition start_download where
  "start_download is_absolute current job_id now host request s =
     (case rbind (current host) (\<lambda>host.
        rbind (validate_remote_path (ur_remote_path request)) (\<lambda>_.
        rbind (validate_local_path is_absolute (ur_local_path request)) (\<lambda>_. Inr host))) of
        Inl e \<Rightarrow> (Inl e, s)
      | Inr host \<Rightarrow> start_registered job_id now host (DownloadOp request) s)"

section \<open>Cancelling and retrying\<close>

text \<open>The critical section of \<^verbatim>\<open>cancel\<close>; the control is cancelled and the event sent after it.\<close>

definition cancel_transfer :: "string \<Rightarrow> nat \<Rightarrow> transfers \<Rightarrow> transfer_job app_result \<times> transfers" where
  "cancel_transfer job_id now s =
     (case map_of (ts_entries s) job_id of
        None \<Rightarrow> (Inl (NotFound (''transfer job '' @ job_id)), s)
      | Some entry \<Rightarrow>
          if tj_state (te_job entry) \<in> {TfQueued, TfRunning} then
            (case transition (tj_state (te_job entry)) TfCancelling of
               Inl e \<Rightarrow> (Inl e, s)
             | Inr state \<Rightarrow>
                 let job = revise_transfer_job ((te_job entry)\<lparr>tj_state := state, tj_updated_at := now\<rparr>)
                 in (Inr job, s\<lparr>ts_entries := put job_id (entry\<lparr>te_job := job\<rparr>) (ts_entries s),
                      ts_cancels := ts_cancels s @ [(te_control entry, job)]\<rparr>))
          else (Inr (te_job entry), s))"

definition cancel_control :: "nat \<Rightarrow> transfers \<Rightarrow> transfers" where
  "cancel_control c s = s\<lparr>ts_controls := (ts_controls s)[c := (ts_controls s ! c)\<lparr>tc_cancelled := True\<rparr>]\<rparr>"

definition deliver_cancel :: "nat \<Rightarrow> transfers \<Rightarrow> transfers" where
  "deliver_cancel i s =
     (let (c, job) = ts_cancels s ! i
      in emit job (cancel_control c (s\<lparr>ts_cancels := take i (ts_cancels s) @ drop (Suc i) (ts_cancels s)\<rparr>)))"

definition prepare_transfer_retry ::
    "(string \<Rightarrow> bool) \<Rightarrow> nat \<Rightarrow> nat \<Rightarrow> transfer_entry \<Rightarrow> host_profile \<Rightarrow> transfer_entry app_result" where
  "prepare_transfer_retry is_absolute now control entry host =
     (if tj_host_id (te_job entry) \<noteq> hp_id host
      then Inl (Validation ''transfer job does not belong to the selected host'')
      else
        rbind (validate_transfer_operation is_absolute (te_operation entry)) (\<lambda>_.
        rbind (transition (tj_state (te_job entry)) TfQueued) (\<lambda>state.
        Inr (entry\<lparr>te_host := host, te_control := control, te_job := revise_transfer_job ((te_job entry)\<lparr>
          tj_state := state, tj_updated_at := now, tj_completed_at := None, tj_error := None, tj_skipped := False,
          tj_bytes_transferred := 0\<rparr>)\<rparr>))))"

definition retry_registered ::
    "(string \<Rightarrow> bool) \<Rightarrow> string \<Rightarrow> nat \<Rightarrow> host_profile \<Rightarrow> transfers \<Rightarrow> transfer_job app_result \<times> transfers" where
  "retry_registered is_absolute job_id now host s =
     (if hp_id host \<in> set (ts_retired s) then (Inl (NotFound (''host '' @ hp_id host)), s)
      else if count_where (\<lambda>p. fst p \<noteq> job_id \<and> \<not> is_terminal_transfer p) (ts_entries s) \<ge> MAX_ACTIVE_TRANSFERS
      then (Inl too_many_transfers, s)
      else case map_of (ts_entries s) job_id of
        None \<Rightarrow> (Inl (NotFound (''transfer job '' @ job_id)), s)
      | Some entry \<Rightarrow>
          case prepare_transfer_retry is_absolute now (length (ts_controls s)) entry host of
            Inl e \<Rightarrow> (Inl e, s)
          | Inr entry \<Rightarrow> (Inr (te_job entry),
              spawn_attempt job_id (emit (te_job entry) (new_control (s\<lparr>ts_entries := put job_id entry (ts_entries s)\<rparr>)))))"

definition retry_transfer where
  "retry_transfer is_absolute current job_id now host s =
     (case current host of Inl e \<Rightarrow> (Inl e, s) | Inr host \<Rightarrow> retry_registered is_absolute job_id now host s)"

section \<open>An attempt\<close>

definition set_attempt :: "nat \<Rightarrow> attempt \<Rightarrow> transfers \<Rightarrow> transfers" where
  "set_attempt i a s = s\<lparr>ts_attempts := (ts_attempts s)[i := a]\<rparr>"

definition record_job :: "string \<Rightarrow> transfer_entry \<Rightarrow> transfer_job \<Rightarrow> transfers \<Rightarrow> transfers" where
  "record_job job_id entry job s = emit job (s\<lparr>ts_entries := put job_id (entry\<lparr>te_job := job\<rparr>) (ts_entries s)\<rparr>)"

text \<open>A job that ends at \<open>now\<close>.\<close>

definition ended :: "nat \<Rightarrow> transfer_job \<Rightarrow> transfer_job" where
  "ended now job = revise_transfer_job (job\<lparr>tj_updated_at := now, tj_completed_at := Some now\<rparr>)"

text \<open>The first critical section of \<^verbatim>\<open>execute\<close>.\<close>

definition begin_attempt :: "nat \<Rightarrow> string \<Rightarrow> nat \<Rightarrow> transfers \<Rightarrow> transfers" where
  "begin_attempt i job_id now s =
     (case map_of (ts_entries s) job_id of
        None \<Rightarrow> set_attempt i Over s
      | Some entry \<Rightarrow>
          let job = te_job entry; control = te_control entry
          in if tc_cancelled (ts_controls s ! control)
             then set_attempt i (Closing control) (record_job job_id entry (ended now (job\<lparr>tj_state := TfCancelled\<rparr>)) s)
             else case transition (tj_state job) TfRunning of
               Inl e \<Rightarrow> set_attempt i (Closing control) (record_job job_id entry
                 (ended now (job\<lparr>tj_state := TfFailed, tj_error := Some (app_error_display e)\<rparr>)) s)
             | Inr state \<Rightarrow> set_attempt i (Admitted job_id control (te_host entry) (te_operation entry))
                 (record_job job_id entry (revise_transfer_job (job\<lparr>tj_state := state,
                    tj_attempts := min (tj_attempts job + 1) (2 ^ 32 - 1), tj_updated_at := now\<rparr>)) s))"

text \<open>\<^verbatim>\<open>begin_host_operation\<close> on the barrier that \<^verbatim>\<open>SftpService\<close> keeps for itself.\<close>

definition begin_host_operation :: "string \<Rightarrow> barrier \<Rightarrow> unit app_result \<times> barrier" where
  "begin_host_operation host_id b =
     (case begin_lease host_id b of
        (True, b) \<Rightarrow> (Inr (), b)
      | (False, b) \<Rightarrow> (Inl (State (''SFTP operations for host '' @ host_id @ '' are being retired'')), b))"

definition outcome_of_attempt :: "nat \<Rightarrow> transfer_outcome app_result \<Rightarrow> transfer_job \<Rightarrow> transfer_job" where
  "outcome_of_attempt now result job =
     ended now (case result of
        Inr outcome \<Rightarrow> job\<lparr>tj_state := TfCompleted, tj_destination := ou_destination outcome,
          tj_total_bytes := Some (ou_total_bytes outcome), tj_bytes_transferred := ou_total_bytes outcome,
          tj_skipped := ou_skipped outcome, tj_error := None\<rparr>
      | Inl e \<Rightarrow> if e = Cancelled then job\<lparr>tj_state := TfCancelled, tj_error := None\<rparr>
                 else job\<lparr>tj_state := TfFailed, tj_error := Some (limited_error (app_error_display e))\<rparr>)"

text \<open>One turn of an attempt; \<open>result\<close> is what the transfer came to when it worked.\<close>

definition attempt_turn :: "nat \<Rightarrow> nat \<Rightarrow> transfer_outcome app_result \<Rightarrow> transfers \<Rightarrow> transfers" where
  "attempt_turn i now result s =
     (case ts_attempts s ! i of
        Spawned job_id \<Rightarrow> begin_attempt i job_id now s
      | Admitted job_id control host operation \<Rightarrow>
          (case begin_host_operation (hp_id host) (ts_barrier s) of
             (Inr _, b) \<Rightarrow> set_attempt i (Working job_id control host operation) (s\<lparr>ts_barrier := b\<rparr>)
           | (Inl e, b) \<Rightarrow> set_attempt i (Concluding job_id control (Inl e)) (s\<lparr>ts_barrier := b\<rparr>))
      | Working job_id control host operation \<Rightarrow>
          set_attempt i (Concluding job_id control result) (s\<lparr>ts_barrier := end_lease (hp_id host) (ts_barrier s)\<rparr>)
      | Concluding job_id control outcome \<Rightarrow>
          set_attempt i (Closing control)
            (case map_of (ts_entries s) job_id of
               None \<Rightarrow> s
             | Some entry \<Rightarrow> record_job job_id entry (outcome_of_attempt now outcome (te_job entry)) s)
      | Closing control \<Rightarrow>
          set_attempt i Over (s\<lparr>ts_controls := (ts_controls s)[control := (ts_controls s ! control)\<lparr>tc_finished := True\<rparr>]\<rparr>)
      | Over \<Rightarrow> s)"

section \<open>Updating and removing a host\<close>

definition same_connection_profile :: "host_profile \<Rightarrow> host_profile \<Rightarrow> bool" where
  "same_connection_profile left right \<longleftrightarrow> hp_id left = hp_id right \<and> hp_hostname left = hp_hostname right
     \<and> hp_port left = hp_port right \<and> hp_username left = hp_username right \<and> hp_auth_method left = hp_auth_method right
     \<and> hp_identity_file left = hp_identity_file right \<and> hp_proxy_jump left = hp_proxy_jump right
     \<and> hp_advanced left = hp_advanced right"

definition connection_uses_host :: "host_profile \<Rightarrow> host_profile \<Rightarrow> bool" where
  "connection_uses_host connection profile \<longleftrightarrow> hp_id connection = hp_id profile
     \<or> (case hp_proxy_jump connection of None \<Rightarrow> False
        | Some reference \<Rightarrow> reference = hp_id profile \<or> eq_ignore_ascii_case reference (hp_alias profile))"

definition transfers_host_update :: "host_profile \<Rightarrow> host_profile \<Rightarrow> ('r \<Rightarrow> 'a app_result \<times> 'r) \<Rightarrow> transfers \<Rightarrow> 'r \<Rightarrow> 'a app_result \<times> 'r" where
  "transfers_host_update previous next_profile update s r =
     (if \<not> same_connection_profile previous next_profile
         \<and> list_ex (\<lambda>p. \<not> is_terminal_transfer p \<and> connection_uses_host (te_host (snd p)) previous) (ts_entries s)
      then (Inl (State ''stop active transfers before changing these SSH connection settings''), r)
      else update r)"

definition set_removal :: "nat \<Rightarrow> removal \<Rightarrow> transfers \<Rightarrow> transfers" where
  "set_removal k r s = s\<lparr>ts_removals := (ts_removals s)[k := r]\<rparr>"

definition begin_removal :: "string \<Rightarrow> transfers \<Rightarrow> transfers" where
  "begin_removal host_id s =
     s\<lparr>ts_retired := List.insert host_id (ts_retired s), ts_removals := ts_removals s @ [Marked host_id]\<rparr>"

definition matching_transfers :: "string \<Rightarrow> transfers \<Rightarrow> (string \<times> transfer_entry) list" where
  "matching_transfers host_id s = filter (\<lambda>p. tj_host_id (te_job (snd p)) = host_id) (ts_entries s)"

text \<open>One turn of a removal; \<open>timed_out\<close> tells that the wait took longer than thirty seconds.\<close>

definition removal_turn :: "nat \<Rightarrow> nat \<Rightarrow> bool \<Rightarrow> transfers \<Rightarrow> transfers" where
  "removal_turn k now timed_out s =
     (case ts_removals s ! k of
        Marked h \<Rightarrow> set_removal k (Retired h) (s\<lparr>ts_barrier := retire h (ts_barrier s)\<rparr>)
      | Retired h \<Rightarrow> set_removal k (CancelEach h (map fst (matching_transfers h s))
          (map (te_control \<circ> snd) (matching_transfers h s))) s
      | CancelEach h [] controls \<Rightarrow> set_removal k (Waiting h controls) s
      | CancelEach h (job_id # ids) controls \<Rightarrow> set_removal k (CancelEach h ids controls) (snd (cancel_transfer job_id now s))
      | Waiting h controls \<Rightarrow>
          if timed_out then set_removal k GaveUp s
          else (case controls of
             c # cs \<Rightarrow> if tc_finished (ts_controls s ! c) then set_removal k (Waiting h cs) s else s
           | [] \<Rightarrow> if idle_check h (ts_barrier s) then set_removal k (Purging h) s else s)
      | Purging h \<Rightarrow> set_removal k (Removed h)
          (s\<lparr>ts_entries := filter (\<lambda>p. tj_host_id (te_job (snd p)) \<noteq> h) (ts_entries s)\<rparr>)
      | _ \<Rightarrow> s)"

definition restore_transfers :: "string \<Rightarrow> transfers \<Rightarrow> transfers" where
  "restore_transfers host_id s =
     s\<lparr>ts_retired := removeAll host_id (ts_retired s), ts_barrier := restore host_id (ts_barrier s)\<rparr>"

section \<open>Histories\<close>

text \<open>
  What can happen next.  A start or a retry carries the saved profile that was found and the
  operation that was checked; \<open>BeginDirect\<close> and \<open>EndDirect\<close> are the leases that the listing, renaming
  and deleting of files take while they run, of which there are never 2 to the 64 at once.  A host is
  restored when a deletion aborts, so not while a removal of it is under way.
\<close>

datatype transfer_move =
    StartTransfer string nat host_profile transfer_operation
  | CancelTransfer string nat
  | DeliverCancel nat
  | RetryTransfer string nat host_profile
  | AttemptTurn nat nat "transfer_outcome app_result"
  | RemoveHost string
  | RemovalTurn nat nat bool
  | RestoreHost string
  | BeginDirect string
  | EndDirect string

fun removal_of :: "removal \<Rightarrow> string option" where
  "removal_of (Marked h) = Some h"
| "removal_of (Retired h) = Some h"
| "removal_of (CancelEach h _ _) = Some h"
| "removal_of (Waiting h _) = Some h"
| "removal_of (Purging h) = Some h"
| "removal_of _ = None"

fun transfer_step :: "(string \<Rightarrow> bool) \<Rightarrow> transfer_move \<Rightarrow> transfers \<Rightarrow> transfers" where
  "transfer_step is_absolute (StartTransfer job_id now host operation) s =
     (if map_of (ts_entries s) job_id = None then snd (start_registered job_id now host operation s) else s)"
| "transfer_step is_absolute (CancelTransfer job_id now) s = snd (cancel_transfer job_id now s)"
| "transfer_step is_absolute (DeliverCancel i) s = (if i < length (ts_cancels s) then deliver_cancel i s else s)"
| "transfer_step is_absolute (RetryTransfer job_id now host) s = snd (retry_registered is_absolute job_id now host s)"
| "transfer_step is_absolute (AttemptTurn i now result) s = (if i < length (ts_attempts s) then attempt_turn i now result s else s)"
| "transfer_step is_absolute (RemoveHost h) s = begin_removal h s"
| "transfer_step is_absolute (RemovalTurn k now timed_out) s =
     (if k < length (ts_removals s) then removal_turn k now timed_out s else s)"
| "transfer_step is_absolute (RestoreHost h) s =
     (if list_ex (\<lambda>r. removal_of r = Some h) (ts_removals s) then s else restore_transfers h s)"
| "transfer_step is_absolute (BeginDirect h) s =
     (if length (ts_direct s) + MAX_ACTIVE_TRANSFERS \<ge> u64_max then s
      else case begin_host_operation h (ts_barrier s) of
        (Inr _, b) \<Rightarrow> s\<lparr>ts_barrier := b, ts_direct := h # ts_direct s\<rparr>
      | (Inl _, b) \<Rightarrow> s\<lparr>ts_barrier := b\<rparr>)"
| "transfer_step is_absolute (EndDirect h) s =
     (if h \<in> set (ts_direct s) then s\<lparr>ts_barrier := end_lease h (ts_barrier s), ts_direct := remove1 h (ts_direct s)\<rparr> else s)"

definition run_transfers :: "(string \<Rightarrow> bool) \<Rightarrow> transfer_move list \<Rightarrow> transfers \<Rightarrow> transfers" where
  "run_transfers is_absolute steps s = fold (transfer_step is_absolute) steps s"

end
