(* ===== verification/TransfersInv.thy ===== *)
theory TransfersInv
  imports Transfers
begin

text \<open>
  The invariant of the registry of transfers of \<^verbatim>\<open>sftp.rs\<close> over all interleavings of its callers, its
  attempts and its removals.
\<close>

section \<open>Pruning\<close>

interpretation transfer_retention: retention "\<lambda>es. length es \<ge> MAX_RETAINED_TRANSFERS" is_terminal_transfer
    "\<lambda>e. tj_created_at (te_job e)" 511
proof
  fix es
  assume over: "MAX_RETAINED_TRANSFERS \<le> length es" and few: "count_where (\<lambda>p. \<not> is_terminal_transfer p) es \<le> 511"
  show "\<exists>p \<in> set es. is_terminal_transfer p"
  proof (rule ccontr)
    assume "\<not> (\<exists>p \<in> set es. is_terminal_transfer p)"
    then have "filter (\<lambda>p. \<not> is_terminal_transfer p) es = es" by (intro filter_True) blast
    then show False using few over by (simp add: count_where_def MAX_RETAINED_TRANSFERS_def)
  qed
qed

lemma prune_transfers_within:
  "live_transfers es \<le> MAX_ACTIVE_TRANSFERS \<Longrightarrow>
     length (prune_terminal_transfers es MAX_RETAINED_TRANSFERS) < MAX_RETAINED_TRANSFERS"
  using transfer_retention.prune_within[of es]
  by (simp add: live_transfers_def MAX_ACTIVE_TRANSFERS_def prune_terminal_transfers_def)

lemma keys_ok_prune_transfers: "keys_ok es \<Longrightarrow> keys_ok (prune_terminal_transfers es n)"
  by (simp add: prune_terminal_transfers_def keys_ok_prune)

lemma prune_transfers_map_of:
  "keys_ok es \<Longrightarrow> map_of (prune_terminal_transfers es n) k = Some e \<Longrightarrow> map_of es k = Some e"
  unfolding prune_terminal_transfers_def by (rule prune_map_of)

lemma prune_transfers_live:
  "keys_ok es \<Longrightarrow> map_of es k = Some e \<Longrightarrow> \<not> transfer_state_is_terminal (tj_state (te_job e)) \<Longrightarrow>
     map_of (prune_terminal_transfers es n) k = Some e"
  using prune_keeps[of es "(k, e)" is_terminal_transfer "\<lambda>es. length es \<ge> n" "\<lambda>e. tj_created_at (te_job e)"]
    keys_ok_prune_transfers[of es n]
  by (simp add: in_set_map_of is_terminal_transfer_def flip: prune_terminal_transfers_def)

lemma live_transfers_prune: "live_transfers (prune_terminal_transfers es n) \<le> live_transfers es"
  by (simp add: live_transfers_def prune_terminal_transfers_def count_where_prune)

section \<open>The invariant\<close>

text \<open>The job of an attempt that is not over, and the control it holds.\<close>

fun attempt_job :: "attempt \<Rightarrow> string option" where
  "attempt_job (Spawned j) = Some j"
| "attempt_job (Admitted j c h op) = Some j"
| "attempt_job (Working j c h op) = Some j"
| "attempt_job (Concluding j c r) = Some j"
| "attempt_job _ = None"

definition waits :: "transfer_entry \<Rightarrow> bool" where
  "waits e \<longleftrightarrow> tj_state (te_job e) \<in> {TfQueued, TfCancelling}"

definition runs :: "transfer_entry \<Rightarrow> bool" where
  "runs e \<longleftrightarrow> tj_state (te_job e) \<in> {TfRunning, TfCancelling}"

definition is_live :: "transfer_entry \<Rightarrow> bool" where
  "is_live e \<longleftrightarrow> \<not> transfer_state_is_terminal (tj_state (te_job e))"

fun attempt_fits :: "attempt \<Rightarrow> transfer_entry \<Rightarrow> bool" where
  "attempt_fits (Spawned j) e \<longleftrightarrow> waits e"
| "attempt_fits (Admitted j c h op) e \<longleftrightarrow> runs e \<and> te_control e = c \<and> te_host e = h"
| "attempt_fits (Working j c h op) e \<longleftrightarrow> runs e \<and> te_control e = c \<and> te_host e = h"
| "attempt_fits (Concluding j c r) e \<longleftrightarrow> runs e \<and> te_control e = c"
| "attempt_fits _ e \<longleftrightarrow> True"

text \<open>Every attempt that is not over has an entry that fits, every live entry exactly one attempt.\<close>

definition attempts_ok :: "transfers \<Rightarrow> bool" where
  "attempts_ok s \<longleftrightarrow> keys_ok (ts_entries s)
     \<and> (\<forall>i j. i < length (ts_attempts s) \<longrightarrow> attempt_job (ts_attempts s ! i) = Some j \<longrightarrow>
          (\<exists>e. map_of (ts_entries s) j = Some e \<and> attempt_fits (ts_attempts s ! i) e))
     \<and> (\<forall>i i' j. i < length (ts_attempts s) \<longrightarrow> i' < length (ts_attempts s) \<longrightarrow>
          attempt_job (ts_attempts s ! i) = Some j \<longrightarrow> attempt_job (ts_attempts s ! i') = Some j \<longrightarrow> i = i')
     \<and> (\<forall>j e. map_of (ts_entries s) j = Some e \<longrightarrow> is_live e \<longrightarrow>
          (\<exists>i < length (ts_attempts s). attempt_job (ts_attempts s ! i) = Some j))"

text \<open>
  Controls: each entry has its own; that of a live entry is not finished and no attempt is about to
  finish it; a control that was cancelled, or is about to be, is not that of a job that could start.
\<close>

definition startable :: "transfer_entry \<Rightarrow> bool" where
  "startable e \<longleftrightarrow> tj_state (te_job e) \<in> {TfQueued, TfRunning}"

definition controls_ok :: "transfers \<Rightarrow> bool" where
  "controls_ok s \<longleftrightarrow>
     (\<forall>j e. map_of (ts_entries s) j = Some e \<longrightarrow> te_control e < length (ts_controls s))
     \<and> (\<forall>j j' e e'. map_of (ts_entries s) j = Some e \<longrightarrow> map_of (ts_entries s) j' = Some e' \<longrightarrow>
          te_control e = te_control e' \<longrightarrow> j = j')
     \<and> (\<forall>j e. map_of (ts_entries s) j = Some e \<longrightarrow> is_live e \<longrightarrow>
          \<not> tc_finished (ts_controls s ! te_control e) \<and> Closing (te_control e) \<notin> set (ts_attempts s))
     \<and> (\<forall>j e. map_of (ts_entries s) j = Some e \<longrightarrow> startable e \<longrightarrow>
          \<not> tc_cancelled (ts_controls s ! te_control e) \<and> te_control e \<notin> fst ` set (ts_cancels s))
     \<and> (\<forall>c \<in> fst ` set (ts_cancels s). c < length (ts_controls s))
     \<and> (\<forall>c. Closing c \<in> set (ts_attempts s) \<longrightarrow> c < length (ts_controls s))"

definition hosts_ok :: "transfers \<Rightarrow> bool" where
  "hosts_ok s \<longleftrightarrow> (\<forall>j e. map_of (ts_entries s) j = Some e \<longrightarrow>
     hp_id (te_host e) = tj_host_id (te_job e) \<and> tj_id (te_job e) = j)"

definition transfers_bounded :: "transfers \<Rightarrow> bool" where
  "transfers_bounded s \<longleftrightarrow> live_transfers (ts_entries s) \<le> MAX_ACTIVE_TRANSFERS
     \<and> length (ts_entries s) \<le> MAX_RETAINED_TRANSFERS"

section \<open>Attempts and entries\<close>

lemma attempts_okD:
  assumes "attempts_ok s"
  shows "keys_ok (ts_entries s)"
    and "i < length (ts_attempts s) \<Longrightarrow> attempt_job (ts_attempts s ! i) = Some j \<Longrightarrow>
      \<exists>e. map_of (ts_entries s) j = Some e \<and> attempt_fits (ts_attempts s ! i) e"
    and "i < length (ts_attempts s) \<Longrightarrow> i' < length (ts_attempts s) \<Longrightarrow> attempt_job (ts_attempts s ! i) = Some j \<Longrightarrow>
      attempt_job (ts_attempts s ! i') = Some j \<Longrightarrow> i = i'"
    and "map_of (ts_entries s) j = Some e \<Longrightarrow> is_live e \<Longrightarrow>
      \<exists>i < length (ts_attempts s). attempt_job (ts_attempts s ! i) = Some j"
  using assms unfolding attempts_ok_def by blast+

lemma fits_live: "attempt_fits a e \<Longrightarrow> attempt_job a \<noteq> None \<Longrightarrow> is_live e"
  by (cases a) (auto simp: waits_def runs_def is_live_def)

text \<open>The attempt \<open>i\<close> of the job \<open>j\<close> and the entry of that job change together.\<close>

lemma attempts_ok_turn:
  assumes ok: "attempts_ok s" and i: "i < length (ts_attempts s)" "attempt_job (ts_attempts s ! i) = Some j"
    and keys: "keys_ok (ts_entries s')" and entries: "map_of (ts_entries s') = (map_of (ts_entries s))(j \<mapsto> e')"
    and attempts: "ts_attempts s' = (ts_attempts s)[i := a]"
    and new: "attempt_job a = Some j \<and> attempt_fits a e' \<or> attempt_job a = None \<and> \<not> is_live e'"
  shows "attempts_ok s'"
  unfolding attempts_ok_def
proof (intro conjI allI impI)
  show "keys_ok (ts_entries s')" by (rule keys)
next
  fix n k
  assume n: "n < length (ts_attempts s')" "attempt_job (ts_attempts s' ! n) = Some k"
  show "\<exists>e. map_of (ts_entries s') k = Some e \<and> attempt_fits (ts_attempts s' ! n) e"
  proof (cases "n = i")
    case True
    then show ?thesis using n i new attempts entries by auto
  next
    case False
    then have m: "n < length (ts_attempts s)" "attempt_job (ts_attempts s ! n) = Some k" "ts_attempts s' ! n = ts_attempts s ! n"
      using n attempts by auto
    then have "k \<noteq> j" using attempts_okD(3)[OF ok m(1) i(1) m(2)] i(2) False by auto
    then show ?thesis using attempts_okD(2)[OF ok m(1,2)] m(3) entries by simp
  qed
next
  fix n n' k
  assume n: "n < length (ts_attempts s')" "n' < length (ts_attempts s')" "attempt_job (ts_attempts s' ! n) = Some k"
      "attempt_job (ts_attempts s' ! n') = Some k"
  have job: "attempt_job (ts_attempts s ! m) = Some k" if "m < length (ts_attempts s')" "attempt_job (ts_attempts s' ! m) = Some k" for m
    using that attempts new i by (cases "m = i") auto
  show "n = n'" using attempts_okD(3)[OF ok] job[OF n(1,3)] job[OF n(2,4)] n(1,2) attempts by auto
next
  fix k e
  assume k: "map_of (ts_entries s') k = Some e" "is_live e"
  show "\<exists>n < length (ts_attempts s'). attempt_job (ts_attempts s' ! n) = Some k"
  proof (cases "k = j")
    case True
    then show ?thesis using k entries new attempts i by (intro exI[of _ i]) auto
  next
    case False
    then obtain n where n: "n < length (ts_attempts s)" "attempt_job (ts_attempts s ! n) = Some k"
      using attempts_okD(4)[OF ok] k entries by auto
    then have "n \<noteq> i" using i False by auto
    then show ?thesis using n attempts by (intro exI[of _ n]) auto
  qed
qed

text \<open>Only the entry of the job \<open>j\<close> changes.\<close>

lemma attempts_ok_entry:
  assumes ok: "attempts_ok s" and keys: "keys_ok (ts_entries s')"
    and entries: "map_of (ts_entries s') = (map_of (ts_entries s))(j \<mapsto> e')" and old: "map_of (ts_entries s) j = Some e"
    and attempts: "ts_attempts s' = ts_attempts s"
    and fit: "\<And>a. attempt_fits a e \<Longrightarrow> attempt_job a = Some j \<Longrightarrow> attempt_fits a e'" and live: "is_live e' \<Longrightarrow> is_live e"
  shows "attempts_ok s'"
  unfolding attempts_ok_def attempts
proof (intro conjI allI impI)
  fix n k
  assume "n < length (ts_attempts s)" "attempt_job (ts_attempts s ! n) = Some k"
  with attempts_okD(2)[OF ok this] fit old show "\<exists>e. map_of (ts_entries s') k = Some e \<and> attempt_fits (ts_attempts s ! n) e"
    unfolding entries by (cases "k = j") auto
next
  fix k x
  assume "map_of (ts_entries s') k = Some x" "is_live x"
  then show "\<exists>n < length (ts_attempts s). attempt_job (ts_attempts s ! n) = Some k"
    using attempts_okD(4)[OF ok] old live unfolding entries by (cases "k = j") auto
qed (use keys attempts_okD(3)[OF ok] in blast)+

text \<open>Entries that are not live go.\<close>

lemma attempts_ok_shrink:
  assumes ok: "attempts_ok s" and keys: "keys_ok (ts_entries s')" and attempts: "ts_attempts s' = ts_attempts s"
    and sub: "\<And>k e. map_of (ts_entries s') k = Some e \<Longrightarrow> map_of (ts_entries s) k = Some e"
    and live: "\<And>k e. map_of (ts_entries s) k = Some e \<Longrightarrow> is_live e \<Longrightarrow> map_of (ts_entries s') k = Some e"
  shows "attempts_ok s'"
  unfolding attempts_ok_def attempts
proof (intro conjI allI impI)
  fix n k
  assume n: "n < length (ts_attempts s)" "attempt_job (ts_attempts s ! n) = Some k"
  from attempts_okD(2)[OF ok this] obtain e where "map_of (ts_entries s) k = Some e" "attempt_fits (ts_attempts s ! n) e" by blast
  with live fits_live n show "\<exists>e. map_of (ts_entries s') k = Some e \<and> attempt_fits (ts_attempts s ! n) e" by (metis option.distinct(1))
next
  fix k x
  assume "map_of (ts_entries s') k = Some x" "is_live x"
  then show "\<exists>n < length (ts_attempts s). attempt_job (ts_attempts s ! n) = Some k"
    using attempts_okD(4)[OF ok] sub by blast
qed (use keys attempts_okD(3)[OF ok] in blast)+

text \<open>A job that was not live is queued and gets an attempt.\<close>

lemma attempts_ok_spawn:
  assumes ok: "attempts_ok s" and keys: "keys_ok (ts_entries s')"
    and entries: "map_of (ts_entries s') = (map_of (ts_entries s))(j \<mapsto> e')"
    and attempts: "ts_attempts s' = ts_attempts s @ [Spawned j]"
    and old: "\<forall>e. map_of (ts_entries s) j = Some e \<longrightarrow> \<not> is_live e" and new: "waits e'"
  shows "attempts_ok s'"
proof -
  have none: "attempt_job (ts_attempts s ! n) \<noteq> Some j" if "n < length (ts_attempts s)" for n
    using attempts_okD(2)[OF ok that, of j] old fits_live[of "ts_attempts s ! n"] by auto
  show ?thesis
    unfolding attempts_ok_def
  proof (intro conjI allI impI)
    show "keys_ok (ts_entries s')" by (rule keys)
  next
    fix n k
    assume n: "n < length (ts_attempts s')" "attempt_job (ts_attempts s' ! n) = Some k"
    show "\<exists>e. map_of (ts_entries s') k = Some e \<and> attempt_fits (ts_attempts s' ! n) e"
    proof (cases "n < length (ts_attempts s)")
      case True
      then have m: "attempt_job (ts_attempts s ! n) = Some k" "ts_attempts s' ! n = ts_attempts s ! n"
        using n attempts by (auto simp: nth_append)
      with none[OF True] attempts_okD(2)[OF ok True] show ?thesis unfolding entries by auto
    next
      case False
      then show ?thesis using n attempts entries new by (auto simp: nth_append less_Suc_eq)
    qed
  next
    fix n n' k
    assume n: "n < length (ts_attempts s')" "n' < length (ts_attempts s')" "attempt_job (ts_attempts s' ! n) = Some k"
        "attempt_job (ts_attempts s' ! n') = Some k"
    then show "n = n'"
      using attempts_okD(3)[OF ok, of n n' k] none attempts by (auto simp: nth_append less_Suc_eq split: if_splits)
  next
    fix k x
    assume k: "map_of (ts_entries s') k = Some x" "is_live x"
    show "\<exists>n < length (ts_attempts s'). attempt_job (ts_attempts s' ! n) = Some k"
    proof (cases "k = j")
      case True
      then show ?thesis using attempts by (intro exI[of _ "length (ts_attempts s)"]) auto
    next
      case False
      then obtain n where "n < length (ts_attempts s)" "attempt_job (ts_attempts s ! n) = Some k"
        using attempts_okD(4)[OF ok] k unfolding entries by auto
      then show ?thesis using attempts by (intro exI[of _ n]) (auto simp: nth_append)
    qed
  qed
qed

section \<open>What a step does to the entries\<close>

text \<open>The edges on which a job moves; cancelling can lose against the end of the transfer.\<close>

fun state_edge :: "transfer_state \<Rightarrow> transfer_state \<Rightarrow> bool" where
  "state_edge TfQueued t \<longleftrightarrow> t \<in> {TfRunning, TfCancelling}"
| "state_edge TfRunning t \<longleftrightarrow> t \<in> {TfCancelling, TfCompleted, TfFailed, TfCancelled}"
| "state_edge TfCancelling t \<longleftrightarrow> t \<in> {TfCancelled, TfCompleted, TfFailed}"
| "state_edge TfCompleted t \<longleftrightarrow> False"
| "state_edge TfCancelled t \<longleftrightarrow> t = TfQueued"
| "state_edge TfFailed t \<longleftrightarrow> t = TfQueued"

definition revised :: "transfer_entry \<Rightarrow> transfer_entry \<Rightarrow> bool" where
  "revised e e' \<longleftrightarrow> tj_id (te_job e') = tj_id (te_job e) \<and> tj_host_id (te_job e') = tj_host_id (te_job e)
     \<and> te_operation e' = te_operation e \<and> tj_created_at (te_job e') = tj_created_at (te_job e)
     \<and> tj_revision (te_job e') = saturating_add64 (tj_revision (te_job e)) 1
     \<and> state_edge (tj_state (te_job e)) (tj_state (te_job e'))"

definition fresh_control :: transfer_control where
  "fresh_control = \<lparr>tc_cancelled = False, tc_finished = False\<rparr>"

definition same_work :: "transfers \<Rightarrow> transfers \<Rightarrow> bool" where
  "same_work s s' \<longleftrightarrow> ts_attempts s' = ts_attempts s \<and> ts_controls s' = ts_controls s \<and> ts_cancels s' = ts_cancels s
     \<and> ts_events s' = ts_events s"

inductive transfer_effect :: "transfers \<Rightarrow> transfers \<Rightarrow> bool" where
  Quiet: "same_work s s' \<Longrightarrow> ts_entries s' = ts_entries s \<Longrightarrow> transfer_effect s s'"
| Pruned: "same_work s s' \<Longrightarrow> ts_entries s' = prune_terminal_transfers (ts_entries s) MAX_RETAINED_TRANSFERS \<Longrightarrow>
    transfer_effect s s'"
| Started: "map_of (ts_entries s) j = None \<Longrightarrow>
    ts_entries s' = put j e (prune_terminal_transfers (ts_entries s) MAX_RETAINED_TRANSFERS) \<Longrightarrow>
    live_transfers (prune_terminal_transfers (ts_entries s) MAX_RETAINED_TRANSFERS) < MAX_ACTIVE_TRANSFERS \<Longrightarrow>
    te_job e = new_transfer_job j (te_host e) (te_operation e) now \<Longrightarrow> hp_id (te_host e) \<notin> set (ts_retired s) \<Longrightarrow>
    te_control e = length (ts_controls s) \<Longrightarrow> ts_controls s' = ts_controls s @ [fresh_control] \<Longrightarrow>
    ts_attempts s' = ts_attempts s @ [Spawned j] \<Longrightarrow> ts_cancels s' = ts_cancels s \<Longrightarrow>
    ts_events s' = ts_events s @ [te_job e] \<Longrightarrow> transfer_effect s s'"
| Retried: "map_of (ts_entries s) j = Some e \<Longrightarrow> ts_entries s' = put j e' (ts_entries s) \<Longrightarrow> revised e e' \<Longrightarrow>
    tj_state (te_job e') = TfQueued \<Longrightarrow> tj_host_id (te_job e) \<notin> set (ts_retired s) \<Longrightarrow>
    hp_id (te_host e') = tj_host_id (te_job e) \<Longrightarrow>
    count_where (\<lambda>p. fst p \<noteq> j \<and> \<not> is_terminal_transfer p) (ts_entries s) < MAX_ACTIVE_TRANSFERS \<Longrightarrow>
    te_control e' = length (ts_controls s) \<Longrightarrow> ts_controls s' = ts_controls s @ [fresh_control] \<Longrightarrow>
    ts_attempts s' = ts_attempts s @ [Spawned j] \<Longrightarrow> ts_cancels s' = ts_cancels s \<Longrightarrow>
    ts_events s' = ts_events s @ [te_job e'] \<Longrightarrow> transfer_effect s s'"
| CancelBegun: "map_of (ts_entries s) j = Some e \<Longrightarrow> ts_entries s' = put j e' (ts_entries s) \<Longrightarrow> revised e e' \<Longrightarrow>
    startable e \<Longrightarrow> tj_state (te_job e') = TfCancelling \<Longrightarrow> te_control e' = te_control e \<Longrightarrow> te_host e' = te_host e \<Longrightarrow>
    ts_attempts s' = ts_attempts s \<Longrightarrow> ts_controls s' = ts_controls s \<Longrightarrow>
    ts_cancels s' = ts_cancels s @ [(te_control e, te_job e')] \<Longrightarrow> ts_events s' = ts_events s \<Longrightarrow> transfer_effect s s'"
| Delivered: "ts_entries s' = ts_entries s \<Longrightarrow> ts_attempts s' = ts_attempts s \<Longrightarrow> (c, job) \<in> set (ts_cancels s) \<Longrightarrow>
    set (ts_cancels s') \<subseteq> set (ts_cancels s) \<Longrightarrow>
    ts_controls s' = (ts_controls s)[c := (ts_controls s ! c)\<lparr>tc_cancelled := True\<rparr>] \<Longrightarrow>
    ts_events s' = ts_events s @ [job] \<Longrightarrow> transfer_effect s s'"
| Turned: "i < length (ts_attempts s) \<Longrightarrow> attempt_job (ts_attempts s ! i) = Some j \<Longrightarrow> map_of (ts_entries s) j = Some e \<Longrightarrow>
    ts_entries s' = put j e' (ts_entries s) \<Longrightarrow> revised e e' \<Longrightarrow> te_control e' = te_control e \<Longrightarrow> te_host e' = te_host e \<Longrightarrow>
    ts_attempts s' = (ts_attempts s)[i := a] \<Longrightarrow>
    a = Admitted j (te_control e) (te_host e) (te_operation e) \<and> tj_state (te_job e') = TfRunning
      \<or> a = Closing (te_control e) \<and> \<not> is_live e' \<Longrightarrow>
    ts_controls s' = ts_controls s \<Longrightarrow> ts_cancels s' = ts_cancels s \<Longrightarrow> ts_events s' = ts_events s @ [te_job e'] \<Longrightarrow>
    transfer_effect s s'"
| Moved: "i < length (ts_attempts s) \<Longrightarrow> attempt_job (ts_attempts s ! i) = Some j \<Longrightarrow> map_of (ts_entries s) j = Some e \<Longrightarrow>
    attempt_job a = Some j \<Longrightarrow> attempt_fits a e \<Longrightarrow> ts_entries s' = ts_entries s \<Longrightarrow> ts_attempts s' = (ts_attempts s)[i := a] \<Longrightarrow>
    ts_controls s' = ts_controls s \<Longrightarrow> ts_cancels s' = ts_cancels s \<Longrightarrow> ts_events s' = ts_events s \<Longrightarrow> transfer_effect s s'"
| Closed: "i < length (ts_attempts s) \<Longrightarrow> ts_attempts s ! i = Closing c \<Longrightarrow> ts_entries s' = ts_entries s \<Longrightarrow>
    ts_attempts s' = (ts_attempts s)[i := Over] \<Longrightarrow>
    ts_controls s' = (ts_controls s)[c := (ts_controls s ! c)\<lparr>tc_finished := True\<rparr>] \<Longrightarrow>
    ts_cancels s' = ts_cancels s \<Longrightarrow> ts_events s' = ts_events s \<Longrightarrow> transfer_effect s s'"
| Purged: "same_work s s' \<Longrightarrow> Purging h \<in> set (ts_removals s) \<Longrightarrow>
    ts_entries s' = filter (\<lambda>p. tj_host_id (te_job (snd p)) \<noteq> h) (ts_entries s) \<Longrightarrow> transfer_effect s s'"

lemmas transition_simps = transition_def if_Inl_Inr_iff

lemma cancel_effect:
  assumes "cancel_transfer j now s = (r, s')"
  shows "transfer_effect s s' \<and> ts_barrier s' = ts_barrier s \<and> ts_retired s' = ts_retired s \<and> ts_removals s' = ts_removals s
    \<and> ts_direct s' = ts_direct s"
proof (cases "map_of (ts_entries s) j")
  case None
  with assms show ?thesis by (auto simp: cancel_transfer_def same_work_def intro: Quiet)
next
  case (Some e)
  show ?thesis
  proof (cases "tj_state (te_job e) \<in> {TfQueued, TfRunning}")
    case False
    with assms Some show ?thesis by (auto simp: cancel_transfer_def same_work_def intro: Quiet)
  next
    case True
    let ?job = "revise_transfer_job ((te_job e)\<lparr>tj_state := TfCancelling, tj_updated_at := now\<rparr>)"
    have s': "s' = s\<lparr>ts_entries := put j (e\<lparr>te_job := ?job\<rparr>) (ts_entries s), ts_cancels := ts_cancels s @ [(te_control e, ?job)]\<rparr>"
      using assms Some True by (auto simp: cancel_transfer_def transition_def Let_def)
    have "revised e (e\<lparr>te_job := ?job\<rparr>)" using True by (auto simp: revised_def revise_transfer_job_def)
    with CancelBegun[OF Some, of s' "e\<lparr>te_job := ?job\<rparr>"] True show ?thesis
      unfolding s' by (auto simp: startable_def revise_transfer_job_def)
  qed
qed

lemma record_simps [simp]:
  "ts_entries (set_attempt i a s) = ts_entries s" "ts_attempts (set_attempt i a s) = (ts_attempts s)[i := a]"
  "ts_controls (set_attempt i a s) = ts_controls s" "ts_cancels (set_attempt i a s) = ts_cancels s"
  "ts_events (set_attempt i a s) = ts_events s" "ts_barrier (set_attempt i a s) = ts_barrier s"
  "ts_retired (set_attempt i a s) = ts_retired s" "ts_removals (set_attempt i a s) = ts_removals s"
  "ts_direct (set_attempt i a s) = ts_direct s"
  "ts_entries (record_job j e job s) = put j (e\<lparr>te_job := job\<rparr>) (ts_entries s)" "ts_attempts (record_job j e job s) = ts_attempts s"
  "ts_controls (record_job j e job s) = ts_controls s" "ts_cancels (record_job j e job s) = ts_cancels s"
  "ts_events (record_job j e job s) = ts_events s @ [job]" "ts_barrier (record_job j e job s) = ts_barrier s"
  "ts_retired (record_job j e job s) = ts_retired s" "ts_removals (record_job j e job s) = ts_removals s"
  "ts_direct (record_job j e job s) = ts_direct s"
  by (simp_all add: set_attempt_def record_job_def emit_def)

lemma spawn_simps [simp]:
  "ts_entries (spawn_attempt j (emit job (new_control s))) = ts_entries s"
  "ts_attempts (spawn_attempt j (emit job (new_control s))) = ts_attempts s @ [Spawned j]"
  "ts_controls (spawn_attempt j (emit job (new_control s))) = ts_controls s @ [fresh_control]"
  "ts_cancels (spawn_attempt j (emit job (new_control s))) = ts_cancels s"
  "ts_events (spawn_attempt j (emit job (new_control s))) = ts_events s @ [job]"
  "ts_barrier (spawn_attempt j (emit job (new_control s))) = ts_barrier s"
  "ts_retired (spawn_attempt j (emit job (new_control s))) = ts_retired s"
  "ts_removals (spawn_attempt j (emit job (new_control s))) = ts_removals s"
  "ts_direct (spawn_attempt j (emit job (new_control s))) = ts_direct s"
  by (simp_all add: spawn_attempt_def emit_def new_control_def fresh_control_def)

text \<open>The parts that only removals, leases and restorations touch.\<close>

definition same_hosts :: "transfers \<Rightarrow> transfers \<Rightarrow> bool" where
  "same_hosts s s' \<longleftrightarrow> ts_barrier s' = ts_barrier s \<and> ts_retired s' = ts_retired s \<and> ts_removals s' = ts_removals s
     \<and> ts_direct s' = ts_direct s"

lemma start_effect:
  assumes "map_of (ts_entries s) j = None" and "start_registered j now host operation s = (r, s')"
  shows "transfer_effect s s' \<and> same_hosts s s'"
proof (cases "hp_id host \<in> set (ts_retired s)")
  case True
  with assms show ?thesis by (auto simp: start_registered_def same_work_def same_hosts_def intro: Quiet)
next
  case retired: False
  show ?thesis
  proof (cases "live_transfers (prune_terminal_transfers (ts_entries s) MAX_RETAINED_TRANSFERS) \<ge> MAX_ACTIVE_TRANSFERS")
    case True
    with assms retired show ?thesis
      by (auto simp: start_registered_def same_work_def same_hosts_def Let_def intro: Pruned)
  next
    case False
    let ?e = "\<lparr>te_job = new_transfer_job j host operation now, te_host = host, te_operation = operation, te_control = length (ts_controls s)\<rparr>"
    have s': "s' = spawn_attempt j (emit (te_job ?e) (new_control
        (s\<lparr>ts_entries := put j ?e (prune_terminal_transfers (ts_entries s) MAX_RETAINED_TRANSFERS)\<rparr>)))"
      using assms retired False by (auto simp: start_registered_def Let_def)
    have "transfer_effect s s'"
      by (rule Started[OF assms(1), where e = ?e and now = now]) (use s' retired False in simp_all)
    then show ?thesis by (simp add: same_hosts_def s')
  qed
qed

lemma retry_effect:
  assumes hosts: "hosts_ok s" and "retry_registered is_absolute j now host s = (r, s')"
  shows "transfer_effect s s' \<and> same_hosts s s'"
proof (cases "\<exists>e. r = Inr e")
  case False
  with assms(2) have "s' = s" by (auto simp: retry_registered_def split: if_splits option.splits sum.splits)
  then show ?thesis by (auto simp: same_work_def same_hosts_def intro: Quiet)
next
  case True
  then obtain e e' where e: "map_of (ts_entries s) j = Some e" "hp_id host \<notin> set (ts_retired s)"
      "count_where (\<lambda>p. fst p \<noteq> j \<and> \<not> is_terminal_transfer p) (ts_entries s) < MAX_ACTIVE_TRANSFERS"
      "prepare_transfer_retry is_absolute now (length (ts_controls s)) e host = Inr e'"
      "s' = spawn_attempt j (emit (te_job e') (new_control (s\<lparr>ts_entries := put j e' (ts_entries s)\<rparr>)))"
    using assms(2) by (auto simp: retry_registered_def split: if_splits option.splits sum.splits)
  have e': "tj_host_id (te_job e) = hp_id host" "te_host e' = host" "te_control e' = length (ts_controls s)"
      "tj_state (te_job e') = TfQueued" "revised e e'"
    using e(4) by (auto simp: prepare_transfer_retry_def transition_def result_simps revised_def revise_transfer_job_def split: if_splits)
  have "transfer_effect s s'"
    by (rule Retried[OF e(1), where e' = e']) (use e e' in simp_all)
  then show ?thesis by (simp add: same_hosts_def e(5))
qed

lemma deliver_effect:
  assumes "i < length (ts_cancels s)"
  shows "transfer_effect s (deliver_cancel i s) \<and> same_hosts s (deliver_cancel i s)"
proof -
  obtain c job where c: "ts_cancels s ! i = (c, job)" by fastforce
  have s': "deliver_cancel i s = emit job (cancel_control c (s\<lparr>ts_cancels := take i (ts_cancels s) @ drop (Suc i) (ts_cancels s)\<rparr>))"
    using c by (simp add: deliver_cancel_def)
  have "transfer_effect s (deliver_cancel i s)"
    by (rule Delivered[where c = c and job = job])
      (use c assms nth_mem in \<open>fastforce simp: s' emit_def cancel_control_def dest: in_set_takeD in_set_dropD\<close>)+
  then show ?thesis by (simp add: same_hosts_def s' emit_def cancel_control_def)
qed

lemma turn_effect:
  assumes ok: "attempts_ok s" "controls_ok s" and i: "i < length (ts_attempts s)"
  shows "transfer_effect s (attempt_turn i now result s) \<and> ts_retired (attempt_turn i now result s) = ts_retired s
    \<and> ts_removals (attempt_turn i now result s) = ts_removals s \<and> ts_direct (attempt_turn i now result s) = ts_direct s"
proof (cases "attempt_job (ts_attempts s ! i)")
  case None
  then consider c where "ts_attempts s ! i = Closing c" | "ts_attempts s ! i = Over" by (cases "ts_attempts s ! i") auto
  then show ?thesis
  proof cases
    case 1
    then show ?thesis using i by (auto simp: attempt_turn_def intro: Closed)
  qed (auto simp: attempt_turn_def same_work_def intro: Quiet)
next
  case (Some j)
  obtain e where e: "map_of (ts_entries s) j = Some e" "attempt_fits (ts_attempts s ! i) e"
    using attempts_okD(2)[OF ok(1) i Some] by blast
  note turned = Turned[OF i Some e(1)] and moved = Moved[OF i Some e(1)]
  show ?thesis
  proof (cases "ts_attempts s ! i")
    case (Spawned k)
    then have w: "waits e" "k = j" using e(2) Some by simp_all
    show ?thesis
    proof (cases "tc_cancelled (ts_controls s ! te_control e)")
      case True
      then have "\<not> startable e" using ok(2) e(1) unfolding controls_ok_def by blast
      then have st: "tj_state (te_job e) = TfCancelling" using w(1) by (auto simp: waits_def startable_def)
      have "transfer_effect s (attempt_turn i now result s)"
        by (rule turned[where a = "Closing (te_control e)" and
            e' = "e\<lparr>te_job := ended now ((te_job e)\<lparr>tj_state := TfCancelled\<rparr>)\<rparr>"])
          (use Spawned w e True st in \<open>simp_all add: attempt_turn_def begin_attempt_def Let_def revised_def ended_def
             revise_transfer_job_def is_live_def\<close>)
      then show ?thesis using Spawned w e True by (simp add: attempt_turn_def begin_attempt_def Let_def)
    next
      case False
      show ?thesis
      proof (cases "tj_state (te_job e) = TfQueued")
        case True
        have "transfer_effect s (attempt_turn i now result s)"
          by (rule turned[where a = "Admitted j (te_control e) (te_host e) (te_operation e)" and
              e' = "e\<lparr>te_job := revise_transfer_job ((te_job e)\<lparr>tj_state := TfRunning,
                    tj_attempts := min (tj_attempts (te_job e) + 1) (2 ^ 32 - 1), tj_updated_at := now\<rparr>)\<rparr>"])
            (use Spawned w e False True in \<open>simp_all add: attempt_turn_def begin_attempt_def Let_def revised_def
               revise_transfer_job_def transition_def\<close>)
        then show ?thesis using Spawned w e False True by (simp add: attempt_turn_def begin_attempt_def Let_def transition_def)
      next
        case st: False
        then have c: "tj_state (te_job e) = TfCancelling" using w(1) by (auto simp: waits_def)
        obtain err where err: "transition TfCancelling TfRunning = Inl err" by (simp add: transition_def)
        have "transfer_effect s (attempt_turn i now result s)"
          by (rule turned[where a = "Closing (te_control e)" and e' = "e\<lparr>te_job := ended now ((te_job e)\<lparr>tj_state := TfFailed,
               tj_error := Some (app_error_display err)\<rparr>)\<rparr>"])
            (use Spawned w e False c err in \<open>simp_all add: attempt_turn_def begin_attempt_def Let_def revised_def ended_def
               revise_transfer_job_def is_live_def\<close>)
        then show ?thesis using Spawned w e False c err by (simp add: attempt_turn_def begin_attempt_def Let_def)
      qed
    qed
  next
    case (Admitted k c h op)
    obtain r b where b: "begin_host_operation (hp_id h) (ts_barrier s) = (r, b)" by fastforce
    let ?a = "case r of Inr _ \<Rightarrow> Working j c h op | Inl err \<Rightarrow> Concluding j c (Inl err)"
    have "transfer_effect s (attempt_turn i now result s)"
      by (rule moved[where a = ?a]) (use Admitted Some e(2) b in \<open>auto simp: attempt_turn_def split: sum.splits\<close>)
    then show ?thesis using Admitted b by (auto simp: attempt_turn_def split: sum.splits)
  next
    case (Working k c h op)
    have "transfer_effect s (attempt_turn i now result s)"
      by (rule moved[where a = "Concluding j c result"]) (use Working Some e(2) in \<open>auto simp: attempt_turn_def\<close>)
    then show ?thesis using Working by (simp add: attempt_turn_def)
  next
    case (Concluding k c outcome)
    then have w: "runs e" "k = j" "te_control e = c" using e(2) Some by simp_all
    let ?job = "outcome_of_attempt now outcome (te_job e)"
    have "transfer_effect s (attempt_turn i now result s)"
      by (rule turned[where a = "Closing (te_control e)" and e' = "e\<lparr>te_job := ?job\<rparr>"])
        (use Concluding w e in \<open>auto simp: attempt_turn_def revised_def outcome_of_attempt_def ended_def
           revise_transfer_job_def is_live_def runs_def split: sum.splits\<close>)
    then show ?thesis using Concluding w e by (simp add: attempt_turn_def)
  qed (use Some in auto)
qed

lemma transfer_effect_cong:
  assumes "transfer_effect s s'" and "same_work s' t" and "ts_entries t = ts_entries s'"
  shows "transfer_effect s t"
  using assms(1)
proof (cases rule: transfer_effect.cases)
  case (Delivered c job)
  then show ?thesis using assms(2,3) by (intro transfer_effect.Delivered[of t s c job]) (auto simp: same_work_def)
qed (use assms(2,3) in \<open>auto simp: same_work_def intro: transfer_effect.intros\<close>)

lemma removal_effect:
  assumes "k < length (ts_removals s)"
  shows "transfer_effect s (removal_turn k now timed_out s)"
proof (cases "ts_removals s ! k")
  case (CancelEach h ids cs)
  show ?thesis
  proof (cases ids)
    case Nil
    then show ?thesis using CancelEach by (auto simp: removal_turn_def set_removal_def same_work_def intro: Quiet)
  next
    case (Cons j js)
    obtain r t where t: "cancel_transfer j now s = (r, t)" by fastforce
    from transfer_effect_cong[OF conjunct1[OF cancel_effect[OF t]], of "set_removal k (CancelEach h js cs) t"]
    show ?thesis using CancelEach Cons t by (simp add: removal_turn_def set_removal_def same_work_def)
  qed
next
  case (Waiting h cs)
  then show ?thesis by (cases cs) (auto simp: removal_turn_def set_removal_def same_work_def intro: Quiet)
next
  case (Purging h)
  then have "Purging h \<in> set (ts_removals s)" using assms by (metis nth_mem)
  then show ?thesis using Purging by (auto simp: removal_turn_def set_removal_def same_work_def intro: Purged)
qed (auto simp: removal_turn_def set_removal_def same_work_def intro: Quiet)

lemma step_effect:
  assumes "attempts_ok s" and "controls_ok s" and "hosts_ok s"
  shows "transfer_effect s (transfer_step is_absolute m s)"
proof (cases m)
  case (StartTransfer j now host op)
  then show ?thesis using start_effect[of s j now host op] by (cases "start_registered j now host op s") (auto simp: same_work_def intro: Quiet)
next
  case (CancelTransfer j now)
  then show ?thesis using cancel_effect[of j now s] by (cases "cancel_transfer j now s") auto
next
  case (DeliverCancel i)
  then show ?thesis using deliver_effect[of i s] by (auto simp: same_work_def intro: Quiet)
next
  case (RetryTransfer j now host)
  then show ?thesis using retry_effect[OF assms(3), of is_absolute j now host] by (cases "retry_registered is_absolute j now host s") auto
next
  case (AttemptTurn i now result)
  then show ?thesis using turn_effect[OF assms(1,2), of i now result] by (auto simp: same_work_def intro: Quiet)
next
  case (RemovalTurn k now t)
  then show ?thesis using removal_effect[of k s now t] by (auto simp: same_work_def intro: Quiet)
qed (auto simp: begin_removal_def restore_transfers_def same_work_def intro: Quiet split: prod.splits sum.splits)

section \<open>What the invariant keeps\<close>

lemma new_job_simps [simp]:
  "tj_id (new_transfer_job j host op now) = j" "tj_host_id (new_transfer_job j host op now) = hp_id host"
  "tj_state (new_transfer_job j host op now) = TfQueued" "tj_revision (new_transfer_job j host op now) = 1"
  by (simp_all add: new_transfer_job_def Let_def split: prod.splits)

lemma startable_live: "startable e \<Longrightarrow> is_live e"
  by (auto simp: startable_def is_live_def)

lemma fits_cancel:
  "attempt_fits a e \<Longrightarrow> tj_state (te_job e') = TfCancelling \<Longrightarrow> te_control e' = te_control e \<Longrightarrow> te_host e' = te_host e \<Longrightarrow> attempt_fits a e'"
  by (cases a) (auto simp: waits_def runs_def)

lemma is_live_terminal: "is_terminal_transfer (j, e) \<longleftrightarrow> \<not> is_live e"
  by (simp add: is_terminal_transfer_def is_live_def)

lemma prune_is_live:
  "keys_ok es \<Longrightarrow> map_of es k = Some e \<Longrightarrow> is_live e \<Longrightarrow> map_of (prune_terminal_transfers es n) k = Some e"
  by (rule prune_transfers_live) (simp_all add: is_live_def)

lemma attempts_ok_prune:
  assumes ok: "attempts_ok s" and entries: "ts_entries s' = prune_terminal_transfers (ts_entries s) n"
    and attempts: "ts_attempts s' = ts_attempts s"
  shows "attempts_ok s'"
proof (rule attempts_ok_shrink[OF ok _ attempts])
  note keys = attempts_okD(1)[OF ok]
  show "keys_ok (ts_entries s')" unfolding entries by (rule keys_ok_prune_transfers[OF keys])
  show "map_of (ts_entries s') k = Some e \<Longrightarrow> map_of (ts_entries s) k = Some e" for k e
    unfolding entries by (rule prune_transfers_map_of[OF keys])
  show "map_of (ts_entries s) k = Some e \<Longrightarrow> is_live e \<Longrightarrow> map_of (ts_entries s') k = Some e" for k e
    unfolding entries by (rule prune_is_live[OF keys])
qed

text \<open>While the removal of a host purges, the host has no live job.\<close>

definition purges_idle :: "transfers \<Rightarrow> bool" where
  "purges_idle s \<longleftrightarrow> (\<forall>h. Purging h \<in> set (ts_removals s) \<longrightarrow>
     (\<forall>j e. map_of (ts_entries s) j = Some e \<longrightarrow> tj_host_id (te_job e) = h \<longrightarrow> \<not> is_live e))"

lemma attempts_effect:
  assumes ok: "attempts_ok s" and idle: "purges_idle s" and "transfer_effect s s'"
  shows "attempts_ok s'"
  using assms(3)
proof (cases rule: transfer_effect.cases)
  case Quiet
  then show ?thesis using ok by (auto simp: same_work_def attempts_ok_def)
next
  case Pruned
  then show ?thesis by (intro attempts_ok_prune[OF ok]) (simp_all add: same_work_def)
next
  case (Started j e now)
  let ?t = "s\<lparr>ts_entries := prune_terminal_transfers (ts_entries s) MAX_RETAINED_TRANSFERS\<rparr>"
  note keys = attempts_okD(1)[OF ok]
  have t: "attempts_ok ?t"
    by (rule attempts_ok_prune[OF ok]) simp_all
  have none: "map_of (ts_entries ?t) j = None"
    using prune_transfers_map_of[OF keys, of MAX_RETAINED_TRANSFERS j] Started(1) by (cases "map_of (ts_entries ?t) j") auto
  show ?thesis
    by (rule attempts_ok_spawn[OF t, where j = j and e' = e])
      (use Started none keys_ok_put[OF keys_ok_prune_transfers[OF keys]] in
        \<open>auto simp: map_of_put fun_eq_iff waits_def new_transfer_job_def Let_def split: prod.splits\<close>)
next
  case (Retried j e e')
  then have "\<not> is_live e" "waits e'"
    by (cases "tj_state (te_job e)"; auto simp: revised_def is_live_def waits_def)+
  with Retried show ?thesis
    by (intro attempts_ok_spawn[OF ok, where j = j and e' = e'])
      (auto simp: map_of_put fun_eq_iff keys_ok_put attempts_okD(1)[OF ok])
next
  case (CancelBegun j e e')
  show ?thesis
    by (rule attempts_ok_entry[OF ok, where j = j and e' = e' and e = e])
      (use CancelBegun startable_live[OF CancelBegun(4)] fits_cancel[of _ e e'] in
        \<open>simp_all add: map_of_put fun_eq_iff keys_ok_put attempts_okD(1)[OF ok]\<close>)
next
  case (Delivered c job)
  then show ?thesis using ok by (auto simp: attempts_ok_def)
next
  case (Turned i j e e' a)
  have fit: "attempt_job a = Some j \<and> attempt_fits a e' \<or> attempt_job a = None \<and> \<not> is_live e'"
    using Turned(9) Turned(6,7) by (auto simp: runs_def)
  show ?thesis
    by (rule attempts_ok_turn[OF ok Turned(1,2) _ _ Turned(8) fit])
      (use Turned in \<open>auto simp: map_of_put fun_eq_iff keys_ok_put attempts_okD(1)[OF ok]\<close>)
next
  case (Moved i j e a)
  show ?thesis
    by (rule attempts_ok_turn[OF ok Moved(1,2), where e' = e and a = a])
      (use Moved in \<open>auto simp: fun_eq_iff attempts_okD(1)[OF ok]\<close>)
next
  case (Closed i c)
  have jobs: "attempt_job ((ts_attempts s)[i := Over] ! n) = Some j \<longleftrightarrow> attempt_job (ts_attempts s ! n) = Some j"
    if "n < length (ts_attempts s)" for n j
    using Closed(1,2) that by (cases "n = i") auto
  have same: "(ts_attempts s)[i := Over] ! n = ts_attempts s ! n" if "n < length (ts_attempts s)" "attempt_job (ts_attempts s ! n) = Some j" for n j
    using Closed(1,2) that by (cases "n = i") auto
  show ?thesis
    unfolding attempts_ok_def Closed(3,4) length_list_update
  proof (intro conjI allI impI)
    fix n j
    assume n: "n < length (ts_attempts s)" "attempt_job ((ts_attempts s)[i := Over] ! n) = Some j"
    then have j: "attempt_job (ts_attempts s ! n) = Some j" using jobs by blast
    from attempts_okD(2)[OF ok n(1) j] same[OF n(1) j]
    show "\<exists>e. map_of (ts_entries s) j = Some e \<and> attempt_fits ((ts_attempts s)[i := Over] ! n) e" by simp
  next
    fix n n' j
    assume "n < length (ts_attempts s)" "n' < length (ts_attempts s)" "attempt_job ((ts_attempts s)[i := Over] ! n) = Some j"
      "attempt_job ((ts_attempts s)[i := Over] ! n') = Some j"
    then show "n = n'" using attempts_okD(3)[OF ok] jobs by blast
  next
    fix j e
    assume "map_of (ts_entries s) j = Some e" "is_live e"
    from attempts_okD(4)[OF ok this] jobs
    show "\<exists>n < length (ts_attempts s). attempt_job ((ts_attempts s)[i := Over] ! n) = Some j" by blast
  qed (rule attempts_okD(1)[OF ok])
next
  case (Purged h)
  have keys: "keys_ok (ts_entries s)" using attempts_okD(1)[OF ok] .
  have filtered: "map_of (ts_entries s') k = (case map_of (ts_entries s) k of None \<Rightarrow> None
      | Some e \<Rightarrow> if tj_host_id (te_job e) \<noteq> h then Some e else None)" for k
    by (simp add: Purged(3) map_of_filter_keys[OF keys] split: option.split)
  show ?thesis
  proof (rule attempts_ok_shrink[OF ok])
    show "keys_ok (ts_entries s')" unfolding Purged(3) by (rule keys_ok_filter[OF keys])
    show "ts_attempts s' = ts_attempts s" using Purged(1) by (simp add: same_work_def)
    show "map_of (ts_entries s) k = Some e" if "map_of (ts_entries s') k = Some e" for k e
      using that by (auto simp: filtered split: option.splits if_splits)
    show "map_of (ts_entries s') k = Some e" if "map_of (ts_entries s) k = Some e" "is_live e" for k e
      using that idle Purged(2) by (auto simp: filtered purges_idle_def)
  qed
qed

lemma controls_okD:
  assumes "controls_ok s"
  shows "map_of (ts_entries s) j = Some e \<Longrightarrow> te_control e < length (ts_controls s)"
    and "map_of (ts_entries s) j = Some e \<Longrightarrow> map_of (ts_entries s) j' = Some e' \<Longrightarrow> te_control e = te_control e' \<Longrightarrow> j = j'"
    and "map_of (ts_entries s) j = Some e \<Longrightarrow> is_live e \<Longrightarrow> \<not> tc_finished (ts_controls s ! te_control e)"
    and "map_of (ts_entries s) j = Some e \<Longrightarrow> is_live e \<Longrightarrow> Closing (te_control e) \<notin> set (ts_attempts s)"
    and "map_of (ts_entries s) j = Some e \<Longrightarrow> startable e \<Longrightarrow> \<not> tc_cancelled (ts_controls s ! te_control e)"
    and "map_of (ts_entries s) j = Some e \<Longrightarrow> startable e \<Longrightarrow> te_control e \<notin> fst ` set (ts_cancels s)"
    and "c \<in> fst ` set (ts_cancels s) \<Longrightarrow> c < length (ts_controls s)"
    and "Closing c \<in> set (ts_attempts s) \<Longrightarrow> c < length (ts_controls s)"
proof -
  note c = assms[unfolded controls_ok_def]
  show "map_of (ts_entries s) j = Some e \<Longrightarrow> te_control e < length (ts_controls s)" using c[THEN conjunct1] by blast
  show "map_of (ts_entries s) j = Some e \<Longrightarrow> map_of (ts_entries s) j' = Some e' \<Longrightarrow> te_control e = te_control e' \<Longrightarrow> j = j'"
    using c[THEN conjunct2, THEN conjunct1] by blast
  note l = c[THEN conjunct2, THEN conjunct2, THEN conjunct1] and t = c[THEN conjunct2, THEN conjunct2, THEN conjunct2]
  show "map_of (ts_entries s) j = Some e \<Longrightarrow> is_live e \<Longrightarrow> \<not> tc_finished (ts_controls s ! te_control e)"
    and "map_of (ts_entries s) j = Some e \<Longrightarrow> is_live e \<Longrightarrow> Closing (te_control e) \<notin> set (ts_attempts s)"
    using l by blast+
  show "map_of (ts_entries s) j = Some e \<Longrightarrow> startable e \<Longrightarrow> \<not> tc_cancelled (ts_controls s ! te_control e)"
    and "map_of (ts_entries s) j = Some e \<Longrightarrow> startable e \<Longrightarrow> te_control e \<notin> fst ` set (ts_cancels s)"
    using t[THEN conjunct1] by blast+
  show "c \<in> fst ` set (ts_cancels s) \<Longrightarrow> c < length (ts_controls s)" and "Closing c \<in> set (ts_attempts s) \<Longrightarrow> c < length (ts_controls s)"
    using t[THEN conjunct2] by blast+
qed

lemma controls_okI:
  assumes "\<And>j e. map_of (ts_entries s) j = Some e \<Longrightarrow> te_control e < length (ts_controls s)"
    and "\<And>j e j' e'. map_of (ts_entries s) j = Some e \<Longrightarrow> map_of (ts_entries s) j' = Some e' \<Longrightarrow> te_control e = te_control e' \<Longrightarrow> j = j'"
    and "\<And>j e. map_of (ts_entries s) j = Some e \<Longrightarrow> is_live e \<Longrightarrow> \<not> tc_finished (ts_controls s ! te_control e)"
    and "\<And>j e. map_of (ts_entries s) j = Some e \<Longrightarrow> is_live e \<Longrightarrow> Closing (te_control e) \<notin> set (ts_attempts s)"
    and "\<And>j e. map_of (ts_entries s) j = Some e \<Longrightarrow> startable e \<Longrightarrow> \<not> tc_cancelled (ts_controls s ! te_control e)"
    and "\<And>j e. map_of (ts_entries s) j = Some e \<Longrightarrow> startable e \<Longrightarrow> te_control e \<notin> fst ` set (ts_cancels s)"
    and "\<And>c. c \<in> fst ` set (ts_cancels s) \<Longrightarrow> c < length (ts_controls s)"
    and "\<And>c. Closing c \<in> set (ts_attempts s) \<Longrightarrow> c < length (ts_controls s)"
  shows "controls_ok s"
  unfolding controls_ok_def
proof (intro conjI)
  show "\<forall>j e. map_of (ts_entries s) j = Some e \<longrightarrow> te_control e < length (ts_controls s)" using assms(1) by blast
  show "\<forall>j j' e e'. map_of (ts_entries s) j = Some e \<longrightarrow> map_of (ts_entries s) j' = Some e' \<longrightarrow> te_control e = te_control e' \<longrightarrow> j = j'"
    using assms(2) by blast
  show "\<forall>j e. map_of (ts_entries s) j = Some e \<longrightarrow> is_live e \<longrightarrow>
      \<not> tc_finished (ts_controls s ! te_control e) \<and> Closing (te_control e) \<notin> set (ts_attempts s)" using assms(3,4) by blast
  show "\<forall>j e. map_of (ts_entries s) j = Some e \<longrightarrow> startable e \<longrightarrow>
      \<not> tc_cancelled (ts_controls s ! te_control e) \<and> te_control e \<notin> fst ` set (ts_cancels s)" using assms(5,6) by blast
  show "\<forall>c \<in> fst ` set (ts_cancels s). c < length (ts_controls s)" using assms(7) by blast
  show "\<forall>c. Closing c \<in> set (ts_attempts s) \<longrightarrow> c < length (ts_controls s)" using assms(8) by blast
qed

text \<open>Entries go and an attempt moves on without closing.\<close>

lemma controls_ok_shrink:
  assumes ok: "controls_ok s" and sub: "\<And>k e. map_of (ts_entries s') k = Some e \<Longrightarrow> map_of (ts_entries s) k = Some e"
    and closing: "\<And>c. Closing c \<in> set (ts_attempts s') \<Longrightarrow> Closing c \<in> set (ts_attempts s)"
    and same: "ts_controls s' = ts_controls s" "ts_cancels s' = ts_cancels s"
  shows "controls_ok s'"
proof (rule controls_okI)
  note D = controls_okD[OF ok]
  fix j e j' e' c
  assume "map_of (ts_entries s') j = Some e"
  note e = sub[OF this]
  show "te_control e < length (ts_controls s')" using D(1)[OF e] same by simp
  show "j = j'" if "map_of (ts_entries s') j' = Some e'" "te_control e = te_control e'" using D(2)[OF e sub] that by blast
  show "\<not> tc_finished (ts_controls s' ! te_control e)" if "is_live e" using D(3)[OF e that] same by simp
  show "Closing (te_control e) \<notin> set (ts_attempts s')" if "is_live e" using D(4)[OF e that] closing by blast
  show "\<not> tc_cancelled (ts_controls s' ! te_control e)" if "startable e" using D(5)[OF e that] same by simp
  show "te_control e \<notin> fst ` set (ts_cancels s')" if "startable e" using D(6)[OF e that] same by simp
next
  show "c \<in> fst ` set (ts_cancels s') \<Longrightarrow> c < length (ts_controls s')" for c using controls_okD(7)[OF ok, of c] same by simp
  show "Closing c \<in> set (ts_attempts s') \<Longrightarrow> c < length (ts_controls s')" for c using controls_okD(8)[OF ok closing] same by simp
qed

text \<open>A job gets a new control.\<close>

lemma controls_ok_new:
  assumes ok: "controls_ok s" and entries: "map_of (ts_entries s') = M(j \<mapsto> e')"
    and sub: "\<And>k e. M k = Some e \<Longrightarrow> map_of (ts_entries s) k = Some e"
    and new: "te_control e' = length (ts_controls s)" "ts_controls s' = ts_controls s @ [fresh_control]"
    and same: "ts_attempts s' = ts_attempts s @ [Spawned j]" "ts_cancels s' = ts_cancels s"
  shows "controls_ok s'"
proof -
  have old: "te_control e < length (ts_controls s)" "ts_controls s' ! te_control e = ts_controls s ! te_control e"
    if "M k = Some e" for k e
    using controls_okD(1)[OF ok sub[OF that]] new(2) by (simp_all add: nth_append)
  have fresh: "ts_controls s' ! te_control e' = fresh_control" using new by simp
  have closing: "Closing c \<in> set (ts_attempts s') \<longleftrightarrow> Closing c \<in> set (ts_attempts s)" for c by (simp add: same(1))
  have cases: "k = j \<and> e = e' \<or> M k = Some e" if "map_of (ts_entries s') k = Some e" for k e
    using that by (auto simp: entries split: if_splits)
  have away: "length (ts_controls s) \<notin> fst ` set (ts_cancels s)" "Closing (length (ts_controls s)) \<notin> set (ts_attempts s)"
    using controls_okD(7,8)[OF ok] by blast+
  show ?thesis
  proof (rule controls_okI)
    fix k e k' f
    assume k: "map_of (ts_entries s') k = Some e" "map_of (ts_entries s') k' = Some f" "te_control e = te_control f"
    from cases[OF k(1)] cases[OF k(2)] show "k = k'"
    proof (elim disjE conjE)
      assume m: "M k = Some e" "M k' = Some f"
      show ?thesis using controls_okD(2)[OF ok sub[OF m(1)] sub[OF m(2)] k(3)] .
    next
      assume "M k = Some e" "f = e'"
      then show ?thesis using old(1)[of k e] new(1) k(3) by simp
    next
      assume "M k' = Some f" "e = e'"
      then show ?thesis using old(1)[of k' f] new(1) k(3) by simp
    qed simp
  next
    fix k e
    assume k: "map_of (ts_entries s') k = Some e"
    have "te_control e < length (ts_controls s')
      \<and> (is_live e \<longrightarrow> \<not> tc_finished (ts_controls s' ! te_control e) \<and> Closing (te_control e) \<notin> set (ts_attempts s'))
      \<and> (startable e \<longrightarrow> \<not> tc_cancelled (ts_controls s' ! te_control e) \<and> te_control e \<notin> fst ` set (ts_cancels s'))"
    proof (cases "M k = Some e")
      case True
      note D = controls_okD(1,3-6)[OF ok sub[OF True]]
      show ?thesis unfolding closing same(2) old(2)[OF True] using D new(2) by simp
    next
      case False
      then have "e = e'" using cases[OF k] by blast
      then show ?thesis unfolding closing same(2) using fresh new away by (simp add: fresh_control_def)
    qed
    then show "te_control e < length (ts_controls s')" "is_live e \<Longrightarrow> \<not> tc_finished (ts_controls s' ! te_control e)"
      "is_live e \<Longrightarrow> Closing (te_control e) \<notin> set (ts_attempts s')"
      "startable e \<Longrightarrow> \<not> tc_cancelled (ts_controls s' ! te_control e)"
      "startable e \<Longrightarrow> te_control e \<notin> fst ` set (ts_cancels s')" by blast+
  next
    show "c \<in> fst ` set (ts_cancels s') \<Longrightarrow> c < length (ts_controls s')" for c
      using controls_okD(7)[OF ok, of c] new(2) same(2) by simp
    show "Closing c \<in> set (ts_attempts s') \<Longrightarrow> c < length (ts_controls s')" for c
      using controls_okD(8)[OF ok, of c] new(2) closing by simp
  qed
qed

text \<open>A job changes and keeps its control.\<close>

lemma controls_ok_change:
  assumes ok: "controls_ok s" and old: "map_of (ts_entries s) j = Some e"
    and entries: "map_of (ts_entries s') = (map_of (ts_entries s))(j \<mapsto> e')" and control: "te_control e' = te_control e"
    and live: "is_live e' \<Longrightarrow> is_live e" and start: "startable e' \<Longrightarrow> startable e"
    and closing: "\<And>c. Closing c \<in> set (ts_attempts s') \<Longrightarrow> Closing c \<in> set (ts_attempts s) \<or> c = te_control e \<and> \<not> is_live e'"
    and cancels: "fst ` set (ts_cancels s') \<subseteq> fst ` set (ts_cancels s) \<union> (if startable e' then {} else {te_control e})"
    and same: "ts_controls s' = ts_controls s"
  shows "controls_ok s'"
proof -
  have cases: "\<exists>f. map_of (ts_entries s) k = Some f \<and> te_control f = te_control x \<and> (is_live x \<longrightarrow> is_live f) \<and> (startable x \<longrightarrow> startable f)
      \<and> (k = j \<longrightarrow> x = e')" if "map_of (ts_entries s') k = Some x" for k x
    using that old control live start by (cases "k = j") (auto simp: entries)
  note D = controls_okD[OF ok]
  show ?thesis
  proof (rule controls_okI; (unfold same)?)
    fix k x k' y
    assume k: "map_of (ts_entries s') k = Some x" "map_of (ts_entries s') k' = Some y" "te_control x = te_control y"
    show "k = k'" using cases[OF k(1)] cases[OF k(2)] k(3) D(2) by metis
  next
    fix k x
    assume k: "map_of (ts_entries s') k = Some x"
    obtain f where f: "map_of (ts_entries s) k = Some f" "te_control f = te_control x" "is_live x \<longrightarrow> is_live f"
        "startable x \<longrightarrow> startable f" "k = j \<longrightarrow> x = e'" using cases[OF k] by blast
    show "te_control x < length (ts_controls s)" using D(1)[OF f(1)] f(2) by simp
    show "\<not> tc_finished (ts_controls s ! te_control x)" if "is_live x" using D(3)[OF f(1)] f(2,3) that by simp
    show "Closing (te_control x) \<notin> set (ts_attempts s')" if "is_live x"
    proof
      assume "Closing (te_control x) \<in> set (ts_attempts s')"
      from closing[OF this] show False
      proof (elim disjE conjE)
        assume "Closing (te_control x) \<in> set (ts_attempts s)"
        then show False using D(4)[OF f(1)] f(2,3) that by simp
      next
        assume c: "te_control x = te_control e" "\<not> is_live e'"
        then have "k = j" using D(2)[OF f(1) old] f(2) by simp
        then show False using f(5) c(2) that by simp
      qed
    qed
    show "\<not> tc_cancelled (ts_controls s ! te_control x)" if "startable x" using D(5)[OF f(1)] f(2,4) that by simp
    show "te_control x \<notin> fst ` set (ts_cancels s')" if "startable x"
    proof
      assume "te_control x \<in> fst ` set (ts_cancels s')"
      then consider "te_control x \<in> fst ` set (ts_cancels s)" | "te_control x = te_control e" "\<not> startable e'"
        using cancels by (auto split: if_splits)
      then show False
      proof cases
        case 1
        then show False using D(6)[OF f(1)] f(2,4) that by simp
      next
        case 2
        then have "k = j" using D(2)[OF f(1) old] f(2) by simp
        then show False using f(5) 2 that by simp
      qed
    qed
  next
    show "c \<in> fst ` set (ts_cancels s') \<Longrightarrow> c < length (ts_controls s)" for c
      using subsetD[OF cancels, of c] D(7)[of c] D(1)[OF old] by (auto split: if_splits)
    show "Closing c \<in> set (ts_attempts s') \<Longrightarrow> c < length (ts_controls s)" for c
      using closing[of c] D(8)[of c] D(1)[OF old] by auto
  qed
qed

lemma closing_update:
  "Closing c \<in> set (xs[i := a]) \<Longrightarrow> Closing c \<in> set xs \<or> a = Closing c"
  using set_update_subset_insert[of xs i a] by auto

lemma controls_effect:
  assumes ok: "controls_ok s" and attempts: "attempts_ok s" and "transfer_effect s s'"
  shows "controls_ok s'"
  using assms(3)
proof (cases rule: transfer_effect.cases)
  case Quiet
  then show ?thesis by (intro controls_ok_shrink[OF ok]) (simp_all add: same_work_def)
next
  case Pruned
  then show ?thesis
    by (intro controls_ok_shrink[OF ok] prune_transfers_map_of[OF attempts_okD(1)[OF attempts]]) (simp_all add: same_work_def)
next
  case (Started j e now)
  show ?thesis
    by (rule controls_ok_new[OF ok, where M = "map_of (prune_terminal_transfers (ts_entries s) MAX_RETAINED_TRANSFERS)" and e' = e and j = j])
      (use Started prune_transfers_map_of[OF attempts_okD(1)[OF attempts]] in \<open>simp_all add: map_of_put fun_eq_iff\<close>)
next
  case (Retried j e e')
  show ?thesis
    by (rule controls_ok_new[OF ok, where M = "map_of (ts_entries s)" and e' = e' and j = j])
      (use Retried in \<open>simp_all add: map_of_put fun_eq_iff\<close>)
next
  case (CancelBegun j e e')
  have "is_live e" "\<not> startable e'" using startable_live[OF CancelBegun(4)] CancelBegun(5) by (simp_all add: startable_def)
  then show ?thesis
    by (intro controls_ok_change[OF ok CancelBegun(1), where e' = e']) (use CancelBegun in \<open>auto simp: map_of_put fun_eq_iff\<close>)
next
  case (Delivered c job)
  note D = controls_okD[OF ok]
  have c: "c \<in> fst ` set (ts_cancels s)" using Delivered(3) by force
  have nth: "ts_controls s' ! d = (if d = c then (ts_controls s ! c)\<lparr>tc_cancelled := True\<rparr> else ts_controls s ! d)" if "d < length (ts_controls s)" for d
    using that by (simp add: Delivered(5))
  show ?thesis
  proof (rule controls_okI; (unfold Delivered(1,2))?)
    fix j e
    assume e: "map_of (ts_entries s) j = Some e"
    show "te_control e < length (ts_controls s')" using D(1)[OF e] by (simp add: Delivered(5))
    show "\<not> tc_finished (ts_controls s' ! te_control e)" if "is_live e" using D(3)[OF e that] nth[OF D(1)[OF e]] by auto
    show "\<not> tc_cancelled (ts_controls s' ! te_control e)" if "startable e"
      using D(5,6)[OF e that] c nth[OF D(1)[OF e]] by auto
    show "te_control e \<notin> fst ` set (ts_cancels s')" if "startable e" using D(6)[OF e that] Delivered(4) by blast
  next
    show "c \<in> fst ` set (ts_cancels s') \<Longrightarrow> c < length (ts_controls s')" for c
      using D(7)[of c] Delivered(4,5) by auto
    show "Closing c \<in> set (ts_attempts s) \<Longrightarrow> c < length (ts_controls s')" for c using D(8)[of c] Delivered(5) by simp
  qed (use D(2,4) in blast)+
next
  case (Turned i j e e' a)
  have live: "is_live e" using Turned(2) attempts_okD(2)[OF attempts Turned(1,2)] Turned(3) fits_live[of "ts_attempts s ! i" e] by auto
  have "\<not> (tj_state (te_job e) = TfCancelling \<and> tj_state (te_job e') = TfRunning)" using Turned(5) by (auto simp: revised_def)
  then have start: "startable e' \<Longrightarrow> startable e"
    using live Turned(9) by (cases "tj_state (te_job e)") (auto simp: startable_def is_live_def)
  show ?thesis
    by (rule controls_ok_change[OF ok Turned(3), where e' = e'])
      (use Turned live start closing_update[of _ "ts_attempts s" i a] in \<open>auto simp: map_of_put fun_eq_iff\<close>)
next
  case (Moved i j e a)
  have "Closing c \<in> set (ts_attempts s') \<Longrightarrow> Closing c \<in> set (ts_attempts s)" for c
    using closing_update[of c "ts_attempts s" i a] Moved(4,7) by auto
  then show ?thesis using Moved by (intro controls_ok_shrink[OF ok]) simp_all
next
  case (Closed i c)
  note D = controls_okD[OF ok]
  have c: "Closing c \<in> set (ts_attempts s)" using Closed(1,2) by (metis nth_mem)
  have nth: "ts_controls s' ! d = (if d = c then (ts_controls s ! c)\<lparr>tc_finished := True\<rparr> else ts_controls s ! d)" if "d < length (ts_controls s)" for d
    using that by (simp add: Closed(5))
  have closing: "Closing d \<in> set (ts_attempts s') \<Longrightarrow> Closing d \<in> set (ts_attempts s)" for d
    using closing_update[of d "ts_attempts s" i Over] Closed(4) by simp
  show ?thesis
  proof (rule controls_okI; (unfold Closed(3,6))?)
    fix j e
    assume e: "map_of (ts_entries s) j = Some e"
    show "te_control e < length (ts_controls s')" using D(1)[OF e] by (simp add: Closed(5))
    show "\<not> tc_finished (ts_controls s' ! te_control e)" if "is_live e" using D(3,4)[OF e that] nth[OF D(1)[OF e]] c by auto
    show "Closing (te_control e) \<notin> set (ts_attempts s')" if "is_live e" using D(4)[OF e that] closing by blast
    show "\<not> tc_cancelled (ts_controls s' ! te_control e)" if "startable e" using D(5)[OF e that] nth[OF D(1)[OF e]] by auto
  next
    show "c \<in> fst ` set (ts_cancels s) \<Longrightarrow> c < length (ts_controls s')" for c using D(7)[of c] Closed(5) by simp
    show "Closing c \<in> set (ts_attempts s') \<Longrightarrow> c < length (ts_controls s')" for c using D(8)[OF closing] Closed(5) by simp
  qed (use D(2,6) in blast)+
next
  case (Purged h)
  note keys = attempts_okD(1)[OF attempts]
  show ?thesis
    by (rule controls_ok_shrink[OF ok])
      (use Purged map_of_filter_keys[OF keys] in \<open>auto simp: same_work_def split: option.splits if_splits\<close>)
qed

lemma hosts_effect:
  assumes ok: "hosts_ok s" and keys: "keys_ok (ts_entries s)" and "transfer_effect s s'"
  shows "hosts_ok s'"
  using assms(3)
proof (cases rule: transfer_effect.cases)
  case (Started j e now)
  show ?thesis
    unfolding hosts_ok_def Started(2) map_of_put
  proof (intro allI impI)
    fix k x
    assume k: "(if k = j then Some e else map_of (prune_terminal_transfers (ts_entries s) MAX_RETAINED_TRANSFERS) k) = Some x"
    show "hp_id (te_host x) = tj_host_id (te_job x) \<and> tj_id (te_job x) = k"
    proof (cases "k = j")
      case True
      then show ?thesis using k Started(4) by (metis new_job_simps(1,2) option.inject)
    next
      case False
      then show ?thesis using k ok prune_transfers_map_of[OF keys] unfolding hosts_ok_def by metis
    qed
  qed
next
  case Pruned
  then show ?thesis using ok prune_transfers_map_of[OF keys] unfolding hosts_ok_def by metis
next
  case (Purged h)
  then show ?thesis using ok unfolding hosts_ok_def Purged(3) map_of_filter_keys[OF keys] by (auto split: option.splits if_splits)
qed (use ok in \<open>auto simp: hosts_ok_def map_of_put revised_def\<close>)

end
