(* ===== verification/TransfersSafe.thy ===== *)
theory TransfersSafe
  imports TransfersInv
begin

text \<open>
  The rest of the invariant of the registry of transfers: its bounds, the leases of the barrier, and
  what a removal of a host may rely on; and that every reachable registry has all of it.
\<close>

section \<open>Bounds\<close>

lemma count_where_put_others:
  assumes "keys_ok es"
  shows "count_where P (put k e es) \<le> count_where (\<lambda>p. fst p \<noteq> k \<and> P p) es + 1"
proof (cases "map_of es k")
  case None
  then have "filter (\<lambda>p. fst p \<noteq> k \<and> P p) es = filter P es"
    by (intro filter_cong) (auto simp: map_of_eq_None_iff image_iff)
  then show ?thesis using count_where_put_new[OF None, of P e] by (simp add: count_where_def)
next
  case (Some x)
  have "length (filter P (map (\<lambda>(k', e'). if k' = k then (k, e) else (k', e')) es)) \<le> length (filter (\<lambda>p. fst p \<noteq> k \<and> P p) es) + 1"
    if "distinct (map fst es)" for es
    using that
  proof (induction es)
    case (Cons y es)
    have "map (\<lambda>(k', e'). if k' = k then (k, e) else (k', e')) es = es" "filter (\<lambda>p. fst p \<noteq> k \<and> P p) es = filter P es" if "fst y = k"
    proof -
      have "\<forall>x \<in> set es. fst x \<noteq> k" using that Cons.prems by (auto simp: image_iff)
      then show "map (\<lambda>(k', e'). if k' = k then (k, e) else (k', e')) es = es" "filter (\<lambda>p. fst p \<noteq> k \<and> P p) es = filter P es"
        by (force intro!: map_idI filter_cong)+
    qed
    with Cons show ?case by (cases "fst y = k") (auto simp: split_def)
  qed simp
  then show ?thesis using assms Some by (simp add: put_def count_where_def keys_ok_def)
qed

lemma bounds_effect:
  assumes ok: "transfers_bounded s" and keys: "keys_ok (ts_entries s)" and attempts: "attempts_ok s" and "transfer_effect s s'"
  shows "transfers_bounded s'"
  using assms(4)
proof (cases rule: transfer_effect.cases)
  case Pruned
  then show ?thesis
    using ok live_transfers_prune[of "ts_entries s" MAX_RETAINED_TRANSFERS]
      prune_transfers_within[of "ts_entries s"] by (auto simp: transfers_bounded_def)
next
  case (Started j e now)
  let ?es = "prune_terminal_transfers (ts_entries s) MAX_RETAINED_TRANSFERS"
  have none: "map_of ?es j = None"
    using prune_transfers_map_of[OF keys, of MAX_RETAINED_TRANSFERS j] Started(1) by (cases "map_of ?es j") auto
  have "length ?es < MAX_RETAINED_TRANSFERS" using prune_transfers_within ok by (simp add: transfers_bounded_def)
  then show ?thesis
    using Started(3) none unfolding transfers_bounded_def Started(2)
    by (simp add: live_transfers_def count_where_put_new length_put)
next
  case (Retried j e e')
  have "live_transfers (ts_entries s') \<le> MAX_ACTIVE_TRANSFERS"
    using count_where_put_others[OF keys, of "\<lambda>p. \<not> is_terminal_transfer p" j e'] Retried(7)
    by (simp add: live_transfers_def Retried(2))
  then show ?thesis using ok Retried(1,2) by (simp add: transfers_bounded_def length_put)
next
  case (CancelBegun j e e')
  have "live_transfers (ts_entries s') \<le> live_transfers (ts_entries s)"
    unfolding live_transfers_def CancelBegun(2)
    by (rule count_where_put_le[OF CancelBegun(1) _ keys]) (use startable_live[OF CancelBegun(4)] in \<open>simp add: is_live_terminal\<close>)
  then show ?thesis using ok CancelBegun(1,2) by (simp add: transfers_bounded_def length_put)
next
  case (Turned i j e e' a)
  have "is_live e" using Turned(2) attempts_okD(2)[OF attempts Turned(1,2)] Turned(3) fits_live[of "ts_attempts s ! i" e] by auto
  then have "live_transfers (ts_entries s') \<le> live_transfers (ts_entries s)"
    unfolding live_transfers_def Turned(4)
    by (intro count_where_put_le[OF Turned(3) _ keys]) (simp add: is_live_terminal)
  then show ?thesis using ok Turned(3,4) by (simp add: transfers_bounded_def length_put)
next
  case (Purged h)
  have "length (ts_entries s') \<le> length (ts_entries s)" unfolding Purged(3) by (rule length_filter_le)
  moreover have "live_transfers (ts_entries s') \<le> live_transfers (ts_entries s)"
    unfolding Purged(3) live_transfers_def by (rule count_where_filter)
  ultimately show ?thesis using ok by (simp add: transfers_bounded_def)
qed (use ok in \<open>auto simp: transfers_bounded_def\<close>)

section \<open>Leases\<close>

fun works_on :: "string \<Rightarrow> attempt \<Rightarrow> bool" where
  "works_on h (Working j c host op) \<longleftrightarrow> hp_id host = h"
| "works_on h _ \<longleftrightarrow> False"

definition working :: "string \<Rightarrow> transfers \<Rightarrow> nat" where
  "working h s = length (filter (works_on h) (ts_attempts s))"

text \<open>The barrier counts the attempts at work and the direct operations of each host.\<close>

definition leases_ok :: "transfers \<Rightarrow> bool" where
  "leases_ok s \<longleftrightarrow> (\<forall>h. active_of (ts_barrier s) h = working h s + count_list (ts_direct s) h)
     \<and> length (ts_direct s) + MAX_ACTIVE_TRANSFERS \<le> u64_max"

lemma live_card:
  assumes "keys_ok es"
  shows "card {j. \<exists>e. map_of es j = Some e \<and> is_live e} = live_transfers es"
proof -
  have "{j. \<exists>e. map_of es j = Some e \<and> is_live e} = set (map fst (filter (\<lambda>p. \<not> is_terminal_transfer p) es))"
    using assms by (force simp: is_live_terminal simp flip: in_set_map_of)
  moreover have "distinct (map fst (filter (\<lambda>p. \<not> is_terminal_transfer p) es))"
    using keys_ok_filter[OF assms] by (simp add: keys_ok_def)
  ultimately show ?thesis using distinct_card by (fastforce simp: live_transfers_def count_where_def)
qed

lemma attempts_few:
  assumes "attempts_ok s"
  shows "length (filter (\<lambda>a. attempt_job a \<noteq> None) (ts_attempts s)) \<le> live_transfers (ts_entries s)"
proof -
  let ?I = "{i. i < length (ts_attempts s) \<and> attempt_job (ts_attempts s ! i) \<noteq> None}"
  let ?J = "{j. \<exists>e. map_of (ts_entries s) j = Some e \<and> is_live e}"
  have "inj_on (\<lambda>i. the (attempt_job (ts_attempts s ! i))) ?I"
    using attempts_okD(3)[OF assms] by (auto intro!: inj_onI)
  moreover have "(\<lambda>i. the (attempt_job (ts_attempts s ! i))) ` ?I \<subseteq> ?J"
    using attempts_okD(2)[OF assms] fits_live by fastforce
  moreover have "finite ?J" by (rule finite_subset[of _ "dom (map_of (ts_entries s))"]) (auto simp: finite_dom_map_of)
  ultimately have "card ?I \<le> card ?J" by (rule card_inj_on_le)
  then show ?thesis using live_card[OF attempts_okD(1)[OF assms]] by (simp add: length_filter_conv_card)
qed

lemma working_few:
  assumes "attempts_ok s" and "transfers_bounded s" and "i < length (ts_attempts s)" and "ts_attempts s ! i = Admitted j c host op"
  shows "working h s < MAX_ACTIVE_TRANSFERS"
proof -
  have "filter (works_on h) (ts_attempts s) = filter (works_on h) (filter (\<lambda>a. attempt_job a \<noteq> None) (ts_attempts s))"
    by (auto intro!: filter_cong elim: works_on.elims)
  moreover have "\<exists>a \<in> set (filter (\<lambda>a. attempt_job a \<noteq> None) (ts_attempts s)). \<not> works_on h a"
    using assms(3,4) nth_mem[OF assms(3)] by (auto intro!: bexI[of _ "ts_attempts s ! i"])
  ultimately have "working h s < length (filter (\<lambda>a. attempt_job a \<noteq> None) (ts_attempts s))"
    unfolding working_def by (metis length_filter_less)
  also have "\<dots> \<le> MAX_ACTIVE_TRANSFERS" using attempts_few[OF assms(1)] assms(2) by (simp add: transfers_bounded_def)
  finally show ?thesis .
qed

lemma filter_update_length:
  assumes "i < length xs"
  shows "length (filter P (xs[i := a])) + (if P (xs ! i) then 1 else 0) = length (filter P xs) + (if P a then 1 else 0)"
proof -
  have "length (filter P xs) = length (filter P (take i xs)) + (if P (xs ! i) then 1 else 0) + length (filter P (drop (Suc i) xs))"
    by (subst id_take_nth_drop[OF assms]) simp
  then show ?thesis using assms by (simp add: upd_conv_take_nth_drop)
qed

lemma working_update:
  "i < length (ts_attempts s) \<Longrightarrow> ts_attempts s' = (ts_attempts s)[i := a] \<Longrightarrow>
     working h s' + (if works_on h (ts_attempts s ! i) then 1 else 0) = working h s + (if works_on h a then 1 else 0)"
  unfolding working_def by (simp add: filter_update_length)

lemma leases_ok_frame:
  "leases_ok s \<Longrightarrow> ts_barrier s' = ts_barrier s \<Longrightarrow> ts_direct s' = ts_direct s \<Longrightarrow> (\<And>h. working h s' = working h s) \<Longrightarrow> leases_ok s'"
  by (simp add: leases_ok_def)

lemma leases_turn:
  assumes ok: "leases_ok s" and attempts: "attempts_ok s" and bounded: "transfers_bounded s" and i: "i < length (ts_attempts s)"
  shows "leases_ok (attempt_turn i now result s)"
proof (cases "ts_attempts s ! i")
  case (Spawned j)
  define t where "t = attempt_turn i now result s"
  have frame: "ts_barrier t = ts_barrier s" "ts_direct t = ts_direct s"
      "\<exists>a. ts_attempts t = (ts_attempts s)[i := a] \<and> (\<forall>h. \<not> works_on h a)"
    using Spawned unfolding t_def by (auto simp: attempt_turn_def begin_attempt_def Let_def split: option.splits sum.splits)
  then obtain a where a: "ts_attempts t = (ts_attempts s)[i := a]" "\<forall>h. \<not> works_on h a" by blast
  have "working h t = working h s" for h using working_update[OF i a(1), of h] a(2) Spawned by simp
  with leases_ok_frame[OF ok frame(1,2)] show ?thesis by (simp add: t_def)
next
  case (Admitted j c host op)
  obtain r b where b: "begin_host_operation (hp_id host) (ts_barrier s) = (r, b)" by fastforce
  let ?a = "case r of Inr _ \<Rightarrow> Working j c host op | Inl err \<Rightarrow> Concluding j c (Inl err)"
  have t: "attempt_turn i now result s = set_attempt i ?a (s\<lparr>ts_barrier := b\<rparr>)"
    using Admitted b by (auto simp: attempt_turn_def split: sum.splits)
  have work: "working h (attempt_turn i now result s) = working h s + (if is_ok r \<and> hp_id host = h then 1 else 0)" for h
    using working_update[OF i, of "attempt_turn i now result s" ?a h] Admitted by (cases r) (auto simp: t)
  have few: "working (hp_id host) s + count_list (ts_direct s) (hp_id host) < u64_max"
    using working_few[OF attempts bounded i Admitted, of "hp_id host"] ok count_le_length[of "ts_direct s" "hp_id host"]
    by (simp add: leases_ok_def)
  have "active_of b h = active_of (ts_barrier s) h + (if is_ok r \<and> hp_id host = h then 1 else 0)" for h
    using b few ok hb.begin_active[of "hp_id host" "ts_barrier s" h] hb.begin_granted[of "hp_id host" "ts_barrier s"]
    by (cases "begin_lease (hp_id host) (ts_barrier s)")
      (auto simp: begin_host_operation_def leases_ok_def saturating_add64_def split: bool.splits if_splits)
  then show ?thesis using ok work by (simp add: leases_ok_def t)
next
  case (Working j c host op)
  let ?t = "attempt_turn i now result s"
  have t: "?t = set_attempt i (Concluding j c result) (s\<lparr>ts_barrier := end_lease (hp_id host) (ts_barrier s)\<rparr>)"
    using Working by (simp add: attempt_turn_def)
  have work: "working h ?t + (if hp_id host = h then 1 else 0) = working h s" for h
    using working_update[OF i, of ?t "Concluding j c result" h] Working by (auto simp: t)
  have "active_of (ts_barrier ?t) h = working h ?t + count_list (ts_direct s) h" for h
    using work[of h] ok hb.end_active[of "hp_id host" "ts_barrier s" h] by (auto simp: t leases_ok_def)
  then show ?thesis using ok by (simp add: leases_ok_def t)
next
  case (Concluding j c outcome)
  let ?t = "attempt_turn i now result s"
  have frame: "ts_barrier ?t = ts_barrier s" "ts_direct ?t = ts_direct s" "ts_attempts ?t = (ts_attempts s)[i := Closing c]"
    using Concluding by (auto simp: attempt_turn_def split: option.splits)
  have "working h ?t = working h s" for h using working_update[OF i frame(3), of h] Concluding by simp
  with leases_ok_frame[OF ok frame(1,2)] show ?thesis .
next
  case (Closing c)
  let ?t = "attempt_turn i now result s"
  have frame: "ts_barrier ?t = ts_barrier s" "ts_direct ?t = ts_direct s" "ts_attempts ?t = (ts_attempts s)[i := Over]"
    using Closing by (auto simp: attempt_turn_def)
  have "working h ?t = working h s" for h using working_update[OF i frame(3), of h] Closing by simp
  with leases_ok_frame[OF ok frame(1,2)] show ?thesis .
qed (use ok in \<open>simp add: attempt_turn_def\<close>)

lemma leases_spawn:
  "leases_ok s \<Longrightarrow> same_hosts s s' \<Longrightarrow> ts_attempts s' = ts_attempts s \<or> (\<exists>j. ts_attempts s' = ts_attempts s @ [Spawned j]) \<Longrightarrow> leases_ok s'"
  by (erule leases_ok_frame) (auto simp: same_hosts_def working_def)

lemma direct_leases_step:
  assumes ok: "leases_ok s" and attempts: "attempts_ok s" and bounded: "transfers_bounded s" and hosts: "hosts_ok s"
  shows "leases_ok (transfer_step is_absolute m s)"
proof (cases m)
  case (StartTransfer j now host op)
  obtain r t where t: "start_registered j now host op s = (r, t)" by fastforce
  have "ts_attempts t = ts_attempts s \<or> (\<exists>j. ts_attempts t = ts_attempts s @ [Spawned j])"
    using t by (auto simp: start_registered_def Let_def split: if_splits)
  then show ?thesis using StartTransfer ok t leases_spawn[OF ok] start_effect[OF _ t] by auto
next
  case (CancelTransfer j now)
  obtain r t where t: "cancel_transfer j now s = (r, t)" by fastforce
  have "ts_attempts t = ts_attempts s" using t by (auto simp: cancel_transfer_def Let_def split: option.splits if_splits sum.splits)
  then show ?thesis using CancelTransfer t leases_spawn[OF ok] cancel_effect[OF t] by (auto simp: same_hosts_def)
next
  case (DeliverCancel i)
  have "ts_attempts (deliver_cancel i s) = ts_attempts s"
    by (simp add: deliver_cancel_def emit_def cancel_control_def split: prod.splits)
  then show ?thesis using DeliverCancel ok leases_spawn[OF ok] deliver_effect[of i s] by auto
next
  case (RetryTransfer j now host)
  obtain r t where t: "retry_registered is_absolute j now host s = (r, t)" by fastforce
  have "ts_attempts t = ts_attempts s \<or> (\<exists>j. ts_attempts t = ts_attempts s @ [Spawned j])"
    using t by (auto simp: retry_registered_def split: if_splits option.splits sum.splits)
  then show ?thesis using RetryTransfer t leases_spawn[OF ok] retry_effect[OF hosts t] by auto
next
  case (AttemptTurn i now result)
  then show ?thesis using leases_turn[OF ok attempts bounded] ok by simp
next
  case (RemoveHost h)
  then show ?thesis using ok by (simp add: begin_removal_def leases_ok_def working_def)
next
  case (RemovalTurn k now late)
  have "leases_ok (removal_turn k now late s)"
  proof (cases "ts_removals s ! k")
    case (Marked h)
    then show ?thesis using ok hb.retire_active by (simp add: removal_turn_def set_removal_def leases_ok_def working_def)
  next
    case (CancelEach h ids cs)
    show ?thesis
    proof (cases ids)
      case (Cons j js)
      obtain r t where t: "cancel_transfer j now s = (r, t)" by fastforce
      have "ts_attempts t = ts_attempts s" using t by (auto simp: cancel_transfer_def Let_def split: option.splits if_splits sum.splits)
      then show ?thesis using CancelEach Cons t cancel_effect[OF t] ok
        by (simp add: removal_turn_def set_removal_def leases_ok_def working_def)
    qed (use CancelEach ok in \<open>simp add: removal_turn_def set_removal_def leases_ok_def working_def\<close>)
  next
    case (Waiting h cs)
    then show ?thesis using ok by (cases cs) (simp_all add: removal_turn_def set_removal_def leases_ok_def working_def)
  qed (use ok in \<open>simp_all add: removal_turn_def set_removal_def leases_ok_def working_def\<close>)
  then show ?thesis using RemovalTurn ok by simp
next
  case (RestoreHost h)
  then show ?thesis using ok hb.restore_active by (simp add: restore_transfers_def leases_ok_def working_def)
next
  case (BeginDirect h)
  show ?thesis
  proof (cases "length (ts_direct s) + MAX_ACTIVE_TRANSFERS \<ge> u64_max")
    case False
    have "working h s \<le> MAX_ACTIVE_TRANSFERS"
    proof -
      have "length (filter (works_on h) xs) \<le> length (filter (\<lambda>a. attempt_job a \<noteq> None) xs)" for xs
        by (induction xs) (auto elim: works_on.elims)
      then have "working h s \<le> length (filter (\<lambda>a. attempt_job a \<noteq> None) (ts_attempts s))" by (simp add: working_def)
      then show ?thesis using attempts_few[OF attempts] bounded by (simp add: transfers_bounded_def)
    qed
    then have "active_of (ts_barrier s) h < u64_max"
      using ok False count_le_length[of "ts_direct s" h] by (simp add: leases_ok_def)
    then show ?thesis
      using BeginDirect ok False hb.begin_active[of h "ts_barrier s"] hb.begin_granted[of h "ts_barrier s"]
      by (cases "begin_lease h (ts_barrier s)")
        (auto simp: begin_host_operation_def leases_ok_def working_def saturating_add64_def split: bool.splits if_splits)
  qed (use BeginDirect ok in simp)
next
  case (EndDirect h)
  show ?thesis
  proof (cases "h \<in> set (ts_direct s)")
    case True
    have "count_list (ts_direct s) h \<noteq> 0" using True by (simp add: count_list_0_iff)
    then show ?thesis
      using EndDirect True ok hb.end_active[of h "ts_barrier s"] count_list_remove1[OF True]
      by (auto simp: leases_ok_def working_def length_remove1)
  qed (use EndDirect ok in simp)
qed

section \<open>Removals\<close>

text \<open>\<open>covered s h cs\<close>: the live jobs of the host \<open>h\<close> have their controls among \<open>cs\<close>.\<close>

definition covered :: "transfers \<Rightarrow> string \<Rightarrow> nat list \<Rightarrow> bool" where
  "covered s h cs \<longleftrightarrow> (\<forall>j e. map_of (ts_entries s) j = Some e \<longrightarrow> tj_host_id (te_job e) = h \<longrightarrow> is_live e \<longrightarrow> te_control e \<in> set cs)"

fun removal_ok :: "transfers \<Rightarrow> removal \<Rightarrow> bool" where
  "removal_ok s (Marked h) \<longleftrightarrow> h \<in> set (ts_retired s)"
| "removal_ok s (Retired h) \<longleftrightarrow> h \<in> set (ts_retired s) \<and> is_retired h (ts_barrier s)"
| "removal_ok s (CancelEach h ids cs) \<longleftrightarrow> h \<in> set (ts_retired s) \<and> is_retired h (ts_barrier s) \<and> covered s h cs"
| "removal_ok s (Waiting h cs) \<longleftrightarrow> h \<in> set (ts_retired s) \<and> is_retired h (ts_barrier s) \<and> covered s h cs"
| "removal_ok s (Purging h) \<longleftrightarrow> h \<in> set (ts_retired s) \<and> is_retired h (ts_barrier s) \<and> covered s h []
     \<and> active_of (ts_barrier s) h = 0"
| "removal_ok s _ \<longleftrightarrow> True"

definition removals_ok :: "transfers \<Rightarrow> bool" where
  "removals_ok s \<longleftrightarrow> (\<forall>r \<in> set (ts_removals s). removal_ok s r)"

definition transfers_inv :: "transfers \<Rightarrow> bool" where
  "transfers_inv s \<longleftrightarrow> attempts_ok s \<and> controls_ok s \<and> hosts_ok s \<and> transfers_bounded s \<and> leases_ok s \<and> removals_ok s"

lemma transfers_invD:
  assumes "transfers_inv s"
  shows "attempts_ok s" "controls_ok s" "hosts_ok s" "transfers_bounded s" "leases_ok s" "removals_ok s" "keys_ok (ts_entries s)"
  using assms attempts_okD(1) by (auto simp: transfers_inv_def)

lemma purges_idle: "removals_ok s \<Longrightarrow> purges_idle s"
  by (auto simp: removals_ok_def purges_idle_def covered_def dest!: bspec)

text \<open>A retired host gets no live job.\<close>

lemma effect_hosts:
  assumes "transfer_effect s s'" and "keys_ok (ts_entries s)" and attempts: "attempts_ok s"
    and e': "map_of (ts_entries s') j = Some e'"
  shows "(\<exists>e. map_of (ts_entries s) j = Some e \<and> tj_host_id (te_job e) = tj_host_id (te_job e')
      \<and> (tj_host_id (te_job e') \<in> set (ts_retired s) \<longrightarrow> te_control e = te_control e' \<and> (is_live e' \<longrightarrow> is_live e)))
    \<or> tj_host_id (te_job e') \<notin> set (ts_retired s)"
  using assms(1)
proof (cases rule: transfer_effect.cases)
  case Pruned
  then show ?thesis using prune_transfers_map_of[OF assms(2)] e' by auto
next
  case (Started k e now)
  show ?thesis
  proof (cases "j = k")
    case True
    then show ?thesis using e' Started(2,4,5) by (auto simp: map_of_put)
  next
    case False
    then have "map_of (prune_terminal_transfers (ts_entries s) MAX_RETAINED_TRANSFERS) j = Some e'"
      using e' Started(2) by (simp add: map_of_put)
    from prune_transfers_map_of[OF assms(2) this] show ?thesis by blast
  qed
next
  case (Retried k e f)
  then show ?thesis using e' by (cases "j = k") (auto simp: map_of_put revised_def)
next
  case (CancelBegun k e f)
  then show ?thesis using e' startable_live[OF CancelBegun(4)] by (cases "j = k") (auto simp: map_of_put revised_def)
next
  case (Turned i k e f a)
  have "is_live e" using Turned(2) attempts_okD(2)[OF attempts Turned(1,2)] Turned(3) fits_live[of "ts_attempts s ! i" e] by auto
  then show ?thesis using e' Turned by (cases "j = k") (auto simp: map_of_put revised_def)
next
  case (Purged h)
  then show ?thesis using e' map_of_filter_keys[OF assms(2)] by (auto split: option.splits if_splits)
qed (use e' in auto)

lemma covered_effect:
  assumes "transfer_effect s s'" and "keys_ok (ts_entries s)" and "attempts_ok s" and "h \<in> set (ts_retired s)" and "covered s h cs"
  shows "covered s' h cs"
  unfolding covered_def
proof (intro allI impI)
  fix j e'
  assume e': "map_of (ts_entries s') j = Some e'" "tj_host_id (te_job e') = h" "is_live e'"
  from effect_hosts[OF assms(1-3) e'(1)] e'(2,3) assms(4)
  obtain e where "map_of (ts_entries s) j = Some e" "tj_host_id (te_job e) = h" "te_control e = te_control e'" "is_live e" by auto
  with assms(5) show "te_control e' \<in> set cs" unfolding covered_def by metis
qed

text \<open>The host \<open>h\<close> stays retired and idle.\<close>

definition host_kept :: "string \<Rightarrow> transfers \<Rightarrow> transfers \<Rightarrow> bool" where
  "host_kept h s s' \<longleftrightarrow> (h \<in> set (ts_retired s) \<longrightarrow> h \<in> set (ts_retired s'))
     \<and> (is_retired h (ts_barrier s) \<longrightarrow> is_retired h (ts_barrier s') \<and> active_of (ts_barrier s') h \<le> active_of (ts_barrier s) h)"

lemma host_kept_same: "same_hosts s s' \<Longrightarrow> host_kept h s s'"
  by (simp add: same_hosts_def host_kept_def)

lemma begin_kept:
  assumes "begin_host_operation g b = (r, b')"
  shows "is_retired h b' = is_retired h b" and "is_retired h b \<Longrightarrow> active_of b' h = active_of b h"
  using assms hb.begin_retired[of h g b] hb.begin_active[of g b h]
  by (auto simp: begin_host_operation_def split: prod.splits bool.splits if_splits)

lemma step_keeps_host:
  assumes inv: "transfers_inv s" and h: "m \<noteq> RestoreHost h \<or> list_ex (\<lambda>r. removal_of r = Some h) (ts_removals s)"
  shows "host_kept h s (transfer_step is_absolute m s)"
proof (cases m)
  case (StartTransfer j now host op)
  obtain r t where t: "start_registered j now host op s = (r, t)" by fastforce
  then show ?thesis using StartTransfer start_effect[OF _ t] host_kept_same[of s t h] by (auto simp: host_kept_def)
next
  case (CancelTransfer j now)
  obtain r t where t: "cancel_transfer j now s = (r, t)" by fastforce
  then show ?thesis using CancelTransfer cancel_effect[OF t] by (auto simp: host_kept_def)
next
  case (DeliverCancel i)
  then show ?thesis using deliver_effect[of i s] host_kept_same by (auto simp: host_kept_def)
next
  case (RetryTransfer j now host)
  obtain r t where t: "retry_registered is_absolute j now host s = (r, t)" by fastforce
  then show ?thesis using RetryTransfer retry_effect[OF transfers_invD(3)[OF inv] t] host_kept_same[of s t h] by auto
next
  case (AttemptTurn i now result)
  have "ts_barrier (attempt_turn i now result s) = ts_barrier s
      \<or> (\<exists>g r. begin_host_operation g (ts_barrier s) = (r, ts_barrier (attempt_turn i now result s)))
      \<or> (\<exists>g. ts_barrier (attempt_turn i now result s) = end_lease g (ts_barrier s))"
    by (cases "ts_attempts s ! i")
      (auto simp: attempt_turn_def begin_attempt_def Let_def split: option.splits sum.splits prod.splits)
  moreover have "i < length (ts_attempts s) \<Longrightarrow> ts_retired (attempt_turn i now result s) = ts_retired s"
    using turn_effect[OF transfers_invD(1,2)[OF inv]] by blast
  ultimately show ?thesis
    using AttemptTurn begin_kept hb.end_retired hb.end_active by (auto simp: host_kept_def)
next
  case (RemoveHost g)
  then show ?thesis by (simp add: begin_removal_def host_kept_def)
next
  case (RemovalTurn k now late)
  have "host_kept h s (removal_turn k now late s)"
  proof (cases "ts_removals s ! k")
    case (Marked g)
    then show ?thesis using hb.retire_retired hb.retire_active by (simp add: removal_turn_def set_removal_def host_kept_def)
  next
    case (CancelEach g ids cs)
    show ?thesis
    proof (cases ids)
      case (Cons j js)
      obtain r t where t: "cancel_transfer j now s = (r, t)" by fastforce
      then show ?thesis using CancelEach Cons cancel_effect[OF t] by (simp add: removal_turn_def set_removal_def host_kept_def)
    qed (use CancelEach in \<open>simp add: removal_turn_def set_removal_def host_kept_def\<close>)
  next
    case (Waiting g cs)
    then show ?thesis by (cases cs) (simp_all add: removal_turn_def set_removal_def host_kept_def)
  qed (simp_all add: removal_turn_def set_removal_def host_kept_def)
  then show ?thesis using RemovalTurn by (simp add: host_kept_def)
next
  case (RestoreHost g)
  show ?thesis
  proof (cases "g = h")
    case True
    then show ?thesis using RestoreHost h by (auto simp: host_kept_def)
  next
    case False
    then show ?thesis using RestoreHost hb.restore_retired hb.restore_active by (auto simp: host_kept_def restore_transfers_def)
  qed
next
  case (BeginDirect g)
  then show ?thesis using begin_kept[of g "ts_barrier s"]
    by (auto simp: host_kept_def split: prod.splits sum.splits)
next
  case (EndDirect g)
  then show ?thesis using hb.end_retired hb.end_active by (auto simp: host_kept_def)
qed

lemma removal_ok_keep:
  assumes "removal_ok s r" and "\<And>h. removal_of r = Some h \<Longrightarrow> host_kept h s s'" and "transfer_effect s s'"
    and "keys_ok (ts_entries s)" and "attempts_ok s"
  shows "removal_ok s' r"
  using assms(1) assms(2) covered_effect[OF assms(3-5)]
  by (cases r) (auto simp: host_kept_def)

text \<open>One turn of a removal leaves it in order.\<close>

lemma covered_matching:
  "keys_ok (ts_entries s) \<Longrightarrow> covered s h (map (te_control \<circ> snd) (matching_transfers h s))"
  unfolding covered_def matching_transfers_def by (force simp flip: in_set_map_of simp: image_iff)

lemma covered_finished:
  "controls_ok s \<Longrightarrow> covered s h (c # cs) \<Longrightarrow> tc_finished (ts_controls s ! c) \<Longrightarrow> covered s h cs"
  unfolding covered_def using controls_okD(3) by (metis set_ConsD)

lemma covered_cong: "ts_entries s' = ts_entries s \<Longrightarrow> covered s' h cs = covered s h cs"
  by (simp add: covered_def)

lemma removal_turn_shape:
  assumes inv: "transfers_inv s" and k: "k < length (ts_removals s)"
  shows "\<exists>r. ts_removals (removal_turn k now late s) = (ts_removals s)[k := r] \<and> removal_ok (removal_turn k now late s) r"
proof -
  let ?s' = "removal_turn k now late s"
  have ok: "removal_ok s (ts_removals s ! k)" using transfers_invD(6)[OF inv] k by (simp add: removals_ok_def)
  note keys = transfers_invD(7)[OF inv]
  show ?thesis
  proof (cases "ts_removals s ! k")
    case (Marked h)
    then show ?thesis using ok hb.retire_retired
      by (intro exI[of _ "Retired h"]) (simp add: removal_turn_def set_removal_def)
  next
    case (Retired h)
    then show ?thesis using ok covered_matching[OF keys, of h]
      by (intro exI[of _ "CancelEach h (map fst (matching_transfers h s)) (map (te_control \<circ> snd) (matching_transfers h s))"])
        (simp add: removal_turn_def set_removal_def covered_def)
  next
    case (CancelEach h ids cs)
    show ?thesis
    proof (cases ids)
      case Nil
      then show ?thesis using CancelEach ok by (intro exI[of _ "Waiting h cs"]) (simp add: removal_turn_def set_removal_def covered_def)
    next
      case (Cons j js)
      obtain r t where t: "cancel_transfer j now s = (r, t)" by fastforce
      note e = cancel_effect[OF t]
      have "covered t h cs" using covered_effect[OF conjunct1[OF e] keys transfers_invD(1)[OF inv]] ok CancelEach by simp
      then show ?thesis using CancelEach Cons t e ok
        by (intro exI[of _ "CancelEach h js cs"]) (simp add: removal_turn_def set_removal_def covered_def)
    qed
  next
    case (Waiting h cs)
    show ?thesis
    proof (cases late)
      case True
      then show ?thesis using Waiting by (intro exI[of _ GaveUp]) (simp add: removal_turn_def set_removal_def)
    next
      case False
      show ?thesis
      proof (cases cs)
        case Nil
        then show ?thesis
          using Waiting ok False list_update_id[of "ts_removals s" k]
          by (intro exI[of _ "if idle_check h (ts_barrier s) then Purging h else Waiting h []"])
            (simp add: removal_turn_def set_removal_def covered_def idle_check_iff)
      next
        case (Cons c ds)
        then show ?thesis
          using Waiting ok False list_update_id[of "ts_removals s" k] covered_finished[OF transfers_invD(2)[OF inv], of h c ds]
          by (intro exI[of _ "if tc_finished (ts_controls s ! c) then Waiting h ds else Waiting h cs"])
            (auto simp: removal_turn_def set_removal_def covered_def)
      qed
    qed
  next
    case (Purging h)
    then show ?thesis by (intro exI[of _ "Removed h"]) (simp add: removal_turn_def set_removal_def)
  next
    case (Removed h)
    then show ?thesis using list_update_id[of "ts_removals s" k] by (intro exI[of _ "Removed h"]) (simp add: removal_turn_def)
  next
    case GaveUp
    then show ?thesis using list_update_id[of "ts_removals s" k] by (intro exI[of _ GaveUp]) (simp add: removal_turn_def)
  qed
qed

lemma removals_frame:
  "(\<nexists>h. m = RemoveHost h) \<Longrightarrow> (\<nexists>k now late. m = RemovalTurn k now late) \<Longrightarrow> transfers_inv s \<Longrightarrow>
     ts_removals (transfer_step is_absolute m s) = ts_removals s"
proof (cases m)
  case (StartTransfer j now host op)
  then show ?thesis using start_effect[of s j now host op] by (cases "start_registered j now host op s") (auto simp: same_hosts_def)
next
  case (CancelTransfer j now)
  then show ?thesis using cancel_effect[of j now s] by (cases "cancel_transfer j now s") auto
next
  case (DeliverCancel i)
  then show ?thesis using deliver_effect[of i s] by (auto simp: same_hosts_def)
next
  case (RetryTransfer j now host)
  assume "transfers_inv s"
  then show ?thesis using RetryTransfer retry_effect[OF transfers_invD(3), of s is_absolute j now host]
    by (cases "retry_registered is_absolute j now host s") (auto simp: same_hosts_def)
next
  case (AttemptTurn i now result)
  assume "transfers_inv s"
  then show ?thesis using AttemptTurn turn_effect[OF transfers_invD(1,2), of s i now result] by auto
qed (auto simp: restore_transfers_def split: prod.splits sum.splits)

lemma removals_step:
  assumes inv: "transfers_inv s"
  shows "removals_ok (transfer_step is_absolute m s)"
proof -
  let ?s' = "transfer_step is_absolute m s"
  have keep: "removal_ok ?s' r" if "r \<in> set (ts_removals s)" for r
  proof (rule removal_ok_keep[OF _ _ step_effect[OF transfers_invD(1-3)[OF inv]] transfers_invD(7,1)[OF inv]])
    show "removal_ok s r" using transfers_invD(6)[OF inv] that by (simp add: removals_ok_def)
    show "host_kept h s ?s'" if "removal_of r = Some h" for h
      using that \<open>r \<in> set (ts_removals s)\<close> by (intro step_keeps_host[OF inv]) (auto simp: list_ex_iff)
  qed
  consider (new) h where "m = RemoveHost h" | (turn) k now late where "m = RemovalTurn k now late" "k < length (ts_removals s)"
    | (same) "ts_removals ?s' = ts_removals s"
  proof (cases m)
    case (RemovalTurn k now late)
    then show ?thesis using that(2,3) by (cases "k < length (ts_removals s)") simp_all
  qed (use removals_frame[of m s is_absolute, OF _ _ inv] that in auto)
  then show ?thesis
  proof cases
    case new
    then have "ts_removals ?s' = ts_removals s @ [Marked h]" "h \<in> set (ts_retired ?s')" by (simp_all add: begin_removal_def)
    then show ?thesis using keep by (auto simp: removals_ok_def)
  next
    case turn
    obtain r where "ts_removals ?s' = (ts_removals s)[k := r]" "removal_ok ?s' r"
      using removal_turn_shape[OF inv turn(2), of now late] turn by auto
    then show ?thesis using keep set_update_subset_insert[of "ts_removals s" k r] by (auto simp: removals_ok_def)
  qed (use keep in \<open>simp add: removals_ok_def\<close>)
qed

section \<open>Reachable registries\<close>

lemma transfer_step_inv:
  assumes "transfers_inv s"
  shows "transfers_inv (transfer_step is_absolute m s)"
proof -
  note inv = transfers_invD[OF assms] and effect = step_effect[OF transfers_invD(1-3)[OF assms], of is_absolute m]
  show ?thesis
    unfolding transfers_inv_def
    using attempts_effect[OF inv(1) purges_idle[OF inv(6)] effect] controls_effect[OF inv(2,1) effect]
      hosts_effect[OF inv(3,7) effect] bounds_effect[OF inv(4,7,1) effect] direct_leases_step[OF inv(5,1,4,3)] removals_step[OF assms]
    by blast
qed

lemma new_transfers_inv: "transfers_inv new_transfers"
  by (simp add: transfers_inv_def new_transfers_def attempts_ok_def keys_ok_def controls_ok_def hosts_ok_def transfers_bounded_def
      live_transfers_def count_where_def MAX_RETAINED_TRANSFERS_def leases_ok_def working_def removals_ok_def active_of_def
      or_default_def default_host_operation_state_def MAX_ACTIVE_TRANSFERS_def u64_max_def)

lemma run_transfers_inv: "transfers_inv s \<Longrightarrow> transfers_inv (run_transfers is_absolute ms s)"
  unfolding run_transfers_def by (induction ms arbitrary: s) (simp_all add: transfer_step_inv)

lemmas reached_transfers_inv = run_transfers_inv[OF new_transfers_inv]

end
