(* ===== verification/TransferProps.thy ===== *)
theory TransferProps
  imports TransfersSafe
begin

text \<open>
  What the registry of transfers of \<^verbatim>\<open>sftp.rs\<close> guarantees over all interleavings, and two histories in
  which cancelling a transfer does not come out as its table of transitions says.
\<close>

section \<open>One attempt for each transfer\<close>

text \<open>
  C32: in every reachable registry each transfer that is not finished has exactly one attempt, and each
  attempt that is not over belongs to a transfer that is not finished, in a state that fits: queued or
  being cancelled before it begins, running or being cancelled afterwards, with the control and the
  connection that the registry has for it.  No two transfers share a control.
\<close>

theorem one_attempt_per_transfer:
  assumes "s = run_transfers is_absolute moves new_transfers"
  shows "(\<forall>j e. map_of (ts_entries s) j = Some e \<longrightarrow> is_live e \<longrightarrow>
       (\<exists>!i. i < length (ts_attempts s) \<and> attempt_job (ts_attempts s ! i) = Some j))
    \<and> (\<forall>i < length (ts_attempts s). \<forall>j. attempt_job (ts_attempts s ! i) = Some j \<longrightarrow>
       (\<exists>e. map_of (ts_entries s) j = Some e \<and> is_live e \<and> attempt_fits (ts_attempts s ! i) e))
    \<and> (\<forall>j j' e e'. map_of (ts_entries s) j = Some e \<longrightarrow> map_of (ts_entries s) j' = Some e' \<longrightarrow>
       te_control e = te_control e' \<longrightarrow> j = j')"
proof -
  have "transfers_inv s" using reached_transfers_inv assms by simp
  note inv = transfers_invD(1,2)[OF this] and D = attempts_okD[OF inv(1)]
  have "\<exists>!i. i < length (ts_attempts s) \<and> attempt_job (ts_attempts s ! i) = Some j"
    if "map_of (ts_entries s) j = Some e" "is_live e" for j e
    using D(4)[OF that] D(3) by blast
  moreover have "\<exists>e. map_of (ts_entries s) j = Some e \<and> is_live e \<and> attempt_fits (ts_attempts s ! i) e"
    if "i < length (ts_attempts s)" "attempt_job (ts_attempts s ! i) = Some j" for i j
    using D(2)[OF that] fits_live that(2) by auto
  moreover note controls_okD(2)[OF inv(2)]
  ultimately show ?thesis by blast
qed

section \<open>Bounds\<close>

text \<open>
  In every reachable registry at most eight transfers are not finished, at most 512 are kept, at most
  eight attempts are at work, and the barrier counts for every host exactly the attempts at work on it
  and the direct operations.
\<close>

theorem transfers_are_bounded:
  assumes "s = run_transfers is_absolute moves new_transfers"
  shows "live_transfers (ts_entries s) \<le> 8 \<and> length (ts_entries s) \<le> 512
    \<and> length (filter (\<lambda>a. attempt_job a \<noteq> None) (ts_attempts s)) \<le> 8
    \<and> (\<forall>h. active_of (ts_barrier s) h = working h s + count_list (ts_direct s) h)"
proof -
  have "transfers_inv s" using reached_transfers_inv assms by simp
  note inv = transfers_invD[OF this]
  show ?thesis
    using inv(4) attempts_few[OF inv(1)] inv(5)
    by (simp add: transfers_bounded_def MAX_ACTIVE_TRANSFERS_def MAX_RETAINED_TRANSFERS_def leases_ok_def)
qed

section \<open>The life of a transfer\<close>

lemma pruned_lookup:
  assumes "keys_ok es"
  shows "map_of (prune_terminal_transfers es n) j = map_of es j
    \<or> map_of (prune_terminal_transfers es n) j = None \<and> (\<exists>e. map_of es j = Some e \<and> \<not> is_live e)"
  using prune_transfers_map_of[OF assms, of n j] prune_is_live[OF assms, of j _ n]
  by (cases "map_of (prune_terminal_transfers es n) j"; cases "map_of es j") auto

lemma effect_life:
  assumes effect: "transfer_effect s s'" and keys: "keys_ok (ts_entries s)"
  shows "case (map_of (ts_entries s) j, map_of (ts_entries s') j) of
      (Some e, Some e') \<Rightarrow> e' = e \<or> revised e e'
    | (None, Some e') \<Rightarrow> tj_state (te_job e') = TfQueued \<and> tj_revision (te_job e') = 1
    | (Some e, None) \<Rightarrow> \<not> is_live e \<or> (\<exists>h. Purging h \<in> set (ts_removals s) \<and> tj_host_id (te_job e) = h)
    | (None, None) \<Rightarrow> True"
  using effect
proof (cases rule: transfer_effect.cases)
  case Pruned
  then show ?thesis
    using pruned_lookup[OF keys, of MAX_RETAINED_TRANSFERS j] by (auto split: option.splits)
next
  case (Started k e now)
  then show ?thesis
    using pruned_lookup[OF keys, of MAX_RETAINED_TRANSFERS j] by (auto simp: map_of_put split: option.splits)
next
  case (Purged h)
  then show ?thesis using map_of_filter_keys[OF keys] by (auto split: option.splits if_splits)
qed (auto simp: map_of_put split: option.splits)


section \<open>Removing a host\<close>

text \<open>Nothing of the host is left, and its barrier is closed.\<close>

definition transfers_gone :: "string \<Rightarrow> transfers \<Rightarrow> bool" where
  "transfers_gone h s \<longleftrightarrow> h \<in> set (ts_retired s) \<and> is_retired h (ts_barrier s) \<and> active_of (ts_barrier s) h = 0
     \<and> (\<forall>j e. map_of (ts_entries s) j = Some e \<longrightarrow> tj_host_id (te_job e) \<noteq> h)"

lemma gone_step:
  assumes inv: "transfers_inv s" and gone: "transfers_gone h s" and m: "m \<noteq> RestoreHost h"
  shows "transfers_gone h (transfer_step is_absolute m s)"
proof -
  note I = transfers_invD[OF inv]
  have "host_kept h s (transfer_step is_absolute m s)" using step_keeps_host[OF inv] m by blast
  moreover have "tj_host_id (te_job e) \<noteq> h" if "map_of (ts_entries (transfer_step is_absolute m s)) j = Some e" for j e
    using effect_hosts[OF step_effect[OF I(1-3)] I(7,1) that] gone by (auto simp: transfers_gone_def)
  ultimately show ?thesis using gone by (auto simp: transfers_gone_def host_kept_def)
qed

lemma gone_run:
  "transfers_inv s \<Longrightarrow> transfers_gone h s \<Longrightarrow> RestoreHost h \<notin> set ms \<Longrightarrow> transfers_gone h (run_transfers is_absolute ms s)"
  unfolding run_transfers_def
proof (induction ms arbitrary: s)
  case (Cons m ms)
  then show ?case using Cons.IH[OF transfer_step_inv gone_step, of s m] by auto
qed simp

lemma purge_gone:
  assumes "transfers_inv s" and "k < length (ts_removals s)" and "ts_removals s ! k = Purging h"
  shows "transfers_gone h (transfer_step is_absolute (RemovalTurn k now late) s)"
proof -
  have "removal_ok s (Purging h)" using transfers_invD(6)[OF assms(1)] nth_mem[OF assms(2)] assms(3) by (auto simp: removals_ok_def)
  then show ?thesis
    using assms(2,3) map_of_filter_keys[OF transfers_invD(7)[OF assms(1)]]
    by (auto simp: transfers_gone_def removal_turn_def set_removal_def split: option.splits if_splits)
qed

lemma gone_nothing:
  assumes inv: "transfers_inv s" and gone: "transfers_gone h s"
  shows "(\<forall>j e. map_of (ts_entries s) j = Some e \<longrightarrow> tj_host_id (te_job e) \<noteq> h) \<and> working h s = 0 \<and> h \<notin> set (ts_direct s)
    \<and> \<not> is_ok (fst (begin_host_operation h (ts_barrier s)))
    \<and> (\<forall>host. hp_id host = h \<longrightarrow> \<not> is_ok (fst (start_registered j now host op s)) \<and> \<not> is_ok (fst (retry_registered is_absolute j now host s)))"
proof -
  have "working h s + count_list (ts_direct s) h = 0" using transfers_invD(5)[OF inv] gone by (simp add: leases_ok_def transfers_gone_def)
  moreover have "\<not> is_ok (fst (begin_host_operation h (ts_barrier s)))"
    using hb.begin_granted[of h "ts_barrier s"] gone
    by (auto simp: begin_host_operation_def transfers_gone_def split: prod.splits bool.splits)
  ultimately show ?thesis
    using gone by (auto simp: transfers_gone_def count_list_0_iff start_registered_def retry_registered_def)
qed


section \<open>Editing a connection\<close>

text \<open>
  A change of a host's connection settings is saved only when no attempt uses them: if
  \<^verbatim>\<open>apply_host_update\<close> runs the update and the settings differ, no attempt that is not over goes to the
  host or jumps through it.
\<close>

theorem edited_connection_is_unused:
  assumes "s = run_transfers is_absolute moves new_transfers" and "\<not> same_connection_profile previous updated"
    and "transfers_host_update previous updated update s r \<noteq> (Inl (State ''stop active transfers before changing these SSH connection settings''), r)"
    and "i < length (ts_attempts s)" and "attempt_job (ts_attempts s ! i) = Some j"
  shows "\<exists>e. map_of (ts_entries s) j = Some e \<and> attempt_fits (ts_attempts s ! i) e \<and> \<not> connection_uses_host (te_host e) previous"
proof -
  have "transfers_inv s" using reached_transfers_inv assms(1) by simp
  note inv = transfers_invD[OF this]
  obtain e where e: "map_of (ts_entries s) j = Some e" "attempt_fits (ts_attempts s ! i) e" "is_live e"
    using attempts_okD(2)[OF inv(1) assms(4,5)] fits_live assms(5) by auto
  have "(j, e) \<in> set (ts_entries s)" using e(1) inv(7) by (simp add: in_set_map_of)
  then have "\<not> connection_uses_host (te_host e) previous"
    using assms(2,3) e(3) by (auto simp: transfers_host_update_def list_ex_iff is_live_terminal split: if_splits)
  with e show ?thesis by blast
qed

section \<open>Histories\<close>

definition sample_connection :: "string \<Rightarrow> host_profile" where
  "sample_connection h = \<lparr>hp_schema_version = 1, hp_id = h, hp_alias = h, hp_hostname = h, hp_port = 22, hp_username = ''u'',
     hp_auth_method = Agent, hp_identity_file = None, hp_proxy_jump = None, hp_default_workspace = ''~'', hp_groups = [],
     hp_advanced = default_ssh_advanced_options, hp_monitor_enabled = False, hp_created_at = 0, hp_updated_at = 0\<rparr>"

definition sample_upload :: transfer_operation where
  "sample_upload = UploadOp \<lparr>ur_local_path = ''/f'', ur_remote_path = ''/d/f'', ur_conflict_policy = PolicyAsk, ur_recursive = False\<rparr>"

definition sample_outcome :: transfer_outcome where
  "sample_outcome = \<lparr>ou_destination = ''/d/f'', ou_total_bytes = 3, ou_skipped = False\<rparr>"

text \<open>Two transfers; the first one works when its host is removed.\<close>

definition sample_working :: "transfer_move list" where
  "sample_working = [StartTransfer ''a'' 1 (sample_connection ''h'') sample_upload, StartTransfer ''b'' 2 (sample_connection ''g'') sample_upload,
     AttemptTurn 0 3 (Inl Cancelled), AttemptTurn 0 4 (Inl Cancelled)]"

definition sample_removal :: "transfer_move list" where
  "sample_removal = sample_working @ [RemoveHost ''h'', RemovalTurn 0 5 False, RemovalTurn 0 6 False, RemovalTurn 0 7 False,
     DeliverCancel 0, RemovalTurn 0 8 False, AttemptTurn 0 9 (Inl Cancelled), AttemptTurn 0 10 (Inl Cancelled),
     AttemptTurn 0 11 (Inl Cancelled), RemovalTurn 0 12 False, RemovalTurn 0 13 False]"

definition sample_registry :: "transfer_move list \<Rightarrow> transfers" where
  "sample_registry moves = run_transfers (\<lambda>_. True) moves new_transfers"

definition state_of_transfer :: "string \<Rightarrow> transfers \<Rightarrow> transfer_state option" where
  "state_of_transfer j s = map_option (\<lambda>e. tj_state (te_job e)) (map_of (ts_entries s) j)"

lemma one_attempt_per_transfer_witness:
  "\<exists>!i. i < length (ts_attempts (sample_registry sample_working)) \<and> attempt_job (ts_attempts (sample_registry sample_working) ! i) = Some ''a''"
proof -
  have "(case map_of (ts_entries (sample_registry sample_working)) ''a'' of None \<Rightarrow> False | Some e \<Rightarrow> is_live e)" by code_simp
  then show ?thesis
    using one_attempt_per_transfer[OF sample_registry_def, of sample_working] by (auto split: option.splits)
qed

lemma transfers_are_bounded_witness:
  "active_of (ts_barrier (sample_registry sample_working)) ''h'' = 1 \<and> live_transfers (ts_entries (sample_registry sample_working)) \<le> 8"
proof -
  have "working ''h'' (sample_registry sample_working) = 1" "ts_direct (sample_registry sample_working) = []" by code_simp+
  then show ?thesis using transfers_are_bounded[OF sample_registry_def, of sample_working] by simp
qed



lemma edited_connection_is_unused_witness:
  "\<exists>e. map_of (ts_entries (sample_registry sample_working)) ''b'' = Some e \<and> \<not> connection_uses_host (te_host e) (sample_connection ''x'')"
proof -
  let ?s = "sample_registry sample_working" and ?u = "(sample_connection ''x'')\<lparr>hp_port := 23\<rparr>"
  have differs: "\<not> same_connection_profile (sample_connection ''x'') ?u"
    by (simp add: same_connection_profile_def sample_connection_def)
  have free: "transfers_host_update (sample_connection ''x'') ?u (\<lambda>r. (Inr (), r)) ?s () \<noteq>
      (Inl (State ''stop active transfers before changing these SSH connection settings''), ())" by code_simp
  have "1 < length (ts_attempts ?s)" "attempt_job (ts_attempts ?s ! 1) = Some ''b''" by code_simp+
  from edited_connection_is_unused[OF sample_registry_def differs free this] show ?thesis by blast
qed

section \<open>Cancelling a transfer\<close>

text \<open>
  \<^verbatim>\<open>cancel\<close> marks the job before it cancels the control: an attempt that begins in between takes the job
  for one in a state it cannot start from, and the cancelled transfer is recorded as failed.
\<close>

lemma cancelled_transfer_can_fail:
  "state_of_transfer ''a'' (sample_registry [StartTransfer ''a'' 1 (sample_connection ''h'') sample_upload, CancelTransfer ''a'' 2,
     AttemptTurn 0 3 (Inl Cancelled), DeliverCancel 0]) = Some TfFailed"
  by code_simp

text \<open>
  The end of an attempt does not go through the table of transitions: a transfer that is being cancelled
  is recorded as completed when its attempt came to an end first, an edge the table does not have.
\<close>

lemma cancelled_transfer_can_complete:
  "state_of_transfer ''a'' (sample_registry (sample_working @ [AttemptTurn 0 5 (Inr sample_outcome), CancelTransfer ''a'' 6,
     DeliverCancel 0, AttemptTurn 0 7 (Inl Cancelled)])) = Some TfCompleted
   \<and> \<not> is_ok (transition TfCancelling TfCompleted)"
  by code_simp

end
