(* ===== verification/TunnelLog.thy ===== *)
theory TunnelLog
  imports Model Utf8
begin

text \<open>
  \<^verbatim>\<open>crates/remotedeck-core/src/tunnel.rs\<close> and \<^verbatim>\<open>model.rs\<close>: the state of one tunnel, its bounded log, and the
  lines that the ssh process of a tunnel writes to its standard error.
\<close>

section \<open>Snapshots\<close>

datatype tunnel_runtime_state = TunStopped | TunStarting | TunRunning | TunWaiting | TunFailed

datatype tunnel_health_state = HealthUnknown | HealthHealthy | HealthDegraded | HealthFailed

datatype tunnel_log_level = LogInfo | LogWarn | LogError

record tunnel_log_entry =
  tl_at :: timestamp
  tl_level :: tunnel_log_level
  tl_message :: string

record tunnel_snapshot =
  tsn_tunnel_id :: string
  tsn_revision :: nat
  tsn_profile :: "tunnel_profile option"
  tsn_state :: tunnel_runtime_state
  tsn_health :: "tunnel_health_state option"
  tsn_uptime_seconds :: "nat option"
  tsn_reconnect_count :: "nat option"
  tsn_message :: "string option"
  tsn_logs :: "tunnel_log_entry list option"

definition MAX_LOG_ENTRIES :: nat where "MAX_LOG_ENTRIES = 50"
definition MAX_LOG_MESSAGE_BYTES :: nat where "MAX_LOG_MESSAGE_BYTES = 2048"
definition MAX_RUNTIME_LOG_BYTES :: nat where "MAX_RUNTIME_LOG_BYTES = 16 * 1024 * 1024"
definition MAX_RUNTIME_ENTRIES :: nat where "MAX_RUNTIME_ENTRIES = 256"
definition MAX_LOG_BYTES_PER_TUNNEL :: nat where
  "MAX_LOG_BYTES_PER_TUNNEL = MAX_RUNTIME_LOG_BYTES div MAX_RUNTIME_ENTRIES"
definition LOG_ENTRY_OVERHEAD_BYTES :: nat where "LOG_ENTRY_OVERHEAD_BYTES = 64"

lemmas log_limits = MAX_LOG_ENTRIES_def MAX_LOG_MESSAGE_BYTES_def MAX_LOG_BYTES_PER_TUNNEL_def
  MAX_RUNTIME_LOG_BYTES_def MAX_RUNTIME_ENTRIES_def LOG_ENTRY_OVERHEAD_BYTES_def

text \<open>
  \<^verbatim>\<open>TunnelInner\<close>.  The instant \<open>tu_started_at\<close> is in milliseconds; \<open>tu_child\<close> names the ssh process the
  tunnel owns.
\<close>

record tunnel_inner =
  tu_host_id :: string
  tu_host_profile :: "host_profile option"
  tu_profile :: tunnel_profile
  tu_state :: tunnel_runtime_state
  tu_health :: tunnel_health_state
  tu_started_at :: "nat option"
  tu_reconnect_count :: nat
  tu_message :: "string option"
  tu_logs :: "tunnel_log_entry list"
  tu_log_bytes :: nat
  tu_last_process_error :: "string option"
  tu_desired_running :: bool
  tu_worker_active :: bool
  tu_retired :: bool
  tu_generation :: nat
  tu_revision :: nat
  tu_child :: "nat option"

definition new_tunnel_inner :: "tunnel_profile \<Rightarrow> tunnel_inner" where
  "new_tunnel_inner profile = \<lparr>tu_host_id = tp_host_id profile, tu_host_profile = None, tu_profile = profile,
     tu_state = TunStopped, tu_health = HealthUnknown, tu_started_at = None, tu_reconnect_count = 0, tu_message = None,
     tu_logs = [], tu_log_bytes = 0, tu_last_process_error = None, tu_desired_running = False, tu_worker_active = False,
     tu_retired = False, tu_generation = 0, tu_revision = 0, tu_child = None\<rparr>"

section \<open>The log\<close>

definition limit_message :: "string \<Rightarrow> string" where
  "limit_message message =
     (if length message \<le> MAX_LOG_MESSAGE_BYTES then message
      else take (floor_boundary message MAX_LOG_MESSAGE_BYTES) message @ '' [truncated]'')"

definition log_entry_bytes :: "tunnel_log_entry \<Rightarrow> nat" where
  "log_entry_bytes e = saturating_add64 (length (tl_message e)) LOG_ENTRY_OVERHEAD_BYTES"

text \<open>The loop that drops the oldest entries.\<close>

fun trim_tunnel_log :: "tunnel_log_entry list \<Rightarrow> nat \<Rightarrow> tunnel_log_entry list \<times> nat" where
  "trim_tunnel_log logs log_bytes =
     (if length logs > MAX_LOG_ENTRIES \<or> log_bytes > MAX_LOG_BYTES_PER_TUNNEL
      then (case logs of
          [] \<Rightarrow> ([], 0)
        | removed # rest \<Rightarrow> trim_tunnel_log rest (log_bytes - log_entry_bytes removed))
      else (logs, log_bytes))"

declare trim_tunnel_log.simps [simp del]

definition append_log_locked :: "timestamp \<Rightarrow> tunnel_log_level \<Rightarrow> string \<Rightarrow> tunnel_inner \<Rightarrow> tunnel_inner" where
  "append_log_locked now level message inner =
     (let message = limit_message message
      in if tu_logs inner \<noteq> [] \<and> tl_level (last (tu_logs inner)) = level \<and> tl_message (last (tu_logs inner)) = message
         then inner
         else
           let entry = \<lparr>tl_at = now, tl_level = level, tl_message = message\<rparr>;
               log_bytes = saturating_add64 (tu_log_bytes inner) (log_entry_bytes entry);
               (logs, log_bytes) = trim_tunnel_log (tu_logs inner @ [entry]) log_bytes
           in inner\<lparr>tu_logs := logs, tu_log_bytes := log_bytes\<rparr>)"

section \<open>The standard error of the process\<close>

definition level_words :: "string list" where
  "level_words = [''error'', ''failed'', ''denied'', ''timed out'', ''refused'', ''could not resolve'', ''host key'',
     ''connection closed'']"

definition trim_end_cr :: "string \<Rightarrow> string" where
  "trim_end_cr s = rev (dropWhile (\<lambda>c. c = CHR 0x0D) (rev s))"

text \<open>What a line says, unless it is blank: the first part of \<^verbatim>\<open>record_process_line\<close>.\<close>

definition process_line :: "string \<times> bool \<Rightarrow> (tunnel_log_level \<times> string) option" where
  "process_line l =
     (case l of (bytes, truncated) \<Rightarrow>
        let message = trim (trim_end_cr (from_utf8_lossy bytes))
        in if message = [] then None
           else
             let message = (if truncated then message @ '' [truncated]'' else message);
                 lower = to_ascii_lowercase message
             in Some (if list_ex (str_contains lower) level_words then LogError
                      else if str_contains lower ''warning'' \<or> str_contains lower ''warn'' then LogWarn
                      else LogInfo, message))"

text \<open>
  The loop of \<^verbatim>\<open>drain_stderr\<close> over the bytes of one read: the line so far, whether some of it was dropped,
  and the lines that were recorded.
\<close>

fun drain_chunk :: "string \<Rightarrow> string \<times> bool \<times> (string \<times> bool) list \<Rightarrow> string \<times> bool \<times> (string \<times> bool) list" where
  "drain_chunk [] st = st"
| "drain_chunk (b # bytes) (line, truncated, recorded) =
     drain_chunk bytes
       (if b = CHR 0x0A then ([], False, recorded @ [(line, truncated)])
        else if length line < MAX_LOG_MESSAGE_BYTES then (line @ [b], truncated, recorded)
        else (line, True, recorded))"

text \<open>
  The reads until the end (a read of nothing) or until a read fails; at the end what is left of the last
  line is recorded too.
\<close>

fun drain_reads :: "(unit + string) list \<Rightarrow> string \<times> bool \<times> (string \<times> bool) list \<Rightarrow> (string \<times> bool) list" where
  "drain_reads (Inr (c # cs) # reads) st = drain_reads reads (drain_chunk (c # cs) st)"
| "drain_reads (Inl _ # reads) (line, truncated, recorded) = recorded"
| "drain_reads _ (line, truncated, recorded) =
     (if line \<noteq> [] \<or> truncated then recorded @ [(line, truncated)] else recorded)"

definition drain_stderr :: "(unit + string) list \<Rightarrow> (tunnel_log_level \<times> string) list" where
  "drain_stderr reads = List.map_filter process_line (drain_reads reads ([], False, []))"

section \<open>What the log holds\<close>

definition log_key :: "tunnel_log_entry \<Rightarrow> tunnel_log_level \<times> string" where
  "log_key e = (tl_level e, tl_message e)"

definition log_size :: "tunnel_log_entry list \<Rightarrow> nat" where
  "log_size logs = (\<Sum>e\<leftarrow>logs. length (tl_message e) + 64)"

text \<open>Within the limits, by the lengths of the messages.\<close>

definition log_fits :: "(tunnel_log_level \<times> string) list \<Rightarrow> bool" where
  "log_fits ms \<longleftrightarrow> length ms \<le> 50 \<and> (\<Sum>m\<leftarrow>ms. length (snd m) + 64) \<le> 65536"

text \<open>The longest end of a history that is within the limits.\<close>

fun recent :: "(tunnel_log_level \<times> string) list \<Rightarrow> (tunnel_log_level \<times> string) list" where
  "recent [] = []"
| "recent (m # ms) = (if log_fits (m # ms) then m # ms else recent ms)"

definition log_ok :: "tunnel_inner \<Rightarrow> bool" where
  "log_ok inner \<longleftrightarrow> log_fits (map log_key (tu_logs inner)) \<and> tu_log_bytes inner = log_size (tu_logs inner)
     \<and> (\<forall>e \<in> set (tu_logs inner). length (tl_message e) \<le> 2060)"

lemma log_ok_limits:
  assumes "log_ok inner"
  shows "length (tu_logs inner) \<le> 50" and "tu_log_bytes inner = (\<Sum>e\<leftarrow>tu_logs inner. length (tl_message e) + 64)"
    and "tu_log_bytes inner \<le> 65536"
  using assms by (auto simp: log_ok_def log_fits_def log_size_def log_key_def comp_def)

lemma length_limit_message: "length (limit_message m) \<le> 2060"
  using floor_boundary_le[of m MAX_LOG_MESSAGE_BYTES] by (simp add: limit_message_def log_limits)

lemma log_size_simps [simp]:
  "log_size [] = 0" "log_size (e # es) = length (tl_message e) + 64 + log_size es"
  "log_size (es @ es') = log_size es + log_size es'"
  by (simp_all add: log_size_def)

lemma log_fits_size: "log_fits (map log_key es) \<longleftrightarrow> length es \<le> 50 \<and> log_size es \<le> 65536"
  by (simp add: log_fits_def log_size_def log_key_def comp_def)

lemma log_entry_bytes_small: "length (tl_message e) \<le> 2060 \<Longrightarrow> log_entry_bytes e = length (tl_message e) + 64"
  by (simp add: log_entry_bytes_def log_limits saturating_add64_def u64_max_def)

lemma trim_tunnel_log:
  assumes "\<forall>e \<in> set logs. length (tl_message e) \<le> 2060"
  shows "\<exists>kept. trim_tunnel_log logs (log_size logs) = (kept, log_size kept) \<and> set kept \<subseteq> set logs
    \<and> map log_key kept = recent (map log_key logs)"
  using assms
proof (induction logs)
  case Nil
  then show ?case by (simp add: trim_tunnel_log.simps log_limits)
next
  case (Cons e es)
  then have IH: "\<exists>kept. trim_tunnel_log es (log_size es) = (kept, log_size kept) \<and> set kept \<subseteq> set es
      \<and> map log_key kept = recent (map log_key es)" and small: "log_entry_bytes e = length (tl_message e) + 64"
    by (simp_all add: log_entry_bytes_small)
  show ?case
  proof (cases "log_fits (map log_key (e # es))")
    case True
    then show ?thesis
      using log_fits_size[of "e # es"] by (auto simp: trim_tunnel_log.simps[of "e # es"] log_limits)
  next
    case False
    then have "trim_tunnel_log (e # es) (log_size (e # es)) = trim_tunnel_log es (log_size es)"
      using log_fits_size[of "e # es"] small by (auto simp: trim_tunnel_log.simps[of "e # es"] log_limits)
    moreover have "recent (map log_key (e # es)) = recent (map log_key es)" using False by simp
    ultimately show ?thesis using IH by (metis order_trans set_subset_Cons)
  qed
qed

lemma recent_fits: "log_fits (recent ms)"
  by (induction ms) (auto simp: log_fits_def)

lemma recent_whole: "log_fits ms \<Longrightarrow> recent ms = ms"
  by (cases ms) auto

lemma recent_drops: "\<exists>old. ms = old @ recent ms"
proof (induction ms)
  case (Cons m ms)
  then show ?case by (cases "log_fits (m # ms)") (auto intro: exI[of _ "m # old" for old])
qed simp

lemma log_fits_append: "log_fits (ms @ ms') \<Longrightarrow> log_fits ms'"
  by (auto simp: log_fits_def)

lemma recent_append: "recent (ms @ ms') = recent (recent ms @ ms')"
proof (induction ms)
  case (Cons m ms)
  then show ?case
    using log_fits_append[of "[]"] by (cases "log_fits (m # ms)") (auto simp: log_fits_def)
qed simp

lemma recent_last:
  assumes "length (snd m) \<le> 2060"
  shows "recent (ms @ [m]) \<noteq> [] \<and> last (recent (ms @ [m])) = m"
proof (induction ms)
  case Nil
  then show ?case using assms by (simp add: log_fits_def)
qed auto

lemma append_log:
  fixes message level now
  assumes "log_ok inner"
  defines "m \<equiv> (level, limit_message message)" and "inner' \<equiv> append_log_locked now level message inner"
  shows "log_ok inner'"
    and "map log_key (tu_logs inner') =
      (let ms = map log_key (tu_logs inner) in if ms \<noteq> [] \<and> last ms = m then ms else recent (ms @ [m]))"
proof -
  let ?e = "\<lparr>tl_at = now, tl_level = level, tl_message = limit_message message\<rparr>"
  let ?logs = "tu_logs inner @ [?e]"
  have same: "(tu_logs inner \<noteq> [] \<and> tl_level (last (tu_logs inner)) = level
      \<and> tl_message (last (tu_logs inner)) = limit_message message)
      \<longleftrightarrow> (map log_key (tu_logs inner) \<noteq> [] \<and> last (map log_key (tu_logs inner)) = m)"
    by (auto simp: last_map log_key_def m_def)
  have small: "\<forall>e \<in> set ?logs. length (tl_message e) \<le> 2060"
    using assms(1) length_limit_message[of message] by (auto simp: log_ok_def)
  then obtain kept where kept: "trim_tunnel_log ?logs (log_size ?logs) = (kept, log_size kept)" "set kept \<subseteq> set ?logs"
      "map log_key kept = recent (map log_key ?logs)"
    using trim_tunnel_log by meson
  have "log_size (tu_logs inner) \<le> 65536" using assms(1) by (simp add: log_ok_def log_fits_size)
  then have "saturating_add64 (tu_log_bytes inner) (log_entry_bytes ?e) = log_size ?logs"
    using assms(1) length_limit_message[of message] log_entry_bytes_small[of ?e]
    by (simp add: log_ok_def saturating_add64_def u64_max_def)
  then have step: "inner' = (if map log_key (tu_logs inner) \<noteq> [] \<and> last (map log_key (tu_logs inner)) = m then inner
      else inner\<lparr>tu_logs := kept, tu_log_bytes := log_size kept\<rparr>)"
    using kept(1) unfolding inner'_def append_log_locked_def by (simp only: Let_def same) simp
  have "log_fits (map log_key kept)" using kept(3) recent_fits by simp
  then show "log_ok inner'" using assms(1) small kept(2) by (auto simp: step log_ok_def)
  show "map log_key (tu_logs inner') =
      (let ms = map log_key (tu_logs inner) in if ms \<noteq> [] \<and> last ms = m then ms else recent (ms @ [m]))"
    using kept(3) by (simp add: step Let_def) (simp add: log_key_def m_def)
qed

lemma append_log_fields [simp]:
  "tu_host_id (append_log_locked now level message inner) = tu_host_id inner"
  "tu_host_profile (append_log_locked now level message inner) = tu_host_profile inner"
  "tu_profile (append_log_locked now level message inner) = tu_profile inner"
  "tu_state (append_log_locked now level message inner) = tu_state inner"
  "tu_health (append_log_locked now level message inner) = tu_health inner"
  "tu_started_at (append_log_locked now level message inner) = tu_started_at inner"
  "tu_reconnect_count (append_log_locked now level message inner) = tu_reconnect_count inner"
  "tu_message (append_log_locked now level message inner) = tu_message inner"
  "tu_last_process_error (append_log_locked now level message inner) = tu_last_process_error inner"
  "tu_desired_running (append_log_locked now level message inner) = tu_desired_running inner"
  "tu_worker_active (append_log_locked now level message inner) = tu_worker_active inner"
  "tu_retired (append_log_locked now level message inner) = tu_retired inner"
  "tu_generation (append_log_locked now level message inner) = tu_generation inner"
  "tu_revision (append_log_locked now level message inner) = tu_revision inner"
  "tu_child (append_log_locked now level message inner) = tu_child inner"
  by (simp_all add: append_log_locked_def Let_def split: prod.splits)

lemma remdups_adj_snoc:
  "remdups_adj (xs @ [x]) = (if xs \<noteq> [] \<and> last xs = x then remdups_adj xs else remdups_adj xs @ [x])"
  by (induction xs rule: remdups_adj.induct) auto

text \<open>
  After any sequence of messages the log of a tunnel holds the longest end of what was logged, each
  message cut to its limit and counted once while it repeats, that has at most 50 entries and 64 KiB, and
  the byte count of the log is exact.
\<close>

theorem log_holds_the_recent:
  "let inner = fold (\<lambda>(now, level, message). append_log_locked now level message) messages (new_tunnel_inner profile)
   in map log_key (tu_logs inner) = recent (remdups_adj (map (\<lambda>(now, level, message). (level, limit_message message)) messages))
    \<and> length (tu_logs inner) \<le> 50 \<and> tu_log_bytes inner = (\<Sum>e\<leftarrow>tu_logs inner. length (tl_message e) + 64)
    \<and> tu_log_bytes inner \<le> 65536"
proof -
  let ?inner = "\<lambda>messages. fold (\<lambda>(now, level, message). append_log_locked now level message) messages (new_tunnel_inner profile)"
  let ?seen = "\<lambda>messages. remdups_adj (map (\<lambda>(now, level, message). (level, limit_message message)) messages)"
  have "log_ok (?inner messages) \<and> map log_key (tu_logs (?inner messages)) = recent (?seen messages)
    \<and> (messages \<noteq> [] \<longrightarrow> recent (?seen messages) \<noteq> [] \<and> last (recent (?seen messages)) = last (?seen messages))"
  proof (induction messages rule: rev_induct)
    case Nil
    then show ?case by (simp add: new_tunnel_inner_def log_ok_def log_fits_def)
  next
    case (snoc message messages)
    obtain now level msg where message: "message = (now, level, msg)" by (cases message) auto
    let ?m = "(level, limit_message msg)"
    have fits: "length (snd ?m) \<le> 2060" using length_limit_message by simp
    note step = append_log[where inner = "?inner messages" and now = now and level = level and message = msg]
    have keys: "map log_key (tu_logs (?inner (messages @ [message]))) =
        (if recent (?seen messages) \<noteq> [] \<and> last (recent (?seen messages)) = ?m then recent (?seen messages)
         else recent (recent (?seen messages) @ [?m]))"
      using step(2) snoc.IH by (simp add: message Let_def)
    have seen: "?seen (messages @ [message]) =
        (if ?seen messages \<noteq> [] \<and> last (?seen messages) = ?m then ?seen messages else ?seen messages @ [?m])"
      by (simp add: message remdups_adj_snoc)
    have "log_ok (?inner (messages @ [message]))" using step(1) snoc.IH by (simp add: message)
    moreover have "map log_key (tu_logs (?inner (messages @ [message]))) = recent (?seen (messages @ [message]))"
    proof (cases "messages = []")
      case False
      then show ?thesis using snoc.IH recent_append[of "?seen messages" "[?m]"] unfolding keys seen by auto
    qed (unfold keys seen, simp)
    moreover have "recent (?seen (messages @ [message])) \<noteq> []
        \<and> last (recent (?seen (messages @ [message]))) = last (?seen (messages @ [message]))"
    proof (cases "?seen messages \<noteq> [] \<and> last (?seen messages) = ?m")
      case True
      then show ?thesis using snoc.IH unfolding seen by auto
    next
      case False
      then show ?thesis using recent_last[OF fits, of "?seen messages"] unfolding seen by auto
    qed
    ultimately show ?case by simp
  qed
  then have "log_ok (?inner messages)" "map log_key (tu_logs (?inner messages)) = recent (?seen messages)" by blast+
  then show ?thesis using log_ok_limits unfolding Let_def by blast
qed

section \<open>What the standard error says\<close>

text \<open>The lines of a text, a last one that is empty left out; a long line is cut.\<close>

definition text_lines :: "string \<Rightarrow> string list" where
  "text_lines s = (let ls = split_on (\<lambda>c. c = CHR 0x0A) s in butlast ls @ (if last ls = [] then [] else [last ls]))"

definition cut_line :: "string \<Rightarrow> string \<times> bool" where
  "cut_line l = (take 2048 l, 2048 < length l)"

lemma drain_chunk_append: "drain_chunk (a @ b) st = drain_chunk b (drain_chunk a st)"
  by (induction a st rule: drain_chunk.induct) auto

lemma split_on_has_a_piece: "split_on p s \<noteq> []"
  by (induction s) (auto split: list.splits)

lemma drain_chunk_lines:
  "drain_chunk s (fst (cut_line l), snd (cut_line l), recorded) =
     (let ls = split_on (\<lambda>c. c = CHR 0x0A) s; ls = (l @ hd ls) # tl ls
      in (fst (cut_line (last ls)), snd (cut_line (last ls)), recorded @ map cut_line (butlast ls)))"
proof (induction s arbitrary: l recorded)
  case (Cons c s)
  obtain w ws where ws: "split_on (\<lambda>c. c = CHR 0x0A) s = w # ws"
    using split_on_has_a_piece[of "\<lambda>c. c = CHR 0x0A" s] by (cases "split_on (\<lambda>c. c = CHR 0x0A) s") auto
  show ?case
  proof (cases "c = CHR 0x0A")
    case True
    have "drain_chunk (c # s) (fst (cut_line l), snd (cut_line l), recorded)
        = drain_chunk s (fst (cut_line []), snd (cut_line []), recorded @ [cut_line l])"
      using True by (simp add: cut_line_def)
    with True Cons.IH[of "[]" "recorded @ [cut_line l]"] ws show ?thesis by (simp add: Let_def)
  next
    case False
    have "drain_chunk (c # s) (fst (cut_line l), snd (cut_line l), recorded)
        = drain_chunk s (fst (cut_line (l @ [c])), snd (cut_line (l @ [c])), recorded)"
      using False by (cases "length l < 2048") (simp_all add: cut_line_def log_limits)
    with False Cons.IH[of "l @ [c]" recorded] ws show ?thesis by (simp add: Let_def)
  qed
qed simp

lemma drain_reads_chunks:
  "[] \<notin> set chunks \<Longrightarrow> drain_reads (map Inr chunks @ reads) st = drain_reads reads (drain_chunk (concat chunks) st)"
proof (induction chunks arbitrary: st)
  case (Cons c cs)
  then have "drain_reads (map Inr (c # cs) @ reads) st = drain_reads (map Inr cs @ reads) (drain_chunk c st)" by (cases c) auto
  with Cons show ?case by (simp add: drain_chunk_append)
qed simp

lemma drain_whole:
  "drain_chunk s ([], False, []) = (let ls = split_on (\<lambda>c. c = CHR 0x0A) s
     in (fst (cut_line (last ls)), snd (cut_line (last ls)), map cut_line (butlast ls)))"
  using drain_chunk_lines[of s "[]" "[]"] split_on_has_a_piece[of "\<lambda>c. c = CHR 0x0A" s]
  by (cases "split_on (\<lambda>c. c = CHR 0x0A) s") (simp_all add: cut_line_def)

text \<open>
  C40: however the standard error of a tunnel's process is cut into reads, what is recorded are its lines,
  each cut to 2048 bytes and classified on its own; when a read fails, the lines that were complete.
\<close>

theorem stderr_is_chunk_independent:
  assumes "[] \<notin> set chunks"
  shows "drain_stderr (map Inr chunks) = List.map_filter (process_line \<circ> cut_line) (text_lines (concat chunks))
    \<and> drain_stderr (map Inr chunks @ Inl () # later) =
        List.map_filter (process_line \<circ> cut_line) (butlast (split_on (\<lambda>c. c = CHR 0x0A) (concat chunks)))"
proof -
  have filter: "List.map_filter process_line (map cut_line ls) = List.map_filter (process_line \<circ> cut_line) ls" for ls
    by (induction ls) (auto simp: List.map_filter_def)
  have cut: "fst (cut_line l) \<noteq> [] \<or> snd (cut_line l) \<longleftrightarrow> l \<noteq> []" for l by (auto simp: cut_line_def)
  have "drain_reads (map Inr chunks) ([], False, []) = map cut_line (text_lines (concat chunks))"
    using drain_reads_chunks[OF assms, of "[]" "([], False, [])"] cut
    by (simp add: drain_whole Let_def text_lines_def)
  moreover have "drain_reads (map Inr chunks @ Inl () # later) ([], False, [])
      = map cut_line (butlast (split_on (\<lambda>c. c = CHR 0x0A) (concat chunks)))"
    using drain_reads_chunks[OF assms] by (simp add: drain_whole Let_def)
  ultimately show ?thesis by (simp add: drain_stderr_def filter)
qed

lemma stderr_is_chunk_independent_witness:
  "drain_stderr [Inr ''bind: Perm'', Inr ''ission denied'', Inr (CHR 0x0D # CHR 0x0A # ''Allo'')] =
     [(LogError, ''bind: Permission denied''), (LogInfo, ''Allo'')]"
proof -
  let ?chunks = "[''bind: Perm'', ''ission denied'', CHR 0x0D # CHR 0x0A # ''Allo'']"
  have "List.map_filter (process_line \<circ> cut_line) (text_lines (concat ?chunks)) =
      [(LogError, ''bind: Permission denied''), (LogInfo, ''Allo'')]" by code_simp
  with stderr_is_chunk_independent[of ?chunks] show ?thesis by simp
qed

end
