(* ===== verification/Tunnels.thy ===== *)
theory Tunnels
  imports TunnelLog Transfers
begin

text \<open>
  \<^verbatim>\<open>crates/remotedeck-core/src/tunnel.rs\<close>.  A tunnel is an entry of the registry with a worker thread for
  every start; a worker runs ssh, watches it and starts it again.  Each critical section of an entry's
  \<^verbatim>\<open>inner\<close> lock is one step of the thread that takes it; what a thread carries from one section to the next
  is its phase.  The outside (clock, saved profiles, processes, health checks) is a \<open>world\<close> that a step
  asks; its answers are arbitrary.
\<close>

section \<open>Events\<close>

definition STARTUP_GRACE :: nat where "STARTUP_GRACE = 1000"
definition STABLE_CONNECTION :: nat where "STABLE_CONNECTION = 30 * 1000"
definition MAX_BACKOFF :: nat where "MAX_BACKOFF = 30"
definition MAX_HEALTH_FAILURES :: nat where "MAX_HEALTH_FAILURES = 3"
definition UPTIME_EVENT_INTERVAL :: nat where "UPTIME_EVENT_INTERVAL = 1000"
definition MAX_ACTIVE_TUNNELS :: nat where "MAX_ACTIVE_TUNNELS = 64"

record pending_event =
  pe_snapshot :: tunnel_snapshot
  pe_revision :: nat

definition uptime_seconds :: "nat \<Rightarrow> tunnel_inner \<Rightarrow> nat option" where
  "uptime_seconds now inner = map_option (\<lambda>started. (now - started) div 1000) (tu_started_at inner)"

definition current_event_locked :: "nat \<Rightarrow> tunnel_inner \<Rightarrow> pending_event" where
  "current_event_locked now inner = \<lparr>pe_snapshot =
     \<lparr>tsn_tunnel_id = tp_id (tu_profile inner), tsn_revision = tu_revision inner, tsn_profile = Some (tu_profile inner),
      tsn_state = tu_state inner, tsn_health = Some (tu_health inner), tsn_uptime_seconds = uptime_seconds now inner,
      tsn_reconnect_count = Some (tu_reconnect_count inner), tsn_message = tu_message inner, tsn_logs = None\<rparr>,
     pe_revision = tu_revision inner\<rparr>"

definition snapshot_locked :: "nat \<Rightarrow> tunnel_inner \<Rightarrow> tunnel_snapshot" where
  "snapshot_locked now inner =
     \<lparr>tsn_tunnel_id = tp_id (tu_profile inner), tsn_revision = tu_revision inner, tsn_profile = Some (tu_profile inner),
      tsn_state = tu_state inner, tsn_health = Some (tu_health inner), tsn_uptime_seconds = uptime_seconds now inner,
      tsn_reconnect_count = Some (tu_reconnect_count inner), tsn_message = tu_message inner,
      tsn_logs = Some (tu_logs inner)\<rparr>"

definition stopped_snapshot :: "tunnel_profile \<Rightarrow> tunnel_snapshot" where
  "stopped_snapshot profile =
     \<lparr>tsn_tunnel_id = tp_id profile, tsn_revision = 0, tsn_profile = Some profile, tsn_state = TunStopped,
      tsn_health = Some HealthUnknown, tsn_uptime_seconds = None, tsn_reconnect_count = Some 0, tsn_message = None,
      tsn_logs = Some []\<rparr>"

definition pending_event_locked :: "nat \<Rightarrow> tunnel_inner \<Rightarrow> tunnel_inner \<times> pending_event" where
  "pending_event_locked now inner =
     (let inner = inner\<lparr>tu_revision := saturating_add64 (tu_revision inner) 1\<rparr>
      in (inner, \<lparr>pe_snapshot = snapshot_locked now inner, pe_revision = tu_revision inner\<rparr>))"

definition is_current_locked :: "tunnel_inner \<Rightarrow> nat \<Rightarrow> bool" where
  "is_current_locked inner generation \<longleftrightarrow> tu_generation inner = generation \<and> tu_desired_running inner"

section \<open>The outside\<close>

text \<open>What \<^verbatim>\<open>try_wait\<close> says of the owned child; an exit status is its text and whether it is a success.\<close>

datatype child_status = StillRunning | ExitedWith string bool | WaitFailed string

text \<open>
  \<open>wo_now\<close> is \<^verbatim>\<open>Instant::now\<close> in milliseconds, \<open>wo_at\<close> is \<^verbatim>\<open>Utc::now\<close>; the other fields are the answers of
  \<^verbatim>\<open>current_host_profile\<close>, \<^verbatim>\<open>tunnel_command\<close>, the start of a process, \<^verbatim>\<open>try_wait\<close>, \<^verbatim>\<open>terminate\<close>, the TCP health
  check and the start of a thread, and whether the thread panics instead of taking its step.
\<close>

record world =
  wo_now :: nat
  wo_at :: timestamp
  wo_host :: "host_profile app_result"
  wo_command :: "unit app_result"
  wo_spawn :: "unit app_result"
  wo_poll :: child_status
  wo_terminate :: "string + unit"
  wo_health :: "string + unit"
  wo_thread :: "string + unit"
  wo_panics :: bool

section \<open>Health checks and delays\<close>

definition has_tcp_check :: "tunnel_profile \<Rightarrow> bool" where
  "has_tcp_check tunnel =
     (case tp_health_check tunnel of None \<Rightarrow> False | Some check \<Rightarrow> thc_kind check = HealthTcp)"

definition health_check_enabled :: "tunnel_profile \<Rightarrow> bool" where
  "health_check_enabled tunnel \<longleftrightarrow> tp_direction tunnel = LocalForward \<and> has_tcp_check tunnel"

text \<open>In milliseconds.\<close>

definition health_interval :: "tunnel_profile \<Rightarrow> nat" where
  "health_interval tunnel =
     (case tp_health_check tunnel of
        None \<Rightarrow> 3600 * 1000
      | Some check \<Rightarrow> max 1 (min 3600 (unat (thc_interval_seconds check))) * 1000)"

definition health_target :: "tunnel_profile \<Rightarrow> string \<times> u16" where
  "health_target tunnel =
     (case tp_direction tunnel of
        LocalForward \<Rightarrow>
          (let bind = trim (tp_bind_address tunnel)
           in (if bind \<in> set ['''', ''*'', ''0.0.0.0''] then ''127.0.0.1''
               else if bind \<in> set [''::'', ''[::]''] then ''::1''
               else trim_matches (\<lambda>c. c \<in> set ''[]'') bind,
               tp_source_port tunnel))
      | RemoteForward \<Rightarrow> (tp_target_host tunnel, tp_target_port tunnel))"

text \<open>In seconds.\<close>

definition backoff_delay :: "nat \<Rightarrow> nat" where
  "backoff_delay failure_streak = min (2 ^ min failure_streak 5) MAX_BACKOFF"

section \<open>The sections of a worker\<close>

text \<open>Each is \<open>None\<close> where the code finds that its generation is not the current one.\<close>

definition mark_starting :: "world \<Rightarrow> nat \<Rightarrow> tunnel_inner \<Rightarrow> (tunnel_inner \<times> pending_event) option" where
  "mark_starting world generation inner =
     (if \<not> is_current_locked inner generation then None
      else
        let inner = inner\<lparr>tu_state := TunStarting, tu_health := HealthUnknown, tu_started_at := None, tu_message := None\<rparr>;
            inner = append_log_locked (wo_at world) LogInfo ''Starting OpenSSH tunnel process'' inner
        in Some (pending_event_locked (wo_now world) inner))"

definition mark_running ::
    "world \<Rightarrow> nat \<Rightarrow> nat \<Rightarrow> tunnel_profile \<Rightarrow> tunnel_inner \<Rightarrow> (tunnel_inner \<times> pending_event) option" where
  "mark_running world generation started_at tunnel inner =
     (if \<not> is_current_locked inner generation then None
      else
        let remote_health_unavailable = (tp_direction tunnel = RemoteForward \<and> has_tcp_check tunnel);
            inner = inner\<lparr>tu_state := TunRunning,
              tu_health := (if health_check_enabled tunnel \<or> remote_health_unavailable then HealthUnknown else HealthHealthy),
              tu_started_at := Some started_at,
              tu_message := (if remote_health_unavailable
                then Some ''remote-forward TCP health cannot be verified from the local endpoint'' else None)\<rparr>;
            inner = append_log_locked (wo_at world) LogInfo ''OpenSSH tunnel is running'' inner;
            inner = (if remote_health_unavailable
              then append_log_locked (wo_at world) LogWarn
                ''Remote-forward TCP health check is unavailable locally; automatic health restarts are disabled'' inner
              else inner)
        in Some (pending_event_locked (wo_now world) inner))"

text \<open>The event is there only when something changed.\<close>

definition set_health ::
    "world \<Rightarrow> nat \<Rightarrow> tunnel_health_state \<Rightarrow> string option \<Rightarrow> tunnel_inner \<Rightarrow> (tunnel_inner \<times> pending_event option) option" where
  "set_health world generation health message inner =
     (if \<not> is_current_locked inner generation then None
      else if tu_health inner = health \<and> tu_message inner = message then Some (inner, None)
      else
        let inner = inner\<lparr>tu_health := health, tu_message := message\<rparr>;
            inner = (case message of
                Some message \<Rightarrow> append_log_locked (wo_at world) LogWarn message inner
              | None \<Rightarrow> if health = HealthHealthy
                  then append_log_locked (wo_at world) LogInfo ''TCP health check passed'' inner else inner);
            (inner, event) = pending_event_locked (wo_now world) inner
        in Some (inner, Some event))"

text \<open>
  \<^verbatim>\<open>finish_attempt\<close>: besides the event, the delay before the next attempt (in seconds) and the new streak.
\<close>

definition finish_attempt ::
    "world \<Rightarrow> nat \<Rightarrow> tunnel_profile \<Rightarrow> string \<Rightarrow> bool \<Rightarrow> nat \<Rightarrow> tunnel_inner \<Rightarrow>
       (tunnel_inner \<times> pending_event \<times> nat option \<times> nat) option" where
  "finish_attempt world generation tunnel message clean failure_streak inner =
     (if \<not> is_current_locked inner generation then None
      else
        let child_still_running = (tu_child inner \<noteq> None);
            inner = inner\<lparr>tu_started_at := None, tu_health := (if clean then HealthUnknown else HealthFailed)\<rparr>
        in if child_still_running then
             let inner = inner\<lparr>tu_desired_running := False, tu_state := TunFailed, tu_message := Some message\<rparr>;
                 inner = append_log_locked (wo_at world) LogError message inner;
                 (inner, event) = pending_event_locked (wo_now world) inner
             in Some (inner, event, None, failure_streak)
           else if tp_auto_reconnect tunnel then
             let delay = backoff_delay failure_streak;
                 text = message @ ''; reconnecting in '' @ dec delay @ '' seconds'';
                 inner = inner\<lparr>tu_reconnect_count := min (tu_reconnect_count inner + 1) (2 ^ 32 - 1),
                   tu_state := TunWaiting, tu_message := Some text\<rparr>;
                 inner = append_log_locked (wo_at world) LogWarn text inner;
                 (inner, event) = pending_event_locked (wo_now world) inner
             in Some (inner, event, Some delay, min (failure_streak + 1) (2 ^ 32 - 1))
           else
             let inner = inner\<lparr>tu_desired_running := False, tu_state := (if clean then TunStopped else TunFailed),
                   tu_message := Some message\<rparr>;
                 inner = append_log_locked (wo_at world) (if clean then LogWarn else LogError) message inner;
                 (inner, event) = pending_event_locked (wo_now world) inner
             in Some (inner, event, None, failure_streak))"

text \<open>\<^verbatim>\<open>Drop\<close> of the \<^verbatim>\<open>WorkerGuard\<close>; the child that it drops is no longer owned.\<close>

definition worker_guard :: "world \<Rightarrow> nat \<Rightarrow> tunnel_inner \<Rightarrow> tunnel_inner \<times> pending_event option" where
  "worker_guard world generation inner =
     (if tu_generation inner \<noteq> generation then (inner, None)
      else
        let inner = inner\<lparr>tu_worker_active := False\<rparr>
        in if \<not> tu_desired_running inner then (inner, None)
           else
             let inner = inner\<lparr>tu_desired_running := False, tu_state := TunFailed, tu_health := HealthFailed,
                   tu_started_at := None, tu_message := Some ''tunnel worker stopped unexpectedly''\<rparr>;
                 inner = append_log_locked (wo_at world) LogError ''Tunnel worker stopped unexpectedly'' inner;
                 (inner, event) = pending_event_locked (wo_now world) (inner\<lparr>tu_child := None\<rparr>)
             in (inner, Some event))"

text \<open>The second part of \<^verbatim>\<open>record_process_line\<close>.\<close>

definition record_process_line ::
    "world \<Rightarrow> nat \<Rightarrow> string \<times> bool \<Rightarrow> tunnel_inner \<Rightarrow> tunnel_inner \<times> pending_event option" where
  "record_process_line world generation line inner =
     (case process_line line of
        None \<Rightarrow> (inner, None)
      | Some (level, message) \<Rightarrow>
          if tu_generation inner \<noteq> generation then (inner, None)
          else
            let inner = inner\<lparr>tu_last_process_error := Some message\<rparr>;
                inner = append_log_locked (wo_at world) level message inner;
                (inner, event) = pending_event_locked (wo_now world) inner
            in (inner, Some event))"

section \<open>A tunnel with its threads\<close>

text \<open>What the inner loop of \<^verbatim>\<open>run_worker\<close> keeps during one attempt.\<close>

record attempt_clock =
  ac_started :: nat
  ac_announced :: bool
  ac_failures :: nat
  ac_next_check :: nat
  ac_next_uptime :: nat

text \<open>
  What a worker does next.  \<open>Storing\<close> and \<open>Discarding\<close> have a process in hand and hold the lifecycle lock;
  \<open>Killing\<close> has one in hand without it.
\<close>

datatype worker_phase =
    AtTop
  | Resolving
  | Spawning
  | Storing nat
  | Discarding nat
  | Polling attempt_clock
  | Exited attempt_clock string bool
  | Announcing attempt_clock
  | Checking attempt_clock
  | SettingHealth tunnel_health_state "string option" attempt_clock bool
  | Terminating string attempt_clock
  | Killing nat string attempt_clock
  | Uptime attempt_clock
  | AttemptOver string bool attempt_clock
  | Finishing string bool
  | Delay nat
  | Sleeping nat
  | Leaving
  | Gone

text \<open>\<open>wk_event\<close> is an event that the worker made and has not yet tried to send.\<close>

record worker =
  wk_generation :: nat
  wk_tunnel :: tunnel_profile
  wk_streak :: nat
  wk_event :: "pending_event option"
  wk_phase :: worker_phase

text \<open>
  What a call of \<^verbatim>\<open>stop_inner\<close> or \<^verbatim>\<open>start_inner\<close> on this tunnel does next; in all phases but the first of
  each it holds the lifecycle lock.
\<close>

datatype tunnel_call =
    NoCall
  | StopLock bool
  | StopKill nat "nat option" bool
  | StopEmit pending_event bool "string + unit"
  | StartLock host_profile tunnel_profile
  | StartTake host_profile tunnel_profile
  | StartKill nat host_profile tunnel_profile
  | StartMark host_profile tunnel_profile
  | StartEmit pending_event nat tunnel_profile
  | StartSpawn pending_event nat tunnel_profile
  | SpawnFailed pending_event string

text \<open>What a call returned: \<open>StaleAlive\<close> is the error of a start that could not end the old process.\<close>

datatype call_result =
    StopDone bool
  | StopError string
  | StartDone tunnel_snapshot
  | StartRefused app_error
  | StaleAlive string

text \<open>
  \<open>ce_processes\<close> has the generation of every process that was started, which is named by its position;
  \<open>ce_lines\<close> are the events of the threads that read the standard error; \<open>ce_emitted\<close> is what was sent.
\<close>

record tunnel_cell =
  ce_inner :: tunnel_inner
  ce_workers :: "worker list"
  ce_call :: tunnel_call
  ce_processes :: "nat list"
  ce_lines :: "pending_event list"
  ce_emitted :: "tunnel_snapshot list"
  ce_returned :: "call_result list"

definition new_cell :: "tunnel_profile \<Rightarrow> tunnel_cell" where
  "new_cell profile = \<lparr>ce_inner = new_tunnel_inner profile, ce_workers = [], ce_call = NoCall, ce_processes = [],
     ce_lines = [], ce_emitted = [], ce_returned = []\<rparr>"

text \<open>\<^verbatim>\<open>emit_pending\<close>: an event is sent only while no later one was made.\<close>

definition emit_pending :: "pending_event \<Rightarrow> tunnel_cell \<Rightarrow> tunnel_cell" where
  "emit_pending event c =
     (if tu_revision (ce_inner c) = pe_revision event then c\<lparr>ce_emitted := ce_emitted c @ [pe_snapshot event]\<rparr> else c)"

fun holds_lifecycle :: "worker_phase \<Rightarrow> bool" where
  "holds_lifecycle (Storing _) = True"
| "holds_lifecycle (Discarding _) = True"
| "holds_lifecycle _ = False"

fun call_holds_lifecycle :: "tunnel_call \<Rightarrow> bool" where
  "call_holds_lifecycle NoCall = False"
| "call_holds_lifecycle (StopLock _) = False"
| "call_holds_lifecycle (StartLock _ _) = False"
| "call_holds_lifecycle _ = True"

definition lifecycle_free :: "tunnel_cell \<Rightarrow> bool" where
  "lifecycle_free c \<longleftrightarrow> \<not> call_holds_lifecycle (ce_call c) \<and> list_all (\<lambda>w. \<not> holds_lifecycle (wk_phase w)) (ce_workers c)"

section \<open>A turn of a worker\<close>

definition new_clock :: "nat \<Rightarrow> tunnel_profile \<Rightarrow> attempt_clock" where
  "new_clock now tunnel = \<lparr>ac_started = now, ac_announced = False, ac_failures = 0,
     ac_next_check = now + health_interval tunnel, ac_next_uptime = now + UPTIME_EVENT_INTERVAL\<rparr>"

definition in_phase :: "worker \<Rightarrow> worker_phase \<Rightarrow> worker" where
  "in_phase w phase = w\<lparr>wk_phase := phase\<rparr>"

definition with_event :: "worker \<Rightarrow> pending_event option \<Rightarrow> worker_phase \<Rightarrow> worker" where
  "with_event w event phase = w\<lparr>wk_phase := phase, wk_event := event\<rparr>"

text \<open>The result of the health check and how it changes the clock.\<close>

definition checked :: "world \<Rightarrow> tunnel_profile \<Rightarrow> attempt_clock \<Rightarrow> worker_phase" where
  "checked world tunnel clock =
     (let clock = clock\<lparr>ac_next_check := wo_now world + health_interval tunnel\<rparr>
      in case wo_health world of
        Inr _ \<Rightarrow> SettingHealth HealthHealthy None (clock\<lparr>ac_failures := 0\<rparr>) False
      | Inl e \<Rightarrow>
          let failures = min (ac_failures clock + 1) 255;
              failed = failures \<ge> MAX_HEALTH_FAILURES;
              message = ''TCP health check failed ('' @ dec failures @ ''/'' @ dec MAX_HEALTH_FAILURES @ ''): '' @ e
          in SettingHealth (if failed then HealthFailed else HealthDegraded) (Some message)
               (clock\<lparr>ac_failures := failures\<rparr>) failed)"

text \<open>
  The section of each phase: the state and the worker after it.  \<open>next_process\<close> is the name of the process
  that a start would give; the steps of \<open>Spawning\<close> wait for the lifecycle lock, in \<open>worker_turn\<close>.
\<close>

fun worker_section :: "world \<Rightarrow> nat \<Rightarrow> worker \<Rightarrow> tunnel_inner \<Rightarrow> tunnel_inner \<times> worker" where
  "worker_section world next_process w inner =
     (let g = wk_generation w; tunnel = wk_tunnel w
      in case wk_phase w of
        AtTop \<Rightarrow>
          (case mark_starting world g inner of
             None \<Rightarrow> (inner, in_phase w Leaving)
           | Some (inner, event) \<Rightarrow> (inner, with_event w (Some event) Resolving))
      | Resolving \<Rightarrow>
          (case wo_host world of
             Inl e \<Rightarrow> (inner, in_phase w (Finishing (''could not resolve the current host profile: '' @ app_error_display e) False))
           | Inr _ \<Rightarrow>
               (case wo_command world of
                  Inl e \<Rightarrow> (inner, in_phase w (Finishing (''could not build OpenSSH tunnel command: '' @ app_error_display e) False))
                | Inr _ \<Rightarrow> (inner, in_phase w Spawning)))
      | Spawning \<Rightarrow>
          if \<not> is_current_locked inner g then (inner, in_phase w Leaving)
          else (case wo_spawn world of
             Inl e \<Rightarrow> (inner, in_phase w (Finishing (''failed to spawn OpenSSH tunnel: '' @ app_error_display e) False))
           | Inr _ \<Rightarrow> (inner, in_phase w (Storing next_process)))
      | Storing child \<Rightarrow>
          if is_current_locked inner g
          then (inner\<lparr>tu_last_process_error := None, tu_child := Some child\<rparr>, in_phase w (Polling (new_clock (wo_now world) tunnel)))
          else (inner, in_phase w (Discarding child))
      | Discarding child \<Rightarrow> (inner, in_phase w Leaving)
      | Polling clock \<Rightarrow>
          if \<not> is_current_locked inner g then (inner, in_phase w Leaving)
          else if tu_child inner = None
          then (inner, in_phase w (AttemptOver ''failed to poll OpenSSH tunnel: owned OpenSSH child is unavailable'' False clock))
          else (case wo_poll world of
             StillRunning \<Rightarrow> (inner, in_phase w (Announcing clock))
           | ExitedWith status success \<Rightarrow> (inner\<lparr>tu_child := None\<rparr>, in_phase w (Exited clock status success))
           | WaitFailed e \<Rightarrow> (inner\<lparr>tu_child := None\<rparr>,
               in_phase w (AttemptOver (''failed to poll OpenSSH tunnel: '' @ e) False clock)))
      | Exited clock status success \<Rightarrow>
          (let detail = (if tu_generation inner = g then tu_last_process_error inner else None)
           in (inner, in_phase w (AttemptOver (''OpenSSH tunnel exited with '' @ status @
                (case detail of None \<Rightarrow> [] | Some detail \<Rightarrow> '': '' @ detail)) success clock)))
      | Announcing clock \<Rightarrow>
          if \<not> ac_announced clock \<and> wo_now world - ac_started clock \<ge> STARTUP_GRACE
          then (case mark_running world g (ac_started clock) tunnel inner of
             None \<Rightarrow> (inner, in_phase w Leaving)
           | Some (inner, event) \<Rightarrow> (inner, with_event w (Some event) (Checking (clock\<lparr>ac_announced := True\<rparr>))))
          else (inner, in_phase w (Checking clock))
      | Checking clock \<Rightarrow>
          if ac_announced clock \<and> health_check_enabled tunnel \<and> wo_now world \<ge> ac_next_check clock
          then (inner, in_phase w (checked world tunnel clock))
          else (inner, in_phase w (Uptime clock))
      | SettingHealth health message clock failed \<Rightarrow>
          (case set_health world g health message inner of
             None \<Rightarrow> (inner, in_phase w Leaving)
           | Some (inner, event) \<Rightarrow> (inner, with_event w event
               (if failed then Terminating (case message of Some m \<Rightarrow> m | None \<Rightarrow> []) clock else Uptime clock)))
      | Terminating message clock \<Rightarrow>
          if tu_generation inner \<noteq> g then (inner, in_phase w (AttemptOver message False clock))
          else (case tu_child inner of
             None \<Rightarrow> (inner, in_phase w (AttemptOver message False clock))
           | Some child \<Rightarrow> (inner\<lparr>tu_child := None\<rparr>, in_phase w (Killing child message clock)))
      | Killing child message clock \<Rightarrow>
          (case wo_terminate world of
             Inr _ \<Rightarrow> (inner, in_phase w (AttemptOver message False clock))
           | Inl e \<Rightarrow>
               (if tu_generation inner = g \<and> tu_child inner = None then inner\<lparr>tu_child := Some child\<rparr> else inner,
                in_phase w (AttemptOver (message @ ''; failed to terminate unhealthy OpenSSH child: '' @ e) False clock)))
      | Uptime clock \<Rightarrow>
          if ac_announced clock \<and> wo_now world \<ge> ac_next_uptime clock
          then if \<not> is_current_locked inner g then (inner, in_phase w Leaving)
               else (inner, with_event w (Some (current_event_locked (wo_now world) inner))
                 (Polling (clock\<lparr>ac_next_uptime := wo_now world + UPTIME_EVENT_INTERVAL\<rparr>)))
          else (inner, in_phase w (Polling clock))
      | AttemptOver message clean clock \<Rightarrow>
          (inner, (in_phase w (Finishing message clean))
             \<lparr>wk_streak := (if wo_now world - ac_started clock \<ge> STABLE_CONNECTION then 0 else wk_streak w)\<rparr>)
      | Finishing message clean \<Rightarrow>
          (case finish_attempt world g tunnel message clean (wk_streak w) inner of
             None \<Rightarrow> (inner, in_phase w Leaving)
           | Some (inner, event, retry, streak) \<Rightarrow>
               (inner, (with_event w (Some event) (case retry of None \<Rightarrow> Leaving | Some delay \<Rightarrow> Delay delay))\<lparr>wk_streak := streak\<rparr>))
      | Delay delay \<Rightarrow> (inner, in_phase w (Sleeping (wo_now world + delay * 1000)))
      | Sleeping deadline \<Rightarrow>
          (inner, in_phase w (if \<not> is_current_locked inner g then Leaving
             else if wo_now world \<ge> deadline then AtTop else Sleeping deadline))
      | Leaving \<Rightarrow>
          (let (inner, event) = worker_guard world g inner in (inner, with_event w event Gone))
      | Gone \<Rightarrow> (inner, w))"

text \<open>
  A turn of worker \<open>i\<close>: it sends the event it has, or takes its next section.  A panic unwinds to the guard.
  The time of the uptime event is read again after it was sent, and the first deadline of a wait after the
  event; both only delay what they tell.
\<close>

definition worker_turn :: "world \<Rightarrow> nat \<Rightarrow> tunnel_cell \<Rightarrow> tunnel_cell" where
  "worker_turn world i c =
     (let w = ce_workers c ! i
      in case wk_event w of
        Some event \<Rightarrow> (emit_pending event c)\<lparr>ce_workers := (ce_workers c)[i := w\<lparr>wk_event := None\<rparr>]\<rparr>
      | None \<Rightarrow>
          if wk_phase w = Spawning \<and> \<not> lifecycle_free c then c
          else if wo_panics world \<and> wk_phase w \<notin> {Leaving, Gone}
          then c\<lparr>ce_workers := (ce_workers c)[i := in_phase w Leaving]\<rparr>
          else
            let (inner, w') = worker_section world (length (ce_processes c)) w (ce_inner c)
            in c\<lparr>ce_inner := inner, ce_workers := (ce_workers c)[i := w'],
                 ce_processes := ce_processes c @ (if wk_phase w = Spawning \<and> holds_lifecycle (wk_phase w')
                   then [wk_generation w] else [])\<rparr>)"

section \<open>The reader of the standard error\<close>

definition stderr_turn :: "world \<Rightarrow> nat \<Rightarrow> string \<times> bool \<Rightarrow> tunnel_cell \<Rightarrow> tunnel_cell" where
  "stderr_turn world p line c =
     (if p < length (ce_processes c)
      then (let (inner, event) = record_process_line world (ce_processes c ! p) line (ce_inner c)
            in c\<lparr>ce_inner := inner, ce_lines := ce_lines c @ (case event of None \<Rightarrow> [] | Some event \<Rightarrow> [event])\<rparr>)
      else c)"

definition line_event_turn :: "nat \<Rightarrow> tunnel_cell \<Rightarrow> tunnel_cell" where
  "line_event_turn j c =
     (if j < length (ce_lines c)
      then (emit_pending (ce_lines c ! j) c)\<lparr>ce_lines := take j (ce_lines c) @ drop (Suc j) (ce_lines c)\<rparr>
      else c)"

section \<open>A turn of a call\<close>

definition return_call :: "call_result \<Rightarrow> tunnel_cell \<Rightarrow> tunnel_cell" where
  "return_call r c = c\<lparr>ce_call := NoCall, ce_returned := ce_returned c @ [r]\<rparr>"

definition bump_generation :: "tunnel_inner \<Rightarrow> tunnel_inner" where
  "bump_generation inner = inner\<lparr>tu_generation := saturating_add64 (tu_generation inner) 1\<rparr>"

text \<open>The first section of \<^verbatim>\<open>stop_inner\<close>.\<close>

definition begin_stop :: "bool \<Rightarrow> tunnel_cell \<Rightarrow> tunnel_cell" where
  "begin_stop retire_it c =
     (let inner = ce_inner c;
          already_stopped = (\<not> tu_desired_running inner \<and> tu_child inner = None \<and> tu_state inner = TunStopped);
          inner' = bump_generation (inner\<lparr>tu_desired_running := False, tu_retired := tu_retired inner \<or> retire_it,
            tu_worker_active := False, tu_child := None\<rparr>)
      in c\<lparr>ce_inner := inner', ce_call := StopKill (tu_generation inner') (tu_child inner) already_stopped\<rparr>)"

text \<open>The second one, after the process that was running was told to end.\<close>

definition conclude_stop ::
    "world \<Rightarrow> nat \<Rightarrow> nat option \<Rightarrow> bool \<Rightarrow> tunnel_inner \<Rightarrow> tunnel_inner \<times> pending_event \<times> (string + unit)" where
  "conclude_stop world generation child already_stopped inner =
     (let termination = (if child = None then Inr () else wo_terminate world);
          inner =
            (if tu_generation inner = generation \<and> \<not> tu_desired_running inner then
               let inner = inner\<lparr>tu_started_at := None, tu_health := HealthUnknown\<rparr>
               in case termination of
                 Inl e \<Rightarrow> append_log_locked (wo_at world) LogError (''Failed to stop OpenSSH tunnel: '' @ e)
                   (inner\<lparr>tu_child := child, tu_state := TunFailed, tu_message := Some (''failed to stop OpenSSH tunnel: '' @ e)\<rparr>)
               | Inr _ \<Rightarrow>
                   let inner = inner\<lparr>tu_state := TunStopped, tu_message := None\<rparr>
                   in if already_stopped then inner else append_log_locked (wo_at world) LogInfo ''Tunnel stopped'' inner
             else inner);
          (inner, event) = pending_event_locked (wo_now world) inner
      in (inner, event, termination))"

definition start_matches :: "tunnel_profile \<Rightarrow> tunnel_inner \<Rightarrow> bool" where
  "start_matches tunnel inner \<longleftrightarrow> tu_desired_running inner \<and> tu_profile inner = tunnel
     \<and> tu_state inner \<in> {TunStarting, TunRunning, TunWaiting}"

text \<open>The section of \<^verbatim>\<open>start_inner\<close> that makes the tunnel a starting one.\<close>

definition mark_requested ::
    "world \<Rightarrow> host_profile \<Rightarrow> tunnel_profile \<Rightarrow> tunnel_inner \<Rightarrow> tunnel_inner \<times> pending_event" where
  "mark_requested world host tunnel inner =
     (let inner = inner\<lparr>tu_host_id := hp_id host, tu_host_profile := Some host, tu_profile := tunnel, tu_state := TunStarting,
            tu_health := HealthUnknown, tu_started_at := None, tu_reconnect_count := 0, tu_message := None,
            tu_last_process_error := None, tu_desired_running := True, tu_worker_active := True\<rparr>;
          inner = append_log_locked (wo_at world) LogInfo ''Tunnel start requested'' inner
      in pending_event_locked (wo_now world) inner)"

definition mark_spawn_failed :: "world \<Rightarrow> nat \<Rightarrow> string \<Rightarrow> tunnel_inner \<Rightarrow> tunnel_inner \<times> pending_event" where
  "mark_spawn_failed world generation e inner =
     (let inner =
        (if tu_generation inner = generation then
           append_log_locked (wo_at world) LogError (''Failed to start tunnel worker: '' @ e)
             (inner\<lparr>tu_desired_running := False, tu_worker_active := False, tu_state := TunFailed, tu_health := HealthFailed,
               tu_message := Some (''failed to start tunnel worker: '' @ e)\<rparr>)
         else inner)
      in pending_event_locked (wo_now world) inner)"

definition new_worker :: "nat \<Rightarrow> tunnel_profile \<Rightarrow> worker" where
  "new_worker generation tunnel =
     \<lparr>wk_generation = generation, wk_tunnel = tunnel, wk_streak = 0, wk_event = None, wk_phase = AtTop\<rparr>"

definition call_turn :: "world \<Rightarrow> tunnel_cell \<Rightarrow> tunnel_cell" where
  "call_turn world c =
     (case ce_call c of
        NoCall \<Rightarrow> c
      | StopLock retire_it \<Rightarrow> if lifecycle_free c then begin_stop retire_it c else c
      | StopKill generation child already_stopped \<Rightarrow>
          (let (inner, event, termination) = conclude_stop world generation child already_stopped (ce_inner c)
           in c\<lparr>ce_inner := inner, ce_call := StopEmit event already_stopped termination\<rparr>)
      | StopEmit event already_stopped termination \<Rightarrow>
          return_call (case termination of Inr _ \<Rightarrow> StopDone already_stopped | Inl e \<Rightarrow> StopError e)
            (if already_stopped \<and> is_ok termination then c else emit_pending event c)
      | StartLock host tunnel \<Rightarrow>
          if \<not> lifecycle_free c then c
          else if tu_retired (ce_inner c)
          then return_call (StartRefused (NotFound (''tunnel runtime '' @ tp_id tunnel @ '' was removed''))) c
          else if start_matches tunnel (ce_inner c)
          then return_call (StartDone (snapshot_locked (wo_now world) (ce_inner c))) c
          else c\<lparr>ce_call := StartTake host tunnel\<rparr>
      | StartTake host tunnel \<Rightarrow>
          c\<lparr>ce_inner := (bump_generation (ce_inner c))\<lparr>tu_child := None\<rparr>,
            ce_call := (case tu_child (ce_inner c) of None \<Rightarrow> StartMark host tunnel | Some child \<Rightarrow> StartKill child host tunnel)\<rparr>
      | StartKill child host tunnel \<Rightarrow>
          (case wo_terminate world of
             Inr _ \<Rightarrow> c\<lparr>ce_call := StartMark host tunnel\<rparr>
           | Inl e \<Rightarrow> return_call (StaleAlive e) c)
      | StartMark host tunnel \<Rightarrow>
          (let (inner, event) = mark_requested world host tunnel (ce_inner c)
           in c\<lparr>ce_inner := inner, ce_call := StartEmit event (tu_generation inner) tunnel\<rparr>)
      | StartEmit event generation tunnel \<Rightarrow> (emit_pending event c)\<lparr>ce_call := StartSpawn event generation tunnel\<rparr>
      | StartSpawn event generation tunnel \<Rightarrow>
          (case wo_thread world of
             Inr _ \<Rightarrow> return_call (StartDone (pe_snapshot event)) (c\<lparr>ce_workers := ce_workers c @ [new_worker generation tunnel]\<rparr>)
           | Inl e \<Rightarrow>
               (let (inner, failed) = mark_spawn_failed world generation e (ce_inner c)
                in c\<lparr>ce_inner := inner, ce_call := SpawnFailed failed e\<rparr>))
      | SpawnFailed event e \<Rightarrow> return_call (StartRefused (Io e)) (emit_pending event c))"

section \<open>The registry\<close>

text \<open>
  The \<^verbatim>\<open>operations\<close> lock lets one call at a time in; what it has still to do is a \<open>tunnel_operation\<close>.  The
  parallel stops of \<^verbatim>\<open>stop_all\<close> are on different tunnels.  An entry that was removed lives on for its
  threads, so entries are numbered and the map holds the numbers.
\<close>

datatype tunnel_operation =
    FreeOp
  | Starting nat
  | Restarting "nat option" host_profile tunnel_profile
  | Stopping "nat option"
  | Removing string "nat option"
  | StoppingHost "string list" "(string \<times> nat) option" "string list"
  | StoppingAll "(string \<times> nat) list"

record tunnels =
  tr_cells :: "tunnel_cell list"
  tr_entries :: "(string \<times> nat) list"
  tr_operation :: tunnel_operation
  tr_returned :: "unit app_result list"

definition new_tunnels :: tunnels where
  "new_tunnels = \<lparr>tr_cells = [], tr_entries = [], tr_operation = FreeOp, tr_returned = []\<rparr>"

definition tunnel_at :: "tunnels \<Rightarrow> nat \<Rightarrow> tunnel_inner" where
  "tunnel_at s k = ce_inner (tr_cells s ! k)"

definition tunnel_busy :: "tunnel_inner \<Rightarrow> bool" where
  "tunnel_busy inner \<longleftrightarrow> tu_desired_running inner \<or> tu_worker_active inner \<or> tu_child inner \<noteq> None"

definition set_cell :: "nat \<Rightarrow> tunnel_cell \<Rightarrow> tunnels \<Rightarrow> tunnels" where
  "set_cell k c s = s\<lparr>tr_cells := (tr_cells s)[k := c]\<rparr>"

definition begin_call :: "tunnel_call \<Rightarrow> nat \<Rightarrow> tunnels \<Rightarrow> tunnels" where
  "begin_call call k s = set_cell k ((tr_cells s ! k)\<lparr>ce_call := call\<rparr>) s"

text \<open>The part of \<^verbatim>\<open>start_inner\<close> before the lifecycle lock; a new entry is put in at the end.\<close>

definition admit_tunnel ::
    "world \<Rightarrow> host_profile \<Rightarrow> tunnel_profile \<Rightarrow> tunnels \<Rightarrow> nat app_result \<times> tunnels" where
  "admit_tunnel world host tunnel s =
     (if tp_host_id tunnel \<noteq> hp_id host then (Inl (Validation ''tunnel does not belong to the selected host''), s)
      else case wo_command world of
        Inl e \<Rightarrow> (Inl e, s)
      | Inr _ \<Rightarrow>
          let entries = filter (\<lambda>p. \<not> tu_retired (tunnel_at s (snd p))) (tr_entries s);
              s = s\<lparr>tr_entries := entries\<rparr>
          in if map_of entries (tp_id tunnel) = None \<and> length entries \<ge> MAX_RUNTIME_ENTRIES
             then (Inl (Validation (''at most '' @ dec MAX_RUNTIME_ENTRIES @ '' tunnel runtime records are retained'')), s)
             else if count_where (\<lambda>p. fst p \<noteq> tp_id tunnel \<and> tunnel_busy (tunnel_at s (snd p))) entries \<ge> MAX_ACTIVE_TUNNELS
             then (Inl (Validation (''at most '' @ dec MAX_ACTIVE_TUNNELS @ '' tunnels may run at once'')), s)
             else (case map_of entries (tp_id tunnel) of
                 Some k \<Rightarrow> (Inr k, s)
               | None \<Rightarrow> (Inr (length (tr_cells s)),
                   s\<lparr>tr_entries := put (tp_id tunnel) (length (tr_cells s)) entries,
                     tr_cells := tr_cells s @ [new_cell tunnel]\<rparr>)))"

text \<open>\<^verbatim>\<open>start\<close>, and the second half of \<^verbatim>\<open>restart\<close>.\<close>

definition start_tunnel :: "world \<Rightarrow> tunnel_profile \<Rightarrow> tunnels \<Rightarrow> tunnels" where
  "start_tunnel world tunnel s =
     (case wo_host world of
        Inl e \<Rightarrow> s\<lparr>tr_operation := FreeOp\<rparr>
      | Inr host \<Rightarrow>
          (case admit_tunnel world host tunnel s of
             (Inl e, s) \<Rightarrow> s\<lparr>tr_operation := FreeOp\<rparr>
           | (Inr k, s) \<Rightarrow> (begin_call (StartLock host tunnel) k s)\<lparr>tr_operation := Starting k\<rparr>))"

text \<open>\<^verbatim>\<open>stop_inner\<close> of an entry: nothing when there is none.\<close>

definition call_stop :: "bool \<Rightarrow> nat option \<Rightarrow> tunnels \<Rightarrow> tunnels" where
  "call_stop retire_it entry s = (case entry of None \<Rightarrow> s | Some k \<Rightarrow> begin_call (StopLock retire_it) k s)"

text \<open>What the stop of an entry returned, once it did.\<close>

definition call_over :: "nat option \<Rightarrow> tunnels \<Rightarrow> bool" where
  "call_over entry s \<longleftrightarrow> (case entry of None \<Rightarrow> True | Some k \<Rightarrow> ce_call (tr_cells s ! k) = NoCall)"

definition stop_result :: "nat option \<Rightarrow> tunnels \<Rightarrow> unit app_result" where
  "stop_result entry s =
     (case entry of
        None \<Rightarrow> Inr ()
      | Some k \<Rightarrow> (case last (ce_returned (tr_cells s ! k)) of StopError e \<Rightarrow> Inl (Io e) | _ \<Rightarrow> Inr ()))"

fun join_strings :: "string \<Rightarrow> string list \<Rightarrow> string" where
  "join_strings sep [] = []"
| "join_strings sep [x] = x"
| "join_strings sep (x # xs) = x @ sep @ join_strings sep xs"

definition stop_errors :: "string list \<Rightarrow> unit app_result" where
  "stop_errors errors =
     (if errors = [] then Inr ()
      else Inl (Process (''failed to stop one or more OpenSSH tunnels: '' @ join_strings ''; '' errors)))"

definition stop_error_of :: "string \<Rightarrow> unit app_result \<Rightarrow> string list" where
  "stop_error_of tid r = (case r of Inl e \<Rightarrow> [tid @ '': '' @ app_error_display e] | Inr _ \<Rightarrow> [])"

definition end_operation :: "unit app_result \<Rightarrow> tunnels \<Rightarrow> tunnels" where
  "end_operation r s = s\<lparr>tr_operation := FreeOp, tr_returned := tr_returned s @ [r]\<rparr>"

datatype tunnel_request =
    StartTunnel host_profile tunnel_profile
  | RestartTunnel host_profile tunnel_profile
  | StopTunnel string
  | RemoveTunnel string
  | StopForHost string
  | StopAll

fun begin_operation :: "world \<Rightarrow> tunnel_request \<Rightarrow> tunnels \<Rightarrow> tunnels" where
  "begin_operation world (StartTunnel host tunnel) s = start_tunnel world tunnel s"
| "begin_operation world (RestartTunnel host tunnel) s =
     (let entry = map_of (tr_entries s) (tp_id tunnel)
      in (call_stop False entry s)\<lparr>tr_operation := Restarting entry host tunnel\<rparr>)"
| "begin_operation world (StopTunnel tid) s =
     (let entry = map_of (tr_entries s) tid in (call_stop False entry s)\<lparr>tr_operation := Stopping entry\<rparr>)"
| "begin_operation world (RemoveTunnel tid) s =
     (let entry = map_of (tr_entries s) tid in (call_stop True entry s)\<lparr>tr_operation := Removing tid entry\<rparr>)"
| "begin_operation world (StopForHost host_id) s =
     s\<lparr>tr_operation := StoppingHost (map fst (filter (\<lambda>p. tu_host_id (tunnel_at s (snd p)) = host_id) (tr_entries s))) None []\<rparr>"
| "begin_operation world StopAll s =
     (fold (\<lambda>p. call_stop False (Some (snd p))) (tr_entries s) s)\<lparr>tr_operation := StoppingAll (tr_entries s)\<rparr>"

text \<open>A call goes on when the stop or start that it waits for has returned.\<close>

definition operation_turn :: "world \<Rightarrow> tunnels \<Rightarrow> tunnels" where
  "operation_turn world s =
     (case tr_operation s of
        FreeOp \<Rightarrow> s
      | Starting k \<Rightarrow> if call_over (Some k) s then s\<lparr>tr_operation := FreeOp\<rparr> else s
      | Restarting entry host tunnel \<Rightarrow>
          if \<not> call_over entry s then s
          else (case stop_result entry s of Inl e \<Rightarrow> s\<lparr>tr_operation := FreeOp\<rparr> | Inr _ \<Rightarrow> start_tunnel world tunnel s)
      | Stopping entry \<Rightarrow> if call_over entry s then end_operation (stop_result entry s) s else s
      | Removing tid entry \<Rightarrow>
          if \<not> call_over entry s then s
          else end_operation (stop_result entry s)
            (if is_ok (stop_result entry s) then s\<lparr>tr_entries := del tid (tr_entries s)\<rparr> else s)
      | StoppingHost ids (Some (tid, k)) errors \<Rightarrow>
          if \<not> call_over (Some k) s then s
          else (if is_ok (stop_result (Some k) s) then s\<lparr>tr_entries := del tid (tr_entries s)\<rparr> else s)
            \<lparr>tr_operation := StoppingHost ids None (errors @ stop_error_of tid (stop_result (Some k) s))\<rparr>
      | StoppingHost [] None errors \<Rightarrow> end_operation (stop_errors errors) s
      | StoppingHost (tid # ids) None errors \<Rightarrow>
          (case map_of (tr_entries s) tid of
             None \<Rightarrow> s\<lparr>tr_operation := StoppingHost ids None errors\<rparr>
           | Some k \<Rightarrow> (call_stop True (Some k) s)\<lparr>tr_operation := StoppingHost ids (Some (tid, k)) errors\<rparr>)
      | StoppingAll ps \<Rightarrow>
          if list_all (\<lambda>p. call_over (Some (snd p)) s) ps
          then end_operation (stop_errors (concat (map (\<lambda>p. stop_error_of (fst p) (stop_result (Some (snd p)) s)) ps))) s
          else s)"

definition snapshot_for :: "nat \<Rightarrow> tunnel_profile \<Rightarrow> tunnels \<Rightarrow> tunnel_snapshot" where
  "snapshot_for now tunnel s =
     (case map_of (tr_entries s) (tp_id tunnel) of
        None \<Rightarrow> stopped_snapshot tunnel
      | Some k \<Rightarrow>
          let inner = tunnel_at s k; snapshot = snapshot_locked now inner
          in if tu_retired inner then stopped_snapshot tunnel
             else if tu_profile inner \<noteq> tunnel
             then snapshot\<lparr>tsn_profile := Some tunnel,
               tsn_message := (case tsn_message snapshot of
                   None \<Rightarrow> Some ''saved tunnel configuration changed; restart to apply it'' | m \<Rightarrow> m)\<rparr>
             else snapshot)"

definition tunnels_host_update :: "host_profile \<Rightarrow> host_profile \<Rightarrow> ('r \<Rightarrow> 'a app_result \<times> 'r) \<Rightarrow> tunnels \<Rightarrow> 'r \<Rightarrow> 'a app_result \<times> 'r" where
  "tunnels_host_update previous next_profile update s r =
     (if \<not> same_connection_profile previous next_profile
         \<and> list_ex (\<lambda>p. let inner = tunnel_at s (snd p)
             in (case tu_host_profile inner of None \<Rightarrow> False | Some host \<Rightarrow> connection_uses_host host previous) \<and> tunnel_busy inner)
           (tr_entries s)
      then (Inl (State ''stop active tunnels before changing these SSH connection settings''), r)
      else update r)"

section \<open>Histories\<close>

datatype tunnel_move =
    Request world tunnel_request
  | OperationTurn world
  | CallTurn nat world
  | WorkerTurn nat nat world
  | StderrTurn nat nat "string \<times> bool" world
  | LineEvent nat nat

fun tunnel_step :: "tunnel_move \<Rightarrow> tunnels \<Rightarrow> tunnels" where
  "tunnel_step (Request world r) s = (if tr_operation s = FreeOp then begin_operation world r s else s)"
| "tunnel_step (OperationTurn world) s = operation_turn world s"
| "tunnel_step (CallTurn k world) s = (if k < length (tr_cells s) then set_cell k (call_turn world (tr_cells s ! k)) s else s)"
| "tunnel_step (WorkerTurn k i world) s =
     (if k < length (tr_cells s) \<and> i < length (ce_workers (tr_cells s ! k))
      then set_cell k (worker_turn world i (tr_cells s ! k)) s else s)"
| "tunnel_step (StderrTurn k p line world) s =
     (if k < length (tr_cells s) then set_cell k (stderr_turn world p line (tr_cells s ! k)) s else s)"
| "tunnel_step (LineEvent k j) s =
     (if k < length (tr_cells s) then set_cell k (line_event_turn j (tr_cells s ! k)) s else s)"

definition run_tunnels :: "tunnel_move list \<Rightarrow> tunnels \<Rightarrow> tunnels" where
  "run_tunnels moves s = fold tunnel_step moves s"

end
