(* ===== verification/TunnelsInv.thy ===== *)
theory TunnelsInv
  imports Tunnels
begin

text \<open>
  What a step can change in a tunnel, and the invariant of a tunnel with its threads over all
  interleavings.
\<close>

section \<open>What a section of a worker can change\<close>

text \<open>A section that changes what is shown makes an event with the next revision.\<close>

definition touched :: "tunnel_inner \<Rightarrow> tunnel_inner \<Rightarrow> pending_event \<Rightarrow> bool" where
  "touched inner inner' event \<longleftrightarrow> tu_revision inner' = saturating_add64 (tu_revision inner) 1
     \<and> pe_revision event = tu_revision inner' \<and> (\<exists>now. pe_snapshot event = snapshot_locked now inner')
     \<and> (log_ok inner \<longrightarrow> log_ok inner') \<and> tu_generation inner' = tu_generation inner
     \<and> tp_id (tu_profile inner') = tp_id (tu_profile inner) \<and> tu_retired inner' = tu_retired inner"

text \<open>It leaves alone who runs.\<close>

definition same_owner :: "tunnel_inner \<Rightarrow> tunnel_inner \<Rightarrow> bool" where
  "same_owner inner inner' \<longleftrightarrow> tu_desired_running inner' = tu_desired_running inner
     \<and> tu_worker_active inner' = tu_worker_active inner \<and> tu_child inner' = tu_child inner"

fun hand :: "worker_phase \<Rightarrow> nat option" where
  "hand (Storing p) = Some p"
| "hand (Discarding p) = Some p"
| "hand (Killing p _ _) = Some p"
| "hand _ = None"

text \<open>The phases of a worker that is at work and has no process in its hands.\<close>

fun plain :: "worker_phase \<Rightarrow> bool" where
  "plain (Storing p) = False"
| "plain (Discarding p) = False"
| "plain (Killing p _ _) = False"
| "plain Leaving = False"
| "plain Gone = False"
| "plain _ = True"

inductive section_effect :: "nat \<Rightarrow> worker \<Rightarrow> tunnel_inner \<Rightarrow> worker_phase \<Rightarrow> pending_event option \<Rightarrow> tunnel_inner \<Rightarrow> bool"
    for new w inner where
  Stays: "wk_phase w = Gone \<Longrightarrow> section_effect new w inner Gone None inner"
| Moves: "plain (wk_phase w) \<or> (\<exists>p m c. wk_phase w = Killing p m c) \<Longrightarrow> plain phase \<Longrightarrow> section_effect new w inner phase None inner"
| GivesUp: "plain (wk_phase w) \<Longrightarrow> \<not> is_current_locked inner (wk_generation w) \<Longrightarrow> section_effect new w inner Leaving None inner"
| Touches: "plain (wk_phase w) \<Longrightarrow> is_current_locked inner (wk_generation w) \<Longrightarrow> plain phase \<Longrightarrow> touched inner inner' event
    \<Longrightarrow> same_owner inner inner' \<Longrightarrow> section_effect new w inner phase (Some event) inner'"
| Tells: "plain (wk_phase w) \<Longrightarrow> plain phase \<Longrightarrow> event = current_event_locked now inner
    \<Longrightarrow> section_effect new w inner phase (Some event) inner"
| Finishes: "plain (wk_phase w) \<Longrightarrow> is_current_locked inner (wk_generation w) \<Longrightarrow> touched inner inner' event
    \<Longrightarrow> same_owner (inner\<lparr>tu_desired_running := False\<rparr>) inner' \<Longrightarrow> section_effect new w inner Leaving (Some event) inner'"
| Spawns: "wk_phase w = Spawning \<Longrightarrow> is_current_locked inner (wk_generation w) \<Longrightarrow> section_effect new w inner (Storing new) None inner"
| Stores: "wk_phase w = Storing p \<Longrightarrow> is_current_locked inner (wk_generation w) \<Longrightarrow> plain phase
    \<Longrightarrow> section_effect new w inner phase None (inner\<lparr>tu_last_process_error := None, tu_child := Some p\<rparr>)"
| Discards: "wk_phase w = Storing p \<Longrightarrow> \<not> is_current_locked inner (wk_generation w) \<Longrightarrow> section_effect new w inner (Discarding p) None inner"
| Discarded: "wk_phase w = Discarding p \<Longrightarrow> section_effect new w inner Leaving None inner"
| Reaps: "plain (wk_phase w) \<Longrightarrow> is_current_locked inner (wk_generation w) \<Longrightarrow> plain phase
    \<Longrightarrow> section_effect new w inner phase None (inner\<lparr>tu_child := None\<rparr>)"
| Takes: "plain (wk_phase w) \<Longrightarrow> tu_generation inner = wk_generation w \<Longrightarrow> tu_child inner = Some p
    \<Longrightarrow> section_effect new w inner (Killing p message clock) None (inner\<lparr>tu_child := None\<rparr>)"
| Returns: "wk_phase w = Killing p message clock \<Longrightarrow> tu_generation inner = wk_generation w \<Longrightarrow> tu_child inner = None \<Longrightarrow> plain phase
    \<Longrightarrow> section_effect new w inner phase None (inner\<lparr>tu_child := Some p\<rparr>)"
| Leaves: "wk_phase w = Leaving \<Longrightarrow> tu_generation inner \<noteq> wk_generation w \<Longrightarrow> section_effect new w inner Gone None inner"
| LeavesQuietly: "wk_phase w = Leaving \<Longrightarrow> tu_generation inner = wk_generation w \<Longrightarrow> \<not> tu_desired_running inner
    \<Longrightarrow> section_effect new w inner Gone None (inner\<lparr>tu_worker_active := False\<rparr>)"
| LeavesLoudly: "wk_phase w = Leaving \<Longrightarrow> is_current_locked inner (wk_generation w) \<Longrightarrow> touched inner inner' event
    \<Longrightarrow> same_owner (inner\<lparr>tu_desired_running := False, tu_worker_active := False, tu_child := None\<rparr>) inner'
    \<Longrightarrow> section_effect new w inner Gone (Some event) inner'"

lemma log_ok_cong:
  "tu_logs inner' = tu_logs inner \<Longrightarrow> tu_log_bytes inner' = tu_log_bytes inner \<Longrightarrow> log_ok inner' = log_ok inner"
  by (simp add: log_ok_def)

lemma log_ok_updates [simp]:
  "log_ok (inner\<lparr>tu_host_id := a\<rparr>) = log_ok inner" "log_ok (inner\<lparr>tu_host_profile := b\<rparr>) = log_ok inner"
  "log_ok (inner\<lparr>tu_profile := c\<rparr>) = log_ok inner" "log_ok (inner\<lparr>tu_state := d\<rparr>) = log_ok inner"
  "log_ok (inner\<lparr>tu_health := e\<rparr>) = log_ok inner" "log_ok (inner\<lparr>tu_started_at := f\<rparr>) = log_ok inner"
  "log_ok (inner\<lparr>tu_reconnect_count := g\<rparr>) = log_ok inner" "log_ok (inner\<lparr>tu_message := h\<rparr>) = log_ok inner"
  "log_ok (inner\<lparr>tu_last_process_error := i\<rparr>) = log_ok inner" "log_ok (inner\<lparr>tu_desired_running := j\<rparr>) = log_ok inner"
  "log_ok (inner\<lparr>tu_worker_active := j\<rparr>) = log_ok inner" "log_ok (inner\<lparr>tu_retired := j\<rparr>) = log_ok inner"
  "log_ok (inner\<lparr>tu_generation := g\<rparr>) = log_ok inner" "log_ok (inner\<lparr>tu_revision := g\<rparr>) = log_ok inner"
  "log_ok (inner\<lparr>tu_child := f\<rparr>) = log_ok inner"
  by (simp_all add: log_ok_def)

lemma log_ok_append [simp]: "log_ok inner \<Longrightarrow> log_ok (append_log_locked now level message inner)"
  by (rule append_log(1))

lemma pending_event_touched:
  assumes "pending_event_locked now inner' = (inner'', event)"
    and "tu_revision inner' = tu_revision inner" and "log_ok inner \<Longrightarrow> log_ok inner'"
    and "tu_generation inner' = tu_generation inner" and "tp_id (tu_profile inner') = tp_id (tu_profile inner)"
    and "tu_retired inner' = tu_retired inner"
  shows "touched inner inner'' event" "same_owner inner' inner''"
  using assms by (auto simp: pending_event_locked_def touched_def same_owner_def Let_def)

lemma same_owner_trans: "same_owner a b \<Longrightarrow> same_owner b c \<Longrightarrow> same_owner a c"
  by (simp add: same_owner_def)

lemma mark_starting_effect:
  assumes "mark_starting world g inner = Some (inner', event)"
  shows "is_current_locked inner g" "touched inner inner' event" "same_owner inner inner'"
  using assms by (auto simp: mark_starting_def Let_def pending_event_locked_def touched_def same_owner_def split: if_splits)

lemma mark_running_effect:
  assumes "mark_running world g started tunnel inner = Some (inner', event)"
  shows "is_current_locked inner g" "touched inner inner' event" "same_owner inner inner'"
  using assms by (auto simp: mark_running_def Let_def pending_event_locked_def touched_def same_owner_def split: if_splits)

lemma set_health_effect:
  assumes "set_health world g health message inner = Some (inner', event)"
  shows "is_current_locked inner g"
    and "(case event of None \<Rightarrow> inner' = inner | Some event \<Rightarrow> touched inner inner' event \<and> same_owner inner inner')"
  using assms by (auto simp: set_health_def Let_def pending_event_locked_def touched_def same_owner_def split: if_splits option.splits)

lemma finish_attempt_effect:
  assumes "finish_attempt world g tunnel message clean streak inner = Some (inner', event, retry, streak')"
  shows "is_current_locked inner g" "touched inner inner' event"
    and "same_owner (if retry = None then inner\<lparr>tu_desired_running := False\<rparr> else inner) inner'"
  using assms by (auto simp: finish_attempt_def Let_def pending_event_locked_def touched_def same_owner_def split: if_splits)

lemma worker_guard_effect:
  assumes "worker_guard world g inner = (inner', event)" and "tu_generation inner = g"
  shows "(case event of
      None \<Rightarrow> \<not> tu_desired_running inner \<and> inner' = inner\<lparr>tu_worker_active := False\<rparr>
    | Some event \<Rightarrow> tu_desired_running inner \<and> touched inner inner' event
        \<and> same_owner (inner\<lparr>tu_desired_running := False, tu_worker_active := False, tu_child := None\<rparr>) inner')"
  using assms by (auto simp: worker_guard_def Let_def pending_event_locked_def touched_def same_owner_def split: if_splits)

lemmas worker_fields = in_phase_def with_event_def

lemma section_None [simp]:
  "mark_starting world g inner = None \<longleftrightarrow> \<not> is_current_locked inner g"
  "mark_running world g started tunnel inner = None \<longleftrightarrow> \<not> is_current_locked inner g"
  "set_health world g health message inner = None \<longleftrightarrow> \<not> is_current_locked inner g"
  "finish_attempt world g tunnel detail clean streak inner = None \<longleftrightarrow> \<not> is_current_locked inner g"
  by (simp_all add: mark_starting_def mark_running_def set_health_def finish_attempt_def Let_def split: prod.splits)

lemma checked_plain: "plain (checked world tunnel clock)"
  by (auto simp: checked_def Let_def split: sum.splits)

declare worker_section.simps [simp del]

lemma worker_section_effect:
  assumes "worker_section world new w inner = (inner', w')" and "wk_event w = None"
  shows "section_effect new w inner (wk_phase w') (wk_event w') inner' \<and> wk_generation w' = wk_generation w"
proof (cases "wk_phase w")
  case AtTop
  show ?thesis
  proof (cases "mark_starting world (wk_generation w) inner")
    case None
    with AtTop assms show ?thesis by (auto simp: worker_section.simps worker_fields intro!: GivesUp)
  next
    case (Some r)
    with AtTop assms show ?thesis
      using mark_starting_effect[of world "wk_generation w" inner "fst r" "snd r"]
      by (auto simp: worker_section.simps worker_fields intro!: Touches split: prod.splits)
  qed
next
  case Resolving
  then show ?thesis using assms by (auto simp: worker_section.simps worker_fields split: sum.splits intro!: Moves)
next
  case Spawning
  then show ?thesis
    using assms by (auto simp: worker_section.simps worker_fields split: sum.splits if_splits intro!: Moves GivesUp Spawns)
next
  case (Storing child)
  show ?thesis
    using Storing assms Stores[OF Storing, of inner] Discards[OF Storing, of inner]
    by (auto simp: worker_section.simps worker_fields split: if_splits)
next
  case (Discarding child)
  then show ?thesis using assms by (auto simp: worker_section.simps worker_fields intro: Discarded)
next
  case (Polling clock)
  then show ?thesis
    using assms by (auto simp: worker_section.simps worker_fields split: if_splits child_status.splits intro!: Moves GivesUp Reaps)
next
  case (Exited clock status success)
  then show ?thesis using assms by (auto simp: worker_section.simps worker_fields Let_def intro!: Moves)
next
  case (Announcing clock)
  show ?thesis
  proof (cases "mark_running world (wk_generation w) (ac_started clock) (wk_tunnel w) inner")
    case None
    then have "\<not> is_current_locked inner (wk_generation w)" by simp
    with Announcing assms show ?thesis
      by (auto simp: worker_section.simps worker_fields None split: if_splits intro!: Moves GivesUp)
  next
    case (Some r)
    with Announcing assms show ?thesis
      using mark_running_effect[of world "wk_generation w" "ac_started clock" "wk_tunnel w" inner "fst r" "snd r"]
      by (auto simp: worker_section.simps worker_fields intro!: Moves Touches split: prod.splits if_splits)
  qed
next
  case (Checking clock)
  then show ?thesis
    using assms by (auto simp: worker_section.simps worker_fields checked_plain Let_def split: if_splits intro!: Moves)
next
  case (SettingHealth health message clock failed)
  show ?thesis
  proof (cases "set_health world (wk_generation w) health message inner")
    case None
    with SettingHealth assms show ?thesis by (auto simp: worker_section.simps worker_fields intro!: GivesUp)
  next
    case (Some r)
    with SettingHealth assms show ?thesis
      using set_health_effect[of world "wk_generation w" health message inner "fst r" "snd r"]
      by (cases "snd r") (auto simp: worker_section.simps worker_fields intro!: Moves Touches split: prod.splits if_splits)
  qed
next
  case (Terminating message clock)
  then show ?thesis
    using assms by (auto simp: worker_section.simps worker_fields split: if_splits option.splits intro!: Moves Takes)
next
  case (Killing child message clock)
  show ?thesis
  proof (cases "\<exists>e. wo_terminate world = Inl e \<and> tu_generation inner = wk_generation w \<and> tu_child inner = None")
    case True
    then show ?thesis using Killing assms Returns[OF Killing, of inner]
      by (auto simp: worker_section.simps worker_fields)
  next
    case False
    then show ?thesis using Killing assms
      by (auto simp: worker_section.simps worker_fields split: if_splits sum.splits intro!: Moves)
  qed
next
  case (Uptime clock)
  then show ?thesis
    using assms by (auto simp: worker_section.simps worker_fields split: if_splits intro!: Moves GivesUp Tells)
next
  case (AttemptOver message clean clock)
  then show ?thesis using assms by (auto simp: worker_section.simps worker_fields intro!: Moves)
next
  case (Finishing message clean)
  show ?thesis
  proof (cases "finish_attempt world (wk_generation w) (wk_tunnel w) message clean (wk_streak w) inner")
    case None
    with Finishing assms show ?thesis by (auto simp: worker_section.simps worker_fields intro!: GivesUp)
  next
    case (Some r)
    obtain i e d k where r: "r = (i, e, d, k)" by (cases r) auto
    note effect = finish_attempt_effect[OF Some[unfolded r]]
    show ?thesis
      using Finishing assms Some effect unfolding r
      by (cases d) (auto simp: worker_section.simps worker_fields intro!: Touches Finishes)
  qed
next
  case (Delay delay)
  then show ?thesis using assms by (auto simp: worker_section.simps worker_fields intro!: Moves)
next
  case (Sleeping deadline)
  then show ?thesis
    using assms by (auto simp: worker_section.simps worker_fields split: if_splits intro!: Moves GivesUp)
next
  case Leaving
  obtain i e where guard: "worker_guard world (wk_generation w) inner = (i, e)" by (cases "worker_guard world (wk_generation w) inner")
  have w': "inner' = i" "w' = with_event w e Gone" using assms(1) guard Leaving by (auto simp: worker_section.simps)
  show ?thesis
  proof (cases "tu_generation inner = wk_generation w")
    case True
    with worker_guard_effect[OF guard] Leaving show ?thesis
      unfolding w' by (cases e) (auto simp: worker_fields is_current_locked_def intro!: LeavesQuietly LeavesLoudly)
  next
    case False
    then have "i = inner" "e = None" using guard by (auto simp: worker_guard_def)
    with False Leaving show ?thesis unfolding w' by (auto simp: worker_fields intro!: Leaves)
  qed
next
  case Gone
  then show ?thesis using assms by (auto simp: worker_section.simps intro: Stays)
qed

section \<open>The invariant of a tunnel\<close>

text \<open>The calls that have given the tunnel a new generation, and the process a call has in hand.\<close>

fun moved_on :: "tunnel_call \<Rightarrow> bool" where
  "moved_on NoCall = False"
| "moved_on (StopLock _) = False"
| "moved_on (StartLock _ _) = False"
| "moved_on (StartTake _ _) = False"
| "moved_on _ = True"

fun call_hand :: "tunnel_call \<Rightarrow> nat option" where
  "call_hand (StopKill _ child _) = child"
| "call_hand (StartKill p _ _) = Some p"
| "call_hand _ = None"

text \<open>The calls after which the tunnel has a new worker, or is no longer wanted.\<close>

fun starting_call :: "tunnel_call \<Rightarrow> bool" where
  "starting_call (StartKill _ _ _) = True"
| "starting_call (StartMark _ _) = True"
| "starting_call (StartEmit _ _ _) = True"
| "starting_call (StartSpawn _ _ _) = True"
| "starting_call _ = False"

definition worker_ok :: "tunnel_inner \<Rightarrow> tunnel_call \<Rightarrow> nat list \<Rightarrow> worker \<Rightarrow> bool" where
  "worker_ok inner call processes w \<longleftrightarrow> wk_generation w \<le> tu_generation inner
     \<and> (moved_on call \<longrightarrow> wk_generation w < tu_generation inner)
     \<and> (wk_generation w = tu_generation inner \<longrightarrow> wk_phase w \<notin> {Leaving, Gone} \<longrightarrow> tu_desired_running inner)
     \<and> (wk_generation w = tu_generation inner \<longrightarrow> wk_phase w \<noteq> Gone \<longrightarrow> tu_worker_active inner)
     \<and> (holds_lifecycle (wk_phase w) \<longrightarrow> wk_generation w = tu_generation inner \<and> \<not> call_holds_lifecycle call)
     \<and> (\<forall>p. wk_phase w \<noteq> Discarding p)
     \<and> (\<forall>p. hand (wk_phase w) = Some p \<longrightarrow> p < length processes \<and> processes ! p = wk_generation w
          \<and> tu_child inner \<noteq> Some p \<and> call_hand call \<noteq> Some p)"

definition call_ok :: "tunnel_inner \<Rightarrow> tunnel_call \<Rightarrow> nat list \<Rightarrow> bool" where
  "call_ok inner call processes \<longleftrightarrow>
     (\<forall>p. call_hand call = Some p \<longrightarrow> p < length processes) \<and>
     (case call of
        StopKill g child already \<Rightarrow> g = tu_generation inner \<and> \<not> tu_desired_running inner \<and> tu_child inner = None
          \<and> (already \<longrightarrow> child = None)
      | StopEmit _ already killed \<Rightarrow> \<not> tu_desired_running inner \<and> (already \<longrightarrow> is_ok killed)
          \<and> (is_ok killed \<longrightarrow> tu_child inner = None \<and> tu_state inner = TunStopped)
      | StartKill _ _ _ \<Rightarrow> tu_child inner = None
      | StartMark _ _ \<Rightarrow> tu_child inner = None
      | StartEmit _ g _ \<Rightarrow> g = tu_generation inner \<and> tu_desired_running inner \<and> tu_worker_active inner \<and> tu_child inner = None
      | StartSpawn _ g _ \<Rightarrow> g = tu_generation inner \<and> tu_desired_running inner \<and> tu_worker_active inner \<and> tu_child inner = None
      | SpawnFailed _ _ \<Rightarrow> \<not> tu_desired_running inner \<and> tu_child inner = None
      | _ \<Rightarrow> True)"

definition slot_ok :: "tunnel_inner \<Rightarrow> nat list \<Rightarrow> bool" where
  "slot_ok inner processes \<longleftrightarrow> (\<forall>p. tu_child inner = Some p \<longrightarrow> p < length processes
     \<and> (tu_desired_running inner \<longrightarrow> processes ! p = tu_generation inner))"

text \<open>A tunnel that is wanted has a worker, is being started, or was left so by a start that failed.\<close>

definition desired_ok :: "tunnel_cell \<Rightarrow> bool" where
  "desired_ok c \<longleftrightarrow> (tu_desired_running (ce_inner c) \<longrightarrow>
     (\<exists>e. StaleAlive e \<in> set (ce_returned c)) \<or> starting_call (ce_call c)
     \<or> (\<exists>w \<in> set (ce_workers c). wk_generation w = tu_generation (ce_inner c) \<and> wk_phase w \<noteq> Gone))"

definition cell_ok :: "nat \<Rightarrow> tunnel_cell \<Rightarrow> bool" where
  "cell_ok n c \<longleftrightarrow> tu_generation (ce_inner c) \<le> n \<and> tu_revision (ce_inner c) \<le> n
     \<and> distinct (map wk_generation (ce_workers c))
     \<and> (\<forall>w \<in> set (ce_workers c). worker_ok (ce_inner c) (ce_call c) (ce_processes c) w)
     \<and> call_ok (ce_inner c) (ce_call c) (ce_processes c) \<and> slot_ok (ce_inner c) (ce_processes c)
     \<and> desired_ok c \<and> log_ok (ce_inner c)"

lemma new_cell_ok: "cell_ok n (new_cell tunnel)"
  by (simp add: cell_ok_def new_cell_def new_tunnel_inner_def call_ok_def slot_ok_def desired_ok_def log_ok_def log_fits_def)

text \<open>What a section of a worker does to who runs.\<close>

lemma section_generation: "section_effect new w inner phase event inner' \<Longrightarrow> tu_generation inner' = tu_generation inner"
  by (cases rule: section_effect.cases) (auto simp: touched_def)

lemma section_log: "section_effect new w inner phase event inner' \<Longrightarrow> log_ok inner \<Longrightarrow> log_ok inner'"
  by (cases rule: section_effect.cases) (auto simp: touched_def)

lemma section_revision:
  "section_effect new w inner phase event inner' \<Longrightarrow> tu_revision inner' = tu_revision inner \<or>
     tu_revision inner' = saturating_add64 (tu_revision inner) 1"
  by (cases rule: section_effect.cases) (auto simp: touched_def)

lemma saturating_bound: "a \<le> n \<Longrightarrow> saturating_add64 a 1 \<le> Suc n"
  by (simp add: saturating_add64_def)

lemma saturating_less: "a \<le> n \<Longrightarrow> n < u64_max \<Longrightarrow> saturating_add64 a 1 = Suc a"
  by (simp add: saturating_add64_def)

lemma plainD:
  "plain phase \<Longrightarrow> hand phase = None \<and> \<not> holds_lifecycle phase \<and> phase \<noteq> Leaving \<and> phase \<noteq> Gone \<and> phase \<noteq> Discarding p
     \<and> phase \<noteq> Storing p"
  by (cases phase) auto

text \<open>The worker itself.\<close>

lemma section_own:
  assumes effect: "section_effect (length processes) w inner phase event inner'"
    and ok: "worker_ok inner call processes w" and call: "call_ok inner call processes" and slot: "slot_ok inner processes"
    and free: "wk_phase w = Spawning \<longrightarrow> \<not> call_holds_lifecycle call"
    and w': "wk_phase w' = phase" "wk_generation w' = wk_generation w"
  shows "worker_ok inner' call (processes @ (if holds_lifecycle phase \<and> wk_phase w = Spawning then [wk_generation w] else [])) w'"
proof -
  note defs = worker_ok_def slot_ok_def call_ok_def touched_def same_owner_def is_current_locked_def
  from effect show ?thesis
  proof (cases rule: section_effect.cases)
    case Moves
    then show ?thesis using ok w' plainD[of phase] plainD[of "wk_phase w"] by (auto simp: defs)
  next
    case GivesUp
    then show ?thesis using ok w' plainD[of "wk_phase w"] by (auto simp: defs)
  next
    case Touches
    then show ?thesis using ok w' plainD[of phase] by (auto simp: defs)
  next
    case Tells
    then show ?thesis using ok w' plainD[of phase] plainD[of "wk_phase w"] by (auto simp: defs)
  next
    case Finishes
    then show ?thesis using ok w' plainD[of "wk_phase w"] by (auto simp: defs)
  next
    case Spawns
    then show ?thesis using ok w' free call slot by (auto simp: defs nth_append)
  next
    case (Stores p)
    then show ?thesis using ok w' plainD[of phase] by (auto simp: defs)
  next
    case (Takes p message clock)
    moreover have "call_hand call = None" using ok Takes by (cases call) (auto simp: worker_ok_def)
    ultimately show ?thesis using ok w' slot plainD[of "wk_phase w"] by (auto simp: defs)
  next
    case (Returns p message clock)
    then show ?thesis using ok w' plainD[of phase] by (auto simp: defs)
  qed (use ok w' plainD[of phase] in \<open>auto simp: defs\<close>)
qed

text \<open>The other workers, which have other generations.\<close>

lemma section_other:
  assumes effect: "section_effect (length processes) w inner phase event inner'"
    and w: "worker_ok inner call processes w" and ok: "worker_ok inner call processes v"
    and other: "wk_generation v \<noteq> wk_generation w"
  shows "worker_ok inner' call (processes @ more_processes) v"
proof -
  have kept: "tu_generation inner' = tu_generation inner" using section_generation[OF effect] .
  have owner: "tu_desired_running inner' = tu_desired_running inner \<and> tu_worker_active inner' = tu_worker_active inner
      \<or> wk_generation w = tu_generation inner"
    using effect by (cases rule: section_effect.cases) (auto simp: same_owner_def is_current_locked_def)
  have child: "tu_child inner' = tu_child inner \<or> tu_child inner' = None \<or> tu_child inner' = hand (wk_phase w)"
    using effect by (cases rule: section_effect.cases) (auto simp: same_owner_def)
  have same: "tu_desired_running inner' = tu_desired_running inner \<and> tu_worker_active inner' = tu_worker_active inner"
    if "wk_generation v = tu_generation inner" using owner other that by auto
  have hands: "tu_child inner' \<noteq> Some p" if p: "hand (wk_phase v) = Some p" for p
  proof
    assume "tu_child inner' = Some p"
    moreover have "tu_child inner \<noteq> Some p" "processes ! p = wk_generation v" using ok p by (auto simp: worker_ok_def)
    ultimately show False using child w other by (auto simp: worker_ok_def)
  qed
  have p: "p < length (processes @ more_processes) \<and> (processes @ more_processes) ! p = wk_generation v \<and> call_hand call \<noteq> Some p"
    if "hand (wk_phase v) = Some p" for p
    using ok that by (auto simp: worker_ok_def nth_append)
  from ok show ?thesis using same hands p unfolding worker_ok_def kept by blast
qed

lemma section_slot:
  assumes effect: "section_effect (length processes) w inner phase event inner'"
    and w: "worker_ok inner call processes w" and slot: "slot_ok inner processes"
  shows "slot_ok inner' (processes @ more_processes)"
  using effect
proof (cases rule: section_effect.cases)
  case Finishes
  then show ?thesis using slot by (auto simp: slot_ok_def same_owner_def touched_def nth_append)
next
  case (Stores p)
  then show ?thesis using w by (auto simp: slot_ok_def worker_ok_def is_current_locked_def nth_append)
next
  case (Returns p message clock)
  then show ?thesis using w by (auto simp: slot_ok_def worker_ok_def nth_append)
qed (use slot in \<open>auto simp: slot_ok_def same_owner_def touched_def nth_append\<close>)

lemma section_call:
  assumes effect: "section_effect (length processes) w inner phase event inner'"
    and w: "worker_ok inner call processes w" and call: "call_ok inner call processes"
  shows "call_ok inner' call (processes @ more_processes)"
proof (cases "moved_on call")
  case True
  then have old: "wk_generation w \<noteq> tu_generation inner" using w by (auto simp: worker_ok_def)
  have "inner' = inner"
    using effect old by (cases rule: section_effect.cases) (auto simp: is_current_locked_def)
  then show ?thesis using call by (auto simp: call_ok_def split: tunnel_call.splits)
next
  case False
  then show ?thesis by (cases call) (auto simp: call_ok_def)
qed

section \<open>The steps of a tunnel\<close>

inductive cell_step :: "tunnel_cell \<Rightarrow> tunnel_cell \<Rightarrow> bool" where
  CallStep: "cell_step c (call_turn world c)"
| WorkerStep: "i < length (ce_workers c) \<Longrightarrow> cell_step c (worker_turn world i c)"
| StderrStep: "cell_step c (stderr_turn world p line c)"
| LineStep: "cell_step c (line_event_turn j c)"
| StopStep: "ce_call c = NoCall \<Longrightarrow> cell_step c (c\<lparr>ce_call := StopLock retire_it\<rparr>)"
| StartStep: "ce_call c = NoCall \<Longrightarrow> tp_id tunnel = tp_id (tu_profile (ce_inner c)) \<Longrightarrow> cell_step c (c\<lparr>ce_call := StartLock host tunnel\<rparr>)"

text \<open>A turn of a worker sends its event, waits, panics, or takes a section.\<close>

lemma worker_turn_cases:
  assumes "i < length (ce_workers c)"
  defines "w \<equiv> ce_workers c ! i"
  obtains (Sends) event where "wk_event w = Some event"
      "worker_turn world i c = (emit_pending event c)\<lparr>ce_workers := (ce_workers c)[i := w\<lparr>wk_event := None\<rparr>]\<rparr>"
  | (Waits) "wk_event w = None" "worker_turn world i c = c" "wk_phase w = Spawning"
  | (Panics) "wk_event w = None" "wk_phase w \<notin> {Leaving, Gone}"
      "worker_turn world i c = c\<lparr>ce_workers := (ce_workers c)[i := in_phase w Leaving]\<rparr>"
  | (Works) inner' w' processes where "wk_event w = None" "wk_phase w = Spawning \<longrightarrow> lifecycle_free c"
      "section_effect (length (ce_processes c)) w (ce_inner c) (wk_phase w') (wk_event w') inner'"
      "wk_generation w' = wk_generation w"
      "processes = ce_processes c @ (if holds_lifecycle (wk_phase w') \<and> wk_phase w = Spawning then [wk_generation w] else [])"
      "worker_turn world i c = c\<lparr>ce_inner := inner', ce_workers := (ce_workers c)[i := w'], ce_processes := processes\<rparr>"
proof (cases "wk_event w")
  case (Some event)
  then show ?thesis by (intro Sends) (simp_all add: worker_turn_def w_def)
next
  case None
  consider (waits) "wk_phase w = Spawning" "\<not> lifecycle_free c"
    | (panics) "\<not> (wk_phase w = Spawning \<and> \<not> lifecycle_free c)" "wo_panics world" "wk_phase w \<notin> {Leaving, Gone}"
    | (works) "\<not> (wk_phase w = Spawning \<and> \<not> lifecycle_free c)" "\<not> (wo_panics world \<and> wk_phase w \<notin> {Leaving, Gone})"
    by blast
  then show ?thesis
  proof cases
    case waits
    with None show ?thesis by (intro Waits) (simp_all add: worker_turn_def w_def Let_def)
  next
    case panics
    with None show ?thesis by (intro Panics) (auto simp: worker_turn_def w_def Let_def)
  next
    case works
    obtain inner' w' where run: "worker_section world (length (ce_processes c)) w (ce_inner c) = (inner', w')"
      by (cases "worker_section world (length (ce_processes c)) w (ce_inner c)") auto
    from worker_section_effect[OF run None] works None show ?thesis
      by (intro Works[of w' inner' "ce_processes c @ (if holds_lifecycle (wk_phase w') \<and> wk_phase w = Spawning then [wk_generation w] else [])"])
        (auto simp: worker_turn_def w_def[symmetric] run Let_def)
  qed
qed

lemma emit_pending_fields [simp]:
  "ce_inner (emit_pending event c) = ce_inner c" "ce_workers (emit_pending event c) = ce_workers c"
  "ce_call (emit_pending event c) = ce_call c" "ce_processes (emit_pending event c) = ce_processes c"
  "ce_lines (emit_pending event c) = ce_lines c" "ce_returned (emit_pending event c) = ce_returned c"
  by (simp_all add: emit_pending_def)

lemma map_update_same: "i < length ws \<Longrightarrow> f w = f (ws ! i) \<Longrightarrow> map f (ws[i := w]) = map f ws"
  by (metis list_update_id map_update)

lemma replace_worker_ok:
  assumes ok: "cell_ok n c" and i: "i < length (ce_workers c)" and w': "wk_generation w' = wk_generation (ce_workers c ! i)"
    and same: "ce_workers c' = (ce_workers c)[i := w']" "ce_call c' = ce_call c" "ce_returned c' = ce_returned c"
    and inner: "tu_generation (ce_inner c') = tu_generation (ce_inner c)" "tu_revision (ce_inner c') \<le> Suc n" "log_ok (ce_inner c')"
      "call_ok (ce_inner c') (ce_call c) (ce_processes c')" "slot_ok (ce_inner c') (ce_processes c')"
    and own: "worker_ok (ce_inner c') (ce_call c) (ce_processes c') w'"
    and other: "\<And>v. v \<in> set (ce_workers c) \<Longrightarrow> wk_generation v \<noteq> wk_generation w' \<Longrightarrow> worker_ok (ce_inner c') (ce_call c) (ce_processes c') v"
    and desired: "tu_desired_running (ce_inner c') \<Longrightarrow> tu_desired_running (ce_inner c)
      \<and> (wk_generation w' = tu_generation (ce_inner c) \<longrightarrow> wk_phase w' = Gone \<longrightarrow> wk_phase (ce_workers c ! i) = Gone)"
  shows "cell_ok (Suc n) c'"
proof -
  have gens: "map wk_generation (ce_workers c') = map wk_generation (ce_workers c)"
    unfolding same by (rule map_update_same[OF i w'])
  have "worker_ok (ce_inner c') (ce_call c) (ce_processes c') v" if "v \<in> set (ce_workers c')" for v
  proof -
    obtain j where j: "j < length (ce_workers c)" "v = (ce_workers c)[i := w'] ! j"
      using \<open>v \<in> set (ce_workers c')\<close> by (auto simp: same in_set_conv_nth)
    show ?thesis
    proof (cases "j = i")
      case False
      then have "wk_generation (ce_workers c ! j) \<noteq> wk_generation w'"
        using ok i j w' by (simp add: cell_ok_def distinct_conv_nth)
      with j False other show ?thesis by simp
    qed (use j i own in simp)
  qed
  moreover have "desired_ok c'"
    unfolding desired_ok_def
  proof
    assume d': "tu_desired_running (ce_inner c')"
    then have d: "tu_desired_running (ce_inner c)" using desired by blast
    consider "\<exists>e. StaleAlive e \<in> set (ce_returned c)" | "starting_call (ce_call c)"
      | w where "w \<in> set (ce_workers c)" "wk_generation w = tu_generation (ce_inner c)" "wk_phase w \<noteq> Gone"
      using ok d by (auto simp: cell_ok_def desired_ok_def)
    then show "(\<exists>e. StaleAlive e \<in> set (ce_returned c')) \<or> starting_call (ce_call c')
        \<or> (\<exists>w \<in> set (ce_workers c'). wk_generation w = tu_generation (ce_inner c') \<and> wk_phase w \<noteq> Gone)"
    proof cases
      case 3
      then obtain j where j: "j < length (ce_workers c)" "w = ce_workers c ! j" by (auto simp: in_set_conv_nth)
      then have "ce_workers c' ! j = (if j = i then w' else w)" "j < length (ce_workers c')" using i by (auto simp: same)
      moreover have "wk_generation (ce_workers c' ! j) = tu_generation (ce_inner c') \<and> wk_phase (ce_workers c' ! j) \<noteq> Gone"
        using 3 j i w' desired[OF d'] inner(1) calculation by auto
      ultimately show ?thesis using nth_mem by blast
    qed (simp_all add: same)
  qed
  ultimately show ?thesis using ok inner gens by (auto simp: cell_ok_def same(2))
qed

lemma worker_turn_ok:
  assumes ok: "cell_ok n c" and i: "i < length (ce_workers c)"
  shows "cell_ok (Suc n) (worker_turn world i c)"
proof -
  let ?w = "ce_workers c ! i"
  have w_in: "?w \<in> set (ce_workers c)" using i by simp
  have w: "worker_ok (ce_inner c) (ce_call c) (ce_processes c) ?w" using ok w_in by (simp add: cell_ok_def)
  have parts: "call_ok (ce_inner c) (ce_call c) (ce_processes c)" "slot_ok (ce_inner c) (ce_processes c)" "log_ok (ce_inner c)"
      "tu_revision (ce_inner c) \<le> n" "\<And>v. v \<in> set (ce_workers c) \<Longrightarrow> worker_ok (ce_inner c) (ce_call c) (ce_processes c) v"
    using ok by (auto simp: cell_ok_def)
  from i show ?thesis
  proof (cases rule: worker_turn_cases[where world = world])
    case (Sends event)
    have "worker_ok (ce_inner c) (ce_call c) (ce_processes c) (?w\<lparr>wk_event := None\<rparr>)" using w by (simp add: worker_ok_def)
    then show ?thesis
      by (intro replace_worker_ok[OF ok i, where w' = "?w\<lparr>wk_event := None\<rparr>"])
        (use parts Sends in simp_all)
  next
    case Waits
    then show ?thesis using ok by (auto simp: cell_ok_def)
  next
    case Panics
    have "worker_ok (ce_inner c) (ce_call c) (ce_processes c) (in_phase ?w Leaving)"
      using w Panics(2) by (auto simp: worker_ok_def in_phase_def)
    then show ?thesis
      by (intro replace_worker_ok[OF ok i, where w' = "in_phase ?w Leaving"])
        (use parts Panics in \<open>simp_all add: in_phase_def\<close>)
  next
    case (Works inner' w' processes)
    have free: "wk_phase ?w = Spawning \<longrightarrow> \<not> call_holds_lifecycle (ce_call c)" using Works(2) by (simp add: lifecycle_free_def)
    have desired: "tu_desired_running (ce_inner c)
        \<and> (wk_generation w' = tu_generation (ce_inner c) \<longrightarrow> wk_phase w' = Gone \<longrightarrow> wk_phase ?w = Gone)"
      if "tu_desired_running inner'"
      using Works(3,4) that w
      by (cases rule: section_effect.cases) (auto simp: same_owner_def is_current_locked_def worker_ok_def)
    show ?thesis
    proof (intro replace_worker_ok[OF ok i, where w' = w'])
      show "worker_ok (ce_inner (worker_turn world i c)) (ce_call c) (ce_processes (worker_turn world i c)) w'"
        using section_own[OF Works(3) w parts(1,2) free refl Works(4)] Works(5,6) by simp
      show "worker_ok (ce_inner (worker_turn world i c)) (ce_call c) (ce_processes (worker_turn world i c)) v"
        if "v \<in> set (ce_workers c)" "wk_generation v \<noteq> wk_generation w'" for v
        using section_other[OF Works(3) w parts(5)[OF that(1)]] that(2) Works(4-6) by simp
      show "tu_revision (ce_inner (worker_turn world i c)) \<le> Suc n"
        using section_revision[OF Works(3)] saturating_bound[OF parts(4)] parts(4) Works(6) by auto
    qed (use Works desired section_generation[OF Works(3)] section_log[OF Works(3) parts(3)]
        section_call[OF Works(3) w parts(1)] section_slot[OF Works(3) w parts(2)] in simp_all)
  qed
qed

text \<open>A turn of a call.\<close>

lemma superseded_ok:
  assumes "worker_ok inner call processes w" and "wk_generation w < tu_generation inner'" and "\<not> holds_lifecycle (wk_phase w)"
    and "\<And>p. hand (wk_phase w) = Some p \<Longrightarrow> tu_child inner' \<noteq> Some p \<and> call_hand call' \<noteq> Some p"
  shows "worker_ok inner' call' processes w"
  using assms by (auto simp: worker_ok_def)

lemma moved_on_worker:
  assumes "worker_ok inner call processes w" and "moved_on call"
  shows "wk_generation w < tu_generation inner" and "\<not> holds_lifecycle (wk_phase w)"
  using assms by (auto simp: worker_ok_def)

lemma replace_call_ok:
  assumes ok: "cell_ok n c" and same: "ce_workers c' = ce_workers c" "ce_processes c' = ce_processes c"
    and inner: "tu_generation (ce_inner c') \<le> Suc n" "tu_revision (ce_inner c') \<le> Suc n" "log_ok (ce_inner c')"
      "call_ok (ce_inner c') (ce_call c') (ce_processes c)" "slot_ok (ce_inner c') (ce_processes c)" "desired_ok c'"
    and workers: "\<And>w. w \<in> set (ce_workers c) \<Longrightarrow> worker_ok (ce_inner c) (ce_call c) (ce_processes c) w \<Longrightarrow>
      worker_ok (ce_inner c') (ce_call c') (ce_processes c) w"
  shows "cell_ok (Suc n) c'"
  using assms by (auto simp: cell_ok_def)

lemma bump_generation_fields [simp]:
  "tu_generation (bump_generation inner) = saturating_add64 (tu_generation inner) 1"
  "tu_revision (bump_generation inner) = tu_revision inner" "tu_desired_running (bump_generation inner) = tu_desired_running inner"
  "tu_child (bump_generation inner) = tu_child inner" "log_ok (bump_generation inner) = log_ok inner"
  "tu_worker_active (bump_generation inner) = tu_worker_active inner" "tu_state (bump_generation inner) = tu_state inner"
  "tu_profile (bump_generation inner) = tu_profile inner"
  by (simp_all add: bump_generation_def)

lemma conclude_stop_effect:
  assumes "conclude_stop world g child already inner = (inner', event, killed)"
    and "g = tu_generation inner" and "\<not> tu_desired_running inner" and "tu_child inner = None"
  shows "touched inner inner' event" and "\<not> tu_desired_running inner'"
    and "tu_worker_active inner' = tu_worker_active inner"
    and "is_ok killed \<Longrightarrow> tu_child inner' = None \<and> tu_state inner' = TunStopped"
    and "\<not> is_ok killed \<Longrightarrow> tu_child inner' = child \<and> child \<noteq> None"
  using assms
  by (auto simp: conclude_stop_def pending_event_locked_def touched_def Let_def is_ok_def split: if_splits sum.splits)

lemma mark_requested_effect:
  assumes "mark_requested world host tunnel inner = (inner', event)"
  shows "tu_revision inner' = saturating_add64 (tu_revision inner) 1" and "pe_revision event = tu_revision inner'"
    and "pe_snapshot event = snapshot_locked (wo_now world) inner'"
    and "log_ok inner \<Longrightarrow> log_ok inner'" and "tu_generation inner' = tu_generation inner"
    and "tu_desired_running inner'" and "tu_worker_active inner'" and "tu_child inner' = tu_child inner"
    and "tu_profile inner' = tunnel" and "tu_retired inner' = tu_retired inner"
  using assms by (auto simp: mark_requested_def pending_event_locked_def Let_def)

lemma mark_spawn_failed_effect:
  assumes "mark_spawn_failed world g e inner = (inner', event)" and "g = tu_generation inner"
  shows "touched inner inner' event" and "same_owner (inner\<lparr>tu_desired_running := False, tu_worker_active := False\<rparr>) inner'"
  using assms by (auto simp: mark_spawn_failed_def pending_event_locked_def touched_def same_owner_def Let_def)

lemma begin_stop_ok:
  assumes ok: "cell_ok n c" and n: "n < u64_max" and free: "lifecycle_free c"
  shows "cell_ok (Suc n) (begin_stop retire_it c)"
proof -
  let ?c = "begin_stop retire_it c"
  have gen: "tu_generation (ce_inner ?c) = Suc (tu_generation (ce_inner c))"
    using ok n by (auto simp: begin_stop_def Let_def cell_ok_def saturating_less)
  have slot: "p < length (ce_processes c)" if "tu_child (ce_inner c) = Some p" for p
    using ok that by (auto simp: cell_ok_def slot_ok_def)
  show ?thesis
  proof (rule replace_call_ok[OF ok])
    show "worker_ok (ce_inner ?c) (ce_call ?c) (ce_processes c) w"
      if "w \<in> set (ce_workers c)" "worker_ok (ce_inner c) (ce_call c) (ce_processes c) w" for w
    proof (rule superseded_ok[OF that(2)])
      show "wk_generation w < tu_generation (ce_inner ?c)" using that(2) by (simp add: gen worker_ok_def)
      show "\<not> holds_lifecycle (wk_phase w)" using free that(1) by (simp add: lifecycle_free_def list_all_iff)
      show "tu_child (ce_inner ?c) \<noteq> Some p \<and> call_hand (ce_call ?c) \<noteq> Some p" if "hand (wk_phase w) = Some p" for p
        using \<open>worker_ok (ce_inner c) (ce_call c) (ce_processes c) w\<close> that
        by (auto simp: begin_stop_def Let_def worker_ok_def)
    qed
    show "tu_generation (ce_inner ?c) \<le> Suc n" unfolding gen using ok by (simp add: cell_ok_def)
  qed (use ok slot in \<open>auto simp: begin_stop_def Let_def cell_ok_def call_ok_def slot_ok_def desired_ok_def\<close>)
qed

text \<open>A step of a call that has given the tunnel a new generation.\<close>

lemma moved_on_ok:
  assumes ok: "cell_ok n c" and moved: "moved_on (ce_call c)" and same: "ce_workers c' = ce_workers c" "ce_processes c' = ce_processes c"
    and inner: "tu_generation (ce_inner c') = tu_generation (ce_inner c)" "tu_revision (ce_inner c') \<le> Suc n" "log_ok (ce_inner c')"
      "\<And>p. tu_child (ce_inner c') = Some p \<Longrightarrow>
         (tu_child (ce_inner c) = Some p \<or> call_hand (ce_call c) = Some p) \<and> \<not> tu_desired_running (ce_inner c')"
    and call: "call_hand (ce_call c') = None \<or> call_hand (ce_call c') = call_hand (ce_call c)"
      "call_ok (ce_inner c') (ce_call c') (ce_processes c)" and desired: "desired_ok c'"
  shows "cell_ok (Suc n) c'"
proof (rule replace_call_ok[OF ok same])
  have "p < length (ce_processes c)" if "tu_child (ce_inner c) = Some p \<or> call_hand (ce_call c) = Some p" for p
    using ok that by (auto simp: cell_ok_def call_ok_def slot_ok_def)
  then show "slot_ok (ce_inner c') (ce_processes c)" using inner(4) by (auto simp: slot_ok_def)
  show "worker_ok (ce_inner c') (ce_call c') (ce_processes c) w"
    if w: "worker_ok (ce_inner c) (ce_call c) (ce_processes c) w" for w
    using moved_on_worker[OF w moved] inner(1,4) call(1) w
    by (intro superseded_ok[OF w]) (auto simp: worker_ok_def)
  show "tu_generation (ce_inner c') \<le> Suc n" using ok inner(1) by (simp add: cell_ok_def)
qed (use inner call desired in simp_all)

lemma call_turn_ok:
  assumes ok: "cell_ok n c" and n: "n < u64_max"
  shows "cell_ok (Suc n) (call_turn world c)"
proof -
  have up: "cell_ok (Suc n) c" using ok by (auto simp: cell_ok_def)
  have parts: "call_ok (ce_inner c) (ce_call c) (ce_processes c)" "slot_ok (ce_inner c) (ce_processes c)" "log_ok (ce_inner c)"
      "tu_generation (ce_inner c) \<le> n" "tu_revision (ce_inner c) \<le> n" "desired_ok c"
      "\<And>w. w \<in> set (ce_workers c) \<Longrightarrow> worker_ok (ce_inner c) (ce_call c) (ce_processes c) w"
    using ok by (auto simp: cell_ok_def)
  note bound = saturating_bound[OF parts(5)]
  show ?thesis
  proof (cases "ce_call c")
    case NoCall
    then show ?thesis using up by (simp add: call_turn_def)
  next
    case (StopLock retire_it)
    then show ?thesis using up begin_stop_ok[OF ok n] by (simp add: call_turn_def)
  next
    case (StopKill g child already)
    obtain inner' event killed where run: "conclude_stop world g child already (ce_inner c) = (inner', event, killed)"
      by (cases "conclude_stop world g child already (ce_inner c)") auto
    have facts: "g = tu_generation (ce_inner c)" "\<not> tu_desired_running (ce_inner c)" "tu_child (ce_inner c) = None"
        "already \<longrightarrow> child = None"
      using parts(1) StopKill by (auto simp: call_ok_def)
    note effect = conclude_stop_effect[OF run facts(1-3)]
    have c': "call_turn world c = c\<lparr>ce_inner := inner', ce_call := StopEmit event already killed\<rparr>"
      using StopKill run by (simp add: call_turn_def)
    have "call_ok inner' (StopEmit event already killed) (ce_processes c)"
      using effect(2,4,5) facts(4) by (auto simp: call_ok_def)
    moreover have "call_hand (ce_call c) = Some p" if "tu_child inner' = Some p" for p
      using effect(4,5) that StopKill by (cases "is_ok killed") auto
    ultimately show ?thesis unfolding c'
      using StopKill effect(1,2) bound parts(3) by (intro moved_on_ok[OF ok]) (auto simp: touched_def desired_ok_def)
  next
    case (StopEmit event already killed)
    then have "\<not> tu_desired_running (ce_inner c)" using parts(1) by (simp add: call_ok_def)
    then show ?thesis
      using StopEmit parts
      by (intro moved_on_ok[OF ok]) (auto simp: call_turn_def return_call_def call_ok_def desired_ok_def split: if_splits)
  next
    case (StartLock host tunnel)
    have idle: "worker_ok (ce_inner c) NoCall (ce_processes c) w" if "w \<in> set (ce_workers c)" for w
      using parts(7)[OF that] StartLock by (simp add: worker_ok_def)
    have taking: "worker_ok (ce_inner c) (StartTake host tunnel) (ce_processes c) w"
      if "w \<in> set (ce_workers c)" "lifecycle_free c" for w
      using parts(7)[OF that(1)] that(2) StartLock that(1) by (auto simp: worker_ok_def lifecycle_free_def list_all_iff)
    consider "call_turn world c = c" | (returns) r where "call_turn world c = return_call r c"
      | (takes) "call_turn world c = c\<lparr>ce_call := StartTake host tunnel\<rparr>" "lifecycle_free c"
      using StartLock
      by (cases "lifecycle_free c"; cases "tu_retired (ce_inner c)"; cases "start_matches tunnel (ce_inner c)")
        (auto simp: call_turn_def)
    then show ?thesis
    proof cases
      case returns
      then show ?thesis unfolding returns
        using parts(1-6) StartLock idle
        by (intro replace_call_ok[OF ok]) (auto simp: return_call_def call_ok_def desired_ok_def)
    next
      case takes
      then show ?thesis unfolding takes(1)
        using parts(1-6) StartLock taking
        by (intro replace_call_ok[OF ok]) (auto simp: call_ok_def desired_ok_def)
    qed (use up in simp)
  next
    case (StartTake host tunnel)
    let ?c = "call_turn world c"
    have c': "?c = c\<lparr>ce_inner := (bump_generation (ce_inner c))\<lparr>tu_child := None\<rparr>,
        ce_call := (case tu_child (ce_inner c) of None \<Rightarrow> StartMark host tunnel | Some child \<Rightarrow> StartKill child host tunnel)\<rparr>"
      using StartTake by (simp add: call_turn_def)
    have gen: "tu_generation (ce_inner ?c) = Suc (tu_generation (ce_inner c))" using parts(4) n by (simp add: c' saturating_less)
    have "p < length (ce_processes c)" if "tu_child (ce_inner c) = Some p" for p using parts(2) that by (simp add: slot_ok_def)
    then have call: "call_ok (ce_inner ?c) (ce_call ?c) (ce_processes c)"
      by (cases "tu_child (ce_inner c)") (auto simp: c' call_ok_def)
    show ?thesis
    proof (rule replace_call_ok[OF ok _ _ _ _ _ call])
      show "worker_ok (ce_inner ?c) (ce_call ?c) (ce_processes c) w"
        if w: "worker_ok (ce_inner c) (ce_call c) (ce_processes c) w" for w
      proof (rule superseded_ok[OF w])
        show "wk_generation w < tu_generation (ce_inner ?c)" using w by (simp add: gen worker_ok_def)
        show "\<not> holds_lifecycle (wk_phase w)" using w StartTake by (simp add: worker_ok_def)
        show "tu_child (ce_inner ?c) \<noteq> Some p \<and> call_hand (ce_call ?c) \<noteq> Some p" if "hand (wk_phase w) = Some p" for p
          using w that by (auto simp: c' worker_ok_def split: option.splits)
      qed
      show "tu_generation (ce_inner ?c) \<le> Suc n" using gen parts(4) by simp
      show "desired_ok ?c" by (auto simp: c' desired_ok_def split: option.splits)
    qed (use parts in \<open>auto simp: c' slot_ok_def\<close>)
  next
    case (StartKill child host tunnel)
    then show ?thesis
      using parts by (intro moved_on_ok[OF ok]) (auto simp: call_turn_def return_call_def call_ok_def desired_ok_def split: sum.splits)
  next
    case (StartMark host tunnel)
    obtain inner' event where run: "mark_requested world host tunnel (ce_inner c) = (inner', event)"
      by (cases "mark_requested world host tunnel (ce_inner c)") auto
    note effect = mark_requested_effect[OF run]
    have "call_turn world c = c\<lparr>ce_inner := inner', ce_call := StartEmit event (tu_generation inner') tunnel\<rparr>"
      using StartMark run by (simp add: call_turn_def)
    then show ?thesis
      using StartMark effect parts bound by (intro moved_on_ok[OF ok]) (auto simp: call_ok_def desired_ok_def)
  next
    case (StartEmit event g tunnel)
    then show ?thesis
      using parts by (intro moved_on_ok[OF ok]) (auto simp: call_turn_def call_ok_def desired_ok_def)
  next
    case (StartSpawn event g tunnel)
    have facts: "g = tu_generation (ce_inner c)" "tu_desired_running (ce_inner c)" "tu_worker_active (ce_inner c)"
        "tu_child (ce_inner c) = None"
      using parts(1) StartSpawn by (auto simp: call_ok_def)
    show ?thesis
    proof (cases "wo_thread world")
      case (Inr r)
      let ?c = "call_turn world c"
      have c': "?c = return_call (StartDone (pe_snapshot event)) (c\<lparr>ce_workers := ce_workers c @ [new_worker g tunnel]\<rparr>)"
        using StartSpawn Inr by (simp add: call_turn_def)
      have old: "wk_generation w < g \<and> worker_ok (ce_inner c) NoCall (ce_processes c) w" if "w \<in> set (ce_workers c)" for w
        using moved_on_worker[OF parts(7)[OF that]] superseded_ok[OF parts(7)[OF that], of "ce_inner c" NoCall] StartSpawn facts
        by simp
      have "worker_ok (ce_inner c) NoCall (ce_processes c) (new_worker g tunnel)"
        using facts by (simp add: worker_ok_def new_worker_def)
      moreover have "desired_ok ?c" using facts by (simp add: c' desired_ok_def return_call_def new_worker_def)
      moreover have "g \<notin> wk_generation ` set (ce_workers c)" using old by fastforce
      moreover have "ce_workers ?c = ce_workers c @ [new_worker g tunnel]" "ce_inner ?c = ce_inner c" "ce_call ?c = NoCall"
          "ce_processes ?c = ce_processes c" "wk_generation (new_worker g tunnel) = g"
        by (simp_all add: c' return_call_def new_worker_def)
      moreover have "distinct (map wk_generation (ce_workers c))" using ok by (simp add: cell_ok_def)
      ultimately show ?thesis
        using old parts(2-5) unfolding cell_ok_def by (auto simp: call_ok_def)
    next
      case (Inl e)
      obtain inner' event' where run: "mark_spawn_failed world g e (ce_inner c) = (inner', event')"
        by (cases "mark_spawn_failed world g e (ce_inner c)") auto
      note effect = mark_spawn_failed_effect[OF run facts(1)]
      have "call_turn world c = c\<lparr>ce_inner := inner', ce_call := SpawnFailed event' e\<rparr>"
        using StartSpawn Inl run by (simp add: call_turn_def)
      then show ?thesis
        using StartSpawn effect facts parts bound
        by (intro moved_on_ok[OF ok]) (auto simp: call_ok_def desired_ok_def touched_def same_owner_def)
    qed
  next
    case (SpawnFailed event e)
    then have "\<not> tu_desired_running (ce_inner c)" "tu_child (ce_inner c) = None" using parts(1) by (simp_all add: call_ok_def)
    then show ?thesis
      using SpawnFailed parts by (intro moved_on_ok[OF ok]) (auto simp: call_turn_def return_call_def call_ok_def desired_ok_def)
  qed
qed

lemma record_process_line_effect:
  assumes "record_process_line world g line inner = (inner', event)"
  shows "(case event of None \<Rightarrow> inner' = inner | Some event \<Rightarrow> touched inner inner' event \<and> same_owner inner inner'
    \<and> tu_generation inner = g \<and> tu_state inner' = tu_state inner \<and> tu_profile inner' = tu_profile inner)"
  using assms
  by (auto simp: record_process_line_def Let_def pending_event_locked_def touched_def same_owner_def split: option.splits if_splits)

lemma stderr_turn_cases:
  obtains "stderr_turn world p line c = c"
  | inner' event where "touched (ce_inner c) inner' event" "same_owner (ce_inner c) inner'" "tu_state inner' = tu_state (ce_inner c)"
      "tu_profile inner' = tu_profile (ce_inner c)" "tu_generation (ce_inner c) \<in> set (ce_processes c)"
      "stderr_turn world p line c = c\<lparr>ce_inner := inner', ce_lines := ce_lines c @ [event]\<rparr>"
proof -
  obtain inner' event where run: "record_process_line world (ce_processes c ! p) line (ce_inner c) = (inner', event)"
    by (cases "record_process_line world (ce_processes c ! p) line (ce_inner c)") auto
  show ?thesis
    using that record_process_line_effect[OF run] run
    by (cases event; cases "p < length (ce_processes c)") (auto simp: stderr_turn_def dest: nth_mem)
qed

lemma same_owner_ok:
  assumes ok: "cell_ok n c" and touched: "touched (ce_inner c) inner' event" and owner: "same_owner (ce_inner c) inner'"
    and state: "tu_state inner' = tu_state (ce_inner c)"
  shows "cell_ok (Suc n) (c\<lparr>ce_inner := inner', ce_lines := lines\<rparr>)"
proof -
  have "tu_revision inner' \<le> Suc n" using ok touched saturating_bound by (auto simp: cell_ok_def touched_def)
  moreover have "call_ok inner' (ce_call c) (ce_processes c)"
    using ok owner touched state
    by (cases "ce_call c") (auto simp: cell_ok_def call_ok_def same_owner_def touched_def)
  ultimately show ?thesis
    using ok touched owner
    by (auto simp: cell_ok_def touched_def same_owner_def worker_ok_def slot_ok_def desired_ok_def)
qed

theorem cell_step_ok:
  assumes step: "cell_step c c'" and ok: "cell_ok n c" and n: "n < u64_max"
  shows "cell_ok (Suc n) c'"
  using step
proof (cases rule: cell_step.cases)
  case (CallStep world)
  then show ?thesis using call_turn_ok[OF ok n] by simp
next
  case (WorkerStep i world)
  then show ?thesis using worker_turn_ok[OF ok] by simp
next
  case (StderrStep world p line)
  show ?thesis
  proof (cases rule: stderr_turn_cases[of world p line c])
    case 1
    then show ?thesis using StderrStep ok by (auto simp: cell_ok_def)
  next
    case (2 inner' event)
    then show ?thesis using StderrStep same_owner_ok[OF ok] by simp
  qed
next
  case (LineStep j)
  then show ?thesis using ok by (auto simp: cell_ok_def line_event_turn_def desired_ok_def)
qed (use ok in \<open>auto simp: cell_ok_def worker_ok_def call_ok_def desired_ok_def\<close>)

end
