(* ===== verification/TunnelsSafe.thy ===== *)
theory TunnelsSafe
  imports TunnelsInv
begin

text \<open>
  The events of a tunnel over all interleavings, and what a stop guarantees.
\<close>

section \<open>Events\<close>

text \<open>A snapshot shows the tunnel as it is; two states look the same.\<close>

definition shows_tunnel :: "tunnel_snapshot \<Rightarrow> tunnel_inner \<Rightarrow> bool" where
  "shows_tunnel e inner \<longleftrightarrow> tsn_tunnel_id e = tp_id (tu_profile inner) \<and> tsn_profile e = Some (tu_profile inner)
     \<and> tsn_state e = tu_state inner \<and> tsn_health e = Some (tu_health inner)
     \<and> tsn_reconnect_count e = Some (tu_reconnect_count inner) \<and> tsn_message e = tu_message inner
     \<and> (tsn_uptime_seconds e = None \<longleftrightarrow> tu_started_at inner = None)"

definition same_view :: "tunnel_inner \<Rightarrow> tunnel_inner \<Rightarrow> bool" where
  "same_view inner inner' \<longleftrightarrow> tu_revision inner' = tu_revision inner \<and> tu_profile inner' = tu_profile inner
     \<and> tu_state inner' = tu_state inner \<and> tu_health inner' = tu_health inner
     \<and> tu_reconnect_count inner' = tu_reconnect_count inner \<and> tu_message inner' = tu_message inner
     \<and> tu_started_at inner' = tu_started_at inner"

definition event_ok :: "tunnel_inner \<Rightarrow> pending_event \<Rightarrow> bool" where
  "event_ok inner event \<longleftrightarrow> pe_revision event \<le> tu_revision inner \<and> tsn_revision (pe_snapshot event) = pe_revision event
     \<and> (pe_revision event = tu_revision inner \<longrightarrow> shows_tunnel (pe_snapshot event) inner)"

fun call_event :: "tunnel_call \<Rightarrow> pending_event option" where
  "call_event (StopEmit event already killed) = (if already \<and> is_ok killed then None else Some event)"
| "call_event (StartEmit event _ _) = Some event"
| "call_event (SpawnFailed event _) = Some event"
| "call_event _ = None"

text \<open>The events that were made and not yet sent or dropped.\<close>

definition pending :: "tunnel_cell \<Rightarrow> pending_event set" where
  "pending c = {event. \<exists>w \<in> set (ce_workers c). wk_event w = Some event} \<union> set (ce_lines c)
     \<union> {event. call_event (ce_call c) = Some event}"

definition events_ok :: "tunnel_cell \<Rightarrow> bool" where
  "events_ok c \<longleftrightarrow> (\<forall>event \<in> pending c. event_ok (ce_inner c) event) \<and> sorted (map tsn_revision (ce_emitted c))
     \<and> (\<forall>e \<in> set (ce_emitted c). tsn_revision e \<le> tu_revision (ce_inner c)
          \<and> (tsn_revision e = tu_revision (ce_inner c) \<longrightarrow> shows_tunnel e (ce_inner c)))"

text \<open>The newest state was sent, or an event of it is on its way.\<close>

definition announced :: "tunnel_cell \<Rightarrow> bool" where
  "announced c \<longleftrightarrow> tu_revision (ce_inner c) = 0 \<or> (\<exists>event \<in> pending c. pe_revision event = tu_revision (ce_inner c))
     \<or> (ce_emitted c \<noteq> [] \<and> tsn_revision (last (ce_emitted c)) = tu_revision (ce_inner c))"

text \<open>A stop has met a tunnel that was already stopped: it makes an event that it does not send.\<close>

definition stop_in_vain :: "tunnel_cell \<Rightarrow> bool" where
  "stop_in_vain c \<longleftrightarrow> StopDone True \<in> set (ce_returned c) \<or> (\<exists>event killed. ce_call c = StopEmit event True killed)"

lemma snapshot_shows [simp]:
  "shows_tunnel (snapshot_locked now inner) inner" "tsn_revision (snapshot_locked now inner) = tu_revision inner"
  by (simp_all add: shows_tunnel_def snapshot_locked_def uptime_seconds_def)

lemma current_event_ok: "event_ok inner (current_event_locked now inner)"
  by (simp add: event_ok_def current_event_locked_def shows_tunnel_def uptime_seconds_def)

lemma touched_event_ok: "touched inner inner' event \<Longrightarrow> event_ok inner' event"
  by (auto simp: touched_def event_ok_def)

lemma same_view_event_ok: "same_view inner inner' \<Longrightarrow> event_ok inner' event = event_ok inner event"
  by (simp add: same_view_def event_ok_def shows_tunnel_def)

text \<open>A step of the state: it looks the same, or it has the next revision.\<close>

lemma view_step:
  assumes events: "events_ok c" and view: "same_view (ce_inner c) (ce_inner c') \<or> tu_revision (ce_inner c) < tu_revision (ce_inner c')"
    and pending: "pending c' \<subseteq> pending c \<union> fresh" and fresh: "\<And>event. event \<in> fresh \<Longrightarrow> event_ok (ce_inner c') event"
    and emitted: "ce_emitted c' = ce_emitted c"
  shows "events_ok c'"
proof -
  have "event_ok (ce_inner c') event" if "event_ok (ce_inner c) event" for event
    using view that same_view_event_ok by (auto simp: event_ok_def)
  then have "\<forall>event \<in> pending c'. event_ok (ce_inner c') event"
    using events pending fresh unfolding events_ok_def by blast
  moreover have "tsn_revision e \<le> tu_revision (ce_inner c')
      \<and> (tsn_revision e = tu_revision (ce_inner c') \<longrightarrow> shows_tunnel e (ce_inner c'))" if "e \<in> set (ce_emitted c)" for e
  proof -
    have e: "tsn_revision e \<le> tu_revision (ce_inner c)"
        "tsn_revision e = tu_revision (ce_inner c) \<longrightarrow> shows_tunnel e (ce_inner c)"
      using events that unfolding events_ok_def by blast+
    from view show ?thesis
    proof
      assume "same_view (ce_inner c) (ce_inner c')"
      with e show ?thesis by (simp add: same_view_def shows_tunnel_def)
    qed (use e in simp)
  qed
  ultimately show ?thesis using events emitted by (simp add: events_ok_def)
qed

lemma emit_step:
  assumes events: "events_ok c" and event: "event \<in> pending c" and pending: "pending c' \<subseteq> pending c"
    and same: "ce_inner c' = ce_inner c" "ce_emitted c' = ce_emitted (emit_pending event c)"
  shows "events_ok c'"
proof -
  have "event_ok (ce_inner c) event" using events event by (auto simp: events_ok_def)
  moreover have "\<forall>e \<in> set (ce_emitted c). tsn_revision e \<le> tu_revision (ce_inner c)" using events by (auto simp: events_ok_def)
  ultimately show ?thesis
    using events pending same by (auto simp: events_ok_def emit_pending_def event_ok_def sorted_append)
qed

lemma view_announced:
  assumes "announced c" and "tu_revision (ce_inner c') = tu_revision (ce_inner c)" and "pending c \<subseteq> pending c'"
    and "ce_emitted c' = ce_emitted c"
  shows "announced c'"
  using assms by (auto simp: announced_def)

lemma emit_announced:
  assumes announced: "announced c" and events: "events_ok c" and event: "event \<in> pending c"
    and pending: "pending c \<subseteq> insert event (pending c')"
    and same: "ce_inner c' = ce_inner c" "ce_emitted c' = ce_emitted (emit_pending event c)"
  shows "announced c'"
proof (cases "pe_revision event = tu_revision (ce_inner c)")
  case True
  then have "tsn_revision (pe_snapshot event) = tu_revision (ce_inner c)"
    using events event by (auto simp: events_ok_def event_ok_def)
  then show ?thesis using True same by (simp add: announced_def emit_pending_def)
next
  case False
  then have "ce_emitted c' = ce_emitted c" using same(2) by (simp add: emit_pending_def)
  then show ?thesis using announced pending False same(1) unfolding announced_def by (metis insertE subsetD)
qed

text \<open>What a section of a worker does to the view.\<close>

lemma section_view:
  assumes "section_effect new w inner phase event inner'" and "tu_revision inner < u64_max"
  shows "(same_view inner inner' \<or> tu_revision inner < tu_revision inner' \<and> event \<noteq> None)
    \<and> (\<forall>e. event = Some e \<longrightarrow> event_ok inner' e \<and> pe_revision e = tu_revision inner')"
proof -
  have touched: "tu_revision inner < tu_revision inner' \<and> event_ok inner' e \<and> pe_revision e = tu_revision inner'"
    if "touched inner inner' e" for e
    using that assms(2) touched_event_ok[OF that] by (auto simp: touched_def saturating_add64_def)
  show ?thesis
    using assms(1)
  proof (cases rule: section_effect.cases)
    case (Touches e)
    then show ?thesis using touched by auto
  next
    case (Finishes e)
    then show ?thesis using touched by auto
  next
    case (LeavesLoudly e)
    then show ?thesis using touched by auto
  next
    case (Tells e now)
    then show ?thesis using current_event_ok by (auto simp: same_view_def current_event_locked_def)
  qed (auto simp: same_view_def)
qed

lemma pending_update:
  assumes "i < length (ce_workers c)"
  shows "pending (c\<lparr>ce_inner := inner', ce_workers := (ce_workers c)[i := w'], ce_processes := processes\<rparr>)
      \<subseteq> pending c \<union> {event. wk_event w' = Some event}"
    and "wk_event (ce_workers c ! i) = None \<Longrightarrow> pending c \<union> {event. wk_event w' = Some event}
      \<subseteq> pending (c\<lparr>ce_inner := inner', ce_workers := (ce_workers c)[i := w'], ce_processes := processes\<rparr>)"
proof -
  show "pending (c\<lparr>ce_inner := inner', ce_workers := (ce_workers c)[i := w'], ce_processes := processes\<rparr>)
      \<subseteq> pending c \<union> {event. wk_event w' = Some event}"
    by (auto simp: pending_def dest!: set_update_subset_insert[THEN subsetD])
  assume none: "wk_event (ce_workers c ! i) = None"
  have "w \<in> set ((ce_workers c)[i := w'])" if "w \<in> set (ce_workers c)" "wk_event w = Some event" for w event
  proof -
    obtain j where "j < length (ce_workers c)" "w = ce_workers c ! j"
      using \<open>w \<in> set (ce_workers c)\<close> by (auto simp: in_set_conv_nth)
    moreover then have "j \<noteq> i" using none that(2) by auto
    ultimately show ?thesis by (metis length_list_update nth_list_update_neq nth_mem)
  qed
  moreover have "w' \<in> set ((ce_workers c)[i := w'])" using assms by (simp add: set_update_memI)
  ultimately show "pending c \<union> {event. wk_event w' = Some event}
      \<subseteq> pending (c\<lparr>ce_inner := inner', ce_workers := (ce_workers c)[i := w'], ce_processes := processes\<rparr>)"
    by (auto simp: pending_def)
qed

lemma worker_turn_events:
  assumes ok: "cell_ok n c" and n: "n < u64_max" and i: "i < length (ce_workers c)" and events: "events_ok c"
  shows "events_ok (worker_turn world i c)"
    and "announced c \<Longrightarrow> announced (worker_turn world i c)"
proof -
  let ?w = "ce_workers c ! i"
  have rev: "tu_revision (ce_inner c) < u64_max" using ok n by (simp add: cell_ok_def)
  have "events_ok (worker_turn world i c) \<and> (announced c \<longrightarrow> announced (worker_turn world i c))"
    using i
  proof (cases rule: worker_turn_cases[where world = world])
    case (Sends event)
    have pending: "event \<in> pending c" using Sends(1) i by (auto simp: pending_def intro!: bexI[of _ ?w])
    have sub: "pending (worker_turn world i c) \<subseteq> pending c"
      unfolding Sends(2) by (auto simp: pending_def dest!: set_update_subset_insert[THEN subsetD])
    have sup: "pending c \<subseteq> insert event (pending (worker_turn world i c))"
    proof
      fix e assume "e \<in> pending c"
      then consider w where "w \<in> set (ce_workers c)" "wk_event w = Some e" | "e \<in> set (ce_lines c)" | "call_event (ce_call c) = Some e"
        by (auto simp: pending_def)
      then show "e \<in> insert event (pending (worker_turn world i c))"
      proof cases
        case 1
        then obtain j where j: "j < length (ce_workers c)" "w = ce_workers c ! j" by (auto simp: in_set_conv_nth)
        show ?thesis
        proof (cases "j = i")
          case False
          then have "w \<in> set ((ce_workers c)[i := ?w\<lparr>wk_event := None\<rparr>])"
            using j by (metis length_list_update nth_list_update_neq nth_mem)
          then show ?thesis using 1 unfolding Sends(2) by (auto simp: pending_def)
        qed (use 1 j Sends(1) in simp)
      qed (auto simp: pending_def Sends(2))
    qed
    show ?thesis
      using emit_step[OF events pending sub] emit_announced[OF _ events pending sup] by (simp add: Sends(2))
  next
    case Waits
    then show ?thesis using events by simp
  next
    case Panics
    have c': "worker_turn world i c = c\<lparr>ce_inner := ce_inner c, ce_workers := (ce_workers c)[i := in_phase ?w Leaving],
        ce_processes := ce_processes c\<rparr>" using Panics(3) by simp
    have "wk_event (in_phase ?w Leaving) = None" using Panics(1) by (simp add: in_phase_def)
    note pending = pending_update[OF i, where w' = "in_phase ?w Leaving" and inner' = "ce_inner c" and processes = "ce_processes c"]
    have "same_view (ce_inner c) (ce_inner (worker_turn world i c))" by (simp add: c' same_view_def)
    then show ?thesis
      using view_step[OF events, where c' = "worker_turn world i c" and fresh = "{}"]
        view_announced[of c "worker_turn world i c"] pending Panics(1) \<open>wk_event (in_phase ?w Leaving) = None\<close>
      by (simp add: c')
  next
    case (Works inner' w' processes)
    note pending = pending_update[OF i, where w' = w' and inner' = inner' and processes = processes]
    note view = section_view[OF Works(3) rev]
    have c': "worker_turn world i c = c\<lparr>ce_inner := inner', ce_workers := (ce_workers c)[i := w'], ce_processes := processes\<rparr>"
      by (rule Works(6))
    have "events_ok (worker_turn world i c)"
      unfolding c'
      by (rule view_step[OF events _ pending(1)]) (use view in auto)
    moreover have "announced (worker_turn world i c)" if "announced c"
    proof (cases "wk_event w'")
      case None
      then have "same_view (ce_inner c) inner'" using view by simp
      then show ?thesis
        unfolding c' using view_announced[OF that] pending(2)[OF Works(1)] by (simp add: same_view_def)
    next
      case (Some event)
      then have "event \<in> pending (worker_turn world i c)" "pe_revision event = tu_revision (ce_inner (worker_turn world i c))"
        unfolding c' using pending(2)[OF Works(1)] view by auto
      then show ?thesis by (auto simp: announced_def)
    qed
    ultimately show ?thesis by blast
  qed
  then show "events_ok (worker_turn world i c)" "announced c \<Longrightarrow> announced (worker_turn world i c)" by blast+
qed

text \<open>A call that changes nothing to be seen, and one that makes an event.\<close>

lemma unseen_step:
  assumes "events_ok c" and "same_view (ce_inner c) (ce_inner c')" and "pending c' = pending c" and "ce_emitted c' = ce_emitted c"
  shows "events_ok c' \<and> (announced c \<longrightarrow> announced c')"
  using view_step[OF assms(1), of c' "{}"] view_announced[of c c'] assms by (auto simp: same_view_def)

lemma seen_step:
  assumes "events_ok c" and "tu_revision (ce_inner c) < tu_revision (ce_inner c')" and "event_ok (ce_inner c') event"
    and "pending c' \<subseteq> insert event (pending c)" and "ce_emitted c' = ce_emitted c"
  shows "events_ok c'" and "event \<in> pending c' \<Longrightarrow> pe_revision event = tu_revision (ce_inner c') \<Longrightarrow> announced c'"
  using view_step[OF assms(1), of c' "{event}"] assms by (auto simp: announced_def)

lemma pending_fields:
  assumes "ce_workers c' = ce_workers c" and "ce_lines c' = ce_lines c" and "call_event (ce_call c) = None"
  shows "pending c' = pending c \<union> {event. call_event (ce_call c') = Some event}"
  using assms by (auto simp: pending_def)

definition events_go_on :: "tunnel_cell \<Rightarrow> tunnel_cell \<Rightarrow> bool" where
  "events_go_on c c' \<longleftrightarrow> events_ok c' \<and> (announced c \<or> stop_in_vain c \<longrightarrow> announced c' \<or> stop_in_vain c')"

lemma emitted_call_step:
  assumes events: "events_ok c" and event: "call_event (ce_call c) = Some event"
    and c': "ce_inner c' = ce_inner c" "ce_workers c' = ce_workers c" "ce_lines c' = ce_lines c"
      "ce_emitted c' = ce_emitted (emit_pending event c)" "call_event (ce_call c') = None"
    and vain: "stop_in_vain c \<Longrightarrow> stop_in_vain c'"
  shows "events_go_on c c'"
proof -
  have pending: "event \<in> pending c" "pending c' \<subseteq> pending c" "pending c \<subseteq> insert event (pending c')"
    using event c' by (auto simp: pending_def)
  show ?thesis
    using emit_step[OF events pending(1,2) c'(1,4)] emit_announced[OF _ events pending(1,3) c'(1,4)] vain
    by (auto simp: events_go_on_def)
qed

lemma call_turn_events:
  assumes ok: "cell_ok n c" and n: "n < u64_max" and events: "events_ok c"
  shows "events_go_on c (call_turn world c)"
proof -
  have rev: "tu_revision (ce_inner c) < u64_max" using ok n by (simp add: cell_ok_def)
  have call: "call_ok (ce_inner c) (ce_call c) (ce_processes c)" using ok by (simp add: cell_ok_def)
  have unseen: "events_go_on c c'"
    if "same_view (ce_inner c) (ce_inner c')" "pending c' = pending c" "ce_emitted c' = ce_emitted c" "stop_in_vain c \<Longrightarrow> stop_in_vain c'"
    for c'
    using unseen_step[OF events that(1-3)] that(4) by (auto simp: events_go_on_def)
  have touched: "tu_revision (ce_inner c) < tu_revision inner' \<and> event_ok inner' e \<and> pe_revision e = tu_revision inner'"
    if "touched (ce_inner c) inner' e" for inner' e
    using that rev touched_event_ok[OF that] by (auto simp: touched_def saturating_add64_def)
  show ?thesis
  proof (cases "ce_call c")
    case NoCall
    then show ?thesis using events by (simp add: call_turn_def events_go_on_def)
  next
    case (StopLock retire_it)
    show ?thesis
      by (rule unseen) (use StopLock in \<open>auto simp: call_turn_def begin_stop_def Let_def bump_generation_def same_view_def
          pending_def stop_in_vain_def\<close>)
  next
    case (StopKill g child already)
    obtain inner' event killed where run: "conclude_stop world g child already (ce_inner c) = (inner', event, killed)"
      by (cases "conclude_stop world g child already (ce_inner c)") auto
    have effect: "touched (ce_inner c) inner' event"
      using conclude_stop_effect(1)[OF run] call StopKill by (simp add: call_ok_def)
    have c': "call_turn world c = c\<lparr>ce_inner := inner', ce_call := StopEmit event already killed\<rparr>"
      using StopKill run by (simp add: call_turn_def)
    have pending: "pending (call_turn world c) = pending c \<union> {e. call_event (StopEmit event already killed) = Some e}"
      using pending_fields[of "call_turn world c" c] StopKill by (simp add: c')
    have "events_ok (call_turn world c)"
      using seen_step(1)[OF events, of "call_turn world c" event] touched[OF effect] pending by (auto simp: c' split: if_splits)
    moreover have "announced (call_turn world c) \<or> stop_in_vain (call_turn world c)"
    proof (cases already)
      case False
      then show ?thesis
        using seen_step(2)[OF events, of "call_turn world c" event] touched[OF effect] pending by (auto simp: c')
    qed (auto simp: c' stop_in_vain_def)
    ultimately show ?thesis by (simp add: events_go_on_def)
  next
    case (StopEmit event already killed)
    show ?thesis
    proof (cases "already \<and> is_ok killed")
      case True
      have "call_turn world c = return_call (StopDone True) c"
        using StopEmit True by (cases killed) (auto simp: call_turn_def is_ok_def)
      then show ?thesis
        using True StopEmit unseen_step[OF events, of "call_turn world c"]
        by (auto simp: events_go_on_def return_call_def stop_in_vain_def same_view_def pending_def)
    next
      case False
      then have "\<not> already" using call StopEmit by (auto simp: call_ok_def)
      then show ?thesis
        using StopEmit by (intro emitted_call_step[OF events]) (auto simp: call_turn_def return_call_def stop_in_vain_def)
    qed
  next
    case (StartLock host tunnel)
    show ?thesis
      by (rule unseen) (use StartLock in \<open>auto simp: call_turn_def return_call_def same_view_def pending_def stop_in_vain_def\<close>)
  next
    case (StartTake host tunnel)
    show ?thesis
      by (rule unseen) (use StartTake in \<open>auto simp: call_turn_def bump_generation_def same_view_def pending_def stop_in_vain_def
          split: option.splits\<close>)
  next
    case (StartKill child host tunnel)
    show ?thesis
      by (rule unseen) (use StartKill in \<open>auto simp: call_turn_def return_call_def same_view_def pending_def stop_in_vain_def
          split: sum.splits\<close>)
  next
    case (StartMark host tunnel)
    obtain inner' event where run: "mark_requested world host tunnel (ce_inner c) = (inner', event)"
      by (cases "mark_requested world host tunnel (ce_inner c)") auto
    note effect = mark_requested_effect[OF run]
    have c': "call_turn world c = c\<lparr>ce_inner := inner', ce_call := StartEmit event (tu_generation inner') tunnel\<rparr>"
      using StartMark run by (simp add: call_turn_def)
    have "pending (call_turn world c) = insert event (pending c)"
      using pending_fields[of "call_turn world c" c] StartMark by (simp add: c')
    moreover have "tu_revision (ce_inner c) < tu_revision inner'" using effect(1) rev by (simp add: saturating_add64_def)
    moreover have "event_ok inner' event" using effect(2,3) by (simp add: event_ok_def)
    ultimately show ?thesis
      using seen_step[OF events, of "call_turn world c" event] effect(2) by (auto simp: c' events_go_on_def)
  next
    case (StartEmit event g tunnel)
    then show ?thesis
      by (intro emitted_call_step[OF events]) (auto simp: call_turn_def stop_in_vain_def)
  next
    case (StartSpawn event g tunnel)
    have g: "g = tu_generation (ce_inner c)" using call StartSpawn by (simp add: call_ok_def)
    show ?thesis
    proof (cases "wo_thread world")
      case (Inr r)
      show ?thesis
        by (rule unseen) (use StartSpawn Inr in \<open>auto simp: call_turn_def return_call_def same_view_def pending_def
            stop_in_vain_def new_worker_def\<close>)
    next
      case (Inl e)
      obtain inner' event' where run: "mark_spawn_failed world g e (ce_inner c) = (inner', event')"
        by (cases "mark_spawn_failed world g e (ce_inner c)") auto
      note effect = mark_spawn_failed_effect(1)[OF run g]
      have c': "call_turn world c = c\<lparr>ce_inner := inner', ce_call := SpawnFailed event' e\<rparr>"
        using StartSpawn Inl run by (simp add: call_turn_def)
      have "pending (call_turn world c) = insert event' (pending c)"
        using pending_fields[of "call_turn world c" c] StartSpawn by (simp add: c')
      then show ?thesis
        using seen_step[OF events, of "call_turn world c" event'] touched[OF effect] by (auto simp: c' events_go_on_def)
    qed
  next
    case (SpawnFailed event e)
    then show ?thesis
      by (intro emitted_call_step[OF events]) (auto simp: call_turn_def return_call_def stop_in_vain_def)
  qed
qed

lemma stderr_events:
  assumes ok: "cell_ok n c" and n: "n < u64_max" and events: "events_ok c"
  shows "events_go_on c (stderr_turn world p line c)"
proof (cases rule: stderr_turn_cases[of world p line c])
  case 1
  then show ?thesis using events by (simp add: events_go_on_def)
next
  case (2 inner' event)
  let ?c = "stderr_turn world p line c"
  have rev: "tu_revision (ce_inner c) < u64_max" using ok n by (simp add: cell_ok_def)
  have "pending ?c = insert event (pending c)" unfolding 2 by (auto simp: pending_def)
  moreover have "tu_revision (ce_inner c) < tu_revision inner'" "pe_revision event = tu_revision inner'"
    using 2(1) rev by (auto simp: touched_def saturating_add64_def)
  ultimately show ?thesis
    using seen_step[OF events, of ?c event] touched_event_ok[OF 2(1)] by (auto simp: 2(6) events_go_on_def)
qed

lemma line_events:
  assumes events: "events_ok c"
  shows "events_go_on c (line_event_turn j c)"
proof (cases "j < length (ce_lines c)")
  case True
  let ?c = "line_event_turn j c" and ?e = "ce_lines c ! j"
  have "set (ce_lines c) = insert ?e (set (take j (ce_lines c) @ drop (Suc j) (ce_lines c)))"
    using True by (metis Un_insert_right id_take_nth_drop list.simps(15) set_append)
  then have "?e \<in> pending c" "pending ?c \<subseteq> pending c" "pending c \<subseteq> insert ?e (pending ?c)"
    using True by (auto simp: pending_def line_event_turn_def)
  then show ?thesis
    using emit_step[OF events, of ?e ?c] emit_announced[OF _ events, of ?e ?c] True
    by (auto simp: events_go_on_def line_event_turn_def stop_in_vain_def)
qed (use events in \<open>simp add: line_event_turn_def events_go_on_def\<close>)

theorem cell_step_events:
  assumes step: "cell_step c c'" and ok: "cell_ok n c" and n: "n < u64_max" and events: "events_ok c"
  shows "events_go_on c c'"
  using step
proof (cases rule: cell_step.cases)
  case (WorkerStep i world)
  then show ?thesis
    using worker_turn_events[OF ok n _ events]
    by (auto simp: events_go_on_def stop_in_vain_def worker_turn_def Let_def split: option.splits prod.splits)
next
  case (StopStep retire_it)
  then show ?thesis
    using unseen_step[OF events, of c'] by (auto simp: events_go_on_def stop_in_vain_def same_view_def pending_def)
next
  case (StartStep tunnel host)
  then show ?thesis
    using unseen_step[OF events, of c'] by (auto simp: events_go_on_def stop_in_vain_def same_view_def pending_def)
qed (use call_turn_events[OF ok n events] stderr_events[OF ok n events] line_events[OF events] in auto)

end
