(* ===== verification/TunnelsStop.thy ===== *)
theory TunnelsStop
  imports TunnelsSafe
begin

text \<open>
  What a successful stop guarantees, how a superseded worker ends, and which tunnels count as busy.
\<close>

section \<open>A stopped tunnel\<close>

text \<open>Every process was started by a worker of its generation.\<close>

definition processes_ok :: "tunnel_cell \<Rightarrow> bool" where
  "processes_ok c \<longleftrightarrow> set (ce_processes c) \<subseteq> wk_generation ` set (ce_workers c)"

text \<open>No process, nobody who could start one, and shown as stopped.\<close>

definition parked :: "tunnel_cell \<Rightarrow> bool" where
  "parked c \<longleftrightarrow> \<not> tu_desired_running (ce_inner c) \<and> tu_child (ce_inner c) = None \<and> tu_state (ce_inner c) = TunStopped
     \<and> (\<forall>w \<in> set (ce_workers c). wk_generation w < tu_generation (ce_inner c))"

fun stop_phase :: "tunnel_call \<Rightarrow> bool" where
  "stop_phase NoCall = True"
| "stop_phase (StopLock _) = True"
| "stop_phase (StopKill _ child _) = (child = None)"
| "stop_phase (StopEmit _ _ killed) = is_ok killed"
| "stop_phase _ = False"

fun waiting_call :: "tunnel_call \<Rightarrow> bool" where
  "waiting_call NoCall = True"
| "waiting_call (StopLock _) = True"
| "waiting_call (StartLock _ _) = True"
| "waiting_call _ = False"

text \<open>When the last thing that a call returned is a successful stop, the tunnel is parked.\<close>

definition stopped_ok :: "tunnel_cell \<Rightarrow> bool" where
  "stopped_ok c \<longleftrightarrow> (waiting_call (ce_call c) \<longrightarrow> ce_returned c \<noteq> [] \<longrightarrow> (\<exists>already. last (ce_returned c) = StopDone already)
     \<longrightarrow> parked c)"

lemma update_generations:
  assumes "i < length (ce_workers c)" and "wk_generation w' = wk_generation (ce_workers c ! i)"
  shows "wk_generation ` set ((ce_workers c)[i := w']) = wk_generation ` set (ce_workers c)"
proof -
  have "map wk_generation ((ce_workers c)[i := w']) = map wk_generation (ce_workers c)"
    by (rule map_update_same[OF assms])
  then show ?thesis by (metis list.set_map)
qed

lemma worker_turn_generations:
  assumes "i < length (ce_workers c)"
  shows "wk_generation ` set (ce_workers (worker_turn world i c)) = wk_generation ` set (ce_workers c)"
  using assms
proof (cases rule: worker_turn_cases[where world = world])
  case (Works inner' w' processes)
  then show ?thesis using update_generations[OF assms, of w'] by simp
qed (use update_generations[OF assms] in \<open>simp_all add: in_phase_def\<close>)

lemma call_turn_workers:
  "ce_workers (call_turn world c) = ce_workers c \<or> (\<exists>w. ce_workers (call_turn world c) = ce_workers c @ [w])"
  "ce_processes (call_turn world c) = ce_processes c"
  by (auto simp: call_turn_def return_call_def begin_stop_def Let_def split: tunnel_call.splits prod.splits option.splits sum.splits)

lemma cell_step_processes:
  assumes "cell_step c c'" and "processes_ok c"
  shows "processes_ok c'"
  using assms(1)
proof (cases rule: cell_step.cases)
  case (CallStep world)
  then show ?thesis using assms(2) call_turn_workers[of world c] by (auto simp: processes_ok_def)
next
  case (WorkerStep i world)
  have "set (ce_processes c') \<subseteq> set (ce_processes c) \<union> {wk_generation (ce_workers c ! i)}"
    using WorkerStep by (auto simp: worker_turn_def Let_def split: option.splits prod.splits if_splits)
  moreover have "wk_generation (ce_workers c ! i) \<in> wk_generation ` set (ce_workers c)" using WorkerStep by simp
  ultimately show ?thesis
    using assms(2) worker_turn_generations[OF WorkerStep(2), of world] WorkerStep(1) by (auto simp: processes_ok_def)
next
  case (StderrStep world p line)
  then show ?thesis using assms(2) by (cases rule: stderr_turn_cases[of world p line c]) (auto simp: processes_ok_def)
qed (use assms in \<open>auto simp: processes_ok_def line_event_turn_def\<close>)

lemma parked_worker_turn:
  assumes i: "i < length (ce_workers c)" and parked: "parked c"
  shows "parked (worker_turn world i c) \<and> ce_processes (worker_turn world i c) = ce_processes c"
proof -
  let ?w = "ce_workers c ! i"
  have old: "wk_generation ?w \<noteq> tu_generation (ce_inner c)"
    using parked nth_mem[OF i] unfolding parked_def by (metis less_irrefl)
  have gens: "wk_generation ` set (ce_workers (worker_turn world i c)) = wk_generation ` set (ce_workers c)"
    by (rule worker_turn_generations[OF i])
  have "ce_inner (worker_turn world i c) = ce_inner c \<and> ce_processes (worker_turn world i c) = ce_processes c"
    using i
  proof (cases rule: worker_turn_cases[where world = world])
    case (Works inner' w' processes)
    have "inner' = ce_inner c \<and> \<not> (holds_lifecycle (wk_phase w') \<and> wk_phase ?w = Spawning)"
      using Works(3) old by (cases rule: section_effect.cases) (auto simp: is_current_locked_def dest: plainD)
    then show ?thesis using Works(5,6) by auto
  qed simp_all
  moreover have "\<forall>w \<in> set (ce_workers (worker_turn world i c)). wk_generation w < tu_generation (ce_inner c)"
    using parked gens unfolding parked_def by (metis (no_types, lifting) image_iff)
  ultimately show ?thesis using parked by (simp add: parked_def)
qed

lemma parked_stderr_turn:
  assumes parked: "parked c" and processes: "processes_ok c"
  shows "stderr_turn world p line c = c"
proof (cases rule: stderr_turn_cases[of world p line c])
  case (2 inner' event)
  then obtain w where "w \<in> set (ce_workers c)" "wk_generation w = tu_generation (ce_inner c)"
    using processes unfolding processes_ok_def by (metis imageE subsetD)
  then show ?thesis using parked unfolding parked_def by (metis less_irrefl)
qed simp

lemma parked_call_turn:
  assumes ok: "cell_ok n c" and n: "n < u64_max" and parked: "parked c" and call: "stop_phase (ce_call c)"
  shows "parked (call_turn world c) \<and> stop_phase (ce_call (call_turn world c)) \<and> ce_processes (call_turn world c) = ce_processes c"
proof (cases "ce_call c")
  case (StopLock retire_it)
  have "tu_generation (bump_generation x) = Suc (tu_generation (ce_inner c))"
    if "tu_generation x = tu_generation (ce_inner c)" for x
    using ok n that by (simp add: cell_ok_def saturating_less)
  then show ?thesis
    using StopLock parked by (auto simp: call_turn_def begin_stop_def Let_def parked_def less_Suc_eq)
next
  case (StopKill g child already)
  obtain inner' event killed where run: "conclude_stop world g child already (ce_inner c) = (inner', event, killed)"
    by (cases "conclude_stop world g child already (ce_inner c)") auto
  have "call_ok (ce_inner c) (ce_call c) (ce_processes c)" using ok by (simp add: cell_ok_def)
  then have effect: "touched (ce_inner c) inner' event" "\<not> tu_desired_running inner'"
      "is_ok killed \<Longrightarrow> tu_child inner' = None \<and> tu_state inner' = TunStopped"
    using conclude_stop_effect[OF run] StopKill by (auto simp: call_ok_def)
  have "is_ok killed" using run call StopKill by (auto simp: conclude_stop_def Let_def is_ok_def split: prod.splits)
  then show ?thesis
    using StopKill run effect parked by (auto simp: call_turn_def parked_def touched_def)
qed (use parked call in \<open>auto simp: call_turn_def parked_def return_call_def\<close>)

lemma parked_step:
  assumes step: "cell_step c c'" and ok: "cell_ok n c" and n: "n < u64_max" and processes: "processes_ok c"
    and parked: "parked c" and call: "stop_phase (ce_call c)" and no_start: "\<And>host tunnel. ce_call c' \<noteq> StartLock host tunnel"
  shows "parked c' \<and> stop_phase (ce_call c') \<and> ce_processes c' = ce_processes c"
  using step
proof (cases rule: cell_step.cases)
  case (CallStep world)
  then show ?thesis using parked_call_turn[OF ok n parked call] by simp
next
  case (WorkerStep i world)
  then have "ce_call c' = ce_call c"
    by (auto simp: worker_turn_def Let_def split: option.splits prod.splits)
  then show ?thesis using parked_worker_turn[OF WorkerStep(2) parked] WorkerStep(1) call by simp
next
  case (StderrStep world p line)
  then show ?thesis using parked_stderr_turn[OF parked processes] parked call by simp
next
  case (LineStep j)
  then show ?thesis using parked call by (simp add: line_event_turn_def parked_def)
qed (use parked no_start in \<open>auto simp: parked_def\<close>)

text \<open>A stop that returns successfully leaves the tunnel parked.\<close>

lemma cell_step_stopped:
  assumes step: "cell_step c c'" and ok: "cell_ok n c" and n: "n < u64_max" and processes: "processes_ok c"
    and stopped: "stopped_ok c"
  shows "stopped_ok c'"
proof -
  have quiet: "stopped_ok c'" if "ce_returned c' = ce_returned c" "waiting_call (ce_call c') \<Longrightarrow> waiting_call (ce_call c)"
      "parked c \<Longrightarrow> parked c'"
    using stopped that by (auto simp: stopped_ok_def)
  from step show ?thesis
  proof (cases rule: cell_step.cases)
    case (CallStep world)
    show ?thesis
    proof (cases "\<exists>event already killed. ce_call c = StopEmit event already killed")
      case True
      then obtain event already killed where emit: "ce_call c = StopEmit event already killed" by blast
      have "call_ok (ce_inner c) (ce_call c) (ce_processes c)"
          "\<forall>w \<in> set (ce_workers c). worker_ok (ce_inner c) (ce_call c) (ce_processes c) w"
        using ok by (simp_all add: cell_ok_def)
      then have "parked c" if "is_ok killed"
        using that emit moved_on_worker(1) by (auto simp: parked_def call_ok_def)
      then show ?thesis
        using emit CallStep
        by (cases killed) (auto simp: stopped_ok_def call_turn_def return_call_def parked_def is_ok_def)
    next
      case False
      then show ?thesis
        using CallStep stopped
        by (cases "ce_call c")
          (auto simp: stopped_ok_def call_turn_def return_call_def begin_stop_def Let_def split: prod.splits sum.splits option.splits)
    qed
  next
    case (WorkerStep i world)
    then have "ce_call c' = ce_call c" "ce_returned c' = ce_returned c"
      by (auto simp: worker_turn_def Let_def split: option.splits prod.splits)
    then show ?thesis using quiet parked_worker_turn[OF WorkerStep(2)] WorkerStep(1) by simp
  next
    case (StderrStep world p line)
    have "ce_call c' = ce_call c" "ce_returned c' = ce_returned c"
      using StderrStep by (auto simp: stderr_turn_def split: prod.splits)
    then show ?thesis using quiet parked_stderr_turn[OF _ processes] StderrStep(1) by simp
  next
    case (LineStep j)
    then show ?thesis using stopped by (auto simp: stopped_ok_def line_event_turn_def parked_def)
  qed (use stopped in \<open>auto simp: stopped_ok_def parked_def\<close>)
qed

section \<open>A superseded worker\<close>

text \<open>How many turns a worker without an event has left when its generation is over.\<close>

fun turns_left :: "worker_phase \<Rightarrow> nat" where
  "turns_left Gone = 0"
| "turns_left Leaving = 1"
| "turns_left (Exited _ _ _) = 4"
| "turns_left (Announcing _) = 6"
| "turns_left (Checking _) = 5"
| "turns_left (Terminating _ _) = 4"
| "turns_left (Killing _ _ _) = 4"
| "turns_left (Uptime _) = 3"
| "turns_left (AttemptOver _ _ _) = 3"
| "turns_left Resolving = 3"
| "turns_left (Storing _) = 3"
| "turns_left (Delay _) = 3"
| "turns_left _ = 2"

lemma superseded_section:
  assumes "wk_generation w \<noteq> tu_generation inner" and "wk_event w = None" and "wk_phase w \<noteq> Gone"
    and "worker_section world new w inner = (inner', w')"
  shows "inner' = inner \<and> wk_event w' = None \<and> turns_left (wk_phase w') < turns_left (wk_phase w)
    \<and> wk_generation w' = wk_generation w \<and> (\<not> holds_lifecycle (wk_phase w) \<longrightarrow> \<not> holds_lifecycle (wk_phase w'))"
proof -
  have stale: "\<not> is_current_locked inner (wk_generation w)" using assms(1) by (simp add: is_current_locked_def)
  then have none: "mark_starting world (wk_generation w) inner = None"
      "\<And>started tunnel. mark_running world (wk_generation w) started tunnel inner = None"
      "\<And>health message. set_health world (wk_generation w) health message inner = None"
      "\<And>tunnel message clean streak. finish_attempt world (wk_generation w) tunnel message clean streak inner = None"
    by simp_all
  have guard: "worker_guard world (wk_generation w) inner = (inner, None)" using assms(1) by (simp add: worker_guard_def)
  have checked: "turns_left (checked world (wk_tunnel w) clock) = 2" "\<not> holds_lifecycle (checked world (wk_tunnel w) clock)" for clock
    by (auto simp: checked_def Let_def split: sum.splits)
  show ?thesis
    using assms(1-3) assms(4) stale none guard checked
    by (cases "wk_phase w")
      (auto simp: worker_section.simps worker_fields Let_def simp del: section_None split: sum.splits if_splits)
qed

definition worker_left :: "worker \<Rightarrow> nat" where
  "worker_left w = turns_left (wk_phase w) + (if wk_event w = None then 0 else 1)"

lemma lifecycle_free_update:
  "lifecycle_free c \<Longrightarrow> ce_call c' = ce_call c \<Longrightarrow> ce_workers c' = (ce_workers c)[i := w'] \<Longrightarrow>
     \<not> holds_lifecycle (wk_phase w') \<Longrightarrow> lifecycle_free c'"
  by (auto simp: lifecycle_free_def list_all_iff dest!: set_update_subset_insert[THEN subsetD])

lemma superseded_turn:
  assumes i: "i < length (ce_workers c)" and old: "wk_generation (ce_workers c ! i) \<noteq> tu_generation (ce_inner c)"
    and free: "lifecycle_free c"
  shows "ce_inner (worker_turn world i c) = ce_inner c \<and> ce_processes (worker_turn world i c) = ce_processes c
    \<and> lifecycle_free (worker_turn world i c) \<and> length (ce_workers (worker_turn world i c)) = length (ce_workers c)
    \<and> wk_generation (ce_workers (worker_turn world i c) ! i) = wk_generation (ce_workers c ! i)
    \<and> worker_left (ce_workers (worker_turn world i c) ! i) \<le> worker_left (ce_workers c ! i) - 1"
proof -
  let ?w = "ce_workers c ! i"
  have calm: "\<not> holds_lifecycle (wk_phase ?w)" using free nth_mem[OF i] by (auto simp: lifecycle_free_def list_all_iff)
  show ?thesis
  proof (cases "wk_event ?w")
    case (Some event)
    have turn: "worker_turn world i c = (emit_pending event c)\<lparr>ce_workers := (ce_workers c)[i := ?w\<lparr>wk_event := None\<rparr>]\<rparr>"
      using Some by (simp add: worker_turn_def)
    show ?thesis
      using turn Some calm i lifecycle_free_update[OF free, of "worker_turn world i c" i "?w\<lparr>wk_event := None\<rparr>"]
      by (simp add: worker_left_def)
  next
    case None
    obtain inner' w' where run: "worker_section world (length (ce_processes c)) ?w (ce_inner c) = (inner', w')"
      by (cases "worker_section world (length (ce_processes c)) ?w (ce_inner c)") auto
    consider (gone) "wk_phase ?w = Gone" | (panics) "wk_phase ?w \<notin> {Leaving, Gone}" "wo_panics world"
      | (works) "wk_phase ?w \<noteq> Gone" "\<not> (wo_panics world \<and> wk_phase ?w \<notin> {Leaving, Gone})" by blast
    then show ?thesis
    proof cases
      case gone
      then have "worker_section world (length (ce_processes c)) ?w (ce_inner c) = (ce_inner c, ?w)"
        by (simp add: worker_section.simps)
      then have "worker_turn world i c = c" using None gone i by (simp add: worker_turn_def Let_def)
      then show ?thesis using gone None free by (simp add: worker_left_def)
    next
      case panics
      have turn: "worker_turn world i c = c\<lparr>ce_workers := (ce_workers c)[i := in_phase ?w Leaving]\<rparr>"
        using None panics free by (auto simp: worker_turn_def Let_def)
      have "1 \<le> turns_left (wk_phase ?w) - 1" using panics by (cases "wk_phase ?w") auto
      then show ?thesis
        using turn None i lifecycle_free_update[OF free, of "worker_turn world i c" i "in_phase ?w Leaving"]
        by (simp add: worker_left_def in_phase_def)
    next
      case works
      note stale = superseded_section[OF old None works(1) run]
      have "worker_turn world i c = c\<lparr>ce_inner := ce_inner c, ce_workers := (ce_workers c)[i := w'], ce_processes := ce_processes c\<rparr>"
        using None works free run stale calm by (auto simp: worker_turn_def Let_def)
      then show ?thesis
        using stale calm None i lifecycle_free_update[OF free, of "worker_turn world i c" i w']
        by (auto simp: worker_left_def)
    qed
  qed
qed

lemma worker_left_bound: "worker_left w \<le> 7"
  by (cases "wk_phase w") (auto simp: worker_left_def)

text \<open>
  C38: a worker whose generation is over ends: after at most seven turns, whatever the clock, the processes
  and the saved profiles answer it and also when it panics, it is gone; it changes nothing of the tunnel on
  the way and starts no process.
\<close>

theorem superseded_worker_leaves:
  assumes "i < length (ce_workers c)" and "wk_generation (ce_workers c ! i) \<noteq> tu_generation (ce_inner c)"
    and "lifecycle_free c" and "length worlds \<ge> 7"
  shows "wk_phase (ce_workers (fold (\<lambda>world. worker_turn world i) worlds c) ! i) = Gone
    \<and> ce_inner (fold (\<lambda>world. worker_turn world i) worlds c) = ce_inner c
    \<and> ce_processes (fold (\<lambda>world. worker_turn world i) worlds c) = ce_processes c"
proof -
  have "ce_inner (fold (\<lambda>world. worker_turn world i) worlds c) = ce_inner c
      \<and> ce_processes (fold (\<lambda>world. worker_turn world i) worlds c) = ce_processes c
      \<and> worker_left (ce_workers (fold (\<lambda>world. worker_turn world i) worlds c) ! i) \<le> worker_left (ce_workers c ! i) - length worlds"
    using assms(1-3)
  proof (induction worlds arbitrary: c)
    case (Cons world worlds)
    from Cons.IH[of "worker_turn world i c"] superseded_turn[OF Cons.prems, of world] Cons.prems show ?case by auto
  qed simp
  moreover have "worker_left (ce_workers c ! i) \<le> 7" by (rule worker_left_bound)
  moreover have "wk_phase w = Gone" if "worker_left w = 0" for w
    using that by (cases "wk_phase w") (auto simp: worker_left_def split: if_splits)
  ultimately show ?thesis using assms(4) by simp
qed

section \<open>Who is busy\<close>

text \<open>The tunnel's name, which no step changes.\<close>

fun call_names :: "tunnel_call \<Rightarrow> string \<Rightarrow> bool" where
  "call_names (StartLock _ tunnel) tid = (tp_id tunnel = tid)"
| "call_names (StartTake _ tunnel) tid = (tp_id tunnel = tid)"
| "call_names (StartKill _ _ tunnel) tid = (tp_id tunnel = tid)"
| "call_names (StartMark _ tunnel) tid = (tp_id tunnel = tid)"
| "call_names _ tid = True"

definition named :: "string \<Rightarrow> tunnel_cell \<Rightarrow> bool" where
  "named tid c \<longleftrightarrow> tp_id (tu_profile (ce_inner c)) = tid \<and> call_names (ce_call c) tid"

lemma section_named:
  "section_effect new w inner phase event inner' \<Longrightarrow> tp_id (tu_profile inner') = tp_id (tu_profile inner)"
  by (cases rule: section_effect.cases) (auto simp: touched_def)

lemma cell_step_named:
  assumes step: "cell_step c c'" and named: "named tid c"
  shows "named tid c'"
  using step
proof (cases rule: cell_step.cases)
  case (CallStep world)
  show ?thesis
  proof (cases "ce_call c")
    case (StartMark host tunnel)
    obtain inner' event where run: "mark_requested world host tunnel (ce_inner c) = (inner', event)"
      by (cases "mark_requested world host tunnel (ce_inner c)") auto
    then show ?thesis
      using mark_requested_effect(9)[OF run] StartMark CallStep named by (simp add: named_def call_turn_def)
  next
    case (StopKill g child already)
    then show ?thesis
      using CallStep named
      by (auto simp: named_def call_turn_def conclude_stop_def pending_event_locked_def Let_def split: sum.splits)
  next
    case (StartSpawn event g tunnel)
    then show ?thesis
      using CallStep named
      by (auto simp: named_def call_turn_def return_call_def mark_spawn_failed_def pending_event_locked_def Let_def split: sum.splits)
  qed (use CallStep named in \<open>auto simp: named_def call_turn_def return_call_def begin_stop_def bump_generation_def Let_def
      split: sum.splits option.splits\<close>)
next
  case (WorkerStep i world)
  show ?thesis
    using WorkerStep(2)
  proof (cases rule: worker_turn_cases[where world = world])
    case (Works inner' w' processes)
    then show ?thesis using section_named[OF Works(3)] WorkerStep(1) named by (simp add: named_def)
  qed (use WorkerStep(1) named in \<open>simp_all add: named_def\<close>)
next
  case (StderrStep world p line)
  then show ?thesis using named by (cases rule: stderr_turn_cases[of world p line c]) (auto simp: named_def)
qed (use named in \<open>auto simp: named_def line_event_turn_def\<close>)

text \<open>Busy, or with a process that a stop has in its hands.\<close>

definition cell_busy :: "tunnel_cell \<Rightarrow> bool" where
  "cell_busy c \<longleftrightarrow> tunnel_busy (ce_inner c) \<or> call_hand (ce_call c) \<noteq> None"

lemma cell_step_busy:
  assumes step: "cell_step c c'" and ok: "cell_ok n c" and no_start: "\<And>host tunnel. ce_call c \<noteq> StartMark host tunnel"
    and idle: "\<not> cell_busy c"
  shows "\<not> cell_busy c'"
  using step
proof (cases rule: cell_step.cases)
  case (CallStep world)
  have call: "call_ok (ce_inner c) (ce_call c) (ce_processes c)" using ok by (simp add: cell_ok_def)
  show ?thesis
  proof (cases "ce_call c")
    case (StopKill g child already)
    obtain inner' event killed where run: "conclude_stop world g child already (ce_inner c) = (inner', event, killed)"
      by (cases "conclude_stop world g child already (ce_inner c)") auto
    have "g = tu_generation (ce_inner c)" "\<not> tu_desired_running (ce_inner c)" "tu_child (ce_inner c) = None" "child = None"
      using call StopKill idle by (auto simp: call_ok_def cell_busy_def)
    then show ?thesis
      using conclude_stop_effect[OF run] idle StopKill CallStep run
      by (auto simp: cell_busy_def tunnel_busy_def call_turn_def)
  next
    case (StartSpawn event g tunnel)
    then show ?thesis using call idle by (auto simp: cell_busy_def tunnel_busy_def call_ok_def)
  qed (use CallStep idle no_start in \<open>auto simp: cell_busy_def tunnel_busy_def call_turn_def return_call_def begin_stop_def Let_def
      split: sum.splits option.splits if_splits\<close>)
next
  case (WorkerStep i world)
  have w: "worker_ok (ce_inner c) (ce_call c) (ce_processes c) (ce_workers c ! i)"
    using ok WorkerStep(2) by (simp add: cell_ok_def)
  show ?thesis
    using WorkerStep(2)
  proof (cases rule: worker_turn_cases[where world = world])
    case (Works inner' w' processes)
    have "\<not> tunnel_busy inner'"
      using Works(3) idle w
      by (cases rule: section_effect.cases)
        (auto simp: cell_busy_def tunnel_busy_def same_owner_def is_current_locked_def worker_ok_def)
    then show ?thesis using Works WorkerStep(1) idle by (simp add: cell_busy_def)
  qed (use WorkerStep(1) idle in \<open>simp_all add: cell_busy_def\<close>)
next
  case (StderrStep world p line)
  then show ?thesis
    using idle by (cases rule: stderr_turn_cases[of world p line c]) (auto simp: cell_busy_def tunnel_busy_def same_owner_def)
qed (use idle in \<open>auto simp: cell_busy_def line_event_turn_def\<close>)

end
