(* ===== verification/TunnelsReg.thy ===== *)
theory TunnelsReg
  imports TunnelsStop
begin

text \<open>
  The invariant of the registry of tunnels over all interleavings of the calls, the workers and the readers.
\<close>

section \<open>Every tunnel\<close>

definition cell_inv :: "nat \<Rightarrow> tunnel_cell \<Rightarrow> bool" where
  "cell_inv n c \<longleftrightarrow> cell_ok n c \<and> events_ok c \<and> (announced c \<or> stop_in_vain c) \<and> processes_ok c \<and> stopped_ok c"

lemma cell_step_inv:
  assumes step: "cell_step c c'" and inv: "cell_inv n c" and n: "n < u64_max"
  shows "cell_inv (Suc n) c'"
proof -
  have parts: "cell_ok n c" "events_ok c" "processes_ok c" "stopped_ok c" using inv by (simp_all add: cell_inv_def)
  show ?thesis
    using cell_step_ok[OF step parts(1) n] cell_step_events[OF step parts(1) n parts(2)] cell_step_processes[OF step parts(3)]
      cell_step_stopped[OF step parts(1) n parts(3,4)] inv
    by (auto simp: cell_inv_def events_go_on_def)
qed

lemma cell_inv_mono: "cell_inv n c \<Longrightarrow> cell_inv (Suc n) c"
  by (auto simp: cell_inv_def cell_ok_def)

lemma new_cell_inv: "cell_inv n (new_cell tunnel)"
  using new_cell_ok[of n tunnel]
  by (auto simp: cell_inv_def new_cell_def events_ok_def pending_def announced_def new_tunnel_inner_def processes_ok_def stopped_ok_def)

section \<open>The registry\<close>

text \<open>The tunnels that the current call may be working on.\<close>

fun op_cells :: "tunnel_operation \<Rightarrow> nat set" where
  "op_cells FreeOp = {}"
| "op_cells (Starting k) = {k}"
| "op_cells (Restarting entry _ _) = set_option entry"
| "op_cells (Stopping entry) = set_option entry"
| "op_cells (Removing _ entry) = set_option entry"
| "op_cells (StoppingHost _ current _) = snd ` set_option current"
| "op_cells (StoppingAll ps) = snd ` set ps"

fun start_phase :: "tunnel_call \<Rightarrow> bool" where
  "start_phase NoCall = False"
| "start_phase (StopLock _) = False"
| "start_phase (StopKill _ _ _) = False"
| "start_phase (StopEmit _ _ _) = False"
| "start_phase _ = True"

text \<open>The busy tunnels but the one that is being started.\<close>

definition started_cell :: "tunnel_operation \<Rightarrow> nat set" where
  "started_cell operation = (case operation of Starting k \<Rightarrow> {k} | _ \<Rightarrow> {})"

definition busy_besides :: "nat set \<Rightarrow> tunnels \<Rightarrow> nat" where
  "busy_besides ks s = count_where (\<lambda>p. snd p \<notin> ks \<and> cell_busy (tr_cells s ! snd p)) (tr_entries s)"

definition entries_ok :: "tunnels \<Rightarrow> bool" where
  "entries_ok s \<longleftrightarrow> keys_ok (tr_entries s) \<and> length (tr_entries s) \<le> 256
     \<and> (\<forall>p \<in> set (tr_entries s). snd p < length (tr_cells s) \<and> named (fst p) (tr_cells s ! snd p))"

definition calls_ok :: "tunnels \<Rightarrow> bool" where
  "calls_ok s \<longleftrightarrow> op_cells (tr_operation s) \<subseteq> {..<length (tr_cells s)}
     \<and> (\<forall>k < length (tr_cells s). k \<notin> op_cells (tr_operation s) \<longrightarrow> ce_call (tr_cells s ! k) = NoCall)
     \<and> (\<forall>k < length (tr_cells s). start_phase (ce_call (tr_cells s ! k)) \<longrightarrow> tr_operation s = Starting k)"

definition busy_ok :: "tunnels \<Rightarrow> bool" where
  "busy_ok s \<longleftrightarrow> busy_besides (started_cell (tr_operation s)) s + card (started_cell (tr_operation s)) \<le> 64"

definition tunnels_inv :: "nat \<Rightarrow> tunnels \<Rightarrow> bool" where
  "tunnels_inv n s \<longleftrightarrow> (\<forall>c \<in> set (tr_cells s). cell_inv n c) \<and> entries_ok s \<and> calls_ok s \<and> busy_ok s"

lemma new_tunnels_inv: "tunnels_inv 0 new_tunnels"
  by (simp add: tunnels_inv_def new_tunnels_def entries_ok_def keys_ok_def calls_ok_def busy_ok_def busy_besides_def
      started_cell_def count_where_def)

lemma count_where_mono:
  "(\<And>x. x \<in> set xs \<Longrightarrow> P x \<Longrightarrow> Q x) \<Longrightarrow> count_where P xs \<le> count_where Q xs"
  unfolding count_where_def by (induction xs) auto

text \<open>A step of one tunnel.\<close>

lemma cell_step_calls:
  assumes "cell_step c c'" and "ce_call c \<noteq> NoCall \<or> ce_call c' = NoCall"
  shows "start_phase (ce_call c') \<Longrightarrow> start_phase (ce_call c)"
  using assms(1)
proof (cases rule: cell_step.cases)
  case (CallStep world)
  assume "start_phase (ce_call c')"
  with CallStep show ?thesis
    by (cases "ce_call c") (auto simp: call_turn_def return_call_def begin_stop_def Let_def split: prod.splits sum.splits if_splits)
next
  case (WorkerStep i world)
  assume "start_phase (ce_call c')"
  with WorkerStep show ?thesis by (auto simp: worker_turn_def Let_def split: option.splits prod.splits if_splits)
next
  case (StderrStep world p line)
  assume "start_phase (ce_call c')"
  with StderrStep show ?thesis by (auto simp: stderr_turn_def split: prod.splits if_splits)
next
  case (LineStep j)
  assume "start_phase (ce_call c')"
  with LineStep show ?thesis by (auto simp: line_event_turn_def split: if_splits)
qed (use assms(2) in auto)

lemma calm_calls:
  assumes calls: "calls_ok s" and k: "k < length (tr_cells s)" and step: "cell_step (tr_cells s ! k) c'"
    and calm: "ce_call (tr_cells s ! k) = NoCall \<Longrightarrow> ce_call c' = NoCall"
  shows "calls_ok (set_cell k c' s)"
proof -
  have at: "tr_cells (set_cell k c' s) ! j = (if j = k then c' else tr_cells s ! j)" if "j < length (tr_cells s)" for j
    using k that by (simp add: set_cell_def)
  have same: "length (tr_cells (set_cell k c' s)) = length (tr_cells s)" "tr_operation (set_cell k c' s) = tr_operation s"
    by (simp_all add: set_cell_def)
  have "ce_call (tr_cells (set_cell k c' s) ! j) = NoCall" if "j < length (tr_cells s)" "j \<notin> op_cells (tr_operation s)" for j
    proof -
      have "ce_call (tr_cells s ! j) = NoCall" using calls that unfolding calls_ok_def by blast
      then show ?thesis using at[OF that(1)] calm by auto
    qed
    moreover have "tr_operation s = Starting j"
      if "j < length (tr_cells s)" "start_phase (ce_call (tr_cells (set_cell k c' s) ! j))" for j
    proof -
      have "start_phase (ce_call (tr_cells s ! j))"
        using that at[OF that(1)] cell_step_calls[OF step] calm by (cases "j = k") auto
      then show ?thesis using calls that(1) unfolding calls_ok_def by blast
    qed
    ultimately show ?thesis using calls unfolding calls_ok_def same by blast
  qed

lemma set_cell_inv:
  assumes inv: "tunnels_inv n s" and n: "n < u64_max" and k: "k < length (tr_cells s)"
    and step: "cell_step (tr_cells s ! k) c'" and calls: "calls_ok (set_cell k c' s)"
  shows "tunnels_inv (Suc n) (set_cell k c' s)"
proof -
  have parts: "entries_ok s" "calls_ok s" "busy_ok s" "\<And>c. c \<in> set (tr_cells s) \<Longrightarrow> cell_inv n c"
    using inv by (simp_all add: tunnels_inv_def)
  have c: "cell_inv n (tr_cells s ! k)" using parts(4) k by simp
  have at: "tr_cells (set_cell k c' s) ! j = (if j = k then c' else tr_cells s ! j)" if "j < length (tr_cells s)" for j
    using k that by (simp add: set_cell_def)
  have cells: "\<forall>c \<in> set (tr_cells (set_cell k c' s)). cell_inv (Suc n) c"
  proof
    fix x assume "x \<in> set (tr_cells (set_cell k c' s))"
    then have "x = c' \<or> x \<in> set (tr_cells s)"
      using set_update_subset_insert[of "tr_cells s" k c'] by (auto simp: set_cell_def)
    then show "cell_inv (Suc n) x" using cell_step_inv[OF step c n] parts(4) cell_inv_mono by blast
  qed
  have same: "length (tr_cells (set_cell k c' s)) = length (tr_cells s)" "tr_operation (set_cell k c' s) = tr_operation s"
      "tr_entries (set_cell k c' s) = tr_entries s"
    by (simp_all add: set_cell_def)
  have "entries_ok (set_cell k c' s)"
    using parts(1) cell_step_named[OF step] at unfolding entries_ok_def same by (metis (no_types, lifting))
  moreover have "busy_ok (set_cell k c' s)"
  proof -
    have busy: "cell_busy (tr_cells s ! j)" if "j < length (tr_cells s)" "j \<notin> started_cell (tr_operation s)"
        "cell_busy (tr_cells (set_cell k c' s) ! j)" for j
    proof (cases "j = k")
      case True
      have "ce_call (tr_cells s ! k) \<noteq> StartMark host tunnel" for host tunnel
      proof
        assume "ce_call (tr_cells s ! k) = StartMark host tunnel"
        then have "tr_operation s = Starting k" using parts(2) k by (simp add: calls_ok_def)
        with that(2) True show False by (simp add: started_cell_def)
      qed
      then show ?thesis
        using cell_step_busy[OF step, of n] c True that(3) at[OF k] k by (auto simp: cell_inv_def)
    qed (use that at in simp)
    have "snd p < length (tr_cells s)" if "p \<in> set (tr_entries s)" for p using parts(1) that by (simp add: entries_ok_def)
    then have "busy_besides (started_cell (tr_operation s)) (set_cell k c' s) \<le> busy_besides (started_cell (tr_operation s)) s"
      unfolding busy_besides_def same using busy by (intro count_where_mono) blast
    then show ?thesis using parts(3) by (simp add: busy_ok_def set_cell_def)
  qed
  ultimately show ?thesis using cells calls by (simp add: tunnels_inv_def)
qed

section \<open>The calls\<close>

text \<open>A call that no longer has a stop or start under way.\<close>

definition all_over :: "tunnels \<Rightarrow> bool" where
  "all_over s \<longleftrightarrow> (\<forall>k < length (tr_cells s). ce_call (tr_cells s ! k) = NoCall)"

lemma call_over_all:
  assumes "calls_ok s" and "\<And>k. k \<in> op_cells (tr_operation s) \<Longrightarrow> call_over (Some k) s"
  shows "all_over s"
  unfolding all_over_def
proof (intro allI impI)
  fix k assume k: "k < length (tr_cells s)"
  show "ce_call (tr_cells s ! k) = NoCall"
  proof (cases "k \<in> op_cells (tr_operation s)")
    case True
    from assms(2)[OF this] show ?thesis by (simp add: call_over_def)
  next
    case False
    then show ?thesis using assms(1) k unfolding calls_ok_def by blast
  qed
qed

lemma all_over_calls: "all_over s \<Longrightarrow> op_cells (tr_operation s) \<subseteq> {..<length (tr_cells s)} \<Longrightarrow> calls_ok s"
  by (simp add: all_over_def calls_ok_def)

lemma entries_distinct:
  assumes "entries_ok s" and "(i, k) \<in> set (tr_entries s)" and "(j, k) \<in> set (tr_entries s)"
  shows "i = j"
proof -
  have "named i (tr_cells s ! k)" "named j (tr_cells s ! k)" using assms by (auto simp: entries_ok_def)
  then show ?thesis by (simp add: named_def)
qed

lemma busy_all:
  assumes entries: "entries_ok s" and busy: "busy_ok s"
  shows "busy_besides {} s \<le> 64"
proof (cases "\<exists>k. tr_operation s = Starting k")
  case True
  then obtain k where k: "tr_operation s = Starting k" by blast
  have "length (filter (\<lambda>p. snd p = k) es) \<le> 1"
    if "distinct (map fst es)" "\<forall>p \<in> set es. \<forall>q \<in> set es. snd p = k \<longrightarrow> snd q = k \<longrightarrow> fst p = fst q" for es :: "(string \<times> nat) list"
    using that
  proof (induction es)
    case (Cons p es)
    show ?case
    proof (cases "snd p = k")
      case True
      then have "snd q \<noteq> k" if "q \<in> set es" for q
        using Cons.prems that by (metis distinct.simps(2) image_eqI list.set_intros(1,2) list.set_map list.simps(9))
      then have "filter (\<lambda>p. snd p = k) es = []" by (simp add: filter_empty_conv)
      then show ?thesis by simp
    qed (use Cons in auto)
  qed simp
  moreover have "distinct (map fst (tr_entries s))" using entries by (simp add: entries_ok_def keys_ok_def)
  moreover have "\<forall>p \<in> set (tr_entries s). \<forall>q \<in> set (tr_entries s). snd p = k \<longrightarrow> snd q = k \<longrightarrow> fst p = fst q"
    using entries_distinct[OF entries] by auto
  ultimately have one: "length (filter (\<lambda>p. snd p = k) (tr_entries s)) \<le> 1" by blast
  have "length (filter (\<lambda>p. B p) es) \<le> length (filter (\<lambda>p. snd p \<noteq> k \<and> B p) es) + length (filter (\<lambda>p. snd p = k) es)"
    for B and es :: "(string \<times> nat) list"
    by (induction es) auto
  from this[of "\<lambda>p. cell_busy (tr_cells s ! snd p)" "tr_entries s"] one busy k show ?thesis
    by (simp add: busy_ok_def busy_besides_def started_cell_def count_where_def)
next
  case False
  then have "started_cell (tr_operation s) = {}" by (auto simp: started_cell_def split: tunnel_operation.splits)
  then show ?thesis using busy by (simp add: busy_ok_def)
qed

text \<open>A change of the call that drops some entries.\<close>

lemma relabel_inv:
  assumes inv: "tunnels_inv n s" and over: "all_over s"
    and s': "tr_cells s' = tr_cells s" "tr_entries s' = filter P (tr_entries s)"
    and operation: "op_cells (tr_operation s') \<subseteq> {..<length (tr_cells s)}" "started_cell (tr_operation s') = {}"
  shows "tunnels_inv n s'" and "all_over s'"
proof -
  have parts: "entries_ok s" "busy_ok s" using inv by (simp_all add: tunnels_inv_def)
  show over': "all_over s'" using over by (simp add: all_over_def s')
  have "calls_ok s'" using all_over_calls[OF over'] operation(1) s' by simp
  moreover have "entries_ok s'"
    using parts(1) keys_ok_filter le_trans[OF length_filter_le] s' unfolding entries_ok_def by auto
  moreover have "busy_ok s'"
    using busy_all[OF parts] count_where_filter[of _ P "tr_entries s"] operation(2) le_trans
    unfolding busy_ok_def busy_besides_def s' by fastforce
  ultimately show "tunnels_inv n s'" using inv s' by (simp add: tunnels_inv_def)
qed

lemma begin_call_inv:
  assumes inv: "tunnels_inv n s" and n: "n < u64_max" and k: "k \<in> op_cells (tr_operation s)" and idle: "ce_call (tr_cells s ! k) = NoCall"
    and call: "(\<exists>retire_it. call = StopLock retire_it)
      \<or> (\<exists>host tunnel. call = StartLock host tunnel \<and> tr_operation s = Starting k \<and> (tp_id tunnel, k) \<in> set (tr_entries s))"
  shows "tunnels_inv (Suc n) (begin_call call k s)"
proof -
  have parts: "entries_ok s" "calls_ok s" using inv by (simp_all add: tunnels_inv_def)
  have len: "k < length (tr_cells s)" using parts(2) k by (auto simp: calls_ok_def)
  have step: "cell_step (tr_cells s ! k) ((tr_cells s ! k)\<lparr>ce_call := call\<rparr>)"
  proof -
    have "tp_id tunnel = tp_id (tu_profile (ce_inner (tr_cells s ! k)))" if "(tp_id tunnel, k) \<in> set (tr_entries s)" for tunnel
    proof -
      have "named (tp_id tunnel) (tr_cells s ! k)" using parts(1) that by (auto simp: entries_ok_def)
      then show ?thesis by (simp add: named_def)
    qed
    then show ?thesis using call idle by (auto intro: StopStep StartStep)
  qed
  have "calls_ok (set_cell k ((tr_cells s ! k)\<lparr>ce_call := call\<rparr>) s)" (is "calls_ok ?s")
  proof -
    have same: "length (tr_cells ?s) = length (tr_cells s)" "tr_operation ?s = tr_operation s" by (simp_all add: set_cell_def)
    have at: "ce_call (tr_cells ?s ! j) = (if j = k then call else ce_call (tr_cells s ! j))" if "j < length (tr_cells s)" for j
      using len that by (simp add: set_cell_def)
    have idle: "ce_call (tr_cells ?s ! j) = NoCall" if "j < length (tr_cells s)" "j \<notin> op_cells (tr_operation s)" for j
    proof -
      have "ce_call (tr_cells s ! j) = NoCall" using parts(2) that unfolding calls_ok_def by blast
      moreover have "j \<noteq> k" using that(2) k by blast
      ultimately show ?thesis using at[OF that(1)] by simp
    qed
    have starts: "tr_operation s = Starting j" if "j < length (tr_cells s)" "start_phase (ce_call (tr_cells ?s ! j))" for j
    proof (cases "j = k")
      case True
      then show ?thesis using at[OF that(1)] that(2) call by (elim disjE exE conjE) simp_all
    next
      case False
      then have "start_phase (ce_call (tr_cells s ! j))" using at[OF that(1)] that(2) by simp
      then show ?thesis using parts(2) that(1) unfolding calls_ok_def by blast
    qed
    show ?thesis using parts(2) idle starts unfolding calls_ok_def same by blast
  qed
  then show ?thesis unfolding begin_call_def by (rule set_cell_inv[OF inv n len step])
qed

lemma tunnels_inv_mono: "tunnels_inv n s \<Longrightarrow> tunnels_inv (Suc n) s"
  using cell_inv_mono by (auto simp: tunnels_inv_def)

lemma call_stop_inv:
  assumes inv: "tunnels_inv n s" and n: "n < u64_max" and entry: "set_option entry \<subseteq> op_cells (tr_operation s)"
    and over: "all_over s"
  shows "tunnels_inv (Suc n) (call_stop retire_it entry s)"
proof (cases entry)
  case None
  then show ?thesis using tunnels_inv_mono[OF inv] by (simp add: call_stop_def)
next
  case (Some k)
  then have "k \<in> op_cells (tr_operation s)" using entry by simp
  moreover then have "ce_call (tr_cells s ! k) = NoCall" using over inv by (auto simp: all_over_def tunnels_inv_def calls_ok_def)
  ultimately show ?thesis using begin_call_inv[OF inv n] Some by (auto simp: call_stop_def)
qed

text \<open>The admission of a start.\<close>

lemma entries_ok_cong:
  "tr_entries s' = tr_entries s \<Longrightarrow> tr_cells s' = tr_cells s \<Longrightarrow> entries_ok s' \<longleftrightarrow> entries_ok s"
  by (simp only: entries_ok_def)

text \<open>A new entry for a tunnel that has none.\<close>

lemma add_cell_entries:
  assumes "entries_ok s" and "map_of (tr_entries s) (tp_id tunnel) = None" and "length (tr_entries s) < 256"
    and "tr_cells s' = tr_cells s @ [new_cell tunnel]" and "tr_entries s' = put (tp_id tunnel) (length (tr_cells s)) (tr_entries s)"
  shows "entries_ok s'"
proof -
  have "named (tp_id tunnel) (new_cell tunnel)" by (simp add: named_def new_cell_def new_tunnel_inner_def)
  moreover have "set (tr_entries s') = insert (tp_id tunnel, length (tr_cells s)) (set (tr_entries s))"
    using assms(2,5) by (simp add: put_def)
  moreover have "snd p < length (tr_cells s') \<and> named (fst p) (tr_cells s' ! snd p)" if "p \<in> set (tr_entries s)" for p
  proof -
    have "snd p < length (tr_cells s)" "named (fst p) (tr_cells s ! snd p)" using assms(1) that by (simp_all add: entries_ok_def)
    then show ?thesis by (simp add: assms(4) nth_append)
  qed
  moreover have "keys_ok (tr_entries s')" using assms(1,5) by (simp add: entries_ok_def keys_ok_put)
  moreover have "length (tr_entries s') \<le> 256" using assms(2,3,5) by (simp add: length_put)
  ultimately show ?thesis using assms(4) by (auto simp: entries_ok_def)
qed

lemma admitted_inv:
  assumes cells: "\<forall>c \<in> set (tr_cells s). cell_inv n c" and entries: "entries_ok s" and over: "all_over s"
    and k: "(tid, k) \<in> set (tr_entries s)" and operation: "tr_operation s = Starting k"
    and busy: "count_where (\<lambda>p. fst p \<noteq> tid \<and> tunnel_busy (tunnel_at s (snd p))) (tr_entries s) < 64"
  shows "tunnels_inv n s"
proof -
  have len: "snd p < length (tr_cells s)" if "p \<in> set (tr_entries s)" for p using entries that by (simp add: entries_ok_def)
  have "calls_ok s" by (rule all_over_calls[OF over]) (use operation len[OF k] in simp)
  moreover have "busy_besides {k} s \<le> count_where (\<lambda>p. fst p \<noteq> tid \<and> tunnel_busy (tunnel_at s (snd p))) (tr_entries s)"
    unfolding busy_besides_def
  proof (rule count_where_mono)
    fix p assume p: "p \<in> set (tr_entries s)" "snd p \<notin> {k} \<and> cell_busy (tr_cells s ! snd p)"
    have "fst p \<noteq> tid"
    proof
      assume "fst p = tid"
      with p(1) have "(tid, snd p) \<in> set (tr_entries s)" by auto
      with k entries have "snd p = k" by (metis entries_ok_def in_set_map_of option.inject)
      with p(2) show False by simp
    qed
    moreover have "ce_call (tr_cells s ! snd p) = NoCall" using over len[OF p(1)] by (simp add: all_over_def)
    ultimately show "fst p \<noteq> tid \<and> tunnel_busy (tunnel_at s (snd p))" using p(2) by (simp add: cell_busy_def tunnel_at_def)
  qed
  ultimately show ?thesis using cells entries busy operation by (simp add: tunnels_inv_def busy_ok_def started_cell_def)
qed

lemma admit_tunnel_cases:
  assumes run: "admit_tunnel world host tunnel s = (r, s')"
  defines "es \<equiv> filter (\<lambda>p. \<not> tu_retired (tunnel_at s (snd p))) (tr_entries s)"
  defines "others \<equiv> count_where (\<lambda>p. fst p \<noteq> tp_id tunnel \<and> tunnel_busy (tunnel_at s (snd p))) es"
  obtains (refused) e where "r = Inl e" "s' = s"
  | (full) e where "r = Inl e" "s' = s\<lparr>tr_entries := es\<rparr>"
  | (known) k where "r = Inr k" "s' = s\<lparr>tr_entries := es\<rparr>" "map_of es (tp_id tunnel) = Some k" "others < 64"
  | (fresh) "r = Inr (length (tr_cells s))" "map_of es (tp_id tunnel) = None" "length es < 256" "others < 64"
      "s' = s\<lparr>tr_entries := put (tp_id tunnel) (length (tr_cells s)) es, tr_cells := tr_cells s @ [new_cell tunnel]\<rparr>"
proof (cases "tp_host_id tunnel \<noteq> hp_id host \<or> (\<exists>e. wo_command world = Inl e)")
  case True
  with run have "(\<exists>e. r = Inl e) \<and> s' = s" by (auto simp: admit_tunnel_def split: if_splits)
  then show ?thesis using refused by blast
next
  case False
  then obtain u where command: "tp_host_id tunnel = hp_id host" "wo_command world = Inr u" by (cases "wo_command world") auto
  have at: "tunnel_at (s\<lparr>tr_entries := es\<rparr>) = tunnel_at s" by (rule ext) (simp add: tunnel_at_def)
  have "admit_tunnel world host tunnel s =
      (if map_of es (tp_id tunnel) = None \<and> length es \<ge> 256
       then (Inl (Validation (''at most '' @ dec 256 @ '' tunnel runtime records are retained'')), s\<lparr>tr_entries := es\<rparr>)
       else if others \<ge> 64
       then (Inl (Validation (''at most '' @ dec 64 @ '' tunnels may run at once'')), s\<lparr>tr_entries := es\<rparr>)
       else (case map_of es (tp_id tunnel) of
           Some k \<Rightarrow> (Inr k, s\<lparr>tr_entries := es\<rparr>)
         | None \<Rightarrow> (Inr (length (tr_cells s)), s\<lparr>tr_entries := put (tp_id tunnel) (length (tr_cells s)) es,
             tr_cells := tr_cells s @ [new_cell tunnel]\<rparr>)))"
    using command at unfolding es_def others_def
    by (simp add: admit_tunnel_def Let_def MAX_RUNTIME_ENTRIES_def MAX_ACTIVE_TUNNELS_def cong: option.case_cong)
  note run' = trans[OF run[symmetric] this]
  show ?thesis
  proof (cases "map_of es (tp_id tunnel)")
    case None
    show ?thesis
    proof (cases "length es \<ge> 256 \<or> others \<ge> 64")
      case True
      then have "(\<exists>e. r = Inl e) \<and> s' = s\<lparr>tr_entries := es\<rparr>" using run' None by (auto split: if_splits)
      then show ?thesis using full by blast
    next
      case False
      then show ?thesis using run' None by (intro fresh) (auto split: if_splits)
    qed
  next
    case (Some k)
    show ?thesis
    proof (cases "others \<ge> 64")
      case True
      then have "(\<exists>e. r = Inl e) \<and> s' = s\<lparr>tr_entries := es\<rparr>" using run' Some by auto
      then show ?thesis using full by blast
    next
      case False
      then show ?thesis using run' Some by (intro known[of k]) auto
    qed
  qed
qed

lemma admit_tunnel_inv:
  assumes inv: "tunnels_inv n s" and over: "all_over s" and run: "admit_tunnel world host tunnel s = (r, s')"
  shows "(case r of
      Inl e \<Rightarrow> tunnels_inv n (s'\<lparr>tr_operation := FreeOp\<rparr>)
    | Inr k \<Rightarrow> tunnels_inv n (s'\<lparr>tr_operation := Starting k\<rparr>) \<and> all_over s' \<and> (tp_id tunnel, k) \<in> set (tr_entries s'))"
proof -
  define es where "es = filter (\<lambda>p. \<not> tu_retired (tunnel_at s (snd p))) (tr_entries s)"
  have free: "tunnels_inv n (s\<lparr>tr_operation := FreeOp\<rparr>)"
    by (rule relabel_inv(1)[OF inv over, where P = "\<lambda>_. True"]) (simp_all add: started_cell_def)
  have free1: "tunnels_inv n (s\<lparr>tr_entries := es, tr_operation := FreeOp\<rparr>)"
    by (rule relabel_inv(1)[OF inv over]) (simp_all add: started_cell_def es_def)
  then have "entries_ok (s\<lparr>tr_entries := es, tr_operation := FreeOp\<rparr>)" by (simp only: tunnels_inv_def)
  then have entries1: "entries_ok (s\<lparr>tr_entries := es, tr_operation := Starting k\<rparr>)" "entries_ok (s\<lparr>tr_entries := es\<rparr>)" for k
    by (auto simp: entries_ok_def)
  have cells: "\<forall>c \<in> set (tr_cells s). cell_inv n c" using inv by (simp add: tunnels_inv_def)
  have len: "snd p < length (tr_cells s)" if "p \<in> set es" for p
    using entries1(2) that by (auto simp: entries_ok_def)
  from run show ?thesis
  proof (cases rule: admit_tunnel_cases)
    case (known k)
    then have "(tp_id tunnel, k) \<in> set es" unfolding es_def by (intro map_of_SomeD)
    moreover have "tunnel_at (s\<lparr>tr_entries := es, tr_operation := Starting k\<rparr>) = tunnel_at s" by (rule ext) (simp add: tunnel_at_def)
    ultimately show ?thesis
      using known admitted_inv[of "s\<lparr>tr_entries := es, tr_operation := Starting k\<rparr>" n "tp_id tunnel" k] entries1(1) cells over
      by (simp add: all_over_def es_def[symmetric])
  next
    case fresh
    note fresh = fresh[folded es_def]
    let ?k = "length (tr_cells s)" and ?s2 = "s'\<lparr>tr_operation := Starting (length (tr_cells s))\<rparr>"
    have put: "tr_entries ?s2 = es @ [(tp_id tunnel, ?k)]" using fresh(2,5) by (simp add: put_def)
    have "entries_ok ?s2"
      using add_cell_entries[OF entries1(2), where s' = ?s2 and tunnel = tunnel] fresh by simp
    moreover have "all_over ?s2" using over by (auto simp: fresh(5) all_over_def nth_append new_cell_def)
    moreover have "\<forall>c \<in> set (tr_cells ?s2). cell_inv n c" using cells new_cell_inv by (auto simp: fresh(5))
    moreover have "count_where (\<lambda>p. fst p \<noteq> tp_id tunnel \<and> tunnel_busy (tunnel_at ?s2 (snd p))) (tr_entries ?s2)
        \<le> count_where (\<lambda>p. fst p \<noteq> tp_id tunnel \<and> tunnel_busy (tunnel_at s (snd p))) es"
    proof -
      have "tunnel_at ?s2 (snd p) = tunnel_at s (snd p)" if "p \<in> set es" for p
        using len[OF that] by (simp add: fresh(5) tunnel_at_def nth_append)
      then have "count_where (\<lambda>p. fst p \<noteq> tp_id tunnel \<and> tunnel_busy (tunnel_at ?s2 (snd p))) es
          \<le> count_where (\<lambda>p. fst p \<noteq> tp_id tunnel \<and> tunnel_busy (tunnel_at s (snd p))) es"
        by (intro count_where_mono) metis
      then show ?thesis unfolding put by (simp add: count_where_def)
    qed
    ultimately have "tunnels_inv n ?s2"
      using admitted_inv[of ?s2 n "tp_id tunnel" ?k] fresh(4) put by simp
    then show ?thesis using fresh(1) \<open>all_over ?s2\<close> put by (simp add: all_over_def)
  qed (use free free1 in \<open>simp_all add: es_def\<close>)
qed

lemma start_tunnel_inv:
  assumes inv: "tunnels_inv n s" and n: "n < u64_max" and over: "all_over s"
  shows "tunnels_inv (Suc n) (start_tunnel world tunnel s)"
proof (cases "wo_host world")
  case (Inl e)
  have "tunnels_inv n (s\<lparr>tr_operation := FreeOp\<rparr>)"
    by (rule relabel_inv(1)[OF inv over, where P = "\<lambda>_. True"]) (simp_all add: started_cell_def)
  then show ?thesis using Inl tunnels_inv_mono by (simp add: start_tunnel_def)
next
  case (Inr host)
  obtain r s' where run: "admit_tunnel world host tunnel s = (r, s')" by (cases "admit_tunnel world host tunnel s") auto
  note admitted = admit_tunnel_inv[OF inv over run]
  show ?thesis
  proof (cases r)
    case (Inl e)
    then show ?thesis using admitted Inr run tunnels_inv_mono by (simp add: start_tunnel_def)
  next
    case k: (Inr k)
    let ?s = "s'\<lparr>tr_operation := Starting k\<rparr>"
    have inv': "tunnels_inv n ?s" and over': "all_over s'" and entry: "(tp_id tunnel, k) \<in> set (tr_entries s')"
      using admitted k by simp_all
    have "k < length (tr_cells s')" using inv' by (simp add: tunnels_inv_def calls_ok_def)
    then have "tunnels_inv (Suc n) (begin_call (StartLock host tunnel) k ?s)"
      using over' entry by (intro begin_call_inv[OF inv' n]) (simp_all add: all_over_def)
    moreover have "begin_call (StartLock host tunnel) k ?s = (begin_call (StartLock host tunnel) k s')\<lparr>tr_operation := Starting k\<rparr>"
      by (rule tunnels.equality) (simp_all add: begin_call_def set_cell_def)
    ultimately show ?thesis using Inr k run by (simp add: start_tunnel_def)
  qed
qed

text \<open>The stop that several tunnels begin at once.\<close>

lemma stop_all_cells:
  assumes "\<forall>p \<in> set ps. snd p < length (tr_cells s)"
  shows "tr_cells (fold (\<lambda>p. call_stop False (Some (snd p))) ps s) =
      map (\<lambda>k. if k \<in> snd ` set ps then (tr_cells s ! k)\<lparr>ce_call := StopLock False\<rparr> else tr_cells s ! k) [0..<length (tr_cells s)]
    \<and> tr_entries (fold (\<lambda>p. call_stop False (Some (snd p))) ps s) = tr_entries s"
  using assms
proof (induction ps arbitrary: s)
  case (Cons p ps)
  let ?s = "call_stop False (Some (snd p)) s"
  have s: "tr_cells ?s = (tr_cells s)[snd p := (tr_cells s ! snd p)\<lparr>ce_call := StopLock False\<rparr>]" "tr_entries ?s = tr_entries s"
    by (simp_all add: call_stop_def begin_call_def set_cell_def)
  have bound: "\<forall>q \<in> set ps. snd q < length (tr_cells ?s)" using Cons.prems s by simp
  show ?case using Cons.IH[OF bound] Cons.prems s by (auto simp: nth_list_update intro!: map_cong)
qed (simp add: map_nth)

lemma stop_all_inv:
  assumes inv: "tunnels_inv n s" and n: "n < u64_max" and over: "all_over s" and free: "tr_operation s = FreeOp"
  shows "tunnels_inv (Suc n)
    ((fold (\<lambda>p. call_stop False (Some (snd p))) (tr_entries s) s)\<lparr>tr_operation := StoppingAll (tr_entries s)\<rparr>)"
    (is "tunnels_inv _ ?s")
proof -
  have parts: "entries_ok s" "busy_ok s" "\<And>c. c \<in> set (tr_cells s) \<Longrightarrow> cell_inv n c" using inv by (simp_all add: tunnels_inv_def)
  have bound: "\<forall>p \<in> set (tr_entries s). snd p < length (tr_cells s)" using parts(1) by (simp add: entries_ok_def)
  have cells: "tr_cells ?s = map (\<lambda>k. if k \<in> snd ` set (tr_entries s) then (tr_cells s ! k)\<lparr>ce_call := StopLock False\<rparr>
      else tr_cells s ! k) [0..<length (tr_cells s)]"
    and entries: "tr_entries ?s = tr_entries s"
    using stop_all_cells[OF bound] by simp_all
  have at: "tr_cells ?s ! k = (if k \<in> snd ` set (tr_entries s) then (tr_cells s ! k)\<lparr>ce_call := StopLock False\<rparr> else tr_cells s ! k)"
    if "k < length (tr_cells s)" for k using that by (simp add: cells)
  have len: "length (tr_cells ?s) = length (tr_cells s)" by (simp add: cells)
  have idle: "ce_call (tr_cells s ! k) = NoCall" if "k < length (tr_cells s)" for k using over that by (simp add: all_over_def)
  have "cell_inv (Suc n) (tr_cells ?s ! k)" if k: "k < length (tr_cells s)" for k
    using at[OF k] parts(3)[OF nth_mem[OF k]] cell_inv_mono cell_step_inv[OF StopStep[OF idle[OF k]] _ n] by auto
  then have "\<forall>c \<in> set (tr_cells ?s). cell_inv (Suc n) c" using len by (metis in_set_conv_nth)
  moreover have "entries_ok ?s"
    using parts(1) at unfolding entries_ok_def entries len by (auto simp: named_def)
  moreover have "calls_ok ?s"
    unfolding calls_ok_def len using at bound idle by auto
  moreover have "busy_besides {} ?s \<le> busy_besides {} s"
    unfolding busy_besides_def entries
    by (intro count_where_mono) (use at bound in \<open>auto simp: cell_busy_def\<close>)
  ultimately show ?thesis using busy_all[OF parts(1,2)] by (simp add: tunnels_inv_def busy_ok_def started_cell_def)
qed

lemma call_stop_operation:
  "call_stop retire_it entry (s\<lparr>tr_operation := operation\<rparr>) = (call_stop retire_it entry s)\<lparr>tr_operation := operation\<rparr>"
  by (rule tunnels.equality) (simp_all add: call_stop_def begin_call_def set_cell_def split: option.split)

lemma free_over: "tunnels_inv n s \<Longrightarrow> tr_operation s = FreeOp \<Longrightarrow> all_over s"
  by (auto simp: tunnels_inv_def intro: call_over_all)

text \<open>The call goes on with the stop of an entry.\<close>

lemma stop_entry_inv:
  assumes inv: "tunnels_inv n s" and n: "n < u64_max" and over: "all_over s"
    and entry: "\<And>k. entry = Some k \<Longrightarrow> \<exists>tid. map_of (tr_entries s) tid = Some k"
    and operation: "op_cells operation = set_option entry" "started_cell operation = {}"
  shows "tunnels_inv (Suc n) ((call_stop retire_it entry s)\<lparr>tr_operation := operation\<rparr>)"
proof -
  have "entries_ok s" using inv by (simp add: tunnels_inv_def)
  then have "set_option entry \<subseteq> {..<length (tr_cells s)}"
    using entry by (fastforce simp: entries_ok_def dest: map_of_SomeD)
  then have "tunnels_inv n (s\<lparr>tr_operation := operation\<rparr>)" "all_over (s\<lparr>tr_operation := operation\<rparr>)"
    by (intro relabel_inv[OF inv over, where P = "\<lambda>_. True"]; simp add: operation)+
  from call_stop_inv[OF this(1) n _ this(2), of entry retire_it] show ?thesis
    by (simp add: operation call_stop_operation)
qed

lemma begin_operation_inv:
  assumes inv: "tunnels_inv n s" and n: "n < u64_max" and free: "tr_operation s = FreeOp"
  shows "tunnels_inv (Suc n) (begin_operation world r s)"
proof -
  note over = free_over[OF inv free]
  show ?thesis
  proof (cases r)
    case (StartTunnel host tunnel)
    then show ?thesis using start_tunnel_inv[OF inv n over] by simp
  next
    case (StopForHost host_id)
    have "tunnels_inv n (begin_operation world r s)"
      unfolding StopForHost by (rule relabel_inv(1)[OF inv over, where P = "\<lambda>_. True"]) (simp_all add: started_cell_def)
    then show ?thesis by (rule tunnels_inv_mono)
  next
    case StopAll
    then show ?thesis using stop_all_inv[OF inv n over free] by simp
  next
    case (RestartTunnel host tunnel)
    then show ?thesis
      using stop_entry_inv[OF inv n over, of "map_of (tr_entries s) (tp_id tunnel)"
          "Restarting (map_of (tr_entries s) (tp_id tunnel)) host tunnel" False]
      by (auto simp: Let_def started_cell_def)
  next
    case (StopTunnel tid)
    then show ?thesis
      using stop_entry_inv[OF inv n over, of "map_of (tr_entries s) tid" "Stopping (map_of (tr_entries s) tid)" False]
      by (auto simp: Let_def started_cell_def)
  next
    case (RemoveTunnel tid)
    then show ?thesis
      using stop_entry_inv[OF inv n over, of "map_of (tr_entries s) tid" "Removing tid (map_of (tr_entries s) tid)" True]
      by (auto simp: Let_def started_cell_def)
  qed
qed

lemma end_operation_inv:
  assumes "tunnels_inv n s" and "all_over s"
  shows "tunnels_inv n (end_operation r s)"
  by (rule relabel_inv(1)[OF assms, where P = "\<lambda>_. True"]) (simp_all add: end_operation_def started_cell_def)

lemma drop_entry_inv:
  assumes inv: "tunnels_inv n s" and over: "all_over s"
    and operation: "op_cells operation \<subseteq> {..<length (tr_cells s)}" "started_cell operation = {}"
  shows "tunnels_inv n ((if ok then s\<lparr>tr_entries := del tid (tr_entries s)\<rparr> else s)\<lparr>tr_operation := operation\<rparr>)"
  using relabel_inv(1)[OF inv over, where P = "\<lambda>p. ok \<longrightarrow> fst p \<noteq> tid" and
      s' = "(if ok then s\<lparr>tr_entries := del tid (tr_entries s)\<rparr> else s)\<lparr>tr_operation := operation\<rparr>"] operation
  by (auto simp: del_def)

lemma operation_turn_inv:
  assumes inv: "tunnels_inv n s" and n: "n < u64_max"
  shows "tunnels_inv (Suc n) (operation_turn world s)"
proof -
  have up: "tunnels_inv (Suc n) s" using inv by (rule tunnels_inv_mono)
  have calls: "calls_ok s" using inv by (simp add: tunnels_inv_def)
  have drop: "tunnels_inv n (if ok then s\<lparr>tr_entries := del tid (tr_entries s)\<rparr> else s)"
    "all_over (if ok then s\<lparr>tr_entries := del tid (tr_entries s)\<rparr> else s)" if "all_over s" "started_cell (tr_operation s) = {}" for ok tid
    using drop_entry_inv[OF inv that(1), of "tr_operation s" ok tid] calls that by (auto simp: calls_ok_def all_over_def)
  show ?thesis
  proof (cases "tr_operation s")
    case FreeOp
    then show ?thesis using up by (simp add: operation_turn_def)
  next
    case (Starting k)
    show ?thesis
    proof (cases "call_over (Some k) s")
      case True
      then have over: "all_over s" using call_over_all[OF calls] Starting by simp
      have "tunnels_inv n (s\<lparr>tr_operation := FreeOp\<rparr>)"
        by (rule relabel_inv(1)[OF inv over, where P = "\<lambda>_. True"]) (simp_all add: started_cell_def)
      then show ?thesis using True Starting tunnels_inv_mono by (simp add: operation_turn_def)
    qed (use up Starting in \<open>simp add: operation_turn_def\<close>)
  next
    case (Restarting entry host tunnel)
    show ?thesis
    proof (cases "call_over entry s")
      case True
      then have over: "all_over s" using call_over_all[OF calls] Restarting by auto
      have "tunnels_inv n (s\<lparr>tr_operation := FreeOp\<rparr>)"
        by (rule relabel_inv(1)[OF inv over, where P = "\<lambda>_. True"]) (simp_all add: started_cell_def)
      then show ?thesis
        using True Restarting tunnels_inv_mono start_tunnel_inv[OF inv n over] by (simp add: operation_turn_def split: sum.split)
    qed (use up Restarting in \<open>simp add: operation_turn_def\<close>)
  next
    case (Stopping entry)
    show ?thesis
    proof (cases "call_over entry s")
      case True
      then have over: "all_over s" using call_over_all[OF calls] Stopping by auto
      then show ?thesis using True Stopping end_operation_inv[OF inv over] tunnels_inv_mono by (simp add: operation_turn_def)
    qed (use up Stopping in \<open>simp add: operation_turn_def\<close>)
  next
    case (Removing tid entry)
    show ?thesis
    proof (cases "call_over entry s")
      case True
      then have over: "all_over s" using call_over_all[OF calls] Removing by auto
      have "started_cell (tr_operation s) = {}" using Removing by (simp add: started_cell_def)
      from end_operation_inv[OF drop[OF over this]] show ?thesis
        using True Removing tunnels_inv_mono by (simp add: operation_turn_def)
    qed (use up Removing in \<open>simp add: operation_turn_def\<close>)
  next
    case (StoppingHost ids current errors)
    show ?thesis
    proof (cases current)
      case None
      then have over: "all_over s" using call_over_all[OF calls] StoppingHost by simp
      show ?thesis
      proof (cases ids)
        case Nil
        then show ?thesis
          using None StoppingHost end_operation_inv[OF inv over] tunnels_inv_mono by (simp add: operation_turn_def)
      next
        case (Cons tid rest)
        have goes_on: "tunnels_inv n (s\<lparr>tr_operation := StoppingHost rest None errors\<rparr>)"
          by (rule relabel_inv(1)[OF inv over, where P = "\<lambda>_. True"]) (simp_all add: started_cell_def)
        show ?thesis
        proof (cases "map_of (tr_entries s) tid")
          case None
          then show ?thesis using Cons \<open>current = None\<close> StoppingHost tunnels_inv_mono[OF goes_on] by (simp add: operation_turn_def)
        next
          case (Some k)
          then show ?thesis
            using Cons \<open>current = None\<close> StoppingHost
              stop_entry_inv[OF inv n over, of "Some k" "StoppingHost rest (Some (tid, k)) errors" True]
            by (auto simp: operation_turn_def started_cell_def)
        qed
      qed
    next
      case (Some p)
      obtain tid k where p: "p = (tid, k)" by (cases p)
      show ?thesis
      proof (cases "call_over (Some k) s")
        case True
        then have over: "all_over s" using call_over_all[OF calls] StoppingHost Some p by simp
        have "tunnels_inv n ((if is_ok (stop_result (Some k) s) then s\<lparr>tr_entries := del tid (tr_entries s)\<rparr> else s)
            \<lparr>tr_operation := StoppingHost ids None (errors @ stop_error_of tid (stop_result (Some k) s))\<rparr>)"
          by (rule drop_entry_inv[OF inv over]) (simp_all add: started_cell_def)
        then show ?thesis using True StoppingHost Some p tunnels_inv_mono by (cases ids) (simp_all add: operation_turn_def)
      qed (use up StoppingHost Some p in \<open>cases ids; simp add: operation_turn_def\<close>)
    qed
  next
    case (StoppingAll ps)
    show ?thesis
    proof (cases "list_all (\<lambda>p. call_over (Some (snd p)) s) ps")
      case True
      then have over: "all_over s" using call_over_all[OF calls] StoppingAll by (auto simp: list_all_iff)
      then show ?thesis using True StoppingAll end_operation_inv[OF inv over] tunnels_inv_mono by (simp add: operation_turn_def)
    qed (use up StoppingAll in \<open>simp add: operation_turn_def\<close>)
  qed
qed

section \<open>Histories\<close>

lemma worker_turn_call: "ce_call (worker_turn world i c) = ce_call c"
  by (auto simp: worker_turn_def Let_def split: option.splits prod.splits)

lemma stderr_turn_call: "ce_call (stderr_turn world p line c) = ce_call c"
  by (auto simp: stderr_turn_def split: prod.splits)

lemma line_event_turn_call: "ce_call (line_event_turn j c) = ce_call c"
  by (simp add: line_event_turn_def)

lemma tunnel_step_inv:
  assumes inv: "tunnels_inv n s" and n: "n < u64_max"
  shows "tunnels_inv (Suc n) (tunnel_step m s)"
proof -
  have up: "tunnels_inv (Suc n) s" using inv by (rule tunnels_inv_mono)
  have calls: "calls_ok s" using inv by (simp add: tunnels_inv_def)
  have cell: "tunnels_inv (Suc n) (set_cell k c' s)"
    if "k < length (tr_cells s)" "cell_step (tr_cells s ! k) c'" "ce_call (tr_cells s ! k) = NoCall \<Longrightarrow> ce_call c' = NoCall" for k c'
    by (rule set_cell_inv[OF inv n that(1,2) calm_calls[OF calls that]])
  show ?thesis
  proof (cases m)
    case (Request world r)
    then show ?thesis using up begin_operation_inv[OF inv n] by simp
  next
    case (OperationTurn world)
    then show ?thesis using operation_turn_inv[OF inv n] by simp
  next
    case (CallTurn k world)
    then show ?thesis using up cell[OF _ CallStep] by (simp add: call_turn_def)
  next
    case (WorkerTurn k i world)
    then show ?thesis using up cell[OF _ WorkerStep] by (simp add: worker_turn_call)
  next
    case (StderrTurn k p line world)
    then show ?thesis using up cell[OF _ StderrStep] by (simp add: stderr_turn_call)
  next
    case (LineEvent k j)
    then show ?thesis using up cell[OF _ LineStep] by (simp add: line_event_turn_call)
  qed
qed

lemma run_tunnels_inv:
  "tunnels_inv n s \<Longrightarrow> n + length moves \<le> u64_max \<Longrightarrow> tunnels_inv (n + length moves) (run_tunnels moves s)"
  unfolding run_tunnels_def
proof (induction moves arbitrary: s n)
  case (Cons m moves)
  then have "tunnels_inv (Suc n) (tunnel_step m s)" by (intro tunnel_step_inv) simp_all
  from Cons.IH[OF this] Cons.prems show ?case by simp
qed simp

theorem reached_tunnels_inv:
  "length moves \<le> u64_max \<Longrightarrow> tunnels_inv (length moves) (run_tunnels moves new_tunnels)"
  using run_tunnels_inv[OF new_tunnels_inv, of moves] by simp

end
