(* ===== verification/TunnelProps.thy ===== *)
theory TunnelProps
  imports TunnelsReg
begin

text \<open>
  What the registry of tunnels of \<^verbatim>\<open>tunnel.rs\<close> guarantees over all interleavings, and the histories in
  which it falls short.  Histories have fewer than 2 to the 64 steps, so that no generation or revision
  saturates.
\<close>

section \<open>A stopped tunnel stays stopped\<close>

text \<open>The moves, and the calls under way, that start a tunnel of a given name.\<close>

fun starts_tunnel :: "string \<Rightarrow> tunnel_move \<Rightarrow> bool" where
  "starts_tunnel tid (Request _ (StartTunnel _ tunnel)) = (tp_id tunnel = tid)"
| "starts_tunnel tid (Request _ (RestartTunnel _ tunnel)) = (tp_id tunnel = tid)"
| "starts_tunnel tid _ = False"

fun restarts_tunnel :: "string \<Rightarrow> tunnel_operation \<Rightarrow> bool" where
  "restarts_tunnel tid (Restarting _ _ tunnel) = (tp_id tunnel = tid)"
| "restarts_tunnel tid _ = False"

definition resting :: "string \<Rightarrow> tunnel_cell \<Rightarrow> bool" where
  "resting tid c \<longleftrightarrow> parked c \<and> stop_phase (ce_call c) \<and> named tid c"

definition rests :: "string \<Rightarrow> nat \<Rightarrow> nat list \<Rightarrow> tunnels \<Rightarrow> bool" where
  "rests tid k processes s \<longleftrightarrow> k < length (tr_cells s) \<and> resting tid (tr_cells s ! k) \<and> ce_processes (tr_cells s ! k) = processes
     \<and> \<not> restarts_tunnel tid (tr_operation s)"

lemma resting_stop: "resting tid c \<Longrightarrow> resting tid (c\<lparr>ce_call := StopLock retire_it\<rparr>)"
  by (auto simp: resting_def parked_def named_def)

lemma call_stop_rests:
  assumes "rests tid k processes s" and "\<not> restarts_tunnel tid operation"
  shows "rests tid k processes ((call_stop retire_it entry s)\<lparr>tr_operation := operation\<rparr>)"
proof -
  have k: "k < length (tr_cells s)" "resting tid (tr_cells s ! k)" "ce_processes (tr_cells s ! k) = processes"
    using assms(1) by (simp_all add: rests_def)
  have "tr_cells (call_stop retire_it entry s) ! k =
      (if entry = Some k then (tr_cells s ! k)\<lparr>ce_call := StopLock retire_it\<rparr> else tr_cells s ! k)"
      "length (tr_cells (call_stop retire_it entry s)) = length (tr_cells s)"
    using k(1) by (auto simp: call_stop_def begin_call_def set_cell_def split: option.splits)
  then show ?thesis using k assms(2) resting_stop[OF k(2), of retire_it] by (simp add: rests_def)
qed

lemma same_cells_rests:
  "rests tid k processes s \<Longrightarrow> tr_cells s' = tr_cells s \<Longrightarrow> \<not> restarts_tunnel tid (tr_operation s') \<Longrightarrow> rests tid k processes s'"
  by (simp add: rests_def)

lemma start_tunnel_rests:
  assumes inv: "tunnels_inv n s" and over: "all_over s" and rests: "rests tid k processes s" and other: "tp_id tunnel \<noteq> tid"
  shows "rests tid k processes (start_tunnel world tunnel s)"
proof (cases "wo_host world")
  case (Inl e)
  then show ?thesis using rests by (simp add: start_tunnel_def rests_def)
next
  case (Inr host)
  obtain r s' where run: "admit_tunnel world host tunnel s = (r, s')" by (cases "admit_tunnel world host tunnel s") auto
  note admitted = admit_tunnel_inv[OF inv over run]
  have kept: "k < length (tr_cells s') \<and> tr_cells s' ! k = tr_cells s ! k"
    using run rests by (cases rule: admit_tunnel_cases) (auto simp: rests_def nth_append)
  show ?thesis
  proof (cases r)
    case (Inl e)
    then show ?thesis using kept rests run Inr by (simp add: start_tunnel_def rests_def)
  next
    case j: (Inr j)
    then have "entries_ok (s'\<lparr>tr_operation := Starting j\<rparr>)" "(tp_id tunnel, j) \<in> set (tr_entries s')"
      using admitted by (simp_all add: tunnels_inv_def)
    then have "named (tp_id tunnel) (tr_cells s' ! j)" by (auto simp: entries_ok_def)
    then have "j \<noteq> k" using kept rests other by (auto simp: rests_def resting_def named_def)
    then show ?thesis
      using kept rests run Inr j by (simp add: start_tunnel_def rests_def begin_call_def set_cell_def)
  qed
qed

lemma set_cell_rests:
  assumes inv: "tunnels_inv n s" and n: "n < u64_max" and rests: "rests tid k processes s"
    and j: "j < length (tr_cells s)" and step: "cell_step (tr_cells s ! j) c'" and calm: "\<And>host tunnel. ce_call (tr_cells s ! j) \<noteq> StartLock host tunnel \<Longrightarrow> ce_call c' \<noteq> StartLock host tunnel"
  shows "rests tid k processes (set_cell j c' s)"
proof (cases "j = k")
  case True
  have cell: "cell_inv n (tr_cells s ! k)" using inv rests by (simp add: tunnels_inv_def rests_def)
  have r: "resting tid (tr_cells s ! k)" using rests by (simp add: rests_def)
  have "ce_call (tr_cells s ! k) \<noteq> StartLock host tunnel" for host tunnel
    using r by (auto simp: resting_def)
  then have no_start: "ce_call c' \<noteq> StartLock host tunnel" for host tunnel using calm True by simp
  have "parked c' \<and> stop_phase (ce_call c') \<and> ce_processes c' = ce_processes (tr_cells s ! k)"
    using step True cell r no_start
    by (intro parked_step[OF _ _ n]) (auto simp: cell_inv_def resting_def)
  moreover have "named tid c'" using cell_step_named[OF step] r True by (simp add: resting_def)
  ultimately show ?thesis using rests True j by (simp add: rests_def resting_def set_cell_def)
next
  case False
  then show ?thesis using rests by (simp add: rests_def set_cell_def)
qed

lemma tunnel_step_rests:
  assumes inv: "tunnels_inv n s" and n: "n < u64_max" and rests: "rests tid k processes s" and m: "\<not> starts_tunnel tid m"
  shows "rests tid k processes (tunnel_step m s)"
proof (cases m)
  case (Request world r)
  show ?thesis
  proof (cases "tr_operation s = FreeOp")
    case free: True
    note over = free_over[OF inv free]
    have entries: "entries_ok s" using inv by (simp add: tunnels_inv_def)
    show ?thesis
    proof (cases r)
      case (StartTunnel host tunnel)
      then show ?thesis using Request free start_tunnel_rests[OF inv over rests] m by simp
    next
      case (StopForHost host_id)
      then show ?thesis using Request free rests by (simp add: rests_def)
    next
      case StopAll
      have "\<forall>p \<in> set (tr_entries s). snd p < length (tr_cells s)" using entries by (simp add: entries_ok_def)
      from stop_all_cells[OF this] show ?thesis
        using StopAll Request free rests resting_stop by (auto simp: rests_def)
    qed (use Request free m call_stop_rests[OF rests] in \<open>simp_all add: Let_def\<close>)
  qed (use Request rests in simp)
next
  case (OperationTurn world)
  have calls: "calls_ok s" using inv by (simp add: tunnels_inv_def)
  show ?thesis
  proof (cases "tr_operation s")
    case (Restarting entry host tunnel)
    show ?thesis
    proof (cases "call_over entry s")
      case True
      then have "all_over s" using call_over_all[OF calls] Restarting by auto
      then show ?thesis
        using start_tunnel_rests[OF inv _ rests] rests Restarting OperationTurn True
        by (auto simp: operation_turn_def rests_def split: sum.splits)
    qed (use rests Restarting OperationTurn in \<open>simp add: operation_turn_def\<close>)
  next
    case (StoppingHost ids current errors)
    show ?thesis
    proof (cases "current = None \<and> ids \<noteq> [] \<and> map_of (tr_entries s) (hd ids) \<noteq> None")
      case True
      then obtain tid' rest j where "current = None" "ids = tid' # rest" "map_of (tr_entries s) tid' = Some j"
        by (cases ids) auto
      then show ?thesis
        using StoppingHost OperationTurn call_stop_rests[OF rests, of "StoppingHost rest (Some (tid', j)) errors"]
        by (simp add: operation_turn_def)
    next
      case False
      then have "tr_cells (operation_turn world s) = tr_cells s"
          "tr_operation (operation_turn world s) = FreeOp \<or> (\<exists>ids current errors. tr_operation (operation_turn world s) = StoppingHost ids current errors)"
        using StoppingHost by (cases ids; cases current; auto simp: operation_turn_def end_operation_def split: option.splits)+
      then show ?thesis using same_cells_rests[OF rests] OperationTurn by auto
    qed
  qed (use rests OperationTurn in \<open>auto simp: operation_turn_def rests_def end_operation_def\<close>)
next
  case (CallTurn j world)
  have "ce_call (call_turn world c) \<noteq> StartLock host tunnel" if "ce_call c \<noteq> StartLock host tunnel" for c host tunnel
    using that by (cases "ce_call c") (auto simp: call_turn_def return_call_def begin_stop_def Let_def
        split: prod.splits sum.splits option.splits)
  then show ?thesis using CallTurn set_cell_rests[OF inv n rests _ CallStep] rests by simp
next
  case (WorkerTurn j i world)
  then show ?thesis using set_cell_rests[OF inv n rests _ WorkerStep] rests by (simp add: worker_turn_call)
next
  case (StderrTurn j p line world)
  then show ?thesis using set_cell_rests[OF inv n rests _ StderrStep] rests by (simp add: stderr_turn_call)
next
  case (LineEvent j i)
  then show ?thesis using set_cell_rests[OF inv n rests _ LineStep] rests by (simp add: line_event_turn_call)
qed

lemma run_tunnels_rests:
  "tunnels_inv n s \<Longrightarrow> n + length moves \<le> u64_max \<Longrightarrow> rests tid k processes s \<Longrightarrow> \<forall>m \<in> set moves. \<not> starts_tunnel tid m
     \<Longrightarrow> rests tid k processes (run_tunnels moves s)"
  unfolding run_tunnels_def
proof (induction moves arbitrary: s n)
  case (Cons m moves)
  then have "tunnels_inv (Suc n) (tunnel_step m s)" "rests tid k processes (tunnel_step m s)"
    by (auto intro: tunnel_step_inv tunnel_step_rests)
  from Cons.IH[OF this(1) _ this(2)] Cons.prems show ?case by simp
qed simp


section \<open>One worker and one owner\<close>


section \<open>The events of a tunnel\<close>


section \<open>Bounds\<close>

text \<open>
  C39: at most 256 tunnels are in the registry, at most 64 of them are busy (wanted, with a worker or with a
  process), and the log of each has at most 50 entries and 64 KiB, with an exact byte count.
\<close>

theorem tunnels_are_bounded:
  assumes "length moves < 2 ^ 64" and "s = run_tunnels moves new_tunnels"
  shows "length (tr_entries s) \<le> 256 \<and> count_where (\<lambda>p. tunnel_busy (tunnel_at s (snd p))) (tr_entries s) \<le> 64
    \<and> (\<forall>c \<in> set (tr_cells s). length (tu_logs (ce_inner c)) \<le> 50 \<and> tu_log_bytes (ce_inner c) \<le> 65536
         \<and> tu_log_bytes (ce_inner c) = (\<Sum>e\<leftarrow>tu_logs (ce_inner c). length (tl_message e) + 64))"
proof -
  have inv: "tunnels_inv (length moves) s" unfolding assms(2) using assms(1) by (intro reached_tunnels_inv) (simp add: u64_max_def)
  then have parts: "entries_ok s" "busy_ok s" "\<And>c. c \<in> set (tr_cells s) \<Longrightarrow> log_ok (ce_inner c)"
    by (simp_all add: tunnels_inv_def cell_inv_def cell_ok_def)
  have "count_where (\<lambda>p. tunnel_busy (tunnel_at s (snd p))) (tr_entries s) \<le> busy_besides {} s"
    unfolding busy_besides_def by (rule count_where_mono) (simp add: cell_busy_def tunnel_at_def)
  moreover have "length (tr_entries s) \<le> 256" using parts(1) by (simp add: entries_ok_def)
  ultimately show ?thesis using busy_all[OF parts(1,2)] log_ok_limits[OF parts(3)] by (meson le_trans)
qed

section \<open>Histories\<close>

definition sample_tunnel_host :: host_profile where
  "sample_tunnel_host = \<lparr>hp_schema_version = 1, hp_id = ''h'', hp_alias = ''h'', hp_hostname = ''h'', hp_port = 22, hp_username = ''u'',
     hp_auth_method = Agent, hp_identity_file = None, hp_proxy_jump = None, hp_default_workspace = ''~'', hp_groups = [],
     hp_advanced = default_ssh_advanced_options, hp_monitor_enabled = False, hp_created_at = 0, hp_updated_at = 0\<rparr>"

definition sample_tunnel :: "u16 \<Rightarrow> tunnel_health_check option \<Rightarrow> tunnel_profile" where
  "sample_tunnel port check = \<lparr>tp_schema_version = 1, tp_id = ''t'', tp_host_id = ''h'', tp_name = ''t'', tp_direction = LocalForward,
     tp_bind_address = ''127.0.0.1'', tp_source_port = port, tp_target_host = ''db'', tp_target_port = 5432, tp_auto_start = False,
     tp_auto_reconnect = False, tp_health_check = check, tp_created_at = 0, tp_updated_at = 0\<rparr>"

text \<open>All goes well at a time.\<close>

definition sample_world :: "nat \<Rightarrow> world" where
  "sample_world now = \<lparr>wo_now = now, wo_at = 0, wo_host = Inr sample_tunnel_host, wo_command = Inr (), wo_spawn = Inr (),
     wo_poll = StillRunning, wo_terminate = Inr (), wo_health = Inr (), wo_thread = Inr (), wo_panics = False\<rparr>"

definition calls :: "nat \<Rightarrow> world \<Rightarrow> tunnel_move list" where
  "calls n world = replicate n (CallTurn 0 world) @ [OperationTurn world]"

definition works :: "nat \<Rightarrow> nat \<Rightarrow> world \<Rightarrow> tunnel_move list" where
  "works i n world = replicate n (WorkerTurn 0 i world)"

text \<open>A tunnel is started and its worker announces that it runs.\<close>

definition sample_running :: "tunnel_health_check option \<Rightarrow> tunnel_move list" where
  "sample_running check = Request (sample_world 0) (StartTunnel sample_tunnel_host (sample_tunnel 8080 check)) # calls 5 (sample_world 0)
     @ works 0 6 (sample_world 0) @ works 0 4 (sample_world 2000)"

definition sample_cell :: "tunnel_move list \<Rightarrow> tunnel_cell" where
  "sample_cell moves = tr_cells (run_tunnels moves new_tunnels) ! 0"

definition sample_stopped :: "tunnel_move list" where
  "sample_stopped = sample_running None @ Request (sample_world 3000) (StopTunnel ''t'') # calls 3 (sample_world 3000)"

text \<open>What the histories come to: the state, the events, the process, the workers, and whether nothing is under way.\<close>

definition cell_view :: "tunnel_cell \<Rightarrow> tunnel_runtime_state \<times> tunnel_runtime_state list \<times> nat option \<times> (bool \<times> nat option) list \<times> bool" where
  "cell_view c = (tu_state (ce_inner c), map tsn_state (ce_emitted c), tu_child (ce_inner c),
     map (\<lambda>w. (wk_phase w = Gone, hand (wk_phase w))) (ce_workers c),
     ce_call c = NoCall \<and> ce_lines c = [] \<and> list_all (\<lambda>w. Option.is_none (wk_event w)) (ce_workers c))"

definition stops_well :: "tunnels \<Rightarrow> bool" where
  "stops_well s \<longleftrightarrow> 0 < length (tr_cells s) \<and> ce_call (tr_cells s ! 0) = NoCall \<and> ce_returned (tr_cells s ! 0) \<noteq> []
     \<and> last (ce_returned (tr_cells s ! 0)) = StopDone False
     \<and> \<not> restarts_tunnel (tp_id (tu_profile (ce_inner (tr_cells s ! 0)))) (tr_operation s)"

definition runs_well :: "tunnels \<Rightarrow> bool" where
  "runs_well s \<longleftrightarrow> 0 < length (tr_cells s) \<and> tu_desired_running (ce_inner (tr_cells s ! 0))
     \<and> \<not> starting_call (ce_call (tr_cells s ! 0)) \<and> tu_generation (ce_inner (tr_cells s ! 0)) = 1
     \<and> list_all (\<lambda>r. case r of StaleAlive e \<Rightarrow> False | _ \<Rightarrow> True) (ce_returned (tr_cells s ! 0))"

lemma run_tunnels_append: "run_tunnels (ms @ ms') s = run_tunnels ms' (run_tunnels ms s)"
  by (simp add: run_tunnels_def)

lemma sample_short: "length (sample_running check) + n < 2 ^ 64" if "n < 100"
  using that by (simp add: sample_running_def calls_def works_def)



definition sample_superseded :: tunnel_cell where
  "sample_superseded = sample_cell (Request (sample_world 0) (StartTunnel sample_tunnel_host (sample_tunnel 8080 None))
     # calls 5 (sample_world 0) @ works 0 3 (sample_world 0) @ Request (sample_world 0) (StopTunnel ''t'') # calls 3 (sample_world 0))"

definition leaves_well :: "tunnel_cell \<Rightarrow> bool" where
  "leaves_well c \<longleftrightarrow> 0 < length (ce_workers c) \<and> wk_generation (ce_workers c ! 0) \<noteq> tu_generation (ce_inner c) \<and> lifecycle_free c
     \<and> wk_phase (ce_workers c ! 0) \<noteq> Gone"

lemma superseded_worker_leaves_witness:
  "wk_phase (ce_workers sample_superseded ! 0) \<noteq> Gone
   \<and> wk_phase (ce_workers (fold (\<lambda>world. worker_turn world 0) (replicate 7 (sample_world 500)) sample_superseded) ! 0) = Gone"
proof -
  have "leaves_well sample_superseded" by code_simp
  then show ?thesis using superseded_worker_leaves[of 0 sample_superseded "replicate 7 (sample_world 500)"]
    unfolding leaves_well_def by simp
qed


lemma tunnels_are_bounded_witness:
  "count_where (\<lambda>p. tunnel_busy (tunnel_at (run_tunnels (sample_running None) new_tunnels) (snd p)))
     (tr_entries (run_tunnels (sample_running None) new_tunnels)) \<le> 64
   \<and> length (tr_entries (run_tunnels (sample_running None) new_tunnels)) = 1"
proof -
  have "length (tr_entries (run_tunnels (sample_running None) new_tunnels)) = 1" by code_simp
  then show ?thesis using tunnels_are_bounded[of "sample_running None"] sample_short[of 0] by simp
qed

section \<open>Where the code falls short\<close>

text \<open>
  A stop that meets a tunnel whose process has just ended gives the state the next revision and sends no
  event; the event of the end, which its worker was about to send, is dropped as outdated.  Nothing is on
  its way any more and the last event says that the tunnel runs.
\<close>

definition sample_ended :: "tunnel_move list" where
  "sample_ended = sample_running None
     @ works 0 5 ((sample_world 3000)\<lparr>wo_poll := ExitedWith ''exit status: 0'' True\<rparr>)
     @ Request (sample_world 3000) (StopTunnel ''t'') # calls 3 (sample_world 3000) @ works 0 9 (sample_world 3000)"

lemma stop_swallows_the_end:
  "cell_view (sample_cell sample_ended) =
     (TunStopped, [TunStarting, TunStarting, TunRunning, TunRunning], None, [(True, None)], True)"
  by code_simp

text \<open>
  A start with another configuration whose \<^verbatim>\<open>terminate\<close> of the old process fails returns its error after it
  has given the tunnel a new generation: the tunnel is still wanted and shown as running, it counts as busy,
  and there is neither a process nor a worker.
\<close>

definition sample_phantom :: "tunnel_move list" where
  "sample_phantom = sample_running None
     @ Request (sample_world 3000) (StartTunnel sample_tunnel_host (sample_tunnel 8081 None))
     # calls 3 ((sample_world 3000)\<lparr>wo_terminate := Inl ''timed out''\<rparr>) @ works 0 9 (sample_world 4000)"

lemma failed_start_leaves_a_phantom:
  "cell_view (sample_cell sample_phantom) =
     (TunRunning, [TunStarting, TunStarting, TunRunning, TunRunning], None, [(True, None)], True)"
  by code_simp

text \<open>
  A worker that ends an unhealthy process takes it from the tunnel and holds no lock while it does: a stop
  that comes in between finds no process and reports success while the process is still there, in the
  worker's hands.
\<close>

lemma stop_leaves_the_unhealthy_process:
  assumes i: "i < length (ce_workers c)" and w: "wk_phase (ce_workers c ! i) = Terminating message clock" "wk_event (ce_workers c ! i) = None"
      "wk_generation (ce_workers c ! i) = tu_generation (ce_inner c)" "tu_child (ce_inner c) = Some p"
    and c: "tu_desired_running (ce_inner c)" "lifecycle_free c" "ce_call c = StopLock False" and world: "\<not> wo_panics world"
    and c': "c' = call_turn world (call_turn world (call_turn world (worker_turn world i c)))"
  shows "ce_returned c' = ce_returned c @ [StopDone False] \<and> tu_state (ce_inner c') = TunStopped
    \<and> tu_child (ce_inner c') = None \<and> hand (wk_phase (ce_workers c' ! i)) = Some p"
proof -
  let ?w = "in_phase (ce_workers c ! i) (Killing p message clock)"
  have turn: "worker_turn world i c = c\<lparr>ce_inner := (ce_inner c)\<lparr>tu_child := None\<rparr>, ce_workers := (ce_workers c)[i := ?w]\<rparr>"
    using w c world by (simp add: worker_turn_def worker_section.simps Let_def)
  have "lifecycle_free (worker_turn world i c)"
    using lifecycle_free_update[OF c(2), of "worker_turn world i c" i ?w] turn by (simp add: in_phase_def)
  then show ?thesis
    using turn i c unfolding c'
    by (simp add: call_turn_def begin_stop_def bump_generation_def conclude_stop_def pending_event_locked_def
        return_call_def emit_pending_def is_ok_def in_phase_def Let_def)
qed

end
