(* ===== verification/Spec2Isabelle.thy ===== *)
theory Spec2Isabelle
  imports StoreProps CommandJobProps TerminalProps Utf8 Shell Barrier Risk ServerOperations SftpListing SftpUpload SftpLocal TransferProps TunnelProps
begin

text \<open>
  RemoteDeck is a local server through which a browser manages SSH hosts: it stores host profiles,
  runs commands on hosts as jobs, keeps interactive terminals, tunnels and file transfers, and
  watches the hosts.  This development models the parts of \<^verbatim>\<open>src/crates/remotedeck-core/src\<close> that
  decide what happens; the other processes (ssh, sftp, the remote shell), the file system, the JSON
  library and the clock are parameters or steps that tell what they did.

  \<^bold>\<open>Foundations.\<close> RustBase: results, early return, loops that may fail, machine integers (a counter
  that wraps is written with \<open>mod\<close>, one that saturates with \<open>saturating_add64\<close>).  RustStr: strings as
  UTF-8 bytes and the methods of \<^verbatim>\<open>str\<close> and \<^verbatim>\<open>char\<close> the code calls.  Model: \<^verbatim>\<open>model.rs\<close> and
  \<^verbatim>\<open>error.rs\<close>; a struct is a record whose fields carry its initials.  Tables: vectors of records
  with an identifier.  Registry: hash maps as association lists without repeated keys, and the loop
  that removes the oldest finished entry until the map is small enough, with the locale
  \<open>retention\<close> for its laws; the jobs and the terminals interpret it.

  \<^bold>\<open>Host operation barrier\<close> (Barrier; \<^verbatim>\<open>host_operation.rs\<close>).  Leases, retirement, idleness and
  restoration of a host.  The locale \<open>host_barrier\<close> states what the other registries rely on, and the
  module's functions interpret it.  A retired idle host stays idle; idle means that no lease is out.

  \<^bold>\<open>State repository\<close> (\<^verbatim>\<open>store.rs\<close>).  StoreValidate: the validators of drafts, settings and whole
  states.  StoreApply: drafts applied to a state.  StoreProxy: ProxyJump references and their
  invariant, one direct hop.  StoreRepo: the repository's memory, its two files, the steps in which
  the operating system replaces a file on Unix and on Windows, and every operation; a fault can
  stop any of the steps.  StoreImport: the batch import.  StoreTxn and StoreSafety: what every
  operation keeps.  StoreProps: operations are transactions, a restart loads what memory holds, an
  interrupted write is recoverable, references resolve, a host being deleted is quarantined.

  \<^bold>\<open>Commands\<close> (\<^verbatim>\<open>risk.rs\<close>, \<^verbatim>\<open>command_job.rs\<close>).  Risk: the classifier, the confirmation policy and the
  built-in presets.  Shell: quoting, against a reference reader of one shell word.
  CommandRequest: from a request to a prepared command.  CommandJobs: the registry of jobs, the
  executor's loop as steps of one thread per job, cancellation and retirement.  CommandJobsInv,
  CommandJobsSafe: the invariant of the registry over all interleavings.  CommandJobProps: life
  cycle, agreement of jobs and processes, bounds, cancellation that ends, retirement.

  \<^bold>\<open>Terminals\<close> (\<^verbatim>\<open>session.rs\<close>).  Utf8: the incremental decoder against the lossy decoding of the
  whole stream.  TermInput: the input leases, a refinement of a single owner.  TermStream: the
  replay buffer and the cursor query of a new Windows console.  Terminals: the registry and the
  critical sections of the threads that start, reconnect, close, reap and retire terminals, as one
  step relation; TerminalsInv and TerminalsSafe: its invariants; TerminalProps: every live shell has
  one session, every change of a record is announced with the next revision, bounds, retirement,
  and three histories in which the code falls short.

  \<^bold>\<open>File transfers\<close> (\<^verbatim>\<open>sftp.rs\<close>).  SftpPaths: quoting for the batch language of \<^verbatim>\<open>sftp\<close>, against a reference
  reader of its lines; the check of destructive paths, against resolving them; temporaries, backups and
  conflict names.  SftpTree: listings, metadata and the other operations, and the walk that deletes a
  tree; SftpTreeProps: the walk ends and finds everything bottom up; SftpListing: listings read back;
  SftpDelete: a deletion stays inside its tree, for any remote side (locale \<open>batch_invariant\<close>).
  SftpTransfer: an upload attempt as actions on an outside world; the locale \<open>replacement\<close> states what
  the swap of a temporary into its destination relies on.  SftpUpload: an upload never loses what lies
  at its destination; SftpLocal: the same for the commit of a download on the local disk, which
  interprets the locale.  Transfers: the registry of transfers, whose attempts, cancellations, retries and
  removals of hosts interleave in any order; what an attempt does on the remote side is a step with any
  result, and a host is restored only when no removal of it is under way.  TransfersInv, TransfersSafe: what
  a step can change and the invariant; it interprets \<open>retention\<close> and rests on \<open>host_barrier\<close>.
  TransferProps: one attempt for each transfer, bounds, the life of a transfer, removal of hosts, edits of
  connections, and two histories of a cancelled transfer.

  \<^bold>\<open>Tunnels\<close> (\<^verbatim>\<open>tunnel.rs\<close>).  TunnelLog: the state of a tunnel, its bounded log, which holds the longest recent
  part of what was said, and the lines of the standard error, independent of how they are read.  Tunnels: an
  entry with its workers and readers and the call that works on it, each critical section one step, and
  the registry with its one call at a time; the answers of the clock, the processes and the health checks
  are a \<open>world\<close> that each step is given.  TunnelsInv: what a section can change (\<open>section_effect\<close>) and the
  invariant of a tunnel; TunnelsSafe: its events; TunnelsStop: stopped tunnels and superseded workers;
  TunnelsReg: the registry.  TunnelProps: a stopped tunnel stays stopped, one worker and one owner of each
  process, ordered events, bounds, and three histories in which the code falls short.  Histories have fewer
  than 2 to the 64 steps, so that no generation or revision saturates.

  \<^bold>\<open>Server\<close> (\<^verbatim>\<open>apps/server/src\<close>).  ServerAuth: launch tickets, browser sessions, CSRF tokens and terminal
  tickets, over histories of requests.  ServerEvents: the event log with resume and resync.
  ServerOperations: idempotent requests, their admission and their answers.

  \<^bold>\<open>Interaction.\<close> Jobs and terminals take a lease of the barrier before they look at anything and
  drop it when the call returns; deleting a host retires it in each registry, waits until it is
  idle, closes what is left and then asks the repository to remove it.  A job takes the host, the
  preset and the risk from the repository and the risk policy.

  \<^bold>\<open>Concurrency.\<close> Every critical section of a lock is one step; a history is any sequence of steps
  that the threads can take, and the invariants hold in all of them.  An event that a thread
  publishes right after a critical section is recorded with it.  Hash maps iterate in an order of
  their own: where the order matters it is a parameter (\<open>env_order\<close>) or the result does not depend
  on it.

  \<^bold>\<open>Bounds and fuel.\<close> Sizes are those of the source.  \<open>free_lease\<close> has one attempt more than there
  are leases in the way, which is proved to be enough (\<open>free_lease_found\<close>).  Histories of terminals
  and leases are limited to fewer than 2 to the 64 generations, where the source's counters would
  wrap; a lease count would saturate there.

  \<^bold>\<open>Not modelled.\<close> The JSON form of the data; the operating system's pipes, processes and consoles;
  the async waiting of a shutdown; tracing.  Telemetry,
  keys, the agent, the migration and the routes of the HTTP server are not modelled yet.
\<close>

end
